(* ===== verification/Prelude.thy ===== *)
theory Prelude
  imports Main "HOL-Library.AList" "HOL-Library.Multiset"
begin

text \<open>
  Shared vocabulary of the development.

  \<^item> The outcome of a piece of C++ code: \<open>Inr\<close> of its result, or \<open>Inl\<close> of a fault. A fault
    is either undefined behaviour (an index past the end of a vector, \<open>front()\<close> of an empty
    list, a read through a null pointer or a reference to a freed node, signed overflow, a floating
    point number converted to an integer type it does not fit, division by zero, a shift by the width of the type or more, a search in an ordered container whose keys have been changed in place), a failed assertion, an exception that no handler of the modelled code catches, or a loop
    that never ends.
  \<^item> What the sources use of the C++ library on text: \<open>std::stoi\<close>, \<open>std::stoll\<close>,
    \<open>std::stoull\<close>, \<open>std::to_string\<close>, \<open>toupper\<close> and \<open>find("\r\n")\<close> (base 10 and the
    "C" locale, which the program never changes).
  \<^item> Association lists for the hash containers, with the laws the components use.
\<close>

named_theorems res_simps \<open>rewriting of the outcome combinators\<close>
named_theorems cpp_text \<open>unfolding of the text routines on closed strings\<close>

subsection \<open>Outcomes\<close>

datatype fault =
    OutOfBounds
  | EmptyContainer
  | UseAfterFree
  | SignedOverflow
  | ConversionOverflow
  | DivByZero
  | UncaughtException
  | NullDereference
  | AssertionFailed
  | Diverges
  | BadShift
  | BrokenOrder

type_synonym 'a res = "fault + 'a"

definition bnd :: "'a res \<Rightarrow> ('a \<Rightarrow> 'b res) \<Rightarrow> 'b res" where
  "bnd r f = (case r of Inl e \<Rightarrow> Inl e | Inr x \<Rightarrow> f x)"

lemma bnd_Inl [simp, res_simps]: "bnd (Inl e) f = Inl e"
  by (simp add: bnd_def)

lemma bnd_Inr [simp, res_simps]: "bnd (Inr x) f = f x"
  by (simp add: bnd_def)

lemma bnd_eq_Inr: "bnd r f = Inr y \<longleftrightarrow> (\<exists>x. r = Inr x \<and> f x = Inr y)"
  by (cases r) auto

lemma bnd_eq_Inl: "bnd r f = Inl e \<longleftrightarrow> r = Inl e \<or> (\<exists>x. r = Inr x \<and> f x = Inl e)"
  by (cases r) auto

lemma bnd_cong [fundef_cong]:
  "r = r' \<Longrightarrow> (\<And>x. r' = Inr x \<Longrightarrow> f x = g x) \<Longrightarrow> bnd r f = bnd r' g"
  by (cases r') auto

lemma bnd_split:
  "P (bnd r f) \<longleftrightarrow> (\<forall>e. r = Inl e \<longrightarrow> P (Inl e)) \<and> (\<forall>x. r = Inr x \<longrightarrow> P (f x))"
  by (cases r) auto

text \<open>Signed 64-bit arithmetic: a result outside the type is undefined behaviour.\<close>

definition int64_ok :: "int \<Rightarrow> bool" where
  "int64_ok v \<longleftrightarrow> - (2 ^ 63) \<le> v \<and> v < 2 ^ 63"

definition chk64 :: "int \<Rightarrow> int res" where
  "chk64 v = (if int64_ok v then Inr v else Inl SignedOverflow)"

lemma chk64_ok [simp]: "int64_ok v \<Longrightarrow> chk64 v = Inr v"
  by (simp add: chk64_def)

lemma chk64_Inr: "chk64 v = Inr w \<longleftrightarrow> int64_ok v \<and> w = v"
  by (auto simp: chk64_def)

subsection \<open>Characters and decimal numbers\<close>

definition CR :: char where "CR = CHR 0x0D"
definition LF :: char where "LF = CHR 0x0A"

abbreviation CRLF :: string where "CRLF \<equiv> [CR, LF]"

lemma CR_LF_neq [simp]: "CR \<noteq> LF" "LF \<noteq> CR"
  by (simp_all add: CR_def LF_def)

definition isspace :: "char \<Rightarrow> bool" where
  "isspace c \<longleftrightarrow> c = CHR '' '' \<or> (9 \<le> (of_char c :: nat) \<and> (of_char c :: nat) \<le> 13)"

definition isdigit :: "char \<Rightarrow> bool" where
  "isdigit c \<longleftrightarrow> 48 \<le> (of_char c :: nat) \<and> (of_char c :: nat) \<le> 57"

definition digit_val :: "char \<Rightarrow> nat" where
  "digit_val c = of_char c - 48"

definition digit_char :: "nat \<Rightarrow> char" where
  "digit_char d = char_of (48 + d)"

definition to_upper :: "char \<Rightarrow> char" where
  "to_upper c = (let n = (of_char c :: nat) in if 97 \<le> n \<and> n \<le> 122 then char_of (n - 32) else c)"

definition to_lower :: "char \<Rightarrow> char" where
  "to_lower c = (if 65 \<le> (of_char c :: nat) \<and> (of_char c :: nat) \<le> 90 then char_of ((of_char c :: nat) + 32) else c)"

definition tolower :: "string \<Rightarrow> string" where
  "tolower s = map to_lower s"

definition toupper :: "string \<Rightarrow> string" where
  "toupper s = map to_upper s"

fun to_string_nat :: "nat \<Rightarrow> string" where
  "to_string_nat n =
     (if n < 10 then [digit_char n] else to_string_nat (n div 10) @ [digit_char (n mod 10)])"

declare to_string_nat.simps [simp del]

definition to_string :: "int \<Rightarrow> string" where
  "to_string v = (if v < 0 then CHR ''-'' # to_string_nat (nat (- v)) else to_string_nat (nat v))"

definition dec_val :: "string \<Rightarrow> nat" where
  "dec_val ds = foldl (\<lambda>n c. 10 * n + digit_val c) 0 ds"

text \<open>
  \<open>strtol\<close> base 10: leading white space, an optional sign, then the longest run of digits; what
  follows is ignored. No digit at all is \<open>std::invalid_argument\<close>, here \<open>None\<close>.
\<close>

definition strto_sign :: "string \<Rightarrow> bool \<times> string" where
  "strto_sign s =
     (case s of [] \<Rightarrow> (False, [])
      | c # cs \<Rightarrow> if c = CHR ''-'' then (True, cs)
                 else if c = CHR ''+'' then (False, cs) else (False, s))"

definition strto :: "string \<Rightarrow> int option" where
  "strto s =
     (let (neg, s') = strto_sign (dropWhile isspace s);
          ds = takeWhile isdigit s'
      in if ds = [] then None
         else Some (if neg then - int (dec_val ds) else int (dec_val ds)))"

text \<open>Out of range is \<open>std::out_of_range\<close>, the other exception the callers catch.\<close>

definition stoi :: "string \<Rightarrow> int option" where
  "stoi s = (case strto s of None \<Rightarrow> None
     | Some v \<Rightarrow> if - (2 ^ 31) \<le> v \<and> v < 2 ^ 31 then Some v else None)"

definition stoll :: "string \<Rightarrow> int option" where
  "stoll s = (case strto s of None \<Rightarrow> None | Some v \<Rightarrow> if int64_ok v then Some v else None)"

text \<open>\<open>strtoull\<close> accepts a minus sign and negates modulo \<open>2 ^ 64\<close>.\<close>

definition stoull :: "string \<Rightarrow> nat option" where
  "stoull s = (case strto s of None \<Rightarrow> None
     | Some v \<Rightarrow> if \<bar>v\<bar> < 2 ^ 64 then Some (nat (v mod 2 ^ 64)) else None)"

lemmas [cpp_text] = strto_def strto_sign_def stoi_def stoll_def stoull_def dec_val_def
  digit_val_def isdigit_def isspace_def to_string_nat.simps to_string_def digit_char_def
  toupper_def to_upper_def tolower_def to_lower_def CR_def LF_def int64_ok_def

subsection \<open>Printing and reading back\<close>

lemma of_char_digit_char: "d < 10 \<Longrightarrow> (of_char (digit_char d) :: nat) = 48 + d"
  by (simp add: digit_char_def)

lemma isdigit_digit_char [simp]: "d < 10 \<Longrightarrow> isdigit (digit_char d)"
  by (simp add: isdigit_def of_char_digit_char)

lemma digit_val_digit_char [simp]: "d < 10 \<Longrightarrow> digit_val (digit_char d) = d"
  by (simp add: digit_val_def of_char_digit_char)

lemma to_string_nat_neq_Nil [simp]: "to_string_nat n \<noteq> []"
  by (subst to_string_nat.simps) simp

lemma to_string_nat_digits: "c \<in> set (to_string_nat n) \<Longrightarrow> isdigit c"
proof (induction n rule: to_string_nat.induct)
  case (1 n)
  then show ?case
    by (subst (asm) (2) to_string_nat.simps) (auto split: if_splits)
qed

lemma dec_val_append: "dec_val (ds @ [c]) = 10 * dec_val ds + digit_val c"
  by (simp add: dec_val_def)

lemma dec_val_to_string_nat [simp]: "dec_val (to_string_nat n) = n"
proof (induction n rule: to_string_nat.induct)
  case (1 n)
  show ?case
  proof (cases "n < 10")
    case True
    then show ?thesis by (subst to_string_nat.simps) (simp add: dec_val_def)
  next
    case False
    with 1 show ?thesis by (subst to_string_nat.simps) (simp add: dec_val_append)
  qed
qed

lemma isdigit_not_space: "isdigit c \<Longrightarrow> \<not> isspace c"
  by (auto simp: isdigit_def isspace_def)

lemma isdigit_not_sign: "isdigit c \<Longrightarrow> c \<noteq> CHR ''-'' \<and> c \<noteq> CHR ''+'' \<and> c \<noteq> CR \<and> c \<noteq> LF \<and> c \<noteq> CHR '':''"
  by (auto simp: isdigit_def CR_def LF_def)

lemma strto_digits:
  assumes "ds \<noteq> []" and "\<forall>c \<in> set ds. isdigit c" and "rest = [] \<or> \<not> isdigit (hd rest)"
  shows "strto (ds @ rest) = Some (int (dec_val ds))"
proof -
  obtain d ds' where ds: "ds = d # ds'" using assms(1) by (cases ds) auto
  have d: "isdigit d" using assms(2) ds by simp
  have *: "dropWhile isspace (ds @ rest) = ds @ rest"
    using d ds by (simp add: isdigit_not_space)
  have **: "strto_sign (ds @ rest) = (False, ds @ rest)"
    using d ds by (auto simp: strto_sign_def dest: isdigit_not_sign)
  have "takeWhile isdigit (ds @ rest) = ds"
    using assms(2,3) by (cases rest) (auto simp: takeWhile_append)
  then show ?thesis using * ** assms(1) by (simp add: strto_def)
qed

lemma strto_neg_digits:
  assumes "ds \<noteq> []" and "\<forall>c \<in> set ds. isdigit c" and "rest = [] \<or> \<not> isdigit (hd rest)"
  shows "strto (CHR ''-'' # ds @ rest) = Some (- int (dec_val ds))"
proof -
  have "takeWhile isdigit (ds @ rest) = ds"
    using assms(2,3) by (cases rest) (auto simp: takeWhile_append)
  moreover have "\<not> isspace (CHR ''-'')" by (simp add: isspace_def)
  ultimately show ?thesis using assms(1) by (simp add: strto_def strto_sign_def)
qed

lemma strto_to_string_append:
  "rest = [] \<or> \<not> isdigit (hd rest) \<Longrightarrow> strto (to_string v @ rest) = Some v"
  using strto_digits [of "to_string_nat (nat v)" rest]
    strto_neg_digits [of "to_string_nat (nat (- v))" rest]
  by (auto simp: to_string_def to_string_nat_digits)

lemma strto_to_string [simp]: "strto (to_string v) = Some v"
  using strto_to_string_append [of "[]" v] by simp

lemma stoll_to_string [simp]: "int64_ok v \<Longrightarrow> stoll (to_string v) = Some v"
  by (simp add: stoll_def)

lemma stoll_int64_ok: "stoll s = Some v \<Longrightarrow> int64_ok v"
  by (auto simp: stoll_def split: option.splits if_splits)

subsection \<open>Searching for a line end\<close>

text \<open>\<open>data.find("\r\n")\<close>: the position of the first carriage return followed by a line feed.\<close>

fun find_crlf :: "string \<Rightarrow> nat option" where
  "find_crlf (a # b # r) =
     (if a = CR \<and> b = LF then Some 0 else map_option Suc (find_crlf (b # r)))"
| "find_crlf _ = None"

lemma find_crlf_bound: "find_crlf s = Some p \<Longrightarrow> p + 2 \<le> length s"
  by (induction s arbitrary: p rule: find_crlf.induct) (auto split: if_splits)

lemma find_crlf_append: "find_crlf s = Some p \<Longrightarrow> find_crlf (s @ t) = Some p"
  by (induction s arbitrary: p rule: find_crlf.induct) (auto split: if_splits)

lemma find_crlf_no_CR: "CR \<notin> set s \<Longrightarrow> find_crlf (s @ CR # LF # t) = Some (length s)"
proof (induction s)
  case (Cons a s)
  then show ?case by (cases s) auto
qed simp

lemma find_crlf_line: "find_crlf s = None \<Longrightarrow> (s = [] \<or> last s \<noteq> CR) \<Longrightarrow>
    find_crlf (s @ CR # LF # t) = Some (length s)"
  by (induction s rule: find_crlf.induct) (auto split: if_splits)

lemma find_crlf_Cons: "c \<noteq> CR \<Longrightarrow> find_crlf (c # s) = map_option Suc (find_crlf s)"
  by (cases s) auto

lemma to_string_no_CR: "c \<in> set (to_string v) \<Longrightarrow> c \<noteq> CR \<and> c \<noteq> LF"
  using to_string_nat_digits isdigit_not_sign
  by (fastforce simp: to_string_def CR_def LF_def split: if_splits)

lemma find_crlf_to_string: "find_crlf (to_string v @ CR # LF # t) = Some (length (to_string v))"
  using to_string_no_CR [of CR v] by (intro find_crlf_no_CR) blast

subsection \<open>Hash containers\<close>

text \<open>
  A hash map (\<open>absl::flat_hash_map\<close>, \<open>std::unordered_map\<close>) is an association list with
  distinct keys, a hash set (\<open>std::unordered_set\<close>) a list without repetitions. The order in
  which such a container is traversed is not specified; definitions that traverse one take the
  order as an argument (see theory \<open>ServerData\<close>).
\<close>

type_synonym 'v hmap = "(string \<times> 'v) list"

abbreviation insert_or_assign :: "string \<Rightarrow> 'v \<Rightarrow> 'v hmap \<Rightarrow> 'v hmap" where
  "insert_or_assign \<equiv> AList.update"

abbreviation erase :: "string \<Rightarrow> 'v hmap \<Rightarrow> 'v hmap" where
  "erase \<equiv> AList.delete"

abbreviation keys :: "'v hmap \<Rightarrow> string list" where
  "keys m \<equiv> map fst m"

definition hmap_ok :: "'v hmap \<Rightarrow> bool" where
  "hmap_ok m \<longleftrightarrow> distinct (keys m)"

definition set_insert :: "'a \<Rightarrow> 'a list \<Rightarrow> 'a list" where
  "set_insert x xs = (if x \<in> set xs then xs else xs @ [x])"

lemma set_set_insert [simp]: "set (set_insert x xs) = insert x (set xs)"
  by (auto simp: set_insert_def)

lemma distinct_set_insert [simp]: "distinct (set_insert x xs) \<longleftrightarrow> distinct xs"
  by (auto simp: set_insert_def)

text \<open>The interface of a hash map, as its clients use it.\<close>

locale hash_container =
  fixes find :: "'m \<Rightarrow> 'k \<Rightarrow> 'v option"
    and ins :: "'k \<Rightarrow> 'v \<Rightarrow> 'm \<Rightarrow> 'm"
    and del :: "'k \<Rightarrow> 'm \<Rightarrow> 'm"
    and ks :: "'m \<Rightarrow> 'k list"
    and ok :: "'m \<Rightarrow> bool"
  assumes find_ins: "find (ins k v m) = (find m)(k \<mapsto> v)"
    and find_del: "find (del k m) = (find m)(k := None)"
    and find_None: "find m k = None \<longleftrightarrow> k \<notin> set (ks m)"
    and ks_distinct: "ok m \<Longrightarrow> distinct (ks m)"
    and ok_ins: "ok m \<Longrightarrow> ok (ins k v m)"
    and ok_del: "ok m \<Longrightarrow> ok (del k m)"
begin

lemma set_ks: "set (ks m) = dom (find m)"
  using find_None by (auto simp: dom_def)

lemma ins_keys: "set (ks (ins k v m)) = insert k (set (ks m))"
  by (auto simp: set_ks find_ins)

lemma del_keys: "set (ks (del k m)) = set (ks m) - {k}"
  by (auto simp: set_ks find_del)

lemma size_ins:
  "ok m \<Longrightarrow> length (ks (ins k v m)) = length (ks m) + (if find m k = None then 1 else 0)"
  by (simp add: distinct_card [OF ks_distinct, symmetric] ok_ins ins_keys find_None card_insert_if)

lemma size_del:
  "ok m \<Longrightarrow> length (ks (del k m)) = length (ks m) - (if find m k = None then 0 else 1)"
  by (simp add: distinct_card [OF ks_distinct, symmetric] ok_del del_keys find_None
      card_Diff_singleton_if)

lemma empty_iff: "ks m = [] \<longleftrightarrow> find m = Map.empty"
  by (metis dom_eq_empty_conv set_empty set_ks)

end

lemma map_of_None_keys: "map_of m k = None \<longleftrightarrow> k \<notin> set (keys m)"
  by (induction m) auto

interpretation hm: hash_container map_of insert_or_assign erase keys hmap_ok
  by unfold_locales
    (auto simp: update_conv' delete_conv' map_of_None_keys hmap_ok_def distinct_update
      distinct_delete)

lemma hmap_ok_Nil [simp]: "hmap_ok []"
  by (simp add: hmap_ok_def)

lemmas hmap_simps = hm.find_ins hm.find_del hm.ok_ins hm.ok_del

end
