(* ===== verification/Resp.thy ===== *)
theory Resp
  imports Prelude
begin

text \<open>
  The RESP wire protocol, \<open>src/src/util/resp_parser.{h,cpp}\<close>: the value type, the factories,
  \<open>encodeTo\<close>, the recursive \<open>parse\<close> and the incremental \<open>RespStreamParser\<close>.

  \<open>parse\<close> returns the value and the number of bytes consumed, 0 standing for "incomplete or
  malformed". Before it reads the elements of an array it reserves room for the announced number
  of them, which throws when the allocator cannot serve it; the argument \<open>cap\<close> is the largest
  number of elements that can be reserved.
\<close>

subsection \<open>Values\<close>

datatype RespType = SIMPLE_STRING | ERROR | INTEGER | BULK_STRING | ARRAY | NULL_VAL | NIL

datatype RespValue = RespValue (rtype: RespType) (str: string) (integ: int) (arr: "RespValue list")

text \<open>The default constructor, which is also what \<open>reset\<close> leaves behind.\<close>

definition resp_default :: RespValue where
  "resp_default = RespValue NIL [] 0 []"

definition simple_string :: "string \<Rightarrow> RespValue" where
  "simple_string s = RespValue SIMPLE_STRING s 0 []"

definition error :: "string \<Rightarrow> RespValue" where
  "error err = RespValue ERROR err 0 []"

definition integer :: "int \<Rightarrow> RespValue" where
  "integer val = RespValue INTEGER [] val []"

definition bulk_string :: "string \<Rightarrow> RespValue" where
  "bulk_string bulk = RespValue BULK_STRING bulk 0 []"

definition null_bulk :: RespValue where
  "null_bulk = RespValue NULL_VAL [] 0 []"

definition array :: "RespValue list \<Rightarrow> RespValue" where
  "array elems = RespValue ARRAY [] 0 elems"

lemmas resp_factories = simple_string_def error_def integer_def bulk_string_def null_bulk_def array_def

lemma resp_factory_inject [simp]:
  "simple_string s = simple_string t \<longleftrightarrow> s = t" "error s = error t \<longleftrightarrow> s = t"
  "integer v = integer w \<longleftrightarrow> v = w" "bulk_string s = bulk_string t \<longleftrightarrow> s = t"
  "array xs = array ys \<longleftrightarrow> xs = ys"
  by (simp_all add: resp_factories)

lemma resp_factory_distinct [simp]:
  "error s \<noteq> integer v" "integer v \<noteq> error s" "error s \<noteq> simple_string t" "simple_string t \<noteq> error s"
  "error s \<noteq> bulk_string t" "bulk_string t \<noteq> error s" "error s \<noteq> null_bulk" "null_bulk \<noteq> error s"
  "error s \<noteq> array xs" "array xs \<noteq> error s" "bulk_string t \<noteq> null_bulk" "null_bulk \<noteq> bulk_string t"
  "integer v \<noteq> null_bulk" "null_bulk \<noteq> integer v" "array xs \<noteq> null_bulk" "null_bulk \<noteq> array xs"
  by (simp_all add: resp_factories)

lemma str_bulk_string [simp]: "str (bulk_string s) = s"
  by (simp add: bulk_string_def)

subsection \<open>Encoding\<close>

fun encodeTo :: "RespValue \<Rightarrow> string \<Rightarrow> string" where
  "encodeTo (RespValue ty s n xs) out =
     (case ty of
        SIMPLE_STRING \<Rightarrow> out @ ''+'' @ s @ CRLF
      | BULK_STRING \<Rightarrow> out @ ''$'' @ to_string (int (length s)) @ CRLF @ s @ CRLF
      | INTEGER \<Rightarrow> out @ '':'' @ to_string n @ CRLF
      | ERROR \<Rightarrow> out @ ''-'' @ s @ CRLF
      | ARRAY \<Rightarrow> fold encodeTo xs (out @ ''*'' @ to_string (int (length xs)) @ CRLF)
      | NULL_VAL \<Rightarrow> out @ ''$-1'' @ CRLF
      | NIL \<Rightarrow> out @ ''$-1'' @ CRLF)"

definition encode :: "RespValue \<Rightarrow> string" where
  "encode val = encodeTo val []"

subsection \<open>Parsing\<close>

text \<open>The reply \<open>{RespValue(), 0}\<close>.\<close>

definition parse_fail :: "(RespValue \<times> nat) res" where
  "parse_fail = Inr (resp_default, 0)"

text \<open>The cases of a single line: everything between the type byte and the first line end.\<close>

definition parse_line :: "RespType \<Rightarrow> string \<Rightarrow> (RespValue \<times> nat) res" where
  "parse_line ty data =
     (case find_crlf data of None \<Rightarrow> parse_fail
      | Some pos \<Rightarrow> Inr (RespValue ty (take (pos - 1) (drop 1 data)) 0 [], pos + 2))"

text \<open>
  The number on the first line, with the position of the line end: \<open>None\<close> when the line is not
  complete or \<open>std::stoll\<close> throws.
\<close>

definition parse_len :: "string \<Rightarrow> (int \<times> nat) option" where
  "parse_len data =
     (case find_crlf data of None \<Rightarrow> None
      | Some pos \<Rightarrow> map_option (\<lambda>v. (v, pos)) (stoll (take (pos - 1) (drop 1 data))))"

definition parse_integer :: "string \<Rightarrow> (RespValue \<times> nat) res" where
  "parse_integer data =
     (case parse_len data of None \<Rightarrow> parse_fail | Some (v, pos) \<Rightarrow> Inr (integer v, pos + 2))"

definition parse_bulk :: "string \<Rightarrow> (RespValue \<times> nat) res" where
  "parse_bulk data =
     (case parse_len data of None \<Rightarrow> parse_fail
      | Some (len, pos) \<Rightarrow>
          if len = - 1 then Inr (null_bulk, pos + 2)
          else if len < 0 then parse_fail
          else
            let content_start = pos + 2 in
            if content_start + nat len > length data then parse_fail
            else
              (case find_crlf (drop content_start data) of None \<Rightarrow> parse_fail
               | Some d \<Rightarrow>
                   let content_end = content_start + d in
                   if int (content_end - content_start) \<noteq> len then parse_fail
                   else Inr (bulk_string (take (nat len) (drop content_start data)),
                             content_end + 2)))"

text \<open>
  \<open>parse_elems\<close> is the element loop of the array case: \<open>rest\<close> is the data from \<open>start_pos\<close> on,
  \<open>acc\<close> the elements read so far and \<open>used\<close> is \<open>total_consumed\<close>. An array that stops early
  gives the failure reply of the whole array.
\<close>

function parse :: "nat \<Rightarrow> string \<Rightarrow> (RespValue \<times> nat) res"
  and parse_elems :: "nat \<Rightarrow> nat \<Rightarrow> string \<Rightarrow> RespValue list \<Rightarrow> nat \<Rightarrow> (RespValue \<times> nat) res"
where
  "parse cap data =
     (case data of [] \<Rightarrow> parse_fail
      | c # _ \<Rightarrow>
          if c = CHR ''+'' then parse_line SIMPLE_STRING data
          else if c = CHR ''-'' then parse_line ERROR data
          else if c = CHR '':'' then parse_integer data
          else if c = CHR ''$'' then parse_bulk data
          else if c = CHR ''*'' then
            (case parse_len data of None \<Rightarrow> parse_fail
             | Some (cnt, pos) \<Rightarrow>
                 if cnt < 0 then parse_fail
                 else if nat cnt > cap then Inl UncaughtException
                 else parse_elems cap (nat cnt) (drop (pos + 2) data) [] (pos + 2))
          else parse_fail)"
| "parse_elems cap n rest acc used =
     (if n = 0 then Inr (array acc, used)
      else if rest = [] then parse_fail
      else bnd (parse cap rest) (\<lambda>(elem, consumed).
             if consumed = 0 then parse_fail
             else parse_elems cap (n - 1) (drop consumed rest) (acc @ [elem]) (used + consumed)))"
  by pat_completeness auto
termination
  by (relation "measures [\<lambda>x. case x of Inl (cap, data) \<Rightarrow> length data
                               | Inr (cap, n, rest, acc, used) \<Rightarrow> length rest,
                          \<lambda>x. case x of Inl _ \<Rightarrow> 0 | Inr _ \<Rightarrow> 1]") auto

declare parse.simps [simp del] parse_elems.simps [simp del]

subsection \<open>Laws of the encoder and the parser\<close>

lemma fold_encodeTo:
  "(\<And>v out. v \<in> set xs \<Longrightarrow> encodeTo v out = out @ encode v) \<Longrightarrow>
   fold encodeTo xs out = out @ concat (map encode xs)"
  by (induction xs arbitrary: out) auto

lemma encodeTo_append: "encodeTo v out = out @ encode v"
proof (induction v arbitrary: out)
  case (RespValue ty s n xs)
  show ?case
  proof (cases ty)
    case ARRAY
    then show ?thesis by (simp add: encode_def fold_encodeTo [OF RespValue])
  qed (simp_all add: encode_def)
qed

lemma encode_simps [simp]:
  "encode (simple_string s) = ''+'' @ s @ CRLF"
  "encode (error s) = ''-'' @ s @ CRLF"
  "encode (integer n) = '':'' @ to_string n @ CRLF"
  "encode (bulk_string s) = ''$'' @ to_string (int (length s)) @ CRLF @ s @ CRLF"
  "encode null_bulk = ''$-1'' @ CRLF"
  "encode (array xs) = ''*'' @ to_string (int (length xs)) @ CRLF @ concat (map encode xs)"
  by (simp_all add: encode_def resp_factories fold_encodeTo [OF encodeTo_append])


lemma parse_len_bound: "parse_len data = Some (v, p) \<Longrightarrow> p + 2 \<le> length data"
  by (auto simp: parse_len_def split: option.splits dest: find_crlf_bound)

lemma parse_len_append: "parse_len data = Some (v, p) \<Longrightarrow> parse_len (data @ more) = Some (v, p)"
  by (auto simp: parse_len_def find_crlf_append split: option.splits dest: find_crlf_bound)

lemma parse_line_bound: "parse_line ty data = Inr (v, n) \<Longrightarrow> n \<le> length data"
  by (auto simp: parse_line_def parse_fail_def split: option.splits dest: find_crlf_bound)

lemma parse_integer_bound: "parse_integer data = Inr (v, n) \<Longrightarrow> n \<le> length data"
  by (auto simp: parse_integer_def parse_fail_def split: option.splits dest: parse_len_bound)

lemma parse_bulk_bound: "parse_bulk data = Inr (v, n) \<Longrightarrow> n \<le> length data"
  by (auto simp: parse_bulk_def parse_fail_def Let_def split: option.splits if_splits
      dest!: find_crlf_bound parse_len_bound)

text \<open>One unfolding per type byte.\<close>

lemma parse_Nil [simp]: "parse cap [] = parse_fail"
  by (simp add: parse.simps)

lemma parse_plus: "parse cap (CHR ''+'' # cs) = parse_line SIMPLE_STRING (CHR ''+'' # cs)"
  by (simp add: parse.simps)

lemma parse_minus: "parse cap (CHR ''-'' # cs) = parse_line ERROR (CHR ''-'' # cs)"
  by (simp add: parse.simps)

lemma parse_colon: "parse cap (CHR '':'' # cs) = parse_integer (CHR '':'' # cs)"
  by (simp add: parse.simps)

lemma parse_dollar: "parse cap (CHR ''$'' # cs) = parse_bulk (CHR ''$'' # cs)"
  by (simp add: parse.simps)

lemma parse_star:
  "parse cap (CHR ''*'' # cs) =
     (case parse_len (CHR ''*'' # cs) of None \<Rightarrow> parse_fail
      | Some (cnt, pos) \<Rightarrow>
          if cnt < 0 then parse_fail
          else if nat cnt > cap then Inl UncaughtException
          else parse_elems cap (nat cnt) (drop (pos + 2) (CHR ''*'' # cs)) [] (pos + 2))"
  by (simp add: parse.simps)

lemma parse_other:
  "c \<notin> {CHR ''+'', CHR ''-'', CHR '':'', CHR ''$'', CHR ''*''} \<Longrightarrow> parse cap (c # cs) = parse_fail"
  by (simp add: parse.simps)

lemmas parse_cases = parse_plus parse_minus parse_colon parse_dollar parse_star parse_other

lemma resp_byte_cases:
  obtains "data = []" | cs where "data = CHR ''+'' # cs" | cs where "data = CHR ''-'' # cs"
  | cs where "data = CHR '':'' # cs" | cs where "data = CHR ''$'' # cs"
  | cs where "data = CHR ''*'' # cs"
  | c cs where "data = c # cs" "c \<notin> {CHR ''+'', CHR ''-'', CHR '':'', CHR ''$'', CHR ''*''}"
  by (cases data) auto

lemma parse_elems_0 [simp]: "parse_elems cap 0 rest acc used = Inr (array acc, used)"
  by (simp add: parse_elems.simps)

lemma parse_elems_Suc:
  "rest \<noteq> [] \<Longrightarrow> parse_elems cap (Suc n) rest acc used =
     bnd (parse cap rest) (\<lambda>(elem, consumed).
       if consumed = 0 then parse_fail
       else parse_elems cap n (drop consumed rest) (acc @ [elem]) (used + consumed))"
  by (simp add: parse_elems.simps [of cap "Suc n"] cong: if_cong)

lemma parse_elems_SucE:
  assumes "parse_elems cap (Suc n) rest acc used = Inr (v, k)" "k > 0"
  obtains elem c where "rest \<noteq> []" "parse cap rest = Inr (elem, c)" "c > 0"
    "parse_elems cap n (drop c rest) (acc @ [elem]) (used + c) = Inr (v, k)"
  using assms parse_elems.simps [of cap "Suc n" rest acc used]
  by (auto simp: bnd_eq_Inr parse_fail_def split: if_splits)

lemma parse_elems_bound:
  assumes "\<And>r v k. length r \<le> length rest \<Longrightarrow> parse cap r = Inr (v, k) \<Longrightarrow> k \<le> length r"
  shows "parse_elems cap n rest acc used = Inr (w, m) \<Longrightarrow> m \<le> used + length rest"
  using assms
proof (induction n arbitrary: rest acc used)
  case (Suc n)
  show ?case
  proof (cases "m > 0")
    case True
    from Suc.prems(1) True obtain elem c where p: "parse cap rest = Inr (elem, c)"
      "parse_elems cap n (drop c rest) (acc @ [elem]) (used + c) = Inr (w, m)"
      by (rule parse_elems_SucE)
    have "c \<le> length rest" using Suc.prems(2) p(1) by blast
    moreover have "m \<le> used + c + length (drop c rest)"
      by (rule Suc.IH [OF p(2)]) (use Suc.prems(2) in force)
    ultimately show ?thesis by simp
  qed simp
qed simp

lemma parse_starE:
  assumes "parse cap (CHR ''*'' # cs) = Inr (v, n)" "n > 0"
  obtains cnt pos where "parse_len (CHR ''*'' # cs) = Some (cnt, pos)" "0 \<le> cnt" "nat cnt \<le> cap"
    "parse_elems cap (nat cnt) (drop (pos + 2) (CHR ''*'' # cs)) [] (pos + 2) = Inr (v, n)"
  using assms by (auto simp: parse_star parse_fail_def split: option.splits if_splits)

lemma parse_bound: "parse cap data = Inr (v, n) \<Longrightarrow> n \<le> length data"
proof (induction data arbitrary: v n rule: length_induct)
  case (1 data)
  show ?case
  proof (cases data rule: resp_byte_cases)
    case (6 cs)
    show ?thesis
    proof (cases "n > 0")
      case True
      from 1(2) True obtain cnt pos where l: "parse_len data = Some (cnt, pos)"
        and e: "parse_elems cap (nat cnt) (drop (pos + 2) data) [] (pos + 2) = Inr (v, n)"
        unfolding 6 by (rule parse_starE)
      have "n \<le> pos + 2 + length (drop (pos + 2) data)"
        by (rule parse_elems_bound [OF _ e]) (use 1(1) 6 in \<open>simp add: le_imp_less_Suc\<close>)
      then show ?thesis using parse_len_bound [OF l] by simp
    qed simp
  qed (use 1(2) in \<open>auto simp: parse_cases parse_fail_def
        dest: parse_line_bound parse_integer_bound parse_bulk_bound\<close>)
qed

lemma parse_line_append:
  "parse_line ty data = Inr (v, n) \<Longrightarrow> n > 0 \<Longrightarrow> parse_line ty (data @ more) = Inr (v, n)"
  by (auto simp: parse_line_def parse_fail_def find_crlf_append split: option.splits
      dest!: find_crlf_bound)

lemma parse_integer_append:
  "parse_integer data = Inr (v, n) \<Longrightarrow> n > 0 \<Longrightarrow> parse_integer (data @ more) = Inr (v, n)"
  by (auto simp: parse_integer_def parse_fail_def parse_len_append split: option.splits)

lemma parse_bulk_append:
  "parse_bulk data = Inr (v, n) \<Longrightarrow> n > 0 \<Longrightarrow> parse_bulk (data @ more) = Inr (v, n)"
  by (auto simp: parse_bulk_def parse_fail_def Let_def parse_len_append find_crlf_append
      split: option.splits if_splits dest: parse_len_bound)

lemma parse_elems_append:
  assumes "\<And>r v k. length r \<le> length rest \<Longrightarrow> parse cap r = Inr (v, k) \<Longrightarrow> k > 0 \<Longrightarrow>
             parse cap (r @ more) = Inr (v, k)"
  shows "parse_elems cap n rest acc used = Inr (w, m) \<Longrightarrow> m > 0 \<Longrightarrow>
           parse_elems cap n (rest @ more) acc used = Inr (w, m)"
  using assms
proof (induction n arbitrary: rest acc used)
  case (Suc n)
  from Suc.prems(1,2) obtain elem c where p: "rest \<noteq> []" "parse cap rest = Inr (elem, c)" "c > 0"
    "parse_elems cap n (drop c rest) (acc @ [elem]) (used + c) = Inr (w, m)"
    by (rule parse_elems_SucE)
  have "parse cap (rest @ more) = Inr (elem, c)" using Suc.prems(3) p by blast
  moreover have "parse_elems cap n (drop c rest @ more) (acc @ [elem]) (used + c) = Inr (w, m)"
    by (rule Suc.IH [OF p(4) Suc.prems(2)]) (use Suc.prems(3) in force)
  ultimately show ?case using p parse_bound [OF p(2)] by (simp add: parse_elems_Suc)
qed simp

text \<open>What a successful parse returns does not depend on the bytes that follow.\<close>

lemma parse_append:
  "parse cap data = Inr (v, n) \<Longrightarrow> n > 0 \<Longrightarrow> parse cap (data @ more) = Inr (v, n)"
proof (induction data arbitrary: v n rule: length_induct)
  case (1 data)
  show ?case
  proof (cases data rule: resp_byte_cases)
    case (6 cs)
    from 1(2,3) obtain cnt pos where l: "parse_len data = Some (cnt, pos)" "0 \<le> cnt" "nat cnt \<le> cap"
        and e: "parse_elems cap (nat cnt) (drop (pos + 2) data) [] (pos + 2) = Inr (v, n)"
        unfolding 6 by (rule parse_starE)
    have "parse_elems cap (nat cnt) (drop (pos + 2) data @ more) [] (pos + 2) = Inr (v, n)"
        by (rule parse_elems_append [OF _ e 1(3)]) (use 1(1) 6 in \<open>simp add: le_imp_less_Suc\<close>)
    moreover have "drop (pos + 2) (data @ more) = drop (pos + 2) data @ more"
      using parse_len_bound [OF l(1)] by simp
    moreover have "parse_len (data @ more) = Some (cnt, pos)" using l(1) by (rule parse_len_append)
    ultimately show ?thesis using l(2,3) unfolding 6 by (simp add: parse_star)
  qed (use 1(2,3) in \<open>auto simp: parse_cases parse_fail_def parse_line_append [of _ "_ # _", simplified]
        parse_integer_append [of "_ # _", simplified] parse_bulk_append [of "_ # _", simplified]\<close>)
qed

text \<open>An exception is thrown for the same reason however many bytes follow.\<close>

lemma parse_elems_append_fault:
  assumes "\<And>r. length r \<le> length rest \<Longrightarrow> parse cap r = Inl e \<Longrightarrow> parse cap (r @ more) = Inl e"
  shows "parse_elems cap n rest acc used = Inl e \<Longrightarrow> parse_elems cap n (rest @ more) acc used = Inl e"
  using assms
proof (induction n arbitrary: rest acc used)
  case (Suc n)
  from Suc.prems(1) have ne: "rest \<noteq> []" by (auto simp: parse_elems.simps [of cap "Suc n"] parse_fail_def)
  show ?case
  proof (cases "parse cap rest")
    case (Inl e')
    then show ?thesis using Suc.prems ne by (simp add: parse_elems_Suc)
  next
    case (Inr r)
    obtain elem c where r: "r = (elem, c)" by (cases r)
    with Inr Suc.prems(1) ne have c: "c > 0"
      and *: "parse_elems cap n (drop c rest) (acc @ [elem]) (used + c) = Inl e"
      by (auto simp: parse_elems_Suc parse_fail_def split: if_splits)
    have "parse_elems cap n (drop c rest @ more) (acc @ [elem]) (used + c) = Inl e"
      by (rule Suc.IH [OF *]) (use Suc.prems(2) in force)
    then show ?thesis
      using parse_append [of cap rest elem c more] parse_bound [of cap rest elem c] Inr r c ne
      by (simp add: parse_elems_Suc)
  qed
qed simp

lemma parse_lines_no_fault:
  "parse_line ty data \<noteq> Inl e" "parse_integer data \<noteq> Inl e" "parse_bulk data \<noteq> Inl e"
  by (auto simp: parse_line_def parse_integer_def parse_bulk_def parse_fail_def Let_def
      split: option.splits if_splits)

lemma parse_append_fault: "parse cap data = Inl e \<Longrightarrow> parse cap (data @ more) = Inl e"
proof (induction data rule: length_induct)
  case (1 data)
  show ?case
  proof (cases data rule: resp_byte_cases)
    case (6 cs)
    from 1(2) obtain cnt pos where l: "parse_len data = Some (cnt, pos)" "0 \<le> cnt"
        and e: "if nat cnt > cap then e = UncaughtException
                else parse_elems cap (nat cnt) (drop (pos + 2) data) [] (pos + 2) = Inl e"
      unfolding 6 by (auto simp: parse_star parse_fail_def split: option.splits if_splits)
    have d: "drop (pos + 2) (data @ more) = drop (pos + 2) data @ more"
      using parse_len_bound [OF l(1)] by simp
    have "parse_elems cap (nat cnt) (drop (pos + 2) data @ more) [] (pos + 2) = Inl e" if "\<not> nat cnt > cap"
      by (rule parse_elems_append_fault) (use 1(1) 6 e that in \<open>simp_all add: le_imp_less_Suc\<close>)
    then show ?thesis using e l(2) parse_len_append [OF l(1)] d unfolding 6
      by (auto simp: parse_star)
  qed (use 1(2) in \<open>auto simp: parse_cases parse_fail_def parse_lines_no_fault\<close>)
qed

subsection \<open>Reading back what was encoded\<close>

text \<open>
  The values that survive a round trip: text must not contain a line end (the bulk case of
  \<open>parse\<close> looks for the first one instead of trusting the announced length), numbers and lengths
  fit \<open>int64_t\<close>, and only the field that belongs to the type is set.
\<close>

definition line_ok :: "string \<Rightarrow> bool" where
  "line_ok s \<longleftrightarrow> find_crlf s = None \<and> (s = [] \<or> last s \<noteq> CR)"

fun resp_wf :: "nat \<Rightarrow> RespValue \<Rightarrow> bool" where
  "resp_wf cap (RespValue ty s n xs) =
     (case ty of
        SIMPLE_STRING \<Rightarrow> line_ok s \<and> n = 0 \<and> xs = []
      | ERROR \<Rightarrow> line_ok s \<and> n = 0 \<and> xs = []
      | INTEGER \<Rightarrow> s = [] \<and> int64_ok n \<and> xs = []
      | BULK_STRING \<Rightarrow> line_ok s \<and> int64_ok (int (length s)) \<and> n = 0 \<and> xs = []
      | ARRAY \<Rightarrow> s = [] \<and> n = 0 \<and> int64_ok (int (length xs)) \<and> length xs \<le> cap \<and> (\<forall>x \<in> set xs. resp_wf cap x)
      | NULL_VAL \<Rightarrow> s = [] \<and> n = 0 \<and> xs = []
      | NIL \<Rightarrow> False)"

lemma line_ok_find: "line_ok s \<Longrightarrow> find_crlf (s @ CR # LF # t) = Some (length s)"
  by (simp add: line_ok_def find_crlf_line)

lemma parse_len_to_string:
  "c \<noteq> CR \<Longrightarrow> int64_ok v \<Longrightarrow> parse_len (c # to_string v @ CR # LF # t) = Some (v, length (to_string v) + 1)"
  by (simp add: parse_len_def find_crlf_Cons find_crlf_to_string)

lemma type_byte_neq_CR [simp]:
  "CHR ''+'' \<noteq> CR" "CHR ''-'' \<noteq> CR" "CHR '':'' \<noteq> CR" "CHR ''$'' \<noteq> CR" "CHR ''*'' \<noteq> CR"
  by (simp_all add: CR_def)

lemma parse_null_bulk: "parse cap (CHR ''$'' # CHR ''-'' # CHR ''1'' # CR # LF # t) = Inr (null_bulk, 5)"
proof -
  have "to_string (- 1) = ''-1''" by code_simp
  then show ?thesis
    using parse_len_to_string [of "CHR ''$''" "- 1" t]
    by (simp add: parse_dollar parse_bulk_def int64_ok_def)
qed

lemma parse_elems_encode:
  assumes "\<And>x t. x \<in> set xs \<Longrightarrow> parse cap (encode x @ t) = Inr (x, length (encode x)) \<and> encode x \<noteq> []"
  shows "parse_elems cap (length xs) (concat (map encode xs) @ t) acc used
       = Inr (array (acc @ xs), used + length (concat (map encode xs)))"
  using assms
proof (induction xs arbitrary: acc used)
  case (Cons x xs)
  then show ?case by (simp add: parse_elems_Suc)
qed simp

lemma encode_neq_Nil: "encode v \<noteq> []"
  by (cases v; cases "rtype v")
    (auto simp: encode_def fold_encodeTo [OF encodeTo_append])

lemma parse_encode: "resp_wf cap v \<Longrightarrow> parse cap (encode v @ t) = Inr (v, length (encode v))"
proof (induction v arbitrary: t)
  case (RespValue ty s n xs)
  show ?case
  proof (cases ty)
    case ARRAY
    then have v: "RespValue ty s n xs = array xs" and w: "int64_ok (int (length xs))" "length xs \<le> cap"
        "\<forall>x\<in>set xs. resp_wf cap x"
      using RespValue.prems by (auto simp: array_def)
    have "parse_elems cap (length xs) (concat (map encode xs) @ t) [] u
       = Inr (array ([] @ xs), u + length (concat (map encode xs)))" for u
      by (rule parse_elems_encode) (use RespValue.IH w(3) encode_neq_Nil in blast)
    then show ?thesis using w unfolding v by (simp add: parse_star parse_len_to_string)
  next
    case NULL_VAL
    with RespValue.prems show ?thesis
      using parse_null_bulk [of cap t] by (simp add: encode_def null_bulk_def)
  qed (use RespValue.prems in \<open>auto simp: encode_def parse_cases parse_line_def parse_integer_def parse_bulk_def
      find_crlf_Cons line_ok_find parse_len_to_string resp_factories Let_def\<close>)
qed

subsection \<open>Properties\<close>

text \<open>C1. Reading back an encoded value, with any bytes after it, gives the value and consumes
  exactly the bytes of its encoding.\<close>

theorem resp_roundtrip:
  assumes "resp_wf cap v"
  shows "parse cap (encode v @ rest) = Inr (v, length (encode v))"
  using assms by (rule parse_encode)

theorem resp_roundtrip_witness:
  "parse 16 (encode (array [bulk_string ''SET'', bulk_string ''k'', integer (- 7)]) @ ''*1'')
     = Inr (array [bulk_string ''SET'', bulk_string ''k'', integer (- 7)],
            length (encode (array [bulk_string ''SET'', bulk_string ''k'', integer (- 7)])))"
  by (rule resp_roundtrip) code_simp

text \<open>The parser never claims to have consumed more bytes than it was given, and a value read
  from a prefix of the stream is not changed by the bytes that arrive later.\<close>

theorem parse_prefix_stable:
  assumes "parse cap data = Inr (v, n)" and "n > 0"
  shows "n \<le> length data \<and> parse cap (data @ more) = Inr (v, n)"
  using assms parse_bound parse_append by blast

theorem parse_prefix_stable_witness:
  "parse 4 ((''+OK'' @ CRLF) @ ''-ERR'') = Inr (simple_string ''OK'', 5)"
proof -
  have "parse 4 (''+OK'' @ CRLF) = Inr (simple_string ''OK'', 5)" by code_simp
  from parse_prefix_stable [OF this, of "''-ERR''"] show ?thesis by simp
qed

lemma find_crlf_inner: "\<exists>d. find_crlf (a @ CR # LF # b) = Some d \<and> d \<le> length a"
  by (induction a rule: find_crlf.induct) (auto split: if_splits)

text \<open>A bulk string whose content contains a line end is not read back: whatever follows, the
  parser answers "nothing consumed", because it stops at the first line end of the content and
  compares that length with the announced one.\<close>

theorem bulk_with_crlf_refused:
  assumes "s = a @ CRLF @ b" and "int64_ok (int (length s))"
  shows "parse cap (encode (bulk_string s) @ rest) = Inr (resp_default, 0)"
proof -
  obtain d where d: "find_crlf (s @ CR # LF # rest) = Some d" "d < length s"
    using find_crlf_inner [of a "b @ CR # LF # rest"] assms(1) by auto
  have "parse_len (encode (bulk_string s) @ rest) = Some (int (length s), length (to_string (int (length s))) + 1)"
    using parse_len_to_string [of "CHR ''$''" "int (length s)" "s @ CR # LF # rest"] assms(2) by simp
  with d show ?thesis
    by (simp add: parse_dollar parse_bulk_def parse_fail_def Let_def)
qed

theorem bulk_with_crlf_refused_witness:
  "parse 4 (encode (bulk_string (''ab'' @ CRLF @ ''c'')) @ ''*1'') = Inr (resp_default, 0)"
  by (rule bulk_with_crlf_refused [OF refl]) code_simp

end
