(* ===== verification/RespStream.thy ===== *)
theory RespStream
  imports Resp
begin

text \<open>
  The incremental parser \<open>RespStreamParser\<close> of \<open>src/src/util/resp_parser.{h,cpp}\<close>: \<open>feed\<close>,
  \<open>next\<close> with its compaction of the consumed prefix, \<open>reset\<close>. The locale \<open>framing\<close> is the
  contract between a byte stream and a parser (bounded consumption, stability under more data),
  \<open>framing_codec\<close> adds the encoder; both are interpreted on \<open>parse\<close> and \<open>encode\<close>.
\<close>

subsection \<open>The incremental parser\<close>

record RespStreamParser =
  buffer :: string
  parse_offset :: nat
  max_buffer_size :: nat

definition new_parser :: "nat \<Rightarrow> RespStreamParser" where
  "new_parser max_size = \<lparr>buffer = [], parse_offset = 0, max_buffer_size = max_size\<rparr>"

definition feed :: "RespStreamParser \<Rightarrow> string \<Rightarrow> bool \<times> RespStreamParser" where
  "feed p data =
     (if length (buffer p) + length data > max_buffer_size p then (False, p)
      else (True, p\<lparr>buffer := buffer p @ data\<rparr>))"

definition next_cmd :: "nat \<Rightarrow> RespStreamParser \<Rightarrow> (RespValue option \<times> RespStreamParser) res" where
  "next_cmd cap p =
     (if parse_offset p > length (buffer p) then Inr (None, p\<lparr>buffer := [], parse_offset := 0\<rparr>)
      else bnd (parse cap (drop (parse_offset p) (buffer p))) (\<lambda>(cmd, consumed).
        if consumed = 0 then Inr (None, p)
        else
          let off = parse_offset p + consumed in
          if off = length (buffer p) then Inr (Some cmd, p\<lparr>buffer := [], parse_offset := 0\<rparr>)
          else if off > 65536 then
            Inr (Some cmd, p\<lparr>buffer := drop off (buffer p), parse_offset := 0\<rparr>)
          else Inr (Some cmd, p\<lparr>parse_offset := off\<rparr>)))"

definition reset_parser :: "RespStreamParser \<Rightarrow> RespStreamParser" where
  "reset_parser p = p\<lparr>buffer := [], parse_offset := 0\<rparr>"

definition hasPending :: "RespStreamParser \<Rightarrow> bool" where
  "hasPending p \<longleftrightarrow> buffer p \<noteq> []"

text \<open>The bytes received and not yet consumed.\<close>

definition pending :: "RespStreamParser \<Rightarrow> string" where
  "pending p = drop (parse_offset p) (buffer p)"

definition parser_ok :: "RespStreamParser \<Rightarrow> bool" where
  "parser_ok p \<longleftrightarrow> parse_offset p \<le> length (buffer p) \<and> length (buffer p) \<le> max_buffer_size p"

lemma next_cmd_Some:
  assumes "next_cmd cap p = Inr (Some v, p')"
  obtains n where "parse cap (pending p) = Inr (v, n)" "n > 0" "pending p' = drop n (pending p)"
    "n \<le> length (pending p)" "parse_offset p \<le> length (buffer p)"
  using assms parse_bound [of cap "pending p"]
  by (auto simp: next_cmd_def pending_def Let_def bnd_eq_Inr split: if_splits intro: that)
    (fastforce intro: that simp: add.commute)+

text \<open>
  The loop \<open>while (parser.next(cmd))\<close> of \<open>handleClient\<close>, \<open>commandFlow\<close> and \<open>loadAOF\<close>: every command
  that can be read from the buffer, in order.
\<close>

function drain :: "nat \<Rightarrow> RespStreamParser \<Rightarrow> (RespValue list \<times> RespStreamParser) res" where
  "drain cap p =
     bnd (next_cmd cap p) (\<lambda>(out, p').
       case out of None \<Rightarrow> Inr ([], p')
       | Some v \<Rightarrow> bnd (drain cap p') (\<lambda>(vs, q). Inr (v # vs, q)))"
  by pat_completeness auto
termination
proof (relation "measure (\<lambda>(cap, p). length (pending p))", goal_cases)
  case (2 cap p r out p' v)
  then have "next_cmd cap p = Inr (Some v, p')" by auto
  then show ?case by (rule next_cmd_Some) auto
qed simp

declare drain.simps [simp del]


subsection \<open>Reading a byte stream\<close>

text \<open>
  What a framing function \<open>f\<close> (value and bytes used, 0 for "not yet") makes of a whole stream,
  and the contract under which the result does not depend on how the stream was cut.
\<close>

function parse_seq :: "(string \<Rightarrow> ('v \<times> nat) res) \<Rightarrow> string \<Rightarrow> ('v list \<times> string) res" where
  "parse_seq f s =
     (if s = [] then Inr ([], [])
      else bnd (f s) (\<lambda>(v, n).
             if n = 0 then Inr ([], s)
             else bnd (parse_seq f (drop n s)) (\<lambda>(vs, r). Inr (v # vs, r))))"
  by pat_completeness auto
termination
  by (relation "measure (\<lambda>(f, s). length s)") auto

declare parse_seq.simps [simp del]

lemma parse_seq_Nil [simp]: "parse_seq f [] = Inr ([], [])"
  by (simp add: parse_seq.simps)

locale framing =
  fixes f :: "string \<Rightarrow> ('v \<times> nat) res"
  assumes bounded: "f s = Inr (v, n) \<Longrightarrow> n \<le> length s"
    and stable: "f s = Inr (v, n) \<Longrightarrow> n > 0 \<Longrightarrow> f (s @ t) = Inr (v, n)"
    and fault_stable: "f s = Inl e \<Longrightarrow> f (s @ t) = Inl e"
begin

text \<open>Bytes that arrive later only extend what was read before.\<close>

lemma seq_append:
  "parse_seq f (s @ t) =
     bnd (parse_seq f s) (\<lambda>(vs, r). bnd (parse_seq f (r @ t)) (\<lambda>(ws, r'). Inr (vs @ ws, r')))"
proof (induction s rule: length_induct)
  case (1 s)
  show ?case
  proof (cases "s = []")
    case True
    then show ?thesis by (auto simp: bnd_def split: sum.splits)
  next
    case False
    show ?thesis
    proof (cases "f s")
      case (Inl e)
      then show ?thesis using False fault_stable [OF Inl, of t] by (simp add: parse_seq.simps)
    next
      case (Inr x)
      obtain v n where x: "x = (v, n)" by (cases x)
      show ?thesis
      proof (cases "n = 0")
        case True
        then show ?thesis using False Inr x
          by (subst (2) parse_seq.simps) (auto simp: bnd_def split: sum.splits)
      next
        case n: False
        have "f (s @ t) = Inr (v, n)" "n \<le> length s"
          using stable [of s v n t] bounded [of s v n] Inr x n by auto
        then show ?thesis using 1 [rule_format, of "drop n s"] False Inr x n
          by (subst parse_seq.simps, subst (2) parse_seq.simps)
            (auto simp: bnd_def split: sum.splits)
      qed
    qed
  qed
qed

lemma seq_prefix_ok:
  assumes "parse_seq f (s @ t) = Inr (us, r)"
  obtains vs q ws where "parse_seq f s = Inr (vs, q)" "parse_seq f (q @ t) = Inr (ws, r)" "us = vs @ ws"
  using assms by (auto simp: seq_append [of s t] bnd_eq_Inr)

end

locale framing_codec = framing f for f :: "string \<Rightarrow> ('v \<times> nat) res" +
  fixes enc :: "'v \<Rightarrow> string" and wf :: "'v \<Rightarrow> bool"
  assumes decode: "wf v \<Longrightarrow> f (enc v @ t) = Inr (v, length (enc v))"
    and enc_nonempty: "wf v \<Longrightarrow> enc v \<noteq> []"
begin

lemma seq_encoded:
  "\<forall>v \<in> set vs. wf v \<Longrightarrow> parse_seq f (concat (map enc vs)) = Inr (vs, [])"
proof (induction vs)
  case (Cons v vs)
  have "f (enc v @ concat (map enc vs)) = Inr (v, length (enc v))" "enc v \<noteq> []"
    using Cons.prems decode enc_nonempty by auto
  then show ?case using Cons
    by (subst parse_seq.simps) simp
qed simp

end

interpretation resp: framing_codec "parse cap" encode "resp_wf cap" for cap
  by unfold_locales
    (auto simp: parse_append parse_append_fault parse_encode encode_neq_Nil dest: parse_bound)

lemma next_cmd_ok:
  "next_cmd cap p = Inr (out, p') \<Longrightarrow> parser_ok p \<Longrightarrow>
     parser_ok p' \<and> length (buffer p') \<le> length (buffer p) \<and> max_buffer_size p' = max_buffer_size p"
  using parse_bound [of cap "pending p"]
  by (fastforce simp: next_cmd_def parser_ok_def pending_def Let_def bnd_eq_Inr split: if_splits)

lemma parse_seq_pending:
  "parse_seq (parse cap) s =
     bnd (parse cap s) (\<lambda>(v, n).
       if n = 0 then Inr ([], s)
       else bnd (parse_seq (parse cap) (drop n s)) (\<lambda>(vs, r). Inr (v # vs, r)))"
  by (cases "s = []") (simp_all add: parse_seq.simps [of _ s] parse_fail_def)

lemma next_cmd_success:
  "parser_ok p \<Longrightarrow> parse cap (pending p) = Inr (v, n) \<Longrightarrow> n > 0 \<Longrightarrow> \<exists>p'. next_cmd cap p = Inr (Some v, p')"
  by (simp add: next_cmd_def parser_ok_def pending_def Let_def split: if_split)

lemma drain_parse_seq:
  assumes "parser_ok p"
  shows "bnd (drain cap p) (\<lambda>(vs, q). Inr (vs, pending q)) = parse_seq (parse cap) (pending p)"
    and "drain cap p = Inr (vs, q) \<Longrightarrow> parser_ok q \<and> length (buffer q) \<le> length (buffer p)
           \<and> max_buffer_size q = max_buffer_size p"
proof -
  have "bnd (drain cap p) (\<lambda>(vs, q). Inr (vs, pending q)) = parse_seq (parse cap) (pending p) \<and>
    (\<forall>vs q. drain cap p = Inr (vs, q) \<longrightarrow> parser_ok q \<and> length (buffer q) \<le> length (buffer p)
           \<and> max_buffer_size q = max_buffer_size p)"
    using assms
  proof (induction cap p rule: drain.induct)
    case (1 cap p)
    show ?case
    proof (cases "parse cap (pending p)")
      case (Inl e)
      then have "next_cmd cap p = Inl e" using 1(2) by (simp add: next_cmd_def parser_ok_def pending_def)
      then show ?thesis using Inl by (simp add: drain.simps parse_seq_pending)
    next
      case (Inr x)
      obtain v n where x: "x = (v, n)" by (cases x)
      show ?thesis
      proof (cases "n = 0")
        case True
        then have "next_cmd cap p = Inr (None, p)"
          using 1(2) Inr x by (simp add: next_cmd_def parser_ok_def pending_def)
        then show ?thesis using Inr x True 1(2)
          by (simp add: drain.simps parse_seq_pending [of cap "pending p"])
      next
        case False
        obtain p' where p': "next_cmd cap p = Inr (Some v, p')"
          using next_cmd_success [OF 1(2), of cap v n] Inr x False by blast
        have pe: "pending p' = drop n (pending p)"
          using p' by (rule next_cmd_Some) (use Inr x in simp)
        have ok: "parser_ok p'" "length (buffer p') \<le> length (buffer p)" "max_buffer_size p' = max_buffer_size p"
          using next_cmd_ok [OF p' 1(2)] by auto
        note IH = 1(1) [OF p', of "Some v" p' v, simplified, OF ok(1)]
        show ?thesis
          using IH ok p' pe Inr x False
          by (subst parse_seq_pending, subst (1 2) drain.simps) (fastforce simp: bnd_def split: sum.splits)
      qed
    qed
  qed
  then show "bnd (drain cap p) (\<lambda>(vs, q). Inr (vs, pending q)) = parse_seq (parse cap) (pending p)"
    and "drain cap p = Inr (vs, q) \<Longrightarrow> parser_ok q \<and> length (buffer q) \<le> length (buffer p)
           \<and> max_buffer_size q = max_buffer_size p" by blast+
qed

subsection \<open>A connection that receives its bytes in pieces\<close>

text \<open>Feed a piece, drain the buffer, repeat; \<open>None\<close> when \<open>feed\<close> refuses a piece.\<close>

fun feed_all :: "nat \<Rightarrow> RespStreamParser \<Rightarrow> string list \<Rightarrow> (RespValue list \<times> RespStreamParser) option res" where
  "feed_all cap p [] = Inr (Some ([], p))"
| "feed_all cap p (c # cs) =
     (let (ok, p1) = feed p c in
      if \<not> ok then Inr None
      else bnd (drain cap p1) (\<lambda>(vs, p2).
             bnd (feed_all cap p2 cs) (\<lambda>r. Inr (map_option (\<lambda>(ws, q). (vs @ ws, q)) r))))"

lemma feed_ok:
  "parser_ok p \<Longrightarrow> length (buffer p) + length c \<le> max_buffer_size p \<Longrightarrow>
   \<exists>p1. feed p c = (True, p1) \<and> parser_ok p1 \<and> pending p1 = pending p @ c \<and>
     length (buffer p1) = length (buffer p) + length c \<and> max_buffer_size p1 = max_buffer_size p"
  by (auto simp: feed_def parser_ok_def pending_def)

lemma feed_all_parse_seq:
  assumes "parser_ok p" and "length (buffer p) + length (concat cs) \<le> max_buffer_size p"
    and "parse_seq (parse cap) (pending p) = Inr ([], pending p)"
    and "parse_seq (parse cap) (pending p @ concat cs) = Inr (us, r)"
  shows "\<exists>q. feed_all cap p cs = Inr (Some (us, q)) \<and> pending q = r \<and> parser_ok q"
  using assms
proof (induction cs arbitrary: p us)
  case Nil
  then show ?case by auto
next
  case (Cons c cs)
  obtain p1 where f: "feed p c = (True, p1)" "parser_ok p1" "pending p1 = pending p @ c"
    "length (buffer p1) = length (buffer p) + length c" "max_buffer_size p1 = max_buffer_size p"
    using feed_ok [of p c] Cons.prems by auto
  from Cons.prems(4) have "parse_seq (parse cap) (pending p1 @ concat cs) = Inr (us, r)"
    by (simp add: f)
  then obtain vs q ws where s: "parse_seq (parse cap) (pending p1) = Inr (vs, q)"
      "parse_seq (parse cap) (q @ concat cs) = Inr (ws, r)" "us = vs @ ws"
    by (rule resp.seq_prefix_ok)
  then obtain p2 where d: "drain cap p1 = Inr (vs, p2)" "pending p2 = q"
    using drain_parse_seq(1) [OF f(2), of cap] by (auto simp: bnd_eq_Inr)
  note ok2 = drain_parse_seq(2) [OF f(2) d(1)]
  have "parse_seq (parse cap) q = Inr ([], q)"
    using resp.seq_append [of cap "pending p1" "[]"] s(1) by (auto simp: bnd_def split: sum.splits prod.splits)
  then obtain q' where "feed_all cap p2 cs = Inr (Some (ws, q'))" "pending q' = r" "parser_ok q'"
    using Cons.IH [of p2 ws] ok2 d(2) s(2) f(4,5) Cons.prems(2) by auto
  then show ?case using f d s(3) by simp
qed

subsection \<open>Properties\<close>

text \<open>C12. However the encoding of a sequence of values is cut into pieces, feeding the pieces one
  by one and draining the parser after each delivers exactly these values, in order, and leaves
  nothing pending, provided the whole fits the buffer limit.\<close>

theorem stream_chunking:
  assumes "\<forall>v \<in> set vs. resp_wf cap v"
    and "concat chunks = concat (map encode vs)"
    and "length (concat chunks) \<le> max_size"
  shows "\<exists>q. feed_all cap (new_parser max_size) chunks = Inr (Some (vs, q)) \<and> pending q = []"
  using feed_all_parse_seq [of "new_parser max_size" chunks cap vs "[]"] assms resp.seq_encoded [of vs cap]
  by (auto simp: new_parser_def parser_ok_def pending_def)

theorem stream_chunking_witness:
  "\<exists>q. feed_all 8 (new_parser 100) [''+O'', ''K'' @ [CR], [LF], '':1'' @ CRLF]
         = Inr (Some ([simple_string ''OK'', integer 1], q)) \<and> pending q = []"
  by (rule stream_chunking) code_simp+

text \<open>Feeding and reading keep the offset inside the buffer and the buffer inside its limit;
  a piece that does not fit is refused without a change.\<close>

theorem parser_invariant:
  assumes "parser_ok p"
  shows "parser_ok (snd (feed p data)) \<and> (fst (feed p data) = False \<longrightarrow> snd (feed p data) = p) \<and>
    parser_ok (reset_parser p) \<and> (\<forall>out p'. next_cmd cap p = Inr (out, p') \<longrightarrow> parser_ok p')"
  using assms next_cmd_ok [of cap p] by (auto simp: feed_def reset_parser_def parser_ok_def)

theorem parser_invariant_witness:
  "parser_ok (new_parser 64) \<and> parser_ok (snd (feed (new_parser 64) ''+PONG''))"
  using parser_invariant [of "new_parser 64" "''+PONG''" 1] by (simp add: new_parser_def parser_ok_def)

end
