(* ===== verification/CommandTable.thy ===== *)
theory CommandTable
  imports Prelude "HOL-Library.Word"
begin

text \<open>
  The compile-time command table: \<open>src/redis_command/command_hash.h\<close> (FNV-1a) and
  \<open>src/redis_command/command_table.h\<close> (the builder with its in-place quicksort, the table with
  its binary search). The builder's array holds 256 slots, of which the first \<open>count\<close> are
  initialised; the model is the list of the initialised ones, and an access to any other index is
  \<open>OutOfBounds\<close> (during constant evaluation such an access is rejected by the compiler).
\<close>

unbundle bit_operations_syntax

subsection \<open>The FNV-1a hash\<close>

definition fnva1_hash :: "string \<Rightarrow> 32 word" where
  "fnva1_hash s = foldl (\<lambda>h c. (h XOR of_nat (of_char c)) * 0x01000193) 0x811c9dc5 s"

text \<open>The overload for a C string stops at the first null character.\<close>

definition fnv1a_hash :: "string \<Rightarrow> 32 word" where
  "fnv1a_hash s = fnva1_hash (takeWhile (\<lambda>c. c \<noteq> CHR 0x00) s)"

subsection \<open>The builder\<close>

record 'h Entry =
  name :: string
  handler :: 'h
  hash :: "32 word"
  is_write :: bool
  argV :: "nat \<Rightarrow> bool"

definition MaxCommands :: nat where "MaxCommands = 256"

definition slot_ok :: "'h Entry list \<Rightarrow> nat \<Rightarrow> bool" where
  "slot_ok es i \<longleftrightarrow> i < length es \<and> i < MaxCommands"

definition builder_insert ::
  "string \<Rightarrow> 'h \<Rightarrow> 32 word \<Rightarrow> bool \<Rightarrow> (nat \<Rightarrow> bool) \<Rightarrow> 'h Entry list \<Rightarrow> 'h Entry list res" where
  "builder_insert n h hs w v es =
     (if length es < MaxCommands
      then Inr (es @ [\<lparr>name = n, handler = h, hash = hs, is_write = w, argV = v\<rparr>])
      else Inl OutOfBounds)"

definition swap :: "'h Entry list \<Rightarrow> nat \<Rightarrow> nat \<Rightarrow> 'h Entry list" where
  "swap es a b = es[a := es ! b, b := es ! a]"

definition choosePivot :: "'h Entry list \<Rightarrow> nat \<Rightarrow> nat \<Rightarrow> nat" where
  "choosePivot es left right =
     (let mid = left + (right - left) div 2 in
      if hash (es ! left) > hash (es ! mid) then
        if hash (es ! mid) > hash (es ! right) then mid
        else if hash (es ! left) > hash (es ! right) then right
        else left
      else
        if hash (es ! left) > hash (es ! right) then left
        else if hash (es ! mid) > hash (es ! right) then right
        else mid)"

text \<open>One round of the partition loop, at index \<open>j\<close>.\<close>

definition partition_step ::
  "32 word \<Rightarrow> 'h Entry list \<times> nat \<Rightarrow> nat \<Rightarrow> 'h Entry list \<times> nat" where
  "partition_step pv st j =
     (let (es, i) = st in if hash (es ! j) < pv then (swap es i j, Suc i) else (es, i))"

definition partition_entries ::
  "'h Entry list \<Rightarrow> nat \<Rightarrow> nat \<Rightarrow> ('h Entry list \<times> nat) res" where
  "partition_entries es left right =
     (if \<not> slot_ok es right then Inl OutOfBounds
      else
        let pivot_idx = choosePivot es left right;
            pivot = es ! pivot_idx;
            (es', i) = foldl (partition_step (hash pivot)) (swap es pivot_idx right, left) [left..<right]
        in Inr (swap es' i right, i))"

text \<open>\<open>pivot - 1\<close> is computed in \<open>int\<close> and converted to \<open>size_t\<close>: \<open>-1\<close> becomes \<open>2 ^ 64 - 1\<close>.\<close>

definition dec_size :: "nat \<Rightarrow> nat" where
  "dec_size p = (if p = 0 then 2 ^ 64 - 1 else p - 1)"

lemma length_swap [simp]: "length (swap es a b) = length es"
  by (simp add: swap_def)

lemma partition_loop_bounds:
  "foldl (partition_step pv) (es, i) js = (es', i') \<Longrightarrow>
     length es' = length es \<and> i \<le> i' \<and> i' \<le> i + length js"
  by (induction js arbitrary: es i) (fastforce simp: partition_step_def split: if_splits)+

lemma partition_entries_bounds:
  assumes "partition_entries es l r = Inr (es', p)" and "l < r"
  shows "l \<le> p \<and> p \<le> r \<and> slot_ok es r \<and> length es' = length es"
  using assms partition_loop_bounds
  by (fastforce simp: partition_entries_def Let_def split: if_splits prod.splits)

function process :: "'h Entry list \<Rightarrow> nat \<Rightarrow> nat \<Rightarrow> 'h Entry list res" where
  "process es left right =
     (if left \<ge> right then Inr es
      else bnd (partition_entries es left right) (\<lambda>(es1, pivot).
             if pivot - left < right - pivot then
               bnd (process es1 left (dec_size pivot)) (\<lambda>es2. process es2 (pivot + 1) right)
             else
               bnd (process es1 (pivot + 1) right) (\<lambda>es2. process es2 left (dec_size pivot))))"
  by pat_completeness auto
termination
  by (relation "measure (\<lambda>(es, l, r). if r < MaxCommands then Suc r - l else 0)")
    (auto dest!: partition_entries_bounds simp: slot_ok_def dec_size_def MaxCommands_def)

declare process.simps [simp del]

definition quicksort :: "'h Entry list \<Rightarrow> 'h Entry list res" where
  "quicksort es = (if length es > 1 then process es 0 (length es - 1) else Inr es)"

text \<open>\<open>build\<close> sorts and hands the first \<open>count\<close> entries to the table.\<close>

definition build :: "'h Entry list \<Rightarrow> 'h Entry list res" where
  "build es = quicksort es"

text \<open>The unused insertion sort of the builder.\<close>

fun sort_shift :: "'h Entry \<Rightarrow> 'h Entry list \<Rightarrow> nat \<Rightarrow> 'h Entry list" where
  "sort_shift key es 0 = es[0 := key]"
| "sort_shift key es (Suc j) =
     (if hash (es ! j) > hash key then sort_shift key (es[Suc j := es ! j]) j else es[Suc j := key])"

definition insertion_sort :: "'h Entry list \<Rightarrow> 'h Entry list" where
  "insertion_sort es = foldl (\<lambda>es i. sort_shift (es ! i) es i) es [0..<length es]"

subsection \<open>The table\<close>

function lowerbound_loop :: "'h Entry list \<Rightarrow> 32 word \<Rightarrow> nat \<Rightarrow> nat \<Rightarrow> nat" where
  "lowerbound_loop t h l r =
     (if l < r then
        let mid = l + (r - l) div 2 in
        if hash (t ! mid) < h then lowerbound_loop t h (mid + 1) r else lowerbound_loop t h l mid
      else r)"
  by pat_completeness auto
termination
  by (relation "measure (\<lambda>(t, h, l, r). r - l)") (auto simp: Let_def)

declare lowerbound_loop.simps [simp del]

definition lowerbound :: "'h Entry list \<Rightarrow> 32 word \<Rightarrow> nat" where
  "lowerbound t h = lowerbound_loop t h 0 (length t)"

definition find_lowerbound :: "'h Entry list \<Rightarrow> 32 word \<Rightarrow> 'h Entry option" where
  "find_lowerbound t h =
     (if length t = 0 then None
      else
        let l = lowerbound t h in
        if l = length t \<or> hash (t ! l) \<noteq> h then None else Some (t ! l))"

subsection \<open>Binary search\<close>

definition table_sorted :: "'h Entry list \<Rightarrow> bool" where
  "table_sorted t \<longleftrightarrow> sorted (map hash t)"

lemma table_sorted_nth:
  "table_sorted t \<Longrightarrow> i \<le> j \<Longrightarrow> j < length t \<Longrightarrow> hash (t ! i) \<le> hash (t ! j)"
  by (simp add: table_sorted_def sorted_iff_nth_mono)

lemma lowerbound_loop_spec:
  assumes "table_sorted t" and "l \<le> r" and "r \<le> length t"
    and "\<forall>i < l. hash (t ! i) < h" and "\<forall>i. r \<le> i \<and> i < length t \<longrightarrow> h \<le> hash (t ! i)"
  shows "let k = lowerbound_loop t h l r in
    k \<le> length t \<and> (\<forall>i < k. hash (t ! i) < h) \<and> (\<forall>i. k \<le> i \<and> i < length t \<longrightarrow> h \<le> hash (t ! i))"
  using assms
proof (induction t h l r rule: lowerbound_loop.induct)
  case (1 t h l r)
  show ?case
  proof (cases "l < r")
    case True
    define mid where "mid = l + (r - l) div 2"
    have mid: "l \<le> mid" "mid < r" using True by (auto simp: mid_def)
    show ?thesis
    proof (cases "hash (t ! mid) < h")
      case lt: True
      have "\<forall>i < mid + 1. hash (t ! i) < h"
        using table_sorted_nth [OF 1(3), of _ mid] lt mid 1(5) by (auto simp: less_Suc_eq_le intro: le_less_trans)
      then show ?thesis
        using "1.IH"(1) [OF True mid_def lt] 1(3,5,7) mid True lt
        by (subst lowerbound_loop.simps) (simp add: mid_def [symmetric] Let_def)
    next
      case ge: False
      have "\<forall>i. mid \<le> i \<and> i < length t \<longrightarrow> h \<le> hash (t ! i)"
        using table_sorted_nth [OF 1(3), of mid] ge mid 1(5) by (meson not_less order_trans)
      then show ?thesis
        using "1.IH"(2) [OF True mid_def ge] 1(3,5,6) mid True ge
        by (subst lowerbound_loop.simps) (simp add: mid_def [symmetric] Let_def)
    qed
  next
    case False
    then show ?thesis using 1 by (subst lowerbound_loop.simps) (simp add: Let_def)
  qed
qed

lemma lowerbound_spec:
  assumes "table_sorted t"
  shows "lowerbound t h \<le> length t" and "i < lowerbound t h \<Longrightarrow> hash (t ! i) < h"
    and "lowerbound t h \<le> i \<Longrightarrow> i < length t \<Longrightarrow> h \<le> hash (t ! i)"
proof -
  have "let k = lowerbound t h in k \<le> length t \<and> (\<forall>i < k. hash (t ! i) < h) \<and>
      (\<forall>i. k \<le> i \<and> i < length t \<longrightarrow> h \<le> hash (t ! i))"
    unfolding lowerbound_def by (rule lowerbound_loop_spec) (use assms in auto)
  then show "lowerbound t h \<le> length t" and "i < lowerbound t h \<Longrightarrow> hash (t ! i) < h"
    and "lowerbound t h \<le> i \<Longrightarrow> i < length t \<Longrightarrow> h \<le> hash (t ! i)"
    by (auto simp: Let_def)
qed

lemma find_lowerbound_linear:
  assumes "table_sorted t"
  shows "find_lowerbound t h = List.find (\<lambda>e. hash e = h) t"
proof -
  let ?k = "lowerbound t h"
  note spec = lowerbound_spec [OF assms, where h = h]
  show ?thesis
  proof (cases "?k < length t \<and> hash (t ! ?k) = h")
    case True
    have "List.find (\<lambda>e. hash e = h) t = Some (t ! ?k)"
      unfolding find_Some_iff using True spec(2) by (intro exI [of _ ?k]) auto
    then show ?thesis using True by (auto simp: find_lowerbound_def Let_def)
  next
    case False
    have "hash (t ! i) \<noteq> h" if "i < length t" for i
    proof
      assume eq: "hash (t ! i) = h"
      then have "?k \<le> i" using spec(2) [of i] by (meson less_irrefl not_le)
      then show False
        using False eq spec(3) [of ?k] table_sorted_nth [OF assms, of ?k i] that by auto
    qed
    then have "List.find (\<lambda>e. hash e = h) t = None"
      by (auto simp: find_None_iff in_set_conv_nth)
    then show ?thesis using False spec(1) by (auto simp: find_lowerbound_def Let_def)
  qed
qed

subsection \<open>Quicksort\<close>

text \<open>\<open>ys\<close> is a rearrangement of \<open>xs\<close> that moves only positions \<open>l\<close> to \<open>r\<close>.\<close>

definition perm_on :: "'a list \<Rightarrow> 'a list \<Rightarrow> nat \<Rightarrow> nat \<Rightarrow> bool" where
  "perm_on xs ys l r \<longleftrightarrow> mset ys = mset xs \<and> (\<forall>k < length xs. k < l \<or> r < k \<longrightarrow> ys ! k = xs ! k)"

lemma perm_on_refl [simp]: "perm_on xs xs l r"
  by (simp add: perm_on_def)

lemma perm_on_length: "perm_on xs ys l r \<Longrightarrow> length ys = length xs"
  by (auto simp: perm_on_def dest: mset_eq_length)

lemma perm_on_trans: "perm_on xs ys l r \<Longrightarrow> perm_on ys zs l r \<Longrightarrow> perm_on xs zs l r"
  using perm_on_length [of xs ys l r] by (auto simp: perm_on_def)

lemma perm_on_mono: "perm_on xs ys l r \<Longrightarrow> l' \<le> l \<Longrightarrow> r \<le> r' \<Longrightarrow> perm_on xs ys l' r'"
  by (auto simp: perm_on_def)

lemma perm_on_swap:
  "a < length es \<Longrightarrow> b < length es \<Longrightarrow> l \<le> a \<Longrightarrow> a \<le> r \<Longrightarrow> l \<le> b \<Longrightarrow> b \<le> r \<Longrightarrow> perm_on es (swap es a b) l r"
  using mset_swap [of b es a] by (auto simp: perm_on_def swap_def)

lemma perm_on_image:
  assumes p: "perm_on xs ys l r" and "l \<le> r" and r: "r < length xs"
  shows "(!) ys ` {l..r} = (!) xs ` {l..r}"
proof -
  have len: "length ys = length xs" using p by (rule perm_on_length)
  let ?s = "\<lambda>zs. take (Suc r - l) (drop l zs)"
  have split: "zs = take l zs @ ?s zs @ drop (Suc r) zs" if "length zs = length xs" for zs :: "'a list"
    using assms(2) that r by (metis Suc_leI append_take_drop_id drop_drop le_Suc_eq le_add_diff_inverse2)
  have seg: "set (?s zs) = (!) zs ` {l..r}" if "length zs = length xs" for zs :: "'a list"
  proof -
    have "?s zs = map ((!) zs) [l..<Suc r]"
      using that r assms(2) by (auto intro: nth_equalityI simp del: upt_Suc)
    then show ?thesis by (simp add: atLeastLessThanSuc_atLeastAtMost del: upt_Suc)
  qed
  have "take l ys = take l xs" "drop (Suc r) ys = drop (Suc r) xs"
    using p len r assms(2) by (auto simp: perm_on_def intro!: nth_equalityI)
  then have "mset (?s ys) = mset (?s xs)"
    using p split [OF len] split [OF refl] unfolding perm_on_def
    by (metis add_left_cancel add_right_cancel mset_append)
  then have "set (?s ys) = set (?s xs)" by (metis set_mset_mset)
  then show ?thesis using seg [OF len] seg [OF refl] by simp
qed


lemma partition_loop:
  assumes "foldl (partition_step pv) (es, l) [l..<j] = (es', i)" and "l \<le> j" and "j < length es"
  shows "l \<le> i \<and> i \<le> j \<and> perm_on es es' l (j - 1) \<and> (\<forall>k. l \<le> k \<and> k < i \<longrightarrow> hash (es' ! k) < pv)
    \<and> (\<forall>k. i \<le> k \<and> k < j \<longrightarrow> pv \<le> hash (es' ! k))"
  using assms
proof (induction "j - l" arbitrary: j es' i)
  case 0
  then show ?case by auto
next
  case (Suc n)
  then obtain j' where j: "j = Suc j'" "l \<le> j'" by (metis Suc_diff_Suc Suc_le_D diff_diff_cancel diff_le_self le_antisym less_Suc_eq_le not_less_eq_eq zero_less_Suc zero_less_diff old.nat.exhaust)
  obtain es1 i1 where f: "foldl (partition_step pv) (es, l) [l..<j'] = (es1, i1)" by fastforce
  have IH: "l \<le> i1 \<and> i1 \<le> j' \<and> perm_on es es1 l (j' - 1) \<and> (\<forall>k. l \<le> k \<and> k < i1 \<longrightarrow> hash (es1 ! k) < pv)
    \<and> (\<forall>k. i1 \<le> k \<and> k < j' \<longrightarrow> pv \<le> hash (es1 ! k))"
    by (rule Suc.hyps(1)) (use Suc.hyps(2) Suc.prems j f in auto)
  have len: "length es1 = length es" using IH perm_on_length by blast
  have st: "(es', i) = partition_step pv (es1, i1) j'" using Suc.prems(1) f j by simp
  have p1: "perm_on es es1 l j'" using IH by (auto intro: perm_on_mono)
  show ?case
  proof (cases "hash (es1 ! j') < pv")
    case True
    then have eq: "es' = swap es1 i1 j'" "i = Suc i1" using st by (auto simp: partition_step_def)
    have "perm_on es1 es' l j'" unfolding eq by (rule perm_on_swap) (use IH j Suc.prems len in auto)
    then have "perm_on es es' l j'" using p1 by (rule perm_on_trans [rotated])
    then show ?thesis using IH True j Suc.prems len unfolding eq swap_def by (auto simp: nth_list_update)
  next
    case False
    then show ?thesis using IH st p1 j by (auto simp: partition_step_def less_Suc_eq)
  qed
qed

lemma choosePivot_range: "l \<le> r \<Longrightarrow> l \<le> choosePivot es l r \<and> choosePivot es l r \<le> r"
  by (auto simp: choosePivot_def Let_def)

lemma partition_entries_spec:
  assumes "partition_entries es l r = Inr (es', p)" and "l < r"
  shows "perm_on es es' l r" and "l \<le> k \<Longrightarrow> k < p \<Longrightarrow> hash (es' ! k) \<le> hash (es' ! p)"
    and "p < k \<Longrightarrow> k \<le> r \<Longrightarrow> hash (es' ! p) \<le> hash (es' ! k)"
proof -
  define c where "c = choosePivot es l r"
  have c: "l \<le> c" "c \<le> r" using choosePivot_range [of l r es] assms(2) by (auto simp: c_def)
  have r: "r < length es" using partition_entries_bounds [OF assms] by (simp add: slot_ok_def)
  obtain e1 where f: "foldl (partition_step (hash (es ! c))) (swap es c r, l) [l..<r] = (e1, p)"
    and e': "es' = swap e1 p r"
    using assms by (auto simp: partition_entries_def Let_def c_def split: if_splits prod.splits)
  have sw: "perm_on es (swap es c r) l r" using c r assms(2) by (intro perm_on_swap) auto
  note L = partition_loop [OF f less_imp_le [OF assms(2)]]
  have p: "l \<le> p" "p \<le> r" and p1: "perm_on (swap es c r) e1 l (r - 1)"
    and lo: "\<And>k. l \<le> k \<Longrightarrow> k < p \<Longrightarrow> hash (e1 ! k) < hash (es ! c)"
    and hi: "\<And>k. p \<le> k \<Longrightarrow> k < r \<Longrightarrow> hash (es ! c) \<le> hash (e1 ! k)"
    using L r by auto
  have len: "length e1 = length es" using perm_on_length [OF p1] by simp
  have e1r: "e1 ! r = es ! c"
    using p1 r c assms(2) by (auto simp: perm_on_def swap_def nth_list_update)
  have "perm_on e1 es' l r" unfolding e' using p r len assms(2) by (intro perm_on_swap) auto
  moreover have "perm_on es e1 l r"
    by (rule perm_on_trans [OF sw perm_on_mono [OF p1]]) (use assms(2) in auto)
  ultimately show "perm_on es es' l r" by (rule perm_on_trans [rotated])
  show "l \<le> k \<Longrightarrow> k < p \<Longrightarrow> hash (es' ! k) \<le> hash (es' ! p)"
    using lo [of k] p r len e1r unfolding e' swap_def by (auto simp: nth_list_update)
  show "p < k \<Longrightarrow> k \<le> r \<Longrightarrow> hash (es' ! p) \<le> hash (es' ! k)"
    using hi [of k] hi [of p] p r len e1r unfolding e' swap_def by (auto simp: nth_list_update)
qed

text \<open>A call that returns never met the wrapped index.\<close>

lemma process_dec_size:
  assumes "process es l (dec_size p) = Inr es'" and "l \<le> p"
  shows "p > 0 \<or> l \<noteq> 0"
proof (rule ccontr)
  assume "\<not> ?thesis"
  then have "process es 0 (2 ^ 64 - 1) = Inr es'" using assms by (simp add: dec_size_def)
  then show False by (subst (asm) process.simps)
    (simp add: partition_entries_def slot_ok_def MaxCommands_def)
qed

definition seg_sorted :: "'h Entry list \<Rightarrow> nat \<Rightarrow> nat \<Rightarrow> bool" where
  "seg_sorted es l r \<longleftrightarrow> (\<forall>a b. l \<le> a \<and> a < b \<and> b \<le> r \<longrightarrow> hash (es ! a) \<le> hash (es ! b))"

text \<open>Positions \<open>A\<close> of \<open>ys\<close> hold nothing that positions \<open>A\<close> of \<open>xs\<close> did not hold.\<close>

definition within :: "'a list \<Rightarrow> 'a list \<Rightarrow> nat set \<Rightarrow> bool" where
  "within ys xs A \<longleftrightarrow> (!) ys ` A \<subseteq> (!) xs ` A"

lemma within_trans: "within ys xs A \<Longrightarrow> within zs ys A \<Longrightarrow> within zs xs A"
  by (auto simp: within_def)

lemma within_perm: "perm_on xs ys l r \<Longrightarrow> r < length xs \<Longrightarrow> within ys xs {l..r}"
  using perm_on_image [of xs ys l r] by (cases "l \<le> r") (auto simp: within_def)

lemma within_other:
  "perm_on xs ys l r \<Longrightarrow> A \<subseteq> {..<length xs} \<Longrightarrow> A \<inter> {l..r} = {} \<Longrightarrow> within ys xs A"
proof -
  assume p: "perm_on xs ys l r" and A: "A \<subseteq> {..<length xs}" "A \<inter> {l..r} = {}"
  have "ys ! k = xs ! k" if "k \<in> A" for k
    using p A that by (metis IntI atLeastAtMost_iff emptyE lessThan_iff not_le perm_on_def subsetD)
  then show ?thesis by (auto simp: within_def)
qed

lemma withinD: "within ys xs A \<Longrightarrow> k \<in> A \<Longrightarrow> (\<And>j. j \<in> A \<Longrightarrow> P (xs ! j)) \<Longrightarrow> P (ys ! k)"
  by (fastforce simp: within_def)

lemma seg_glue:
  assumes "within e3 e1 {l..p - 1}" "within e3 e1 {Suc p..r}" "e3 ! p = e1 ! p" "0 < p"
    and "seg_sorted e3 l (p - 1)" "seg_sorted e3 (Suc p) r"
    and lo: "\<And>k. l \<le> k \<Longrightarrow> k < p \<Longrightarrow> hash (e1 ! k) \<le> hash (e1 ! p)"
    and hi: "\<And>k. p < k \<Longrightarrow> k \<le> r \<Longrightarrow> hash (e1 ! p) \<le> hash (e1 ! k)"
  shows "seg_sorted e3 l r"
  unfolding seg_sorted_def
proof (intro allI impI)
  fix a b assume ab: "l \<le> a \<and> a < b \<and> b \<le> r"
  have left: "hash (e3 ! k) \<le> hash (e1 ! p)" if "l \<le> k" "k < p" for k
    by (rule withinD [OF assms(1)]) (use that lo in auto)
  have right: "hash (e1 ! p) \<le> hash (e3 ! k)" if "p < k" "k \<le> r" for k
    by (rule withinD [OF assms(2)]) (use that hi in auto)
  consider "b < p" | "b = p" | "a < p" "p < b" | "a = p" | "p < a" using ab by linarith
  then show "hash (e3 ! a) \<le> hash (e3 ! b)"
  proof cases
    case 1
    then show ?thesis using assms(5) ab by (auto simp: seg_sorted_def)
  next
    case 3
    then show ?thesis using left [of a] right [of b] ab by (meson order_trans)
  next
    case 5
    then show ?thesis using assms(6) ab by (auto simp: seg_sorted_def)
  qed (use left right assms(3) ab in auto)
qed

lemma seg_sorted_other:
  "seg_sorted e l r \<Longrightarrow> perm_on e e' a b \<Longrightarrow> r < length e \<Longrightarrow> r < a \<or> b < l \<Longrightarrow> seg_sorted e' l r"
  by (auto simp: seg_sorted_def perm_on_def)

lemma seg_left_first:
  assumes L: "perm_on e1 e2 l (p - 1)" "seg_sorted e2 l (p - 1)"
    and R: "perm_on e2 e3 (Suc p) r" "seg_sorted e3 (Suc p) r"
    and b: "l \<le> p" "p \<le> r" "r < length e1" "0 < p"
    and piv: "\<And>k. l \<le> k \<Longrightarrow> k < p \<Longrightarrow> hash (e1 ! k) \<le> hash (e1 ! p)"
      "\<And>k. p < k \<Longrightarrow> k \<le> r \<Longrightarrow> hash (e1 ! p) \<le> hash (e1 ! k)"
  shows "perm_on e1 e3 l r \<and> seg_sorted e3 l r"
proof
  have len: "length e2 = length e1" using L(1) by (rule perm_on_length)
  show "perm_on e1 e3 l r"
    by (rule perm_on_trans [OF perm_on_mono [OF L(1)] perm_on_mono [OF R(1)]]) (use b in auto)
  show "seg_sorted e3 l r"
  proof (rule seg_glue [OF _ _ _ b(4) seg_sorted_other [OF L(2) R(1)] R(2) piv])
    show "within e3 e1 {l..p - 1}"
      by (rule within_trans [OF within_perm [OF L(1)] within_other [OF R(1)]]) (use b len in auto)
    show "within e3 e1 {Suc p..r}"
      by (rule within_trans [OF within_other [OF L(1)] within_perm [OF R(1)]]) (use b len in auto)
    show "e3 ! p = e1 ! p" using L(1) R(1) b len by (auto simp: perm_on_def)
  qed (use b len in auto)
qed

lemma seg_right_first:
  assumes R: "perm_on e1 e2 (Suc p) r" "seg_sorted e2 (Suc p) r"
    and L: "perm_on e2 e3 l (p - 1)" "seg_sorted e3 l (p - 1)"
    and b: "l \<le> p" "p \<le> r" "r < length e1" "0 < p"
    and piv: "\<And>k. l \<le> k \<Longrightarrow> k < p \<Longrightarrow> hash (e1 ! k) \<le> hash (e1 ! p)"
      "\<And>k. p < k \<Longrightarrow> k \<le> r \<Longrightarrow> hash (e1 ! p) \<le> hash (e1 ! k)"
  shows "perm_on e1 e3 l r \<and> seg_sorted e3 l r"
proof
  have len: "length e2 = length e1" using R(1) by (rule perm_on_length)
  show "perm_on e1 e3 l r"
    by (rule perm_on_trans [OF perm_on_mono [OF R(1)] perm_on_mono [OF L(1)]]) (use b in auto)
  show "seg_sorted e3 l r"
  proof (rule seg_glue [OF _ _ _ b(4) L(2) seg_sorted_other [OF R(2) L(1)] piv])
    show "within e3 e1 {l..p - 1}"
      by (rule within_trans [OF within_other [OF R(1)] within_perm [OF L(1)]]) (use b len in auto)
    show "within e3 e1 {Suc p..r}"
      by (rule within_trans [OF within_perm [OF R(1)] within_other [OF L(1)]]) (use b len in auto)
    show "e3 ! p = e1 ! p" using L(1) R(1) b len by (auto simp: perm_on_def)
  qed (use b len in auto)
qed

lemma process_correct:
  "process es l r = Inr es' \<Longrightarrow> r < length es \<Longrightarrow> perm_on es es' l r \<and> seg_sorted es' l r"
proof (induction es l r arbitrary: es' rule: process.induct)
  case (1 es l r)
  show ?case
  proof (cases "l \<ge> r")
    case True
    then show ?thesis using 1(5) by (subst (asm) process.simps) (auto simp: seg_sorted_def)
  next
    case False
    then have lr: "l < r" by simp
    from 1(5) False obtain e1 p where p: "partition_entries es l r = Inr (e1, p)"
      and rest: "(if p - l < r - p then bnd (process e1 l (dec_size p)) (\<lambda>e2. process e2 (p + 1) r)
        else bnd (process e1 (p + 1) r) (\<lambda>e2. process e2 l (dec_size p))) = Inr es'"
      by (subst (asm) process.simps) (auto simp: bnd_eq_Inr)
    note bnds = partition_entries_bounds [OF p lr]
    note spec = partition_entries_spec [OF p lr]
    have r1: "r < length e1" and pr: "p - 1 < length e1" using 1(6) bnds by auto
    have "perm_on e1 es' l r \<and> seg_sorted es' l r"
    proof (cases "p - l < r - p")
      case True
      from rest True obtain e2 where e2: "process e1 l (dec_size p) = Inr e2" "process e2 (p + 1) r = Inr es'"
        by (auto simp: bnd_eq_Inr)
      have p0: "0 < p" using process_dec_size [OF e2(1)] bnds by auto
      have L: "perm_on e1 e2 l (p - 1) \<and> seg_sorted e2 l (p - 1)"
        using 1(1) [OF False p refl True, of e2] e2(1) pr p0 by (simp add: dec_size_def)
      then have "r < length e2" using r1 perm_on_length by fastforce
      then have "perm_on e2 es' (Suc p) r \<and> seg_sorted es' (Suc p) r"
        using 1(2) [OF False p refl True e2(1), of es'] e2(2) by simp
      then show ?thesis using seg_left_first L bnds r1 p0 spec(2,3) by blast
    next
      case F: False
      from rest F obtain e2 where e2: "process e1 (p + 1) r = Inr e2" "process e2 l (dec_size p) = Inr es'"
        by (auto simp: bnd_eq_Inr)
      have p0: "0 < p" using process_dec_size [OF e2(2)] bnds by auto
      have R: "perm_on e1 e2 (Suc p) r \<and> seg_sorted e2 (Suc p) r"
        using 1(3) [OF False p refl F, of e2] e2(1) r1 by simp
      then have "p - 1 < length e2" using pr perm_on_length by fastforce
      then have "perm_on e2 es' l (p - 1) \<and> seg_sorted es' l (p - 1)"
        using 1(4) [OF False p refl F e2(1), of es'] e2(2) p0 by (simp add: dec_size_def)
      then show ?thesis using seg_right_first R bnds r1 p0 spec(2,3) by blast
    qed
    then show ?thesis using perm_on_trans [OF spec(1)] by blast
  qed
qed

lemma quicksort_correct:
  assumes "quicksort es = Inr es'"
  shows "mset es' = mset es" and "table_sorted es'"
proof -
  have "mset es' = mset es \<and> table_sorted es'"
  proof (cases "length es > 1")
    case True
    then have *: "perm_on es es' 0 (length es - 1)" "seg_sorted es' 0 (length es - 1)"
      using assms process_correct [of es 0 "length es - 1" es'] by (auto simp: quicksort_def)
    then have "length es' = length es" by (intro perm_on_length)
    then have "table_sorted es'" using *(2)
      by (auto simp: seg_sorted_def table_sorted_def sorted_iff_nth_mono_less)
    then show ?thesis using *(1) by (auto simp: perm_on_def)
  next
    case False
    then have "es' = es" "length es \<le> 1" using assms by (auto simp: quicksort_def)
    then show ?thesis by (auto simp: table_sorted_def le_Suc_eq length_Suc_conv)
  qed
  then show "mset es' = mset es" and "table_sorted es'" by auto
qed

lemma distinct_find:
  "distinct (map g xs) \<Longrightarrow> e \<in> set xs \<Longrightarrow> List.find (\<lambda>x. g x = g e) xs = Some e"
  by (induction xs) (auto simp: rev_image_eqI)

lemma build_lookup:
  assumes "build es = Inr t" and "distinct (map hash es)"
  shows "find_lowerbound t h = Some e \<longleftrightarrow> e \<in> set es \<and> hash e = h"
proof -
  have m: "mset t = mset es" and s: "table_sorted t"
    using quicksort_correct [of es t] assms(1) by (auto simp: build_def)
  have "set t = set es" using m by (rule mset_eq_setD)
  moreover have "distinct (map hash t)"
    using m assms(2) by (metis mset_eq_imp_distinct_iff mset_map)
  ultimately show ?thesis
    unfolding find_lowerbound_linear [OF s]
    using distinct_find [of hash t e] by (auto simp: find_Some_iff)
qed

subsection \<open>The sort looks at the hashes only\<close>

text \<open>
  Replacing the entries by others with the same hashes commutes with the sort, so whether it stays
  inside its array can be computed on the hashes alone.
\<close>

lemma swap_map: "a < length es \<Longrightarrow> b < length es \<Longrightarrow> swap (map g es) a b = map g (swap es a b)"
  by (simp add: swap_def map_update)

lemma choosePivot_map:
  assumes "\<And>e. hash (g e) = hash e" and "l \<le> r" and "r < length es"
  shows "choosePivot (map g es) l r = choosePivot es l r"
proof -
  have "l < length es" "l + (r - l) div 2 < length es" using assms(2,3) by linarith+
  then show ?thesis using assms by (simp add: choosePivot_def Let_def)
qed

lemma partition_loop_map:
  assumes "\<And>e. hash (g e) = hash e"
  shows "i \<le> j \<Longrightarrow> r \<le> length es \<Longrightarrow> foldl (partition_step pv) (map g es, i) [j..<r] =
    map_prod (map g) id (foldl (partition_step pv) (es, i) [j..<r])"
proof (induction "r - j" arbitrary: es i j)
  case (Suc n)
  then have j: "j < r" "[j..<r] = j # [Suc j..<r]" by (simp_all add: upt_conv_Cons)
  have "partition_step pv (map g es, i) j = map_prod (map g) id (partition_step pv (es, i) j)"
    using assms Suc.prems j by (simp add: partition_step_def swap_map)
  moreover obtain es1 i1 where st: "partition_step pv (es, i) j = (es1, i1)" by fastforce
  moreover have "i1 \<le> Suc j" "r \<le> length es1" using st Suc.prems by (auto simp: partition_step_def split: if_splits)
  ultimately show ?case using Suc.hyps(1) [of "Suc j" i1 es1] Suc.hyps(2) j by simp
qed simp

lemma partition_map:
  assumes "\<And>e. hash (g e) = hash e" and "l < r"
  shows "partition_entries (map g es) l r = map_sum id (map_prod (map g) id) (partition_entries es l r)"
proof (cases "slot_ok es r")
  case True
  then have r: "r < length es" "slot_ok (map g es) r" by (simp_all add: slot_ok_def)
  define p where "p = choosePivot es l r"
  have p: "p \<le> r" using choosePivot_range [of l r es] assms(2) by (simp add: p_def)
  obtain es1 i1 where st: "foldl (partition_step (hash (es ! p))) (swap es p r, l) [l..<r] = (es1, i1)" by fastforce
  have b: "length es1 = length es" "i1 < length es" using partition_loop_bounds [OF st] assms(2) r by simp_all
  show ?thesis
    using r b p assms True st partition_loop_map [of g l l r "swap es p r", OF assms(1)] choosePivot_map [of g l r es, OF assms(1)]
    by (simp add: partition_entries_def Let_def swap_map p_def [symmetric])
qed (simp add: partition_entries_def slot_ok_def)

lemma process_map:
  assumes "\<And>e. hash (g e) = hash e"
  shows "process (map g es) l r = map_sum id (map g) (process es l r)"
proof (induction es l r rule: process.induct)
  case (1 es l r)
  show ?case
  proof (cases "l < r")
    case lt: True
    show ?thesis
    proof (cases "partition_entries es l r")
      case (Inl x)
      then show ?thesis using lt partition_map [OF assms lt, of es] by (simp add: process.simps [of _ l r])
    next
      case (Inr q)
      obtain es1 p where q: "q = (es1, p)" by fastforce
      show ?thesis
      proof (cases "p - l < r - p")
        case True
        have "process (map g es1) l (dec_size p) = map_sum id (map g) (process es1 l (dec_size p))"
          by (rule 1(1) [OF _ Inr q [symmetric] True]) (use lt in simp)
        moreover have "process (map g es2) (p + 1) r = map_sum id (map g) (process es2 (p + 1) r)"
          if "process es1 l (dec_size p) = Inr es2" for es2
          by (rule 1(2) [OF _ Inr q [symmetric] True that]) (use lt in simp)
        ultimately show ?thesis using lt True Inr q partition_map [OF assms lt, of es]
          by (cases "process es1 l (dec_size p)") (simp_all add: process.simps [of _ l r] id_def)
      next
        case False
        have "process (map g es1) (p + 1) r = map_sum id (map g) (process es1 (p + 1) r)"
          by (rule 1(3) [OF _ Inr q [symmetric] False]) (use lt in simp)
        moreover have "process (map g es2) l (dec_size p) = map_sum id (map g) (process es2 l (dec_size p))"
          if "process es1 (p + 1) r = Inr es2" for es2
          by (rule 1(4) [OF _ Inr q [symmetric] False that]) (use lt in simp)
        ultimately show ?thesis using lt False Inr q partition_map [OF assms lt, of es]
          by (cases "process es1 (p + 1) r") (simp_all add: process.simps [of _ l r] id_def)
      qed
    qed
  qed (simp add: process.simps [of _ l r])
qed

lemma quicksort_map: "(\<And>e. hash (g e) = hash e) \<Longrightarrow> quicksort (map g es) = map_sum id (map g) (quicksort es)"
  by (simp add: quicksort_def process_map)

subsection \<open>Properties\<close>

text \<open>Whenever the in-place quicksort returns, the table it leaves is sorted by hash and holds
  the same entries.\<close>

theorem quicksort_sorts:
  assumes "quicksort es = Inr t"
  shows "sorted (map hash t) \<and> mset t = mset es"
  using quicksort_correct [OF assms] by (simp add: table_sorted_def)

definition demo_entry :: "string \<Rightarrow> nat Entry" where
  "demo_entry n = \<lparr>name = n, handler = 0, hash = fnva1_hash n, is_write = False, argV = (\<lambda>_. True)\<rparr>"

theorem quicksort_sorts_witness:
  "\<exists>t. quicksort (map demo_entry [''GET'', ''SET'', ''DEL'', ''TTL'']) = Inr t \<and>
       sorted (map hash t)"
proof -
  have "isl (quicksort (map demo_entry [''GET'', ''SET'', ''DEL'', ''TTL''])) = False" by code_simp
  then obtain t where "quicksort (map demo_entry [''GET'', ''SET'', ''DEL'', ''TTL'']) = Inr t"
    by (cases "quicksort (map demo_entry [''GET'', ''SET'', ''DEL'', ''TTL''])") auto
  with quicksort_sorts [OF this] show ?thesis by blast
qed

text \<open>On a sorted table the binary search is the linear search for the first entry with the
  hash, and \<open>lowerbound\<close> is the position where the smaller hashes end.\<close>

theorem binary_search_is_linear:
  assumes "table_sorted t"
  shows "find_lowerbound t h = List.find (\<lambda>e. hash e = h) t \<and>
    lowerbound t h = length (takeWhile (\<lambda>e. hash e < h) t)"
proof
  show "find_lowerbound t h = List.find (\<lambda>e. hash e = h) t" using assms by (rule find_lowerbound_linear)
  note spec = lowerbound_spec [OF assms, where h = h]
  have "takeWhile (\<lambda>e. hash e < h) t = take (lowerbound t h) t"
  proof (rule takeWhile_eq_take_P_nth)
    show "hash (t ! i) < h" if "i < lowerbound t h" "i < length t" for i using that spec(2) by blast
    show "\<not> hash (t ! lowerbound t h) < h" if "lowerbound t h < length t"
      using that spec(3) [of "lowerbound t h"] by simp
  qed
  then show "lowerbound t h = length (takeWhile (\<lambda>e. hash e < h) t)" using spec(1) by simp
qed

theorem binary_search_is_linear_witness:
  "find_lowerbound [demo_entry ''GET''] 5 = List.find (\<lambda>e. hash e = 5) [demo_entry ''GET'']"
  by (rule binary_search_is_linear [THEN conjunct1]) (simp add: table_sorted_def)

text \<open>Two entries whose hashes are already in order make the sort leave the array: the pivot
  ends at index 0 and the bound of the left part, \<open>pivot - 1\<close>, wraps to the largest \<open>size_t\<close>.\<close>

theorem quicksort_wraps_below_zero:
  assumes "hash a \<le> hash b"
  shows "quicksort [a, b] = Inl OutOfBounds"
proof -
  have "process es 0 (2 ^ 64 - 1) = Inl OutOfBounds" for es :: "'a Entry list"
    by (subst process.simps) (simp add: partition_entries_def slot_ok_def MaxCommands_def)
  moreover have "\<not> hash b < hash a" using assms by (simp add: not_less)
  ultimately show ?thesis
    by (simp add: quicksort_def process.simps [of "[a, b]"] partition_entries_def slot_ok_def
        MaxCommands_def choosePivot_def partition_step_def swap_def dec_size_def process.simps [of _ 1])
qed

theorem quicksort_wraps_below_zero_witness:
  "quicksort [demo_entry ''GET'', demo_entry ''GET''] = Inl OutOfBounds"
  by (rule quicksort_wraps_below_zero) simp

end
