(* ===== verification/Double.thy ===== *)
theory Double
  imports Prelude "HOL-Library.Product_Lexorder"
begin

text \<open>
  IEEE binary64 values as the sorted sets use them. Every finite \<open>double\<close> is an integer multiple
  of \<open>2 ^ -1074\<close>, so \<open>Fin m\<close> stands for \<open>m * 2 ^ -1074\<close>; negative zero, the infinities and NaN
  are separate. Comparisons are exact; addition rounds to nearest, ties to even. Reading and
  printing a \<open>double\<close> (\<open>std::stod\<close>, \<open>std::to_string\<close>) are arguments of the definitions
  that use them.
\<close>

datatype double = NaN | NInf | PInf | NegZero | Fin int

text \<open>The position of a number on the extended line; meaningless for NaN.\<close>

fun drank :: "double \<Rightarrow> int \<times> int" where
  "drank NInf = (- 1, 0)"
| "drank PInf = (1, 0)"
| "drank NegZero = (0, 0)"
| "drank (Fin m) = (0, m)"
| "drank NaN = (2, 0)"

definition dlt :: "double \<Rightarrow> double \<Rightarrow> bool" where
  "dlt a b \<longleftrightarrow> a \<noteq> NaN \<and> b \<noteq> NaN \<and> drank a < drank b"

definition deq :: "double \<Rightarrow> double \<Rightarrow> bool" where
  "deq a b \<longleftrightarrow> a \<noteq> NaN \<and> b \<noteq> NaN \<and> drank a = drank b"

definition dle :: "double \<Rightarrow> double \<Rightarrow> bool" where
  "dle a b \<longleftrightarrow> dlt a b \<or> deq a b"

text \<open>Rounding a magnitude, in units of \<open>2 ^ -1074\<close>, to 53 significant bits.\<close>

function bit_length :: "nat \<Rightarrow> nat" where
  "bit_length n = (if n = 0 then 0 else Suc (bit_length (n div 2)))"
  by pat_completeness auto
termination by (relation "measure id") auto

declare bit_length.simps [simp del]

definition round_half_even :: "nat \<Rightarrow> nat \<Rightarrow> nat" where
  "round_half_even n d =
     (let q = n div d; r = n mod d in
      if 2 * r < d \<or> (2 * r = d \<and> even q) then q else q + 1)"

definition round53 :: "nat \<Rightarrow> nat" where
  "round53 n = (let k = bit_length n - 53 in round_half_even n (2 ^ k) * 2 ^ k)"

definition round_double :: "int \<Rightarrow> double" where
  "round_double m =
     (let n = round53 (nat \<bar>m\<bar>) in
      if n \<ge> 2 ^ (1024 + 1074) then (if m < 0 then NInf else PInf)
      else Fin (if m < 0 then - int n else int n))"

definition int64_to_double :: "int \<Rightarrow> double" where
  "int64_to_double v = round_double (v * 2 ^ 1074)"

fun dadd :: "double \<Rightarrow> double \<Rightarrow> double" where
  "dadd NaN b = NaN"
| "dadd a NaN = NaN"
| "dadd NInf PInf = NaN"
| "dadd PInf NInf = NaN"
| "dadd NInf b = NInf"
| "dadd a NInf = NInf"
| "dadd PInf b = PInf"
| "dadd a PInf = PInf"
| "dadd NegZero b = b"
| "dadd a NegZero = a"
| "dadd (Fin a) (Fin b) = round_double (a + b)"

lemma dlt_irrefl [simp]: "\<not> dlt a a"
  by (simp add: dlt_def)

lemma deq_refl: "deq a a \<longleftrightarrow> a \<noteq> NaN"
  by (simp add: deq_def)

lemma dlt_trans: "dlt a b \<Longrightarrow> dlt b c \<Longrightarrow> dlt a c"
  by (auto simp: dlt_def)

lemma double_trichotomy: "a \<noteq> NaN \<Longrightarrow> b \<noteq> NaN \<Longrightarrow> dlt a b \<or> deq a b \<or> dlt b a"
  by (auto simp: dlt_def deq_def)

end
