(* ===== verification/SkipList.thy ===== *)
theory SkipList
  imports Prelude Double "HOL-Library.List_Lexorder" "HOL-Library.Char_ord"
begin

text \<open>
  The skip list of \<open>src/src/util/skiplist.h\<close>, on an explicit heap: a node has 16 forward pointers
  (\<open>None\<close> is \<open>nullptr\<close>) and 16 spans, an address is a number, and a list owns the heap its
  memory pool hands out. Reading a node that was released is \<open>UseAfterFree\<close>, following
  \<open>m_head\<close> of a moved-from list is \<open>NullDereference\<close>. The comparison operators of the key
  type are arguments (\<open>lt\<close> for \<open>operator<\<close>, \<open>eq\<close> for \<open>operator==\<close>), as the class template
  takes them from \<open>K\<close>; \<open>ZSetKey\<close> supplies them below.

  A search loop over a chain of \<open>n\<close> allocated nodes that takes more than \<open>n\<close> steps has come back
  to a node it left before and never ends: that is what running out of fuel means, and it is the
  outcome \<open>Diverges\<close>.
\<close>

subsection \<open>Nodes and lists\<close>

definition MAX_LEVEL :: nat where "MAX_LEVEL = 16"

record ('k, 'v) Node =
  nkey :: 'k
  nval :: 'v
  forward :: "nat option list"
  span :: "int list"

definition new_node :: "'k \<Rightarrow> 'v \<Rightarrow> ('k, 'v) Node" where
  "new_node k v = \<lparr>nkey = k, nval = v, forward = replicate MAX_LEVEL None, span = replicate MAX_LEVEL 0\<rparr>"

record ('k, 'v) SkipList =
  heap :: "nat \<Rightarrow> ('k, 'v) Node option"
  fresh :: nat
  m_head :: "nat option"
  m_level :: nat
  m_size :: nat

text \<open>The constructor: the head node (its key and value are never read) at address 0.\<close>

definition sl_new :: "'k \<Rightarrow> 'v \<Rightarrow> ('k, 'v) SkipList" where
  "sl_new k v = \<lparr>heap = [0 \<mapsto> new_node k v], fresh = 1, m_head = Some 0, m_level = 1, m_size = 0\<rparr>"

definition deref :: "('k, 'v) SkipList \<Rightarrow> nat option \<Rightarrow> (nat \<times> ('k, 'v) Node) res" where
  "deref s p =
     (case p of None \<Rightarrow> Inl NullDereference
      | Some a \<Rightarrow> (case heap s a of None \<Rightarrow> Inl UseAfterFree | Some n \<Rightarrow> Inr (a, n)))"

definition node_at :: "('k, 'v) SkipList \<Rightarrow> nat \<Rightarrow> ('k, 'v) Node res" where
  "node_at s a = bnd (deref s (Some a)) (\<lambda>(_, n). Inr n)"

subsection \<open>Searching\<close>

text \<open>
  The inner loop at level \<open>i\<close>: advance while the next key is smaller, adding up the spans.
\<close>

fun walk :: "('k \<Rightarrow> 'k \<Rightarrow> bool) \<Rightarrow> ('k, 'v) SkipList \<Rightarrow> 'k \<Rightarrow> nat \<Rightarrow> nat \<Rightarrow> nat \<Rightarrow> int \<Rightarrow> (nat \<times> int) res" where
  "walk lt s key i 0 cur rk = Inl Diverges"
| "walk lt s key i (Suc fuel) cur rk =
     bnd (node_at s cur) (\<lambda>n.
       case forward n ! i of None \<Rightarrow> Inr (cur, rk)
       | Some b \<Rightarrow>
           bnd (node_at s b) (\<lambda>m.
             if lt (nkey m) key then walk lt s key i fuel b (rk + span n ! i) else Inr (cur, rk)))"

text \<open>
  The outer loop from level \<open>i - 1\<close> down to 0. The result lists, from level 0 up, the node where
  the search turned down (\<open>update[]\<close>) and its position (\<open>rank[]\<close>).
\<close>

fun descend ::
  "('k \<Rightarrow> 'k \<Rightarrow> bool) \<Rightarrow> ('k, 'v) SkipList \<Rightarrow> 'k \<Rightarrow> nat \<Rightarrow> nat \<Rightarrow> int \<Rightarrow> (nat \<times> int) list \<Rightarrow> (nat \<times> int) list res"
where
  "descend lt s key 0 cur rk acc = Inr acc"
| "descend lt s key (Suc i) cur rk acc =
     bnd (walk lt s key i (fresh s) cur rk) (\<lambda>(c, r). descend lt s key i c r ((c, r) # acc))"

definition search :: "('k \<Rightarrow> 'k \<Rightarrow> bool) \<Rightarrow> ('k, 'v) SkipList \<Rightarrow> 'k \<Rightarrow> (nat \<times> int) list res" where
  "search lt s key =
     bnd (deref s (m_head s)) (\<lambda>(h, _). descend lt s key (m_level s) h 0 [])"

text \<open>The node after the place where the search ended, if its key is \<open>key\<close>.\<close>

definition candidate ::
  "('k \<Rightarrow> 'k \<Rightarrow> bool) \<Rightarrow> ('k, 'v) SkipList \<Rightarrow> 'k \<Rightarrow> (nat \<times> int) list \<Rightarrow> (nat \<times> ('k, 'v) Node) option res"
where
  "candidate eq s key up =
     bnd (node_at s (fst (hd up))) (\<lambda>n.
       case forward n ! 0 of None \<Rightarrow> Inr None
       | Some b \<Rightarrow> bnd (node_at s b) (\<lambda>m. Inr (if eq (nkey m) key then Some (b, m) else None)))"

definition sl_find ::
  "('k \<Rightarrow> 'k \<Rightarrow> bool) \<Rightarrow> ('k \<Rightarrow> 'k \<Rightarrow> bool) \<Rightarrow> ('k, 'v) SkipList \<Rightarrow> 'k \<Rightarrow> ('k, 'v) Node option res"
where
  "sl_find lt eq s key =
     bnd (search lt s key) (\<lambda>up. bnd (candidate eq s key up) (\<lambda>c. Inr (map_option snd c)))"

definition getRank ::
  "('k \<Rightarrow> 'k \<Rightarrow> bool) \<Rightarrow> ('k \<Rightarrow> 'k \<Rightarrow> bool) \<Rightarrow> ('k, 'v) SkipList \<Rightarrow> 'k \<Rightarrow> int res"
where
  "getRank lt eq s key =
     bnd (search lt s key) (\<lambda>up.
       bnd (candidate eq s key up) (\<lambda>c.
         Inr (case c of None \<Rightarrow> - 1 | Some _ \<Rightarrow> snd (hd up))))"

fun follow :: "('k, 'v) SkipList \<Rightarrow> nat \<Rightarrow> nat option \<Rightarrow> (nat \<times> ('k, 'v) Node) res" where
  "follow s 0 p = deref s p"
| "follow s (Suc k) p = bnd (deref s p) (\<lambda>(_, n). follow s k (forward n ! 0))"

definition getByIndex :: "('k, 'v) SkipList \<Rightarrow> int \<Rightarrow> ('k, 'v) Node option res" where
  "getByIndex s index =
     (if index < 0 \<or> index \<ge> int (m_size s) then Inr None
      else bnd (deref s (m_head s)) (\<lambda>(_, h).
             bnd (follow s (nat index) (forward h ! 0)) (\<lambda>(_, n). Inr (Some n))))"

definition sl_size :: "('k, 'v) SkipList \<Rightarrow> nat" where
  "sl_size s = m_size s"

definition sl_empty :: "('k, 'v) SkipList \<Rightarrow> bool" where
  "sl_empty s \<longleftrightarrow> m_size s = 0"

subsection \<open>Updating\<close>

definition set_node :: "nat \<Rightarrow> ('k, 'v) Node \<Rightarrow> ('k, 'v) SkipList \<Rightarrow> ('k, 'v) SkipList" where
  "set_node a n s = s\<lparr>heap := (heap s)(a \<mapsto> n)\<rparr>"

text \<open>
  \<open>randomLevel\<close>: \<open>coin k\<close> is the outcome of the \<open>k\<close>-th draw, true when it is below \<open>P\<close>.
\<close>

fun randomLevel_loop :: "(nat \<Rightarrow> bool) \<Rightarrow> nat \<Rightarrow> nat \<Rightarrow> nat" where
  "randomLevel_loop coin 0 level = level"
| "randomLevel_loop coin (Suc n) level =
     (if coin (level - 1) then randomLevel_loop coin n (Suc level) else level)"

definition randomLevel :: "(nat \<Rightarrow> bool) \<Rightarrow> nat" where
  "randomLevel coin = randomLevel_loop coin (MAX_LEVEL - 1) 1"

text \<open>
  The linking loop of \<open>insert\<close> at one level: the new node \<open>nd\<close> takes over the successor of
  \<open>update[i]\<close> and its share of the span; \<open>r0\<close> is \<open>rank[0]\<close>.
\<close>

definition link_level :: "nat \<Rightarrow> int \<Rightarrow> ('k, 'v) SkipList \<Rightarrow> nat \<Rightarrow> nat \<Rightarrow> int \<Rightarrow> ('k, 'v) SkipList res" where
  "link_level nd r0 s i u r =
     bnd (node_at s u) (\<lambda>un.
       bnd (node_at s nd) (\<lambda>nn.
         let nn' = nn\<lparr>forward := (forward nn)[i := forward un ! i],
                      span := (span nn)[i := span un ! i - (r0 - r)]\<rparr>;
             un' = un\<lparr>forward := (forward un)[i := Some nd], span := (span un)[i := (r0 - r) + 1]\<rparr>
         in Inr (set_node u un' (set_node nd nn' s))))"

fun link_levels :: "nat \<Rightarrow> int \<Rightarrow> nat \<Rightarrow> nat \<Rightarrow> (nat \<times> int) list \<Rightarrow> ('k, 'v) SkipList \<Rightarrow> ('k, 'v) SkipList res" where
  "link_levels nd r0 newlevel i [] s = Inr s"
| "link_levels nd r0 newlevel i ((u, r) # ups) s =
     bnd (if i < newlevel then link_level nd r0 s i u r
          else bnd (node_at s u) (\<lambda>un. Inr (set_node u (un\<lparr>span := (span un)[i := span un ! i + 1]\<rparr>) s)))
       (\<lambda>s'. link_levels nd r0 newlevel (Suc i) ups s')"

text \<open>The levels above the old height start at the head, with the whole list as span.\<close>

fun raise_levels :: "nat \<Rightarrow> nat list \<Rightarrow> ('k, 'v) SkipList \<Rightarrow> ('k, 'v) SkipList res" where
  "raise_levels h [] s = Inr s"
| "raise_levels h (i # is) s =
     bnd (node_at s h) (\<lambda>hn.
       raise_levels h is (set_node h (hn\<lparr>span := (span hn)[i := int (m_size s)]\<rparr>) s))"

definition sl_insert ::
  "('k \<Rightarrow> 'k \<Rightarrow> bool) \<Rightarrow> ('k \<Rightarrow> 'k \<Rightarrow> bool) \<Rightarrow> nat \<Rightarrow> 'k \<Rightarrow> 'v \<Rightarrow> ('k, 'v) SkipList \<Rightarrow> ('k, 'v) SkipList res"
where
  "sl_insert lt eq newlevel key v s =
     bnd (search lt s key) (\<lambda>up.
       bnd (candidate eq s key up) (\<lambda>c.
         case c of
           Some (a, n) \<Rightarrow> Inr (set_node a (n\<lparr>nval := v\<rparr>) s)
         | None \<Rightarrow>
             bnd (deref s (m_head s)) (\<lambda>(h, _).
               let extra = [m_level s..<newlevel];
                   up' = up @ map (\<lambda>_. (h, 0)) extra
               in bnd (raise_levels h extra s) (\<lambda>s1.
                    let nd = fresh s1;
                        s2 = s1\<lparr>heap := (heap s1)(nd \<mapsto> new_node key v), fresh := Suc nd,
                                m_level := max (m_level s1) newlevel\<rparr>
                    in bnd (link_levels nd (snd (hd up)) newlevel 0 up' s2) (\<lambda>s3.
                         Inr (s3\<lparr>m_size := Suc (m_size s3)\<rparr>))))))"

text \<open>The unlinking loop of \<open>remove\<close>, level by level, for the node \<open>c\<close>.\<close>

fun unlink_levels :: "nat \<Rightarrow> nat \<Rightarrow> (nat \<times> int) list \<Rightarrow> ('k, 'v) SkipList \<Rightarrow> ('k, 'v) SkipList res" where
  "unlink_levels c i [] s = Inr s"
| "unlink_levels c i ((u, r) # ups) s =
     bnd (node_at s u) (\<lambda>un.
       bnd (node_at s c) (\<lambda>cn.
         unlink_levels c (Suc i) ups
           (if forward un ! i \<noteq> Some c
            then set_node u (un\<lparr>span := (span un)[i := span un ! i - 1]\<rparr>) s
            else set_node u (un\<lparr>forward := (forward un)[i := forward cn ! i],
                               span := (span un)[i := span un ! i + (span cn ! i - 1)]\<rparr>) s)))"

text \<open>Lowering \<open>m_level\<close> while the top level of the head is empty.\<close>

fun lower_level :: "nat option list \<Rightarrow> nat \<Rightarrow> nat" where
  "lower_level fw 0 = 0"
| "lower_level fw (Suc l) = (if 0 < l \<and> fw ! l = None then lower_level fw l else Suc l)"

definition sl_remove ::
  "('k \<Rightarrow> 'k \<Rightarrow> bool) \<Rightarrow> ('k \<Rightarrow> 'k \<Rightarrow> bool) \<Rightarrow> 'k \<Rightarrow> ('k, 'v) SkipList \<Rightarrow> (bool \<times> ('k, 'v) SkipList) res"
where
  "sl_remove lt eq key s =
     bnd (search lt s key) (\<lambda>up.
       bnd (candidate eq s key up) (\<lambda>c.
         case c of
           None \<Rightarrow> Inr (False, s)
         | Some (a, _) \<Rightarrow>
             bnd (unlink_levels a 0 up s) (\<lambda>s1.
               let s2 = s1\<lparr>heap := (heap s1)(a := None)\<rparr> in
               bnd (deref s2 (m_head s2)) (\<lambda>(_, hn).
                 Inr (True, s2\<lparr>m_level := lower_level (forward hn) (m_level s2),
                               m_size := m_size s2 - 1\<rparr>)))))"

text \<open>
  \<open>clear\<close> releases every node and the head; what it leaves, like a moved-from list, has no head.
\<close>

definition sl_moved :: "('k, 'v) SkipList \<Rightarrow> ('k, 'v) SkipList" where
  "sl_moved s = s\<lparr>heap := Map.empty, m_head := None, m_level := 1, m_size := 0\<rparr>"

subsection \<open>Keys of a sorted set\<close>

record ZSetKey =
  score :: double
  member :: string

definition zkey :: "double \<Rightarrow> string \<Rightarrow> ZSetKey" where
  "zkey sc m = \<lparr>score = sc, member = m\<rparr>"

definition zkey_lt :: "ZSetKey \<Rightarrow> ZSetKey \<Rightarrow> bool" where
  "zkey_lt a b = (if \<not> deq (score a) (score b) then dlt (score a) (score b) else member a < member b)"

definition zkey_eq :: "ZSetKey \<Rightarrow> ZSetKey \<Rightarrow> bool" where
  "zkey_eq a b \<longleftrightarrow> deq (score a) (score b) \<and> member a = member b"

definition zlist_new :: "(ZSetKey, string) SkipList" where
  "zlist_new = sl_new \<lparr>score = Fin 0, member = []\<rparr> []"

type_synonym zlist = "(ZSetKey, string) SkipList"

definition zl_insert :: "nat \<Rightarrow> ZSetKey \<Rightarrow> string \<Rightarrow> zlist \<Rightarrow> zlist res" where
  "zl_insert = sl_insert zkey_lt zkey_eq"

definition zl_remove :: "ZSetKey \<Rightarrow> zlist \<Rightarrow> (bool \<times> zlist) res" where
  "zl_remove = sl_remove zkey_lt zkey_eq"

definition zl_rank :: "zlist \<Rightarrow> ZSetKey \<Rightarrow> int res" where
  "zl_rank = getRank zkey_lt zkey_eq"

end
