(* ===== verification/SkipListSpec.thy ===== *)
theory SkipListSpec
  imports SkipList
begin

text \<open>
  What the skip list of \<open>src/src/util/skiplist.h\<close> promises: it is a sorted list of keys with
  their values. The invariant \<open>linked\<close> ties the forward pointers and the spans of every node at
  every level to the order of the nodes at level 0; \<open>represents\<close> hides the addresses and heights.
\<close>

subsection \<open>Reading nodes\<close>

definition ok_node :: "('k, 'v) SkipList \<Rightarrow> nat \<Rightarrow> bool" where
  "ok_node s a \<longleftrightarrow> (\<exists>n. heap s a = Some n \<and> length (forward n) = MAX_LEVEL \<and> length (span n) = MAX_LEVEL)"

definition fw :: "('k, 'v) SkipList \<Rightarrow> nat \<Rightarrow> nat \<Rightarrow> nat option" where
  "fw s a i = forward (the (heap s a)) ! i"

definition sp :: "('k, 'v) SkipList \<Rightarrow> nat \<Rightarrow> nat \<Rightarrow> int" where
  "sp s a i = span (the (heap s a)) ! i"

definition ky :: "('k, 'v) SkipList \<Rightarrow> nat \<Rightarrow> 'k" where
  "ky s a = nkey (the (heap s a))"

definition vl :: "('k, 'v) SkipList \<Rightarrow> nat \<Rightarrow> 'v" where
  "vl s a = nval (the (heap s a))"

lemmas reads = fw_def sp_def ky_def vl_def

lemma node_at_ok: "ok_node s a \<Longrightarrow> node_at s a = Inr (the (heap s a))"
  by (auto simp: ok_node_def node_at_def deref_def)

lemma deref_ok: "ok_node s a \<Longrightarrow> deref s (Some a) = Inr (a, the (heap s a))"
  by (auto simp: ok_node_def deref_def)

text \<open>Nodes keep their keys and values, and the list its head, height and counts.\<close>

definition same_nodes :: "('k, 'v) SkipList \<Rightarrow> ('k, 'v) SkipList \<Rightarrow> bool" where
  "same_nodes s s' \<longleftrightarrow> (\<forall>a. ok_node s a \<longrightarrow> ok_node s' a \<and> ky s' a = ky s a \<and> vl s' a = vl s a) \<and>
     fresh s' = fresh s \<and> m_head s' = m_head s \<and> m_level s' = m_level s \<and> m_size s' = m_size s"

lemma same_nodes_trans: "same_nodes s s' \<Longrightarrow> same_nodes s' s'' \<Longrightarrow> same_nodes s s''"
  by (auto simp: same_nodes_def)

lemma same_nodesD: "same_nodes s s' \<Longrightarrow> ok_node s a \<Longrightarrow> ok_node s' a \<and> ky s' a = ky s a \<and> vl s' a = vl s a"
  by (simp add: same_nodes_def)

lemma same_nodes_refl [simp]: "same_nodes s s"
  by (simp add: same_nodes_def)

text \<open>Writing one level of one node.\<close>

definition put_level :: "nat \<Rightarrow> nat \<Rightarrow> nat option \<Rightarrow> int \<Rightarrow> ('k, 'v) SkipList \<Rightarrow> ('k, 'v) SkipList" where
  "put_level a i p d s =
     (let n = the (heap s a) in set_node a (n\<lparr>forward := (forward n)[i := p], span := (span n)[i := d]\<rparr>) s)"

lemma put_level_same: "ok_node s a \<Longrightarrow> same_nodes s (put_level a i p d s)"
  by (auto simp: same_nodes_def put_level_def set_node_def ok_node_def reads Let_def)

lemma put_level_ok: "ok_node s a \<Longrightarrow> ok_node s x \<Longrightarrow> ok_node (put_level a i p d s) x"
  using put_level_same by (blast dest: same_nodesD)

lemma put_level_read:
  assumes "ok_node s a" and "i < MAX_LEVEL" and "ok_node s x"
  shows "fw (put_level a i p d s) x j = (if x = a \<and> j = i then p else fw s x j)"
    and "sp (put_level a i p d s) x j = (if x = a \<and> j = i then d else sp s x j)"
  using assms by (auto simp: put_level_def set_node_def ok_node_def reads Let_def nth_list_update)

subsection \<open>Linking and unlinking, level by level\<close>

text \<open>What one round of the linking loop of \<open>insert\<close> leaves at its level.\<close>

fun link_fw :: "nat \<Rightarrow> nat \<Rightarrow> ('k, 'v) SkipList \<Rightarrow> nat \<times> int \<Rightarrow> nat \<Rightarrow> nat \<Rightarrow> nat option" where
  "link_fw nd nl s (u, r) x j =
     (if j < nl then (if x = nd then fw s u j else if x = u then Some nd else fw s x j) else fw s x j)"

fun link_sp :: "nat \<Rightarrow> int \<Rightarrow> nat \<Rightarrow> ('k, 'v) SkipList \<Rightarrow> nat \<times> int \<Rightarrow> nat \<Rightarrow> nat \<Rightarrow> int" where
  "link_sp nd r0 nl s (u, r) x j =
     (if j < nl then (if x = nd then sp s u j - (r0 - r) else if x = u then r0 - r + 1 else sp s x j)
      else if x = u then sp s x j + 1 else sp s x j)"

lemma set_node_level:
  "ok_node s a \<Longrightarrow> i < MAX_LEVEL \<Longrightarrow>
   set_node a ((the (heap s a))\<lparr>span := (span (the (heap s a)))[i := d]\<rparr>) s = put_level a i (fw s a i) d s"
  by (auto simp: put_level_def Let_def fw_def ok_node_def)

lemma link_round:
  assumes "ok_node s u" and "ok_node s nd" and "u \<noteq> nd" and "i < MAX_LEVEL"
  shows "\<exists>s'. (if i < nl then link_level nd r0 s i u r
          else bnd (node_at s u) (\<lambda>un. Inr (set_node u (un\<lparr>span := (span un)[i := span un ! i + 1]\<rparr>) s))) = Inr s'
      \<and> same_nodes s s' \<and>
      (\<forall>x j. ok_node s x \<longrightarrow> fw s' x j = (if j = i then link_fw nd nl s (u, r) x j else fw s x j) \<and>
             sp s' x j = (if j = i then link_sp nd r0 nl s (u, r) x j else sp s x j))"
proof (cases "i < nl")
  case True
  let ?s1 = "put_level nd i (fw s u i) (sp s u i - (r0 - r)) s"
  have ok1: "ok_node ?s1 u" "ok_node ?s1 nd"
    using assms by (simp_all add: put_level_ok)
  have "the (heap ?s1 u) = the (heap s u)" using assms(3) by (simp add: put_level_def set_node_def Let_def)
  then have "link_level nd r0 s i u r = Inr (put_level u i (Some nd) (r0 - r + 1) ?s1)"
    using assms by (simp add: link_level_def node_at_ok put_level_def Let_def fw_def sp_def)
  moreover have "same_nodes s (put_level u i (Some nd) (r0 - r + 1) ?s1)"
    using put_level_same [OF assms(2)] put_level_same [OF ok1(1)] by (rule same_nodes_trans)
  ultimately show ?thesis using True assms ok1 by (auto simp: put_level_read put_level_ok)
next
  case False
  let ?s1 = "put_level u i (fw s u i) (sp s u i + 1) s"
  have "bnd (node_at s u) (\<lambda>un. Inr (set_node u (un\<lparr>span := (span un)[i := span un ! i + 1]\<rparr>) s)) = Inr ?s1"
    using assms by (simp add: node_at_ok set_node_level sp_def)
  then show ?thesis using False assms put_level_same [OF assms(1)] by (auto simp: put_level_read)
qed

lemma link_levels_spec:
  assumes "\<forall>p \<in> set ups. ok_node s (fst p) \<and> fst p \<noteq> nd" and "ok_node s nd" and "i + length ups \<le> MAX_LEVEL"
  shows "\<exists>s'. link_levels nd r0 nl i ups s = Inr s' \<and> same_nodes s s' \<and>
    (\<forall>x j. ok_node s x \<longrightarrow>
       fw s' x j = (if i \<le> j \<and> j < i + length ups then link_fw nd nl s (ups ! (j - i)) x j else fw s x j) \<and>
       sp s' x j = (if i \<le> j \<and> j < i + length ups then link_sp nd r0 nl s (ups ! (j - i)) x j else sp s x j))"
  using assms
proof (induction ups arbitrary: i s)
  case (Cons p ups)
  obtain u r where p: "p = (u, r)" by fastforce
  obtain s1 where s1: "(if i < nl then link_level nd r0 s i u r
          else bnd (node_at s u) (\<lambda>un. Inr (set_node u (un\<lparr>span := (span un)[i := span un ! i + 1]\<rparr>) s))) = Inr s1"
      "same_nodes s s1"
      and rd: "\<And>x j. ok_node s x \<Longrightarrow> fw s1 x j = (if j = i then link_fw nd nl s (u, r) x j else fw s x j) \<and>
             sp s1 x j = (if j = i then link_sp nd r0 nl s (u, r) x j else sp s x j)"
    using link_round [of s u nd i nl r0 r] Cons.prems p by auto
  obtain s' where s': "link_levels nd r0 nl (Suc i) ups s1 = Inr s'" "same_nodes s1 s'"
    and rd': "\<And>x j. ok_node s1 x \<Longrightarrow>
       fw s' x j = (if Suc i \<le> j \<and> j < Suc i + length ups then link_fw nd nl s1 (ups ! (j - Suc i)) x j else fw s1 x j) \<and>
       sp s' x j = (if Suc i \<le> j \<and> j < Suc i + length ups then link_sp nd r0 nl s1 (ups ! (j - Suc i)) x j else sp s1 x j)"
    using Cons.IH [of s1 "Suc i"] Cons.prems s1(2) by (auto simp: same_nodes_def)
  have "fw s' x j = (if i \<le> j \<and> j < i + length (p # ups) then link_fw nd nl s ((p # ups) ! (j - i)) x j else fw s x j) \<and>
       sp s' x j = (if i \<le> j \<and> j < i + length (p # ups) then link_sp nd r0 nl s ((p # ups) ! (j - i)) x j else sp s x j)"
    if x: "ok_node s x" for x j
  proof (cases "Suc i \<le> j \<and> j < Suc i + length ups")
    case True
    obtain u' r' where q: "ups ! (j - Suc i) = (u', r')" by fastforce
    have "(u', r') \<in> set ups" using True q nth_mem [of "j - Suc i" ups] by auto
    then have "ok_node s u'" using Cons.prems(1) by auto
    moreover have "(p # ups) ! (j - i) = (u', r')" using True q by (simp add: nth_Cons' Suc_diff_Suc)
    ultimately show ?thesis using True q rd rd' [of x j] x s1(2) by (auto dest: same_nodesD)
  next
    case False
    then show ?thesis using rd rd' [of x j] x s1(2) p by (auto dest: same_nodesD)
  qed
  then show ?case using s' s1 p by (auto intro: same_nodes_trans)
qed auto

text \<open>The same for the unlinking loop of \<open>remove\<close>.\<close>

fun unlink_fw :: "nat \<Rightarrow> ('k, 'v) SkipList \<Rightarrow> nat \<times> int \<Rightarrow> nat \<Rightarrow> nat \<Rightarrow> nat option" where
  "unlink_fw c s (u, r) x j = (if x = u \<and> fw s u j = Some c then fw s c j else fw s x j)"

fun unlink_sp :: "nat \<Rightarrow> ('k, 'v) SkipList \<Rightarrow> nat \<times> int \<Rightarrow> nat \<Rightarrow> nat \<Rightarrow> int" where
  "unlink_sp c s (u, r) x j =
     (if x = u then (if fw s u j = Some c then sp s u j + (sp s c j - 1) else sp s u j - 1) else sp s x j)"

lemma unlink_levels_spec:
  assumes "\<forall>p \<in> set ups. ok_node s (fst p) \<and> fst p \<noteq> c" and "ok_node s c" and "i + length ups \<le> MAX_LEVEL"
  shows "\<exists>s'. unlink_levels c i ups s = Inr s' \<and> same_nodes s s' \<and>
    (\<forall>x j. ok_node s x \<longrightarrow>
       fw s' x j = (if i \<le> j \<and> j < i + length ups then unlink_fw c s (ups ! (j - i)) x j else fw s x j) \<and>
       sp s' x j = (if i \<le> j \<and> j < i + length ups then unlink_sp c s (ups ! (j - i)) x j else sp s x j))"
  using assms
proof (induction ups arbitrary: i s)
  case (Cons p ups)
  obtain u r where p: "p = (u, r)" by fastforce
  have ok: "ok_node s u" "ok_node s c" "u \<noteq> c" "i < MAX_LEVEL" using Cons.prems p by auto
  define s1 where "s1 = put_level u i (unlink_fw c s (u, r) u i) (unlink_sp c s (u, r) u i) s"
  have run: "unlink_levels c i ((u, r) # ups) s = unlink_levels c (Suc i) ups s1"
    using ok by (simp add: node_at_ok s1_def set_node_level sp_def) (simp add: put_level_def Let_def fw_def)
  have same: "same_nodes s s1" unfolding s1_def using ok(1) by (rule put_level_same)
  have rd: "fw s1 x j = (if j = i then unlink_fw c s (u, r) x j else fw s x j) \<and>
       sp s1 x j = (if j = i then unlink_sp c s (u, r) x j else sp s x j)" if "ok_node s x" for x j
    using that ok unfolding s1_def by (auto simp: put_level_read)
  obtain s' where s': "unlink_levels c (Suc i) ups s1 = Inr s'" "same_nodes s1 s'"
    and rd': "\<And>x j. ok_node s1 x \<Longrightarrow>
       fw s' x j = (if Suc i \<le> j \<and> j < Suc i + length ups then unlink_fw c s1 (ups ! (j - Suc i)) x j else fw s1 x j) \<and>
       sp s' x j = (if Suc i \<le> j \<and> j < Suc i + length ups then unlink_sp c s1 (ups ! (j - Suc i)) x j else sp s1 x j)"
    using Cons.IH [of s1 "Suc i"] Cons.prems same by (auto simp: same_nodes_def)
  have "fw s' x j = (if i \<le> j \<and> j < i + length (p # ups) then unlink_fw c s ((p # ups) ! (j - i)) x j else fw s x j) \<and>
       sp s' x j = (if i \<le> j \<and> j < i + length (p # ups) then unlink_sp c s ((p # ups) ! (j - i)) x j else sp s x j)"
    if x: "ok_node s x" for x j
  proof (cases "Suc i \<le> j \<and> j < Suc i + length ups")
    case True
    obtain u' r' where q: "ups ! (j - Suc i) = (u', r')" by fastforce
    have "(u', r') \<in> set ups" using True q nth_mem [of "j - Suc i" ups] by auto
    then have "ok_node s u'" using Cons.prems(1) by auto
    moreover have "(p # ups) ! (j - i) = (u', r')" using True q by (simp add: nth_Cons' Suc_diff_Suc)
    ultimately show ?thesis using True q rd rd' [of x j] x same ok by (auto dest: same_nodesD)
  next
    case False
    then show ?thesis using rd rd' [of x j] x same p by (auto dest: same_nodesD)
  qed
  then show ?case using s' run p same by (auto intro: same_nodes_trans)
qed auto

lemma raise_levels_spec:
  assumes "ok_node s h" and "\<forall>i \<in> set is. i < MAX_LEVEL"
  shows "\<exists>s'. raise_levels h is s = Inr s' \<and> same_nodes s s' \<and>
    (\<forall>x j. ok_node s x \<longrightarrow> fw s' x j = fw s x j \<and>
       sp s' x j = (if x = h \<and> j \<in> set is then int (m_size s) else sp s x j))"
  using assms
proof (induction "is" arbitrary: s)
  case (Cons i "is")
  let ?s1 = "put_level h i (fw s h i) (int (m_size s)) s"
  have same: "same_nodes s ?s1" using Cons.prems(1) by (rule put_level_same)
  have run: "raise_levels h (i # is) s = raise_levels h is ?s1"
    using Cons.prems by (simp add: node_at_ok set_node_level)
  obtain s' where s': "raise_levels h is ?s1 = Inr s'" "same_nodes ?s1 s'"
    and rd: "\<And>x j. ok_node ?s1 x \<Longrightarrow> fw s' x j = fw ?s1 x j \<and>
       sp s' x j = (if x = h \<and> j \<in> set is then int (m_size ?s1) else sp ?s1 x j)"
    using Cons.IH [of ?s1] Cons.prems by (auto simp: put_level_ok)
  have "m_size ?s1 = m_size s" using same by (simp add: same_nodes_def)
  then show ?case using s' run same rd Cons.prems
    by (auto simp: put_level_read put_level_ok intro: same_nodes_trans)
qed simp

subsection \<open>The invariant\<close>

text \<open>
  \<open>gap ht i post\<close>: from a node followed by \<open>post\<close> at level 0, the next node of more than \<open>i\<close>
  levels and its distance; without one, the distance to the end. \<open>ht\<close> gives the number of levels
  of a node (of the head: \<open>m_level\<close>).
\<close>

fun gap :: "(nat \<Rightarrow> nat) \<Rightarrow> nat \<Rightarrow> nat list \<Rightarrow> nat option \<times> int" where
  "gap ht i [] = (None, 0)"
| "gap ht i (a # as) = (if i < ht a then (Some a, 1) else (fst (gap ht i as), snd (gap ht i as) + 1))"

lemma gap_short:
  "\<forall>x \<in> set mid. ht x \<le> i \<Longrightarrow> gap ht i (mid @ B) = (fst (gap ht i B), int (length mid) + snd (gap ht i B))"
  by (induction mid) auto

lemma gap_tall: "\<forall>x \<in> set mid. ht x \<le> i \<Longrightarrow> i < ht b \<Longrightarrow> gap ht i (mid @ b # B) = (Some b, int (length mid) + 1)"
  by (simp add: gap_short)

lemma gap_in: "fst (gap ht i B) = Some b \<Longrightarrow> b \<in> set B"
  by (induction B) (auto split: if_splits)

lemma gap_None: "fst (gap ht i B) = None \<longleftrightarrow> (\<forall>x \<in> set B. ht x \<le> i)"
  by (induction B) auto

lemma gap_cong: "(\<And>x. x \<in> set B \<Longrightarrow> (i < ht x) = (i < ht' x)) \<Longrightarrow> gap ht i B = gap ht' i B"
  by (induction B) auto

lemma short_or_tall:
  "(\<forall>x \<in> set mid. ht x \<le> (i::nat)) \<or> (\<exists>m1 b m2. mid = m1 @ b # m2 \<and> (\<forall>x \<in> set m1. ht x \<le> i) \<and> i < ht b)"
proof (cases "\<exists>x \<in> set mid. i < ht x")
  case True
  then show ?thesis using split_list_first_prop [OF True] by (metis not_less)
qed (auto simp: not_less)

definition linked :: "('k, 'v) SkipList \<Rightarrow> nat \<Rightarrow> nat list \<Rightarrow> (nat \<Rightarrow> nat) \<Rightarrow> bool" where
  "linked s h ps ht \<longleftrightarrow>
     m_head s = Some h \<and> distinct (h # ps) \<and> (\<forall>a \<in> set (h # ps). ok_node s a \<and> a < fresh s) \<and>
     m_size s = length ps \<and> ht h = m_level s \<and> 1 \<le> m_level s \<and> m_level s \<le> MAX_LEVEL \<and>
     (\<forall>a \<in> set ps. 1 \<le> ht a \<and> ht a \<le> m_level s) \<and>
     (\<forall>i. m_level s \<le> i \<and> i < MAX_LEVEL \<longrightarrow> fw s h i = None) \<and>
     (\<forall>pre a post i. h # ps = pre @ a # post \<and> i < ht a \<longrightarrow> fw s a i = fst (gap ht i post) \<and> sp s a i = snd (gap ht i post))"

lemma linkedD:
  assumes "linked s h ps ht"
  shows "m_head s = Some h" "distinct (h # ps)" "a \<in> set (h # ps) \<Longrightarrow> ok_node s a" "a \<in> set (h # ps) \<Longrightarrow> a < fresh s"
    "m_size s = length ps" "ht h = m_level s" "1 \<le> m_level s" "m_level s \<le> MAX_LEVEL" "a \<in> set ps \<Longrightarrow> 1 \<le> ht a"
    "a \<in> set ps \<Longrightarrow> ht a \<le> m_level s" "m_level s \<le> i \<Longrightarrow> i < MAX_LEVEL \<Longrightarrow> fw s h i = None"
    "h # ps = pre @ a # post \<Longrightarrow> i < ht a \<Longrightarrow> fw s a i = fst (gap ht i post)"
    "h # ps = pre @ a # post \<Longrightarrow> i < ht a \<Longrightarrow> sp s a i = snd (gap ht i post)"
  using assms unfolding linked_def by blast+

text \<open>The search ends each level at the last node of that level before the split \<open>h # A\<close>.\<close>

definition turn :: "(nat \<Rightarrow> nat) \<Rightarrow> nat list \<Rightarrow> nat \<Rightarrow> nat \<times> int \<Rightarrow> bool" where
  "turn ht hA i p \<longleftrightarrow> (\<exists>pre mid. hA = pre @ fst p # mid \<and> i < ht (fst p) \<and> (\<forall>x \<in> set mid. ht x \<le> i) \<and> snd p = int (length pre))"

lemma fuel_enough: "linked s h ps ht \<Longrightarrow> length (h # ps) \<le> fresh s"
  using card_mono [of "{..<fresh s}" "set (h # ps)"] distinct_card [of "h # ps"]
  by (auto simp: linked_def subset_iff)

definition cut :: "('k \<Rightarrow> 'k \<Rightarrow> bool) \<Rightarrow> ('k, 'v) SkipList \<Rightarrow> 'k \<Rightarrow> nat list \<Rightarrow> nat list \<Rightarrow> bool" where
  "cut lt s key A B \<longleftrightarrow> (\<forall>a \<in> set A. lt (ky s a) key) \<and> (\<forall>b \<in> set B. \<not> lt (ky s b) key)"

lemma cutD: "cut lt s key A B \<Longrightarrow> a \<in> set A \<Longrightarrow> lt (ky s a) key" "cut lt s key A B \<Longrightarrow> b \<in> set B \<Longrightarrow> \<not> lt (ky s b) key"
  by (simp_all add: cut_def)

lemma walk_spec:
  assumes "linked s h (A @ B) ht" and "cut lt s key A B"
    and "h # A = pre @ cur # mid" and "i < ht cur" and "length mid < fuel"
  shows "\<exists>p. walk lt s key i fuel cur (int (length pre)) = Inr p \<and> turn ht (h # A) i p"
  using assms(3-5)
proof (induction fuel arbitrary: pre cur mid)
  case (Suc fuel)
  have sp: "h # A @ B = pre @ cur # (mid @ B)" using Suc.prems(1) by simp
  have c: "cur \<in> set (h # A @ B)" using Suc.prems(1) by (auto simp: sp)
  note cur = node_at_ok [OF linkedD(3) [OF assms(1) c]]
  have nx: "fw s cur i = fst (gap ht i (mid @ B))" "sp s cur i = snd (gap ht i (mid @ B))"
    using linkedD(12,13) [OF assms(1) sp Suc.prems(2)] by simp_all
  consider "\<forall>x \<in> set mid. ht x \<le> i" | m1 b m2 where "mid = m1 @ b # m2" "\<forall>x \<in> set m1. ht x \<le> i" "i < ht b"
    using short_or_tall by metis
  then show ?case
  proof cases
    case 1
    then have t: "turn ht (h # A) i (cur, int (length pre))" using Suc.prems by (auto simp: turn_def)
    show ?thesis
    proof (cases "fst (gap ht i B)")
      case None
      then show ?thesis using t nx cur 1 by (simp add: gap_short fw_def)
    next
      case (Some b)
      then have b: "b \<in> set B" by (rule gap_in)
      then have "node_at s b = Inr (the (heap s b))" using node_at_ok linkedD(3) [OF assms(1), of b] by simp
      then show ?thesis using t nx cur 1 Some b cutD(2) [OF assms(2) b] by (simp add: gap_short fw_def ky_def)
    qed
  next
    case 2
    have b: "b \<in> set A" using Suc.prems(1) 2(1) by (cases pre) auto
    then have "node_at s b = Inr (the (heap s b))" using node_at_ok linkedD(3) [OF assms(1), of b] by simp
    then have "walk lt s key i (Suc fuel) cur (int (length pre)) = walk lt s key i fuel b (int (length (pre @ cur # m1)))"
      using nx cur 2 cutD(1) [OF assms(2) b] by (simp add: gap_tall fw_def sp_def ky_def algebra_simps)
    then show ?thesis using Suc.IH [of "pre @ cur # m1" b m2] Suc.prems 2 by simp
  qed
qed simp

lemma descend_spec:
  assumes "linked s h (A @ B) ht" and "cut lt s key A B"
    and "h # A = pre @ cur # mid" and "i \<le> ht cur"
  shows "\<exists>up. descend lt s key i cur (int (length pre)) acc = Inr (up @ acc) \<and> length up = i \<and> (\<forall>j < i. turn ht (h # A) j (up ! j))"
  using assms(3,4)
proof (induction i arbitrary: pre cur mid acc)
  case (Suc i)
  have "length (h # A) = length (pre @ cur # mid)" using Suc.prems(1) by (rule arg_cong)
  then have "length mid < fresh s" using fuel_enough [OF assms(1)] by simp
  then obtain p where p: "walk lt s key i (fresh s) cur (int (length pre)) = Inr p" "turn ht (h # A) i p"
    using walk_spec [OF assms(1,2) Suc.prems(1), of i "fresh s"] Suc.prems(2) by (auto simp: Suc_le_eq)
  then obtain pre' mid' where q: "h # A = pre' @ fst p # mid'" "i < ht (fst p)" "snd p = int (length pre')"
    by (auto simp: turn_def)
  obtain up where up: "descend lt s key i (fst p) (int (length pre')) (p # acc) = Inr (up @ p # acc)" "length up = i"
      "\<forall>j < i. turn ht (h # A) j (up ! j)"
    using Suc.IH [OF q(1), of "p # acc"] q(2) by auto
  have "descend lt s key (Suc i) cur (int (length pre)) acc = Inr ((up @ [p]) @ acc)"
    using p(1) up(1) q(3) by (cases p) simp
  moreover have "\<forall>j < Suc i. turn ht (h # A) j ((up @ [p]) ! j)" using up p(2) by (auto simp: nth_append less_Suc_eq)
  ultimately show ?case using up(2) by (intro exI [of _ "up @ [p]"]) simp
qed simp

lemma search_spec:
  assumes "linked s h (A @ B) ht" and "cut lt s key A B"
  shows "\<exists>up. search lt s key = Inr up \<and> length up = m_level s \<and> (\<forall>j < m_level s. turn ht (h # A) j (up ! j)) \<and>
    (\<forall>eq. candidate eq s key up = Inr (case B of [] \<Rightarrow> None
           | b # _ \<Rightarrow> if eq (ky s b) key then Some (b, the (heap s b)) else None)) \<and>
    snd (hd up) = int (length A)"
proof -
  note L = linkedD [OF assms(1)]
  have h: "deref s (m_head s) = Inr (h, the (heap s h))" using L(1) deref_ok [OF L(3) [of h]] by simp
  obtain up where up: "search lt s key = Inr up" "length up = m_level s" "\<forall>j < m_level s. turn ht (h # A) j (up ! j)"
    using descend_spec [OF assms, of "[]" h A "m_level s" "[]"] h L(6)
    by (auto simp: search_def)
  have hd: "hd up = up ! 0" using up(2) L(7) by (cases up) auto
  obtain c r where cr: "hd up = (c, r)" by fastforce
  have "turn ht (h # A) 0 (c, r)" using up(3) L(7) hd cr by force
  then obtain pre mid where t: "h # A = pre @ c # mid" "0 < ht c" "\<forall>x \<in> set mid. ht x \<le> 0" "r = int (length pre)"
    by (auto simp: turn_def)
  have mid: "mid = []"
  proof (rule ccontr)
    assume "mid \<noteq> []"
    then obtain x where "x \<in> set mid" by fastforce
    moreover have "set mid \<subseteq> set A" using t(1) by (cases pre) auto
    ultimately show False using t(3) L(9) [of x] by fastforce
  qed
  have "length (h # A) = length (pre @ c # mid)" using t(1) by (rule arg_cong)
  then have A: "int (length A) = r" using t(4) mid by simp
  have sp: "h # A @ B = pre @ c # B" using t(1) mid by simp
  have c: "c \<in> set (h # A @ B)" by (simp add: sp)
  have f: "fw s c 0 = fst (gap ht 0 B)" using L(12) [OF sp t(2)] .
  have "candidate eq s key up = Inr (case B of [] \<Rightarrow> None
           | b # _ \<Rightarrow> if eq (ky s b) key then Some (b, the (heap s b)) else None)" for eq
  proof (cases B)
    case Nil
    then show ?thesis using f cr node_at_ok [OF L(3) [OF c]] by (simp add: candidate_def fw_def)
  next
    case (Cons b B')
    have "0 < ht b" "node_at s b = Inr (the (heap s b))" using L(9) [of b] node_at_ok [OF L(3) [of b]] Cons by simp_all
    then show ?thesis using f cr node_at_ok [OF L(3) [OF c]] Cons by (simp add: candidate_def fw_def ky_def)
  qed
  then show ?thesis using up cr A by auto
qed

subsection \<open>Inserting and removing keep the links\<close>

lemma reads_frame [simp]:
  "fw (s\<lparr>m_size := n\<rparr>) = fw s" "sp (s\<lparr>m_size := n\<rparr>) = sp s" "ky (s\<lparr>m_size := n\<rparr>) = ky s"
  "vl (s\<lparr>m_size := n\<rparr>) = vl s" "ok_node (s\<lparr>m_size := n\<rparr>) = ok_node s"
  "fw (s\<lparr>m_level := l\<rparr>) = fw s" "sp (s\<lparr>m_level := l\<rparr>) = sp s" "ky (s\<lparr>m_level := l\<rparr>) = ky s"
  "vl (s\<lparr>m_level := l\<rparr>) = vl s" "ok_node (s\<lparr>m_level := l\<rparr>) = ok_node s"
  by (auto simp: reads ok_node_def fun_eq_iff)

lemma split_two: "P @ Q = pre @ x # post \<Longrightarrow>
   (\<exists>rest. P = pre @ x # rest \<and> post = rest @ Q) \<or> (\<exists>q. Q = q @ x # post \<and> pre = P @ q)"
  by (auto simp: append_eq_append_conv2 append_eq_Cons_conv)

lemma split_three: "P @ y # Q = pre @ x # post \<Longrightarrow>
   (\<exists>rest. P = pre @ x # rest \<and> post = rest @ y # Q) \<or> (x = y \<and> pre = P \<and> post = Q) \<or> (\<exists>q. Q = q @ x # post \<and> pre = P @ y # q)"
  by (auto simp: append_eq_append_conv2 append_eq_Cons_conv Cons_eq_append_conv)

lemma turn_in: "turn ht hA i p \<Longrightarrow> fst p \<in> set hA"
  unfolding turn_def by (metis in_set_conv_decomp)

lemma turn_cases:
  assumes "distinct hA" and "hA = pre @ x # rest" and "i < ht x" and "turn ht hA i (u, r)"
  shows "(x = u \<and> (\<forall>y \<in> set rest. ht y \<le> i) \<and> r = int (length pre)) \<or>
         (x \<noteq> u \<and> (\<exists>m1 b m2. rest = m1 @ b # m2 \<and> (\<forall>y \<in> set m1. ht y \<le> i) \<and> i < ht b))"
proof -
  obtain pu mu where t: "hA = pu @ u # mu" "i < ht u" "\<forall>y \<in> set mu. ht y \<le> i" "r = int (length pu)"
    using assms(4) by (auto simp: turn_def)
  have "(pre @ [x]) @ rest = pu @ u # mu" using assms(2) t(1) by simp
  then consider "x = u" "pre = pu" "rest = mu" | "u \<in> set rest" "x \<noteq> u" | "x \<in> set mu"
    using assms(1,2) t(1) by (auto simp: append_eq_append_conv2 append_eq_Cons_conv Cons_eq_append_conv)
  then show ?thesis
  proof cases
    case 1
    then show ?thesis using t by simp
  next
    case 2
    then show ?thesis using short_or_tall [of rest ht i] t(2) by auto
  next
    case 3
    then show ?thesis using t(3) assms(3) by auto
  qed
qed

lemma gap_upd: "x \<notin> set B \<Longrightarrow> gap (ht(x := n)) i B = gap ht i B"
  by (rule gap_cong) auto

lemma linked_raise:
  assumes "linked s h ps ht" and "nl \<le> MAX_LEVEL"
  shows "\<exists>s1. raise_levels h [m_level s..<nl] s = Inr s1 \<and> same_nodes s s1 \<and>
    linked (s1\<lparr>m_level := max (m_level s) nl\<rparr>) h ps (ht(h := max (m_level s) nl))"
proof -
  note L = linkedD [OF assms(1)]
  have ok: "ok_node s h" using L(3) by simp
  obtain s1 where s1: "raise_levels h [m_level s..<nl] s = Inr s1" and same: "same_nodes s s1"
    and rd: "\<And>x j. ok_node s x \<Longrightarrow> fw s1 x j = fw s x j \<and>
       sp s1 x j = (if x = h \<and> m_level s \<le> j \<and> j < nl then int (m_size s) else sp s x j)"
    using raise_levels_spec [OF ok, of "[m_level s..<nl]"] assms(2) by auto
  let ?ht = "ht(h := max (m_level s) nl)"
  have hn: "h \<notin> set ps" using L(2) by simp
  have "fw s1 a i = fst (gap ?ht i post) \<and> sp s1 a i = snd (gap ?ht i post)"
    if sp: "h # ps = pre @ a # post" and i: "i < ?ht a" for pre a post i
  proof (cases pre)
    case Nil
    then have a: "a = h" "post = ps" using sp by auto
    show ?thesis
    proof (cases "i < m_level s")
      case True
      then show ?thesis using a rd [OF ok] L(12,13) [of "[]" h ps i] L(6) by (simp add: gap_upd hn)
    next
      case False
      then have "\<forall>x \<in> set ps. ht x \<le> i" using L(10) by (meson le_trans not_less)
      then have "gap ?ht i ps = (None, int (length ps))" using gap_short [of ps ht i "[]"] by (simp add: gap_upd hn)
      moreover have "i < nl" using False i a(1) by (simp split: if_splits)
      ultimately show ?thesis using a rd [OF ok] L(11) [of i] L(5) False assms(2) by simp
    qed
  next
    case (Cons p pre')
    then have "a \<in> set ps" "h \<notin> set post" "a \<noteq> h" using sp hn by auto
    then show ?thesis using rd [OF L(3), of a i] L(12,13) [OF sp, of i] i by (simp add: gap_upd)
  qed
  moreover have "fw s1 h i = None" if "max (m_level s) nl \<le> i" "i < MAX_LEVEL" for i
    using L(11) [of i] rd [OF ok, of i] that by simp
  ultimately have "linked (s1\<lparr>m_level := max (m_level s) nl\<rparr>) h ps ?ht"
    unfolding linked_def using L(1-10) same assms(2) hn by (auto simp: same_nodes_def le_max_iff_disj)
  then show ?thesis using s1 same by blast
qed

text \<open>The new node between \<open>A\<close> and \<open>B\<close>: what the reads give at every level.\<close>

lemma link_gaps:
  assumes L: "linked s h (A @ B) ht" and up: "length up = m_level s" "\<forall>j < m_level s. turn ht (h # A) j (up ! j)"
    and nd: "nd \<notin> set (h # A @ B)" and nl: "nl \<le> m_level s"
    and eqs: "\<And>a j. a \<in> set (h # A @ B) \<Longrightarrow> fw s2 a j = fw s a j \<and> sp s2 a j = sp s a j"
    and sp: "h # A @ nd # B = pre @ x # post" and i: "i < (ht(nd := nl)) x"
  shows "i < m_level s \<and> link_fw nd nl s2 (up ! i) x i = fst (gap (ht(nd := nl)) i post) \<and>
    link_sp nd (int (length A)) nl s2 (up ! i) x i = snd (gap (ht(nd := nl)) i post)"
proof -
  note LD = linkedD [OF L]
  let ?ht = "ht(nd := nl)"
  have dA: "distinct (h # A)" using LD(2) by simp
  have "x = nd \<or> x \<in> set (h # A @ B)" using arg_cong [OF sp, of set] by auto
  then have im: "i < m_level s" using i nl LD(6) LD(10) [of x] by (auto split: if_splits)
  obtain u r where ur: "up ! i = (u, r)" by fastforce
  then have t: "turn ht (h # A) i (u, r)" using up im by metis
  then obtain pu mu where tu: "h # A = pu @ u # mu" "i < ht u" "\<forall>y \<in> set mu. ht y \<le> i" "r = int (length pu)"
    by (auto simp: turn_def)
  have uin: "u \<in> set (h # A @ B)" using arg_cong [OF tu(1), of set] by auto
  have un: "u \<noteq> nd" using uin nd by auto
  have "length (h # A) = length (pu @ u # mu)" using tu(1) by (rule arg_cong)
  then have lenA: "int (length A) - r = int (length mu)" using tu(4) by simp
  have gu: "fw s2 u i = fst (gap ht i (mu @ B))" "sp s2 u i = snd (gap ht i (mu @ B))"
    using LD(12,13) [of pu u "mu @ B" i] tu(1,2) eqs [OF uin] by simp_all
  have ndB: "nd \<notin> set B" "nd \<notin> set A" "nd \<noteq> h" using nd by auto
  consider rest where "h # A = pre @ x # rest" "post = rest @ nd # B" | "x = nd" "post = B"
    | q where "B = q @ x # post" using split_three [of "h # A" nd B pre x post] sp by auto
  then show ?thesis
  proof cases
    case 1
    have "set (h # A) = set (pre @ x # rest)" using 1(1) by (rule arg_cong)
    then have xn: "x \<noteq> nd" "x \<in> set (h # A @ B)" and rn: "nd \<notin> set rest" using ndB by auto
    have ix: "i < ht x" using i xn by simp
    have gx: "fw s2 x i = fst (gap ht i (rest @ B))" "sp s2 x i = snd (gap ht i (rest @ B))"
      using LD(12,13) [of pre x "rest @ B" i] 1(1) ix eqs [OF xn(2)] by simp_all
    consider "x = u" "\<forall>y \<in> set rest. ht y \<le> i" "r = int (length pre)"
      | m1 b m2 where "x \<noteq> u" "rest = m1 @ b # m2" "\<forall>y \<in> set m1. ht y \<le> i" "i < ht b"
      using turn_cases [OF dA 1(1) ix t] by blast
    then show ?thesis
    proof cases
      case a: 1
      have "length (h # A) = length (pre @ x # rest)" using 1(1) by (rule arg_cong)
      then have len: "int (length A) - r = int (length rest)" using a(3) by simp
      have sh: "\<forall>y \<in> set rest. ?ht y \<le> i" using a(2) rn by auto
      have "gap ?ht i post = (if i < nl then (Some nd, int (length rest) + 1)
          else (fst (gap ht i B), int (length rest) + (snd (gap ht i B) + 1)))"
        using gap_short [OF sh, of "nd # B"] ndB by (simp add: 1(2) gap_upd del: fun_upd_apply) simp
      then show ?thesis using im ur a(1) un gx len by (auto simp: gap_short [OF a(2)])
    next
      case b: 2
      then have g: "gap ht i (rest @ B) = (Some b, int (length m1) + 1)" by (simp add: gap_tall)
      have sh: "\<forall>y \<in> set m1. ?ht y \<le> i" "i < ?ht b" using b rn by auto
      have "post = m1 @ b # (m2 @ nd # B)" using 1(2) b(2) by simp
      then have "gap ?ht i post = (Some b, int (length m1) + 1)" by (simp only: gap_tall [OF sh])
      then show ?thesis using im ur b(1) xn gx g by simp
    qed
  next
    case 2
    then have "i < nl" using i by simp
    then show ?thesis using im ur gu lenA 2 by (simp add: gap_short [OF tu(3)] gap_upd ndB)
  next
    case 3
    then have x: "x \<in> set (h # A @ B)" "x \<noteq> nd" "nd \<notin> set post" "x \<in> set B" using ndB by auto
    moreover have "u \<in> set (h # A)" using tu(1) by (metis in_set_conv_decomp)
    ultimately have "x \<noteq> u" using LD(2) by auto
    moreover have "h # A @ B = (h # A @ q) @ x # post" using 3 by simp
    ultimately show ?thesis using im ur LD(12,13) [of "h # A @ q" x post i] i eqs [OF x(1)] x by (simp add: gap_upd)
  qed
qed

lemma linked_insert:
  assumes L: "linked s h (A @ B) ht" and up: "length up = m_level s" "\<forall>j < m_level s. turn ht (h # A) j (up ! j)"
    and nl: "1 \<le> nl" "nl \<le> m_level s"
  shows "\<exists>s3. link_levels (fresh s) (int (length A)) nl 0 up
        (s\<lparr>heap := (heap s)(fresh s \<mapsto> new_node key v), fresh := Suc (fresh s)\<rparr>) = Inr s3 \<and>
      linked (s3\<lparr>m_size := Suc (m_size s3)\<rparr>) h (A @ fresh s # B) (ht(fresh s := nl)) \<and>
      ky s3 (fresh s) = key \<and> vl s3 (fresh s) = v \<and> (\<forall>a \<in> set (h # A @ B). ky s3 a = ky s a \<and> vl s3 a = vl s a)"
proof -
  note LD = linkedD [OF L]
  let ?nd = "fresh s"
  let ?s2 = "s\<lparr>heap := (heap s)(fresh s \<mapsto> new_node key v), fresh := Suc (fresh s)\<rparr>"
  have nd: "?nd \<notin> set (h # A @ B)" using LD(4) by blast
  have ok2: "ok_node ?s2 ?nd" "ky ?s2 ?nd = key" "vl ?s2 ?nd = v" by (auto simp: ok_node_def new_node_def ky_def vl_def)
  have eqs: "ok_node ?s2 a" "fw ?s2 a = fw s a" "sp ?s2 a = sp s a" "ky ?s2 a = ky s a" "vl ?s2 a = vl s a"
    if "a \<in> set (h # A @ B)" for a
  proof -
    have "a \<noteq> ?nd" "ok_node s a" using that nd LD(3) by auto
    then show "ok_node ?s2 a" "fw ?s2 a = fw s a" "sp ?s2 a = sp s a" "ky ?s2 a = ky s a" "vl ?s2 a = vl s a"
      by (auto simp: ok_node_def reads fun_eq_iff)
  qed
  have ups: "\<forall>p \<in> set up. ok_node ?s2 (fst p) \<and> fst p \<noteq> ?nd"
  proof
    fix p assume "p \<in> set up"
    then have "\<exists>j. turn ht (h # A) j p" using up by (metis in_set_conv_nth)
    then have "fst p \<in> set (h # A)" using turn_in by metis
    then have "fst p \<in> set (h # A @ B)" by auto
    then show "ok_node ?s2 (fst p) \<and> fst p \<noteq> ?nd" using eqs(1) nd by metis
  qed
  obtain s3 where s3: "link_levels ?nd (int (length A)) nl 0 up ?s2 = Inr s3" and same: "same_nodes ?s2 s3"
    and rd: "\<And>x j. ok_node ?s2 x \<Longrightarrow>
       fw s3 x j = (if j < m_level s then link_fw ?nd nl ?s2 (up ! j) x j else fw ?s2 x j) \<and>
       sp s3 x j = (if j < m_level s then link_sp ?nd (int (length A)) nl ?s2 (up ! j) x j else sp ?s2 x j)"
    using link_levels_spec [OF ups ok2(1), of 0 "int (length A)" nl] up(1) LD(8) by auto
  have "fw s3 x i = fst (gap (ht(?nd := nl)) i post) \<and> sp s3 x i = snd (gap (ht(?nd := nl)) i post)"
    if sp: "h # A @ ?nd # B = pre @ x # post" and i: "i < (ht(?nd := nl)) x" for pre x post i
  proof -
    have "x = ?nd \<or> x \<in> set (h # A @ B)" using arg_cong [OF sp, of set] by auto
    then have "ok_node ?s2 x" using ok2(1) eqs(1) by metis
    then show ?thesis using link_gaps [OF L up nd nl(2) _ sp i, of ?s2] eqs(2,3) rd [of x i] by simp
  qed
  moreover have "fw s3 h i = None" if "m_level s \<le> i" "i < MAX_LEVEL" for i
    using rd [OF eqs(1), of h i] eqs(2) [of h] that LD(11) [of i] by simp
  moreover have "\<forall>a \<in> set (h # A @ ?nd # B). ok_node s3 a \<and> a < fresh s3"
    using same ok2(1) eqs(1) LD(4) unfolding same_nodes_def by (auto simp: less_Suc_eq)
  ultimately have "linked (s3\<lparr>m_size := Suc (m_size s3)\<rparr>) h (A @ ?nd # B) (ht(?nd := nl))"
    unfolding linked_def using LD(1,2,5-10) same nl nd by (auto simp: same_nodes_def)
  moreover have "ky s3 ?nd = key \<and> vl s3 ?nd = v" using same_nodesD [OF same ok2(1)] ok2 by simp
  moreover have "\<forall>a \<in> set (h # A @ B). ky s3 a = ky s a \<and> vl s3 a = vl s a"
    using same_nodesD [OF same eqs(1)] eqs(4,5) by simp
  ultimately show ?thesis using s3 by blast
qed

lemma unlink_gaps:
  assumes L: "linked s h (A @ c # B) ht" and up: "length up = m_level s" "\<forall>j < m_level s. turn ht (h # A) j (up ! j)"
    and sp: "h # A @ B = pre @ x # post" and i: "i < ht x"
  shows "i < m_level s \<and> unlink_fw c s (up ! i) x i = fst (gap ht i post) \<and>
    unlink_sp c s (up ! i) x i = snd (gap ht i post)"
proof -
  note LD = linkedD [OF L]
  have dA: "distinct (h # A)" and cB: "c \<notin> set B" "c \<notin> set A" "c \<noteq> h" using LD(2) by auto
  have "set (h # A @ B) = set (pre @ x # post)" using sp by (rule arg_cong)
  then have x: "x \<in> set (h # A @ B)" by simp
  then have im: "i < m_level s" using i LD(6) LD(10) [of x] by auto
  obtain u r where ur: "up ! i = (u, r)" by fastforce
  then have t: "turn ht (h # A) i (u, r)" using up im by metis
  have uin: "u \<in> set (h # A)" using turn_in [OF t] by simp
  consider rest where "h # A = pre @ x # rest" "post = rest @ B" | q where "B = q @ x # post"
    using split_two [of "h # A" B pre x post] sp by auto
  then show ?thesis
  proof cases
    case 1
    have gx: "fw s x i = fst (gap ht i (rest @ c # B))" "sp s x i = snd (gap ht i (rest @ c # B))"
      using LD(12,13) [of pre x "rest @ c # B" i] 1(1) i by simp_all
    have gc: "fw s c i = fst (gap ht i B)" "sp s c i = snd (gap ht i B)" if "i < ht c"
      using LD(12,13) [of "h # A" c B i] that by simp_all
    consider "x = u" "\<forall>y \<in> set rest. ht y \<le> i"
      | m1 b m2 where "x \<noteq> u" "rest = m1 @ b # m2" "\<forall>y \<in> set m1. ht y \<le> i" "i < ht b"
      using turn_cases [OF dA 1(1) i t] by blast
    then show ?thesis
    proof cases
      case a: 1
      show ?thesis
      proof (cases "i < ht c")
        case True
        then show ?thesis using im ur a(1) gx gc by (simp add: 1(2) gap_short [OF a(2)])
      next
        case False
        then have "fst (gap ht i B) \<noteq> Some c" using gap_in cB by metis
        then show ?thesis using False im ur a(1) gx by (simp add: 1(2) gap_short [OF a(2)])
      qed
    next
      case b: 2
      then show ?thesis using im ur gx by (simp add: 1(2) gap_tall)
    qed
  next
    case 2
    then have "x \<noteq> u" using uin LD(2) by auto
    then show ?thesis using im ur i LD(12,13) [of "h # A @ c # q" x post i] 2 by simp
  qed
qed

lemma linked_unlink:
  assumes L: "linked s h (A @ c # B) ht" and up: "length up = m_level s" "\<forall>j < m_level s. turn ht (h # A) j (up ! j)"
  shows "\<exists>s1. unlink_levels c 0 up s = Inr s1 \<and>
      linked (s1\<lparr>heap := (heap s1)(c := None), m_size := m_size s1 - 1\<rparr>) h (A @ B) ht \<and>
      m_level s1 = m_level s \<and> (\<forall>a \<in> set (h # A @ B). ky s1 a = ky s a \<and> vl s1 a = vl s a)"
proof -
  note LD = linkedD [OF L]
  have cB: "c \<notin> set B" "c \<notin> set A" "c \<noteq> h" using LD(2) by auto
  have ups: "\<forall>p \<in> set up. ok_node s (fst p) \<and> fst p \<noteq> c"
  proof
    fix p assume "p \<in> set up"
    then have "fst p \<in> set (h # A)" using up turn_in by (metis in_set_conv_nth)
    then show "ok_node s (fst p) \<and> fst p \<noteq> c" using LD(3) [of "fst p"] cB by auto
  qed
  obtain s1 where s1: "unlink_levels c 0 up s = Inr s1" and same: "same_nodes s s1"
    and rd: "\<And>x j. ok_node s x \<Longrightarrow>
       fw s1 x j = (if j < m_level s then unlink_fw c s (up ! j) x j else fw s x j) \<and>
       sp s1 x j = (if j < m_level s then unlink_sp c s (up ! j) x j else sp s x j)"
    using unlink_levels_spec [OF ups LD(3) [of c], of 0] up(1) LD(8) by auto
  let ?s2 = "s1\<lparr>heap := (heap s1)(c := None), m_size := m_size s1 - 1\<rparr>"
  have eqs: "ok_node ?s2 a" "fw ?s2 a = fw s1 a" "sp ?s2 a = sp s1 a" "ok_node s a" if "a \<in> set (h # A @ B)" for a
  proof -
    have "a \<noteq> c" "ok_node s a" using that cB LD(3) [of a] by auto
    moreover have "ok_node s1 a" using same_nodesD [OF same] calculation by simp
    ultimately show "ok_node ?s2 a" "fw ?s2 a = fw s1 a" "sp ?s2 a = sp s1 a" "ok_node s a"
      by (auto simp: ok_node_def reads fun_eq_iff)
  qed
  have "fw ?s2 x i = fst (gap ht i post) \<and> sp ?s2 x i = snd (gap ht i post)"
    if sp: "h # A @ B = pre @ x # post" and i: "i < ht x" for pre x post i
  proof -
    have "set (h # A @ B) = set (pre @ x # post)" using sp by (rule arg_cong)
    then have "x \<in> set (h # A @ B)" by simp
    then show ?thesis using unlink_gaps [OF L up sp i] rd [OF eqs(4), of x i] eqs(2,3) [of x] by simp
  qed
  moreover have "fw ?s2 h i = None" if "m_level s \<le> i" "i < MAX_LEVEL" for i
    using rd [OF eqs(4), of h i] eqs(2) [of h] that LD(11) [of i] by simp
  moreover have "\<forall>a \<in> set (h # A @ B). ok_node ?s2 a \<and> a < fresh ?s2"
    using same eqs(1) LD(4) unfolding same_nodes_def by auto
  ultimately have "linked ?s2 h (A @ B) ht"
    unfolding linked_def using LD(1,2,5-10) same by (auto simp: same_nodes_def)
  moreover have "\<forall>a \<in> set (h # A @ B). ky s1 a = ky s a \<and> vl s1 a = vl s a"
    using same_nodesD [OF same eqs(4)] by simp
  moreover have "m_level s1 = m_level s" using same by (simp add: same_nodes_def)
  ultimately show ?thesis using s1 by blast
qed

lemma lower_level_spec:
  "1 \<le> l \<Longrightarrow> 1 \<le> lower_level f l \<and> lower_level f l \<le> l \<and> (\<forall>j. lower_level f l \<le> j \<and> j < l \<longrightarrow> f ! j = None)"
  by (induction l) (auto simp: less_Suc_eq Suc_le_eq)

lemma linked_lower:
  assumes L: "linked s h ps ht" and l: "l = lower_level (forward (the (heap s h))) (m_level s)"
  shows "linked (s\<lparr>m_level := l\<rparr>) h ps (ht(h := l))"
proof -
  note LD = linkedD [OF L]
  have low: "1 \<le> l" "l \<le> m_level s" "\<And>j. l \<le> j \<Longrightarrow> j < m_level s \<Longrightarrow> fw s h j = None"
    using lower_level_spec [OF LD(7), of "forward (the (heap s h))"] by (auto simp: l fw_def)
  have hn: "h \<notin> set ps" using LD(2) by simp
  have "ht a \<le> l" if a: "a \<in> set ps" for a
  proof (cases "l < m_level s")
    case True
    then have "fst (gap ht l ps) = None" using low(3) [of l] LD(12) [of "[]" h ps l] LD(6) by simp
    then show ?thesis using a by (simp add: gap_None)
  next
    case False
    then show ?thesis using LD(10) [OF a] low by simp
  qed
  moreover have "fw s a i = fst (gap (ht(h := l)) i post) \<and> sp s a i = snd (gap (ht(h := l)) i post)"
    if sp: "h # ps = pre @ a # post" and i: "i < (ht(h := l)) a" for pre a post i
  proof -
    have "h \<notin> set post" using sp hn by (cases pre) auto
    moreover have "i < ht a" using i low(2) LD(6) by (auto split: if_splits)
    ultimately show ?thesis using LD(12,13) [OF sp, of i] by (simp add: gap_upd)
  qed
  moreover have "fw s h i = None" if "l \<le> i" "i < MAX_LEVEL" for i
    using that low(3) [of i] LD(11) [of i] by (cases "i < m_level s") auto
  ultimately show ?thesis unfolding linked_def using LD(1-9) low hn by auto
qed

text \<open>The whole of an insertion and of a removal.\<close>

lemma linked_head: "linked s h ps ht \<Longrightarrow> deref s (m_head s) = Inr (h, the (heap s h))"
  using linkedD(1) [of s h ps ht] linkedD(3) [of s h ps ht h] deref_ok by simp

lemma linked_new:
  assumes L: "linked s h (A @ B) ht" and up: "length up = m_level s" "\<forall>j < m_level s. turn ht (h # A) j (up ! j)"
    and nl: "1 \<le> nl" "nl \<le> MAX_LEVEL"
  shows "\<exists>s' ht'. bnd (raise_levels h [m_level s..<nl] s) (\<lambda>s1.
        bnd (link_levels (fresh s1) (int (length A)) nl 0 (up @ map (\<lambda>_. (h, 0)) [m_level s..<nl])
              (s1\<lparr>heap := (heap s1)(fresh s1 \<mapsto> new_node key v), fresh := Suc (fresh s1),
                  m_level := max (m_level s1) nl\<rparr>)) (\<lambda>s3.
          Inr (s3\<lparr>m_size := Suc (m_size s3)\<rparr>))) = Inr s' \<and>
      linked s' h (A @ fresh s # B) ht' \<and> ky s' (fresh s) = key \<and> vl s' (fresh s) = v \<and>
      (\<forall>a \<in> set (A @ B). ky s' a = ky s a \<and> vl s' a = vl s a)"
proof -
  let ?m = "max (m_level s) nl" and ?up = "up @ map (\<lambda>_. (h, 0)) [m_level s..<nl]"
  let ?ht = "ht(h := ?m)"
  note LD = linkedD [OF L]
  obtain s1 where s1: "raise_levels h [m_level s..<nl] s = Inr s1" "same_nodes s s1" "linked (s1\<lparr>m_level := ?m\<rparr>) h (A @ B) ?ht"
    using linked_raise [OF L nl(2)] by blast
  have hA: "h \<notin> set A" using LD(2) by simp
  have "turn ?ht (h # A) j (?up ! j)" if j: "j < ?m" for j
  proof (cases "j < m_level s")
    case True
    then obtain pre mid where t: "h # A = pre @ fst (up ! j) # mid" "j < ht (fst (up ! j))" "\<forall>x \<in> set mid. ht x \<le> j"
        "snd (up ! j) = int (length pre)" using up unfolding turn_def by blast
    have "h \<notin> set mid" using t(1) hA by (cases pre) auto
    then have "\<forall>x \<in> set mid. ?ht x \<le> j" "j < ?ht (fst (up ! j))" using t True by auto
    then show ?thesis using t(1,4) True up(1) unfolding turn_def by (metis nth_append)
  next
    case False
    then have q: "?up ! j = (h, 0)" using j up(1) by (simp add: nth_append)
    have "ht x \<le> j" if "x \<in> set A" for x using LD(10) [of x] that False by simp
    then have "\<forall>x \<in> set A. ?ht x \<le> j" using hA by auto
    then show ?thesis unfolding q turn_def using j by (intro exI [of _ "[]"] exI [of _ A]) simp
  qed
  moreover have "length ?up = m_level (s1\<lparr>m_level := ?m\<rparr>)" using up(1) by simp
  ultimately obtain s3 where s3: "link_levels (fresh s1) (int (length A)) nl 0 ?up
        (s1\<lparr>m_level := ?m, heap := (heap s1)(fresh s1 \<mapsto> new_node key v), fresh := Suc (fresh s1)\<rparr>) = Inr s3"
      "linked (s3\<lparr>m_size := Suc (m_size s3)\<rparr>) h (A @ fresh s1 # B) (?ht(fresh s1 := nl))"
      "ky s3 (fresh s1) = key" "vl s3 (fresh s1) = v" "\<forall>a \<in> set (h # A @ B). ky s3 a = ky s1 a \<and> vl s3 a = vl s1 a"
    using linked_insert [OF s1(3), of ?up nl key v] nl by auto
  have eq: "fresh s1 = fresh s" "m_level s1 = m_level s" using s1(2) by (simp_all add: same_nodes_def)
  have kv: "\<forall>a \<in> set (A @ B). ky s3 a = ky s a \<and> vl s3 a = vl s a"
    using s3(5) same_nodesD [OF s1(2)] LD(3) by auto
  have swap: "s1\<lparr>heap := (heap s1)(fresh s1 \<mapsto> new_node key v), fresh := Suc (fresh s1), m_level := ?m\<rparr>
     = s1\<lparr>m_level := ?m, heap := (heap s1)(fresh s1 \<mapsto> new_node key v), fresh := Suc (fresh s1)\<rparr>" by simp
  have "link_levels (fresh s1) (int (length A)) nl 0 ?up
        (s1\<lparr>heap := (heap s1)(fresh s1 \<mapsto> new_node key v), fresh := Suc (fresh s1), m_level := ?m\<rparr>) = Inr s3"
    unfolding swap by (rule s3(1))
  then show ?thesis using s1(1) s3(2-5) kv eq
    by (intro exI [of _ "s3\<lparr>m_size := Suc (m_size s3)\<rparr>"] exI [of _ "?ht(fresh s1 := nl)"]) (simp del: fun_upd_apply)
qed

lemma linked_gone:
  assumes L: "linked s h (A @ c # B) ht" and up: "length up = m_level s" "\<forall>j < m_level s. turn ht (h # A) j (up ! j)"
  shows "\<exists>s' ht'. bnd (unlink_levels c 0 up s) (\<lambda>s1.
        let s2 = s1\<lparr>heap := (heap s1)(c := None)\<rparr> in
        bnd (deref s2 (m_head s2)) (\<lambda>(_, hn).
          Inr (True, s2\<lparr>m_level := lower_level (forward hn) (m_level s2), m_size := m_size s2 - 1\<rparr>))) = Inr (True, s') \<and>
      linked s' h (A @ B) ht' \<and> (\<forall>a \<in> set (A @ B). ky s' a = ky s a \<and> vl s' a = vl s a)"
proof -
  obtain s1 where s1: "unlink_levels c 0 up s = Inr s1"
      "linked (s1\<lparr>heap := (heap s1)(c := None), m_size := m_size s1 - 1\<rparr>) h (A @ B) ht"
      "\<forall>a \<in> set (h # A @ B). ky s1 a = ky s a \<and> vl s1 a = vl s a"
    using linked_unlink [OF L up] by blast
  let ?s2 = "s1\<lparr>heap := (heap s1)(c := None), m_size := m_size s1 - 1\<rparr>"
  let ?l = "lower_level (forward (the (heap ?s2 h))) (m_level ?s2)"
  have cn: "c \<notin> set (h # A @ B)" using linkedD(2) [OF L] by auto
  obtain n where "heap s1 h = Some n" using linkedD(3) [OF s1(2), of h] cn by (auto simp: ok_node_def)
  then have "deref (s1\<lparr>heap := (heap s1)(c := None)\<rparr>) (m_head s1) = Inr (h, the (heap ?s2 h))"
    using linkedD(1) [OF s1(2)] cn by (simp add: deref_def)
  then have run: "bnd (unlink_levels c 0 up s) (\<lambda>s1.
        let s2 = s1\<lparr>heap := (heap s1)(c := None)\<rparr> in
        bnd (deref s2 (m_head s2)) (\<lambda>(_, hn).
          Inr (True, s2\<lparr>m_level := lower_level (forward hn) (m_level s2), m_size := m_size s2 - 1\<rparr>))) = Inr (True, ?s2\<lparr>m_level := ?l\<rparr>)"
    using s1(1) by (simp add: Let_def)
  have "ky ?s2 a = ky s a \<and> vl ?s2 a = vl s a" if "a \<in> set (A @ B)" for a
    using s1(3) that cn by (auto simp: ky_def vl_def)
  then show ?thesis using run linked_lower [OF s1(2) refl]
    by (intro exI [of _ "?s2\<lparr>m_level := ?l\<rparr>"] exI [of _ "ht(h := ?l)"]) (simp del: fun_upd_apply)
qed

lemma setval_reads:
  "fw (set_node b ((the (heap s b))\<lparr>nval := v\<rparr>) s) = fw s" "sp (set_node b ((the (heap s b))\<lparr>nval := v\<rparr>) s) = sp s"
  "ky (set_node b ((the (heap s b))\<lparr>nval := v\<rparr>) s) = ky s" "vl (set_node b ((the (heap s b))\<lparr>nval := v\<rparr>) s) = (vl s)(b := v)"
  by (auto simp: set_node_def reads fun_eq_iff)

lemma linked_setval:
  "linked s h ps ht \<Longrightarrow> b \<in> set ps \<Longrightarrow> linked (set_node b ((the (heap s b))\<lparr>nval := v\<rparr>) s) h ps ht"
  unfolding linked_def setval_reads by (auto simp: set_node_def ok_node_def)

lemma follow_spec:
  "linked s h ps ht \<Longrightarrow> h # ps = pre @ a # post \<Longrightarrow> k < length post \<Longrightarrow>
   follow s k (fw s a 0) = Inr (post ! k, the (heap s (post ! k)))"
proof (induction k arbitrary: pre a post)
  case (Suc k)
  then obtain b post' where post: "post = b # post'" by (cases post) auto
  have b: "b \<in> set ps" "0 < ht b" "0 < ht a" using Suc.prems(2) post linkedD(9) [OF Suc.prems(1)] linkedD(6,7) [OF Suc.prems(1)]
    by (cases pre; fastforce)+
  have "fw s a 0 = Some b" using linkedD(12) [OF Suc.prems(1,2) b(3)] b post by simp
  moreover have "follow s k (fw s b 0) = Inr (post' ! k, the (heap s (post' ! k)))"
    using Suc.IH [OF Suc.prems(1), of "pre @ [a]" b post'] Suc.prems(2,3) post by simp
  ultimately show ?case using deref_ok [OF linkedD(3) [OF Suc.prems(1), of b]] b post by (simp add: fw_def)
next
  case 0
  then obtain b post' where post: "post = b # post'" by (cases post) auto
  have b: "b \<in> set ps" "0 < ht b" "0 < ht a" using 0(2) post linkedD(9) [OF 0(1)] linkedD(6,7) [OF 0(1)]
    by (cases pre; fastforce)+
  have "fw s a 0 = Some b" using linkedD(12) [OF 0(1,2) b(3)] b post by simp
  then show ?case using deref_ok [OF linkedD(3) [OF 0(1), of b]] b post by simp
qed

subsection \<open>A sorted list of keys and values\<close>

text \<open>What the operations do to the sorted list of pairs.\<close>

definition ins_spec :: "('k \<Rightarrow> 'k \<Rightarrow> bool) \<Rightarrow> ('k \<Rightarrow> 'k \<Rightarrow> bool) \<Rightarrow> 'k \<Rightarrow> 'v \<Rightarrow> ('k \<times> 'v) list \<Rightarrow> ('k \<times> 'v) list" where
  "ins_spec lt eq k v xs =
     takeWhile (\<lambda>p. lt (fst p) k) xs @
     (case dropWhile (\<lambda>p. lt (fst p) k) xs of [] \<Rightarrow> [(k, v)]
      | p # ps \<Rightarrow> if eq (fst p) k then (fst p, v) # ps else (k, v) # p # ps)"

definition del_spec :: "('k \<Rightarrow> 'k \<Rightarrow> bool) \<Rightarrow> ('k \<Rightarrow> 'k \<Rightarrow> bool) \<Rightarrow> 'k \<Rightarrow> ('k \<times> 'v) list \<Rightarrow> bool \<times> ('k \<times> 'v) list" where
  "del_spec lt eq k xs =
     (case dropWhile (\<lambda>p. lt (fst p) k) xs of [] \<Rightarrow> (False, xs)
      | p # ps \<Rightarrow> if eq (fst p) k then (True, takeWhile (\<lambda>p. lt (fst p) k) xs @ ps) else (False, xs))"

definition rank_spec :: "('k \<Rightarrow> 'k \<Rightarrow> bool) \<Rightarrow> ('k \<Rightarrow> 'k \<Rightarrow> bool) \<Rightarrow> 'k \<Rightarrow> ('k \<times> 'v) list \<Rightarrow> int" where
  "rank_spec lt eq k xs =
     (case dropWhile (\<lambda>p. lt (fst p) k) xs of [] \<Rightarrow> - 1
      | p # _ \<Rightarrow> if eq (fst p) k then int (length (takeWhile (\<lambda>p. lt (fst p) k) xs)) else - 1)"

definition find_spec :: "('k \<Rightarrow> 'k \<Rightarrow> bool) \<Rightarrow> ('k \<Rightarrow> 'k \<Rightarrow> bool) \<Rightarrow> 'k \<Rightarrow> ('k \<times> 'v) list \<Rightarrow> 'v option" where
  "find_spec lt eq k xs =
     (case dropWhile (\<lambda>p. lt (fst p) k) xs of [] \<Rightarrow> None | p # _ \<Rightarrow> if eq (fst p) k then Some (snd p) else None)"

text \<open>The list that a skip list stands for.\<close>

definition pairs :: "('k, 'v) SkipList \<Rightarrow> nat list \<Rightarrow> ('k \<times> 'v) list" where
  "pairs s ps = map (\<lambda>a. (ky s a, vl s a)) ps"

definition represents ::
  "('k \<Rightarrow> 'k \<Rightarrow> bool) \<Rightarrow> ('k \<Rightarrow> bool) \<Rightarrow> ('k, 'v) SkipList \<Rightarrow> ('k \<times> 'v) list \<Rightarrow> bool" where
  "represents lt good s xs \<longleftrightarrow>
     (\<exists>h ps ht. linked s h ps ht \<and> xs = pairs s ps) \<and> sorted_wrt lt (map fst xs) \<and> (\<forall>p \<in> set xs. good (fst p))"

lemma pairs_cong:
  "(\<And>a. a \<in> set ps \<Longrightarrow> ky s' a = ky s a \<and> vl s' a = vl s a) \<Longrightarrow> pairs s' ps = pairs s ps"
  by (simp add: pairs_def)

lemma pairs_simps [simp]:
  "pairs s (A @ B) = pairs s A @ pairs s B" "pairs s (a # B) = (ky s a, vl s a) # pairs s B" "pairs s [] = []"
  "length (pairs s A) = length A"
  by (simp_all add: pairs_def)

text \<open>
  The key type: \<open>operator<\<close> and \<open>operator==\<close> have to order the \<open>good\<close> keys strictly.
\<close>

locale skip_order =
  fixes lt eq :: "'k \<Rightarrow> 'k \<Rightarrow> bool"
    and good :: "'k \<Rightarrow> bool"
  assumes lt_trans: "lt a b \<Longrightarrow> lt b c \<Longrightarrow> lt a c"
    and lt_total: "good a \<Longrightarrow> good b \<Longrightarrow> lt a b \<or> eq a b \<or> lt b a"
    and lt_irrefl: "\<not> lt a a"
    and eq_lt: "eq a b \<Longrightarrow> \<not> lt a b"
    and lt_eq_trans: "lt a b \<Longrightarrow> eq b c \<Longrightarrow> lt a c"
begin

lemma cut_exists:
  assumes "sorted_wrt lt (map fst (pairs s ps))"
  shows "\<exists>A B. ps = A @ B \<and> cut lt s key A B \<and> takeWhile (\<lambda>p. lt (fst p) key) (pairs s ps) = pairs s A \<and>
    dropWhile (\<lambda>p. lt (fst p) key) (pairs s ps) = pairs s B"
proof -
  define A B where "A = takeWhile (\<lambda>a. lt (ky s a) key) ps" and "B = dropWhile (\<lambda>a. lt (ky s a) key) ps"
  have ps: "ps = A @ B" by (simp add: A_def B_def)
  have "\<not> lt (ky s b) key" if "b \<in> set B" for b
  proof (cases B)
    case (Cons b0 B')
    have n0: "\<not> lt (ky s b0) key" using hd_dropWhile [of "\<lambda>a. lt (ky s a) key" ps] Cons by (simp add: B_def [symmetric])
    have "sorted_wrt lt (map (ky s) (b0 # B'))" using assms ps Cons by (simp add: sorted_wrt_append pairs_def comp_def)
    then have "b = b0 \<or> lt (ky s b0) (ky s b)" using that Cons by auto
    then show ?thesis using n0 lt_trans by blast
  qed (use that in simp)
  then have "cut lt s key A B" unfolding cut_def by (auto simp: A_def dest: set_takeWhileD)
  moreover have "takeWhile (\<lambda>p. lt (fst p) key) (pairs s ps) = pairs s A" "dropWhile (\<lambda>p. lt (fst p) key) (pairs s ps) = pairs s B"
    by (simp_all add: pairs_def takeWhile_map dropWhile_map comp_def A_def B_def)
  ultimately show ?thesis using ps by blast
qed

text \<open>Where the search of an operation ends.\<close>

lemma locate:
  assumes "represents lt good s xs"
  obtains h A B ht up where "linked s h (A @ B) ht" "xs = pairs s A @ pairs s B"
    "takeWhile (\<lambda>p. lt (fst p) key) xs = pairs s A" "dropWhile (\<lambda>p. lt (fst p) key) xs = pairs s B"
    "search lt s key = Inr up" "length up = m_level s" "\<forall>j < m_level s. turn ht (h # A) j (up ! j)"
    "snd (hd up) = int (length A)"
    "candidate eq s key up = Inr (case B of [] \<Rightarrow> None
           | b # _ \<Rightarrow> if eq (ky s b) key then Some (b, the (heap s b)) else None)"
proof -
  obtain h ps ht where L: "linked s h ps ht" "xs = pairs s ps" "sorted_wrt lt (map fst xs)"
    using assms unfolding represents_def by blast
  obtain A B where AB: "ps = A @ B" "cut lt s key A B" "takeWhile (\<lambda>p. lt (fst p) key) xs = pairs s A"
    "dropWhile (\<lambda>p. lt (fst p) key) xs = pairs s B"
    using cut_exists [of s ps key] L(2,3) by blast
  have L': "linked s h (A @ B) ht" using L(1) AB(1) by simp
  have xs: "xs = pairs s A @ pairs s B" using L(2) AB(1) by simp
  show thesis using search_spec [OF L' AB(2)] that [OF L' xs AB(3,4)] by blast
qed

lemma find_refines:
  assumes "represents lt good s xs"
  shows "bnd (sl_find lt eq s key) (\<lambda>n. Inr (map_option nval n)) = Inr (find_spec lt eq key xs)"
  using assms
proof (rule locate [of s xs key])
  fix h A B ht up
  assume "dropWhile (\<lambda>p. lt (fst p) key) xs = pairs s B" "search lt s key = Inr up"
    "candidate eq s key up = Inr (case B of [] \<Rightarrow> None
           | b # _ \<Rightarrow> if eq (ky s b) key then Some (b, the (heap s b)) else None)"
  then show ?thesis by (auto simp: sl_find_def find_spec_def vl_def split: list.splits)
qed

lemma rank_refines:
  assumes "represents lt good s xs"
  shows "getRank lt eq s key = Inr (rank_spec lt eq key xs)"
  using assms
proof (rule locate [of s xs key])
  fix h A B ht up
  assume "takeWhile (\<lambda>p. lt (fst p) key) xs = pairs s A" "dropWhile (\<lambda>p. lt (fst p) key) xs = pairs s B"
    "search lt s key = Inr up" "snd (hd up) = int (length A)"
    "candidate eq s key up = Inr (case B of [] \<Rightarrow> None
           | b # _ \<Rightarrow> if eq (ky s b) key then Some (b, the (heap s b)) else None)"
  then show ?thesis by (auto simp: getRank_def rank_spec_def split: list.splits)
qed

lemma ins_sorted:
  assumes "sorted_wrt lt (map fst xs)" and "\<forall>p \<in> set xs. good (fst p)" and "good key"
  shows "sorted_wrt lt (map fst (ins_spec lt eq key v xs)) \<and> (\<forall>p \<in> set (ins_spec lt eq key v xs). good (fst p))"
proof -
  define A B where "A = takeWhile (\<lambda>p. lt (fst p) key) xs" and "B = dropWhile (\<lambda>p. lt (fst p) key) xs"
  have spec: "ins_spec lt eq key v xs = A @ (case B of [] \<Rightarrow> [(key, v)]
      | p # ps \<Rightarrow> if eq (fst p) key then (fst p, v) # ps else (key, v) # p # ps)"
    by (simp add: ins_spec_def A_def B_def)
  have xs: "xs = A @ B" by (simp add: A_def B_def)
  have A: "\<forall>p \<in> set A. lt (fst p) key" by (auto simp: A_def dest: set_takeWhileD)
  have so: "sorted_wrt lt (map fst (A @ B))" and gd: "\<forall>p \<in> set (A @ B). good (fst p)" using assms(1,2) xs by simp_all
  show ?thesis
  proof (cases B)
    case Nil
    then show ?thesis using so gd A assms(3) by (simp add: spec sorted_wrt_append)
  next
    case (Cons b B')
    have nb: "\<not> lt (fst b) key" using hd_dropWhile [of "\<lambda>p. lt (fst p) key" xs] Cons by (simp add: B_def [symmetric])
    note so' = so [unfolded Cons] and gd' = gd [unfolded Cons]
    show ?thesis
    proof (cases "eq (fst b) key")
      case True
      then show ?thesis using so' gd' by (auto simp: spec Cons sorted_wrt_append)
    next
      case False
      then have kb: "lt key (fst b)" using lt_total [of "fst b" key] nb gd' assms(3) by auto
      then have "\<forall>p \<in> set (b # B'). lt key (fst p)" using so' lt_trans by (auto simp: sorted_wrt_append)
      then show ?thesis using so' gd' A assms(3) False by (auto simp: spec Cons sorted_wrt_append)
    qed
  qed
qed

lemma insert_refines:
  assumes R: "represents lt good s xs" and k: "good key" and nl: "1 \<le> nl" "nl \<le> MAX_LEVEL"
  shows "\<exists>s'. sl_insert lt eq nl key v s = Inr s' \<and> represents lt good s' (ins_spec lt eq key v xs)"
  using R
proof (rule locate [of s xs key])
  fix h A B ht up
  assume L: "linked s h (A @ B) ht" and xs: "xs = pairs s A @ pairs s B"
    and tk: "takeWhile (\<lambda>p. lt (fst p) key) xs = pairs s A" and dp: "dropWhile (\<lambda>p. lt (fst p) key) xs = pairs s B"
    and up: "search lt s key = Inr up" "length up = m_level s" "\<forall>j < m_level s. turn ht (h # A) j (up ! j)"
      "snd (hd up) = int (length A)"
    and cand: "candidate eq s key up = Inr (case B of [] \<Rightarrow> None
           | b # _ \<Rightarrow> if eq (ky s b) key then Some (b, the (heap s b)) else None)"
  note so = ins_sorted [of xs key v] R [unfolded represents_def] k
  show ?thesis
  proof (cases "\<exists>b B'. B = b # B' \<and> eq (ky s b) key")
    case True
    then obtain b B' where b: "B = b # B'" "eq (ky s b) key" by blast
    let ?s = "set_node b ((the (heap s b))\<lparr>nval := v\<rparr>) s"
    have d: "distinct (h # A @ b # B')" using linkedD(2) [OF L] b(1) by simp
    have "sl_insert lt eq nl key v s = Inr ?s" using up(1) cand b by (simp add: sl_insert_def)
    moreover have "linked ?s h (A @ B) ht" by (rule linked_setval [OF L]) (simp add: b)
    moreover have "pairs ?s (A @ B) = ins_spec lt eq key v xs"
      using d setval_reads [where s = s and b = b and v = v] b by (simp add: ins_spec_def tk dp pairs_def)
    ultimately show ?thesis using so unfolding represents_def by metis
  next
    case False
    then have c: "candidate eq s key up = Inr None" using cand by (auto split: list.splits)
    have spec: "ins_spec lt eq key v xs = pairs s A @ (key, v) # pairs s B"
      using False by (cases B) (auto simp: ins_spec_def tk dp)
    have h: "deref s (m_head s) = Inr (h, the (heap s h))" using L by (rule linked_head)
    obtain s' ps ht' where "sl_insert lt eq nl key v s = Inr s'" "linked s' h (A @ fresh s # B) ht'"
      "ky s' (fresh s) = key" "vl s' (fresh s) = v" "\<forall>a \<in> set (A @ B). ky s' a = ky s a \<and> vl s' a = vl s a"
      using linked_new [OF L up(2,3) nl, of key v] up c h by (auto simp: sl_insert_def Let_def)
    moreover from this have "pairs s' (A @ fresh s # B) = ins_spec lt eq key v xs"
      using spec pairs_cong [of A s' s] pairs_cong [of B s' s] by simp
    ultimately show ?thesis using so unfolding represents_def by metis
  qed
qed

lemma remove_refines:
  assumes R: "represents lt good s xs"
  shows "\<exists>s'. sl_remove lt eq key s = Inr (fst (del_spec lt eq key xs), s') \<and> represents lt good s' (snd (del_spec lt eq key xs))"
  using R
proof (rule locate [of s xs key])
  fix h A B ht up
  assume L: "linked s h (A @ B) ht" and xs: "xs = pairs s A @ pairs s B"
    and tk: "takeWhile (\<lambda>p. lt (fst p) key) xs = pairs s A" and dp: "dropWhile (\<lambda>p. lt (fst p) key) xs = pairs s B"
    and up: "search lt s key = Inr up" "length up = m_level s" "\<forall>j < m_level s. turn ht (h # A) j (up ! j)"
    and cand: "candidate eq s key up = Inr (case B of [] \<Rightarrow> None
           | b # _ \<Rightarrow> if eq (ky s b) key then Some (b, the (heap s b)) else None)"
  show ?thesis
  proof (cases "\<exists>b B'. B = b # B' \<and> eq (ky s b) key")
    case True
    then obtain b B' where b: "B = b # B'" "eq (ky s b) key" by blast
    have spec: "del_spec lt eq key xs = (True, pairs s A @ pairs s B')" using b by (simp add: del_spec_def tk dp)
    have "sorted_wrt lt (map fst (pairs s A @ pairs s B'))" "\<forall>p \<in> set (pairs s A @ pairs s B'). good (fst p)"
      using R b xs by (auto simp: represents_def sorted_wrt_append)
    moreover obtain s' ht' where "sl_remove lt eq key s = Inr (True, s')" "linked s' h (A @ B') ht'"
      "\<forall>a \<in> set (A @ B'). ky s' a = ky s a \<and> vl s' a = vl s a"
      using linked_gone [OF L [unfolded b(1)] up(2,3)] up(1) cand b by (auto simp: sl_remove_def)
    moreover from this have "pairs s' (A @ B') = pairs s A @ pairs s B'"
      using pairs_cong [of A s' s] pairs_cong [of B' s' s] by simp
    ultimately show ?thesis using spec unfolding represents_def by (metis fst_conv snd_conv)
  next
    case False
    then have "candidate eq s key up = Inr None" "del_spec lt eq key xs = (False, xs)"
      using cand by (cases B; auto simp: del_spec_def dp)+
    then show ?thesis using up(1) R by (simp add: sl_remove_def)
  qed
qed

lemma index_refines:
  assumes R: "represents lt good s xs"
  shows "bnd (getByIndex s i) (\<lambda>n. Inr (map_option (\<lambda>nd. (nkey nd, nval nd)) n)) =
    Inr (if 0 \<le> i \<and> i < int (length xs) then Some (xs ! nat i) else None)"
proof -
  obtain h ps ht where L: "linked s h ps ht" "xs = pairs s ps" using R unfolding represents_def by blast
  have n: "m_size s = length xs" using linkedD(5) [OF L(1)] L(2) by simp
  have h: "deref s (m_head s) = Inr (h, the (heap s h))" using L(1) by (rule linked_head)
  show ?thesis
  proof (cases "0 \<le> i \<and> i < int (length xs)")
    case True
    then have "nat i < length ps" using L(2) by (simp add: nat_less_iff)
    then show ?thesis using True follow_spec [OF L(1), of "[]" h ps "nat i"] n h L(2)
      by (simp add: getByIndex_def fw_def pairs_def ky_def vl_def)
  qed (auto simp: getByIndex_def n)
qed

lemma size_refines: "represents lt good s xs \<Longrightarrow> sl_size s = length xs \<and> (sl_empty s \<longleftrightarrow> xs = [])"
  by (auto simp: represents_def sl_size_def sl_empty_def linked_def pairs_def)

lemma new_refines: "represents lt good (sl_new k v) []"
proof -
  have "linked (sl_new k v) 0 [] (\<lambda>_. 1)"
    by (auto simp: linked_def sl_new_def new_node_def ok_node_def reads MAX_LEVEL_def Cons_eq_append_conv)
  moreover have "[] = pairs (sl_new k v) []" by simp
  ultimately show ?thesis unfolding represents_def by (metis empty_iff list.set(1) list.simps(8) sorted_wrt.simps(1))
qed

text \<open>The specifications as sets.\<close>

lemma sorted_distinct: "sorted_wrt lt (map fst xs) \<Longrightarrow> distinct xs"
  by (induction xs) (auto simp: lt_irrefl)

lemma takeWhile_filter:
  "sorted_wrt lt (map fst xs) \<Longrightarrow> takeWhile (\<lambda>p. lt (fst p) k) xs = filter (\<lambda>p. lt (fst p) k) xs"
proof (induction xs)
  case (Cons p xs)
  then have "lt (fst q) k \<Longrightarrow> lt (fst p) k" if "q \<in> set xs" for q using that lt_trans by auto
  then have "\<not> lt (fst p) k \<Longrightarrow> filter (\<lambda>p. lt (fst p) k) xs = []" by (auto simp: filter_empty_conv)
  then show ?case using Cons by simp
qed simp

lemma drop_found:
  assumes "sorted_wrt lt (map fst xs)" and "p \<in> set xs" and "eq (fst p) k"
  shows "\<exists>ps. xs = takeWhile (\<lambda>p. lt (fst p) k) xs @ p # ps \<and> dropWhile (\<lambda>p. lt (fst p) k) xs = p # ps"
proof -
  define A B where "A = takeWhile (\<lambda>p. lt (fst p) k) xs" and "B = dropWhile (\<lambda>p. lt (fst p) k) xs"
  have xs: "xs = A @ B" by (simp add: A_def B_def)
  have "p \<notin> set A" using eq_lt [OF assms(3)] by (auto simp: A_def dest: set_takeWhileD)
  then have p: "p \<in> set B" using assms(2) xs by auto
  then obtain b ps where B: "B = b # ps" by (cases B) auto
  have "\<not> lt (fst b) k" using hd_dropWhile [of "\<lambda>p. lt (fst p) k" xs] B by (simp add: B_def [symmetric])
  moreover have "b = p \<or> lt (fst b) (fst p)" using assms(1) p by (auto simp: xs B sorted_wrt_append)
  ultimately have "b = p" using lt_eq_trans assms(3) by blast
  then have "xs = A @ p # ps" "B = p # ps" using xs B by simp_all
  then show ?thesis unfolding A_def B_def by blast
qed

lemma del_set:
  assumes "sorted_wrt lt (map fst xs)" and "p \<in> set xs" and "eq (fst p) k"
  shows "set (snd (del_spec lt eq k xs)) = set xs - {p}"
proof -
  obtain ps where ps: "xs = takeWhile (\<lambda>p. lt (fst p) k) xs @ p # ps" "dropWhile (\<lambda>p. lt (fst p) k) xs = p # ps"
    using drop_found [OF assms] by blast
  define A where "A = takeWhile (\<lambda>p. lt (fst p) k) xs"
  have xs: "xs = A @ p # ps" using ps(1) by (simp add: A_def)
  have "snd (del_spec lt eq k xs) = A @ ps" using ps(2) assms(3) by (simp add: del_spec_def A_def)
  moreover have "p \<notin> set A" "p \<notin> set ps" using sorted_distinct [OF assms(1)] by (auto simp: xs)
  ultimately show ?thesis by (auto simp: xs)
qed

lemma ins_set:
  assumes "\<forall>p \<in> set xs. \<not> eq (fst p) k"
  shows "set (ins_spec lt eq k v xs) = insert (k, v) (set xs)"
proof -
  define A B where "A = takeWhile (\<lambda>p. lt (fst p) k) xs" and "B = dropWhile (\<lambda>p. lt (fst p) k) xs"
  have xs: "xs = A @ B" by (simp add: A_def B_def)
  have "ins_spec lt eq k v xs = A @ (case B of [] \<Rightarrow> [(k, v)]
      | p # ps \<Rightarrow> if eq (fst p) k then (fst p, v) # ps else (k, v) # p # ps)"
    by (simp add: ins_spec_def A_def B_def)
  moreover have "\<forall>p \<in> set B. \<not> eq (fst p) k" using assms by (simp add: xs)
  ultimately have "ins_spec lt eq k v xs = A @ (k, v) # B" by (cases B) simp_all
  then show ?thesis by (simp add: xs)
qed

lemma rank_found:
  assumes "sorted_wrt lt (map fst xs)" and "p \<in> set xs" and "eq (fst p) k"
  shows "rank_spec lt eq k xs = int (card {q \<in> set xs. lt (fst q) k})"
proof -
  have "length (takeWhile (\<lambda>p. lt (fst p) k) xs) = card {q \<in> set xs. lt (fst q) k}"
    using distinct_card [OF distinct_filter [OF sorted_distinct [OF assms(1)]], of "\<lambda>p. lt (fst p) k"]
    by (simp add: takeWhile_filter [OF assms(1)])
  then show ?thesis using drop_found [OF assms] assms(3) by (auto simp: rank_spec_def)
qed

end

subsection \<open>The keys of sorted sets\<close>

lemma zkey_lt_iff:
  "zkey_lt a b \<longleftrightarrow> score a \<noteq> NaN \<and> score b \<noteq> NaN \<and> (drank (score a), member a) < (drank (score b), member b)"
  by (auto simp: zkey_lt_def deq_def dlt_def)

interpretation zk: skip_order zkey_lt zkey_eq "\<lambda>k. score k \<noteq> NaN"
proof
  show "zkey_lt a c" if "zkey_lt a b" "zkey_lt b c" for a b c
    using that less_trans [of "(drank (score a), member a)"] unfolding zkey_lt_iff by blast
  show "zkey_lt a b \<or> zkey_eq a b \<or> zkey_lt b a" if "score a \<noteq> NaN" "score b \<noteq> NaN" for a b
    using that by (auto simp: zkey_lt_iff zkey_eq_def deq_def)
qed (auto simp: zkey_lt_iff zkey_eq_def deq_def)

abbreviation zrep :: "zlist \<Rightarrow> (ZSetKey \<times> string) list \<Rightarrow> bool" where
  "zrep \<equiv> represents zkey_lt (\<lambda>k. score k \<noteq> NaN)"

text \<open>C3. The skip list implements a sorted list of pairs. For keys whose score is a number and any
  height between 1 and 16, insertion puts the pair in its place (or replaces the value of an equal
  key), removal takes out the equal key if there is one and says so, \<open>getRank\<close> is the position in
  the list, \<open>find\<close> and \<open>getByIndex\<close> read it, and the size is its length; every search ends, and no
  operation reads a missing node.\<close>

theorem skiplist_refines:
  assumes "zrep s xs" and "score k \<noteq> NaN" and "1 \<le> nl" and "nl \<le> MAX_LEVEL"
  shows "(\<exists>s'. zl_insert nl k v s = Inr s' \<and> zrep s' (ins_spec zkey_lt zkey_eq k v xs)) \<and>
    (\<exists>s'. zl_remove k s = Inr (fst (del_spec zkey_lt zkey_eq k xs), s') \<and> zrep s' (snd (del_spec zkey_lt zkey_eq k xs))) \<and>
    zl_rank s k = Inr (rank_spec zkey_lt zkey_eq k xs) \<and>
    bnd (sl_find zkey_lt zkey_eq s k) (\<lambda>n. Inr (map_option nval n)) = Inr (find_spec zkey_lt zkey_eq k xs) \<and>
    bnd (getByIndex s i) (\<lambda>n. Inr (map_option (\<lambda>nd. (nkey nd, nval nd)) n)) =
      Inr (if 0 \<le> i \<and> i < int (length xs) then Some (xs ! nat i) else None) \<and>
    sl_size s = length xs"
  using zk.insert_refines [OF assms] zk.remove_refines [OF assms(1)] zk.rank_refines [OF assms(1)]
    zk.find_refines [OF assms(1)] zk.index_refines [OF assms(1)] zk.size_refines [OF assms(1)]
  unfolding zl_insert_def zl_remove_def zl_rank_def by blast

theorem skiplist_refines_witness:
  "\<exists>s'. zl_insert 3 (zkey (Fin 5) ''m'') ''m'' zlist_new = Inr s' \<and> zrep s' [(zkey (Fin 5) ''m'', ''m'')]"
proof -
  have "zrep zlist_new []" unfolding zlist_new_def by (rule zk.new_refines)
  then show ?thesis
    using skiplist_refines [of zlist_new "[]" "zkey (Fin 5) ''m''" 3 "''m''"]
    by (simp add: zkey_def MAX_LEVEL_def ins_spec_def)
qed

end
