(* ===== verification/Connection.thy ===== *)
theory Connection
  imports Resp
begin

text \<open>
  The per-connection state: \<open>ScanCursor\<close> of \<open>src/src/util/scan_cursor.h\<close> with its textual form, and
  the part of \<open>MSocket\<close> (\<open>src/src/net/msocket.h\<close>) that the command layer uses: authentication,
  the selected database, the transaction queue with its watched keys, the subscription sets, the
  monitor flag and the saved cursor. A hash set is a list without repetitions.
\<close>

subsection \<open>Scan cursors\<close>

record ScanCursor =
  db :: int
  shardIndex :: int
  dataType :: int
  offset :: nat
  completed :: bool

definition cursor_default :: ScanCursor where
  "cursor_default = \<lparr>db = 0, shardIndex = 0, dataType = 0, offset = 0, completed = False\<rparr>"

definition serialize :: "ScanCursor \<Rightarrow> string" where
  "serialize c =
     (if completed c then ''0''
      else to_string (shardIndex c) @ '':'' @ to_string (dataType c) @ '':'' @ to_string (int (offset c)))"

text \<open>\<open>find(':')\<close>: the text before the first colon and the text after it.\<close>

definition split_colon :: "string \<Rightarrow> (string \<times> string) option" where
  "split_colon s =
     (let a = takeWhile (\<lambda>c. c \<noteq> CHR '':'') s in
      if length a < length s then Some (a, drop (Suc (length a)) s) else None)"

text \<open>
  The fields are assigned one after the other, so those read before an exception keep their new
  value; the caller looks only at \<open>completed\<close> then.
\<close>

definition deserialize_fields :: "string \<Rightarrow> string \<Rightarrow> string \<Rightarrow> ScanCursor" where
  "deserialize_fields a b c =
     (case stoi a of None \<Rightarrow> cursor_default\<lparr>completed := True\<rparr>
      | Some sh \<Rightarrow>
          (case stoi b of None \<Rightarrow> cursor_default\<lparr>shardIndex := sh, completed := True\<rparr>
           | Some ty \<Rightarrow>
               (case stoull c of
                  None \<Rightarrow> cursor_default\<lparr>shardIndex := sh, dataType := ty, completed := True\<rparr>
                | Some off \<Rightarrow>
                    cursor_default\<lparr>shardIndex := sh, dataType := ty, offset := off, completed := False\<rparr>)))"

definition deserialize :: "string \<Rightarrow> ScanCursor" where
  "deserialize s =
     (if s = ''0'' then cursor_default\<lparr>completed := True\<rparr>
      else case split_colon s of None \<Rightarrow> cursor_default\<lparr>completed := True\<rparr>
      | Some (a, r) \<Rightarrow>
          (case split_colon r of None \<Rightarrow> cursor_default\<lparr>completed := True\<rparr>
           | Some (b, c) \<Rightarrow> deserialize_fields a b c))"

lemma split_colon_append:
  "CHR '':'' \<notin> set a \<Longrightarrow> split_colon (a @ CHR '':'' # r) = Some (a, r)"
proof -
  assume "CHR '':'' \<notin> set a"
  then have "takeWhile (\<lambda>c. c \<noteq> CHR '':'') (a @ CHR '':'' # r) = a"
    by (subst takeWhile_append2) auto
  then show ?thesis by (simp add: split_colon_def)
qed

lemma to_string_no_colon: "CHR '':'' \<notin> set (to_string v)"
  using to_string_nat_digits isdigit_not_sign by (fastforce simp: to_string_def split: if_splits)

lemma stoi_to_string: "- (2 ^ 31) \<le> v \<Longrightarrow> v < 2 ^ 31 \<Longrightarrow> stoi (to_string v) = Some v"
  by (simp add: stoi_def)

lemma stoull_to_string: "n < 2 ^ 64 \<Longrightarrow> stoull (to_string (int n)) = Some n"
  by (simp add: stoull_def)

subsection \<open>Connections\<close>

record WatchedKey =
  wkey :: string
  version :: nat

record MSocket =
  m_client_password :: string
  m_client_name :: string
  m_auth_level :: int
  m_client_db_id :: int
  m_in_transaction :: bool
  m_transaction_cmds :: "RespValue list list"
  m_watchedKeys :: "WatchedKey list"
  m_in_subScription :: bool
  m_subScription_channels :: "string list"
  m_subScription_patterns :: "string list"
  m_in_monitor :: bool
  m_scanCursor :: ScanCursor
  m_hasScanCursor :: bool

definition new_socket :: MSocket where
  "new_socket = \<lparr>m_client_password = ''client123'', m_client_name = [], m_auth_level = 0, m_client_db_id = 0,
     m_in_transaction = False, m_transaction_cmds = [], m_watchedKeys = [], m_in_subScription = False,
     m_subScription_channels = [], m_subScription_patterns = [], m_in_monitor = False,
     m_scanCursor = cursor_default, m_hasScanCursor = False\<rparr>"

definition beginTransaction :: "MSocket \<Rightarrow> bool \<times> MSocket" where
  "beginTransaction s = (if m_in_subScription s then (False, s) else (True, s\<lparr>m_in_transaction := True\<rparr>))"

definition addTransaction :: "RespValue list \<Rightarrow> MSocket \<Rightarrow> MSocket" where
  "addTransaction t s = s\<lparr>m_transaction_cmds := m_transaction_cmds s @ [t]\<rparr>"

definition clearTransaction :: "MSocket \<Rightarrow> MSocket" where
  "clearTransaction s = s\<lparr>m_transaction_cmds := [], m_in_transaction := False\<rparr>"

definition addWatchKey :: "string \<Rightarrow> nat \<Rightarrow> MSocket \<Rightarrow> MSocket" where
  "addWatchKey k v s = s\<lparr>m_watchedKeys := m_watchedKeys s @ [\<lparr>wkey = k, version = v\<rparr>]\<rparr>"

definition clearWatchedKey :: "MSocket \<Rightarrow> MSocket" where
  "clearWatchedKey s = s\<lparr>m_watchedKeys := []\<rparr>"

definition isKeyModified :: "MSocket \<Rightarrow> string \<Rightarrow> nat \<Rightarrow> bool" where
  "isKeyModified s k curr_version \<longleftrightarrow> (\<exists>wk \<in> set (m_watchedKeys s). wkey wk = k \<and> version wk \<noteq> curr_version)"

definition hasKeyModified :: "(string \<Rightarrow> nat) \<Rightarrow> MSocket \<Rightarrow> bool" where
  "hasKeyModified version_checker s \<longleftrightarrow> (\<exists>wk \<in> set (m_watchedKeys s). version wk \<noteq> version_checker (wkey wk))"

definition beginSubScription :: "MSocket \<Rightarrow> bool \<times> MSocket" where
  "beginSubScription s = (if m_in_transaction s then (False, s) else (True, s\<lparr>m_in_subScription := True\<rparr>))"

definition endSubScription :: "MSocket \<Rightarrow> bool \<times> MSocket" where
  "endSubScription s = (True, s\<lparr>m_in_subScription := False\<rparr>)"

definition addSubScriptionChannel :: "string \<Rightarrow> MSocket \<Rightarrow> MSocket" where
  "addSubScriptionChannel c s = s\<lparr>m_subScription_channels := set_insert c (m_subScription_channels s)\<rparr>"

definition removeSubScriptionChannel :: "string \<Rightarrow> MSocket \<Rightarrow> MSocket" where
  "removeSubScriptionChannel c s = s\<lparr>m_subScription_channels := removeAll c (m_subScription_channels s)\<rparr>"

definition addSubScriptionPattern :: "string \<Rightarrow> MSocket \<Rightarrow> MSocket" where
  "addSubScriptionPattern p s = s\<lparr>m_subScription_patterns := set_insert p (m_subScription_patterns s)\<rparr>"

definition removeSubScriptionPattern :: "string \<Rightarrow> MSocket \<Rightarrow> MSocket" where
  "removeSubScriptionPattern p s = s\<lparr>m_subScription_patterns := removeAll p (m_subScription_patterns s)\<rparr>"

definition clearSubScription :: "MSocket \<Rightarrow> MSocket" where
  "clearSubScription s =
     s\<lparr>m_subScription_channels := [], m_subScription_patterns := [], m_in_subScription := False\<rparr>"

definition setScanCursor :: "ScanCursor \<Rightarrow> MSocket \<Rightarrow> MSocket" where
  "setScanCursor c s = s\<lparr>m_scanCursor := c, m_hasScanCursor := True\<rparr>"

definition clearScanCursor :: "MSocket \<Rightarrow> MSocket" where
  "clearScanCursor s = s\<lparr>m_hasScanCursor := False, m_scanCursor := cursor_default\<rparr>"

lemmas socket_defs = beginTransaction_def addTransaction_def clearTransaction_def addWatchKey_def
  clearWatchedKey_def beginSubScription_def endSubScription_def addSubScriptionChannel_def
  removeSubScriptionChannel_def addSubScriptionPattern_def removeSubScriptionPattern_def
  clearSubScription_def setScanCursor_def clearScanCursor_def

text \<open>A connection is never in a transaction and in subscription mode at once, and its database exists.\<close>

definition socket_ok :: "MSocket \<Rightarrow> bool" where
  "socket_ok s \<longleftrightarrow> \<not> (m_in_transaction s \<and> m_in_subScription s) \<and> 0 \<le> m_client_db_id s \<and> m_client_db_id s < 16"

lemma socket_ok_ops:
  assumes "socket_ok s"
  shows "socket_ok (snd (beginTransaction s))" "socket_ok (snd (beginSubScription s))"
    "socket_ok (snd (endSubScription s))" "socket_ok (addTransaction t s)" "socket_ok (clearTransaction s)"
    "socket_ok (addWatchKey k v s)" "socket_ok (clearWatchedKey s)" "socket_ok (clearSubScription s)"
    "socket_ok (addSubScriptionChannel c s)" "socket_ok (removeSubScriptionChannel c s)"
    "socket_ok (addSubScriptionPattern c s)" "socket_ok (removeSubScriptionPattern c s)"
    "socket_ok (setScanCursor cu s)" "socket_ok (clearScanCursor s)"
  using assms by (auto simp: socket_ok_def socket_defs)

lemma socket_ok_new [simp]: "socket_ok new_socket"
  by (simp add: socket_ok_def new_socket_def)

subsection \<open>Properties\<close>

text \<open>A cursor handed to the client and sent back selects the same position: reading the text of
  an unfinished cursor restores its shard, its data type and its offset.\<close>

theorem cursor_roundtrip:
  assumes "\<not> completed c" and "0 \<le> shardIndex c" "shardIndex c < 2 ^ 31"
    and "0 \<le> dataType c" "dataType c < 2 ^ 31" and "offset c < 2 ^ 64"
  shows "deserialize (serialize c) = c\<lparr>db := 0\<rparr>"
proof -
  have "split_colon (serialize c) = Some (to_string (shardIndex c), to_string (dataType c) @ '':'' @ to_string (int (offset c)))"
    "split_colon (to_string (dataType c) @ '':'' @ to_string (int (offset c))) = Some (to_string (dataType c), to_string (int (offset c)))"
    using assms(1) split_colon_append [OF to_string_no_colon] by (simp_all add: serialize_def)
  moreover have "serialize c \<noteq> ''0''"
    using calculation(1) by (auto simp: split_colon_def)
  ultimately show ?thesis using assms
    by (simp add: deserialize_def deserialize_fields_def stoi_to_string stoull_to_string cursor_default_def)
qed

theorem cursor_roundtrip_witness:
  "deserialize (serialize \<lparr>db = 3, shardIndex = 17, dataType = 4, offset = 9, completed = False\<rparr>)
     = \<lparr>db = 0, shardIndex = 17, dataType = 4, offset = 9, completed = False\<rparr>"
  by (subst cursor_roundtrip) simp_all

end
