(* ===== verification/System.thy ===== *)
theory System
  imports Connection Double
begin

text \<open>
  What the command layer takes from outside: the values the C++ library and the operating system
  supply (\<open>env\<close>), the process-wide configuration variables of \<open>src/config/atomic_config.h\<close> and
  \<open>src/src/util/configinit.h\<close> (\<open>config\<close>), and the other ends of the connections (\<open>net\<close>).
\<close>

subsection \<open>Library and operating system\<close>

text \<open>
  \<^item> \<open>std_hash\<close>: \<open>std::hash<std::string>\<close>, an unspecified function into \<open>size_t\<close>.
  \<^item> \<open>clock i\<close>: the \<open>i\<close>-th reading of the steady clock made during one command, in nanoseconds;
    different program points use different indices.
  \<^item> \<open>wall i\<close>: the same for the system clock, in microseconds.
  \<^item> \<open>iter\<close>: the order in which a hash container with the given keys is traversed.
  \<^item> \<open>rehash n\<close>: whether an insertion into a flat hash map of \<open>n\<close> entries moves its storage.
  \<^item> \<open>shuffle\<close>: the rearrangement \<open>std::shuffle\<close> makes of a vector.
  \<^item> \<open>rnd i\<close>: the \<open>i\<close>-th value of \<open>rand()\<close>; \<open>coin i j\<close>: the \<open>j\<close>-th coin of the \<open>i\<close>-th skip-list
    insertion of a command.
  \<^item> \<open>std_stod\<close>: \<open>std::stod\<close>, \<open>None\<close> when it throws; \<open>std_to_string\<close>: \<open>std::to_string(double)\<close>;
    \<open>std_ostream\<close>: what \<open>operator<<\<close> writes for a \<open>double\<close>, six significant digits.
  \<^item> \<open>std_regex\<close>: the predicate \<open>std::regex_match(_, std::regex(p))\<close>, \<open>None\<close> when the constructor
    throws.
  \<^item> \<open>send_n i s\<close>: what \<open>::send\<close> returns when the bytes \<open>s\<close> are sent to connection \<open>i\<close>;
    \<open>send_again i s\<close>: whether a failure was \<open>EAGAIN\<close>.
  \<^item> \<open>fs_open_ok f\<close>: whether the file \<open>f\<close> can be opened for writing; \<open>fs_remove_ok f\<close>: whether it
    can be removed; \<open>fs_tell\<close>: what \<open>tellp()\<close> of the open log returns.
  \<^item> \<open>on_iomanager\<close>: whether \<open>IOManager::GetThis()\<close> finds a scheduler in the calling thread.
  \<^item> \<open>max_elems\<close>: the largest number of elements \<open>std::vector::reserve\<close> can serve.
  \<^item> \<open>t_start\<close>, \<open>t_end\<close>: the steady clock before and after the command, for the slow log;
    \<open>t_log\<close>: the system clock when a slow-log entry is made.
  \<^item> \<open>std_put_time\<close>: \<open>gmtime_r\<close> and \<open>std::put_time\<close> with the format \<open>%Y-%m-%d %H:%M:%S\<close>.
\<close>

record env =
  std_hash :: "string \<Rightarrow> nat"
  clock :: "nat \<Rightarrow> int"
  wall :: "nat \<Rightarrow> int"
  iter :: "string list \<Rightarrow> string list"
  rehash :: "nat \<Rightarrow> bool"
  shuffle :: "string list \<Rightarrow> string list"
  rnd :: "nat \<Rightarrow> nat"
  coin :: "nat \<Rightarrow> nat \<Rightarrow> bool"
  std_stod :: "string \<Rightarrow> double option"
  std_to_string :: "double \<Rightarrow> string"
  std_ostream :: "double \<Rightarrow> string"
  std_regex :: "string \<Rightarrow> (string \<Rightarrow> bool) option"
  send_n :: "nat \<Rightarrow> string \<Rightarrow> int"
  send_again :: "nat \<Rightarrow> string \<Rightarrow> bool"
  fs_open_ok :: "string \<Rightarrow> bool"
  fs_remove_ok :: "string \<Rightarrow> bool"
  fs_tell :: int
  on_iomanager :: bool
  max_elems :: nat
  t_start :: int
  t_end :: int
  t_log :: int
  std_put_time :: "int \<Rightarrow> string"

text \<open>A traversal visits every element exactly once.\<close>

definition iter_ok :: "env \<Rightarrow> bool" where
  "iter_ok e \<longleftrightarrow> (\<forall>ks. mset (iter e ks) = mset ks)"

definition shuffle_ok :: "env \<Rightarrow> bool" where
  "shuffle_ok e \<longleftrightarrow> (\<forall>xs. mset (shuffle e xs) = mset xs)"

lemma iter_set: "iter_ok e \<Longrightarrow> set (iter e ks) = set ks"
  unfolding iter_ok_def by (metis set_mset_mset)

lemma iter_distinct: "iter_ok e \<Longrightarrow> distinct (iter e ks) = distinct ks"
  unfolding iter_ok_def by (metis mset_eq_imp_distinct_iff)

lemma iter_length: "iter_ok e \<Longrightarrow> length (iter e ks) = length ks"
  unfolding iter_ok_def by (metis size_mset)

subsection \<open>Configuration variables\<close>

datatype AOFSyncStrategy = ALWAYS | EVERYSEC | NO

record config =
  s_aof_sync :: AOFSyncStrategy
  s_aof_filename :: string
  s_aof_max_file_size :: nat
  s_aof_max_buffer_size :: nat
  s_aof_enabled :: bool
  s_aof_max_file_number :: int
  s_slow_log_slower_than :: int
  s_slow_log_max_len :: nat
  s_redis_server_timeout :: nat
  s_redis_server_maxClients :: nat
  s_repl_master_addr :: string
  s_repl_master_password :: string
  s_repl_offset :: int
  s_repl_retry_count :: int
  s_repl_master_port :: nat
  s_repl_is_master :: bool
  s_max_command_size :: nat
  s_max_batch_size :: nat
  s_max_exec_batch_size :: nat
  g_admin_password :: string

subsection \<open>The other ends of the connections\<close>

text \<open>
  Connections are numbered. \<open>alive\<close> are the \<open>MSocket\<close> objects some \<open>shared_ptr\<close> still owns (a
  \<open>weak_ptr\<close> to any other has expired), \<open>connected\<close> those whose \<open>isConnected()\<close> holds, \<open>raddr\<close>
  the remote address as text, \<open>rip\<close> its host and port when it is an IP address, \<open>outq\<close> what has
  been handed to \<open>::send\<close>, in order.
\<close>

record net =
  alive :: "nat list"
  connected :: "nat list"
  raddr :: "nat \<Rightarrow> string"
  rip :: "nat \<Rightarrow> (string \<times> nat) option"
  outq :: "(nat \<times> string) list"

definition lockable :: "net \<Rightarrow> nat \<Rightarrow> bool" where
  "lockable n i \<longleftrightarrow> i \<in> set (alive n)"

definition online :: "net \<Rightarrow> nat \<Rightarrow> bool" where
  "online n i \<longleftrightarrow> lockable n i \<and> i \<in> set (connected n)"

definition net_send :: "env \<Rightarrow> nat \<Rightarrow> string \<Rightarrow> net \<Rightarrow> int \<times> net" where
  "net_send e i data n =
     (let k = send_n e i data in
      (k, if k > 0 then n\<lparr>outq := outq n @ [(i, take (nat k) data)]\<rparr> else n))"

subsection \<open>A concrete environment\<close>

text \<open>
  Values for closed examples: a small string hash, a clock that stands still, traversal in storage
  order, sends and file operations that succeed.
\<close>

definition demo_env :: env where
  "demo_env = \<lparr>std_hash = foldl (\<lambda>h c. (31 * h + of_char c) mod 65536) 7, clock = (\<lambda>_. 1000), wall = (\<lambda>_. 5), iter = id,
     rehash = (\<lambda>_. False), shuffle = id,
     rnd = (\<lambda>_. 3), coin = (\<lambda>_ _. False), std_stod = (\<lambda>s. map_option int64_to_double (stoll s)),
     std_to_string = (\<lambda>_. ''1.000000''), std_ostream = (\<lambda>_. ''1''), std_regex = (\<lambda>p. Some (\<lambda>s. p = s)),
     send_n = (\<lambda>_ s. int (length s)), send_again = (\<lambda>_ _. False), fs_open_ok = (\<lambda>_. True),
     fs_remove_ok = (\<lambda>_. True), fs_tell = 0, on_iomanager = True, max_elems = 1000,
     t_start = 0, t_end = 0, t_log = 7, std_put_time = (\<lambda>t. to_string t)\<rparr>"

definition demo_config :: config where
  "demo_config = \<lparr>s_aof_sync = EVERYSEC, s_aof_filename = ''appendonly.aof'', s_aof_max_file_size = 1024,
     s_aof_max_buffer_size = 512, s_aof_enabled = True, s_aof_max_file_number = 5,
     s_slow_log_slower_than = 10000, s_slow_log_max_len = 128, s_redis_server_timeout = 0,
     s_redis_server_maxClients = 100, s_repl_master_addr = ''127.0.0.1'', s_repl_master_password = [],
     s_repl_offset = 0, s_repl_retry_count = 5, s_repl_master_port = 80, s_repl_is_master = True,
     s_max_command_size = 200, s_max_batch_size = 100, s_max_exec_batch_size = 8,
     g_admin_password = ''admin123''\<rparr>"

end
