(* ===== verification/ConfigParser.thy ===== *)
theory ConfigParser
  imports System
begin

text \<open>
  Sizes, durations and switches as text: \<open>ConfigParser\<close> of \<open>src/src/util/config_parser.cpp\<close>. A number
  is read as a \<open>double\<close>, multiplied by its unit and truncated; a result that does not fit the
  integer type is undefined behaviour.
\<close>

subsection \<open>Units\<close>

definition SIZE_UNITS :: "(string \<times> nat) list" where
  "SIZE_UNITS = [(''T'', 1024 * 1024 * 1024 * 1024), (''G'', 1024 * 1024 * 1024), (''M'', 1024 * 1024), (''K'', 1024), (''B'', 1)]"

definition TIME_UNITS :: "(string \<times> nat) list" where
  "TIME_UNITS = [(''h'', 60 * 60 * 1000 * 1000), (''m'', 60 * 1000 * 1000), (''s'', 1000 * 1000), (''ms'', 1000), (''us'', 1)]"

definition is_ws :: "char \<Rightarrow> bool" where
  "is_ws c \<longleftrightarrow> c = CHR '' '' \<or> c = CHR 0x09 \<or> c = LF \<or> c = CR"

definition trim :: "string \<Rightarrow> string" where
  "trim s = rev (dropWhile is_ws (rev (dropWhile is_ws s)))"

definition num_char :: "char \<Rightarrow> bool" where
  "num_char c \<longleftrightarrow> isdigit c \<or> c = CHR ''.''"

text \<open>\<open>value * unit.multiplier\<close> in \<open>double\<close>, and the truncating conversions.\<close>

fun dscale :: "double \<Rightarrow> nat \<Rightarrow> double" where
  "dscale (Fin m) k = round_double (m * int k)"
| "dscale d k = d"

fun dtrunc :: "double \<Rightarrow> int option" where
  "dtrunc (Fin m) = Some (if 0 \<le> m then m div 2 ^ 1074 else - ((- m) div 2 ^ 1074))"
| "dtrunc NegZero = Some 0"
| "dtrunc _ = None"

definition to_size_t :: "double \<Rightarrow> nat res" where
  "to_size_t d = (case dtrunc d of None \<Rightarrow> Inl ConversionOverflow
     | Some v \<Rightarrow> if 0 \<le> v \<and> v < 2 ^ 64 then Inr (nat v) else Inl ConversionOverflow)"

definition to_long_long :: "double \<Rightarrow> int res" where
  "to_long_long d = (case dtrunc d of None \<Rightarrow> Inl ConversionOverflow
     | Some v \<Rightarrow> if int64_ok v then Inr v else Inl ConversionOverflow)"

subsection \<open>Parsing and printing\<close>

text \<open>The common beginning of \<open>ParseSize\<close> and \<open>ParseTime\<close>: the number and the text of the unit.\<close>

definition parse_number :: "env \<Rightarrow> string \<Rightarrow> (double \<times> string) option" where
  "parse_number e v =
     (let s = trim v; num = takeWhile num_char s in
      if v = [] \<or> s = [] \<or> num = [] then None
      else case std_stod e num of None \<Rightarrow> None
      | Some d \<Rightarrow> if dlt d (Fin 0) then None else Some (d, drop (length num) s))"

definition ParseSize :: "env \<Rightarrow> string \<Rightarrow> nat option res" where
  "ParseSize e v =
     (case parse_number e v of None \<Rightarrow> Inr None
      | Some (d, unit) \<Rightarrow>
          let unit_str = toupper unit in
          if unit_str = [] then bnd (to_size_t d) (\<lambda>n. Inr (Some n))
          else case List.find (\<lambda>(suffix, _). unit_str = suffix \<or> unit_str = suffix @ ''B'') SIZE_UNITS of
            None \<Rightarrow> Inr None
          | Some (_, multiplier) \<Rightarrow> bnd (to_size_t (dscale d multiplier)) (\<lambda>n. Inr (Some n)))"

definition ParseTime :: "env \<Rightarrow> string \<Rightarrow> int option res" where
  "ParseTime e v =
     (case parse_number e v of None \<Rightarrow> Inr None
      | Some (d, unit) \<Rightarrow>
          let unit_str = tolower unit in
          if unit_str = [] then bnd (to_long_long d) (\<lambda>n. Inr (Some n))
          else case List.find (\<lambda>(suffix, _). unit_str = suffix) TIME_UNITS of
            None \<Rightarrow> Inr None
          | Some (_, multiplier) \<Rightarrow> bnd (to_long_long (dscale d multiplier)) (\<lambda>n. Inr (Some n)))"

text \<open>
  The printing loops return at the first unit that divides the value. The last unit has multiplier
  1, which divides every value, so the code after the loops (two decimals of the largest fitting
  unit) is never reached; \<open>unit_found\<close> states that.
\<close>

definition print_unit :: "(string \<times> nat) list \<Rightarrow> nat \<Rightarrow> string option" where
  "print_unit units v =
     map_option (\<lambda>(suffix, multiplier). to_string (int (v div multiplier)) @ suffix)
       (List.find (\<lambda>(_, multiplier). v \<ge> multiplier \<and> v mod multiplier = 0) units)"

definition FormatSize :: "nat \<Rightarrow> string" where
  "FormatSize v =
     (if v = 0 then ''0B''
      else case print_unit SIZE_UNITS v of Some s \<Rightarrow> s | None \<Rightarrow> to_string (int v) @ ''B'')"

text \<open>The comparison and the division in \<open>FormatTime\<close> convert the signed count to unsigned.\<close>

definition FormatTime :: "int \<Rightarrow> string" where
  "FormatTime us =
     (if us = 0 then ''0us''
      else case print_unit TIME_UNITS (nat (us mod 2 ^ 64)) of Some s \<Rightarrow> s | None \<Rightarrow> to_string us @ ''us'')"

definition ParseBool :: "string \<Rightarrow> bool" where
  "ParseBool v \<longleftrightarrow> tolower v \<in> {''true'', ''yes'', ''on'', ''1'', ''enabled''}"

subsection \<open>Laws\<close>

text \<open>What the round trip needs of \<open>std::stod\<close>: a run of digits below \<open>2 ^ 53\<close> is read exactly.\<close>

definition stod_ok :: "env \<Rightarrow> bool" where
  "stod_ok e \<longleftrightarrow> (\<forall>n < 2 ^ 53. std_stod e (to_string (int n)) = Some (Fin (int n * 2 ^ 1074)))"

lemma bit_length_shift: "0 < a \<Longrightarrow> bit_length (a * 2 ^ k) = bit_length a + k"
proof (induction k)
  case (Suc k)
  have "bit_length (a * 2 ^ Suc k) = Suc (bit_length (a * 2 ^ Suc k div 2))"
    using Suc.prems by (subst bit_length.simps) simp
  also have "a * 2 ^ Suc k div 2 = a * 2 ^ k" by simp
  finally show ?case using Suc by simp
qed simp

lemma bit_length_bound: "n < 2 ^ k \<Longrightarrow> bit_length n \<le> k"
proof (induction k arbitrary: n)
  case (Suc k)
  then have "n div 2 < 2 ^ k" by simp
  then show ?case using Suc.IH [of "n div 2"] by (subst bit_length.simps) simp
qed (simp add: bit_length.simps)

lemma round_exact: "d \<noteq> 0 \<Longrightarrow> round_half_even (q * d) d = q"
  by (simp add: round_half_even_def Let_def)

lemma round53_exact: "a < 2 ^ 53 \<Longrightarrow> round53 (a * 2 ^ 1074) = a * 2 ^ 1074"
proof (cases "a = 0")
  case False
  assume "a < 2 ^ 53"
  define k where "k = bit_length (a * 2 ^ 1074) - 53"
  have "bit_length a \<le> 53" using \<open>a < 2 ^ 53\<close> by (rule bit_length_bound)
  then have "k \<le> 1074" using bit_length_shift [of a 1074] False by (simp add: k_def)
  then have eq: "a * 2 ^ 1074 = a * 2 ^ (1074 - k) * (2 :: nat) ^ k" by (simp add: power_add [symmetric])
  have "round_half_even (a * 2 ^ 1074) (2 ^ k) = a * 2 ^ (1074 - k)" unfolding eq by (rule round_exact) simp
  moreover have "round53 (a * 2 ^ 1074) = round_half_even (a * 2 ^ 1074) (2 ^ k) * 2 ^ k"
    by (simp only: round53_def k_def Let_def)
  ultimately show ?thesis using eq by metis
qed (simp add: round53_def bit_length.simps round_half_even_def)

lemma round_double_exact: "a < 2 ^ 53 \<Longrightarrow> round_double (int a * 2 ^ 1074) = Fin (int a * 2 ^ 1074)"
proof -
  assume a: "a < 2 ^ 53"
  have n: "nat \<bar>int a * 2 ^ 1074\<bar> = a * 2 ^ 1074" by (simp add: nat_mult_distrib nat_power_eq)
  have "a * 2 ^ 1074 < 2 ^ 53 * 2 ^ 1074" using a by simp
  also have "(2 :: nat) ^ 53 * 2 ^ 1074 \<le> 2 ^ (1024 + 1074)" by (simp only: power_add [symmetric]) (rule power_increasing, simp_all)
  finally show ?thesis
    by (simp only: round_double_def n round53_exact [OF a] Let_def) (simp add: not_le)
qed

text \<open>A unit that reads back as itself.\<close>

definition plain_suffix :: "string \<Rightarrow> bool" where
  "plain_suffix suf \<longleftrightarrow> suf \<noteq> [] \<and> \<not> num_char (hd suf) \<and> (\<forall>c \<in> set suf. \<not> is_ws c)"

lemma digit_facts: "isdigit c \<Longrightarrow> num_char c \<and> \<not> is_ws c"
  by (auto simp: num_char_def is_ws_def isdigit_def CR_def LF_def)

lemma digits_of_nat: "c \<in> set (to_string (int n)) \<Longrightarrow> isdigit c" "to_string (int n) \<noteq> []"
  using to_string_nat_digits by (auto simp: to_string_def)

lemma trim_plain: "\<forall>c \<in> set s. \<not> is_ws c \<Longrightarrow> trim s = s"
proof -
  assume a: "\<forall>c \<in> set s. \<not> is_ws c"
  have *: "dropWhile is_ws t = t" if "\<forall>c \<in> set t. \<not> is_ws c" for t using that by (cases t) auto
  have "dropWhile is_ws s = s" "dropWhile is_ws (rev s) = rev s" using * [of s] * [of "rev s"] a by simp_all
  then show ?thesis by (simp add: trim_def)
qed

lemma parse_number_print:
  assumes "stod_ok e" and "n < 2 ^ 53" and "plain_suffix suf"
  shows "parse_number e (to_string (int n) @ suf) = Some (Fin (int n * 2 ^ 1074), suf)"
proof -
  let ?d = "to_string (int n)"
  have t: "trim (?d @ suf) = ?d @ suf"
    by (rule trim_plain) (use digits_of_nat(1) [of _ n] digit_facts assms(3) in \<open>auto simp: plain_suffix_def\<close>)
  have "takeWhile num_char (?d @ suf) = ?d"
    using digits_of_nat(1) [of _ n] digit_facts assms(3)
    by (subst takeWhile_append2) (auto simp: plain_suffix_def takeWhile_eq_Nil_iff)
  then show ?thesis using t digits_of_nat(2) [of n] assms(1,2)
    by (simp add: parse_number_def stod_ok_def dlt_def)
qed

lemma scaled_exact:
  assumes "v < 2 ^ 53" and "v mod k = 0" and "0 < k"
  shows "dscale (Fin (int (v div k) * 2 ^ 1074)) k = Fin (int v * 2 ^ 1074)"
proof -
  have "v = v div k * k" using assms(2) by (metis add.right_neutral div_mult_mod_eq)
  then have "int v = int (v div k) * int k" by (metis of_nat_mult)
  then have "int (v div k) * 2 ^ 1074 * int k = int v * 2 ^ 1074" by simp
  then show ?thesis using round_double_exact [OF assms(1)] by (simp only: dscale.simps)
qed

lemma trunc_exact: "dtrunc (Fin (int v * 2 ^ 1074)) = Some (int v)"
proof -
  have "int v * 2 ^ 1074 div 2 ^ 1074 = int v" by (rule nonzero_mult_div_cancel_right) simp
  moreover have "0 \<le> int v * 2 ^ 1074" by simp
  ultimately show ?thesis by (simp only: dtrunc.simps if_True)
qed

lemma size_conv: "v < 2 ^ 53 \<Longrightarrow> to_size_t (Fin (int v * 2 ^ 1074)) = Inr v"
  by (simp only: to_size_t_def trunc_exact) (simp add: nat_less_iff)

lemma time_conv: "v < 2 ^ 53 \<Longrightarrow> to_long_long (Fin (int v * 2 ^ 1074)) = Inr (int v)"
  by (simp only: to_long_long_def trunc_exact) (simp add: int64_ok_def)

lemma unit_found:
  assumes "0 < v" and "(u, 1) \<in> set units"
  obtains suf k where "print_unit units v = Some (to_string (int (v div k)) @ suf)" "(suf, k) \<in> set units" "v mod k = 0" "k \<le> v"
proof -
  have "List.find (\<lambda>(_, m). m \<le> v \<and> v mod m = 0) units \<noteq> None"
    using assms by (simp add: find_None_iff) (intro exI [of _ u] exI [of _ "Suc 0"], simp)
  then obtain suf k where "List.find (\<lambda>(_, m). m \<le> v \<and> v mod m = 0) units = Some (suf, k)" by auto
  moreover from this have "(suf, k) \<in> set units" "k \<le> v \<and> v mod k = 0"
    by (auto simp: find_Some_iff in_set_conv_nth)
  ultimately show thesis using that by (simp add: print_unit_def)
qed

lemma suffixes_plain:
  "list_all (\<lambda>s. plain_suffix s \<and> toupper s = s) [''T'', ''G'', ''M'', ''K'', ''B'']"
  "list_all (\<lambda>s. plain_suffix s \<and> tolower s = s) [''h'', ''m'', ''s'', ''ms'', ''us'']"
  by code_simp+

lemma size_units_parse:
  "(suf, k) \<in> set SIZE_UNITS \<Longrightarrow> 0 < k \<and> suf \<in> set [''T'', ''G'', ''M'', ''K'', ''B''] \<and>
   List.find (\<lambda>(s, _). suf = s \<or> suf = s @ ''B'') SIZE_UNITS = Some (suf, k)"
  unfolding SIZE_UNITS_def by (simp, elim disjE) simp_all

lemma time_units_parse:
  "(suf, k) \<in> set TIME_UNITS \<Longrightarrow> 0 < k \<and> suf \<in> set [''h'', ''m'', ''s'', ''ms'', ''us''] \<and>
   List.find (\<lambda>(s, _). suf = s) TIME_UNITS = Some (suf, k)"
  unfolding TIME_UNITS_def by auto

lemma size_reads_back:
  assumes "stod_ok e" and "v < 2 ^ 53" and "(s, k) \<in> set SIZE_UNITS" and "v mod k = 0"
  shows "ParseSize e (to_string (int (v div k)) @ s) = Inr (Some v)"
proof -
  note S = size_units_parse [OF assms(3)]
  have p: "plain_suffix s" "toupper s = s" using S suffixes_plain(1) by (auto simp: list_all_iff)
  have "v div k < 2 ^ 53" using assms(2) div_le_dividend le_less_trans by blast
  then show ?thesis
    using parse_number_print [OF assms(1) _ p(1)] S scaled_exact [OF assms(2,4)] size_conv [OF assms(2)] p
    by (simp add: ParseSize_def plain_suffix_def)
qed

lemma time_reads_back:
  assumes "stod_ok e" and "v < 2 ^ 53" and "(s, k) \<in> set TIME_UNITS" and "v mod k = 0"
  shows "ParseTime e (to_string (int (v div k)) @ s) = Inr (Some (int v))"
proof -
  note S = time_units_parse [OF assms(3)]
  have p: "plain_suffix s" "tolower s = s" using S suffixes_plain(2) by (auto simp: list_all_iff)
  have "v div k < 2 ^ 53" using assms(2) div_le_dividend le_less_trans by blast
  then show ?thesis
    using parse_number_print [OF assms(1) _ p(1)] S scaled_exact [OF assms(2,4)] time_conv [OF assms(2)] p
    by (simp add: ParseTime_def plain_suffix_def)
qed

text \<open>Printing a size or a duration and reading it back gives the same value, for every value
  below \<open>2 ^ 53\<close> (where a \<open>double\<close> is exact), whichever unit the printing chose.\<close>

theorem config_units_roundtrip:
  assumes "stod_ok e" and "v < 2 ^ 53"
  shows "ParseSize e (FormatSize v) = Inr (Some v) \<and> ParseTime e (FormatTime (int v)) = Inr (Some (int v))"
proof -
  have u: "(''B'', 1) \<in> set SIZE_UNITS" "(''us'', 1) \<in> set TIME_UNITS" by (simp_all add: SIZE_UNITS_def TIME_UNITS_def)
  show ?thesis
  proof (cases "v = 0")
    case True
    have "to_string 0 = ''0''" by code_simp
    then show ?thesis using True size_reads_back [OF assms u(1)] time_reads_back [OF assms u(2)]
      by (simp add: FormatSize_def FormatTime_def)
  next
    case False
    then have v: "0 < v" by simp
    obtain s k where s: "print_unit SIZE_UNITS v = Some (to_string (int (v div k)) @ s)" "(s, k) \<in> set SIZE_UNITS" "v mod k = 0"
      by (rule unit_found [OF v u(1)])
    obtain t l where t: "print_unit TIME_UNITS v = Some (to_string (int (v div l)) @ t)" "(t, l) \<in> set TIME_UNITS" "v mod l = 0"
      by (rule unit_found [OF v u(2)])
    have "nat (int v mod 2 ^ 64) = v" using assms(2) by simp
    then show ?thesis using False s(1) t(1) size_reads_back [OF assms s(2,3)] time_reads_back [OF assms t(2,3)]
      by (simp add: FormatSize_def FormatTime_def)
  qed
qed

lemma stod_ok_demo: "stod_ok demo_env"
proof -
  have "int64_to_double (int n) = Fin (int n * 2 ^ 1074)" if "n < 2 ^ 53" for n
    unfolding int64_to_double_def by (rule round_double_exact [OF that])
  then show ?thesis by (simp add: stod_ok_def demo_env_def int64_ok_def)
qed

theorem config_units_roundtrip_witness:
  "ParseSize demo_env (FormatSize 65536) = Inr (Some 65536) \<and> ParseTime demo_env (FormatTime 90000000) = Inr (Some 90000000)"
  using config_units_roundtrip [OF stod_ok_demo, of 65536] config_units_roundtrip [OF stod_ok_demo, of 90000000] by simp

end
