(* ===== verification/Spsc.thy ===== *)
theory Spsc
  imports Prelude
begin

text \<open>
  The ring buffer \<open>SPSCQueue\<close> of \<open>src/src/util/spscqueue.h\<close>. The first part models its
  operations one call at a time, states the contract of a bounded first-in-first-out queue as the
  locale \<open>bounded_queue\<close> and interprets it on the ring buffer. The second part splits \<open>push\<close>
  and \<open>pop\<close> at their atomic accesses and lets one producer and one consumer interleave freely.
\<close>

unbundle bit_operations_syntax

subsection \<open>Operations\<close>

record 'a SPSCQueue =
  m_buffer :: "'a list"
  m_write :: nat
  m_read :: nat

definition spsc_new :: "nat \<Rightarrow> 'a \<Rightarrow> 'a SPSCQueue" where
  "spsc_new Capacity dflt = \<lparr>m_buffer = replicate Capacity dflt, m_write = 0, m_read = 0\<rparr>"

definition ring_next :: "nat \<Rightarrow> nat \<Rightarrow> nat" where
  "ring_next Capacity w = (w + 1) AND (Capacity - 1)"

definition spsc_push :: "nat \<Rightarrow> 'a \<Rightarrow> 'a SPSCQueue \<Rightarrow> (bool \<times> 'a SPSCQueue) res" where
  "spsc_push Capacity item q =
     (let w = m_write q; nx = ring_next Capacity w in
      if nx = m_read q then Inr (False, q)
      else if w < length (m_buffer q)
      then Inr (True, q\<lparr>m_buffer := (m_buffer q)[w := item], m_write := nx\<rparr>)
      else Inl OutOfBounds)"

fun spsc_pushBatch :: "nat \<Rightarrow> 'a list \<Rightarrow> 'a SPSCQueue \<Rightarrow> (nat \<times> 'a SPSCQueue) res" where
  "spsc_pushBatch Capacity [] q = Inr (0, q)"
| "spsc_pushBatch Capacity (x # xs) q =
     bnd (spsc_push Capacity x q) (\<lambda>(ok, q1).
       if \<not> ok then Inr (0, q1)
       else bnd (spsc_pushBatch Capacity xs q1) (\<lambda>(n, q2). Inr (Suc n, q2)))"

definition spsc_pop :: "nat \<Rightarrow> 'a SPSCQueue \<Rightarrow> ('a option \<times> 'a SPSCQueue) res" where
  "spsc_pop Capacity q =
     (let r = m_read q; w = m_write q in
      if r = w then Inr (None, q)
      else if r < length (m_buffer q)
      then Inr (Some (m_buffer q ! r), q\<lparr>m_read := ring_next Capacity r\<rparr>)
      else Inl OutOfBounds)"

fun spsc_popBatch :: "nat \<Rightarrow> nat \<Rightarrow> 'a SPSCQueue \<Rightarrow> ('a list \<times> 'a SPSCQueue) res" where
  "spsc_popBatch Capacity 0 q = Inr ([], q)"
| "spsc_popBatch Capacity (Suc n) q =
     bnd (spsc_pop Capacity q) (\<lambda>(out, q1).
       case out of None \<Rightarrow> Inr ([], q1)
       | Some x \<Rightarrow> bnd (spsc_popBatch Capacity n q1) (\<lambda>(xs, q2). Inr (x # xs, q2)))"

definition spsc_empty :: "'a SPSCQueue \<Rightarrow> bool" where
  "spsc_empty q \<longleftrightarrow> m_read q = m_write q"

definition spsc_full :: "nat \<Rightarrow> 'a SPSCQueue \<Rightarrow> bool" where
  "spsc_full Capacity q \<longleftrightarrow> ring_next Capacity (m_write q) = m_read q"

subsection \<open>Bounded queues\<close>

locale bounded_queue =
  fixes push :: "'a \<Rightarrow> 'q \<Rightarrow> (bool \<times> 'q) res"
    and pop :: "'q \<Rightarrow> ('a option \<times> 'q) res"
    and contents :: "'q \<Rightarrow> 'a list"
    and ok :: "'q \<Rightarrow> bool"
    and bound :: nat
  assumes push_full: "ok q \<Longrightarrow> length (contents q) = bound \<Longrightarrow> push x q = Inr (False, q)"
    and push_room: "ok q \<Longrightarrow> length (contents q) < bound \<Longrightarrow>
      \<exists>q'. push x q = Inr (True, q') \<and> ok q' \<and> contents q' = contents q @ [x]"
    and pop_empty: "ok q \<Longrightarrow> contents q = [] \<Longrightarrow> pop q = Inr (None, q)"
    and pop_some: "ok q \<Longrightarrow> contents q = x # xs \<Longrightarrow>
      \<exists>q'. pop q = Inr (Some x, q') \<and> ok q' \<and> contents q' = xs"
    and bounded: "ok q \<Longrightarrow> length (contents q) \<le> bound"
begin

lemma push_total:
  assumes "ok q"
  obtains q' where "push x q = Inr (length (contents q) < bound, q')" "ok q'"
    "contents q' = (if length (contents q) < bound then contents q @ [x] else contents q)"
  using assms push_full [OF assms, of x] push_room [OF assms, of x] bounded [OF assms]
  by (cases "length (contents q) < bound") (auto intro: that)

lemma pop_total:
  assumes "ok q"
  obtains q' where "pop q = Inr ((case contents q of [] \<Rightarrow> None | x # _ \<Rightarrow> Some x), q')" "ok q'"
    "contents q' = tl (contents q)"
  using assms pop_empty [OF assms] pop_some [OF assms] by (cases "contents q") (auto intro: that)

end

subsection \<open>The ring as a bounded queue\<close>

definition ring_contents :: "nat \<Rightarrow> 'a SPSCQueue \<Rightarrow> 'a list" where
  "ring_contents C q =
     map (\<lambda>i. m_buffer q ! ((m_read q + i) mod C)) [0..<(m_write q + C - m_read q) mod C]"

definition ring_ok :: "nat \<Rightarrow> 'a SPSCQueue \<Rightarrow> bool" where
  "ring_ok C q \<longleftrightarrow> length (m_buffer q) = C \<and> m_write q < C \<and> m_read q < C"

lemma ring_next_mod: "ring_next (2 ^ k) w = Suc w mod 2 ^ k"
proof -
  have "(w + 1) AND mask k = take_bit k (w + 1)" by (simp add: take_bit_eq_mask)
  then show ?thesis by (simp add: ring_next_def mask_eq_exp_minus_1 take_bit_eq_mod)
qed

lemma ring_len:
  fixes w r C :: nat
  assumes "w < C" "r < C"
  shows "(w + C - r) mod C = (if r \<le> w then w - r else w + C - r)"
proof (cases "r \<le> w")
  case True
  then have "w + C - r = (w - r) + C" by arith
  then have "(w + C - r) mod C = (w - r) mod C" by (metis mod_add_self2)
  then show ?thesis using assms True by simp
qed (use assms in simp)

lemma ring_idx:
  fixes r i C :: nat
  assumes "r < C" "i < C"
  shows "(r + i) mod C = (if r + i < C then r + i else r + i - C)"
  using assms by (simp add: mod_if [of "r + i"])

lemma Suc_mod_ring: "w < C \<Longrightarrow> Suc w mod C = (if Suc w = C then 0 else Suc w)"
  by (simp add: mod_Suc)

lemma ring_push:
  assumes "ring_ok C q" and n: "Suc (m_write q) mod C \<noteq> m_read q"
  shows "ring_contents C (q\<lparr>m_buffer := (m_buffer q)[m_write q := x], m_write := Suc (m_write q) mod C\<rparr>)
    = ring_contents C q @ [x]"
proof -
  let ?w = "m_write q" and ?r = "m_read q"
  have b: "?w < C" "?r < C" "length (m_buffer q) = C" using assms(1) by (auto simp: ring_ok_def)
  let ?n = "(?w + C - ?r) mod C"
  have nn: "(Suc ?w mod C + C - ?r) mod C = Suc ?n"
    using b n ring_len [of "Suc ?w mod C" C ?r] ring_len [of ?w C ?r]
    by (auto simp: Suc_mod_ring split: if_splits)
  have slot: "?w \<noteq> (?r + i) mod C" if "i < ?n" for i
    using that b ring_len [of ?w C ?r] ring_idx [of ?r C i] by (auto split: if_splits)
  have lst: "(?r + ?n) mod C = ?w"
    using b ring_len [of ?w C ?r] ring_idx [of ?r C ?n] by (simp split: if_splits)
  have "(m_buffer q)[?w := x] ! ((?r + i) mod C) = m_buffer q ! ((?r + i) mod C)" if "i < ?n" for i
    using slot [OF that] by simp
  then show ?thesis using lst b by (simp add: ring_contents_def nn)
qed

lemma ring_pop:
  assumes "ring_ok C q" and n: "m_read q \<noteq> m_write q"
  shows "ring_contents C q
    = m_buffer q ! m_read q # ring_contents C (q\<lparr>m_read := Suc (m_read q) mod C\<rparr>)"
proof -
  let ?w = "m_write q" and ?r = "m_read q"
  have b: "?w < C" "?r < C" using assms(1) by (auto simp: ring_ok_def)
  have nn: "(?w + C - ?r) mod C = Suc ((?w + C - Suc ?r mod C) mod C)"
    using b n ring_len [of ?w C "Suc ?r mod C"] ring_len [of ?w C ?r]
    by (auto simp: Suc_mod_ring split: if_splits)
  have idx: "(Suc ?r mod C + i) mod C = (?r + Suc i) mod C" for i
    by (simp add: mod_add_left_eq)
  show ?thesis using b unfolding ring_contents_def nn
    by (simp add: upt_rec [of 0] map_Suc_upt [symmetric] idx del: upt_Suc)
qed

lemma ring_full:
  assumes "ring_ok C q"
  shows "Suc (m_write q) mod C = m_read q \<longleftrightarrow> length (ring_contents C q) = C - 1"
    and "length (ring_contents C q) \<le> C - 1"
    and "m_read q = m_write q \<longleftrightarrow> ring_contents C q = []"
  using assms ring_len [of "m_write q" C "m_read q"]
  by (auto simp: ring_ok_def ring_contents_def Suc_mod_ring split: if_splits)

interpretation spsc: bounded_queue "spsc_push (2 ^ k)" "spsc_pop (2 ^ k)" "ring_contents (2 ^ k)"
    "ring_ok (2 ^ k)" "2 ^ k - 1" for k
proof
  fix q :: "'a SPSCQueue" and x :: 'a and xs
  assume ok: "ring_ok (2 ^ k) q"
  note f = ring_full [OF ok]
  have b: "m_write q < length (m_buffer q)" "m_read q < length (m_buffer q)"
    using ok by (auto simp: ring_ok_def)
  show "length (ring_contents (2 ^ k) q) \<le> 2 ^ k - 1" by (rule f(2))
  show "spsc_push (2 ^ k) x q = Inr (False, q)" if "length (ring_contents (2 ^ k) q) = 2 ^ k - 1"
    using that f(1) by (simp add: spsc_push_def ring_next_mod)
  show "spsc_pop (2 ^ k) q = Inr (None, q)" if "ring_contents (2 ^ k) q = []"
    using that f(3) by (simp add: spsc_pop_def)
  show "\<exists>q'. spsc_push (2 ^ k) x q = Inr (True, q') \<and> ring_ok (2 ^ k) q' \<and>
      ring_contents (2 ^ k) q' = ring_contents (2 ^ k) q @ [x]"
    if "length (ring_contents (2 ^ k) q) < 2 ^ k - 1"
    using that f(1) b ring_push [OF ok] ok
    by (simp add: spsc_push_def ring_next_mod Let_def ring_ok_def)
  show "\<exists>q'. spsc_pop (2 ^ k) q = Inr (Some x, q') \<and> ring_ok (2 ^ k) q' \<and> ring_contents (2 ^ k) q' = xs"
    if "ring_contents (2 ^ k) q = x # xs"
    using that f(3) b ring_pop [OF ok] ok
    by (auto simp: spsc_pop_def ring_next_mod Let_def ring_ok_def)
qed

subsection \<open>One producer and one consumer\<close>

text \<open>
  Where each side stands inside its operation: what it has loaded so far. Loads and stores of
  \<open>m_write\<close> and \<open>m_read\<close> and the access to the slot are separate steps (acquire and release
  ordering make the interleaving of these steps the observable behaviour).
\<close>

datatype 'a ppc = PIdle | PHaveW 'a nat | PRoom 'a nat nat | PStored 'a nat
datatype 'a cpc = CIdle | CHaveR nat | CNonEmpty nat | CTaken 'a nat

record 'a conc =
  ring :: "'a SPSCQueue"
  prod :: "'a ppc"
  cons :: "'a cpc"
  sent :: "'a list"
  received :: "'a list"

inductive spsc_step :: "nat \<Rightarrow> 'a conc \<Rightarrow> 'a conc \<Rightarrow> bool" for C where
  push_call: "prod s = PIdle \<Longrightarrow> spsc_step C s (s\<lparr>prod := PHaveW x (m_write (ring s))\<rparr>)"
| push_refuse: "prod s = PHaveW x w \<Longrightarrow> ring_next C w = m_read (ring s) \<Longrightarrow> spsc_step C s (s\<lparr>prod := PIdle\<rparr>)"
| push_check: "prod s = PHaveW x w \<Longrightarrow> ring_next C w \<noteq> m_read (ring s) \<Longrightarrow>
    spsc_step C s (s\<lparr>prod := PRoom x w (ring_next C w)\<rparr>)"
| push_store: "prod s = PRoom x w nx \<Longrightarrow>
    spsc_step C s (s\<lparr>ring := (ring s)\<lparr>m_buffer := (m_buffer (ring s))[w := x]\<rparr>, prod := PStored x nx\<rparr>)"
| push_publish: "prod s = PStored x nx \<Longrightarrow>
    spsc_step C s (s\<lparr>ring := (ring s)\<lparr>m_write := nx\<rparr>, prod := PIdle, sent := sent s @ [x]\<rparr>)"
| pop_call: "cons s = CIdle \<Longrightarrow> spsc_step C s (s\<lparr>cons := CHaveR (m_read (ring s))\<rparr>)"
| pop_refuse: "cons s = CHaveR r \<Longrightarrow> r = m_write (ring s) \<Longrightarrow> spsc_step C s (s\<lparr>cons := CIdle\<rparr>)"
| pop_check: "cons s = CHaveR r \<Longrightarrow> r \<noteq> m_write (ring s) \<Longrightarrow> spsc_step C s (s\<lparr>cons := CNonEmpty r\<rparr>)"
| pop_take: "cons s = CNonEmpty r \<Longrightarrow> spsc_step C s (s\<lparr>cons := CTaken (m_buffer (ring s) ! r) r\<rparr>)"
| pop_publish: "cons s = CTaken x r \<Longrightarrow>
    spsc_step C s (s\<lparr>ring := (ring s)\<lparr>m_read := ring_next C r\<rparr>, cons := CIdle, received := received s @ [x]\<rparr>)"

definition conc_init :: "nat \<Rightarrow> 'a \<Rightarrow> 'a conc" where
  "conc_init C d = \<lparr>ring = spsc_new C d, prod = PIdle, cons = CIdle, sent = [], received = []\<rparr>"

fun prod_ok :: "nat \<Rightarrow> 'a SPSCQueue \<Rightarrow> 'a ppc \<Rightarrow> bool" where
  "prod_ok C q PIdle = True"
| "prod_ok C q (PHaveW x w) = (w = m_write q)"
| "prod_ok C q (PRoom x w nx) = (w = m_write q \<and> nx = ring_next C w \<and> nx \<noteq> m_read q)"
| "prod_ok C q (PStored x nx) = (nx = ring_next C (m_write q) \<and> nx \<noteq> m_read q \<and> m_buffer q ! m_write q = x)"

fun cons_ok :: "'a SPSCQueue \<Rightarrow> 'a cpc \<Rightarrow> bool" where
  "cons_ok q CIdle = True"
| "cons_ok q (CHaveR r) = (r = m_read q)"
| "cons_ok q (CNonEmpty r) = (r = m_read q \<and> r \<noteq> m_write q)"
| "cons_ok q (CTaken x r) = (r = m_read q \<and> r \<noteq> m_write q \<and> x = m_buffer q ! r)"

definition conc_ok :: "nat \<Rightarrow> 'a conc \<Rightarrow> bool" where
  "conc_ok C s \<longleftrightarrow> ring_ok C (ring s) \<and> sent s = received s @ ring_contents C (ring s) \<and>
     prod_ok C (ring s) (prod s) \<and> cons_ok (ring s) (cons s)"

lemma conc_ok_init: "0 < C \<Longrightarrow> conc_ok C (conc_init C d)"
  by (simp add: conc_ok_def conc_init_def spsc_new_def ring_ok_def ring_contents_def)

text \<open>Writing the free slot is invisible until it is published.\<close>

lemma ring_contents_store:
  assumes "ring_ok C q" and n: "Suc (m_write q) mod C \<noteq> m_read q"
  shows "ring_contents C (q\<lparr>m_buffer := (m_buffer q)[m_write q := x]\<rparr>) = ring_contents C q"
    and "ring_contents C (q\<lparr>m_write := Suc (m_write q) mod C\<rparr>)
      = ring_contents C q @ [m_buffer q ! m_write q]"
proof -
  let ?q = "q\<lparr>m_buffer := (m_buffer q)[m_write q := x]\<rparr>"
  have len: "length (m_buffer q) = C" "m_write q < C" using assms(1) by (auto simp: ring_ok_def)
  have a: "ring_contents C q @ [x] = ring_contents C ?q @ [x]"
    using ring_push [OF assms, of x] ring_push [of C ?q x] assms by (simp add: ring_ok_def)
  then show "ring_contents C ?q = ring_contents C q" by simp
  show "ring_contents C (q\<lparr>m_write := Suc (m_write q) mod C\<rparr>)
      = ring_contents C q @ [m_buffer q ! m_write q]"
    using ring_push [OF assms, of "m_buffer q ! m_write q"] by simp
qed

lemma next_neq_read:
  "w < C \<Longrightarrow> r < C \<Longrightarrow> r \<noteq> w \<Longrightarrow> Suc w mod C \<noteq> Suc r mod C"
  by (auto simp: Suc_mod_ring split: if_splits)

lemma conc_ok_step:
  assumes "spsc_step (2 ^ k) s s'" and "conc_ok (2 ^ k) s"
  shows "conc_ok (2 ^ k) s'"
  using assms
proof (induction rule: spsc_step.induct)
  case (push_store s x w nx)
  then show ?case
    by (cases "cons s") (auto simp: conc_ok_def ring_ok_def ring_next_mod ring_contents_store(1))
next
  case (push_publish s x nx)
  then have "ring_contents (2 ^ k) (ring s\<lparr>m_write := nx\<rparr>) = ring_contents (2 ^ k) (ring s) @ [x]"
    using ring_contents_store(2) [of "2 ^ k" "ring s"] by (simp add: conc_ok_def ring_next_mod)
  with push_publish show ?case
    by (cases "cons s") (auto simp: conc_ok_def ring_ok_def ring_next_mod)
next
  case (pop_publish s x r)
  then have c: "ring_contents (2 ^ k) (ring s) = x # ring_contents (2 ^ k) (ring s\<lparr>m_read := ring_next (2 ^ k) r\<rparr>)"
    using ring_pop [of "2 ^ k" "ring s"] by (simp add: conc_ok_def ring_next_mod)
  have n: "ring_next (2 ^ k) (m_write (ring s)) \<noteq> ring_next (2 ^ k) r"
    using pop_publish next_neq_read [of "m_write (ring s)" "2 ^ k" r]
    by (auto simp: conc_ok_def ring_ok_def ring_next_mod)
  from pop_publish c n show ?case
    by (cases "prod s") (auto simp: conc_ok_def ring_ok_def ring_next_mod)
qed (auto simp: conc_ok_def)

lemma conc_ok_reachable:
  assumes "(spsc_step (2 ^ k))\<^sup>*\<^sup>* (conc_init (2 ^ k) d) s"
  shows "conc_ok (2 ^ k) s"
  using assms by (induction rule: rtranclp_induct) (auto intro: conc_ok_init conc_ok_step)

subsection \<open>Properties\<close>

text \<open>The ring buffer is a bounded queue: \<open>push\<close> appends while fewer than \<open>Capacity - 1\<close>
  elements are stored and otherwise refuses without a change, \<open>pop\<close> removes the oldest element,
  and neither leaves the buffer.\<close>

theorem spsc_queue_refines:
  assumes "ring_ok (2 ^ k) q"
  shows "(\<exists>q'. spsc_push (2 ^ k) x q = Inr (length (ring_contents (2 ^ k) q) < 2 ^ k - 1, q') \<and> ring_ok (2 ^ k) q' \<and>
      ring_contents (2 ^ k) q' = ring_contents (2 ^ k) q @ (if length (ring_contents (2 ^ k) q) < 2 ^ k - 1 then [x] else [])) \<and>
    (\<exists>q'. spsc_pop (2 ^ k) q = Inr ((case ring_contents (2 ^ k) q of [] \<Rightarrow> None | y # _ \<Rightarrow> Some y), q') \<and>
      ring_ok (2 ^ k) q' \<and> ring_contents (2 ^ k) q' = tl (ring_contents (2 ^ k) q))"
proof -
  obtain q1 where "spsc_push (2 ^ k) x q = Inr (length (ring_contents (2 ^ k) q) < 2 ^ k - 1, q1)" "ring_ok (2 ^ k) q1"
    "ring_contents (2 ^ k) q1 = (if length (ring_contents (2 ^ k) q) < 2 ^ k - 1
       then ring_contents (2 ^ k) q @ [x] else ring_contents (2 ^ k) q)"
    by (rule spsc.push_total [OF assms])
  moreover obtain q2 where "spsc_pop (2 ^ k) q = Inr ((case ring_contents (2 ^ k) q of [] \<Rightarrow> None | y # _ \<Rightarrow> Some y), q2)"
    "ring_ok (2 ^ k) q2" "ring_contents (2 ^ k) q2 = tl (ring_contents (2 ^ k) q)"
    by (rule spsc.pop_total [OF assms])
  ultimately show ?thesis by simp
qed

theorem spsc_queue_refines_witness:
  "\<exists>q'. spsc_push (2 ^ 2) (7 :: nat) (spsc_new 4 0) = Inr (True, q') \<and> ring_contents (2 ^ 2) q' = [7]"
proof -
  have "ring_ok (2 ^ 2) (spsc_new 4 (0 :: nat))" "ring_contents (2 ^ 2) (spsc_new 4 (0 :: nat)) = []"
    by code_simp+
  then show ?thesis using spsc_queue_refines [of 2 "spsc_new 4 (0 :: nat)" 7] by auto
qed

text \<open>C13. With one producer and one consumer interleaved at every atomic access, the elements the
  consumer has received are a prefix of those the producer has published, at most \<open>Capacity - 1\<close>
  are in flight, and the two sides never touch the same slot.\<close>

theorem spsc_interleaving_fifo:
  assumes "(spsc_step (2 ^ k))\<^sup>*\<^sup>* (conc_init (2 ^ k) d) s"
  shows "(\<exists>flight. sent s = received s @ flight \<and> length flight \<le> 2 ^ k - 1) \<and>
    \<not> (\<exists>x w nx r. prod s = PRoom x w nx \<and> cons s = CNonEmpty r \<and> w = r)"
  using conc_ok_reachable [OF assms] ring_full(2) [of "2 ^ k" "ring s"]
  by (auto simp: conc_ok_def)

theorem spsc_interleaving_fifo_witness:
  "\<exists>s. (spsc_step (2 ^ 1))\<^sup>*\<^sup>* (conc_init (2 ^ 1) (0 :: nat)) s \<and> prod s = PHaveW 5 0 \<and>
     (\<exists>flight. sent s = received s @ flight \<and> length flight \<le> 2 ^ 1 - 1)"
proof -
  let ?i = "conc_init (2 ^ 1) (0 :: nat)"
  let ?s = "?i\<lparr>prod := PHaveW 5 (m_write (ring ?i))\<rparr>"
  have r: "(spsc_step (2 ^ 1))\<^sup>*\<^sup>* ?i ?s"
    by (rule r_into_rtranclp, rule push_call) (simp add: conc_init_def)
  have p: "prod ?s = PHaveW 5 0" by (simp add: conc_init_def spsc_new_def)
  show ?thesis by (rule exI [of _ ?s]) (use r p spsc_interleaving_fifo [OF r] in blast)
qed

end
