(* ===== verification/SlowLog.thy ===== *)
theory SlowLog
  imports System Spsc
begin

text \<open>
  The slow log of \<open>src/redis_command/modules/slowlog.{h,cpp}\<close>: entries go through the ring buffer
  and are moved by \<open>syncSlowLogs\<close> into a cache that keeps the newest ones.
\<close>

record SlowLogEntry =
  sl_id :: int
  timestamp :: int
  duration :: int
  command :: string
  client_ip :: string

record SlowLogModule =
  m_slow_logs :: "SlowLogEntry SPSCQueue"
  m_slow_logs_cache :: "SlowLogEntry list"
  m_slow_log_id :: int

definition entry_default :: SlowLogEntry where
  "entry_default = \<lparr>sl_id = 0, timestamp = 0, duration = 0, command = [], client_ip = []\<rparr>"

definition slowlog_capacity :: nat where
  "slowlog_capacity = 2048"

definition slowlog_new :: SlowLogModule where
  "slowlog_new = \<lparr>m_slow_logs = spsc_new slowlog_capacity entry_default, m_slow_logs_cache = [], m_slow_log_id = 0\<rparr>"

definition cache_push :: "nat \<Rightarrow> SlowLogEntry \<Rightarrow> SlowLogEntry list \<Rightarrow> SlowLogEntry list" where
  "cache_push max_len en cache =
     (let c = cache @ [en] in if length c > max_len then tl c else c)"

text \<open>The loop \<open>while (m_slow_logs.pop(entry))\<close>, with fuel for the entries the ring can hold.\<close>

fun sync_loop :: "nat \<Rightarrow> nat \<Rightarrow> SlowLogModule \<Rightarrow> SlowLogModule res" where
  "sync_loop max_len 0 m = Inl Diverges"
| "sync_loop max_len (Suc fuel) m =
     bnd (spsc_pop slowlog_capacity (m_slow_logs m)) (\<lambda>(out, q).
       case out of None \<Rightarrow> Inr (m\<lparr>m_slow_logs := q\<rparr>)
       | Some en \<Rightarrow> sync_loop max_len fuel
           (m\<lparr>m_slow_logs := q, m_slow_logs_cache := cache_push max_len en (m_slow_logs_cache m)\<rparr>))"

definition syncSlowLogs :: "config \<Rightarrow> SlowLogModule \<Rightarrow> SlowLogModule res" where
  "syncSlowLogs cfg m = sync_loop (s_slow_log_max_len cfg) slowlog_capacity m"

text \<open>\<open>duration_cast\<close> from nanoseconds to microseconds truncates toward zero.\<close>

definition ns_to_us :: "int \<Rightarrow> int" where
  "ns_to_us d = (if 0 \<le> d then d div 1000 else - ((- d) div 1000))"

definition pushEntry ::
  "config \<Rightarrow> string \<Rightarrow> string \<Rightarrow> int \<Rightarrow> int \<Rightarrow> int \<Rightarrow> SlowLogModule \<Rightarrow> SlowLogModule res" where
  "pushEntry cfg cmd_str ip sysnow start fin m =
     (let d = ns_to_us (fin - start) in
      if d > s_slow_log_slower_than cfg then
        let i = m_slow_log_id m + 1;
            en = \<lparr>sl_id = i, timestamp = sysnow, duration = d, command = cmd_str, client_ip = ip\<rparr>
        in bnd (spsc_push slowlog_capacity en (m_slow_logs m)) (\<lambda>(_, q).
             Inr (m\<lparr>m_slow_log_id := i, m_slow_logs := q\<rparr>))
      else Inr m)"

text \<open>\<open>ts\<close> is the current time, read while the reply is built.\<close>

definition slowlog_reply :: "int \<Rightarrow> SlowLogEntry \<Rightarrow> RespValue" where
  "slowlog_reply ts en =
     array [integer (sl_id en), integer ts, integer (duration en), bulk_string (command en), bulk_string (client_ip en)]"

definition getSlowLogs :: "(nat \<Rightarrow> int) \<Rightarrow> int \<Rightarrow> SlowLogModule \<Rightarrow> RespValue list" where
  "getSlowLogs now cnt m =
     (let n = length (m_slow_logs_cache m);
          start = n - min (nat (cnt mod 2 ^ 64)) n
      in map (\<lambda>i. slowlog_reply (now i) (m_slow_logs_cache m ! i)) [start..<n])"

definition slowlog_len :: "SlowLogModule \<Rightarrow> nat" where
  "slowlog_len m = length (m_slow_logs_cache m)"

fun reset_loop :: "nat \<Rightarrow> SlowLogModule \<Rightarrow> SlowLogModule res" where
  "reset_loop 0 m = Inl Diverges"
| "reset_loop (Suc fuel) m =
     bnd (spsc_pop slowlog_capacity (m_slow_logs m)) (\<lambda>(out, q).
       case out of None \<Rightarrow> Inr (m\<lparr>m_slow_logs := q\<rparr>)
       | Some _ \<Rightarrow> reset_loop fuel (m\<lparr>m_slow_logs := q\<rparr>))"

definition slowlog_reset :: "SlowLogModule \<Rightarrow> SlowLogModule res" where
  "slowlog_reset m =
     bnd (reset_loop slowlog_capacity (m\<lparr>m_slow_logs_cache := []\<rparr>)) (\<lambda>m'. Inr (m'\<lparr>m_slow_log_id := 0\<rparr>))"

subsection \<open>Laws\<close>

abbreviation queued :: "SlowLogModule \<Rightarrow> SlowLogEntry list" where
  "queued m \<equiv> ring_contents slowlog_capacity (m_slow_logs m)"

definition slowlog_ok :: "SlowLogModule \<Rightarrow> bool" where
  "slowlog_ok m \<longleftrightarrow> ring_ok slowlog_capacity (m_slow_logs m)"

lemma slowlog_capacity_pow: "slowlog_capacity = 2 ^ 11"
  by (simp add: slowlog_capacity_def)

lemmas slow_queue = spsc.push_total [of 11, folded slowlog_capacity_pow]
  spsc.pop_total [of 11, folded slowlog_capacity_pow]

lemma slowlog_ok_new: "slowlog_ok slowlog_new" "queued slowlog_new = []"
  by (simp_all add: slowlog_ok_def slowlog_new_def spsc_new_def ring_ok_def ring_contents_def slowlog_capacity_def)

text \<open>What remains after pushing a sequence into a cache of bounded length.\<close>

definition newest :: "nat \<Rightarrow> 'a list \<Rightarrow> 'a list" where
  "newest k xs = rev (take k (rev xs))"

lemma newest_append: "newest k (newest k xs @ ys) = newest k (xs @ ys)"
  by (simp add: newest_def min_def)

lemma length_newest: "length (newest k xs) \<le> k"
  by (simp add: newest_def)

lemma newest_short: "length xs \<le> k \<Longrightarrow> newest k xs = xs"
  by (simp add: newest_def)

lemma newest_push:
  assumes "length c \<le> k"
  shows "cache_push k en c = newest k (c @ [en])"
proof (cases "length c = k")
  case True
  have "take (length xs - 1) (rev xs) = rev (tl xs)" for xs :: "SlowLogEntry list"
    by (cases xs) auto
  with True show ?thesis by (cases k) (auto simp: cache_push_def newest_def Let_def tl_append split: list.splits)
next
  case False
  with assms show ?thesis by (simp add: cache_push_def newest_short Let_def)
qed

lemma sync_loop_spec:
  assumes "slowlog_ok m" and "length (queued m) < fuel" and "length (m_slow_logs_cache m) \<le> k"
  shows "\<exists>m'. sync_loop k fuel m = Inr m' \<and> slowlog_ok m' \<and> queued m' = [] \<and>
    m_slow_logs_cache m' = newest k (m_slow_logs_cache m @ queued m) \<and> m_slow_log_id m' = m_slow_log_id m"
  using assms
proof (induction fuel arbitrary: m)
  case (Suc fuel)
  obtain q where q: "spsc_pop slowlog_capacity (m_slow_logs m) = Inr ((case queued m of [] \<Rightarrow> None | x # _ \<Rightarrow> Some x), q)"
    "ring_ok slowlog_capacity q" "ring_contents slowlog_capacity q = tl (queued m)"
    using Suc.prems(1) unfolding slowlog_ok_def by (rule slow_queue(2))
  show ?case
  proof (cases "queued m")
    case Nil
    then show ?thesis using q Suc.prems by (simp add: slowlog_ok_def newest_short)
  next
    case (Cons x xs)
    let ?m = "m\<lparr>m_slow_logs := q, m_slow_logs_cache := cache_push k x (m_slow_logs_cache m)\<rparr>"
    have c: "cache_push k x (m_slow_logs_cache m) = newest k (m_slow_logs_cache m @ [x])"
      using Suc.prems(3) by (rule newest_push)
    have "newest k (newest k (m_slow_logs_cache m @ [x]) @ xs) = newest k (m_slow_logs_cache m @ x # xs)"
      using newest_append [of k "m_slow_logs_cache m @ [x]" xs] by simp
    then show ?thesis using Suc.IH [of ?m] q Suc.prems Cons length_newest [of k "m_slow_logs_cache m @ [x]"]
      by (auto simp: slowlog_ok_def c)
  qed
qed simp

lemma reset_loop_spec:
  assumes "slowlog_ok m" and "length (queued m) < fuel"
  shows "\<exists>m'. reset_loop fuel m = Inr m' \<and> slowlog_ok m' \<and> queued m' = [] \<and>
    m_slow_logs_cache m' = m_slow_logs_cache m"
  using assms
proof (induction fuel arbitrary: m)
  case (Suc fuel)
  obtain q where q: "spsc_pop slowlog_capacity (m_slow_logs m) = Inr ((case queued m of [] \<Rightarrow> None | x # _ \<Rightarrow> Some x), q)"
    "ring_ok slowlog_capacity q" "ring_contents slowlog_capacity q = tl (queued m)"
    using Suc.prems(1) unfolding slowlog_ok_def by (rule slow_queue(2))
  show ?case
  proof (cases "queued m")
    case Nil
    then show ?thesis using q by (simp add: slowlog_ok_def)
  next
    case (Cons x xs)
    then show ?thesis using Suc.IH [of "m\<lparr>m_slow_logs := q\<rparr>"] q Suc.prems by (simp add: slowlog_ok_def)
  qed
qed simp

lemma queued_bound: "slowlog_ok m \<Longrightarrow> length (queued m) < slowlog_capacity"
  using spsc.bounded [of 11 "m_slow_logs m", folded slowlog_capacity_pow]
  by (simp add: slowlog_ok_def slowlog_capacity_def)

lemma syncSlowLogs_spec:
  assumes "slowlog_ok m" and "length (m_slow_logs_cache m) \<le> s_slow_log_max_len cfg"
  shows "\<exists>m'. syncSlowLogs cfg m = Inr m' \<and> slowlog_ok m' \<and> queued m' = [] \<and>
    m_slow_logs_cache m' = newest (s_slow_log_max_len cfg) (m_slow_logs_cache m @ queued m)"
  using sync_loop_spec [OF assms(1) queued_bound [OF assms(1)] assms(2)] by (auto simp: syncSlowLogs_def)

lemma pushEntry_total:
  assumes "slowlog_ok m"
  obtains m' where "pushEntry cfg c ip t a b m = Inr m'" "slowlog_ok m'" "m_slow_logs_cache m' = m_slow_logs_cache m"
proof (cases "ns_to_us (b - a) > s_slow_log_slower_than cfg")
  case True
  let ?en = "\<lparr>sl_id = m_slow_log_id m + 1, timestamp = t, duration = ns_to_us (b - a), command = c, client_ip = ip\<rparr>"
  obtain q where "spsc_push slowlog_capacity ?en (m_slow_logs m) = Inr (length (queued m) < slowlog_capacity - 1, q)"
    "ring_ok slowlog_capacity q"
    using assms unfolding slowlog_ok_def by (rule slow_queue(1) [where x = ?en])
  then show ?thesis using True that by (simp add: pushEntry_def slowlog_ok_def)
qed (use assms that in \<open>simp add: pushEntry_def\<close>)

subsection \<open>Properties\<close>

text \<open>Moving the ring into the cache always ends, empties the ring, and leaves in the cache the
  newest entries of what was cached and what was queued, in order, up to the configured length.\<close>

theorem slowlog_keeps_newest:
  assumes "ring_ok slowlog_capacity (m_slow_logs m)"
    and "length (m_slow_logs_cache m) \<le> s_slow_log_max_len cfg"
  shows "\<exists>m'. syncSlowLogs cfg m = Inr m' \<and> spsc_empty (m_slow_logs m') \<and>
    m_slow_logs_cache m' = newest (s_slow_log_max_len cfg)
      (m_slow_logs_cache m @ ring_contents slowlog_capacity (m_slow_logs m)) \<and>
    slowlog_len m' \<le> s_slow_log_max_len cfg"
  using syncSlowLogs_spec [of m cfg] assms ring_full(3) length_newest
  by (fastforce simp: slowlog_ok_def spsc_empty_def slowlog_len_def)

theorem slowlog_keeps_newest_witness:
  "\<exists>m'. syncSlowLogs demo_config slowlog_new = Inr m' \<and> slowlog_len m' \<le> 128"
  using slowlog_keeps_newest [of slowlog_new demo_config] slowlog_ok_new
  by (fastforce simp: slowlog_ok_def slowlog_new_def demo_config_def)

text \<open>\<open>SLOWLOG RESET\<close> always ends and leaves the ring and the cache empty and the numbering at 0.\<close>

theorem slowlog_reset_empties:
  assumes "ring_ok slowlog_capacity (m_slow_logs m)"
  shows "\<exists>m'. slowlog_reset m = Inr m' \<and> m_slow_logs_cache m' = [] \<and>
    spsc_empty (m_slow_logs m') \<and> m_slow_log_id m' = 0"
proof -
  let ?m = "m\<lparr>m_slow_logs_cache := []\<rparr>"
  have ok: "slowlog_ok ?m" using assms by (simp add: slowlog_ok_def)
  show ?thesis using reset_loop_spec [OF ok queued_bound [OF ok]] ring_full(3)
    by (fastforce simp: slowlog_reset_def slowlog_ok_def spsc_empty_def)
qed

theorem slowlog_reset_empties_witness:
  "\<exists>m'. slowlog_reset slowlog_new = Inr m' \<and> m_slow_log_id m' = 0"
  using slowlog_reset_empties [of slowlog_new] slowlog_ok_new(1) by (auto simp: slowlog_ok_def)

end
