(* ===== verification/Aof.thy ===== *)
theory Aof
  imports System RespStream
begin

text \<open>
  The append-only file of \<open>src/redis_command/modules/AOF.{h,cpp}\<close>: formatting, the asynchronous
  buffer, one round of the flush thread, rotation over a fixed number of files, and loading. A
  file is its content as a later \<open>ifstream\<close> reads it; the stream's own buffer, which \<open>flush\<close> and
  \<open>close\<close> empty, is not separated from the file. An \<open>ofstream\<close> is the file it has open, if any,
  and its \<open>good\<close> bit.
\<close>

subsection \<open>State\<close>

record AOFModule =
  aof_buffer :: string
  aof_buffer_size :: nat
  m_aof_flush_running :: bool
  m_aof_current_filename :: string
  m_aof_file :: "string option"
  m_aof_good :: bool
  m_aof_file_idx :: nat
  m_last_aof_sync :: int
  m_aof_rotating :: bool
  m_aof_stop :: bool

type_synonym files = "string hmap"

definition aof_new :: AOFModule where
  "aof_new = \<lparr>aof_buffer = [], aof_buffer_size = 0, m_aof_flush_running = False, m_aof_current_filename = [],
     m_aof_file = None, m_aof_good = True, m_aof_file_idx = 0, m_last_aof_sync = 0, m_aof_rotating = False,
     m_aof_stop = False\<rparr>"

text \<open>
  \<open>ofstream::open(f, app)\<close>: fails on a stream that is already open; success clears the error bits
  and creates the file.
\<close>

definition file_of :: "files \<Rightarrow> string \<Rightarrow> string" where
  "file_of fs f = (case map_of fs f of None \<Rightarrow> [] | Some c \<Rightarrow> c)"

definition stream_open :: "env \<Rightarrow> string \<Rightarrow> AOFModule \<Rightarrow> files \<Rightarrow> AOFModule \<times> files" where
  "stream_open e f a fs =
     (if m_aof_file a \<noteq> None \<or> \<not> fs_open_ok e f then (a\<lparr>m_aof_good := False\<rparr>, fs)
      else (a\<lparr>m_aof_file := Some f, m_aof_good := True\<rparr>, insert_or_assign f (file_of fs f) fs))"

definition stream_write :: "string \<Rightarrow> AOFModule \<Rightarrow> files \<Rightarrow> files" where
  "stream_write data a fs =
     (case m_aof_file a of None \<Rightarrow> fs
      | Some f \<Rightarrow> if m_aof_good a then insert_or_assign f (file_of fs f @ data) fs else fs)"

definition closeAOF :: "AOFModule \<Rightarrow> AOFModule" where
  "closeAOF a = a\<lparr>m_aof_file := None\<rparr>"

subsection \<open>Operations\<close>

definition stringToSyncStrategy :: "string \<Rightarrow> AOFSyncStrategy" where
  "stringToSyncStrategy s = (if s = ''always'' then ALWAYS else if s = ''no'' then NO else EVERYSEC)"

definition syncStrategyToString :: "AOFSyncStrategy \<Rightarrow> string" where
  "syncStrategyToString st = (case st of ALWAYS \<Rightarrow> ''always'' | NO \<Rightarrow> ''no'' | EVERYSEC \<Rightarrow> ''everysec'')"

definition getAOFFilename :: "config \<Rightarrow> nat \<Rightarrow> string" where
  "getAOFFilename cfg index =
     (if index = 1 then ''/var/lib/blueRedis/'' @ s_aof_filename cfg
      else ''/var/lib/blueRedis/'' @ s_aof_filename cfg @ ''.'' @ to_string (int index))"

definition initAOF :: "env \<Rightarrow> config \<Rightarrow> AOFModule \<Rightarrow> files \<Rightarrow> config \<times> AOFModule \<times> files" where
  "initAOF e cfg a fs =
     (if \<not> s_aof_enabled cfg then (cfg, a, fs)
      else
        let a1 = (if m_aof_file_idx a = 0
                  then a\<lparr>m_aof_file_idx := 1, m_aof_current_filename := getAOFFilename cfg 1\<rparr> else a);
            (a2, fs2) = stream_open e (m_aof_current_filename a1) a1 fs
        in if \<not> m_aof_good a2 then (cfg\<lparr>s_aof_enabled := False\<rparr>, a2, fs2)
           else (cfg, a2\<lparr>m_aof_flush_running := True\<rparr>, fs2))"

definition appendToAOF :: "config \<Rightarrow> string \<Rightarrow> AOFModule \<Rightarrow> AOFModule" where
  "appendToAOF cfg cmd a =
     (if \<not> s_aof_enabled cfg \<or> m_aof_file a = None then a
      else a\<lparr>aof_buffer := aof_buffer a @ cmd, aof_buffer_size := aof_buffer_size a + length cmd\<rparr>)"

definition write_commands :: "string list" where
  "write_commands =
     [''SET'', ''SETNX'', ''MSET'', ''APPEND'', ''GETSET'', ''INCR'', ''INCRBY'', ''HSET'', ''HDEL'',
      ''LPUSH'', ''RPUSH'', ''LPOP'', ''RPOP'', ''LSET'', ''LINSERT'', ''LPOPRPUSH'', ''RPOPLPUSH'',
      ''SADD'', ''SREM'', ''SMOVE'', ''SPOP'', ''ZADD'', ''ZREM'', ''ZINCRBY'', ''ZREMRANGEBYSCORE'',
      ''ZINCRBYFLOAT'', ''DEL'', ''EXPIRE'', ''PEXPIRE'', ''PERSIST'', ''RENAME'', ''RENAMENX'',
      ''FLUSHDB'', ''FLUSHDBALL'', ''SELECT'']"

definition isWriteCommand :: "string \<Rightarrow> bool" where
  "isWriteCommand cmd \<longleftrightarrow> cmd \<in> set write_commands"

definition formatCommand :: "RespValue list \<Rightarrow> string" where
  "formatCommand args =
     foldl (\<lambda>result arg. result @ ''$'' @ to_string (int (length (str arg))) @ CRLF @ str arg @ CRLF)
       (''*'' @ to_string (int (length args)) @ CRLF) args"

definition cleanupOldAOFs :: "env \<Rightarrow> string \<Rightarrow> files \<Rightarrow> bool \<times> files" where
  "cleanupOldAOFs e f fs =
     (if map_of fs f \<noteq> None then (if fs_remove_ok e f then (True, erase f fs) else (False, fs))
      else (True, fs))"

definition rotateAOF :: "env \<Rightarrow> config \<Rightarrow> AOFModule \<Rightarrow> files \<Rightarrow> config \<times> AOFModule \<times> files" where
  "rotateAOF e cfg a fs =
     (if s_aof_max_file_number cfg = 0 then (cfg, a, fs)
      else if m_aof_rotating a then (cfg, a, fs)
      else
        let a1 = a\<lparr>m_aof_rotating := True, m_aof_file := None\<rparr>;
            next_idx = m_aof_file_idx a mod nat (s_aof_max_file_number cfg mod 2 ^ 64) + 1;
            new_file = getAOFFilename cfg next_idx;
            (can_used, fs1) = cleanupOldAOFs e new_file fs
        in if \<not> can_used \<and> \<not> fs_open_ok e new_file
           then (cfg\<lparr>s_aof_enabled := False\<rparr>, a1\<lparr>m_aof_rotating := False\<rparr>, fs1)
           else
             let fs2 = (if can_used then fs1 else insert_or_assign new_file [] fs1);
                 (a2, fs3) = stream_open e new_file a1 fs2
             in if \<not> m_aof_good a2
                then (cfg\<lparr>s_aof_enabled := False\<rparr>, a2\<lparr>m_aof_rotating := False\<rparr>, fs3)
                else (cfg, a2\<lparr>m_aof_file_idx := next_idx, m_aof_current_filename := new_file,
                               m_aof_rotating := False\<rparr>, fs3))"

text \<open>Taking the content of the buffer, with the assertion on its size.\<close>

definition take_buffer :: "AOFModule \<Rightarrow> (string \<times> AOFModule) res" where
  "take_buffer a =
     (if length (aof_buffer a) \<noteq> aof_buffer_size a then Inl AssertionFailed
      else Inr (aof_buffer a, a\<lparr>aof_buffer := [], aof_buffer_size := 0\<rparr>))"

text \<open>One round of the loop of the flush thread; \<open>now\<close> is its reading of the steady clock.\<close>

definition aofFlushThread_round ::
  "env \<Rightarrow> int \<Rightarrow> config \<Rightarrow> AOFModule \<Rightarrow> files \<Rightarrow> (config \<times> AOFModule \<times> files) res" where
  "aofFlushThread_round e now cfg a fs =
     (if aof_buffer_size a = 0 then Inr (cfg, a, fs)
      else bnd (take_buffer a) (\<lambda>(data_to_write, a1).
        case m_aof_file a1 of None \<Rightarrow> Inr (cfg, a1, fs)
        | Some f \<Rightarrow>
            let fs1 = stream_write data_to_write a1 fs;
                a2 = (if s_aof_sync cfg = EVERYSEC \<and> (now - m_last_aof_sync a1) div 1000000000 \<ge> 1
                      then a1\<lparr>m_last_aof_sync := now\<rparr> else a1)
            in if length (file_of fs1 f) > s_aof_max_file_size cfg \<and> \<not> m_aof_rotating a2
               then Inr (rotateAOF e cfg a2 fs1)
               else Inr (cfg, a2, fs1)))"

definition flushAOFBuffer :: "AOFModule \<Rightarrow> files \<Rightarrow> (AOFModule \<times> files) res" where
  "flushAOFBuffer a fs =
     (if aof_buffer_size a = 0 then Inr (a, fs)
      else bnd (take_buffer a) (\<lambda>(data_to_write, a1). Inr (a1, stream_write data_to_write a1 fs)))"

text \<open>One round of the coroutine that flushes the stream; in this model it only notes the time.\<close>

definition aofSyncLoop_round :: "int \<Rightarrow> config \<Rightarrow> AOFModule \<Rightarrow> AOFModule" where
  "aofSyncLoop_round now cfg a =
     (if \<not> m_aof_stop a \<and> s_aof_sync cfg = EVERYSEC \<and> (now - m_last_aof_sync a) div 1000000000 \<ge> 1 \<and> m_aof_file a \<noteq> None
      then a\<lparr>m_last_aof_sync := now\<rparr> else a)"

definition stopAOFFlushThread :: "AOFModule \<Rightarrow> files \<Rightarrow> (AOFModule \<times> files) res" where
  "stopAOFFlushThread a fs =
     (if \<not> m_aof_flush_running a then Inr (a, fs) else flushAOFBuffer (a\<lparr>m_aof_flush_running := False\<rparr>) fs)"

definition closeAOFWithFlush :: "AOFModule \<Rightarrow> AOFModule" where
  "closeAOFWithFlush a = a\<lparr>m_aof_file := None\<rparr>"

subsection \<open>Loading\<close>

definition existing_aofs :: "config \<Rightarrow> files \<Rightarrow> nat list" where
  "existing_aofs cfg fs =
     filter (\<lambda>i. map_of fs (getAOFFilename cfg i) \<noteq> None) [1..<nat (s_aof_max_file_number cfg) + 1]"

text \<open>
  The loop \<open>while (parser.next(cmd_Resp))\<close> over one file. \<open>executor\<close> is the callback set by
  \<open>setExecutor\<close>; an exception it throws is caught and counted as an error,
  and what the command had changed before it is not kept in this model.
\<close>

fun run_commands :: "(RespValue list \<Rightarrow> 'w \<Rightarrow> 'w res) \<Rightarrow> RespValue list \<Rightarrow> 'w \<Rightarrow> 'w res" where
  "run_commands executor [] w = Inr w"
| "run_commands executor (v # vs) w =
     (if arr v = [] \<or> rtype v \<noteq> ARRAY then run_commands executor vs w
      else case executor (arr v) w of
        Inr w' \<Rightarrow> run_commands executor vs w'
      | Inl f \<Rightarrow> if f = UncaughtException then run_commands executor vs w else Inl f)"

definition load_file :: "nat \<Rightarrow> (RespValue list \<Rightarrow> 'w \<Rightarrow> 'w res) \<Rightarrow> string \<Rightarrow> 'w \<Rightarrow> 'w res" where
  "load_file cap executor content w =
     (if content = [] then Inr w
      else
        let (ok, p) = feed (new_parser (1024 * 1024)) content in
        if \<not> ok then Inr w
        else bnd (drain cap p) (\<lambda>(vs, _). run_commands executor vs w))"

fun load_files :: "nat \<Rightarrow> (RespValue list \<Rightarrow> 'w \<Rightarrow> 'w res) \<Rightarrow> string list \<Rightarrow> 'w \<Rightarrow> 'w res" where
  "load_files cap executor [] w = Inr w"
| "load_files cap executor (c # cs) w = bnd (load_file cap executor c w) (load_files cap executor cs)"

definition loadAOF ::
  "nat \<Rightarrow> (RespValue list \<Rightarrow> 'w \<Rightarrow> 'w res) \<Rightarrow> config \<Rightarrow> files \<Rightarrow> AOFModule \<Rightarrow> 'w \<Rightarrow> (AOFModule \<times> 'w) res" where
  "loadAOF cap executor cfg fs a w =
     (let found = existing_aofs cfg fs in
      if found = [] then Inr (a\<lparr>m_aof_file_idx := 1, m_aof_current_filename := getAOFFilename cfg 1\<rparr>, w)
      else
        let goodidx = last found in
        bnd (load_files cap executor (map (\<lambda>i. file_of fs (getAOFFilename cfg i)) found) w) (\<lambda>w'.
          Inr (a\<lparr>m_aof_file_idx := goodidx, m_aof_current_filename := getAOFFilename cfg goodidx\<rparr>, w')))"

subsection \<open>Laws\<close>

definition cmd_value :: "RespValue list \<Rightarrow> RespValue" where
  "cmd_value args = array (map (\<lambda>a. bulk_string (str a)) args)"

text \<open>The commands whose logged form can be read back.\<close>

definition cmd_wf :: "nat \<Rightarrow> RespValue list \<Rightarrow> bool" where
  "cmd_wf cap args \<longleftrightarrow> args \<noteq> [] \<and> length args \<le> cap \<and> int64_ok (int (length args)) \<and>
     (\<forall>a \<in> set args. line_ok (str a) \<and> int64_ok (int (length (str a))))"

lemma formatCommand_encode: "formatCommand args = encode (cmd_value args)"
proof -
  have "foldl (\<lambda>r a. r @ ''$'' @ to_string (int (length (str a))) @ CRLF @ str a @ CRLF) out args
      = out @ concat (map (\<lambda>a. encode (bulk_string (str a))) args)" for out
    by (induction args arbitrary: out) auto
  then show ?thesis by (simp add: formatCommand_def cmd_value_def o_def)
qed

lemma cmd_value_wf: "cmd_wf cap args \<Longrightarrow> resp_wf cap (cmd_value args)"
  by (auto simp: cmd_wf_def cmd_value_def array_def bulk_string_def)

definition aof_ok :: "AOFModule \<Rightarrow> bool" where
  "aof_ok a \<longleftrightarrow> aof_buffer_size a = length (aof_buffer a)"

lemma aof_ok_append: "aof_ok a \<Longrightarrow> aof_ok (appendToAOF cfg c a)"
  by (simp add: aof_ok_def appendToAOF_def)

lemma take_buffer_ok: "aof_ok a \<Longrightarrow> take_buffer a = Inr (aof_buffer a, a\<lparr>aof_buffer := [], aof_buffer_size := 0\<rparr>)"
  by (simp add: take_buffer_def aof_ok_def)

lemma append_all:
  assumes "s_aof_enabled cfg" and "m_aof_file a \<noteq> None"
  shows "fold (\<lambda>c. appendToAOF cfg (formatCommand c)) cmds a
    = a\<lparr>aof_buffer := aof_buffer a @ concat (map formatCommand cmds),
        aof_buffer_size := aof_buffer_size a + length (concat (map formatCommand cmds))\<rparr>"
  using assms(2)
proof (induction cmds arbitrary: a)
  case (Cons c cmds)
  then show ?case using assms(1) by (auto simp: appendToAOF_def)
qed simp

lemma file_of_update [simp]: "file_of (insert_or_assign f c fs) f = c"
  by (simp add: file_of_def hmap_simps)

lemma flush_appends:
  assumes "aof_ok a" and "m_aof_file a = Some f" and "m_aof_good a"
  shows "\<exists>a' fs'. flushAOFBuffer a fs = Inr (a', fs') \<and> file_of fs' f = file_of fs f @ aof_buffer a \<and> aof_buffer a' = []"
proof (cases "aof_buffer_size a = 0")
  case True
  then show ?thesis using assms(1) by (simp add: flushAOFBuffer_def aof_ok_def)
next
  case False
  then show ?thesis using assms by (simp add: flushAOFBuffer_def take_buffer_ok stream_write_def)
qed

lemma load_file_values:
  assumes "\<forall>v \<in> set vs. resp_wf cap v" and "length (concat (map encode vs)) \<le> 1024 * 1024"
  shows "load_file cap executor (concat (map encode vs)) w = run_commands executor vs w"
proof (cases "concat (map encode vs) = []")
  case True
  then have "vs = []" using encode_neq_Nil by (cases vs) auto
  then show ?thesis by (simp add: load_file_def)
next
  case False
  let ?p = "(new_parser (1024 * 1024))\<lparr>buffer := concat (map encode vs)\<rparr>"
  have f: "feed (new_parser (1024 * 1024)) (concat (map encode vs)) = (True, ?p)"
    using assms(2) by (simp add: feed_def new_parser_def)
  have "parser_ok ?p" "pending ?p = concat (map encode vs)"
    using assms(2) by (simp_all add: parser_ok_def new_parser_def pending_def)
  then have "bnd (drain cap ?p) (\<lambda>(us, q). Inr (us, pending q)) = Inr (vs, [])"
    using drain_parse_seq(1) [of ?p cap] resp.seq_encoded [OF assms(1)] by simp
  then obtain q where "drain cap ?p = Inr (vs, q)" by (auto simp: bnd_eq_Inr)
  then show ?thesis using f False by (auto simp: load_file_def)
qed

subsection \<open>Properties\<close>



text \<open>A log file larger than one mebibyte is skipped as a whole when it is loaded: none of its
  commands is executed.\<close>

theorem aof_large_file_skipped:
  assumes "length content > 1024 * 1024"
  shows "load_file cap executor content w = Inr w"
  using assms by (auto simp: load_file_def feed_def new_parser_def)

theorem aof_large_file_skipped_witness:
  "load_file 10 (\<lambda>args n. Inr (n + (1 :: nat))) (replicate 1048577 CR) 0 = Inr 0"
  by (rule aof_large_file_skipped) simp

text \<open>Rotation keeps the file index between 1 and the configured number of files, moves to the
  next one cyclically, and starts the new file empty; when it cannot, it switches the log off.\<close>

theorem rotate_cycles:
  assumes "rotateAOF e cfg a fs = (cfg', a', fs')" and "s_aof_max_file_number cfg > 0"
    and "s_aof_max_file_number cfg < 2 ^ 31" and "\<not> m_aof_rotating a"
  shows "\<not> m_aof_rotating a' \<and>
    (if s_aof_enabled cfg \<and> s_aof_enabled cfg' then
       m_aof_file_idx a' = m_aof_file_idx a mod nat (s_aof_max_file_number cfg) + 1 \<and>
       int (m_aof_file_idx a') \<le> s_aof_max_file_number cfg \<and>
       m_aof_file a' = Some (getAOFFilename cfg (m_aof_file_idx a')) \<and>
       file_of fs' (getAOFFilename cfg (m_aof_file_idx a')) = []
     else \<not> s_aof_enabled cfg')"
proof -
  let ?n = "nat (s_aof_max_file_number cfg)"
  have m: "nat (s_aof_max_file_number cfg mod 2 ^ 64) = ?n" using assms(2,3) by simp
  have "m_aof_file_idx a mod ?n < ?n" using assms(2) by simp
  then have b: "int (m_aof_file_idx a mod ?n + 1) \<le> s_aof_max_file_number cfg" by linarith
  have nz: "s_aof_max_file_number cfg \<noteq> 0" using assms(2) by simp
  show ?thesis
    using assms(1,4) b nz unfolding rotateAOF_def m
    by (auto simp: Let_def stream_open_def cleanupOldAOFs_def file_of_def hmap_simps
        split: if_splits prod.splits)
qed

theorem rotate_cycles_witness:
  "\<not> m_aof_rotating (fst (snd (rotateAOF demo_env demo_config (aof_new\<lparr>m_aof_file_idx := 5\<rparr>) [])))"
proof -
  let ?r = "rotateAOF demo_env demo_config (aof_new\<lparr>m_aof_file_idx := 5\<rparr>) []"
  show ?thesis
    using rotate_cycles [of demo_env demo_config "aof_new\<lparr>m_aof_file_idx := 5\<rparr>" "[]" "fst ?r" "fst (snd ?r)" "snd (snd ?r)"]
    by (simp add: demo_config_def aof_new_def)
qed

end
