(* ===== verification/Pubsub.thy ===== *)
theory Pubsub
  imports System
begin

text \<open>
  Everything that fans out to other connections: the channels of
  \<open>src/redis_command/modules/subscription.cpp\<close>, the monitor clients of \<open>monitor.cpp\<close> and the list
  of replicas of \<open>replication.cpp\<close>. Each holds \<open>weak_ptr\<close>s, here connection numbers.
\<close>

subsection \<open>Channels\<close>

type_synonym channels = "nat list hmap"

definition subscribers :: "channels \<Rightarrow> string \<Rightarrow> nat list" where
  "subscribers m c = (case map_of m c of None \<Rightarrow> [] | Some xs \<Rightarrow> xs)"

definition addSubscriber :: "string \<Rightarrow> nat \<Rightarrow> channels \<Rightarrow> channels" where
  "addSubscriber channel sock m = insert_or_assign channel (subscribers m channel @ [sock]) m"

definition drop_sock :: "net \<Rightarrow> nat \<Rightarrow> nat list \<Rightarrow> nat list" where
  "drop_sock n sock xs = filter (\<lambda>i. lockable n i \<and> i \<noteq> sock) xs"

definition removeSubscriber :: "net \<Rightarrow> string \<Rightarrow> nat \<Rightarrow> channels \<Rightarrow> channels" where
  "removeSubscriber n channel sock m =
     (case map_of m channel of None \<Rightarrow> m
      | Some xs \<Rightarrow>
          let ys = drop_sock n sock xs in
          if ys = [] then erase channel m else insert_or_assign channel ys m)"

text \<open>\<open>::send\<close> until everything is out or it fails.\<close>

function send_all :: "env \<Rightarrow> nat \<Rightarrow> string \<Rightarrow> net \<Rightarrow> bool \<times> net" where
  "send_all e i data n =
     (if data = [] then (True, n)
      else let (k, n') = net_send e i data n in
        if k \<le> 0 then (False, n') else send_all e i (drop (nat k) data) n')"
  by pat_completeness auto
termination
  by (relation "measure (\<lambda>(e, i, data, n). length data)") (auto simp: net_send_def Let_def)

declare send_all.simps [simp del]

definition message_frame :: "string \<Rightarrow> string \<Rightarrow> string" where
  "message_frame channel message =
     encode (array [bulk_string ''message'', bulk_string channel, bulk_string message])"

fun deliver :: "env \<Rightarrow> string \<Rightarrow> nat list \<Rightarrow> net \<Rightarrow> nat \<times> net" where
  "deliver e data [] n = (0, n)"
| "deliver e data (i # is) n =
     (if online n i then
        let (ok, n1) = send_all e i data n; (k, n2) = deliver e data is n1
        in (if ok then Suc k else k, n2)
      else deliver e data is n)"

definition publishMessage :: "env \<Rightarrow> string \<Rightarrow> string \<Rightarrow> channels \<Rightarrow> net \<Rightarrow> nat \<times> net" where
  "publishMessage e channel message m n =
     (case map_of m channel of None \<Rightarrow> (0, n)
      | Some xs \<Rightarrow> deliver e (message_frame channel message) xs n)"

definition removeAllSubscribers :: "net \<Rightarrow> nat \<Rightarrow> channels \<Rightarrow> channels" where
  "removeAllSubscribers n sock m =
     filter (\<lambda>(c, xs). xs \<noteq> []) (map (\<lambda>(c, xs). (c, drop_sock n sock xs)) m)"

definition getSubscriberCount :: "channels \<Rightarrow> string \<Rightarrow> nat" where
  "getSubscriberCount m channel = length (subscribers m channel)"

definition getChannels :: "env \<Rightarrow> channels \<Rightarrow> string list" where
  "getChannels e m = iter e (keys m)"

subsection \<open>Monitor clients\<close>

fun push_monitors :: "env \<Rightarrow> string \<Rightarrow> nat list \<Rightarrow> net \<Rightarrow> nat list \<times> net" where
  "push_monitors e msg [] n = ([], n)"
| "push_monitors e msg (i # is) n =
     (if online n i then
        let (_, n1) = net_send e i msg n; (js, n2) = push_monitors e msg is n1 in (i # js, n2)
      else push_monitors e msg is n)"

definition monitor_message :: "int \<Rightarrow> string \<Rightarrow> string \<Rightarrow> string" where
  "monitor_message ts ip cmd = ''+'' @ to_string ts @ '' ['' @ ip @ ''] '' @ [CHR 0x22] @ cmd @ [CHR 0x22] @ CRLF"

definition pushToMonitor :: "env \<Rightarrow> string \<Rightarrow> nat \<Rightarrow> nat list \<Rightarrow> net \<Rightarrow> nat list \<times> net" where
  "pushToMonitor e cmd sock clients n =
     (if clients = [] then (clients, n)
      else push_monitors e (monitor_message (wall e 0) (raddr n sock) cmd) clients n)"

definition removeMonitor :: "net \<Rightarrow> nat list \<Rightarrow> nat list" where
  "removeMonitor n clients = filter (online n) clients"

definition addMonitorClient :: "nat \<Rightarrow> nat list \<Rightarrow> nat list" where
  "addMonitorClient sock clients = clients @ [sock]"

subsection \<open>Replicas\<close>

definition addSlaves :: "nat \<Rightarrow> nat list \<Rightarrow> nat list" where
  "addSlaves sock slaves = slaves @ [sock]"

definition remove_slave :: "net \<Rightarrow> nat \<Rightarrow> nat list \<Rightarrow> nat list" where
  "remove_slave n sock slaves = drop_sock n sock slaves"

text \<open>The pass over the list: the connections kept, those to remove afterwards, and the network.\<close>

fun broadcast_pass :: "env \<Rightarrow> string \<Rightarrow> nat list \<Rightarrow> net \<Rightarrow> nat list \<times> nat list \<times> net" where
  "broadcast_pass e cmd [] n = ([], [], n)"
| "broadcast_pass e cmd (i # is) n =
     (if \<not> lockable n i then broadcast_pass e cmd is n
      else if \<not> online n i then
        let (js, rm, n2) = broadcast_pass e cmd is n in (i # js, i # rm, n2)
      else
        let (k, n1) = net_send e i cmd n; (js, rm, n2) = broadcast_pass e cmd is n1
        in (i # js, if k \<le> 0 \<and> \<not> send_again e i cmd then i # rm else rm, n2))"

definition broadcastToSlaves :: "env \<Rightarrow> string \<Rightarrow> nat list \<Rightarrow> net \<Rightarrow> nat list \<times> net" where
  "broadcastToSlaves e cmd slaves n =
     (let (js, rm, n') = broadcast_pass e cmd slaves n in (fold (remove_slave n') rm js, n'))"

definition slavesCount :: "net \<Rightarrow> nat list \<Rightarrow> nat \<times> nat list" where
  "slavesCount n slaves = (let js = filter (lockable n) slaves in (length js, js))"

subsection \<open>Laws\<close>

definition channels_ok :: "channels \<Rightarrow> bool" where
  "channels_ok m \<longleftrightarrow> hmap_ok m \<and> (\<forall>(c, xs) \<in> set m. xs \<noteq> [])"

lemma subscribers_add:
  "subscribers (addSubscriber c s m) c' = subscribers m c' @ (if c' = c then [s] else [])"
  by (simp add: subscribers_def addSubscriber_def hmap_simps)

lemma subscribers_remove:
  "subscribers (removeSubscriber n c s m) c' = (if c' = c then drop_sock n s (subscribers m c) else subscribers m c')"
  by (auto simp: subscribers_def removeSubscriber_def drop_sock_def hmap_simps Let_def split: option.splits)

lemma map_of_filter_values:
  "distinct (map fst m) \<Longrightarrow>
     map_of (filter (\<lambda>(c, xs). P xs) (map (\<lambda>(c, xs). (c, f xs)) m)) k =
       (case map_of m k of None \<Rightarrow> None | Some xs \<Rightarrow> if P (f xs) then Some (f xs) else None)"
  by (induction m) (auto split: option.splits simp: map_of_eq_None_iff [symmetric] image_iff)

lemma subscribers_removeAll:
  "channels_ok m \<Longrightarrow> subscribers (removeAllSubscribers n s m) c = drop_sock n s (subscribers m c)"
  unfolding removeAllSubscribers_def subscribers_def channels_ok_def hmap_ok_def
  by (subst map_of_filter_values) (auto simp: drop_sock_def split: option.splits)

lemma channels_okI: "hmap_ok m \<Longrightarrow> (\<And>c xs. map_of m c = Some xs \<Longrightarrow> xs \<noteq> []) \<Longrightarrow> channels_ok m"
  by (auto simp: channels_ok_def hmap_ok_def dest: map_of_is_SomeI)

lemma channels_okD: "channels_ok m \<Longrightarrow> map_of m c = Some xs \<Longrightarrow> xs \<noteq> []"
  by (auto simp: channels_ok_def dest: map_of_SomeD)

lemma channels_ok_ops:
  assumes "channels_ok m"
  shows "channels_ok (addSubscriber c s m)" "channels_ok (removeSubscriber n c s m)"
    "channels_ok (removeAllSubscribers n s m)"
proof -
  have h: "hmap_ok m" using assms by (simp add: channels_ok_def)
  show "channels_ok (addSubscriber c s m)"
    by (rule channels_okI) (auto simp: addSubscriber_def hmap_simps h channels_okD [OF assms] split: if_splits)
  show "channels_ok (removeSubscriber n c s m)"
    by (rule channels_okI)
      (auto simp: removeSubscriber_def hmap_simps h channels_okD [OF assms] Let_def split: option.splits if_splits)
  show "channels_ok (removeAllSubscribers n s m)"
    using h by (auto simp: channels_ok_def hmap_ok_def removeAllSubscribers_def distinct_map_filter o_def
        split_def intro: distinct_map_filter)
qed

text \<open>A connection takes whole messages when every \<open>::send\<close> to it takes everything.\<close>

definition sends_all :: "env \<Rightarrow> bool" where
  "sends_all e \<longleftrightarrow> (\<forall>i s. send_n e i s = int (length s))"

lemma send_all_whole:
  "sends_all e \<Longrightarrow> data \<noteq> [] \<Longrightarrow> send_all e i data n = (True, n\<lparr>outq := outq n @ [(i, data)]\<rparr>)"
  by (subst send_all.simps) (simp add: sends_all_def net_send_def Let_def send_all.simps)

lemma online_outq [simp]: "online (n\<lparr>outq := q\<rparr>) = online n" "lockable (n\<lparr>outq := q\<rparr>) = lockable n"
  by (auto simp: online_def lockable_def)

lemma deliver_all:
  assumes "sends_all e" "data \<noteq> []"
  shows "deliver e data is n = (length (filter (online n) is),
    n\<lparr>outq := outq n @ map (\<lambda>i. (i, data)) (filter (online n) is)\<rparr>)"
  by (induction "is" arbitrary: n) (simp_all add: send_all_whole [OF assms])

lemma broadcast_all:
  assumes "sends_all e" "cmd \<noteq> []"
  shows "broadcast_pass e cmd is n = (filter (lockable n) is, filter (\<lambda>i. lockable n i \<and> \<not> online n i) is,
    n\<lparr>outq := outq n @ map (\<lambda>i. (i, cmd)) (filter (online n) is)\<rparr>)"
  using assms by (induction "is" arbitrary: n) (auto simp: net_send_def sends_all_def Let_def online_def)

lemma fold_remove_slave:
  "fold (remove_slave n) rm js = (if rm = [] then js else filter (\<lambda>i. lockable n i \<and> i \<notin> set rm) js)"
  by (induction rm arbitrary: js) (auto simp: remove_slave_def drop_sock_def intro: filter_cong)

subsection \<open>Properties\<close>

text \<open>A published message is handed once per subscription, in subscription order, to every
  subscriber of the channel that is still connected and to nobody else, and the reply counts them.\<close>

theorem publish_delivers:
  assumes "sends_all e"
  shows "publishMessage e c msg m n =
    (length (filter (online n) (subscribers m c)),
     n\<lparr>outq := outq n @ map (\<lambda>i. (i, message_frame c msg)) (filter (online n) (subscribers m c))\<rparr>)"
  using deliver_all [OF assms, of "message_frame c msg"] encode_neq_Nil
  by (auto simp: publishMessage_def subscribers_def message_frame_def split: option.splits)

theorem publish_delivers_witness:
  "fst (publishMessage demo_env ''news'' ''hi'' (addSubscriber ''news'' 3 (addSubscriber ''news'' 2 []))
      \<lparr>alive = [2, 3], connected = [3], raddr = (\<lambda>_. []), rip = (\<lambda>_. None), outq = []\<rparr>) = 1"
proof -
  have "sends_all demo_env" by (simp add: sends_all_def demo_env_def)
  from publish_delivers [OF this] show ?thesis
    by (simp add: subscribers_add online_def lockable_def) (simp add: subscribers_def)
qed

text \<open>Unsubscribing: after \<open>removeSubscriber\<close> or \<open>removeAllSubscribers\<close> the connection is on no
  list it was to leave, the other living subscribers keep their places, and no empty channel stays
  in the map.\<close>

theorem unsubscribe_removes:
  assumes "channels_ok m"
  shows "channels_ok (removeSubscriber n c s m) \<and> channels_ok (removeAllSubscribers n s m) \<and>
    subscribers (removeSubscriber n c s m) c = filter (\<lambda>i. lockable n i \<and> i \<noteq> s) (subscribers m c) \<and>
    (\<forall>c'. subscribers (removeAllSubscribers n s m) c' = filter (\<lambda>i. lockable n i \<and> i \<noteq> s) (subscribers m c'))"
  using channels_ok_ops [OF assms] subscribers_removeAll [OF assms]
  by (simp add: subscribers_remove drop_sock_def)

theorem unsubscribe_removes_witness:
  "subscribers (removeAllSubscribers \<lparr>alive = [1, 2], connected = [], raddr = (\<lambda>_. []), rip = (\<lambda>_. None), outq = []\<rparr> 1
      (addSubscriber ''a'' 2 (addSubscriber ''a'' 1 []))) ''a'' = [2]"
proof -
  have "channels_ok (addSubscriber ''a'' 2 (addSubscriber ''a'' 1 []))"
    by (intro channels_ok_ops) (simp add: channels_ok_def)
  from unsubscribe_removes [OF this] show ?thesis
    by (simp add: subscribers_add lockable_def) (simp add: subscribers_def)
qed

text \<open>A write is handed to every connected replica, in order, and the list keeps exactly the
  replicas that are still connected.\<close>

theorem broadcast_reaches_replicas:
  assumes "sends_all e" and "cmd \<noteq> []"
  shows "broadcastToSlaves e cmd slaves n =
    (filter (online n) slaves, n\<lparr>outq := outq n @ map (\<lambda>i. (i, cmd)) (filter (online n) slaves)\<rparr>)"
proof -
  let ?rm = "filter (\<lambda>i. lockable n i \<and> \<not> online n i) slaves"
  have "(if ?rm = [] then filter (lockable n) slaves else filter (\<lambda>i. lockable n i \<and> i \<notin> set ?rm) (filter (lockable n) slaves))
      = filter (online n) slaves"
    by (auto simp: filter_empty_conv online_def intro!: filter_cong)
  then show ?thesis
    by (simp only: broadcastToSlaves_def broadcast_all [OF assms] fold_remove_slave Let_def prod.case online_outq)
qed

theorem broadcast_reaches_replicas_witness:
  "fst (broadcastToSlaves demo_env ''x'' [4, 5] \<lparr>alive = [4, 5], connected = [5], raddr = (\<lambda>_. []), rip = (\<lambda>_. None), outq = []\<rparr>) = [5]"
proof -
  have "sends_all demo_env" by (simp add: sends_all_def demo_env_def)
  from broadcast_reaches_replicas [OF this, of "''x''"] show ?thesis
    by (simp add: online_def lockable_def)
qed

end
