(* ===== verification/ServerData.thy ===== *)
theory ServerData
  imports SlowLog Aof Pubsub SkipList
begin

text \<open>
  The shared server state of \<open>src/redis_command/server_data.h\<close>: 16 databases of 128 shards, each
  with one hash map per data type, and the modules. A \<open>world\<close> is that state together with the
  connections, the configuration variables, the network and the files; \<open>cur\<close> is the connection
  whose command is being executed. Every handler runs under the mutex of the shard it touches and
  is modelled as one step from world to world.
\<close>

subsection \<open>Shards\<close>

definition SHARD_COUNT :: nat where "SHARD_COUNT = 128"
definition DB_COUNT :: nat where "DB_COUNT = 16"

record StoreData =
  val :: string
  expire :: "int option"

definition is_expired :: "int \<Rightarrow> StoreData \<Rightarrow> bool" where
  "is_expired now d = (case expire d of None \<Rightarrow> False | Some t \<Rightarrow> now > t)"

record DataShard =
  store :: "StoreData hmap"
  hashes :: "string hmap hmap"
  lists :: "string list hmap"
  sets :: "string list hmap"
  zset :: "zlist hmap"
  zset_score :: "double hmap hmap"

definition shard_empty :: DataShard where
  "shard_empty = \<lparr>store = [], hashes = [], lists = [], sets = [], zset = [], zset_score = []\<rparr>"

subsection \<open>The server and the world\<close>

text \<open>
  The replica side of \<open>ReplicationModule\<close>; \<open>m_streams\<close> are the connections whose RDB stream has
  been handed to the scheduler and has not run yet.
\<close>

datatype ReplState = REPL_STATE_NONE | REPL_STATE_CONNECTING | REPL_STATE_HANDSHAKE | REPL_STATE_TRANSFER
  | REPL_STATE_ONLINE | REPL_STATE_RETRY

record Replication =
  m_repl_state :: ReplState
  m_repl_stop :: bool
  m_repl_queue_stop :: bool
  m_consumer_started :: bool
  m_repl_queue :: "RespValue list list"
  m_streams :: "nat list"

definition repl_new :: Replication where
  "repl_new = \<lparr>m_repl_state = REPL_STATE_NONE, m_repl_stop = True, m_repl_queue_stop = False,
     m_consumer_started = False, m_repl_queue = [], m_streams = []\<rparr>"

record ServerData =
  m_dbs :: "nat \<Rightarrow> nat \<Rightarrow> DataShard"
  m_commands :: nat
  m_shutdown :: bool
  m_last_time :: int
  m_bgsave_running :: bool
  m_admin_sock :: "nat option"
  m_subscription :: channels
  m_slowLog :: SlowLogModule
  m_monitor :: "nat list"
  m_push_monitor :: bool
  m_aof :: AOFModule
  m_slaves :: "nat list"
  m_repl :: Replication
  m_connections :: nat
  m_rejected_connections :: nat

record world =
  socks :: "nat \<Rightarrow> MSocket"
  cur :: nat
  self :: ServerData
  cfg :: config
  peers :: net
  disk :: files

type_synonym reply = "(RespValue \<times> world) res"
type_synonym handler = "env \<Rightarrow> RespValue list \<Rightarrow> world \<Rightarrow> reply"

definition sock :: "world \<Rightarrow> MSocket" where
  "sock w = socks w (cur w)"

definition mod_sock :: "(MSocket \<Rightarrow> MSocket) \<Rightarrow> world \<Rightarrow> world" where
  "mod_sock f w = w\<lparr>socks := (socks w)(cur w := f (socks w (cur w)))\<rparr>"

definition mod_self :: "(ServerData \<Rightarrow> ServerData) \<Rightarrow> world \<Rightarrow> world" where
  "mod_self f w = w\<lparr>self := f (self w)\<rparr>"

definition new_server :: ServerData where
  "new_server = \<lparr>m_dbs = (\<lambda>_ _. shard_empty), m_commands = 0, m_shutdown = False, m_last_time = 0,
     m_bgsave_running = False, m_admin_sock = None, m_subscription = [], m_slowLog = slowlog_new,
     m_monitor = [], m_push_monitor = True, m_aof = aof_new, m_slaves = [], m_repl = repl_new,
     m_connections = 0, m_rejected_connections = 0\<rparr>"

definition new_world :: "config \<Rightarrow> world" where
  "new_world c = \<lparr>socks = (\<lambda>_. new_socket), cur = 0, self = new_server, cfg = c,
     peers = \<lparr>alive = [0], connected = [0], raddr = (\<lambda>_. ''127.0.0.1:5000''),
       rip = (\<lambda>_. Some (''127.0.0.1'', 5000)), outq = []\<rparr>, disk = []\<rparr>"

definition getShardIndex :: "env \<Rightarrow> string \<Rightarrow> nat" where
  "getShardIndex e key = std_hash e key mod SHARD_COUNT"

abbreviation cur_db :: "world \<Rightarrow> nat" where
  "cur_db w \<equiv> nat (m_client_db_id (sock w))"

definition db_valid :: "world \<Rightarrow> bool" where
  "db_valid w \<longleftrightarrow> 0 \<le> m_client_db_id (sock w) \<and> m_client_db_id (sock w) < int DB_COUNT"

text \<open>\<open>getShard\<close> indexes the array of databases with the connection's database number.\<close>

definition shard_of :: "env \<Rightarrow> world \<Rightarrow> string \<Rightarrow> DataShard" where
  "shard_of e w key = m_dbs (self w) (cur_db w) (getShardIndex e key)"

definition getShard :: "env \<Rightarrow> world \<Rightarrow> string \<Rightarrow> DataShard res" where
  "getShard e w key = (if db_valid w then Inr (shard_of e w key) else Inl OutOfBounds)"

definition put_shard :: "nat \<Rightarrow> nat \<Rightarrow> (DataShard \<Rightarrow> DataShard) \<Rightarrow> world \<Rightarrow> world" where
  "put_shard d i f w =
     mod_self (\<lambda>s. s\<lparr>m_dbs := (m_dbs s)(d := (m_dbs s d)(i := f (m_dbs s d i)))\<rparr>) w"

definition mod_shard :: "env \<Rightarrow> string \<Rightarrow> (DataShard \<Rightarrow> DataShard) \<Rightarrow> world \<Rightarrow> world" where
  "mod_shard e key f w = put_shard (cur_db w) (getShardIndex e key) f w"

text \<open>\<open>read_only\<close> as the compiler sees it: two adjacent literals without a comma are one.\<close>

definition read_only :: "string list" where
  "read_only =
     [''GET'', ''MGET'', ''EXISTS'', ''TTL'', ''PTTL'', ''STRLEN'', ''TYPE'', ''HGET'', ''HGETALL'', ''HLEN'',
      ''HEXISTS'', ''HKEYS'', ''HVALS'', ''LLEN'', ''LINDEX'', ''LRANGE'', ''SCARD'', ''SISMEMBER'',
      ''SMEMBERS'', ''SRANDMEMBER'', ''SDIFF'', ''SUNION'', ''SINTERZSCORE'', ''ZRANK'', ''ZCOUNT'', ''ZRANGE'',
      ''ZRANGEBYSCORE'', ''KEYS'', ''DBSIZE'', ''INFO'', ''TIME'', ''LOCALTIME'', ''LASTSAVE'']"

definition isReadOnlyCommand :: "string \<Rightarrow> bool" where
  "isReadOnlyCommand cmd \<longleftrightarrow> cmd \<in> set read_only"

definition getKeyVersion :: "env \<Rightarrow> string \<Rightarrow> world \<Rightarrow> nat res" where
  "getKeyVersion e key w =
     bnd (getShard e w key) (\<lambda>sh.
       case map_of (store sh) key of None \<Rightarrow> Inr 0 | Some d \<Rightarrow> Inr (std_hash e (val d)))"

definition strip_zeros :: "string \<Rightarrow> string" where
  "strip_zeros s = rev (dropWhile (\<lambda>c. c = CHR ''0'') (rev s))"

definition format_score :: "env \<Rightarrow> double \<Rightarrow> string" where
  "format_score e sc =
     (let s = strip_zeros (std_to_string e sc) in
      if s \<noteq> [] \<and> last s = CHR ''.'' then butlast s else s)"

definition isAdmin :: "world \<Rightarrow> bool" where
  "isAdmin w = (case m_admin_sock (self w) of None \<Rightarrow> False
     | Some i \<Rightarrow> lockable (peers w) i \<and> i = cur w)"

definition getTotalKeys :: "world \<Rightarrow> int \<Rightarrow> nat" where
  "getTotalKeys w d =
     (if d < 0 \<or> d \<ge> int DB_COUNT then 0
      else sum_list (map (\<lambda>i. let sh = m_dbs (self w) (nat d) i in
             length (store sh) + length (hashes sh) + length (lists sh) + length (sets sh) + length (zset sh))
           [0..<SHARD_COUNT]))"

subsection \<open>Vocabulary of the handlers\<close>

definition auth_required :: RespValue where
  "auth_required = error ''ERR authentication required''"

text \<open>The check \<open>getClientlevel() < 1\<close> that opens a handler.\<close>

definition require_auth :: "world \<Rightarrow> reply \<Rightarrow> reply" where
  "require_auth w r = (if m_auth_level (sock w) < 1 then Inr (auth_required, w) else r)"

text \<open>\<open>args[i].str\<close>\<close>

definition arg :: "RespValue list \<Rightarrow> nat \<Rightarrow> string res" where
  "arg args i = (if i < length args then Inr (str (args ! i)) else Inl OutOfBounds)"

text \<open>The conversion of a \<open>size_t\<close> to a 32-bit \<open>int\<close>.\<close>

definition as_int32 :: "nat \<Rightarrow> int" where
  "as_int32 n = (int n + 2 ^ 31) mod 2 ^ 32 - 2 ^ 31"

lemma as_int32_small: "n < 2 ^ 31 \<Longrightarrow> as_int32 n = int n"
  by (simp add: as_int32_def)

definition quoted :: "string \<Rightarrow> string" where
  "quoted s = [CHR 0x27] @ s @ [CHR 0x27]"

definition wrong_args :: "string \<Rightarrow> RespValue" where
  "wrong_args cmd = error (''ERR wrong number of arguments for '' @ quoted cmd)"

abbreviation ok_reply :: RespValue where
  "ok_reply \<equiv> simple_string ''OK''"

lemma arg_lt [simp]: "i < length args \<Longrightarrow> arg args i = Inr (str (args ! i))"
  by (simp add: arg_def)

lemma arg_ge: "\<not> i < length args \<Longrightarrow> arg args i = Inl OutOfBounds"
  by (simp add: arg_def)

lemma require_auth_ok [simp]: "1 \<le> m_auth_level (sock w) \<Longrightarrow> require_auth w r = r"
  by (simp add: require_auth_def)

lemma require_auth_no: "m_auth_level (sock w) < 1 \<Longrightarrow> require_auth w r = Inr (auth_required, w)"
  by (simp add: require_auth_def)

lemma getShard_ok [simp]: "db_valid w \<Longrightarrow> getShard e w key = Inr (shard_of e w key)"
  by (simp add: getShard_def)

lemma sock_frame [simp]:
  "sock (mod_self f w) = sock w" "sock (mod_shard e k g w) = sock w" "sock (put_shard d i g w) = sock w"
  "cur (mod_self f w) = cur w" "cur (mod_shard e k g w) = cur w" "cur (put_shard d i g w) = cur w"
  "sock (mod_sock h w) = h (sock w)" "self (mod_sock h w) = self w" "cur (mod_sock h w) = cur w"
  by (simp_all add: sock_def mod_self_def mod_shard_def put_shard_def mod_sock_def)

lemma self_frame [simp]:
  "cfg (mod_self f w) = cfg w" "cfg (mod_shard e k g w) = cfg w" "cfg (put_shard d i g w) = cfg w" "cfg (mod_sock h w) = cfg w"
  "peers (mod_self f w) = peers w" "peers (mod_shard e k g w) = peers w" "peers (put_shard d i g w) = peers w" "peers (mod_sock h w) = peers w"
  "disk (mod_self f w) = disk w" "disk (mod_shard e k g w) = disk w" "disk (put_shard d i g w) = disk w" "disk (mod_sock h w) = disk w"
  by (simp_all add: mod_self_def mod_shard_def put_shard_def mod_sock_def)

lemma db_valid_frame [simp]:
  "db_valid (mod_self f w) = db_valid w" "db_valid (mod_shard e k g w) = db_valid w" "db_valid (put_shard d i g w) = db_valid w"
  by (simp_all add: db_valid_def)

subsection \<open>The databases as finite maps\<close>

text \<open>
  \<open>view get e w d k\<close> is what the map \<open>get\<close> (strings, hashes, lists, ...) of database \<open>d\<close> holds
  under \<open>k\<close>, looked up in the shard that \<open>k\<close> hashes to. The locale states what makes a
  record field such a map; its lemmas say that writing a key in its shard is a map update that
  disturbs no other key, database or field.
\<close>

definition view :: "(DataShard \<Rightarrow> 'v hmap) \<Rightarrow> env \<Rightarrow> world \<Rightarrow> nat \<Rightarrow> string \<Rightarrow> 'v option" where
  "view get e w d k = map_of (get (m_dbs (self w) d (getShardIndex e k))) k"

locale shard_field =
  fixes get :: "DataShard \<Rightarrow> 'v hmap"
    and upd :: "('v hmap \<Rightarrow> 'v hmap) \<Rightarrow> DataShard \<Rightarrow> DataShard"
  assumes get_upd: "get (upd f sh) = f (get sh)"
begin

lemma view_cur: "map_of (get (shard_of e w k)) k = view get e w (cur_db w) k"
  by (simp add: view_def shard_of_def)

lemma view_insert:
  "view get e (mod_shard e k (upd (insert_or_assign k v)) w)
     = (view get e w)(cur_db w := (view get e w (cur_db w))(k \<mapsto> v))"
  by (intro ext) (auto simp: view_def mod_shard_def put_shard_def mod_self_def get_upd hmap_simps)

lemma view_erase:
  "view get e (mod_shard e k (upd (erase k)) w)
     = (view get e w)(cur_db w := (view get e w (cur_db w))(k := None))"
  by (intro ext) (auto simp: view_def mod_shard_def put_shard_def mod_self_def get_upd hmap_simps)

lemma view_other:
  "(\<And>sh. get (f sh) = get sh) \<Longrightarrow> view get e (mod_shard e k f w) = view get e w"
  by (intro ext) (simp add: view_def mod_shard_def put_shard_def mod_self_def)

end

interpretation strs: shard_field store store_update by unfold_locales simp
interpretation hshs: shard_field hashes hashes_update by unfold_locales simp
interpretation lsts: shard_field lists lists_update by unfold_locales simp
interpretation sets: shard_field sets sets_update by unfold_locales simp
interpretation zsts: shard_field zset zset_update by unfold_locales simp
interpretation zscs: shard_field zset_score zset_score_update by unfold_locales simp

lemma view_mod_sock [simp]: "view get e (mod_sock f w) = view get e w"
  by (intro ext) (simp add: view_def)

lemmas view_simps = strs.view_insert strs.view_erase hshs.view_insert hshs.view_erase lsts.view_insert
  lsts.view_erase sets.view_insert sets.view_erase zsts.view_insert zsts.view_erase zscs.view_insert
  zscs.view_erase
lemmas view_frames = strs.view_other hshs.view_other lsts.view_other sets.view_other zsts.view_other
  zscs.view_other
lemmas view_curs = strs.view_cur hshs.view_cur lsts.view_cur sets.view_cur zsts.view_cur zscs.view_cur

subsection \<open>The invariant of the data\<close>

definition vals_ok :: "('v \<Rightarrow> bool) \<Rightarrow> 'v hmap \<Rightarrow> bool" where
  "vals_ok P m \<longleftrightarrow> hmap_ok m \<and> (\<forall>k v. map_of m k = Some v \<longrightarrow> P v)"

lemma vals_ok_ins [simp]: "vals_ok P m \<Longrightarrow> P v \<Longrightarrow> vals_ok P (insert_or_assign k v m)"
  unfolding vals_ok_def by (metis fun_upd_other fun_upd_same hm.find_ins hm.ok_ins option.inject)

lemma vals_ok_del [simp]: "vals_ok P m \<Longrightarrow> vals_ok P (erase k m)"
  unfolding vals_ok_def by (metis fun_upd_other fun_upd_same hm.find_del hm.ok_del option.distinct(1))

lemma vals_okD: "vals_ok P m \<Longrightarrow> map_of m k = Some v \<Longrightarrow> P v"
  by (simp add: vals_ok_def)

lemma vals_ok_Nil [simp]: "vals_ok P []"
  by (simp add: vals_ok_def)

lemmas [simp] = hm.ok_ins hm.ok_del

definition shard_ok :: "DataShard \<Rightarrow> bool" where
  "shard_ok sh \<longleftrightarrow> hmap_ok (store sh) \<and> vals_ok hmap_ok (hashes sh) \<and> hmap_ok (lists sh) \<and>
     vals_ok distinct (sets sh) \<and> hmap_ok (zset sh) \<and> vals_ok hmap_ok (zset_score sh)"

definition dbs_ok :: "world \<Rightarrow> bool" where
  "dbs_ok w \<longleftrightarrow> (\<forall>d i. shard_ok (m_dbs (self w) d i))"

lemma dbs_ok_mod:
  "dbs_ok w \<Longrightarrow> (\<And>sh. shard_ok sh \<Longrightarrow> shard_ok (f sh)) \<Longrightarrow> dbs_ok (mod_shard e k f w)"
  by (auto simp: dbs_ok_def mod_shard_def put_shard_def mod_self_def)

lemma dbs_ok_sock [simp]: "dbs_ok (mod_sock f w) = dbs_ok w"
  by (simp add: dbs_ok_def)

lemma shard_ok_empty [simp]: "shard_ok shard_empty"
  by (simp add: shard_ok_def shard_empty_def)

end
