(* ===== verification/StringCommands.thy ===== *)
theory StringCommands
  imports ServerData
begin

text \<open>
  The string commands of \<open>src/redis_command/command/command_handler_table.cpp\<close>: SET, GET, MSET,
  MGET, GETSET, APPEND, SETNX, EXISTS, DEL, INCR, INCRBY, STRLEN and TYPE. A time point is in
  nanoseconds; adding a duration to it that leaves 64 bits is \<open>SignedOverflow\<close>.
\<close>

subsection \<open>Handlers\<close>

abbreviation wrongtype :: RespValue where
  "wrongtype \<equiv> error ''WRONGTYPE Operation against a key holding the wrong kind of value''"

definition put_string :: "env \<Rightarrow> string \<Rightarrow> StoreData \<Rightarrow> world \<Rightarrow> world" where
  "put_string e key d w = mod_shard e key (store_update (insert_or_assign key d)) w"

definition del_string :: "env \<Rightarrow> string \<Rightarrow> world \<Rightarrow> world" where
  "del_string e key w = mod_shard e key (store_update (erase key)) w"

text \<open>
  \<open>now + std::chrono::seconds(n)\<close> (\<open>unit\<close> \<open>10 ^ 9\<close>) and the same for milliseconds: the duration is
  first converted to nanoseconds.
\<close>

definition deadline :: "int \<Rightarrow> int \<Rightarrow> int \<Rightarrow> int res" where
  "deadline now unit n = bnd (chk64 (n * unit)) (\<lambda>d. chk64 (now + d))"

definition set_expiry :: "env \<Rightarrow> int \<Rightarrow> string \<Rightarrow> (RespValue + int option) res" where
  "set_expiry e unit s =
     (case stoll s of None \<Rightarrow> Inr (Inl (error ''ERR value is not a integer or out of range''))
      | Some n \<Rightarrow>
          if n < 0 then Inr (Inl (error ''ERR value can't be nagative''))
          else bnd (deadline (clock e 0) unit n) (\<lambda>t. Inr (Inr (Some t))))"

definition handleSET :: handler where
  "handleSET e args w = require_auth w
     (if length args < 3 then Inr (wrong_args ''SET'', w)
      else bnd (arg args 1) (\<lambda>key. bnd (arg args 2) (\<lambda>v. bnd (getShard e w key) (\<lambda>sh.
        bnd (if length args \<ge> 5 then
               let subcmd = toupper (str (args ! 3)) in
               if subcmd = ''EX'' then set_expiry e 1000000000 (str (args ! 4))
               else if subcmd = ''PX'' then set_expiry e 1000000 (str (args ! 4))
               else Inr (Inr None)
             else Inr (Inr None)) (\<lambda>timepoint.
          case timepoint of Inl err \<Rightarrow> Inr (err, w)
          | Inr t \<Rightarrow> Inr (ok_reply, put_string e key \<lparr>val = v, expire = t\<rparr> w))))))"

definition handleGET :: handler where
  "handleGET e args w = require_auth w
     (if length args < 2 then Inr (wrong_args ''GET'', w)
      else bnd (arg args 1) (\<lambda>key. bnd (getShard e w key) (\<lambda>sh.
        case map_of (store sh) key of None \<Rightarrow> Inr (null_bulk, w)
        | Some d \<Rightarrow>
            if is_expired (clock e 0) d then Inr (null_bulk, del_string e key w)
            else Inr (bulk_string (val d), w))))"

fun mset_loop :: "env \<Rightarrow> RespValue list \<Rightarrow> world \<Rightarrow> world res" where
  "mset_loop e [] w = Inr w"
| "mset_loop e [k] w = Inl OutOfBounds"
| "mset_loop e (k # v # rest) w =
     bnd (getShard e w (str k)) (\<lambda>_. mset_loop e rest (put_string e (str k) \<lparr>val = str v, expire = None\<rparr> w))"

definition handleMSET :: handler where
  "handleMSET e args w = require_auth w
     (bnd (mset_loop e (drop 1 args) w) (\<lambda>w'. Inr (ok_reply, w')))"

text \<open>\<open>i\<close> counts the rounds, so that every \<open>is_expired()\<close> has its own clock reading.\<close>

fun mget_loop :: "env \<Rightarrow> nat \<Rightarrow> RespValue list \<Rightarrow> world \<Rightarrow> (RespValue list \<times> world) res" where
  "mget_loop e i [] w = Inr ([], w)"
| "mget_loop e i (k # ks) w =
     bnd (getShard e w (str k)) (\<lambda>sh.
       let (r, w1) = (case map_of (store sh) (str k) of None \<Rightarrow> (null_bulk, w)
                      | Some d \<Rightarrow> if is_expired (clock e i) d then (null_bulk, del_string e (str k) w)
                                  else (bulk_string (val d), w))
       in bnd (mget_loop e (Suc i) ks w1) (\<lambda>(rs, w2). Inr (r # rs, w2)))"

definition handleMGET :: handler where
  "handleMGET e args w = require_auth w
     (bnd (mget_loop e 0 (drop 1 args) w) (\<lambda>(rs, w'). Inr (array rs, w')))"

definition handleGETSET :: handler where
  "handleGETSET e args w = require_auth w
     (bnd (arg args 1) (\<lambda>key. bnd (arg args 2) (\<lambda>v. bnd (getShard e w key) (\<lambda>sh.
       case map_of (store sh) key of
         None \<Rightarrow> Inr (bulk_string v, put_string e key \<lparr>val = v, expire = None\<rparr> w)
       | Some d \<Rightarrow> Inr (bulk_string (val d), put_string e key \<lparr>val = v, expire = expire d\<rparr> w)))))"

definition handleAPPEND :: handler where
  "handleAPPEND e args w = require_auth w
     (bnd (arg args 1) (\<lambda>key. bnd (arg args 2) (\<lambda>v. bnd (getShard e w key) (\<lambda>sh.
       let d' = (case map_of (store sh) key of None \<Rightarrow> \<lparr>val = v, expire = None\<rparr>
                 | Some d \<Rightarrow> \<lparr>val = val d @ v, expire = expire d\<rparr>)
       in Inr (integer (int (length (val d'))), put_string e key d' w)))))"

definition handleSETNX :: handler where
  "handleSETNX e args w = require_auth w
     (bnd (arg args 1) (\<lambda>key. bnd (arg args 2) (\<lambda>v. bnd (getShard e w key) (\<lambda>sh.
       case map_of (store sh) key of
         None \<Rightarrow> Inr (integer 1, put_string e key \<lparr>val = v, expire = None\<rparr> w)
       | Some _ \<Rightarrow> Inr (integer 0, w)))))"

definition key_in_shard :: "DataShard \<Rightarrow> string \<Rightarrow> bool" where
  "key_in_shard sh key \<longleftrightarrow> map_of (store sh) key \<noteq> None \<or> map_of (hashes sh) key \<noteq> None \<or>
     map_of (lists sh) key \<noteq> None \<or> map_of (sets sh) key \<noteq> None \<or> map_of (zset sh) key \<noteq> None"

fun exists_loop :: "env \<Rightarrow> RespValue list \<Rightarrow> world \<Rightarrow> nat res" where
  "exists_loop e [] w = Inr 0"
| "exists_loop e (k # ks) w =
     bnd (getShard e w (str k)) (\<lambda>sh.
       bnd (exists_loop e ks w) (\<lambda>n. Inr (if key_in_shard sh (str k) then Suc n else n)))"

definition handleEXISTS :: handler where
  "handleEXISTS e args w = require_auth w
     (bnd (exists_loop e (drop 1 args) w) (\<lambda>n. Inr (integer (int n), w)))"

fun del_loop :: "env \<Rightarrow> RespValue list \<Rightarrow> world \<Rightarrow> (nat \<times> world) res" where
  "del_loop e [] w = Inr (0, w)"
| "del_loop e (k # ks) w =
     bnd (getShard e w (str k)) (\<lambda>sh.
       if map_of (store sh) (str k) \<noteq> None
       then bnd (del_loop e ks (del_string e (str k) w)) (\<lambda>(n, w'). Inr (Suc n, w'))
       else del_loop e ks w)"

definition handleDEL :: handler where
  "handleDEL e args w = require_auth w
     (if length args < 2 then Inr (wrong_args ''DEL'', w)
      else bnd (del_loop e (drop 1 args) w) (\<lambda>(n, w'). Inr (integer (int n), w')))"

definition incr_by :: "env \<Rightarrow> string \<Rightarrow> int \<Rightarrow> world \<Rightarrow> reply" where
  "incr_by e key increment w =
     bnd (getShard e w key) (\<lambda>sh.
       case map_of (store sh) key of
         Some d \<Rightarrow>
           (case stoll (val d) of None \<Rightarrow> Inr (error ''ERR value is not a integer or out of range'', w)
            | Some v \<Rightarrow> bnd (chk64 (v + increment)) (\<lambda>v'.
                Inr (integer v', put_string e key \<lparr>val = to_string v', expire = expire d\<rparr> w)))
       | None \<Rightarrow> bnd (chk64 (0 + increment)) (\<lambda>v'.
           Inr (integer v', put_string e key \<lparr>val = to_string v', expire = None\<rparr> w)))"

definition handleINCR :: handler where
  "handleINCR e args w = require_auth w (bnd (arg args 1) (\<lambda>key. incr_by e key 1 w))"

definition handleINCRBY :: handler where
  "handleINCRBY e args w = require_auth w
     (bnd (arg args 1) (\<lambda>key. bnd (arg args 2) (\<lambda>s.
       case stoll s of None \<Rightarrow> Inr (error ''ERR value is not an integer or out of range'', w)
       | Some increment \<Rightarrow> incr_by e key increment w)))"

definition handleSTRLEN :: handler where
  "handleSTRLEN e args w = require_auth w
     (bnd (arg args 1) (\<lambda>key. bnd (getShard e w key) (\<lambda>sh.
       case map_of (store sh) key of
         None \<Rightarrow>
           if map_of (hashes sh) key \<noteq> None \<or> map_of (lists sh) key \<noteq> None \<or> map_of (zset sh) key \<noteq> None \<or>
              map_of (sets sh) key \<noteq> None then Inr (wrongtype, w)
           else Inr (integer 0, w)
       | Some d \<Rightarrow>
           if is_expired (clock e 0) d then Inr (integer 0, del_string e key w)
           else Inr (integer (int (length (val d))), w))))"

definition handleTYPE :: handler where
  "handleTYPE e args w = require_auth w
     (bnd (arg args 1) (\<lambda>key. bnd (getShard e w key) (\<lambda>sh.
       if map_of (store sh) key \<noteq> None then Inr (bulk_string ''string'', w)
       else if map_of (hashes sh) key \<noteq> None then Inr (bulk_string ''hash'', w)
       else if map_of (lists sh) key \<noteq> None then Inr (bulk_string ''list'', w)
       else if map_of (zset sh) key \<noteq> None then Inr (bulk_string ''zset'', w)
       else if map_of (sets sh) key \<noteq> None then Inr (bulk_string ''set'', w)
       else Inr (null_bulk, w))))"

subsection \<open>The string map under the handlers\<close>

text \<open>The strings of the current database, as one finite map.\<close>

abbreviation strings :: "env \<Rightarrow> world \<Rightarrow> string \<Rightarrow> StoreData option" where
  "strings e w \<equiv> view store e w (cur_db w)"

lemma sock_put_string [simp]:
  "sock (put_string e k d w) = sock w" "sock (del_string e k w) = sock w"
  "db_valid (put_string e k d w) = db_valid w" "db_valid (del_string e k w) = db_valid w"
  by (simp_all add: put_string_def del_string_def)

lemma view_put_string:
  "view store e (put_string e k d w) = (view store e w)(cur_db w := (strings e w)(k \<mapsto> d))"
  "view store e (del_string e k w) = (view store e w)(cur_db w := (strings e w)(k := None))"
  by (simp_all add: put_string_def del_string_def strs.view_insert strs.view_erase)

text \<open>What every string handler leaves alone: all other containers, the connections, the modules.\<close>

definition only_strings :: "world \<Rightarrow> world \<Rightarrow> bool" where
  "only_strings w w' \<longleftrightarrow> (\<exists>f. w' = w\<lparr>self := (self w)\<lparr>m_dbs := (\<lambda>d i. (m_dbs (self w) d i)\<lparr>store := f d i\<rparr>)\<rparr>\<rparr>)"

lemma only_strings_refl [simp]: "only_strings w w"
  unfolding only_strings_def by (rule exI [of _ "\<lambda>d i. store (m_dbs (self w) d i)"]) simp

lemma store_update_const: "store_update g sh = sh\<lparr>store := g (store sh)\<rparr>"
  by (cases sh) simp

lemma only_strings_upd: "only_strings w (mod_shard e k (store_update g) w)"
proof -
  let ?f = "\<lambda>d i. if d = cur_db w \<and> i = getShardIndex e k then g (store (m_dbs (self w) d i))
        else store (m_dbs (self w) d i)"
  have "(m_dbs (self w))(cur_db w := (m_dbs (self w) (cur_db w))(getShardIndex e k :=
          store_update g (m_dbs (self w) (cur_db w) (getShardIndex e k))))
      = (\<lambda>d i. (m_dbs (self w) d i)\<lparr>store := ?f d i\<rparr>)"
    by (intro ext) (simp add: store_update_const [of g, symmetric])
  then show ?thesis
    unfolding only_strings_def mod_shard_def put_shard_def mod_self_def by (intro exI [of _ ?f]) simp
qed

lemma only_strings_put [simp]: "only_strings w (put_string e k d w)" "only_strings w (del_string e k w)"
  by (simp_all add: put_string_def del_string_def only_strings_upd)

lemma only_strings_trans: "only_strings w w' \<Longrightarrow> only_strings w' w'' \<Longrightarrow> only_strings w w''"
  unfolding only_strings_def by auto

subsection \<open>Sharded strings implement one flat map\<close>

text \<open>The commands on single strings, and what they do to a flat map at time \<open>now\<close>.\<close>

datatype string_op =
    OpGET string
  | OpSET string string
  | OpGETSET string string
  | OpAPPEND string string
  | OpSETNX string string
  | OpINCRBY string int

definition plain :: "string \<Rightarrow> StoreData" where
  "plain v = \<lparr>val = v, expire = None\<rparr>"

fun string_spec ::
  "int \<Rightarrow> string_op \<Rightarrow> (string \<Rightarrow> StoreData option) \<Rightarrow> RespValue \<times> (string \<Rightarrow> StoreData option)" where
  "string_spec now (OpGET k) m =
     (case m k of None \<Rightarrow> (null_bulk, m)
      | Some d \<Rightarrow> if is_expired now d then (null_bulk, m(k := None)) else (bulk_string (val d), m))"
| "string_spec now (OpSET k v) m = (ok_reply, m(k \<mapsto> plain v))"
| "string_spec now (OpGETSET k v) m =
     (case m k of None \<Rightarrow> (bulk_string v, m(k \<mapsto> plain v))
      | Some d \<Rightarrow> (bulk_string (val d), m(k \<mapsto> d\<lparr>val := v\<rparr>)))"
| "string_spec now (OpAPPEND k v) m =
     (case m k of None \<Rightarrow> (integer (int (length v)), m(k \<mapsto> plain v))
      | Some d \<Rightarrow> (integer (int (length (val d @ v))), m(k \<mapsto> d\<lparr>val := val d @ v\<rparr>)))"
| "string_spec now (OpSETNX k v) m =
     (case m k of None \<Rightarrow> (integer 1, m(k \<mapsto> plain v)) | Some d \<Rightarrow> (integer 0, m))"
| "string_spec now (OpINCRBY k n) m =
     (case m k of None \<Rightarrow> (integer n, m(k \<mapsto> plain (to_string n)))
      | Some d \<Rightarrow>
          (case stoll (val d) of None \<Rightarrow> (error ''ERR value is not a integer or out of range'', m)
           | Some v \<Rightarrow> (integer (v + n), m(k \<mapsto> d\<lparr>val := to_string (v + n)\<rparr>))))"

text \<open>The same operation as a command sent to the server.\<close>

fun string_cmd :: "string_op \<Rightarrow> handler \<times> RespValue list" where
  "string_cmd (OpGET k) = (handleGET, map bulk_string [''GET'', k])"
| "string_cmd (OpSET k v) = (handleSET, map bulk_string [''SET'', k, v])"
| "string_cmd (OpGETSET k v) = (handleGETSET, map bulk_string [''GETSET'', k, v])"
| "string_cmd (OpAPPEND k v) = (handleAPPEND, map bulk_string [''APPEND'', k, v])"
| "string_cmd (OpSETNX k v) = (handleSETNX, map bulk_string [''SETNX'', k, v])"
| "string_cmd (OpINCRBY k n) = (handleINCRBY, map bulk_string [''INCRBY'', k, to_string n])"

text \<open>The one operation that can leave 64 bits must not.\<close>

fun op_in_range :: "string_op \<Rightarrow> (string \<Rightarrow> StoreData option) \<Rightarrow> bool" where
  "op_in_range (OpINCRBY k n) m \<longleftrightarrow> int64_ok n \<and>
     (case m k of None \<Rightarrow> True
      | Some d \<Rightarrow> (case stoll (val d) of None \<Rightarrow> True | Some v \<Rightarrow> int64_ok (v + n)))"
| "op_in_range _ m \<longleftrightarrow> True"

definition run_string_op :: "env \<Rightarrow> string_op \<Rightarrow> world \<Rightarrow> reply" where
  "run_string_op e oper w = (case string_cmd oper of (h, args) \<Rightarrow> h e args w)"

lemma strings_put:
  "view store e (put_string e k d w) (cur_db w) = (strings e w)(k \<mapsto> d)"
  "view store e (del_string e k w) (cur_db w) = (strings e w)(k := None)"
  by (simp_all add: view_put_string)

lemma shard_strings: "map_of (store (shard_of e w k)) k = strings e w k"
  by (rule strs.view_cur)

lemmas string_handlers = handleSET_def handleGET_def handleGETSET_def handleAPPEND_def handleSETNX_def
  handleINCRBY_def incr_by_def

lemma plain_upd: "(d :: StoreData)\<lparr>val := v\<rparr> = \<lparr>val = v, expire = expire d\<rparr>"
  by (cases d) simp

lemma run_string_op_spec:
  assumes "1 \<le> m_auth_level (sock w)" and "db_valid w" and "op_in_range oper (strings e w)"
  shows "\<exists>w'. run_string_op e oper w = Inr (fst (string_spec (clock e 0) oper (strings e w)), w') \<and>
    strings e w' = snd (string_spec (clock e 0) oper (strings e w)) \<and> only_strings w w' \<and>
    (\<forall>d. d \<noteq> cur_db w \<longrightarrow> view store e w' d = view store e w d)"
  using assms
  by (cases oper)
    (auto simp: run_string_op_def string_handlers shard_strings strings_put view_put_string plain_def plain_upd
      split: option.splits)

subsection \<open>Several keys\<close>

lemma mset_loop_spec:
  assumes "db_valid w"
  shows "mset_loop e args w =
    (if even (length args)
     then Inr (fold (\<lambda>(k, v). put_string e k (plain v)) (map (\<lambda>i. (str (args ! (2 * i)), str (args ! (2 * i + 1)))) [0..<length args div 2]) w)
     else Inl OutOfBounds)"
  using assms
proof (induction e args w rule: mset_loop.induct)
  case (3 e k v rest w)
  have "map (\<lambda>i. (str ((k # v # rest) ! (2 * i)), str ((k # v # rest) ! (2 * i + 1)))) [0..<Suc (length rest div 2)]
    = (str k, str v) # map (\<lambda>i. (str (rest ! (2 * i)), str (rest ! (2 * i + 1)))) [0..<length rest div 2]"
    by (simp add: upt_conv_Cons map_Suc_upt [symmetric] del: upt_Suc)
  with 3 show ?case by (simp add: plain_def del: upt_Suc)
qed simp_all

lemma strings_fold_put:
  "strings e (fold (\<lambda>(k, v). put_string e k (plain v)) kvs w) = strings e w ++ map_of (rev (map (\<lambda>(k, v). (k, plain v)) kvs))"
  "sock (fold (\<lambda>(k, v). put_string e k (plain v)) kvs w) = sock w"
  by (induction kvs arbitrary: w) (auto simp: view_put_string map_add_def fun_eq_iff split: option.splits)

lemma del_loop_spec:
  assumes "db_valid w"
  shows "\<exists>w'. del_loop e ks w = Inr (card {k \<in> str ` set ks. strings e w k \<noteq> None}, w') \<and>
    strings e w' = (\<lambda>k. if k \<in> str ` set ks then None else strings e w k) \<and> only_strings w w'"
  using assms
proof (induction ks arbitrary: w)
  case Nil
  then show ?case by simp
next
  case (Cons a ks)
  let ?S = "\<lambda>m. {k \<in> str ` set ks. m k \<noteq> None}"
  show ?case
  proof (cases "strings e w (str a) = None")
    case True
    have "{k \<in> str ` set (a # ks). strings e w k \<noteq> None} = ?S (strings e w)" using True by auto
    then show ?thesis using Cons True by (fastforce simp: shard_strings fun_eq_iff)
  next
    case False
    let ?w = "del_string e (str a) w"
    have eq: "{k \<in> str ` set (a # ks). strings e w k \<noteq> None} = insert (str a) (?S (strings e ?w))"
      using False by (auto simp: strings_put)
    have "str a \<notin> ?S (strings e ?w)" by (simp add: strings_put)
    then have c: "card {k \<in> str ` set (a # ks). strings e w k \<noteq> None} = Suc (card (?S (strings e ?w)))"
      unfolding eq by simp
    obtain w' where "del_loop e ks ?w = Inr (card (?S (strings e ?w)), w')"
      "strings e w' = (\<lambda>k. if k \<in> str ` set ks then None else strings e ?w k)" "only_strings ?w w'"
      using Cons.IH [of ?w] Cons.prems by auto
    then show ?thesis using False Cons.prems c only_strings_trans [of w ?w w']
      by (auto simp: shard_strings strings_put fun_eq_iff)
  qed
qed

subsection \<open>Properties\<close>

text \<open>C2. Sharding is invisible: each of GET, SET, GETSET, APPEND, SETNX and INCRBY, run by an
  authenticated client, replies and changes the strings exactly as the same operation on one flat
  map from keys to values does (expiry included), and leaves every other database, data type,
  connection and module as it was.\<close>

theorem strings_refine_flat_map:
  assumes "1 \<le> m_auth_level (sock w)" and "db_valid w" and "op_in_range oper (strings e w)"
  shows "\<exists>w'. run_string_op e oper w = Inr (fst (string_spec (clock e 0) oper (strings e w)), w') \<and>
    strings e w' = snd (string_spec (clock e 0) oper (strings e w)) \<and> only_strings w w' \<and>
    (\<forall>d. d \<noteq> cur_db w \<longrightarrow> view store e w' d = view store e w d)"
  using assms by (rule run_string_op_spec)

definition demo_world :: world where
  "demo_world = mod_sock (m_auth_level_update (\<lambda>_. 1)) (new_world demo_config)"

lemma demo_world_ok [simp]: "m_auth_level (sock demo_world) = 1" "db_valid demo_world" "m_client_db_id (sock demo_world) = 0"
  by (simp_all add: demo_world_def sock_def mod_sock_def new_world_def new_socket_def db_valid_def DB_COUNT_def)

lemma demo_world_strings: "view store e demo_world d = Map.empty"
  by (rule ext) (simp add: view_def demo_world_def mod_sock_def new_world_def new_server_def shard_empty_def)

theorem strings_refine_flat_map_witness:
  "\<exists>w'. run_string_op demo_env (OpAPPEND ''k'' ''ab'') demo_world = Inr (integer 2, w') \<and>
     strings demo_env w' ''k'' = Some \<lparr>val = ''ab'', expire = None\<rparr>"
  using strings_refine_flat_map [of demo_world "OpAPPEND ''k'' ''ab''" demo_env]
  by (auto simp: demo_world_strings plain_def)

text \<open>SET with an expiry: the value is readable up to and including its deadline; the first GET
  after it answers null and removes the key.\<close>

theorem set_ex_expires:
  assumes "1 \<le> m_auth_level (sock w)" and "db_valid w"
    and "stoll (str n) = Some secs" and "0 \<le> secs"
    and "int64_ok (secs * 1000000000)" and "int64_ok (clock e 0 + secs * 1000000000)"
    and "toupper (str ex) = ''EX''" and "std_hash e' = std_hash e"
  shows "\<exists>w'. handleSET e [c, k, v, ex, n] w = Inr (ok_reply, w') \<and>
    (if clock e' 0 \<le> clock e 0 + secs * 1000000000
     then handleGET e' [c', k] w' = Inr (bulk_string (str v), w')
     else \<exists>w''. handleGET e' [c', k] w' = Inr (null_bulk, w'') \<and> strings e w'' (str k) = None)"
proof -
  let ?w = "put_string e (str k) \<lparr>val = str v, expire = Some (clock e 0 + secs * 1000000000)\<rparr> w"
  have v: "view store e' = view store e" "getShardIndex e' = getShardIndex e"
    using assms(8) by (auto simp: view_def getShardIndex_def fun_eq_iff)
  have d: "del_string e' = del_string e" by (auto simp: del_string_def mod_shard_def v fun_eq_iff)
  have "handleSET e [c, k, v, ex, n] w = Inr (ok_reply, ?w)"
    using assms by (simp add: handleSET_def set_expiry_def deadline_def)
  moreover have "map_of (store (shard_of e' ?w (str k))) (str k) = Some \<lparr>val = str v, expire = Some (clock e 0 + secs * 1000000000)\<rparr>"
    by (simp add: shard_strings v strings_put)
  ultimately show ?thesis using assms(1,2)
    by (simp add: handleGET_def is_expired_def d view_put_string)
qed

theorem set_ex_expires_witness:
  "\<exists>w'. handleSET demo_env (map bulk_string [''SET'', ''k'', ''v'', ''ex'', ''5'']) demo_world = Inr (ok_reply, w') \<and>
     handleGET demo_env (map bulk_string [''GET'', ''k'']) w' = Inr (bulk_string ''v'', w')"
proof -
  have "toupper ''ex'' = ''EX''" "stoll ''5'' = Some 5" by code_simp+
  then show ?thesis
    using set_ex_expires [of demo_world "bulk_string ''5''" 5 demo_env "bulk_string ''ex''" demo_env
        "bulk_string ''SET''" "bulk_string ''k''" "bulk_string ''v''" "bulk_string ''GET''"]
    by (simp add: demo_env_def int64_ok_def)
qed

text \<open>MSET writes all pairs, a later pair winning over an earlier one with the same key, and
  drops their expiry; with an odd number of arguments after the name it reads past the argument
  vector, which the table's validator must prevent.\<close>

theorem mset_writes_pairs:
  assumes "1 \<le> m_auth_level (sock w)" and "db_valid w"
  shows "(\<forall>kvs. \<exists>w'. handleMSET e (c # concat (map (\<lambda>(k, v). [bulk_string k, bulk_string v]) kvs)) w = Inr (ok_reply, w') \<and>
      strings e w' = strings e w ++ map_of (rev (map (\<lambda>(k, v). (k, \<lparr>val = v, expire = None\<rparr>)) kvs))) \<and>
    (odd (length rest) \<longrightarrow> handleMSET e (c # rest) w = Inl OutOfBounds)"
proof (intro conjI allI)
  fix kvs :: "(string \<times> string) list"
  have len: "length (concat (map (\<lambda>(k, v). [bulk_string k, bulk_string v]) kvs)) = 2 * length kvs"
    by (induction kvs) auto
  have "map (\<lambda>i. (str (concat (map (\<lambda>(k, v). [bulk_string k, bulk_string v]) kvs) ! (2 * i)),
      str (concat (map (\<lambda>(k, v). [bulk_string k, bulk_string v]) kvs) ! (2 * i + 1)))) [0..<length kvs] = kvs"
    by (induction kvs) (auto simp: upt_conv_Cons map_Suc_upt [symmetric] o_def simp del: upt_Suc)
  then show "\<exists>w'. handleMSET e (c # concat (map (\<lambda>(k, v). [bulk_string k, bulk_string v]) kvs)) w = Inr (ok_reply, w') \<and>
      strings e w' = strings e w ++ map_of (rev (map (\<lambda>(k, v). (k, \<lparr>val = v, expire = None\<rparr>)) kvs))"
    using assms strings_fold_put(1) [of e kvs w] by (simp add: handleMSET_def mset_loop_spec len plain_def)
next
  show "odd (length rest) \<longrightarrow> handleMSET e (c # rest) w = Inl OutOfBounds"
    using assms by (simp add: handleMSET_def mset_loop_spec)
qed

theorem mset_writes_pairs_witness:
  "handleMSET demo_env (map bulk_string [''MSET'', ''k'']) demo_world = Inl OutOfBounds"
  using mset_writes_pairs [of demo_world demo_env "bulk_string ''MSET''" "[bulk_string ''k'']"] by simp

text \<open>DEL removes the named strings and replies with the number of distinct names that were
  strings; a key of any other type is neither removed nor counted.\<close>

theorem del_removes_strings:
  assumes "1 \<le> m_auth_level (sock w)" and "db_valid w" and "ks \<noteq> []"
  shows "\<exists>w'. handleDEL e (c # ks) w = Inr (integer (int (card {k \<in> str ` set ks. strings e w k \<noteq> None})), w') \<and>
    strings e w' = (\<lambda>k. if k \<in> str ` set ks then None else strings e w k) \<and> only_strings w w'"
  using del_loop_spec [OF assms(2), of e ks] assms by (auto simp: handleDEL_def Suc_le_eq)

theorem del_removes_strings_witness:
  "\<exists>w'. handleDEL demo_env (map bulk_string [''DEL'', ''a'', ''a'']) demo_world = Inr (integer 0, w')"
  using del_removes_strings [of demo_world "map bulk_string [''a'', ''a'']" demo_env "bulk_string ''DEL''"]
  by (auto simp: demo_world_strings)

text \<open>INCR on the largest 64-bit value overflows a signed integer.\<close>

theorem incr_overflows:
  assumes "1 \<le> m_auth_level (sock w)" and "db_valid w"
    and "strings e w (str k) = Some d" and "stoll (val d) = Some (2 ^ 63 - 1)"
  shows "handleINCR e [c, k] w = Inl SignedOverflow"
  using assms by (simp add: handleINCR_def incr_by_def shard_strings chk64_def int64_ok_def)

theorem incr_overflows_witness:
  "handleINCR demo_env (map bulk_string [''INCR'', ''n''])
     (put_string demo_env ''n'' \<lparr>val = ''9223372036854775807'', expire = None\<rparr> demo_world) = Inl SignedOverflow"
proof -
  have "stoll ''9223372036854775807'' = Some (2 ^ 63 - 1)" by (simp add: cpp_text)
  then show ?thesis
    using incr_overflows [of "put_string demo_env ''n'' \<lparr>val = ''9223372036854775807'', expire = None\<rparr> demo_world"
        demo_env "bulk_string ''n''"] by (simp add: view_put_string)
qed

end
