(* ===== verification/HashCommands.thy ===== *)
theory HashCommands
  imports StringCommands
begin

text \<open>
  The hash commands of \<open>command_handler_table.cpp\<close>: HSET, HGET, HGETALL, HDEL, HLEN, HEXISTS, HKEYS
  and HVALS.
\<close>

subsection \<open>Handlers\<close>

definition put_hash :: "env \<Rightarrow> string \<Rightarrow> string hmap \<Rightarrow> world \<Rightarrow> world" where
  "put_hash e key h w = mod_shard e key (hashes_update (insert_or_assign key h)) w"

definition del_hash :: "env \<Rightarrow> string \<Rightarrow> world \<Rightarrow> world" where
  "del_hash e key w = mod_shard e key (hashes_update (erase key)) w"

fun hset_loop :: "env \<Rightarrow> string \<Rightarrow> RespValue list \<Rightarrow> world \<Rightarrow> (nat \<times> world) res" where
  "hset_loop e key [] w = Inr (0, w)"
| "hset_loop e key [f] w = Inl OutOfBounds"
| "hset_loop e key (f # v # rest) w =
     bnd (getShard e w key) (\<lambda>sh.
       let (new, h) = (case map_of (hashes sh) key of
              Some inner \<Rightarrow> (map_of inner (str f) = None, insert_or_assign (str f) (str v) inner)
            | None \<Rightarrow> (True, insert_or_assign (str f) (str v) []))
       in bnd (hset_loop e key rest (put_hash e key h w)) (\<lambda>(n, w').
            Inr (if new then Suc n else n, w')))"

definition handleHSET :: handler where
  "handleHSET e args w = require_auth w
     (if length args < 4 \<or> length args mod 2 \<noteq> 0 then Inr (wrong_args ''HSET'', w)
      else bnd (arg args 1) (\<lambda>key.
        bnd (hset_loop e key (drop 2 args) w) (\<lambda>(n, w'). Inr (integer (int n), w'))))"

definition handleHGET :: handler where
  "handleHGET e args w = require_auth w
     (if length args < 3 then Inr (wrong_args ''HGET'', w)
      else bnd (arg args 1) (\<lambda>key. bnd (arg args 2) (\<lambda>field. bnd (getShard e w key) (\<lambda>sh.
        case map_of (hashes sh) key of None \<Rightarrow> Inr (null_bulk, w)
        | Some h \<Rightarrow>
            (case map_of h field of None \<Rightarrow> Inr (null_bulk, w)
             | Some v \<Rightarrow> Inr (bulk_string v, w))))))"

definition handleHGETALL :: handler where
  "handleHGETALL e args w = require_auth w
     (bnd (arg args 1) (\<lambda>key. bnd (getShard e w key) (\<lambda>sh.
       case map_of (hashes sh) key of None \<Rightarrow> Inr (array [], w)
       | Some h \<Rightarrow> Inr (array (concat (map (\<lambda>f. [bulk_string f, bulk_string (the (map_of h f))]) (iter e (keys h)))), w))))"

text \<open>\<open>count += inner_map.erase(field)\<close>, for each field.\<close>

fun hdel_loop :: "string list \<Rightarrow> string hmap \<Rightarrow> nat \<times> string hmap" where
  "hdel_loop [] h = (0, h)"
| "hdel_loop (f # fs) h =
     (let (n, h') = hdel_loop fs (erase f h) in (if map_of h f = None then n else Suc n, h'))"

definition handleHDEL :: handler where
  "handleHDEL e args w = require_auth w
     (bnd (arg args 1) (\<lambda>key. bnd (getShard e w key) (\<lambda>sh.
       case map_of (hashes sh) key of None \<Rightarrow> Inr (integer 0, w)
       | Some h \<Rightarrow>
           let (n, h') = hdel_loop (map str (drop 2 args)) h
           in Inr (integer (int n), if h' = [] then del_hash e key w else put_hash e key h' w))))"

definition other_than_hash :: "DataShard \<Rightarrow> string \<Rightarrow> bool" where
  "other_than_hash sh key \<longleftrightarrow> map_of (store sh) key \<noteq> None \<or> map_of (lists sh) key \<noteq> None \<or>
     map_of (zset sh) key \<noteq> None \<or> map_of (sets sh) key \<noteq> None"

definition handleHLEN :: handler where
  "handleHLEN e args w = require_auth w
     (bnd (arg args 1) (\<lambda>key. bnd (getShard e w key) (\<lambda>sh.
       case map_of (hashes sh) key of
         None \<Rightarrow> if other_than_hash sh key then Inr (wrongtype, w) else Inr (integer 0, w)
       | Some h \<Rightarrow> Inr (integer (int (length h)), w))))"

definition handleHEXISTS :: handler where
  "handleHEXISTS e args w = require_auth w
     (bnd (arg args 1) (\<lambda>key. bnd (arg args 2) (\<lambda>field. bnd (getShard e w key) (\<lambda>sh.
       case map_of (hashes sh) key of
         None \<Rightarrow> if other_than_hash sh key then Inr (wrongtype, w) else Inr (integer 0, w)
       | Some h \<Rightarrow> Inr (integer (if map_of h field = None then 0 else 1), w)))))"

definition handleHKEYS :: handler where
  "handleHKEYS e args w = require_auth w
     (bnd (arg args 1) (\<lambda>key. bnd (getShard e w key) (\<lambda>sh.
       case map_of (hashes sh) key of
         None \<Rightarrow> if other_than_hash sh key then Inr (wrongtype, w) else Inr (array [], w)
       | Some h \<Rightarrow> Inr (array (map bulk_string (iter e (keys h))), w))))"

definition handleHVALS :: handler where
  "handleHVALS e args w = require_auth w
     (bnd (arg args 1) (\<lambda>key. bnd (getShard e w key) (\<lambda>sh.
       case map_of (hashes sh) key of
         None \<Rightarrow> if other_than_hash sh key then Inr (wrongtype, w) else Inr (array [], w)
       | Some h \<Rightarrow> Inr (array (map (\<lambda>f. bulk_string (the (map_of h f))) (iter e (keys h))), w))))"

subsection \<open>Laws\<close>

text \<open>The fields of a key, as a map: a missing key is an empty hash.\<close>

definition hfields :: "env \<Rightarrow> world \<Rightarrow> string \<Rightarrow> string \<Rightarrow> string option" where
  "hfields e w key = (case view hashes e w (cur_db w) key of None \<Rightarrow> Map.empty | Some h \<Rightarrow> map_of h)"

lemma sock_put_hash [simp]:
  "sock (put_hash e k h w) = sock w" "sock (del_hash e k w) = sock w"
  "db_valid (put_hash e k h w) = db_valid w" "db_valid (del_hash e k w) = db_valid w"
  by (simp_all add: put_hash_def del_hash_def)

lemma view_put_hash:
  "view hashes e (put_hash e k h w) = (view hashes e w)(cur_db w := (view hashes e w (cur_db w))(k \<mapsto> h))"
  "view hashes e (del_hash e k w) = (view hashes e w)(cur_db w := (view hashes e w (cur_db w))(k := None))"
  by (simp_all add: put_hash_def del_hash_def hshs.view_insert hshs.view_erase)

lemma shard_hashes: "map_of (hashes (shard_of e w k)) k = view hashes e w (cur_db w) k"
  by (rule hshs.view_cur)

lemma hash_ok_view: "dbs_ok w \<Longrightarrow> view hashes e w d k = Some h \<Longrightarrow> hmap_ok h"
  unfolding dbs_ok_def shard_ok_def view_def by (blast dest: vals_okD)

lemma shard_ok_put_hash: "shard_ok sh \<Longrightarrow> hmap_ok h \<Longrightarrow> shard_ok (hashes_update (insert_or_assign k h) sh)"
  by (simp add: shard_ok_def)

lemma dbs_ok_put_hash: "dbs_ok w \<Longrightarrow> hmap_ok h \<Longrightarrow> dbs_ok (put_hash e k h w)"
  unfolding put_hash_def by (rule dbs_ok_mod) (auto intro: shard_ok_put_hash)

fun pairs_of :: "RespValue list \<Rightarrow> (string \<times> string) list" where
  "pairs_of (f # v # rest) = (str f, str v) # pairs_of rest"
| "pairs_of _ = []"

lemma hset_loop_spec:
  assumes "db_valid w" and "even (length args)" and "dbs_ok w"
  shows "\<exists>w'. hset_loop e key args w = Inr (card {f \<in> fst ` set (pairs_of args). hfields e w key f = None}, w') \<and>
    hfields e w' key = hfields e w key ++ map_of (rev (pairs_of args)) \<and> sock w' = sock w \<and> dbs_ok w' \<and>
    (\<forall>k. k \<noteq> key \<longrightarrow> hfields e w' k = hfields e w k)"
  using assms
proof (induction args arbitrary: w rule: pairs_of.induct)
  case (1 f v rest)
  define h where "h = (case view hashes e w (cur_db w) key of
     Some inner \<Rightarrow> insert_or_assign (str f) (str v) inner | None \<Rightarrow> insert_or_assign (str f) (str v) [])"
  define new where "new \<longleftrightarrow> hfields e w key (str f) = None"
  let ?w = "put_hash e key h w"
  have step: "hset_loop e key (f # v # rest) w =
      bnd (hset_loop e key rest ?w) (\<lambda>(n, w'). Inr (if new then Suc n else n, w'))"
    using 1(2) by (auto simp: h_def new_def hfields_def shard_hashes split: option.splits)
  have fl: "hfields e ?w key = (hfields e w key)(str f \<mapsto> str v)" "\<And>k. k \<noteq> key \<Longrightarrow> hfields e ?w k = hfields e w k"
    by (auto simp: hfields_def view_put_hash h_def hmap_simps split: option.splits)
  have hok: "hmap_ok h" using hash_ok_view [OF 1(4)] by (auto simp: h_def simp del: update.simps split: option.splits)
  let ?c = "\<lambda>A w. card {g \<in> A. hfields e w key g = None}"
  have fin: "finite {g \<in> fst ` set (pairs_of rest). hfields e ?w key g = None}" by simp
  have "{g \<in> fst ` set (pairs_of (f # v # rest)). hfields e w key g = None}
      = (if new then insert (str f) else id) {g \<in> fst ` set (pairs_of rest). hfields e ?w key g = None}"
    by (auto simp: fl new_def)
  then have cnt: "?c (fst ` set (pairs_of (f # v # rest))) w
      = (if new then Suc (?c (fst ` set (pairs_of rest)) ?w) else ?c (fst ` set (pairs_of rest)) ?w)"
    by (auto simp: card_insert_if fl)
  obtain w' where IH: "hset_loop e key rest ?w = Inr (?c (fst ` set (pairs_of rest)) ?w, w')"
    "hfields e w' key = hfields e ?w key ++ map_of (rev (pairs_of rest))" "sock w' = sock ?w" "dbs_ok w'"
    "\<forall>k. k \<noteq> key \<longrightarrow> hfields e w' k = hfields e ?w k"
    using 1(1) [of ?w] 1(2,3) dbs_ok_put_hash [OF 1(4) hok] by auto
  then show ?case unfolding step using cnt fl
    by (auto simp: map_add_def fun_eq_iff split: option.splits)
qed auto

lemma hdel_loop_spec:
  "hmap_ok h \<Longrightarrow> hdel_loop fs h = (n, h') \<Longrightarrow>
     n = card {f \<in> set fs. map_of h f \<noteq> None} \<and> hmap_ok h' \<and> map_of h' = (\<lambda>f. if f \<in> set fs then None else map_of h f)"
proof (induction fs arbitrary: h n h')
  case (Cons f fs)
  obtain m h1 where r: "hdel_loop fs (erase f h) = (m, h1)" by fastforce
  have IH: "m = card {g \<in> set fs. map_of (erase f h) g \<noteq> None}" "hmap_ok h1"
    "map_of h1 = (\<lambda>g. if g \<in> set fs then None else map_of (erase f h) g)"
    using Cons.IH [OF _ r] Cons.prems(1) by auto
  have "{g \<in> set (f # fs). map_of h g \<noteq> None}
      = (if map_of h f = None then {g \<in> set fs. map_of (erase f h) g \<noteq> None}
         else insert f {g \<in> set fs. map_of (erase f h) g \<noteq> None})"
    by (auto simp: hmap_simps)
  then have "card {g \<in> set (f # fs). map_of h g \<noteq> None} = (if map_of h f = None then m else Suc m)"
    using IH(1) by (simp add: hmap_simps)
  then show ?case using Cons.prems r IH by (auto simp: hmap_simps fun_eq_iff)
qed simp

lemma hash_size: "hmap_ok h \<Longrightarrow> length h = card (dom (map_of h))"
  by (metis distinct_card dom_map_of_conv_image_fst hmap_ok_def length_map list.set_map)

lemma HGET_fields:
  assumes "1 \<le> m_auth_level (sock w)" and "db_valid w"
  shows "handleHGET e [c, k, f] w =
    Inr (case hfields e w (str k) (str f) of None \<Rightarrow> null_bulk | Some v \<Rightarrow> bulk_string v, w)"
  using assms by (simp add: handleHGET_def shard_hashes hfields_def split: option.splits)

lemma map_of_Nil_iff: "map_of (h :: 'v hmap) = Map.empty \<longleftrightarrow> h = []"
  using hm.empty_iff [of h] by auto

subsection \<open>Properties\<close>

text \<open>HSET writes all field-value pairs (the last one wins), replies with the number of fields
  that did not exist, touches no other key, and HGET then reads back each field.\<close>

theorem hset_then_hget:
  assumes "1 \<le> m_auth_level (sock w)" and "db_valid w" and "dbs_ok w"
    and "rest \<noteq> []" and "even (length rest)"
  shows "\<exists>w'. handleHSET e (c # k # rest) w =
      Inr (integer (int (card {f \<in> fst ` set (pairs_of rest). hfields e w (str k) f = None})), w') \<and>
    hfields e w' (str k) = hfields e w (str k) ++ map_of (rev (pairs_of rest)) \<and>
    (\<forall>k'. k' \<noteq> str k \<longrightarrow> hfields e w' k' = hfields e w k') \<and>
    (\<forall>c' f. handleHGET e [c', k, f] w' =
       Inr (case (hfields e w (str k) ++ map_of (rev (pairs_of rest))) (str f) of
              None \<Rightarrow> null_bulk | Some v \<Rightarrow> bulk_string v, w'))"
proof -
  obtain w' where w': "hset_loop e (str k) rest w = Inr (card {f \<in> fst ` set (pairs_of rest). hfields e w (str k) f = None}, w')"
    "hfields e w' (str k) = hfields e w (str k) ++ map_of (rev (pairs_of rest))" "sock w' = sock w"
    "\<forall>k'. k' \<noteq> str k \<longrightarrow> hfields e w' k' = hfields e w k'"
    using hset_loop_spec [OF assms(2,5,3)] by blast
  have v: "db_valid w'" "1 \<le> m_auth_level (sock w')" using w'(3) assms(1,2) by (auto simp: db_valid_def)
  have "\<not> length rest < 2" using assms(4,5) by (cases rest) (auto simp: Suc_le_eq)
  then show ?thesis using w' assms(1,5) HGET_fields [OF v(2,1)]
    by (auto simp: handleHSET_def even_iff_mod_2_eq_zero)
qed

lemma demo_world_dbs [simp]: "dbs_ok demo_world"
  by (simp add: demo_world_def dbs_ok_def mod_sock_def new_world_def new_server_def)

theorem hset_then_hget_witness:
  "\<exists>w'. handleHSET demo_env (map bulk_string [''HSET'', ''h'', ''f'', ''1'', ''f'', ''2'']) demo_world = Inr (integer 1, w') \<and>
     handleHGET demo_env (map bulk_string [''HGET'', ''h'', ''f'']) w' = Inr (bulk_string ''2'', w')"
proof -
  have "view hashes demo_env demo_world 0 = Map.empty"
    by (rule ext) (simp add: view_def demo_world_def mod_sock_def new_world_def new_server_def shard_empty_def)
  then have f: "hfields demo_env demo_world ''h'' = Map.empty" by (simp add: hfields_def)
  have "{g. g = ''f''} = {''f''}" by auto
  then show ?thesis
    using hset_then_hget [of demo_world "map bulk_string [''f'', ''1'', ''f'', ''2'']" demo_env "bulk_string ''HSET''" "bulk_string ''h''"]
    by (auto simp: f)
qed

text \<open>HDEL removes the named fields and replies with the number of distinct ones that existed; the
  key itself disappears exactly when no field is left.\<close>

theorem hdel_removes_fields:
  assumes "1 \<le> m_auth_level (sock w)" and "db_valid w" and "dbs_ok w"
  shows "\<exists>w'. handleHDEL e (c # k # fs) w = Inr (integer (int (card {f \<in> str ` set fs. hfields e w (str k) f \<noteq> None})), w') \<and>
    hfields e w' (str k) = (\<lambda>f. if f \<in> str ` set fs then None else hfields e w (str k) f) \<and>
    (view hashes e w (cur_db w) (str k) \<noteq> None \<longrightarrow>
       (view hashes e w' (cur_db w) (str k) = None \<longleftrightarrow> hfields e w' (str k) = Map.empty))"
proof (cases "view hashes e w (cur_db w) (str k)")
  case None
  then have "hfields e w (str k) = Map.empty" by (simp add: hfields_def)
  with None show ?thesis using assms(1,2) by (simp add: handleHDEL_def shard_hashes fun_eq_iff)
next
  case (Some h)
  obtain n h' where r: "hdel_loop (map str fs) h = (n, h')" by fastforce
  note spec = hdel_loop_spec [OF hash_ok_view [OF assms(3) Some] r]
  show ?thesis using assms(1,2) Some r spec
    by (auto simp: handleHDEL_def shard_hashes hfields_def view_put_hash map_of_Nil_iff [symmetric] fun_eq_iff)
qed

theorem hdel_removes_fields_witness:
  "\<exists>w'. handleHDEL demo_env (map bulk_string [''HDEL'', ''h'', ''f'', ''f''])
       (put_hash demo_env ''h'' [(''f'', ''1'')] demo_world) = Inr (integer 1, w')"
proof -
  let ?w = "put_hash demo_env ''h'' [(''f'', ''1'')] demo_world"
  have "dbs_ok ?w" by (rule dbs_ok_put_hash) (simp_all add: hmap_ok_def)
  moreover have "hfields demo_env ?w ''h'' = [''f'' \<mapsto> ''1'']" by (simp add: hfields_def view_put_hash)
  moreover have "{g. g = ''f''} = {''f''}" by auto
  ultimately show ?thesis
    using hdel_removes_fields [of ?w demo_env "bulk_string ''HDEL''" "bulk_string ''h''" "map bulk_string [''f'', ''f'']"]
    by auto
qed

text \<open>HLEN, HKEYS, HVALS and HGETALL agree: HLEN is the number of fields, HKEYS lists each field
  once, and HVALS and HGETALL list the values in the same order.\<close>

theorem hash_listing_consistent:
  assumes "1 \<le> m_auth_level (sock w)" and "db_valid w" and "dbs_ok w" and "iter_ok e"
    and "view hashes e w (cur_db w) (str k) = Some h"
  shows "\<exists>fs. set fs = dom (hfields e w (str k)) \<and> distinct fs \<and>
    handleHLEN e [c, k] w = Inr (integer (int (length fs)), w) \<and>
    handleHKEYS e [c, k] w = Inr (array (map bulk_string fs), w) \<and>
    handleHVALS e [c, k] w = Inr (array (map (\<lambda>f. bulk_string (the (hfields e w (str k) f))) fs), w) \<and>
    handleHGETALL e [c, k] w = Inr (array (concat (map (\<lambda>f. [bulk_string f, bulk_string (the (hfields e w (str k) f))]) fs)), w)"
proof (intro exI conjI)
  have ok: "hmap_ok h" using hash_ok_view assms(3,5) by blast
  show "set (iter e (keys h)) = dom (hfields e w (str k))"
    using assms(5) by (simp add: iter_set [OF assms(4)] hfields_def dom_map_of_conv_image_fst)
  show "distinct (iter e (keys h))" using ok by (simp add: iter_distinct [OF assms(4)] hmap_ok_def)
qed (use assms in \<open>simp_all add: handleHLEN_def handleHKEYS_def handleHVALS_def handleHGETALL_def shard_hashes
      hfields_def iter_length\<close>)

theorem hash_listing_consistent_witness:
  "\<exists>fs. set fs = {''f''} \<and> handleHLEN demo_env (map bulk_string [''HLEN'', ''h'']) (put_hash demo_env ''h'' [(''f'', ''1'')] demo_world)
     = Inr (integer (int (length fs)), put_hash demo_env ''h'' [(''f'', ''1'')] demo_world)"
proof -
  let ?w = "put_hash demo_env ''h'' [(''f'', ''1'')] demo_world"
  have "dbs_ok ?w" by (rule dbs_ok_put_hash) (simp_all add: hmap_ok_def)
  moreover have "iter_ok demo_env" by (simp add: iter_ok_def demo_env_def)
  moreover have v: "view hashes demo_env ?w (cur_db ?w) ''h'' = Some [(''f'', ''1'')]" by (simp add: view_put_hash)
  ultimately obtain fs where "set fs = dom (hfields demo_env ?w ''h'')"
      "handleHLEN demo_env [bulk_string ''HLEN'', bulk_string ''h''] ?w = Inr (integer (int (length fs)), ?w)"
    using hash_listing_consistent [of ?w demo_env "bulk_string ''h''" "[(''f'', ''1'')]" "bulk_string ''HLEN''"] by auto
  moreover have "dom (hfields demo_env ?w ''h'') = {''f''}" using v by (simp add: hfields_def)
  ultimately show ?thesis by auto
qed

end
