(* ===== verification/ListCommands.thy ===== *)
theory ListCommands
  imports StringCommands
begin

text \<open>
  The list commands of \<open>command_handler_table.cpp\<close>: LPUSH, RPUSH, LPOP, RPOP, LLEN, LINSERT, LINDEX,
  LSET, RPOPLPUSH, LPOPRPUSH and LRANGE. A \<open>std::list\<close> is a list; \<open>front()\<close> or \<open>back()\<close> of an
  empty one is \<open>EmptyContainer\<close>, and a reference into a removed node is \<open>UseAfterFree\<close>.
\<close>

subsection \<open>Handlers\<close>

definition put_list :: "env \<Rightarrow> string \<Rightarrow> string list \<Rightarrow> world \<Rightarrow> world" where
  "put_list e key xs w = mod_shard e key (lists_update (insert_or_assign key xs)) w"

definition del_list :: "env \<Rightarrow> string \<Rightarrow> world \<Rightarrow> world" where
  "del_list e key w = mod_shard e key (lists_update (erase key)) w"

text \<open>\<open>push_front\<close> one after the other.\<close>

definition push_fronts :: "string list \<Rightarrow> string list \<Rightarrow> string list" where
  "push_fronts vs xs = foldl (\<lambda>ys v. v # ys) xs vs"

definition handleLPUSH :: handler where
  "handleLPUSH e args w = require_auth w
     (if length args < 3 then Inr (wrong_args ''LPUSH'', w)
      else bnd (arg args 1) (\<lambda>key. bnd (getShard e w key) (\<lambda>sh.
        let vs = map str (drop 2 args);
            xs = (case map_of (lists sh) key of None \<Rightarrow> push_fronts vs [] | Some ys \<Rightarrow> push_fronts vs ys)
        in Inr (integer (int (length xs)), put_list e key xs w))))"

definition handleRPUSH :: handler where
  "handleRPUSH e args w = require_auth w
     (bnd (arg args 1) (\<lambda>key. bnd (getShard e w key) (\<lambda>sh.
        let vs = map str (drop 2 args);
            xs = (case map_of (lists sh) key of None \<Rightarrow> vs | Some ys \<Rightarrow> ys @ vs)
        in Inr (integer (int (length xs)), put_list e key xs w))))"

text \<open>The loop that pops at most \<open>n\<close> elements: what was popped and what is left.\<close>

fun pop_fronts :: "nat \<Rightarrow> string list \<Rightarrow> string list \<times> string list" where
  "pop_fronts (Suc n) (x # xs) = (let (ys, zs) = pop_fronts n xs in (x # ys, zs))"
| "pop_fronts _ xs = ([], xs)"

function pop_backs :: "nat \<Rightarrow> string list \<Rightarrow> string list \<times> string list" where
  "pop_backs n xs =
     (if n = 0 \<or> xs = [] then ([], xs)
      else let (ys, zs) = pop_backs (n - 1) (butlast xs) in (last xs # ys, zs))"
  by pat_completeness auto
termination by (relation "measure fst") auto

declare pop_backs.simps [simp del]

definition pop_count :: "RespValue list \<Rightarrow> int option res" where
  "pop_count args =
     (if length args = 3 then bnd (arg args 2) (\<lambda>s. Inr (stoi s)) else Inr (Some 1))"

definition pop_reply :: "nat \<Rightarrow> string list \<Rightarrow> RespValue" where
  "pop_reply nargs results =
     (if length results = 1 \<and> nargs = 2 then bulk_string (hd results) else array (map bulk_string results))"

text \<open>What LPOP and RPOP share after the validation of the arguments.\<close>

definition pop_list :: "(nat \<Rightarrow> string list \<Rightarrow> string list \<times> string list) \<Rightarrow> handler" where
  "pop_list pop e args w =
     bnd (pop_count args) (\<lambda>cnt.
       case cnt of None \<Rightarrow> Inr (error ''ERR value is not a integer or out of range'', w)
       | Some n \<Rightarrow>
           if n < 0 then Inr (error ''ERR count can't be nagative'', w)
           else bnd (arg args 1) (\<lambda>key. bnd (getShard e w key) (\<lambda>sh.
             case map_of (lists sh) key of None \<Rightarrow> Inr (null_bulk, w)
             | Some xs \<Rightarrow>
                 if xs = [] then Inr (null_bulk, w)
                 else
                   let (ys, zs) = pop (nat n) xs
                   in Inr (pop_reply (length args) ys,
                           if zs = [] then del_list e key w else put_list e key zs w))))"

definition handleLPOP :: handler where
  "handleLPOP e args w = require_auth w
     (if length args < 2 \<or> length args > 3 then Inr (wrong_args ''LPOP'', w)
      else pop_list pop_fronts e args w)"

definition handleRPOP :: handler where
  "handleRPOP e args w = require_auth w (pop_list pop_backs e args w)"

definition handleLLEN :: handler where
  "handleLLEN e args w = require_auth w
     (bnd (arg args 1) (\<lambda>key. bnd (getShard e w key) (\<lambda>sh.
       case map_of (lists sh) key of None \<Rightarrow> Inr (integer 0, w)
       | Some xs \<Rightarrow> Inr (integer (int (length xs)), w))))"

text \<open>The search for the pivot: the elements before its first occurrence and those from it on.\<close>

definition split_at_pivot :: "string \<Rightarrow> string list \<Rightarrow> string list \<times> string list" where
  "split_at_pivot p xs = (takeWhile (\<lambda>x. x \<noteq> p) xs, dropWhile (\<lambda>x. x \<noteq> p) xs)"

definition handleLINSERT :: handler where
  "handleLINSERT e args w = require_auth w
     (bnd (arg args 1) (\<lambda>key. bnd (arg args 2) (\<lambda>pos. bnd (arg args 3) (\<lambda>pivot. bnd (arg args 4) (\<lambda>v.
       bnd (getShard e w key) (\<lambda>sh.
         case map_of (lists sh) key of None \<Rightarrow> Inr (null_bulk, w)
         | Some xs \<Rightarrow>
             let (before, rest) = split_at_pivot pivot xs in
             (case rest of [] \<Rightarrow> Inr (integer (- 1), w)
              | y # ys \<Rightarrow>
                  let zs = (if pos = ''AFTER'' then before @ y # v # ys else before @ v # y # ys)
                  in Inr (integer (int (length zs)), put_list e key zs w))))))))"

text \<open>
  The index arithmetic of LINDEX and LSET: \<open>idx >= size\<close> compares as unsigned numbers, so that a
  negative index is larger than every size. \<open>None\<close> is the null reply.
\<close>

definition list_position :: "int \<Rightarrow> nat \<Rightarrow> nat option res" where
  "list_position idx sz =
     (if nat (idx mod 2 ^ 64) \<ge> sz then Inr None
      else
        let i1 = (if idx < 0 then idx + int sz else idx);
            i2 = (if i1 < 0 then 0 else i1)
        in if nat i2 < sz then Inr (Some (nat i2)) else Inl OutOfBounds)"

definition handleLINDEX :: handler where
  "handleLINDEX e args w = require_auth w
     (bnd (arg args 1) (\<lambda>key. bnd (arg args 2) (\<lambda>s.
       case stoll s of None \<Rightarrow> Inr (error ''ERR value is not a integer or out of range'', w)
       | Some idx \<Rightarrow> bnd (getShard e w key) (\<lambda>sh.
           case map_of (lists sh) key of None \<Rightarrow> Inr (null_bulk, w)
           | Some xs \<Rightarrow> bnd (list_position idx (length xs)) (\<lambda>p.
               case p of None \<Rightarrow> Inr (null_bulk, w) | Some i \<Rightarrow> Inr (bulk_string (xs ! i), w))))))"

definition handleLSET :: handler where
  "handleLSET e args w = require_auth w
     (bnd (arg args 1) (\<lambda>key. bnd (arg args 3) (\<lambda>v. bnd (arg args 2) (\<lambda>s.
       case stoll s of None \<Rightarrow> Inr (error ''ERR value is not a integer or out of range'', w)
       | Some idx \<Rightarrow> bnd (getShard e w key) (\<lambda>sh.
           case map_of (lists sh) key of None \<Rightarrow> Inr (null_bulk, w)
           | Some xs \<Rightarrow> bnd (list_position idx (length xs)) (\<lambda>p.
               case p of None \<Rightarrow> Inr (null_bulk, w)
               | Some i \<Rightarrow> Inr (ok_reply, put_list e key (xs[i := v]) w)))))))"

text \<open>
  RPOPLPUSH and LPOPRPUSH take a reference to an element of the source, remove that element and
  then copy through the reference.
\<close>

definition move_element :: handler where
  "move_element e args w = require_auth w
     (bnd (arg args 1) (\<lambda>source_key. bnd (arg args 2) (\<lambda>dest_key.
       if source_key = dest_key then Inr (integer 1, w)
       else bnd (getShard e w source_key) (\<lambda>src.
         case map_of (lists src) source_key of None \<Rightarrow> Inr (integer 0, w)
         | Some xs \<Rightarrow> if xs = [] then Inl EmptyContainer else Inl UseAfterFree))))"

definition handleRPOPLPUSH :: handler where
  "handleRPOPLPUSH = move_element"

definition handleLPOPRPUSH :: handler where
  "handleLPOPRPUSH = move_element"

definition range_bounds :: "int \<Rightarrow> int \<Rightarrow> int \<Rightarrow> int \<times> int" where
  "range_bounds start stop sz =
     (let s1 = (if start < 0 then start + sz else start);
          t1 = (if stop < 0 then stop + sz else stop);
          s2 = (if s1 < 0 then 0 else s1);
          t2 = (if t1 \<ge> sz then sz - 1 else t1)
      in (s2, t2))"

definition handleLRANGE :: handler where
  "handleLRANGE e args w = require_auth w
     (bnd (arg args 1) (\<lambda>key. bnd (getShard e w key) (\<lambda>sh. bnd (arg args 2) (\<lambda>a. bnd (arg args 3) (\<lambda>b.
       case (stoi a, stoi b) of
         (Some start, Some stop) \<Rightarrow>
           (case map_of (lists sh) key of None \<Rightarrow> Inr (array [], w)
            | Some xs \<Rightarrow>
                let (s, t) = range_bounds start stop (as_int32 (length xs)) in
                if s > t then Inr (array [], w)
                else Inr (array (map bulk_string (take (nat (t - s + 1)) (drop (nat s) xs))), w))
       | _ \<Rightarrow> Inr (error ''ERR value is not a integer or out of range'', w))))))"

subsection \<open>Laws\<close>

text \<open>The list of a key in the current database; a missing key is an empty list.\<close>

definition list_at :: "env \<Rightarrow> world \<Rightarrow> string \<Rightarrow> string list" where
  "list_at e w key = (case view lists e w (cur_db w) key of None \<Rightarrow> [] | Some xs \<Rightarrow> xs)"

lemma sock_put_list [simp]:
  "sock (put_list e k h w) = sock w" "sock (del_list e k w) = sock w"
  "db_valid (put_list e k h w) = db_valid w" "db_valid (del_list e k w) = db_valid w"
  by (simp_all add: put_list_def del_list_def)

lemma view_put_list:
  "view lists e (put_list e k xs w) = (view lists e w)(cur_db w := (view lists e w (cur_db w))(k \<mapsto> xs))"
  "view lists e (del_list e k w) = (view lists e w)(cur_db w := (view lists e w (cur_db w))(k := None))"
  by (simp_all add: put_list_def del_list_def lsts.view_insert lsts.view_erase)

lemma shard_lists: "map_of (lists (shard_of e w k)) k = view lists e w (cur_db w) k"
  by (rule lsts.view_cur)

lemma list_at_put:
  "list_at e (put_list e k xs w) k' = (if k' = k then xs else list_at e w k')"
  "list_at e (del_list e k w) k' = (if k' = k then [] else list_at e w k')"
  by (simp_all add: list_at_def view_put_list)

lemma push_fronts_rev: "push_fronts vs xs = rev vs @ xs"
  unfolding push_fronts_def by (induction vs arbitrary: xs) auto

lemma pop_fronts_split: "pop_fronts n xs = (take n xs, drop n xs)"
  by (induction n xs rule: pop_fronts.induct) auto

lemma pop_backs_split: "pop_backs n xs = (rev (drop (length xs - n) xs), take (length xs - n) xs)"
proof (induction n xs rule: pop_backs.induct)
  case (1 n xs)
  show ?case
  proof (cases "n = 0 \<or> xs = []")
    case True
    then have "pop_backs n xs = ([], xs)" by (subst pop_backs.simps) simp
    with True show ?thesis by auto
  next
    case False
    then obtain ys y m where xs: "xs = ys @ [y]" and n: "n = Suc m" by (metis not0_implies_Suc rev_exhaust)
    have "pop_backs m ys = (rev (drop (length ys - m) ys), take (length ys - m) ys)"
      using 1 False xs n by simp
    then show ?thesis by (subst pop_backs.simps) (simp add: xs n)
  qed
qed

lemma list_position_pos: "0 \<le> idx \<Longrightarrow> idx < 2 ^ 63 \<Longrightarrow> list_position idx n = Inr (if nat idx < n then Some (nat idx) else None)"
  by (simp add: list_position_def)

lemma list_position_neg: "idx < 0 \<Longrightarrow> - (2 ^ 63) \<le> idx \<Longrightarrow> n < 2 ^ 63 \<Longrightarrow> list_position idx n = Inr None"
proof -
  assume a: "idx < 0" "- (2 ^ 63) \<le> idx" "n < 2 ^ 63"
  have "(idx + 2 ^ 64) mod 2 ^ 64 = idx + 2 ^ 64" using a by (intro mod_pos_pos_trivial) auto
  then have "idx mod 2 ^ 64 = idx + 2 ^ 64" by simp
  then show ?thesis using a by (simp add: list_position_def)
qed

lemma list_at_Some: "view lists e w (cur_db w) k = Some xs \<Longrightarrow> list_at e w k = xs"
  by (simp add: list_at_def)

subsection \<open>Properties\<close>

text \<open>C21. The push and pop commands implement a double-ended queue: LPUSH puts its values one by one
  in front, RPUSH at the back, LPOP and RPOP take up to \<open>n\<close> elements from their end (in the order
  they were taken), and the key disappears with its last element.\<close>

theorem list_deque:
  assumes "1 \<le> m_auth_level (sock w)" and "db_valid w" and "vs \<noteq> []"
    and "stoi (str n) = Some k" and "0 \<le> k" and "list_at e w (str key) \<noteq> []"
  shows "(\<exists>w1. handleLPUSH e (c # key # vs) w = Inr (integer (int (length vs + length (list_at e w (str key)))), w1) \<and>
      list_at e w1 (str key) = rev (map str vs) @ list_at e w (str key)) \<and>
    (\<exists>w1. handleRPUSH e (c # key # vs) w = Inr (integer (int (length (list_at e w (str key)) + length vs)), w1) \<and>
      list_at e w1 (str key) = list_at e w (str key) @ map str vs) \<and>
    (\<exists>w1. handleLPOP e [c, key, n] w = Inr (array (map bulk_string (take (nat k) (list_at e w (str key)))), w1) \<and>
      list_at e w1 (str key) = drop (nat k) (list_at e w (str key)) \<and>
      (view lists e w1 (cur_db w) (str key) = None \<longleftrightarrow> list_at e w1 (str key) = [])) \<and>
    (\<exists>w1. handleRPOP e [c, key, n] w = Inr (array (map bulk_string (take (nat k) (rev (list_at e w (str key))))), w1) \<and>
      rev (list_at e w1 (str key)) = drop (nat k) (rev (list_at e w (str key))) \<and>
      (view lists e w1 (cur_db w) (str key) = None \<longleftrightarrow> list_at e w1 (str key) = []))"
proof -
  obtain xs where xs: "view lists e w (cur_db w) (str key) = Some xs" "xs \<noteq> []"
    using assms(6) by (auto simp: list_at_def split: option.splits)
  have c: "pop_count [c, key, n] = Inr (Some k)" using assms(4) by (simp add: pop_count_def)
  have r: "rev (drop (length xs - nat k) xs) = take (nat k) (rev xs)"
    "rev (take (length xs - nat k) xs) = drop (nat k) (rev xs)"
    by (cases "nat k \<le> length xs"; simp add: rev_take rev_drop)+
  have "drop (nat k) xs = [] \<longleftrightarrow> take (length xs - nat k) xs = []" by auto
  then show ?thesis using assms(1-3,5) xs c r
    by (intro conjI)
      (auto simp: handleLPUSH_def handleRPUSH_def handleLPOP_def handleRPOP_def pop_list_def shard_lists
        push_fronts_rev pop_fronts_split pop_backs_split list_at_Some list_at_put view_put_list pop_reply_def Suc_le_eq Let_def)
qed

theorem list_deque_witness:
  "\<exists>w1. handleRPOP demo_env (map bulk_string [''RPOP'', ''l'', ''2'']) (put_list demo_env ''l'' [''a'', ''b'', ''c''] demo_world)
     = Inr (array (map bulk_string [''c'', ''b'']), w1) \<and> list_at demo_env w1 ''l'' = [''a'']"
proof -
  let ?w = "put_list demo_env ''l'' [''a'', ''b'', ''c''] demo_world"
  have "stoi ''2'' = Some 2" by code_simp
  moreover have "list_at demo_env ?w ''l'' = [''a'', ''b'', ''c'']" by (simp add: list_at_put)
  ultimately show ?thesis
    using list_deque [of ?w "[bulk_string ''x'']" "bulk_string ''2''" 2 demo_env "bulk_string ''l''" "bulk_string ''RPOP''"]
    by (auto simp: rev_swap)
qed

text \<open>LRANGE returns the elements between two positions, negative positions counting from the
  end, out-of-range positions being cut to the list.\<close>

theorem lrange_slice:
  assumes "1 \<le> m_auth_level (sock w)" and "db_valid w"
    and "stoi (str a) = Some start" and "stoi (str b) = Some stop"
    and "length (list_at e w (str key)) < 2 ^ 31"
  shows "handleLRANGE e [c, key, a, b] w = Inr (array (map bulk_string
    (let n = int (length (list_at e w (str key)));
         s = max 0 (if start < 0 then start + n else start);
         t = min (n - 1) (if stop < 0 then stop + n else stop)
     in map (\<lambda>i. list_at e w (str key) ! nat i) [s..t])), w)"
proof (cases "view lists e w (cur_db w) (str key)")
  case None
  then have "list_at e w (str key) = []" by (simp add: list_at_def)
  with None show ?thesis using assms(1-4) by (simp add: handleLRANGE_def shard_lists Let_def)
next
  case (Some xs)
  then have xs: "list_at e w (str key) = xs" by (rule list_at_Some)
  define s where "s = max 0 (if start < 0 then start + int (length xs) else start)"
  define t where "t = min (int (length xs) - 1) (if stop < 0 then stop + int (length xs) else stop)"
  have rb: "range_bounds start stop (int (length xs)) = (s, t)"
    by (auto simp: range_bounds_def s_def t_def Let_def min_def max_def)
  have st: "0 \<le> s" "t < int (length xs)" by (auto simp: s_def t_def)
  have "take (nat (t - s + 1)) (drop (nat s) xs) = map (\<lambda>i. xs ! nat i) [s..t]" if "s \<le> t"
  proof (rule nth_equalityI)
    show "length (take (nat (t - s + 1)) (drop (nat s) xs)) = length (map (\<lambda>i. xs ! nat i) [s..t])"
      using st that by simp
    fix i assume "i < length (take (nat (t - s + 1)) (drop (nat s) xs))"
    then show "take (nat (t - s + 1)) (drop (nat s) xs) ! i = map (\<lambda>i. xs ! nat i) [s..t] ! i"
      using st that by (simp add: nat_add_distrib)
  qed
  then show ?thesis using assms rb Some
    by (simp add: handleLRANGE_def shard_lists as_int32_small xs s_def [symmetric] t_def [symmetric] Let_def)
qed

theorem lrange_slice_witness:
  "handleLRANGE demo_env (map bulk_string [''LRANGE'', ''l'', ''0'', ''-2'']) (put_list demo_env ''l'' [''a'', ''b'', ''c''] demo_world)
     = Inr (array (map bulk_string [''a'', ''b'']), put_list demo_env ''l'' [''a'', ''b'', ''c''] demo_world)"
proof -
  have "stoi ''0'' = Some 0" "stoi ''-2'' = Some (- 2)" by code_simp+
  moreover have "[0..1] = [0, 1 :: int]" by (simp add: upto.simps)
  ultimately show ?thesis
    using lrange_slice [of "put_list demo_env ''l'' [''a'', ''b'', ''c''] demo_world" "bulk_string ''0''" 0 "bulk_string ''-2''" "- 2"
        demo_env "bulk_string ''l''" "bulk_string ''LRANGE''"]
    by (simp add: list_at_put Let_def)
qed

text \<open>LINDEX and LSET treat an index as unsigned: a position inside the list is read or replaced,
  and every negative index, which the code then tries to count from the end, already got the null
  reply.\<close>

theorem lindex_lset_unsigned:
  assumes "1 \<le> m_auth_level (sock w)" and "db_valid w" and "stoll (str i) = Some idx"
    and "length (list_at e w (str key)) < 2 ^ 63"
  shows "handleLINDEX e [c, key, i] w =
      Inr (if 0 \<le> idx \<and> nat idx < length (list_at e w (str key)) then bulk_string (list_at e w (str key) ! nat idx) else null_bulk, w) \<and>
    (if 0 \<le> idx \<and> nat idx < length (list_at e w (str key))
     then \<exists>w1. handleLSET e [c, key, i, v] w = Inr (ok_reply, w1) \<and> list_at e w1 (str key) = (list_at e w (str key))[nat idx := str v]
     else handleLSET e [c, key, i, v] w = Inr (null_bulk, w))"
proof (cases "view lists e w (cur_db w) (str key)")
  case None
  then have "list_at e w (str key) = []" by (simp add: list_at_def)
  with None show ?thesis using assms(1-3) by (simp add: handleLINDEX_def handleLSET_def shard_lists)
next
  case (Some xs)
  then have xs: "list_at e w (str key) = xs" by (rule list_at_Some)
  have b: "- (2 ^ 63) \<le> idx" "idx < 2 ^ 63" using stoll_int64_ok [OF assms(3)] by (auto simp: int64_ok_def)
  show ?thesis
  proof (cases "0 \<le> idx")
    case True
    then show ?thesis using assms(1-3) Some xs list_position_pos [OF True b(2)]
      by (simp add: handleLINDEX_def handleLSET_def shard_lists list_at_put)
  next
    case False
    then show ?thesis using assms Some xs list_position_neg [OF _ b(1)]
      by (simp add: handleLINDEX_def handleLSET_def shard_lists)
  qed
qed

theorem lindex_lset_unsigned_witness:
  "handleLINDEX demo_env (map bulk_string [''LINDEX'', ''l'', ''-1'']) (put_list demo_env ''l'' [''a''] demo_world)
     = Inr (null_bulk, put_list demo_env ''l'' [''a''] demo_world)"
proof -
  have "stoll ''-1'' = Some (- 1)" by code_simp
  then show ?thesis
    using lindex_lset_unsigned [of "put_list demo_env ''l'' [''a''] demo_world" "bulk_string ''-1''" "- 1" demo_env
        "bulk_string ''l''" "bulk_string ''LINDEX''"]
    by (simp add: list_at_put)
qed

text \<open>RPOPLPUSH and LPOPRPUSH between two different keys never move an element: on a non-empty source
  they copy through a reference to the node they have just removed.\<close>

theorem rpoplpush_reads_removed_node:
  assumes "1 \<le> m_auth_level (sock w)" and "db_valid w" and "str s \<noteq> str d" and "list_at e w (str s) \<noteq> []"
  shows "handleRPOPLPUSH e [c, s, d] w = Inl UseAfterFree \<and> handleLPOPRPUSH e [c, s, d] w = Inl UseAfterFree"
proof -
  obtain xs where "view lists e w (cur_db w) (str s) = Some xs" "xs \<noteq> []"
    using assms(4) by (auto simp: list_at_def split: option.splits)
  then show ?thesis using assms(1-3)
    by (simp add: handleRPOPLPUSH_def handleLPOPRPUSH_def move_element_def shard_lists)
qed

theorem rpoplpush_reads_removed_node_witness:
  "handleRPOPLPUSH demo_env (map bulk_string [''RPOPLPUSH'', ''l'', ''m'']) (put_list demo_env ''l'' [''a''] demo_world) = Inl UseAfterFree"
  using rpoplpush_reads_removed_node [of "put_list demo_env ''l'' [''a''] demo_world" "bulk_string ''l''" "bulk_string ''m''" demo_env]
  by (simp add: list_at_put)

end
