(* ===== verification/SetCommands.thy ===== *)
theory SetCommands
  imports StringCommands
begin

text \<open>
  The set commands of \<open>command_handler_table.cpp\<close>: SADD, SMEMBERS, SREM, SISMEMBER, SCARD,
  SRANDMEMBER, SPOP, SDIFF, SINTER, SUNION and SMOVE. A \<open>std::unordered_set\<close> is a list without
  repetitions; what depends on its traversal goes through \<open>iter\<close>.
\<close>

subsection \<open>Handlers\<close>

definition put_set :: "env \<Rightarrow> string \<Rightarrow> string list \<Rightarrow> world \<Rightarrow> world" where
  "put_set e key xs w = mod_shard e key (sets_update (insert_or_assign key xs)) w"

definition del_set :: "env \<Rightarrow> string \<Rightarrow> world \<Rightarrow> world" where
  "del_set e key w = mod_shard e key (sets_update (erase key)) w"

definition store_set :: "env \<Rightarrow> string \<Rightarrow> string list \<Rightarrow> world \<Rightarrow> world" where
  "store_set e key xs w = (if xs = [] then del_set e key w else put_set e key xs w)"

text \<open>Inserting and erasing one after the other, counting the calls that had an effect.\<close>

fun insert_all :: "string list \<Rightarrow> string list \<Rightarrow> nat \<times> string list" where
  "insert_all [] xs = (0, xs)"
| "insert_all (m # ms) xs =
     (let (n, ys) = insert_all ms (set_insert m xs) in (if m \<in> set xs then n else Suc n, ys))"

fun erase_all :: "string list \<Rightarrow> string list \<Rightarrow> nat \<times> string list" where
  "erase_all [] xs = (0, xs)"
| "erase_all (m # ms) xs =
     (let (n, ys) = erase_all ms (removeAll m xs) in (if m \<in> set xs then Suc n else n, ys))"

definition handleSADD :: handler where
  "handleSADD e args w = require_auth w
     (if length args < 3 then Inr (error (''ERR wrong number of argument for '' @ quoted ''SADD''), w)
      else bnd (arg args 1) (\<lambda>key. bnd (getShard e w key) (\<lambda>sh.
        let old = (case map_of (sets sh) key of None \<Rightarrow> [] | Some xs \<Rightarrow> xs);
            (n, xs) = insert_all (map str (drop 2 args)) old
        in Inr (integer (int n), put_set e key xs w))))"

definition handleSMEMBERS :: handler where
  "handleSMEMBERS e args w = require_auth w
     (bnd (arg args 1) (\<lambda>key. bnd (getShard e w key) (\<lambda>sh.
       case map_of (sets sh) key of None \<Rightarrow> Inr (array [], w)
       | Some xs \<Rightarrow> Inr (array (map bulk_string (iter e xs)), w))))"

definition handleSREM :: handler where
  "handleSREM e args w = require_auth w
     (bnd (arg args 1) (\<lambda>key. bnd (getShard e w key) (\<lambda>sh.
       case map_of (sets sh) key of None \<Rightarrow> Inr (integer 0, w)
       | Some xs \<Rightarrow>
           let (n, ys) = erase_all (map str (drop 2 args)) xs
           in Inr (integer (int n), store_set e key ys w))))"

definition handleSISMEMBER :: handler where
  "handleSISMEMBER e args w = require_auth w
     (bnd (arg args 1) (\<lambda>key. bnd (arg args 2) (\<lambda>member. bnd (getShard e w key) (\<lambda>sh.
       case map_of (sets sh) key of None \<Rightarrow> Inr (integer 0, w)
       | Some xs \<Rightarrow> Inr (integer (if member \<in> set xs then 1 else 0), w)))))"

definition handleSCARD :: handler where
  "handleSCARD e args w = require_auth w
     (bnd (arg args 1) (\<lambda>key. bnd (getShard e w key) (\<lambda>sh.
       case map_of (sets sh) key of None \<Rightarrow> Inr (integer 0, w)
       | Some xs \<Rightarrow> Inr (integer (int (length xs)), w))))"

text \<open>\<open>members[rand() % members.size()]\<close>\<close>

definition random_member :: "env \<Rightarrow> nat \<Rightarrow> string list \<Rightarrow> string res" where
  "random_member e i members =
     (if members = [] then Inl DivByZero else Inr (members ! (rnd e i mod length members)))"

fun random_members :: "env \<Rightarrow> nat \<Rightarrow> nat \<Rightarrow> string list \<Rightarrow> string list res" where
  "random_members e i 0 members = Inr []"
| "random_members e i (Suc n) members =
     bnd (random_member e i members) (\<lambda>m. bnd (random_members e (Suc i) n members) (\<lambda>ms. Inr (m # ms)))"

definition no_set_reply :: "RespValue list \<Rightarrow> RespValue" where
  "no_set_reply args = (if length args = 2 then null_bulk else array [])"

definition handleSRANDMEMBER :: handler where
  "handleSRANDMEMBER e args w = require_auth w
     (bnd (if length args = 3 then bnd (arg args 2) (\<lambda>s. Inr (stoi s)) else Inr (Some 0)) (\<lambda>cnt.
       case cnt of None \<Rightarrow> Inr (error ''ERR value is not an integer or out of range'', w)
       | Some n \<Rightarrow> bnd (arg args 1) (\<lambda>key. bnd (getShard e w key) (\<lambda>sh.
           case map_of (sets sh) key of None \<Rightarrow> Inr (no_set_reply args, w)
           | Some xs \<Rightarrow>
               let members = iter e xs in
               if length args = 2 then bnd (random_member e 0 members) (\<lambda>m. Inr (bulk_string m, w))
               else if n \<ge> 0 then
                 let num = min n (as_int32 (length members))
                 in Inr (array (map bulk_string (take (nat num) (shuffle e members))), w)
               else if n = - (2 ^ 31) then Inl SignedOverflow
               else bnd (random_members e 0 (nat (- n)) members) (\<lambda>ms. Inr (array (map bulk_string ms), w))))))"

definition handleSPOP :: handler where
  "handleSPOP e args w = require_auth w
     (bnd (if length args = 3 then bnd (arg args 2) (\<lambda>s. Inr (stoi s)) else Inr (Some 1)) (\<lambda>cnt.
       case cnt of None \<Rightarrow> Inr (error ''ERR value is not an integer or out of range'', w)
       | Some n \<Rightarrow>
           if n < 0 then Inr (error ''ERR value can't be nagative'', w)
           else bnd (arg args 1) (\<lambda>key. bnd (getShard e w key) (\<lambda>sh.
             case map_of (sets sh) key of None \<Rightarrow> Inr (no_set_reply args, w)
             | Some xs \<Rightarrow>
                 let members = iter e xs in
                 if n = 0 then Inr (array [], w)
                 else if members = [] then Inr (null_bulk, w)
                 else if length args = 2 then
                   bnd (random_member e 0 members) (\<lambda>m.
                     Inr (bulk_string m, store_set e key (removeAll m xs) w))
                 else
                   let num = min n (as_int32 (length members));
                       out = take (nat num) (shuffle e members)
                   in Inr (array (map bulk_string out), store_set e key (snd (erase_all out xs)) w)))))"

text \<open>The inner loop of SDIFF: is the member in one of the other sets?\<close>

fun in_some :: "env \<Rightarrow> string list \<Rightarrow> string \<Rightarrow> world \<Rightarrow> bool res" where
  "in_some e [] m w = Inr False"
| "in_some e (k # ks) m w =
     bnd (getShard e w k) (\<lambda>sh.
       case map_of (sets sh) k of None \<Rightarrow> in_some e ks m w
       | Some xs \<Rightarrow> if m \<in> set xs then Inr True else in_some e ks m w)"

fun sdiff_loop :: "env \<Rightarrow> string list \<Rightarrow> string list \<Rightarrow> world \<Rightarrow> string list res" where
  "sdiff_loop e ks [] w = Inr []"
| "sdiff_loop e ks (m # ms) w =
     bnd (in_some e ks m w) (\<lambda>b. bnd (sdiff_loop e ks ms w) (\<lambda>rs. Inr (if b then rs else m # rs)))"

definition handleSDIFF :: handler where
  "handleSDIFF e args w = require_auth w
     (bnd (arg args 1) (\<lambda>key. bnd (getShard e w key) (\<lambda>sh.
       case map_of (sets sh) key of None \<Rightarrow> Inr (array [], w)
       | Some xs \<Rightarrow>
           bnd (sdiff_loop e (map str (drop 2 args)) (iter e xs) w) (\<lambda>rs. Inr (array (map bulk_string rs), w)))))"

text \<open>The inner loop of SINTER; \<open>None\<close> is the early return when one of the sets does not exist.\<close>

fun in_every :: "env \<Rightarrow> string list \<Rightarrow> string \<Rightarrow> world \<Rightarrow> bool option res" where
  "in_every e [] m w = Inr (Some True)"
| "in_every e (k # ks) m w =
     bnd (getShard e w k) (\<lambda>sh.
       case map_of (sets sh) k of None \<Rightarrow> Inr None
       | Some xs \<Rightarrow> if m \<in> set xs then in_every e ks m w else Inr (Some False))"

fun sinter_loop :: "env \<Rightarrow> string list \<Rightarrow> string list \<Rightarrow> string list \<Rightarrow> world \<Rightarrow> string list res" where
  "sinter_loop e ks acc [] w = Inr acc"
| "sinter_loop e ks acc (m # ms) w =
     bnd (in_every e ks m w) (\<lambda>b.
       case b of None \<Rightarrow> Inr []
       | Some ok \<Rightarrow> sinter_loop e ks (if ok then acc @ [m] else acc) ms w)"

definition handleSINTER :: handler where
  "handleSINTER e args w = require_auth w
     (bnd (arg args 1) (\<lambda>key. bnd (getShard e w key) (\<lambda>sh.
       case map_of (sets sh) key of None \<Rightarrow> Inr (array [], w)
       | Some xs \<Rightarrow>
           bnd (sinter_loop e (map str (drop 2 args)) [] (iter e xs) w) (\<lambda>rs. Inr (array (map bulk_string rs), w)))))"

fun sunion_loop :: "env \<Rightarrow> string list \<Rightarrow> string list \<Rightarrow> world \<Rightarrow> string list res" where
  "sunion_loop e [] acc w = Inr acc"
| "sunion_loop e (k # ks) acc w =
     bnd (getShard e w k) (\<lambda>sh.
       case map_of (sets sh) k of None \<Rightarrow> sunion_loop e ks acc w
       | Some xs \<Rightarrow> sunion_loop e ks (snd (insert_all (iter e xs) acc)) w)"

definition handleSUNION :: handler where
  "handleSUNION e args w = require_auth w
     (bnd (arg args 1) (\<lambda>key. bnd (getShard e w key) (\<lambda>sh.
       case map_of (sets sh) key of None \<Rightarrow> Inr (array [], w)
       | Some xs \<Rightarrow>
           bnd (sunion_loop e (map str (drop 2 args)) (snd (insert_all (iter e xs) [])) w) (\<lambda>rs.
             Inr (array (map bulk_string (iter e rs)), w)))))"

text \<open>
  SMOVE keeps an iterator to the source while it inserts the destination: when both are in the
  same shard and the insertion moves the storage, the iterator dangles.
\<close>

definition handleSMOVE :: handler where
  "handleSMOVE e args w = require_auth w
     (bnd (arg args 1) (\<lambda>source_key. bnd (arg args 2) (\<lambda>destination_key.
       if source_key = destination_key then Inr (integer 1, w)
       else bnd (arg args 3) (\<lambda>member. bnd (getShard e w source_key) (\<lambda>src_shard.
         case map_of (sets src_shard) source_key of None \<Rightarrow> Inr (integer 0, w)
         | Some src \<Rightarrow> bnd (getShard e w destination_key) (\<lambda>dest_shard.
             let absent = (map_of (sets dest_shard) destination_key = None);
                 dest = (case map_of (sets dest_shard) destination_key of None \<Rightarrow> [] | Some xs \<Rightarrow> xs);
                 w1 = (if absent then put_set e destination_key [] w else w)
             in if absent \<and> getShardIndex e source_key = getShardIndex e destination_key \<and> rehash e (length (sets dest_shard))
                then Inl UseAfterFree
                else if member \<notin> set src then Inr (integer 0, w1)
                else Inr (integer 1, store_set e source_key (removeAll member src)
                           (put_set e destination_key (set_insert member dest) w1))))))))"

subsection \<open>Laws\<close>

definition set_at :: "env \<Rightarrow> world \<Rightarrow> string \<Rightarrow> string set" where
  "set_at e w key = (case view sets e w (cur_db w) key of None \<Rightarrow> {} | Some xs \<Rightarrow> set xs)"

lemma sock_put_set [simp]:
  "sock (put_set e k h w) = sock w" "sock (del_set e k w) = sock w" "sock (store_set e k h w) = sock w"
  "db_valid (put_set e k h w) = db_valid w" "db_valid (del_set e k w) = db_valid w" "db_valid (store_set e k h w) = db_valid w"
  by (simp_all add: put_set_def del_set_def store_set_def)

lemma view_put_set:
  "view sets e (put_set e k xs w) = (view sets e w)(cur_db w := (view sets e w (cur_db w))(k \<mapsto> xs))"
  "view sets e (del_set e k w) = (view sets e w)(cur_db w := (view sets e w (cur_db w))(k := None))"
  by (simp_all add: put_set_def del_set_def sets.view_insert sets.view_erase)

lemma shard_sets: "map_of (sets (shard_of e w k)) k = view sets e w (cur_db w) k"
  by (rule sets.view_cur)

lemma set_at_put:
  "set_at e (put_set e k xs w) k' = (if k' = k then set xs else set_at e w k')"
  "set_at e (store_set e k xs w) k' = (if k' = k then set xs else set_at e w k')"
  by (simp_all add: set_at_def view_put_set store_set_def)

lemma set_ok_view: "dbs_ok w \<Longrightarrow> view sets e w d k = Some xs \<Longrightarrow> distinct xs"
  unfolding dbs_ok_def shard_ok_def view_def by (blast dest: vals_okD)

lemma insert_all_spec:
  "insert_all ms xs = (n, ys) \<Longrightarrow> set ys = set xs \<union> set ms \<and> n = card (set ms - set xs) \<and> (distinct xs \<longrightarrow> distinct ys)"
proof (induction ms arbitrary: xs n ys)
  case (Cons m ms)
  obtain n1 where r: "insert_all ms (set_insert m xs) = (n1, ys)" "n = (if m \<in> set xs then n1 else Suc n1)"
    using Cons.prems by (auto split: prod.splits)
  note IH = Cons.IH [OF r(1)]
  have "card (set (m # ms) - set xs) = (if m \<in> set xs then n1 else Suc n1)"
  proof (cases "m \<in> set xs")
    case True
    then have "insert m (set xs) = set xs" by auto
    then show ?thesis using IH True by simp
  next
    case False
    then have "set (m # ms) - set xs = insert m (set ms - insert m (set xs))" by auto
    then show ?thesis using IH False by simp
  qed
  then show ?case using IH r(2) by auto
qed simp

lemma erase_all_spec:
  "erase_all ms xs = (n, ys) \<Longrightarrow> set ys = set xs - set ms \<and> n = card (set ms \<inter> set xs) \<and> (distinct xs \<longrightarrow> distinct ys)"
proof (induction ms arbitrary: xs n ys)
  case (Cons m ms)
  obtain n1 where r: "erase_all ms (removeAll m xs) = (n1, ys)" "n = (if m \<in> set xs then Suc n1 else n1)"
    using Cons.prems by (auto split: prod.splits)
  note IH = Cons.IH [OF r(1)]
  have "set (m # ms) \<inter> set xs = (if m \<in> set xs then insert m (set ms \<inter> (set xs - {m})) else set ms \<inter> (set xs - {m}))"
    by auto
  then have "card (set (m # ms) \<inter> set xs) = (if m \<in> set xs then Suc n1 else n1)" using IH by simp
  then show ?case using IH r(2) by (auto simp: distinct_removeAll)
qed simp

lemma in_some_spec: "db_valid w \<Longrightarrow> in_some e ks m w = Inr (\<exists>k \<in> set ks. m \<in> set_at e w k)"
  by (induction ks) (auto simp: shard_sets set_at_def split: option.splits)

lemma sdiff_loop_spec:
  "db_valid w \<Longrightarrow> sdiff_loop e ks ms w = Inr (filter (\<lambda>m. \<forall>k \<in> set ks. m \<notin> set_at e w k) ms)"
  by (induction ms) (auto simp: in_some_spec)

lemma in_every_spec:
  "db_valid w \<Longrightarrow> in_every e ks m w =
     Inr (case List.find (\<lambda>k. view sets e w (cur_db w) k = None \<or> m \<notin> set_at e w k) ks of
            None \<Rightarrow> Some True
          | Some k \<Rightarrow> if view sets e w (cur_db w) k = None then None else Some False)"
  by (induction ks) (auto simp: shard_sets set_at_def split: option.splits)

lemma in_every_cases:
  assumes "db_valid w"
  shows "in_every e ks m w = Inr (Some (\<forall>k \<in> set ks. m \<in> set_at e w k)) \<or>
    in_every e ks m w = Inr None \<and> (\<exists>k \<in> set ks. set_at e w k = {})"
proof (cases "List.find (\<lambda>k. view sets e w (cur_db w) k = None \<or> m \<notin> set_at e w k) ks")
  case None
  moreover from None have "\<forall>k \<in> set ks. m \<in> set_at e w k" by (auto simp: find_None_iff)
  ultimately show ?thesis by (simp add: in_every_spec [OF assms])
next
  case (Some k)
  then have "k \<in> set ks" "view sets e w (cur_db w) k = None \<or> m \<notin> set_at e w k"
    by (auto simp: find_Some_iff)
  moreover have "view sets e w (cur_db w) k = None \<Longrightarrow> set_at e w k = {}" by (simp add: set_at_def)
  ultimately show ?thesis using Some unfolding in_every_spec [OF assms] by auto
qed

lemma sinter_loop_spec:
  assumes "db_valid w"
  shows "sinter_loop e ks [] ms w = Inr (filter (\<lambda>m. \<forall>k \<in> set ks. m \<in> set_at e w k) ms)"
proof (cases "\<exists>k \<in> set ks. set_at e w k = {}")
  case True
  then have f: "\<not> (\<forall>k \<in> set ks. m \<in> set_at e w k)" for m by auto
  have "sinter_loop e ks [] ms w = Inr []"
  proof (induction ms)
    case (Cons m ms)
    then show ?case using in_every_cases [OF assms, of e ks m] f [of m] by auto
  qed simp
  with f show ?thesis by (simp add: filter_False)
next
  case False
  have "sinter_loop e ks acc ms w = Inr (acc @ filter (\<lambda>m. \<forall>k \<in> set ks. m \<in> set_at e w k) ms)" for acc
  proof (induction ms arbitrary: acc)
    case (Cons m ms)
    then show ?case using in_every_cases [OF assms, of e ks m] False by auto
  qed simp
  then show ?thesis by simp
qed

lemma sunion_loop_spec:
  assumes "db_valid w" and "iter_ok e"
  shows "\<exists>rs. sunion_loop e ks acc w = Inr rs \<and> set rs = set acc \<union> (\<Union>k \<in> set ks. set_at e w k) \<and> (distinct acc \<longrightarrow> distinct rs)"
proof (induction ks arbitrary: acc)
  case (Cons k ks)
  show ?case
  proof (cases "view sets e w (cur_db w) k")
    case None
    then show ?thesis using Cons [of acc] assms(1) by (auto simp: shard_sets set_at_def)
  next
    case (Some xs)
    obtain n ys where r: "insert_all (iter e xs) acc = (n, ys)" by fastforce
    note spec = insert_all_spec [OF r] iter_set [OF assms(2)]
    then show ?thesis using Cons [of ys] assms(1) Some r by (auto simp: shard_sets set_at_def)
  qed
qed simp

lemma iter_ok_demo: "iter_ok demo_env"
  by (simp add: iter_ok_def demo_env_def)

lemma view_set_at: "view sets e w (cur_db w) k = Some xs \<Longrightarrow> set_at e w k = set xs"
  by (simp add: set_at_def)

lemma shard_ok_put_set: "shard_ok sh \<Longrightarrow> distinct xs \<Longrightarrow> shard_ok (sets_update (insert_or_assign k xs) sh)"
  by (simp add: shard_ok_def)

lemma dbs_ok_put_set: "dbs_ok w \<Longrightarrow> distinct xs \<Longrightarrow> dbs_ok (put_set e k xs w)"
  unfolding put_set_def by (rule dbs_ok_mod) (auto intro: shard_ok_put_set)

lemma dbs_ok_demo: "dbs_ok demo_world"
  by (simp add: demo_world_def dbs_ok_def mod_sock_def new_world_def new_server_def)

subsection \<open>Properties\<close>

text \<open>SADD and SREM are union and difference, each replying with the number of members that came
  or went; SCARD is the cardinality, SISMEMBER membership, SMEMBERS an enumeration without
  repetition; no other key changes.\<close>

theorem set_commands_are_set_operations:
  assumes "1 \<le> m_auth_level (sock w)" and "db_valid w" and "dbs_ok w" and "iter_ok e" and "ms \<noteq> []"
  shows "(\<exists>w1. handleSADD e (c # k # ms) w = Inr (integer (int (card (str ` set ms - set_at e w (str k)))), w1) \<and>
      set_at e w1 = (set_at e w)(str k := set_at e w (str k) \<union> str ` set ms)) \<and>
    (\<exists>w1. handleSREM e (c # k # ms) w = Inr (integer (int (card (str ` set ms \<inter> set_at e w (str k)))), w1) \<and>
      set_at e w1 = (set_at e w)(str k := set_at e w (str k) - str ` set ms)) \<and>
    handleSCARD e [c, k] w = Inr (integer (int (card (set_at e w (str k)))), w) \<and>
    handleSISMEMBER e [c, k, m] w = Inr (integer (if str m \<in> set_at e w (str k) then 1 else 0), w) \<and>
    (\<exists>xs. handleSMEMBERS e [c, k] w = Inr (array (map bulk_string xs), w) \<and> distinct xs \<and> set xs = set_at e w (str k))"
proof -
  define old where "old = (case view sets e w (cur_db w) (str k) of None \<Rightarrow> [] | Some xs \<Rightarrow> xs)"
  have old: "set old = set_at e w (str k)" by (simp add: old_def set_at_def split: option.splits)
  obtain n ys where a: "insert_all (map str ms) old = (n, ys)" by fastforce
  obtain m' zs where r: "erase_all (map str ms) old = (m', zs)" by fastforce
  have add: "handleSADD e (c # k # ms) w = Inr (integer (int n), put_set e (str k) ys w)"
    using assms(1,2,5) a by (auto simp: handleSADD_def shard_sets old_def Suc_le_eq)
  have rem: "\<exists>w1. handleSREM e (c # k # ms) w = Inr (integer (int m'), w1) \<and>
      set_at e w1 = (set_at e w)(str k := set zs)"
  proof (cases "view sets e w (cur_db w) (str k)")
    case None
    then have "old = []" by (simp add: old_def)
    then have "m' = 0" "set zs = {}" using erase_all_spec [OF r] by auto
    moreover have "set_at e w (str k) = {}" using None by (simp add: set_at_def)
    ultimately show ?thesis using assms(1,2) None by (auto simp: handleSREM_def shard_sets fun_eq_iff)
  next
    case (Some xs)
    then show ?thesis using assms(1,2) r by (auto simp: handleSREM_def shard_sets old_def set_at_put fun_eq_iff)
  qed
  have d: "distinct old" using set_ok_view [OF assms(3)] by (auto simp: old_def split: option.splits)
  have "int (length old) = int (card (set_at e w (str k)))" using distinct_card [OF d] old by simp
  then have card: "handleSCARD e [c, k] w = Inr (integer (int (card (set_at e w (str k)))), w)"
    using assms(1,2) by (auto simp: handleSCARD_def shard_sets old_def split: option.splits)
  have mem: "\<exists>xs. handleSMEMBERS e [c, k] w = Inr (array (map bulk_string xs), w) \<and> distinct xs \<and> set xs = set_at e w (str k)"
    using assms(1,2) d old iter_set [OF assms(4)] iter_distinct [OF assms(4)]
    by (cases "view sets e w (cur_db w) (str k)") (auto simp: handleSMEMBERS_def shard_sets old_def)
  have ism: "handleSISMEMBER e [c, k, m] w = Inr (integer (if str m \<in> set_at e w (str k) then 1 else 0), w)"
    using assms(1,2) by (auto simp: handleSISMEMBER_def shard_sets set_at_def split: option.splits)
  show ?thesis
    using add rem card mem ism insert_all_spec [OF a] erase_all_spec [OF r] old
    by (auto simp: set_at_put fun_eq_iff Int_commute)
qed

theorem set_commands_are_set_operations_witness:
  "\<exists>w1. handleSADD demo_env (map bulk_string [''SADD'', ''s'', ''a'', ''a'']) demo_world = Inr (integer 1, w1)"
proof -
  have "view sets demo_env demo_world 0 = Map.empty"
    by (rule ext) (simp add: view_def demo_world_def mod_sock_def new_world_def new_server_def shard_empty_def)
  then show ?thesis
    using set_commands_are_set_operations [of demo_world demo_env "[bulk_string ''a'', bulk_string ''a'']" "bulk_string ''SADD''" "bulk_string ''s''"]
    by (auto simp: dbs_ok_demo iter_ok_demo set_at_def)
qed

text \<open>SDIFF and SINTER reply with the difference and the intersection of the named sets, a
  missing key counting as empty, and SUNION with the union provided the first key exists; each
  member is listed once. When the first key of SUNION is missing the reply is empty whatever the
  other sets hold.\<close>

theorem set_algebra:
  assumes "1 \<le> m_auth_level (sock w)" and "db_valid w" and "dbs_ok w" and "iter_ok e"
  shows "(\<exists>xs. handleSDIFF e (c # k # ks) w = Inr (array (map bulk_string xs), w) \<and> distinct xs \<and>
      set xs = set_at e w (str k) - (\<Union>j \<in> str ` set ks. set_at e w j)) \<and>
    (\<exists>xs. handleSINTER e (c # k # ks) w = Inr (array (map bulk_string xs), w) \<and> distinct xs \<and>
      set xs = {m \<in> set_at e w (str k). \<forall>j \<in> str ` set ks. m \<in> set_at e w j}) \<and>
    (\<exists>xs. handleSUNION e (c # k # ks) w = Inr (array (map bulk_string xs), w) \<and> distinct xs \<and>
      set xs = (if view sets e w (cur_db w) (str k) = None then {}
                else set_at e w (str k) \<union> (\<Union>j \<in> str ` set ks. set_at e w j)))"
proof (cases "view sets e w (cur_db w) (str k)")
  case None
  then show ?thesis using assms(1,2)
    by (auto simp: handleSDIFF_def handleSINTER_def handleSUNION_def shard_sets set_at_def)
next
  case (Some xs)
  have d: "distinct (iter e xs)" and s: "set (iter e xs) = set_at e w (str k)"
    using set_ok_view [OF assms(3) Some] iter_distinct [OF assms(4)] iter_set [OF assms(4)] view_set_at [OF Some] by auto
  obtain n ys where a: "insert_all (iter e xs) [] = (n, ys)" by fastforce
  obtain rs where u: "sunion_loop e (map str ks) ys w = Inr rs" "set rs = set ys \<union> (\<Union>j \<in> set (map str ks). set_at e w j)"
      "distinct ys \<longrightarrow> distinct rs"
    using sunion_loop_spec [OF assms(2,4)] by blast
  have ys: "set ys = set_at e w (str k)" "distinct ys" using insert_all_spec [OF a] s by auto
  have 1: "handleSDIFF e (c # k # ks) w =
      Inr (array (map bulk_string (filter (\<lambda>m. \<forall>j \<in> str ` set ks. m \<notin> set_at e w j) (iter e xs))), w)"
    using assms(1,2) Some by (simp add: handleSDIFF_def shard_sets sdiff_loop_spec)
  have 2: "handleSINTER e (c # k # ks) w =
      Inr (array (map bulk_string (filter (\<lambda>m. \<forall>j \<in> str ` set ks. m \<in> set_at e w j) (iter e xs))), w)"
    using assms(1,2) Some by (simp add: handleSINTER_def shard_sets sinter_loop_spec)
  have 3: "handleSUNION e (c # k # ks) w = Inr (array (map bulk_string (iter e rs)), w)"
    using assms(1,2) Some a u(1) by (simp add: handleSUNION_def shard_sets)
  have "set (filter (\<lambda>m. \<forall>j \<in> str ` set ks. m \<notin> set_at e w j) (iter e xs)) = set_at e w (str k) - (\<Union>j \<in> str ` set ks. set_at e w j)"
    "set (filter (\<lambda>m. \<forall>j \<in> str ` set ks. m \<in> set_at e w j) (iter e xs)) = {m \<in> set_at e w (str k). \<forall>j \<in> str ` set ks. m \<in> set_at e w j}"
    "set (iter e rs) = set_at e w (str k) \<union> (\<Union>j \<in> str ` set ks. set_at e w j)" "distinct (iter e rs)"
    using s ys u iter_set [OF assms(4)] iter_distinct [OF assms(4)] by auto
  note sets3 = this
  show ?thesis
  proof (intro conjI)
    show "\<exists>xs. handleSDIFF e (c # k # ks) w = Inr (array (map bulk_string xs), w) \<and> distinct xs \<and>
        set xs = set_at e w (str k) - (\<Union>j \<in> str ` set ks. set_at e w j)"
      by (intro exI conjI, rule 1, use d in simp, rule sets3(1))
    show "\<exists>xs. handleSINTER e (c # k # ks) w = Inr (array (map bulk_string xs), w) \<and> distinct xs \<and>
        set xs = {m \<in> set_at e w (str k). \<forall>j \<in> str ` set ks. m \<in> set_at e w j}"
      by (intro exI conjI, rule 2, use d in simp, rule sets3(2))
    show "\<exists>xs. handleSUNION e (c # k # ks) w = Inr (array (map bulk_string xs), w) \<and> distinct xs \<and>
        set xs = (if view sets e w (cur_db w) (str k) = None then {}
                  else set_at e w (str k) \<union> (\<Union>j \<in> str ` set ks. set_at e w j))"
      by (intro exI conjI, rule 3, rule sets3(4), simp add: Some sets3(3))
  qed
qed

theorem set_algebra_witness:
  "\<exists>xs. handleSUNION demo_env (map bulk_string [''SUNION'', ''none'', ''s'']) (put_set demo_env ''s'' [''a''] demo_world)
     = Inr (array (map bulk_string xs), put_set demo_env ''s'' [''a''] demo_world) \<and> set xs = {}"
proof -
  let ?w = "put_set demo_env ''s'' [''a''] demo_world"
  have "view sets demo_env demo_world 0 = Map.empty"
    by (rule ext) (simp add: view_def demo_world_def mod_sock_def new_world_def new_server_def shard_empty_def)
  then have "view sets demo_env ?w (cur_db ?w) ''none'' = None" by (simp add: view_put_set)
  moreover have "dbs_ok ?w" by (simp add: dbs_ok_put_set dbs_ok_demo)
  ultimately show ?thesis
    using set_algebra [of ?w demo_env "bulk_string ''SUNION''" "bulk_string ''none''" "[bulk_string ''s'']"]
    by (auto simp: iter_ok_demo)
qed

text \<open>SMOVE of a member the source does not have to a key that does not exist replies 0 but leaves
  an empty set behind, and SRANDMEMBER of that key then divides by zero.\<close>

theorem smove_leaves_empty_set:
  assumes "1 \<le> m_auth_level (sock w)" and "db_valid w" and "iter_ok e"
    and "view sets e w (cur_db w) (str s) \<noteq> None" and "str m \<notin> set_at e w (str s)"
    and "view sets e w (cur_db w) (str d) = None" and "\<not> rehash e (length (sets (shard_of e w (str d))))"
  shows "\<exists>w1. handleSMOVE e [c, s, d, m] w = Inr (integer 0, w1) \<and> view sets e w1 (cur_db w) (str d) = Some [] \<and>
    handleSRANDMEMBER e [c', d] w1 = Inl DivByZero"
proof -
  obtain xs where xs: "view sets e w (cur_db w) (str s) = Some xs" "str m \<notin> set xs"
    using assms(4,5) by (auto simp: set_at_def)
  have sd: "str s \<noteq> str d" using assms(4,6) by auto
  let ?w = "put_set e (str d) [] w"
  have "iter e [] = []" using iter_length [OF assms(3), of "[]"] by simp
  moreover have "view sets e ?w (cur_db w) (str d) = Some []" by (simp add: view_put_set)
  ultimately have "handleSRANDMEMBER e [c', d] ?w = Inl DivByZero"
    using assms(1,2) by (simp add: handleSRANDMEMBER_def shard_sets random_member_def)
  moreover have "handleSMOVE e [c, s, d, m] w = Inr (integer 0, ?w)"
    using assms(1,2,6,7) xs sd by (simp add: handleSMOVE_def shard_sets)
  ultimately show ?thesis by (simp add: view_put_set)
qed

theorem smove_leaves_empty_set_witness:
  "\<exists>w1. handleSMOVE demo_env (map bulk_string [''SMOVE'', ''s'', ''d'', ''x'']) (put_set demo_env ''s'' [''a''] demo_world) = Inr (integer 0, w1) \<and>
     handleSRANDMEMBER demo_env (map bulk_string [''SRANDMEMBER'', ''d'']) w1 = Inl DivByZero"
proof -
  let ?w = "put_set demo_env ''s'' [''a''] demo_world"
  have "view sets demo_env demo_world 0 = Map.empty"
    by (rule ext) (simp add: view_def demo_world_def mod_sock_def new_world_def new_server_def shard_empty_def)
  then have "view sets demo_env ?w (cur_db ?w) = [''s'' \<mapsto> [''a'']]" by (simp add: view_put_set)
  moreover have "\<not> rehash demo_env n" for n by (simp add: demo_env_def)
  ultimately show ?thesis
    using smove_leaves_empty_set [of ?w demo_env "bulk_string ''s''" "bulk_string ''x''" "bulk_string ''d''" "bulk_string ''SMOVE''"
        "bulk_string ''SRANDMEMBER''"]
    by (auto simp: iter_ok_demo set_at_def)
qed

end
