(* ===== verification/KeyCommands.thy ===== *)
theory KeyCommands
  imports HashCommands ListCommands SetCommands
begin

text \<open>
  The commands on keys of any type: FLUSHDB, FLUSHDBALL, DBSIZE, EXPIRE, PEXPIRE, TTL, PTTL, PERSIST,
  RENAME, RENAMENX and RANDOMKEY of \<open>command_handler_table.cpp\<close>. (KEYS and SCAN are in theory
  \<open>Scan\<close>.)
\<close>

subsection \<open>Whole databases\<close>

definition flush_db :: "nat \<Rightarrow> world \<Rightarrow> world" where
  "flush_db d w = mod_self (\<lambda>s. s\<lparr>m_dbs := (m_dbs s)(d := (\<lambda>i. if i < SHARD_COUNT then shard_empty else m_dbs s d i))\<rparr>) w"

definition getDB :: "world \<Rightarrow> nat res" where
  "getDB w = (if db_valid w then Inr (cur_db w) else Inl OutOfBounds)"

definition handleFLUSHDB :: handler where
  "handleFLUSHDB e args w = require_auth w
     (if isAdmin w then
        if length args < 1 \<or> length args > 2 then Inr (wrong_args ''FLUSHDB'', w)
        else bnd (getDB w) (\<lambda>d. Inr (ok_reply, flush_db d w))
      else if m_auth_level (sock w) = 1 then
        if length args \<noteq> 2 then Inr (error (''ERR maybe need '' @ [CHR 0x27] @ ''FLUSHDB CONFIRM''), w)
        else if toupper (str (args ! 1)) = ''CONFIRM'' then bnd (getDB w) (\<lambda>d. Inr (ok_reply, flush_db d w))
        else Inr (error (''ERR maybe need '' @ quoted ''FLUSHDB CONFIRM''), w)
      else Inr (auth_required, w))"

definition flush_all :: "world \<Rightarrow> world" where
  "flush_all w = fold flush_db [0..<DB_COUNT] w"

definition handleFLUSHDBALL :: handler where
  "handleFLUSHDBALL e args w = require_auth w
     (if isAdmin w then
        if length args < 1 \<or> length args > 2 then Inr (wrong_args ''FLUSHDBALL'', w)
        else Inr (ok_reply, flush_all w)
      else if m_auth_level (sock w) = 1 then
        if length args \<noteq> 2 then Inr (error (''ERR maybe need '' @ [CHR 0x27] @ ''FLUSHDBALL CONFIRM''), w)
        else if toupper (str (args ! 1)) = ''CONFIRM'' then Inr (ok_reply, flush_all w)
        else Inr (error (''ERR authentication required, maybe need '' @ [CHR 0x27] @ ''FLUSHDBALL CONFIRM''), w)
      else Inr (auth_required, w))"

definition handleDBSIZE :: handler where
  "handleDBSIZE e args w = require_auth w
     (bnd (getDB w) (\<lambda>d.
       Inr (integer (int (sum_list (map (\<lambda>i. let sh = m_dbs (self w) d i in
              length (store sh) + length (lists sh) + length (hashes sh) + length (zset sh)) [0..<SHARD_COUNT]))), w)))"

subsection \<open>Expiry\<close>

text \<open>EXPIRE (\<open>unit\<close> one second) and PEXPIRE (\<open>unit\<close> one millisecond), in nanoseconds.\<close>

definition expire_in :: "int \<Rightarrow> handler" where
  "expire_in unit e args w = require_auth w
     (bnd (arg args 2) (\<lambda>s.
       case stoll s of None \<Rightarrow> Inr (error ''ERR value is not an integer or out of range'', w)
       | Some n \<Rightarrow>
           if n \<le> 0 then Inr (error ''ERR invalid expire time'', w)
           else bnd (arg args 1) (\<lambda>key. bnd (getShard e w key) (\<lambda>sh.
             case map_of (store sh) key of None \<Rightarrow> Inr (integer 0, w)
             | Some d \<Rightarrow> bnd (deadline (clock e 0) unit n) (\<lambda>t.
                 Inr (integer 1, put_string e key \<lparr>val = val d, expire = Some t\<rparr> w))))))"

definition handleEXPIRE :: handler where
  "handleEXPIRE = expire_in 1000000000"

definition handlePEXPIRE :: handler where
  "handlePEXPIRE = expire_in 1000000"

definition time_left :: "int \<Rightarrow> handler" where
  "time_left unit e args w = require_auth w
     (bnd (arg args 1) (\<lambda>key. bnd (getShard e w key) (\<lambda>sh.
       case map_of (store sh) key of None \<Rightarrow> Inr (integer (- 2), w)
       | Some d \<Rightarrow>
           (case expire d of None \<Rightarrow> Inr (integer (- 1), w)
            | Some t \<Rightarrow>
                let now = clock e 0 in
                if now \<ge> t then Inr (integer (- 2), w)
                else Inr (integer ((t - now) div unit), w)))))"

definition handleTTL :: handler where
  "handleTTL = time_left 1000000000"

definition handlePTTL :: handler where
  "handlePTTL = time_left 1000000"

definition handlePERSIST :: handler where
  "handlePERSIST e args w = require_auth w
     (bnd (arg args 1) (\<lambda>key. bnd (getShard e w key) (\<lambda>sh.
       case map_of (store sh) key of None \<Rightarrow> Inr (integer 0, w)
       | Some d \<Rightarrow> if expire d = None then Inr (integer 0, w)
                   else Inr (integer 1, put_string e key \<lparr>val = val d, expire = None\<rparr> w))))"

subsection \<open>Renaming\<close>

definition key_type :: "DataShard \<Rightarrow> string \<Rightarrow> nat option" where
  "key_type sh key =
     (if map_of (store sh) key \<noteq> None then Some 0
      else if map_of (hashes sh) key \<noteq> None then Some 1
      else if map_of (lists sh) key \<noteq> None then Some 2
      else if map_of (sets sh) key \<noteq> None then Some 3
      else if map_of (zset sh) key \<noteq> None then Some 4
      else None)"

definition del_zset :: "env \<Rightarrow> string \<Rightarrow> world \<Rightarrow> world" where
  "del_zset e key w = mod_shard e key (zset_update (erase key)) w"

definition del_scores :: "env \<Rightarrow> string \<Rightarrow> world \<Rightarrow> world" where
  "del_scores e key w = mod_shard e key (zset_score_update (erase key)) w"

definition put_zset :: "env \<Rightarrow> string \<Rightarrow> zlist \<Rightarrow> world \<Rightarrow> world" where
  "put_zset e key z w = mod_shard e key (zset_update (insert_or_assign key z)) w"

definition put_scores :: "env \<Rightarrow> string \<Rightarrow> double hmap \<Rightarrow> world \<Rightarrow> world" where
  "put_scores e key m w = mod_shard e key (zset_score_update (insert_or_assign key m)) w"

text \<open>Removing the new name: only in the first container that has it.\<close>

definition remove_newkey :: "env \<Rightarrow> string \<Rightarrow> world \<Rightarrow> world" where
  "remove_newkey e newkey w =
     (case key_type (shard_of e w newkey) newkey of
        None \<Rightarrow> w
      | Some t \<Rightarrow>
          if t = 0 then del_string e newkey w
          else if t = 1 then del_hash e newkey w
          else if t = 2 then del_list e newkey w
          else if t = 3 then del_set e newkey w
          else del_scores e newkey (del_zset e newkey w))"

text \<open>
  Moving the data of type \<open>t\<close>. When both names are in one shard, the value is passed by reference
  into the map that is about to grow: if the insertion moves the storage, the reference dangles.
\<close>

definition same_shard :: "env \<Rightarrow> string \<Rightarrow> string \<Rightarrow> bool" where
  "same_shard e a b \<longleftrightarrow> getShardIndex e a = getShardIndex e b"

definition moves :: "env \<Rightarrow> string \<Rightarrow> string \<Rightarrow> nat \<Rightarrow> bool" where
  "moves e key newkey n \<longleftrightarrow> same_shard e key newkey \<and> rehash e n"

definition move_zset :: "env \<Rightarrow> string \<Rightarrow> string \<Rightarrow> world \<Rightarrow> world res" where
  "move_zset e key newkey w =
     (let old = shard_of e w key; new = shard_of e w newkey;
          z = the (map_of (zset old) key);
          sc = (case map_of (zset_score old) key of None \<Rightarrow> [] | Some m \<Rightarrow> m)
      in if same_shard e key newkey then
           if rehash e (length (zset new)) \<or> rehash e (length (zset_score new)) then Inl UseAfterFree
           else Inr (del_scores e key (del_zset e key (put_scores e newkey sc (put_zset e newkey z w))))
         else
           let w1 = del_zset e key (if map_of (zset new) newkey = None then put_zset e newkey z w else w);
               w2 = (if map_of (zset_score old) key = None then w1
                     else del_scores e key (if map_of (zset_score new) newkey = None then put_scores e newkey sc w1 else w1))
           in Inr w2)"

definition move_key :: "env \<Rightarrow> string \<Rightarrow> string \<Rightarrow> nat \<Rightarrow> world \<Rightarrow> world res" where
  "move_key e key newkey t w =
     (let old = shard_of e w key; new = shard_of e w newkey in
      if t = 0 then
        (if moves e key newkey (length (store new)) then Inl UseAfterFree
         else Inr (del_string e key (put_string e newkey (the (map_of (store old) key)) w)))
      else if t = 1 then Inr (del_hash e key (put_hash e newkey (the (map_of (hashes old) key)) w))
      else if t = 2 then
        (if moves e key newkey (length (lists new)) then Inl UseAfterFree
         else Inr (del_list e key (put_list e newkey (the (map_of (lists old) key)) w)))
      else if t = 3 then
        (if moves e key newkey (length (sets new)) then Inl UseAfterFree
         else Inr (del_set e key (put_set e newkey (the (map_of (sets old) key)) w)))
      else move_zset e key newkey w)"

definition handleRENAME :: handler where
  "handleRENAME e args w = require_auth w
     (bnd (arg args 1) (\<lambda>key. bnd (arg args 2) (\<lambda>newkey.
       if key = newkey then Inr (ok_reply, w)
       else bnd (getShard e w key) (\<lambda>old_shard.
         case key_type old_shard key of None \<Rightarrow> Inr (error ''ERR no such key'', w)
         | Some t \<Rightarrow> bnd (move_key e key newkey t (remove_newkey e newkey w)) (\<lambda>w'. Inr (ok_reply, w'))))))"

definition handleRENAMENX :: handler where
  "handleRENAMENX e args w = require_auth w
     (bnd (arg args 1) (\<lambda>key. bnd (arg args 2) (\<lambda>newkey.
       if key = newkey then Inr (integer 1, w)
       else bnd (getShard e w key) (\<lambda>old_shard.
         case key_type old_shard key of None \<Rightarrow> Inr (error ''ERR no such key'', w)
         | Some t \<Rightarrow>
             if key_type (shard_of e w newkey) newkey \<noteq> None then Inr (integer 0, w)
             else bnd (move_key e key newkey t w) (\<lambda>w'. Inr (integer 1, w'))))))"

subsection \<open>RANDOMKEY\<close>

definition shard_keys :: "env \<Rightarrow> DataShard \<Rightarrow> string list" where
  "shard_keys e sh = iter e (keys (store sh)) @ iter e (keys (hashes sh)) @ iter e (keys (lists sh)) @
     iter e (keys (sets sh)) @ iter e (keys (zset sh))"

definition handleRANDOMKEY :: handler where
  "handleRANDOMKEY e args w = require_auth w
     (bnd (getDB w) (\<lambda>d.
       let all_keys = concat (map (\<lambda>i. shard_keys e (m_dbs (self w) d i)) [0..<SHARD_COUNT])
       in if all_keys = [] then Inr (null_bulk, w)
          else Inr (bulk_string (all_keys ! (rnd e 0 mod length all_keys)), w)))"

subsection \<open>Laws\<close>

lemma sock_key_ops [simp]:
  "sock (del_zset e k w) = sock w" "sock (del_scores e k w) = sock w" "sock (put_zset e k z w) = sock w"
  "sock (put_scores e k m w) = sock w" "sock (flush_db d w) = sock w"
  by (simp_all add: del_zset_def del_scores_def put_zset_def put_scores_def flush_db_def)

lemma view_flush: "view get e (flush_db d w) = (view get e w)(d := (\<lambda>k. map_of (get shard_empty) k))"
  by (intro ext) (simp add: view_def flush_db_def mod_self_def getShardIndex_def SHARD_COUNT_def)

text \<open>An operation on one container leaves the views of the others alone.\<close>

lemma view_frame_ops [simp]:
  "view hashes e (put_string e' k d w) = view hashes e w" "view hashes e (del_string e' k w) = view hashes e w"
  "view lists e (put_string e' k d w) = view lists e w" "view lists e (del_string e' k w) = view lists e w"
  "view sets e (put_string e' k d w) = view sets e w" "view sets e (del_string e' k w) = view sets e w"
  "view store e (put_hash e' k h w) = view store e w" "view store e (del_hash e' k w) = view store e w"
  "view lists e (put_hash e' k h w) = view lists e w" "view lists e (del_hash e' k w) = view lists e w"
  "view sets e (put_hash e' k h w) = view sets e w" "view sets e (del_hash e' k w) = view sets e w"
  "view store e (put_list e' k l w) = view store e w" "view store e (del_list e' k w) = view store e w"
  "view hashes e (put_list e' k l w) = view hashes e w" "view hashes e (del_list e' k w) = view hashes e w"
  "view sets e (put_list e' k l w) = view sets e w" "view sets e (del_list e' k w) = view sets e w"
  "view store e (put_set e' k x w) = view store e w" "view store e (del_set e' k w) = view store e w"
  "view hashes e (put_set e' k x w) = view hashes e w" "view hashes e (del_set e' k w) = view hashes e w"
  "view lists e (put_set e' k x w) = view lists e w" "view lists e (del_set e' k w) = view lists e w"
  by (auto simp: view_def put_string_def del_string_def put_hash_def del_hash_def put_list_def del_list_def
      put_set_def del_set_def mod_shard_def put_shard_def mod_self_def fun_eq_iff)

lemma view_frame_zset [simp]:
  "view store e (del_zset e' k w) = view store e w" "view store e (del_scores e' k w) = view store e w"
  "view hashes e (del_zset e' k w) = view hashes e w" "view hashes e (del_scores e' k w) = view hashes e w"
  "view lists e (del_zset e' k w) = view lists e w" "view lists e (del_scores e' k w) = view lists e w"
  "view sets e (del_zset e' k w) = view sets e w" "view sets e (del_scores e' k w) = view sets e w"
  by (auto simp: view_def del_zset_def del_scores_def mod_shard_def put_shard_def mod_self_def fun_eq_iff)

lemma key_type_view:
  "key_type (shard_of e w k) k =
     (if view store e w (cur_db w) k \<noteq> None then Some 0 else if view hashes e w (cur_db w) k \<noteq> None then Some 1
      else if view lists e w (cur_db w) k \<noteq> None then Some 2 else if view sets e w (cur_db w) k \<noteq> None then Some 3
      else if view zset e w (cur_db w) k \<noteq> None then Some 4 else None)"
  by (simp add: key_type_def view_curs)

text \<open>Whatever \<open>remove_newkey\<close> removes, it is only the new name.\<close>

lemma remove_newkey_frame:
  "sock (remove_newkey e n w) = sock w"
  "k \<noteq> n \<Longrightarrow> view store e (remove_newkey e n w) (cur_db w) k = view store e w (cur_db w) k"
  "k \<noteq> n \<Longrightarrow> view hashes e (remove_newkey e n w) (cur_db w) k = view hashes e w (cur_db w) k"
  "k \<noteq> n \<Longrightarrow> view lists e (remove_newkey e n w) (cur_db w) k = view lists e w (cur_db w) k"
  "k \<noteq> n \<Longrightarrow> view sets e (remove_newkey e n w) (cur_db w) k = view sets e w (cur_db w) k"
  by (auto simp: remove_newkey_def view_put_string view_put_hash view_put_list view_put_set split: option.splits)

lemma upd_ext: "(\<And>k. k \<noteq> n \<Longrightarrow> f k = g k) \<Longrightarrow> f(n := x, k' := y) = g(n := x, k' := y)"
  by (auto simp: fun_eq_iff)

lemma view_curs_rev: "map_of (store (shard_of e w k)) k = view store e w (cur_db w) k"
  "map_of (hashes (shard_of e w k)) k = view hashes e w (cur_db w) k"
  "map_of (lists (shard_of e w k)) k = view lists e w (cur_db w) k"
  "map_of (sets (shard_of e w k)) k = view sets e w (cur_db w) k"
  by (rule view_curs)+

subsection \<open>Properties\<close>

text \<open>RENAME moves the value: whatever container holds the key first (strings, hashes, lists,
  sets, in this order; sorted sets are
  excluded here), the new name then holds exactly that value in that container, the old name
  is gone from it and every other name keeps its value; a key that does not exist is an error and
  changes nothing. (The storage must not move during the insertion when both names share a shard.)\<close>

theorem rename_moves_value:
  assumes "1 \<le> m_auth_level (sock w)" and "db_valid w" and "str k \<noteq> str n" and "\<forall>m. \<not> rehash e m"
    and "key_type (shard_of e w (str k)) (str k) \<noteq> Some 4"
  shows "if key_type (shard_of e w (str k)) (str k) = None then handleRENAME e [c, k, n] w = Inr (error ''ERR no such key'', w)
    else \<exists>w'. handleRENAME e [c, k, n] w = Inr (ok_reply, w') \<and>
      (if view store e w (cur_db w) (str k) \<noteq> None
       then view store e w' (cur_db w) = (view store e w (cur_db w))(str n := view store e w (cur_db w) (str k), str k := None)
       else if view hashes e w (cur_db w) (str k) \<noteq> None
       then view hashes e w' (cur_db w) = (view hashes e w (cur_db w))(str n := view hashes e w (cur_db w) (str k), str k := None)
       else if view lists e w (cur_db w) (str k) \<noteq> None
       then view lists e w' (cur_db w) = (view lists e w (cur_db w))(str n := view lists e w (cur_db w) (str k), str k := None)
       else view sets e w' (cur_db w) = (view sets e w (cur_db w))(str n := view sets e w (cur_db w) (str k), str k := None))"
proof -
  let ?r = "remove_newkey e (str n) w"
  have m: "\<not> moves e a b i" for a b i using assms(4) by (simp add: moves_def)
  note rf = remove_newkey_frame [where e = e and n = "str n" and w = w]
  consider (none) "key_type (shard_of e w (str k)) (str k) = None"
    | (s) v where "view store e w (cur_db w) (str k) = Some v"
    | (h) v where "view store e w (cur_db w) (str k) = None" "view hashes e w (cur_db w) (str k) = Some v"
    | (l) v where "view store e w (cur_db w) (str k) = None" "view hashes e w (cur_db w) (str k) = None" "view lists e w (cur_db w) (str k) = Some v"
    | (x) v where "view store e w (cur_db w) (str k) = None" "view hashes e w (cur_db w) (str k) = None" "view lists e w (cur_db w) (str k) = None" "view sets e w (cur_db w) (str k) = Some v"
    using assms(5) by (auto simp: key_type_view split: if_splits)
  then show ?thesis
  proof cases
    case none
    then show ?thesis using assms(1-3) by (simp add: handleRENAME_def)
  next
    case s
    then show ?thesis using assms(1-3) m rf
      by (auto simp: handleRENAME_def key_type_view move_key_def view_curs_rev view_put_string intro!: upd_ext)
  next
    case h
    then show ?thesis using assms(1-3) m rf
      by (auto simp: handleRENAME_def key_type_view move_key_def view_curs_rev view_put_hash intro!: upd_ext)
  next
    case l
    then show ?thesis using assms(1-3) m rf
      by (auto simp: handleRENAME_def key_type_view move_key_def view_curs_rev view_put_list intro!: upd_ext)
  next
    case x
    then show ?thesis using assms(1-3) m rf
      by (auto simp: handleRENAME_def key_type_view move_key_def view_curs_rev view_put_set intro!: upd_ext)
  qed
qed

theorem rename_moves_value_witness:
  "\<exists>w'. handleRENAME demo_env (map bulk_string [''RENAME'', ''a'', ''b'']) (put_list demo_env ''a'' [''x''] demo_world) = Inr (ok_reply, w') \<and>
     view lists demo_env w' 0 ''b'' = Some [''x'']"
proof -
  let ?w = "put_list demo_env ''a'' [''x''] demo_world"
  have v: "view store demo_env ?w 0 ''a'' = None" "view hashes demo_env ?w 0 ''a'' = None" "view lists demo_env ?w 0 ''a'' = Some [''x'']"
    by (simp_all add: view_put_list) (simp_all add: view_def demo_world_def mod_sock_def new_world_def new_server_def shard_empty_def)
  have "\<forall>m. \<not> rehash demo_env m" by (simp add: demo_env_def)
  from rename_moves_value [OF _ _ _ this, of ?w "bulk_string ''a''" "bulk_string ''b''" "bulk_string ''RENAME''"] v
  show ?thesis by (auto simp: key_type_view)
qed

text \<open>EXPIRE sets the deadline of an existing string: TTL then counts down the whole seconds
  left, answers -2 from the deadline on, PERSIST takes the deadline away again, and EXPIRE of a missing
  key changes nothing.\<close>

theorem expire_then_ttl:
  assumes "1 \<le> m_auth_level (sock w)" and "db_valid w" and "stoll (str n) = Some secs" and "0 < secs"
    and "int64_ok (secs * 1000000000)" and "int64_ok (clock e 0 + secs * 1000000000)" and "std_hash e' = std_hash e"
  shows "if strings e w (str k) = None then handleEXPIRE e [c, k, n] w = Inr (integer 0, w)
    else \<exists>w'. handleEXPIRE e [c, k, n] w = Inr (integer 1, w') \<and>
      handleTTL e' [c, k] w' = Inr (integer (if clock e 0 + secs * 1000000000 \<le> clock e' 0 then - 2
        else (clock e 0 + secs * 1000000000 - clock e' 0) div 1000000000), w') \<and>
      (\<exists>w''. handlePERSIST e' [c, k] w' = Inr (integer 1, w'') \<and> handleTTL e' [c, k] w'' = Inr (integer (- 1), w''))"
proof (cases "strings e w (str k)")
  case None
  then show ?thesis using assms(1-4) by (simp add: handleEXPIRE_def expire_in_def shard_strings)
next
  case (Some d)
  have v: "view store e' = view store e" "getShardIndex e' = getShardIndex e"
    using assms(7) by (auto simp: view_def getShardIndex_def fun_eq_iff)
  have p: "put_string e' = put_string e" by (auto simp: put_string_def mod_shard_def v fun_eq_iff)
  let ?w = "put_string e (str k) \<lparr>val = val d, expire = Some (clock e 0 + secs * 1000000000)\<rparr> w"
  have "handleEXPIRE e [c, k, n] w = Inr (integer 1, ?w)"
    using assms Some by (simp add: handleEXPIRE_def expire_in_def shard_strings deadline_def)
  then show ?thesis using assms(1,2) Some
    by (auto simp: handleTTL_def time_left_def handlePERSIST_def shard_strings v p view_put_string)
qed

theorem expire_then_ttl_witness:
  "\<exists>w'. handleEXPIRE demo_env (map bulk_string [''EXPIRE'', ''k'', ''9'']) (put_string demo_env ''k'' \<lparr>val = ''v'', expire = None\<rparr> demo_world) = Inr (integer 1, w') \<and>
     handleTTL demo_env (map bulk_string [''EXPIRE'', ''k'']) w' = Inr (integer 9, w')"
proof -
  let ?w = "put_string demo_env ''k'' \<lparr>val = ''v'', expire = None\<rparr> demo_world"
  have "stoll ''9'' = Some 9" by code_simp
  moreover have "strings demo_env ?w ''k'' \<noteq> None" by (simp add: view_put_string)
  ultimately show ?thesis
    using expire_then_ttl [of ?w "bulk_string ''9''" 9 demo_env demo_env "bulk_string ''k''" "bulk_string ''EXPIRE''"]
    by (auto simp: int64_ok_def demo_env_def)
qed

text \<open>FLUSHDB by a confirmed client empties every container of the current database and touches no
  other database.\<close>

theorem flushdb_empties:
  assumes "m_auth_level (sock w) = 1" and "db_valid w" and "\<not> isAdmin w" and "toupper (str a) = ''CONFIRM''"
  shows "\<exists>w'. handleFLUSHDB e [c, a] w = Inr (ok_reply, w') \<and>
    view store e w' = (view store e w)(cur_db w := Map.empty) \<and> view hashes e w' = (view hashes e w)(cur_db w := Map.empty) \<and>
    view lists e w' = (view lists e w)(cur_db w := Map.empty) \<and> view sets e w' = (view sets e w)(cur_db w := Map.empty) \<and>
    view zset e w' = (view zset e w)(cur_db w := Map.empty) \<and> view zset_score e w' = (view zset_score e w)(cur_db w := Map.empty)"
  using assms by (auto simp: handleFLUSHDB_def getDB_def view_flush shard_empty_def)

theorem flushdb_empties_witness:
  "\<exists>w'. handleFLUSHDB demo_env (map bulk_string [''FLUSHDB'', ''confirm'']) demo_world = Inr (ok_reply, w') \<and>
     view store demo_env w' = (view store demo_env demo_world)(0 := Map.empty)"
proof -
  have "toupper ''confirm'' = ''CONFIRM''" by code_simp
  moreover have "\<not> isAdmin demo_world"
    by (simp add: isAdmin_def demo_world_def mod_sock_def new_world_def new_server_def)
  ultimately show ?thesis
    using flushdb_empties [of demo_world "bulk_string ''confirm''" demo_env "bulk_string ''FLUSHDB''"] by auto
qed

text \<open>DBSIZE counts the keys of the current database except the sets: adding the number of sets
  gives \<open>getTotalKeys\<close>.\<close>

theorem dbsize_omits_sets:
  assumes "1 \<le> m_auth_level (sock w)" and "db_valid w"
  shows "\<exists>n. handleDBSIZE e args w = Inr (integer (int n), w) \<and>
    getTotalKeys w (m_client_db_id (sock w)) = n + sum_list (map (\<lambda>i. length (sets (m_dbs (self w) (cur_db w) i))) [0..<SHARD_COUNT])"
proof -
  show ?thesis using assms
    by (auto simp: handleDBSIZE_def getDB_def getTotalKeys_def db_valid_def Let_def sum_list_addf)
qed

theorem dbsize_omits_sets_witness:
  "\<exists>n. handleDBSIZE demo_env [bulk_string ''DBSIZE''] demo_world = Inr (integer (int n), demo_world)"
  using dbsize_omits_sets [of demo_world demo_env "[bulk_string ''DBSIZE'']"] by auto

end
