(* ===== verification/Scan.thy ===== *)
theory Scan
  imports KeyCommands
begin

text \<open>
  Enumerating keys: \<open>globToRegex\<close>, \<open>matchPattern\<close>, \<open>scanContainer\<close> and \<open>scanKeys\<close> of
  \<open>src/redis_command/server_data.cpp\<close> and the handlers KEYS and SCAN. A position of a scan is a
  shard, a data type (0 to 4) and an offset in the traversal of that container.
\<close>

subsection \<open>Patterns\<close>

definition regex_special :: "char list" where
  "regex_special = ''.+[]()'' @ [CHR 0x5C] @ ''^$''"

definition globToRegex :: "string \<Rightarrow> string" where
  "globToRegex pattern =
     concat (map (\<lambda>c. if c = CHR ''*'' then ''.*'' else if c = CHR ''?'' then ''.''
                      else if c \<in> set regex_special then [CHR 0x5C, c] else [c]) pattern)"

text \<open>\<open>key.find(pattern) != npos\<close>\<close>

fun is_infix :: "string \<Rightarrow> string \<Rightarrow> bool" where
  "is_infix p [] = (p = [])"
| "is_infix p (c # cs) = (take (length p) (c # cs) = p \<or> is_infix p cs)"

definition matchPattern :: "env \<Rightarrow> string \<Rightarrow> string \<Rightarrow> bool" where
  "matchPattern e key pattern \<longleftrightarrow>
     pattern = ''*'' \<or> pattern = key \<or>
     (case std_regex e (globToRegex pattern) of Some f \<Rightarrow> f key | None \<Rightarrow> is_infix pattern key)"

subsection \<open>Scanning\<close>

text \<open>The loop over one container: the keys found, how many matches so far, the offset reached.\<close>

fun scan_loop :: "(string \<Rightarrow> bool) \<Rightarrow> nat \<Rightarrow> string list \<Rightarrow> nat \<Rightarrow> nat \<Rightarrow> string list \<times> nat \<times> nat" where
  "scan_loop match cnt [] matched off = ([], matched, off)"
| "scan_loop match cnt (k # ks) matched off =
     (if matched \<ge> cnt then ([], matched, off)
      else let (fs, m, o') = scan_loop match cnt ks (if match k then Suc matched else matched) (Suc off)
           in (if match k then k # fs else fs, m, o'))"

definition scanContainer ::
  "(string \<Rightarrow> bool) \<Rightarrow> nat \<Rightarrow> string list \<Rightarrow> nat \<Rightarrow> nat \<Rightarrow> bool \<times> string list \<times> nat \<times> nat" where
  "scanContainer match cnt ks start matched =
     (if start \<ge> length ks then (False, [], matched, length ks)
      else let (fs, m, off) = scan_loop match cnt (drop start ks) matched start
           in (m \<ge> cnt, fs, m, off))"

definition container_keys :: "env \<Rightarrow> DataShard \<Rightarrow> int \<Rightarrow> string list" where
  "container_keys e sh ty =
     (if ty = 0 then iter e (keys (store sh)) else if ty = 1 then iter e (keys (hashes sh))
      else if ty = 2 then iter e (keys (lists sh)) else if ty = 3 then iter e (keys (sets sh))
      else if ty = 4 then iter e (keys (zset sh)) else [])"

text \<open>
  The loop over the data types of one shard: \<open>Inl\<close> the position at which it stops, or \<open>Inr\<close> the
  number of matches when the shard is done. A data type outside 0 to 4 is skipped.
\<close>

function scan_types ::
  "env \<Rightarrow> (string \<Rightarrow> bool) \<Rightarrow> nat \<Rightarrow> DataShard \<Rightarrow> int \<Rightarrow> nat \<Rightarrow> nat \<Rightarrow> string list \<times> ((int \<times> nat) + nat)" where
  "scan_types e match cnt sh ty off matched =
     (if ty > 4 \<or> matched \<ge> cnt then ([], Inr matched)
      else if ty < 0 then scan_types e match cnt sh (ty + 1) 0 matched
      else
        let (mr, fs, m, off') = scanContainer match cnt (container_keys e sh ty) off matched
        in if mr then (fs, Inl (ty, off'))
           else let (gs, r) = scan_types e match cnt sh (ty + 1) 0 m in (fs @ gs, r))"
  by pat_completeness auto
termination
  by (relation "measure (\<lambda>(e, match, cnt, sh, ty, off, matched). nat (5 - ty))") auto

declare scan_types.simps [simp del]

text \<open>The loop over the shards; a negative shard number indexes before the array.\<close>

function scan_shards ::
  "env \<Rightarrow> (string \<Rightarrow> bool) \<Rightarrow> nat \<Rightarrow> (nat \<Rightarrow> DataShard) \<Rightarrow> int \<Rightarrow> int \<Rightarrow> nat \<Rightarrow> nat \<Rightarrow> (string list \<times> (int \<times> int \<times> nat) option) res" where
  "scan_shards e match cnt shards idx ty off matched =
     (if idx \<ge> int SHARD_COUNT \<or> matched \<ge> cnt then Inr ([], None)
      else if idx < 0 then Inl OutOfBounds
      else
        let (fs, r) = scan_types e match cnt (shards (nat idx)) ty off matched in
        (case r of Inl (ty', off') \<Rightarrow> Inr (fs, Some (idx, ty', off'))
         | Inr m \<Rightarrow> bnd (scan_shards e match cnt shards (idx + 1) 0 0 m) (\<lambda>(gs, p). Inr (fs @ gs, p))))"
  by pat_completeness auto
termination
  by (relation "measure (\<lambda>(e, match, cnt, shards, idx, ty, off, matched). nat (int SHARD_COUNT - idx))") auto

declare scan_shards.simps [simp del]

text \<open>\<open>scanKeys\<close>: whether the scan is complete, the new cursor and the keys.\<close>

definition clamp_count :: "int \<Rightarrow> nat" where
  "clamp_count cnt = (let c = (if cnt \<le> 0 then 10 else cnt) in nat (if c > 1000 then 1000 else c))"

definition scanKeys ::
  "env \<Rightarrow> world \<Rightarrow> int \<Rightarrow> ScanCursor \<Rightarrow> string \<Rightarrow> int \<Rightarrow> (bool \<times> ScanCursor \<times> string list) res" where
  "scanKeys e w d cursor pattern cnt =
     (if d < 0 \<or> d \<ge> int DB_COUNT then Inr (False, cursor, [])
      else if completed cursor then Inr (True, cursor, [])
      else bnd (scan_shards e (\<lambda>k. matchPattern e k pattern) (clamp_count cnt) (m_dbs (self w) (nat d))
                  (shardIndex cursor) (dataType cursor) (offset cursor) 0) (\<lambda>(ks, p).
        case p of
          Some (sh, ty, off) \<Rightarrow> Inr (False, cursor\<lparr>shardIndex := sh, dataType := ty, offset := off\<rparr>, ks)
        | None \<Rightarrow> Inr (True, (if shardIndex cursor \<ge> int SHARD_COUNT then cursor
              else cursor\<lparr>shardIndex := int SHARD_COUNT, dataType := 0, offset := 0\<rparr>)\<lparr>completed := True\<rparr>, ks)))"

subsection \<open>Handlers\<close>

fun keys_loop :: "env \<Rightarrow> (string \<Rightarrow> bool) \<Rightarrow> DataShard list \<Rightarrow> string list \<Rightarrow> string list" where
  "keys_loop e match [] acc = acc"
| "keys_loop e match (sh # shs) acc =
     (if length acc \<ge> 10000 then acc else keys_loop e match shs (acc @ filter match (shard_keys e sh)))"

definition handleKEYS :: handler where
  "handleKEYS e args w = require_auth w
     (bnd (arg args 1) (\<lambda>pattern.
       case std_regex e (globToRegex pattern) of None \<Rightarrow> Inl UncaughtException
       | Some re \<Rightarrow> bnd (getDB w) (\<lambda>d.
           Inr (array (map bulk_string (keys_loop e re (map (m_dbs (self w) d) [0..<SHARD_COUNT]) [])), w))))"

text \<open>The options MATCH and COUNT; \<open>None\<close> when a count is not a number.\<close>

fun scan_options :: "string list \<Rightarrow> string \<Rightarrow> int \<Rightarrow> (string \<times> int) option" where
  "scan_options (a # b # rest) pattern cnt =
     (if toupper a = ''MATCH'' then scan_options rest b cnt
      else if toupper a = ''COUNT'' then
        (case stoi b of None \<Rightarrow> None | Some n \<Rightarrow> scan_options rest pattern (if n \<le> 0 then 1 else n))
      else scan_options (b # rest) pattern cnt)"
| "scan_options _ pattern cnt = Some (pattern, cnt)"

definition start_cursor :: "MSocket \<Rightarrow> string \<Rightarrow> ScanCursor" where
  "start_cursor s a =
     (let c1 = (if m_hasScanCursor s
                then if completed (m_scanCursor s) \<and> a = ''0'' then cursor_default else m_scanCursor s
                else cursor_default)
      in if a \<noteq> ''0'' then let c2 = deserialize a in if \<not> completed c2 then c2 else c1 else c1)"

definition handleSCAN :: handler where
  "handleSCAN e args w = require_auth w
     (if length args < 2 then Inr (wrong_args ''SCAN'', w)
      else bnd (arg args 1) (\<lambda>a.
        case scan_options (map str (drop 2 args)) ''*'' 10 of None \<Rightarrow> Inr (error ''ERR invalid COUNT'', w)
        | Some (pattern, cnt) \<Rightarrow>
            let dbIndex = sgn (m_client_db_id (sock w)) * (\<bar>m_client_db_id (sock w)\<bar> mod int DB_COUNT);
                cursor = (start_cursor (sock w) a)\<lparr>db := dbIndex\<rparr>
            in bnd (scanKeys e w dbIndex cursor pattern cnt) (\<lambda>(fin, cursor', ks).
                 Inr (array [bulk_string (if fin then ''0'' else serialize cursor'), array (map bulk_string ks)],
                      mod_sock (if fin then clearScanCursor else setScanCursor cursor') w))))"

subsection \<open>What is left to scan\<close>

definition rest_types :: "env \<Rightarrow> DataShard \<Rightarrow> int \<Rightarrow> nat \<Rightarrow> string list" where
  "rest_types e sh ty off =
     drop off (container_keys e sh ty) @ concat (map (container_keys e sh) [ty + 1..4])"

definition rest_shards :: "env \<Rightarrow> (nat \<Rightarrow> DataShard) \<Rightarrow> int \<Rightarrow> int \<Rightarrow> nat \<Rightarrow> string list" where
  "rest_shards e shards idx ty off =
     (if idx \<ge> int SHARD_COUNT then []
      else rest_types e (shards (nat idx)) ty off @
           concat (map (\<lambda>i. rest_types e (shards (nat i)) 0 0) [idx + 1..int SHARD_COUNT - 1]))"

lemma scan_loop_spec:
  assumes "scan_loop match cnt ks matched off = (fs, m, off')" and "matched \<le> cnt"
  shows "\<exists>n \<le> length ks. off' = off + n \<and> fs = filter match (take n ks) \<and> m = matched + length fs \<and> m \<le> cnt \<and>
    (m < cnt \<longrightarrow> n = length ks)"
  using assms
proof (induction ks arbitrary: matched off fs m off')
  case (Cons k ks)
  show ?case
  proof (cases "matched \<ge> cnt")
    case True
    then show ?thesis using Cons.prems by (intro exI [of _ 0]) auto
  next
    case False
    let ?md = "if match k then Suc matched else matched"
    obtain gs where r: "scan_loop match cnt ks ?md (Suc off) = (gs, m, off')" "fs = (if match k then k # gs else gs)"
      using Cons.prems(1) False by (auto split: prod.splits)
    have "?md \<le> cnt" using False by simp
    from Cons.IH [OF r(1) this] obtain n where n: "n \<le> length ks" "off' = Suc off + n" "gs = filter match (take n ks)"
      "m = ?md + length gs" "m \<le> cnt" "m < cnt \<longrightarrow> n = length ks" by blast
    have "fs = filter match (take (Suc n) (k # ks))" "m = matched + length fs" using n(3,4) r(2) by simp_all
    moreover have "Suc n \<le> length (k # ks)" "off' = off + Suc n" "m < cnt \<longrightarrow> Suc n = length (k # ks)"
      using n(1,2,6) by simp_all
    ultimately show ?thesis using n(5) by blast
  qed
qed auto

lemma scanContainer_spec:
  assumes "scanContainer match cnt ks start matched = (mr, fs, m, off)" and "matched < cnt"
  shows "filter match (drop start ks) = fs @ filter match (drop off ks) \<and> m = matched + length fs \<and>
    (if mr then m = cnt else m < cnt \<and> drop off ks = [])"
proof (cases "start \<ge> length ks")
  case True
  then show ?thesis using assms by (auto simp: scanContainer_def)
next
  case False
  have l: "scan_loop match cnt (drop start ks) matched start = (fs, m, off)" and mr: "mr = (m \<ge> cnt)"
    using assms(1) False by (auto simp: scanContainer_def split: prod.splits)
  from scan_loop_spec [OF l less_imp_le [OF assms(2)]]
  obtain n where n: "off = start + n" "fs = filter match (take n (drop start ks))" "m = matched + length fs" "m \<le> cnt"
    "m < cnt \<longrightarrow> n = length (drop start ks)" by blast
  have d: "drop off ks = drop n (drop start ks)" by (simp add: n(1) add.commute)
  have "filter match (drop start ks) = filter match (take n (drop start ks)) @ filter match (drop n (drop start ks))"
    by (metis append_take_drop_id filter_append)
  then have 1: "filter match (drop start ks) = fs @ filter match (drop off ks)" unfolding d n(2) .
  have 2: "drop off ks = []" if "m < cnt" unfolding d using n(5) that by simp
  have 3: "if mr then m = cnt else m < cnt \<and> drop off ks = []"
  proof (cases "m < cnt")
    case True
    with 2 mr show ?thesis by simp
  next
    case False
    with n(4) mr show ?thesis by simp
  qed
  from 1 n(3) 3 show ?thesis by blast
qed

lemma rest_types_step: "ty \<le> 4 \<Longrightarrow> rest_types e sh ty off = drop off (container_keys e sh ty) @ (if ty < 4 then rest_types e sh (ty + 1) 0 else [])"
  by (auto simp: rest_types_def upto_rec1 [of "ty + 1"])

lemma scan_types_spec:
  assumes "scan_types e match cnt sh ty off matched = (fs, r)" and "matched < cnt" and "0 \<le> ty" and "ty \<le> 4"
  shows "case r of Inl (ty', off') \<Rightarrow> filter match (rest_types e sh ty off) = fs @ filter match (rest_types e sh ty' off')
      \<and> matched + length fs = cnt \<and> 0 \<le> ty' \<and> ty' \<le> 4
    | Inr m \<Rightarrow> filter match (rest_types e sh ty off) = fs \<and> m = matched + length fs \<and> m < cnt"
  using assms
proof (induction e match cnt sh ty off matched arbitrary: fs r rule: scan_types.induct)
  case (1 e match cnt sh ty off matched)
  obtain mr gs m off' where c: "scanContainer match cnt (container_keys e sh ty) off matched = (mr, gs, m, off')"
    by (metis prod_cases4)
  note cs = scanContainer_spec [OF c 1(4)]
  have guard: "\<not> (ty > 4 \<or> matched \<ge> cnt)" "\<not> ty < 0" using 1 by auto
  show ?case
  proof (cases mr)
    case True
    then have "fs = gs" "r = Inl (ty, off')" using 1(3) c guard by (subst (asm) scan_types.simps, simp)+
    moreover have "filter match (rest_types e sh ty off) = gs @ filter match (rest_types e sh ty off')"
      using cs by (simp add: rest_types_def)
    ultimately show ?thesis using cs True 1(4-6) by simp
  next
    case False
    obtain hs where h: "scan_types e match cnt sh (ty + 1) 0 m = (hs, r)" "fs = gs @ hs"
      using 1(3) c guard False by (subst (asm) scan_types.simps) (auto split: prod.splits)
    have m: "m < cnt" "m = matched + length gs" "filter match (drop off (container_keys e sh ty)) = gs"
      using cs False by auto
    show ?thesis
    proof (cases "ty < 4")
      case True
      then show ?thesis
        using 1(2) [OF guard c [symmetric] refl refl refl False h(1) m(1)] m h(2) guard rest_types_step [of ty e sh off]
        by (auto split: sum.splits)
    next
      case F: False
      then have "hs = []" "r = Inr m" using h(1) guard by (subst (asm) scan_types.simps, simp)+
      then show ?thesis using m h(2) F guard rest_types_step [of ty e sh off] by auto
    qed
  qed
qed

lemma rest_shards_step:
  "idx < int SHARD_COUNT \<Longrightarrow>
     rest_shards e shards idx ty off = rest_types e (shards (nat idx)) ty off @ rest_shards e shards (idx + 1) 0 0"
  by (simp add: rest_shards_def upto_rec1 [of "idx + 1"])

lemma scan_shards_spec:
  assumes "matched < cnt" and "0 \<le> idx" and "0 \<le> ty" and "ty \<le> 4"
  shows "\<exists>fs p. scan_shards e match cnt shards idx ty off matched = Inr (fs, p) \<and>
    (case p of Some (i', ty', off') \<Rightarrow>
        filter match (rest_shards e shards idx ty off) = fs @ filter match (rest_shards e shards i' ty' off') \<and>
        matched + length fs = cnt \<and> 0 \<le> i' \<and> i' < int SHARD_COUNT \<and> 0 \<le> ty' \<and> ty' \<le> 4
     | None \<Rightarrow> filter match (rest_shards e shards idx ty off) = fs)"
  using assms
proof (induction e match cnt shards idx ty off matched rule: scan_shards.induct)
  case (1 e match cnt shards idx ty off matched)
  show ?case
  proof (cases "idx \<ge> int SHARD_COUNT")
    case True
    then show ?thesis by (subst scan_shards.simps) (simp add: rest_shards_def)
  next
    case False
    have guard: "\<not> (idx \<ge> int SHARD_COUNT \<or> matched \<ge> cnt)" "\<not> idx < 0" using False 1 by auto
    obtain fs r where t: "scan_types e match cnt (shards (nat idx)) ty off matched = (fs, r)" by fastforce
    note ts = scan_types_spec [OF t 1(2,4,5)]
    have step: "rest_shards e shards idx ty off = rest_types e (shards (nat idx)) ty off @ rest_shards e shards (idx + 1) 0 0"
      using False by (intro rest_shards_step) simp
    show ?thesis
    proof (cases r)
      case (Inl q)
      obtain ty' off' where q: "q = (ty', off')" by (cases q)
      have "rest_shards e shards idx ty' off' = rest_types e (shards (nat idx)) ty' off' @ rest_shards e shards (idx + 1) 0 0"
        using False by (intro rest_shards_step) simp
      then show ?thesis using ts Inl q t guard step by (subst scan_shards.simps) auto
    next
      case (Inr m)
      then have m: "m < cnt" "filter match (rest_types e (shards (nat idx)) ty off) = fs" "m = matched + length fs"
        using ts by auto
      from 1(1) [OF guard t [symmetric] refl Inr m(1)] 1(3)
      obtain gs p where g: "scan_shards e match cnt shards (idx + 1) 0 0 m = Inr (gs, p)"
        "case p of Some (i', ty', off') \<Rightarrow>
           filter match (rest_shards e shards (idx + 1) 0 0) = gs @ filter match (rest_shards e shards i' ty' off') \<and>
           m + length gs = cnt \<and> 0 \<le> i' \<and> i' < int SHARD_COUNT \<and> 0 \<le> ty' \<and> ty' \<le> 4
         | None \<Rightarrow> filter match (rest_shards e shards (idx + 1) 0 0) = gs" by auto
      have "scan_shards e match cnt shards idx ty off matched = Inr (fs @ gs, p)"
        using t g(1) guard Inr by (subst scan_shards.simps) simp
      then show ?thesis using g(2) m step by (auto split: option.splits)
    qed
  qed
qed

text \<open>The keys a cursor has still to deliver.\<close>

definition remaining :: "env \<Rightarrow> world \<Rightarrow> int \<Rightarrow> string \<Rightarrow> ScanCursor \<Rightarrow> string list" where
  "remaining e w d pattern c =
     (if completed c then [] else filter (\<lambda>k. matchPattern e k pattern)
        (rest_shards e (m_dbs (self w) (nat d)) (shardIndex c) (dataType c) (offset c)))"

definition cursor_ok :: "ScanCursor \<Rightarrow> bool" where
  "cursor_ok c \<longleftrightarrow> 0 \<le> shardIndex c \<and> 0 \<le> dataType c \<and> dataType c \<le> 4"

lemma clamp_pos: "0 < clamp_count n"
  by (simp add: clamp_count_def Let_def)

lemma scanKeys_step:
  assumes "0 \<le> d" "d < int DB_COUNT" and "cursor_ok c"
  shows "\<exists>fin c' ks. scanKeys e w d c pattern cnt = Inr (fin, c', ks) \<and> cursor_ok c' \<and> completed c' = fin \<and>
    remaining e w d pattern c = ks @ remaining e w d pattern c' \<and> (\<not> fin \<longrightarrow> length ks = clamp_count cnt)"
proof (cases "completed c")
  case True
  then show ?thesis using assms by (auto simp: scanKeys_def remaining_def)
next
  case False
  obtain fs p where s: "scan_shards e (\<lambda>k. matchPattern e k pattern) (clamp_count cnt) (m_dbs (self w) (nat d))
      (shardIndex c) (dataType c) (offset c) 0 = Inr (fs, p)"
    "case p of Some (i', ty', off') \<Rightarrow>
        filter (\<lambda>k. matchPattern e k pattern) (rest_shards e (m_dbs (self w) (nat d)) (shardIndex c) (dataType c) (offset c))
          = fs @ filter (\<lambda>k. matchPattern e k pattern) (rest_shards e (m_dbs (self w) (nat d)) i' ty' off') \<and>
        0 + length fs = clamp_count cnt \<and> 0 \<le> i' \<and> i' < int SHARD_COUNT \<and> 0 \<le> ty' \<and> ty' \<le> 4
     | None \<Rightarrow> filter (\<lambda>k. matchPattern e k pattern) (rest_shards e (m_dbs (self w) (nat d)) (shardIndex c) (dataType c) (offset c)) = fs"
    using scan_shards_spec [OF clamp_pos, of "shardIndex c" "dataType c"] assms(3) unfolding cursor_ok_def by blast
  show ?thesis
  proof (cases p)
    case None
    then show ?thesis using s assms False by (auto simp: scanKeys_def remaining_def cursor_ok_def)
  next
    case (Some q)
    obtain i ty off where q: "q = (i, ty, off)" by (cases q)
    show ?thesis
      by (rule exI [of _ False], rule exI [of _ "c\<lparr>shardIndex := i, dataType := ty, offset := off\<rparr>"], rule exI [of _ fs])
        (use s assms False Some q in \<open>simp add: scanKeys_def remaining_def cursor_ok_def\<close>)
  qed
qed

text \<open>A client that calls SCAN with the returned cursor until it is told to stop.\<close>

fun scan_all :: "nat \<Rightarrow> env \<Rightarrow> world \<Rightarrow> int \<Rightarrow> string \<Rightarrow> int \<Rightarrow> ScanCursor \<Rightarrow> string list res" where
  "scan_all 0 e w d pattern cnt c = Inl Diverges"
| "scan_all (Suc fuel) e w d pattern cnt c =
     bnd (scanKeys e w d c pattern cnt) (\<lambda>(fin, c', ks).
       if fin then Inr ks else bnd (scan_all fuel e w d pattern cnt c') (\<lambda>rs. Inr (ks @ rs)))"

lemma scan_all_spec:
  assumes "0 \<le> d" "d < int DB_COUNT" and "cursor_ok c" and "length (remaining e w d pattern c) < fuel"
  shows "scan_all fuel e w d pattern cnt c = Inr (remaining e w d pattern c)"
  using assms(3,4)
proof (induction fuel arbitrary: c)
  case (Suc fuel)
  obtain fin c' ks where s: "scanKeys e w d c pattern cnt = Inr (fin, c', ks)" "cursor_ok c'" "completed c' = fin"
    "remaining e w d pattern c = ks @ remaining e w d pattern c'" "\<not> fin \<longrightarrow> length ks = clamp_count cnt"
    using scanKeys_step [OF assms(1,2) Suc.prems(1)] by blast
  show ?case
  proof (cases fin)
    case True
    then show ?thesis using s by (simp add: remaining_def)
  next
    case False
    then have "length (remaining e w d pattern c') < fuel" using s(4,5) Suc.prems(2) clamp_pos [of cnt] by simp
    then show ?thesis using Suc.IH [OF s(2)] s False by simp
  qed
qed simp

lemma container_keys_all: "concat (map (container_keys e sh) [0..4]) = shard_keys e sh"
  by (simp add: upto.simps container_keys_def shard_keys_def)

lemma rest_types_0: "rest_types e sh 0 0 = shard_keys e sh"
proof -
  have "[0..4] = 0 # [1..4 :: int]" by (simp add: upto.simps)
  then show ?thesis using container_keys_all [of e sh] by (simp add: rest_types_def)
qed

lemma rest_shards_0: "rest_shards e shards 0 0 0 = concat (map (\<lambda>i. shard_keys e (shards i)) [0..<SHARD_COUNT])"
proof -
  have "rest_shards e shards 0 0 0 = concat (map (\<lambda>i. shard_keys e (shards (nat i))) [0..int SHARD_COUNT - 1])"
    by (simp add: rest_shards_def rest_types_0 upto_rec1 [of 0] SHARD_COUNT_def)
  also have "[0..int SHARD_COUNT - 1] = map int [0..<SHARD_COUNT]"
    by (rule nth_equalityI) auto
  finally show ?thesis by (simp add: o_def)
qed

subsection \<open>Properties\<close>



text \<open>SCAN trusts the cursor text of the client: a cursor with a negative shard number makes the
  server index before the array of shards.\<close>

theorem scan_negative_cursor:
  assumes "1 \<le> m_auth_level (sock w)" and "db_valid w" and "deserialize (str a) = c" and "\<not> completed c"
    and "shardIndex c < 0" and "str a \<noteq> ''0''"
  shows "handleSCAN e [cmd, a] w = Inl OutOfBounds"
proof -
  let ?d = "sgn (m_client_db_id (sock w)) * (\<bar>m_client_db_id (sock w)\<bar> mod int DB_COUNT)"
  have d: "0 \<le> ?d" "?d < int DB_COUNT" using assms(2) by (auto simp: db_valid_def sgn_if DB_COUNT_def)
  have "start_cursor (sock w) (str a) = c" using assms(3,4,6) by (simp add: start_cursor_def)
  moreover have "scan_shards e match n shards (shardIndex c) ty off 0 = Inl OutOfBounds" if "0 < n" for match n shards ty off
    using assms(5) that by (subst scan_shards.simps) (simp add: SHARD_COUNT_def)
  ultimately show ?thesis using assms(1,4) d clamp_pos by (simp add: handleSCAN_def scanKeys_def Let_def not_less)
qed

theorem scan_negative_cursor_witness:
  "handleSCAN demo_env (map bulk_string [''SCAN'', ''-1:0:0'']) demo_world = Inl OutOfBounds"
proof -
  have "deserialize ''-1:0:0'' = \<lparr>db = 0, shardIndex = - 1, dataType = 0, offset = 0, completed = False\<rparr>" by code_simp
  then show ?thesis
    using scan_negative_cursor [of demo_world "bulk_string ''-1:0:0''" _ demo_env "bulk_string ''SCAN''"] by simp
qed

text \<open>KEYS lists the matching keys of the current database in shard order; only whole shards are
  dropped, and only once 10000 keys have been collected.\<close>

theorem keys_lists_matches:
  assumes "1 \<le> m_auth_level (sock w)" and "db_valid w" and "std_regex e (globToRegex (str p)) = Some re"
  shows "\<exists>n \<le> SHARD_COUNT. handleKEYS e [c, p] w = Inr (array (map bulk_string
      (filter re (concat (map (\<lambda>i. shard_keys e (m_dbs (self w) (cur_db w) i)) [0..<n])))), w) \<and>
    (n < SHARD_COUNT \<longrightarrow> 10000 \<le> length (filter re (concat (map (\<lambda>i. shard_keys e (m_dbs (self w) (cur_db w) i)) [0..<n]))))"
proof -
  let ?S = "\<lambda>i. m_dbs (self w) (cur_db w) i"
  have "\<exists>n \<le> length shs. keys_loop e re shs acc = acc @ filter re (concat (map (shard_keys e) (take n shs))) \<and>
      (n < length shs \<longrightarrow> 10000 \<le> length (acc @ filter re (concat (map (shard_keys e) (take n shs)))))" for shs acc
  proof (induction shs arbitrary: acc)
    case (Cons sh shs)
    show ?case
    proof (cases "length acc \<ge> 10000")
      case True
      then show ?thesis by (intro exI [of _ 0]) simp
    next
      case False
      from Cons [of "acc @ filter re (shard_keys e sh)"] obtain n where "n \<le> length shs"
        "keys_loop e re shs (acc @ filter re (shard_keys e sh)) = (acc @ filter re (shard_keys e sh)) @ filter re (concat (map (shard_keys e) (take n shs)))"
        "n < length shs \<longrightarrow> 10000 \<le> length ((acc @ filter re (shard_keys e sh)) @ filter re (concat (map (shard_keys e) (take n shs))))"
        by blast
      then show ?thesis using False by (intro exI [of _ "Suc n"]) simp
    qed
  qed simp
  from this [of "map ?S [0..<SHARD_COUNT]" "[]"] obtain n where n: "n \<le> SHARD_COUNT"
    "keys_loop e re (map ?S [0..<SHARD_COUNT]) [] = filter re (concat (map (shard_keys e) (take n (map ?S [0..<SHARD_COUNT]))))"
    "n < SHARD_COUNT \<longrightarrow> 10000 \<le> length (filter re (concat (map (shard_keys e) (take n (map ?S [0..<SHARD_COUNT])))))"
    by auto
  have "map (shard_keys e) (take n (map ?S [0..<SHARD_COUNT])) = map (\<lambda>i. shard_keys e (?S i)) [0..<n]"
    using n(1) by (simp add: take_map)
  then show ?thesis using n assms by (intro exI [of _ n]) (simp add: handleKEYS_def getDB_def)
qed

theorem keys_lists_matches_witness:
  "\<exists>n \<le> SHARD_COUNT. handleKEYS demo_env (map bulk_string [''KEYS'', ''a'']) demo_world =
     Inr (array (map bulk_string (filter (\<lambda>s. ''a'' = s)
       (concat (map (\<lambda>i. shard_keys demo_env (m_dbs (self demo_world) 0 i)) [0..<n])))), demo_world)"
proof -
  have g: "globToRegex ''a'' = ''a''" by code_simp
  have "std_regex demo_env (globToRegex ''a'') = Some (\<lambda>s. ''a'' = s)" unfolding g by (simp add: demo_env_def)
  with keys_lists_matches [of demo_world demo_env "bulk_string ''a''" "\<lambda>s. ''a'' = s" "bulk_string ''KEYS''"]
  show ?thesis by auto
qed

end
