(* ===== verification/ServerCommands.thy ===== *)
theory ServerCommands
  imports Scan
begin

text \<open>
  The connection and server commands of \<open>command_handler_table.cpp\<close>: PING, AUTH, SELECT, CLIENT,
  ECHO, TIME, COMMAND, LASTSAVE, SHUTDOWN, QUIT, WATCH, UNWATCH, SLOWLOG, MONITOR and AOFROTATE. The
  thread AOFROTATE detaches is a later step of its own (\<open>rotate_step\<close>).
\<close>

subsection \<open>Connection\<close>

definition handlePING :: handler where
  "handlePING e args w = require_auth w
     (if length args = 1 then Inr (simple_string ''PONG'', w)
      else bnd (arg args 1) (\<lambda>s. Inr (bulk_string s, w)))"

text \<open>\<open>getAdminSocket().expired()\<close>\<close>

definition admin_expired :: "world \<Rightarrow> bool" where
  "admin_expired w = (case m_admin_sock (self w) of None \<Rightarrow> True | Some i \<Rightarrow> \<not> lockable (peers w) i)"

definition handleAUTH :: handler where
  "handleAUTH e args w =
     bnd (arg args 1) (\<lambda>p.
       if p = m_client_password (sock w) then
         if m_auth_level (sock w) \<noteq> 0
         then Inr (error ''ERR this connection already have been logged by others'', w)
         else Inr (ok_reply, mod_sock (m_auth_level_update (\<lambda>_. 1)) w)
       else if p = g_admin_password (cfg w) then
         if \<not> admin_expired w then Inr (error ''ERR admin already logged in elsewhere'', w)
         else if m_auth_level (sock w) = 1
         then Inr (error ''ERR this connection already have been logged by client'', w)
         else Inr (ok_reply, mod_sock (m_auth_level_update (\<lambda>_. 2))
                               (mod_self (m_admin_sock_update (\<lambda>_. Some (cur w))) w))
       else Inr (error ''ERR invalid password'', w))"

definition handleSELECT :: handler where
  "handleSELECT e args w = require_auth w
     (bnd (arg args 1) (\<lambda>s.
       case stoi s of None \<Rightarrow> Inr (error ''ERR invalid DB index'', w)
       | Some d \<Rightarrow>
           if d < 0 \<or> d \<ge> int DB_COUNT then Inr (error ''ERR DB index is out of range'', w)
           else Inr (ok_reply, mod_sock (m_client_db_id_update (\<lambda>_. d)) w)))"

definition bool_digit :: "bool \<Rightarrow> string" where
  "bool_digit b = to_string (if b then 1 else 0)"

definition handleCLIENT :: handler where
  "handleCLIENT e args w = require_auth w
     (bnd (arg args 1) (\<lambda>s.
       let subcmd = toupper s in
       if subcmd = ''SETNAME'' then
         if length args \<noteq> 3 then Inr (wrong_args ''CLIENT SETNAME'', w)
         else Inr (ok_reply, mod_sock (m_client_name_update (\<lambda>_. str (args ! 2))) w)
       else if subcmd = ''GETNAME'' then
         if length args \<noteq> 2 then Inr (wrong_args ''CLIENT GETNAME'', w)
         else if m_client_name (sock w) = [] then Inr (null_bulk, w)
         else Inr (bulk_string (m_client_name (sock w)), w)
       else if subcmd = ''LIST'' then
         if length args \<noteq> 2 then Inr (wrong_args ''CLIENT LIST'', w)
         else Inr (bulk_string
                (''name='' @ m_client_name (sock w) @ '' '' @
                 ''addr='' @ raddr (peers w) (cur w) @ '' '' @
                 ''subScription='' @ bool_digit (m_in_subScription (sock w)) @ '' '' @
                 ''transaction='' @ bool_digit (m_in_transaction (sock w)) @ '' '' @
                 ''monitor='' @ bool_digit (m_in_monitor (sock w)) @ CRLF), w)
       else if subcmd = ''SETINFO'' then
         if length args \<noteq> 4 then Inr (wrong_args ''CLIENT SETINFO'', w)
         else Inr (ok_reply, w)
       else Inr (error (''ERR wrong arguments for '' @ quoted ''CLIENT''), w)))"

subsection \<open>Server\<close>

definition handleLASTSAVE :: handler where
  "handleLASTSAVE e args w = require_auth w (Inr (integer (m_last_time (self w)), w))"

definition cmd_list :: "string list" where
  "cmd_list =
     [''PING'', ''AUTH'', ''SELECT'', ''CLIENT'', ''CONFIG'',
      ''SET'', ''GET'', ''MSET'', ''MGET'', ''APPEND'', ''SETNX'', ''INCR'', ''INCRBY'', ''DEL'', ''EXISTS'',
      ''STRLEN'', ''TYPE'', ''GETSET'',
      ''HSET'', ''HGET'', ''HGETALL'', ''HDEL'', ''HLEN'', ''HEXISTS'', ''HKEYS'', ''HVALS'',
      ''LPUSH'', ''RPUSH'', ''LPOP'', ''RPOP'', ''LRANGE'', ''LLEN'', ''LINSERT'', ''LINDEX'', ''LSET'',
      ''LPOPRPUSH'', ''RPOPLPUSH'',
      ''SADD'', ''SMEMBERS'', ''SREM'', ''SISMEMBER'', ''SCARD'', ''SRANDMEMBER'', ''SPOP'', ''SDIFF'', ''SINTER'',
      ''SUNION'', ''SMOVE'',
      ''ZADD'', ''ZRANGE'', ''ZREM'', ''ZSCORE'', ''ZRANK'', ''ZINCRBY'', ''ZCOUNT'', ''ZRANGEBYSCORE'',
      ''ZREMRANGEBYSCORE'', ''ZINCRBYFLOAT'',
      ''KEYS'', ''FLUSHDB'', ''FLUSHDBALL'', ''DBSIZE'', ''INFO'', ''SAVE'', ''BGSAVE'', ''LASTSAVE'', ''LASTSAVE1'',
      ''ECHO'', ''TIME'', ''LOCALTIME'', ''SHUTDOWN'', ''COMMAND'', ''RENAME'', ''RENAMENX'', ''RANDOMKEY'', ''EXPIRE'',
      ''TTL'', ''PEXPIRE'', ''PTTL'', ''PERSIST'', ''QUIT'', ''SCAN'',
      ''MULTI'', ''EXEC'', ''DISCARD'', ''WATCH'', ''UNWATCH'',
      ''SUBSCRIBE'', ''PUBLISH'', ''UNSUBSCRIBE'', ''SLOWLOG'', ''MONITOR'', ''REPLICAOF'', ''SLAVEOF'', ''SYNC'']"

definition handleCOMMAND :: handler where
  "handleCOMMAND e args w = require_auth w (Inr (array (map bulk_string cmd_list), w))"

definition handleECHO :: handler where
  "handleECHO e args w = require_auth w (bnd (arg args 1) (\<lambda>s. Inr (bulk_string s, w)))"

text \<open>\<open>duration_cast\<close> and \<open>%\<close> truncate toward zero.\<close>

definition tdiv :: "int \<Rightarrow> int \<Rightarrow> int" where
  "tdiv a b = sgn a * (\<bar>a\<bar> div b)"

definition tmod :: "int \<Rightarrow> int \<Rightarrow> int" where
  "tmod a b = a - tdiv a b * b"

definition handleTIME :: handler where
  "handleTIME e args w = require_auth w
     (let now = clock e 0 in
      Inr (array [bulk_string (to_string (tdiv now 1000000000)),
                  bulk_string (to_string (tmod (tdiv now 1000) 1000000))], w))"

definition handleSHUTDOWN :: handler where
  "handleSHUTDOWN e args w =
     (if \<not> isAdmin w then Inr (error ''ERR permission denied'', w)
      else Inr (bulk_string ''OK - waiting for clients to disconnect'', mod_self (m_shutdown_update (\<lambda>_. True)) w))"

definition handleQUIT :: handler where
  "handleQUIT e args w = Inr (ok_reply, w)"

fun watch_loop :: "env \<Rightarrow> string list \<Rightarrow> world \<Rightarrow> world res" where
  "watch_loop e [] w = Inr w"
| "watch_loop e (k # ks) w =
     bnd (getKeyVersion e k w) (\<lambda>v. watch_loop e ks (mod_sock (addWatchKey k v) w))"

definition handleWATCH :: handler where
  "handleWATCH e args w = require_auth w
     (bnd (watch_loop e (map str (drop 1 args)) (mod_sock clearWatchedKey w)) (\<lambda>w'. Inr (ok_reply, w')))"

definition handleUNWATCH :: handler where
  "handleUNWATCH e args w = require_auth w (Inr (ok_reply, mod_sock clearWatchedKey w))"

definition sync_slowlog :: "world \<Rightarrow> world res" where
  "sync_slowlog w = bnd (syncSlowLogs (cfg w) (m_slowLog (self w))) (\<lambda>m. Inr (mod_self (m_slowLog_update (\<lambda>_. m)) w))"

definition handleSLOWLOG :: handler where
  "handleSLOWLOG e args w = require_auth w
     (bnd (arg args 1) (\<lambda>s.
       let sub_cmd = toupper s in
       if sub_cmd = ''GET'' then
         bnd (sync_slowlog w) (\<lambda>w1.
           let cnt = (if length args \<ge> 3 then stoll (str (args ! 2)) else Some 10) in
           (case cnt of None \<Rightarrow> Inr (error ''ERR value is not an integer or out of range'', w1)
            | Some n \<Rightarrow>
                if n < 0 then Inr (error ''ERR count must be >= 0'', w1)
                else Inr (array (getSlowLogs (wall e) n (m_slowLog (self w1))), w1)))
       else if sub_cmd = ''LEN'' then
         bnd (sync_slowlog w) (\<lambda>w1. Inr (integer (int (slowlog_len (m_slowLog (self w1)))), w1))
       else if sub_cmd = ''RESET'' then
         bnd (slowlog_reset (m_slowLog (self w))) (\<lambda>m. Inr (ok_reply, mod_self (m_slowLog_update (\<lambda>_. m)) w))
       else Inr (error ''ERR unknown SLOWLOG subcommand'', w)))"

definition handleMONITOR :: handler where
  "handleMONITOR e args w = require_auth w
     (Inr (ok_reply, mod_sock (m_in_monitor_update (\<lambda>_. True)) (mod_self (m_monitor_update (addMonitorClient (cur w))) w)))"

definition handleAOFROTATE :: handler where
  "handleAOFROTATE e args w = require_auth w
     (if \<not> s_aof_enabled (cfg w) then Inr (error ''ERR AOF is disabled'', w)
      else if m_aof_rotating (m_aof (self w)) then Inr (error ''ERR AOF rotation already in progress'', w)
      else Inr (simple_string ''AOF rotation started'', w))"

definition rotate_step :: "env \<Rightarrow> world \<Rightarrow> world" where
  "rotate_step e w =
     (let (c, a, fs) = rotateAOF e (cfg w) (m_aof (self w)) (disk w)
      in (mod_self (m_aof_update (\<lambda>_. a)) w)\<lparr>cfg := c, disk := fs\<rparr>)"

subsection \<open>Properties\<close>

text \<open>AUTH lets a connection in only with a password: the level changes exactly from 0 to 1 with
  the connection's client password, or from a level other than 1 to 2 with the administrator's password
  while no administrator is connected; in every other case nothing changes.\<close>

theorem auth_levels:
  assumes "handleAUTH e [c, p] w = Inr (r, w')"
  shows "(r = ok_reply \<and> str p = m_client_password (sock w) \<and> m_auth_level (sock w) = 0 \<and>
      w' = mod_sock (m_auth_level_update (\<lambda>_. 1)) w) \<or>
    (r = ok_reply \<and> str p = g_admin_password (cfg w) \<and> m_auth_level (sock w) \<noteq> 1 \<and> admin_expired w \<and>
      m_auth_level (sock w') = 2 \<and> m_admin_sock (self w') = Some (cur w) \<and> m_dbs (self w') = m_dbs (self w)) \<or>
    (rtype r = ERROR \<and> w' = w)"
  using assms by (auto simp: handleAUTH_def error_def view_def mod_self_def mod_sock_def sock_def split: if_splits)

theorem auth_levels_witness:
  "\<exists>r w'. handleAUTH demo_env (map bulk_string [''AUTH'', ''client123'']) (new_world demo_config) = Inr (r, w') \<and>
     (r = ok_reply \<or> rtype r = ERROR \<and> w' = new_world demo_config)"
proof -
  obtain r w' where h: "handleAUTH demo_env [bulk_string ''AUTH'', bulk_string ''client123''] (new_world demo_config) = Inr (r, w')"
    by (simp add: handleAUTH_def new_world_def sock_def new_socket_def)
  with auth_levels [OF h] show ?thesis by auto
qed

text \<open>WATCH replaces the watched keys by the given ones, each with the version its string has now
  (0 for a key that is not a string); as long as no watched string changes, nothing counts as
  modified.\<close>

theorem watch_records_versions:
  assumes "1 \<le> m_auth_level (sock w)" and "db_valid w"
  shows "\<exists>w'. handleWATCH e (c # ks) w = Inr (ok_reply, w') \<and> self w' = self w \<and>
    m_watchedKeys (sock w') = map (\<lambda>k. \<lparr>wkey = str k, version = (case strings e w (str k) of None \<Rightarrow> 0 | Some d \<Rightarrow> std_hash e (val d))\<rparr>) ks \<and>
    \<not> hasKeyModified (\<lambda>k. case strings e w k of None \<Rightarrow> 0 | Some d \<Rightarrow> std_hash e (val d)) (sock w')"
proof -
  define ver where "ver = (\<lambda>k. case strings e w k of None \<Rightarrow> 0 | Some d \<Rightarrow> std_hash e (val d))"
  have *: "\<exists>w'. watch_loop e ks' w0 = Inr w' \<and> self w' = self w \<and>
      m_watchedKeys (sock w') = m_watchedKeys (sock w0) @ map (\<lambda>k. \<lparr>wkey = k, version = ver k\<rparr>) ks'"
    if "self w0 = self w" "m_client_db_id (sock w0) = m_client_db_id (sock w)" for ks' w0
    using that
  proof (induction ks' arbitrary: w0)
    case (Cons k ks')
    have v: "db_valid w0" using assms(2) Cons.prems by (simp add: db_valid_def)
    have "shard_of e w0 k = shard_of e w k" using Cons.prems by (simp add: shard_of_def)
    then have g: "getKeyVersion e k w0 = Inr (ver k)"
      using v shard_strings [of e w k] by (simp add: getKeyVersion_def ver_def split: option.splits)
    show ?case using Cons.IH [of "mod_sock (addWatchKey k (ver k)) w0"] Cons.prems g
      by (auto simp: addWatchKey_def)
  qed simp
  from * [of "mod_sock clearWatchedKey w" "map str ks"] obtain w' where
    "watch_loop e (map str ks) (mod_sock clearWatchedKey w) = Inr w'" "self w' = self w"
    "m_watchedKeys (sock w') = map (\<lambda>k. \<lparr>wkey = str k, version = ver (str k)\<rparr>) ks"
    by (auto simp: clearWatchedKey_def o_def)
  then show ?thesis using assms(1) unfolding ver_def [symmetric]
    by (auto simp: handleWATCH_def hasKeyModified_def ver_def)
qed

theorem watch_records_versions_witness:
  "\<exists>w'. handleWATCH demo_env (map bulk_string [''WATCH'', ''k'']) demo_world = Inr (ok_reply, w') \<and>
     m_watchedKeys (sock w') = [\<lparr>wkey = ''k'', version = 0\<rparr>]"
  using watch_records_versions [of demo_world demo_env "bulk_string ''WATCH''" "[bulk_string ''k'']"]
  by (auto simp: demo_world_strings)

end
