(* ===== verification/ConfigCommands.thy ===== *)
theory ConfigCommands
  imports ServerCommands ConfigParser
begin

text \<open>
  \<open>handleCONFIG\<close> of \<open>command_handler_table.cpp\<close>, which reads and writes the configuration variables
  while the server runs, and the two commands that print a time (LASTSAVE1, LOCALTIME).
\<close>

subsection \<open>CONFIG GET\<close>

text \<open>
  The parameters in the order the code tests them, with the second pattern that selects each
  (besides \<open>*\<close> and its own name) and the value it shows.
\<close>

definition config_table :: "world \<Rightarrow> (string \<times> string \<times> string) list" where
  "config_table w =
     [(''clientpass'', [], m_client_password (sock w)),
      (''maxclients'', [], to_string (int (s_redis_server_maxClients (cfg w)))),
      (''timeout'', [], FormatTime (int (s_redis_server_timeout (cfg w)))),
      (''slowlog-log-slower-than'', ''slowlog-*'', FormatTime (s_slow_log_slower_than (cfg w))),
      (''slowlog-max-len'', ''slowlog-*'', to_string (int (s_slow_log_max_len (cfg w)))),
      (''aof-enabled'', ''aof-*'', if s_aof_enabled (cfg w) then ''yes'' else ''no''),
      (''aof-filename'', ''aof-*'', s_aof_filename (cfg w)),
      (''aof-sync'', ''aof-*'', syncStrategyToString (s_aof_sync (cfg w))),
      (''aof-max_file_size'', ''aof-*'', FormatSize (s_aof_max_file_size (cfg w))),
      (''aof-max_file_number'', ''aof-*'', to_string (s_aof_max_file_number (cfg w))),
      (''aof-max_buffer_size'', ''aof-*'', FormatSize (s_aof_max_buffer_size (cfg w))),
      (''database'', [], ''16'')]"

definition config_get :: "string \<Rightarrow> world \<Rightarrow> RespValue list" where
  "config_get pattern w =
     concat (map (\<lambda>(n, group, v).
       if pattern = ''*'' \<or> pattern = n \<or> (group \<noteq> [] \<and> pattern = group)
       then [bulk_string n, bulk_string v] else []) (config_table w))"

subsection \<open>CONFIG SET\<close>

abbreviation set_cfg :: "(config \<Rightarrow> config) \<Rightarrow> world \<Rightarrow> world" where
  "set_cfg f w \<equiv> w\<lparr>cfg := f (cfg w)\<rparr>"

definition invalid_integer :: RespValue where
  "invalid_integer = error ''ERR invalid integer value''"

definition config_set :: "env \<Rightarrow> string \<Rightarrow> string \<Rightarrow> world \<Rightarrow> reply" where
  "config_set e param v w =
     (if param = ''clientpass'' then
        Inr (ok_reply, mod_sock (m_client_password_update (\<lambda>_. v)) w)
      else if param = ''slowlog-log-slower-than'' then
        bnd (ParseTime e v) (\<lambda>t. case t of
          Some us \<Rightarrow> Inr (ok_reply, set_cfg (s_slow_log_slower_than_update (\<lambda>_. us)) w)
        | None \<Rightarrow> Inr (invalid_integer, w))
      else if param = ''slowlog-max-len'' then
        (case stoull v of None \<Rightarrow> Inr (invalid_integer, w)
         | Some n \<Rightarrow> if n \<le> 0 then Inr (error ''ERR value must be > 0'', w)
                     else Inr (ok_reply, set_cfg (s_slow_log_max_len_update (\<lambda>_. n)) w))
      else if param = ''aof-enabled'' then
        if ParseBool v then
          let w1 = set_cfg (s_aof_enabled_update (\<lambda>_. True)) w;
              (c, a, fs) = initAOF e (cfg w1) (m_aof (self w1)) (disk w1)
          in Inr (ok_reply, mod_self (m_aof_update (\<lambda>_. a)) (w1\<lparr>cfg := c, disk := fs\<rparr>))
        else
          Inr (ok_reply, mod_self (m_aof_update closeAOF) (set_cfg (s_aof_enabled_update (\<lambda>_. False)) w))
      else if param = ''aof-sync'' then
        if v \<in> {''always'', ''everysec'', ''no''}
        then Inr (ok_reply, set_cfg (s_aof_sync_update (\<lambda>_. stringToSyncStrategy v)) w)
        else Inr (error ''ERR invalid sync mode'', w)
      else if param = ''aof-filename'' then
        if v = [] then Inr (error ''ERR invalid filename'', w)
        else Inr (ok_reply, set_cfg (s_aof_filename_update (\<lambda>_. v)) w)
      else if param = ''aof-max_file_size'' then
        bnd (ParseSize e v) (\<lambda>t. case t of
          Some n \<Rightarrow> Inr (ok_reply, set_cfg (s_aof_max_file_size_update (\<lambda>_. n)) w)
        | None \<Rightarrow> Inr (invalid_integer, w))
      else if param = ''aof-max_file_number'' then
        (case stoi v of None \<Rightarrow> Inr (invalid_integer, w)
         | Some n \<Rightarrow> if n < 5 then Inr (error ''ERR max_file_number value too small'', w)
                     else Inr (ok_reply, set_cfg (s_aof_max_file_number_update (\<lambda>_. n)) w))
      else if param = ''aof-max_buffer_size'' then
        bnd (ParseSize e v) (\<lambda>t. case t of
          Some n \<Rightarrow> Inr (ok_reply, set_cfg (s_aof_max_buffer_size_update (\<lambda>_. n)) w)
        | None \<Rightarrow> Inr (invalid_integer, w))
      else if param = ''maxclients'' then
        if \<not> isAdmin w then Inr (auth_required, w)
        else (case stoi v of None \<Rightarrow> Inr (invalid_integer, w)
         | Some n \<Rightarrow>
             if n \<le> 0 then Inr (error ''ERR invalid maxclients value'', w)
             else if nat n < m_connections (self w)
             then Inr (error ''ERR maxclients can't be less than current connections'', w)
             else Inr (ok_reply, set_cfg (s_redis_server_maxClients_update (\<lambda>_. nat n)) w))
      else if param = ''timeout'' then
        if \<not> isAdmin w then Inr (auth_required, w)
        else bnd (ParseTime e v) (\<lambda>t. case t of
          Some us \<Rightarrow> Inr (ok_reply, set_cfg (s_redis_server_timeout_update (\<lambda>_. nat (us mod 2 ^ 64))) w)
        | None \<Rightarrow> Inr (error ''ERR invalid timeout value'', w))
      else Inr (error (''ERR Unsupported CONFIG parameter: '' @ param), w))"

text \<open>Unlike every other handler but AUTH, this one does not look at the authentication level.\<close>

definition handleCONFIG :: handler where
  "handleCONFIG e args w =
     bnd (arg args 1) (\<lambda>s.
       let subcmd = toupper s in
       if subcmd = ''GET'' then
         if length args \<noteq> 3 then Inr (wrong_args ''CONFIG GET'', w)
         else Inr (array (config_get (str (args ! 2)) w), w)
       else if subcmd = ''SET'' then
         if length args \<noteq> 4 then Inr (wrong_args ''CONFIG SET'', w)
         else config_set e (str (args ! 2)) (str (args ! 3)) w
       else Inr (error (''ERR wrong arguments for '' @ quoted ''CONFIG''), w))"

subsection \<open>Times as text\<close>

definition handleLASTSAVE1 :: handler where
  "handleLASTSAVE1 e args w = require_auth w
     (Inr (bulk_string (std_put_time e (m_last_time (self w) + 8 * 3600)), w))"

text \<open>\<open>system_clock::to_time_t\<close> truncates the microseconds to seconds.\<close>

definition handleLOCALTIME :: handler where
  "handleLOCALTIME e args w = require_auth w
     (Inr (bulk_string (std_put_time e (tdiv (wall e 0) 1000000 + 8 * 3600)), w))"

subsection \<open>Properties\<close>

text \<open>C37. A client that has not authenticated can give its own connection a password with
  \<open>CONFIG SET clientpass\<close> and then authenticate with it: from level 0 the two commands reach
  level 1, whatever the password of the connection was.\<close>

theorem config_clientpass_bypasses_auth:
  assumes "m_auth_level (sock w) = 0"
  shows "\<exists>w1 w2. handleCONFIG e (map bulk_string [''CONFIG'', ''SET'', ''clientpass'', p]) w = Inr (ok_reply, w1) \<and>
    handleAUTH e (map bulk_string [''AUTH'', p]) w1 = Inr (ok_reply, w2) \<and> m_auth_level (sock w2) = 1"
proof -
  have "toupper ''SET'' = ''SET''" by code_simp
  then show ?thesis using assms
    by (simp add: handleCONFIG_def config_set_def handleAUTH_def numeral_eq_Suc)
qed

theorem config_clientpass_bypasses_auth_witness:
  "\<exists>w1 w2. handleCONFIG demo_env (map bulk_string [''CONFIG'', ''SET'', ''clientpass'', ''x'']) (new_world demo_config) = Inr (ok_reply, w1) \<and>
    handleAUTH demo_env (map bulk_string [''AUTH'', ''x'']) w1 = Inr (ok_reply, w2) \<and> m_auth_level (sock w2) = 1"
  by (rule config_clientpass_bypasses_auth) (simp add: new_world_def sock_def new_socket_def)

end
