(* ===== verification/ZSetCommands.thy ===== *)
theory ZSetCommands
  imports ServerCommands SkipListSpec
begin

text \<open>
  The sorted-set commands of \<open>command_handler_table.cpp\<close>: ZADD, ZRANGE, ZREM, ZSCORE, ZRANK,
  ZINCRBY, ZINCRBYFLOAT, ZCOUNT, ZRANGEBYSCORE and ZREMRANGEBYSCORE. A sorted set is kept twice:
  in \<open>zset\<close> as a skip list ordered by score and member, and in \<open>zset_score\<close> as a hash map from
  member to score.
\<close>

subsection \<open>Handlers\<close>

definition put_both :: "env \<Rightarrow> string \<Rightarrow> zlist \<Rightarrow> double hmap \<Rightarrow> world \<Rightarrow> world" where
  "put_both e key z m w = put_scores e key m (put_zset e key z w)"

definition del_both :: "env \<Rightarrow> string \<Rightarrow> world \<Rightarrow> world" where
  "del_both e key w = del_scores e key (del_zset e key w)"

text \<open>
  One pair of ZADD, and the loop: \<open>i\<close> counts the rounds. A score that does not parse ends the
  loop with \<open>None\<close>; the pairs before it stay.
\<close>

definition zadd_one :: "env \<Rightarrow> nat \<Rightarrow> double \<Rightarrow> string \<Rightarrow> double hmap \<Rightarrow> zlist \<Rightarrow> (nat \<times> double hmap \<times> zlist) res" where
  "zadd_one e i sc mem m z =
     bnd (case map_of m mem of
            Some old \<Rightarrow> bnd (zl_remove (zkey old mem) z) (\<lambda>(_, z'). Inr (0, z'))
          | None \<Rightarrow> Inr (1, z)) (\<lambda>(n, z1).
       bnd (zl_insert (randomLevel (coin e i)) (zkey sc mem) mem z1) (\<lambda>z2.
         Inr (n, insert_or_assign mem sc m, z2)))"

fun zadd_loop :: "env \<Rightarrow> nat \<Rightarrow> RespValue list \<Rightarrow> nat \<Rightarrow> double hmap \<Rightarrow> zlist \<Rightarrow> (nat option \<times> double hmap \<times> zlist) res" where
  "zadd_loop e i [] n m z = Inr (Some n, m, z)"
| "zadd_loop e i [s] n m z = (case std_stod e (str s) of None \<Rightarrow> Inr (None, m, z) | Some _ \<Rightarrow> Inl OutOfBounds)"
| "zadd_loop e i (s # mem # rest) n m z =
     (case std_stod e (str s) of None \<Rightarrow> Inr (None, m, z)
      | Some sc \<Rightarrow> bnd (zadd_one e i sc (str mem) m z) (\<lambda>(k, m', z'). zadd_loop e (Suc i) rest (n + k) m' z'))"

definition handleZADD :: handler where
  "handleZADD e args w = require_auth w
     (if length args < 4 \<or> length args mod 2 \<noteq> 0 then Inr (wrong_args ''ZADD'', w)
      else bnd (arg args 1) (\<lambda>key. bnd (getShard e w key) (\<lambda>sh.
        let m = (case map_of (zset_score sh) key of None \<Rightarrow> [] | Some m \<Rightarrow> m);
            z = (case map_of (zset sh) key of None \<Rightarrow> zlist_new | Some z \<Rightarrow> z)
        in bnd (zadd_loop e 0 (drop 2 args) 0 m z) (\<lambda>(n, m', z').
             Inr (case n of None \<Rightarrow> error ''ERR value is not a double or out of range''
                  | Some k \<Rightarrow> integer (int k), put_both e key z' m' w)))))"

text \<open>The loop of ZRANGE: \<open>n\<close> indices from \<open>i\<close> on.\<close>

fun zrange_loop :: "env \<Rightarrow> bool \<Rightarrow> nat \<Rightarrow> int \<Rightarrow> zlist \<Rightarrow> RespValue list res" where
  "zrange_loop e withscores 0 i z = Inr []"
| "zrange_loop e withscores (Suc n) i z =
     bnd (getByIndex z i) (\<lambda>node.
       case node of None \<Rightarrow> Inr []
       | Some nd \<Rightarrow>
           bnd (zrange_loop e withscores n (i + 1) z) (\<lambda>rs.
             Inr (bulk_string (nval nd) # (if withscores then [bulk_string (format_score e (score (nkey nd)))] else []) @ rs)))"

definition handleZRANGE :: handler where
  "handleZRANGE e args w = require_auth w
     (bnd (arg args 1) (\<lambda>key. bnd (getShard e w key) (\<lambda>sh. bnd (arg args 2) (\<lambda>a. bnd (arg args 3) (\<lambda>b.
       case (stoi a, stoi b) of
         (Some start, Some stop) \<Rightarrow>
           (case map_of (zset sh) key of None \<Rightarrow> Inr (array [], w)
            | Some z \<Rightarrow>
                let withscores = (length args = 5 \<and> str (args ! 4) \<in> {''WITHSCORES'', ''withscores''});
                    (s, t) = range_bounds start stop (as_int32 (sl_size z))
                in if s > t then Inr (array [], w)
                   else bnd (zrange_loop e withscores (nat (t - s + 1)) s z) (\<lambda>rs. Inr (array rs, w)))
       | _ \<Rightarrow> Inr (error ''ERR value is not a integer or out of range'', w))))))"

fun zrem_loop :: "RespValue list \<Rightarrow> nat \<Rightarrow> double hmap \<Rightarrow> zlist \<Rightarrow> (nat \<times> double hmap \<times> zlist) res" where
  "zrem_loop [] n m z = Inr (n, m, z)"
| "zrem_loop (a # as) n m z =
     (case map_of m (str a) of None \<Rightarrow> zrem_loop as n m z
      | Some sc \<Rightarrow> bnd (zl_remove (zkey sc (str a)) z) (\<lambda>(_, z'). zrem_loop as (Suc n) (erase (str a) m) z'))"

definition handleZREM :: handler where
  "handleZREM e args w = require_auth w
     (bnd (arg args 1) (\<lambda>key. bnd (getShard e w key) (\<lambda>sh.
       case (map_of (zset sh) key, map_of (zset_score sh) key) of
         (Some z, Some m) \<Rightarrow>
           bnd (zrem_loop (drop 2 args) 0 m z) (\<lambda>(n, m', z').
             Inr (integer (int n), if sl_empty z' then del_both e key w else put_both e key z' m' w))
       | _ \<Rightarrow> Inr (integer 0, w))))"

definition handleZSCORE :: handler where
  "handleZSCORE e args w = require_auth w
     (bnd (arg args 1) (\<lambda>key. bnd (getShard e w key) (\<lambda>sh.
       case map_of (zset_score sh) key of None \<Rightarrow> Inr (null_bulk, w)
       | Some m \<Rightarrow> bnd (arg args 2) (\<lambda>mem.
           case map_of m mem of None \<Rightarrow> Inr (null_bulk, w)
           | Some sc \<Rightarrow> Inr (bulk_string (format_score e sc), w)))))"

text \<open>\<open>shards.zset[key]\<close> in ZRANK makes a list when there is none.\<close>

definition handleZRANK :: handler where
  "handleZRANK e args w = require_auth w
     (bnd (arg args 1) (\<lambda>key. bnd (arg args 2) (\<lambda>mem. bnd (getShard e w key) (\<lambda>sh.
       case map_of (zset_score sh) key of None \<Rightarrow> Inr (null_bulk, w)
       | Some m \<Rightarrow>
           (case map_of m mem of None \<Rightarrow> Inr (null_bulk, w)
            | Some sc \<Rightarrow>
                let (z, w1) = (case map_of (zset sh) key of Some z \<Rightarrow> (z, w)
                               | None \<Rightarrow> (zlist_new, put_zset e key zlist_new w))
                in bnd (zl_rank z (zkey sc mem)) (\<lambda>rank.
                     Inr (if rank \<ge> 0 then integer rank else null_bulk, w1)))))))"

text \<open>The common part of ZINCRBY and ZINCRBYFLOAT.\<close>

definition zincr :: "env \<Rightarrow> string \<Rightarrow> string \<Rightarrow> double \<Rightarrow> world \<Rightarrow> reply" where
  "zincr e key mem d w = bnd (getShard e w key) (\<lambda>sh.
     case (map_of (zset sh) key, map_of (zset_score sh) key) of
       (Some z, Some m) \<Rightarrow>
         (case map_of m mem of None \<Rightarrow> Inr (null_bulk, w)
          | Some old \<Rightarrow>
              let sc = dadd old d in
              bnd (zl_remove (zkey old mem) z) (\<lambda>(_, z1).
                bnd (zl_insert (randomLevel (coin e 0)) (zkey sc mem) mem z1) (\<lambda>z2.
                  Inr (bulk_string (format_score e sc), put_both e key z2 (insert_or_assign mem sc m) w))))
     | _ \<Rightarrow> Inr (null_bulk, w))"

definition handleZINCRBY :: handler where
  "handleZINCRBY e args w = require_auth w
     (bnd (arg args 1) (\<lambda>key. bnd (arg args 3) (\<lambda>mem. bnd (arg args 2) (\<lambda>s.
       case stoll s of None \<Rightarrow> Inr (error ''ERR value is not a integer or out of range'', w)
       | Some incr \<Rightarrow> zincr e key mem (int64_to_double incr) w))))"

definition handleZINCRBYFLOAT :: handler where
  "handleZINCRBYFLOAT e args w = require_auth w
     (bnd (arg args 1) (\<lambda>key. bnd (arg args 3) (\<lambda>mem. bnd (arg args 2) (\<lambda>s.
       case std_stod e s of None \<Rightarrow> Inr (error ''ERR value is not a float or out of range'', w)
       | Some incr \<Rightarrow> zincr e key mem incr w))))"

text \<open>The two bounds of the commands on a range of scores; \<open>Inl\<close> is the error they reply.\<close>

definition score_bounds :: "env \<Rightarrow> RespValue list \<Rightarrow> (RespValue + double \<times> double) res" where
  "score_bounds e args =
     bnd (arg args 2) (\<lambda>a.
       case std_stod e a of None \<Rightarrow> Inr (Inl (error ''ERR value is not a double or out of range''))
       | Some lo \<Rightarrow> bnd (arg args 3) (\<lambda>b.
           case std_stod e b of None \<Rightarrow> Inr (Inl (error ''ERR value is not a double or out of range''))
           | Some hi \<Rightarrow>
               if dlt hi lo then Inr (Inl (error ''ERR min can't greater than max''))
               else Inr (Inr (lo, hi))))"

text \<open>The members whose score is in the range, in the order of the hash map.\<close>

definition members_between :: "env \<Rightarrow> double \<Rightarrow> double \<Rightarrow> double hmap \<Rightarrow> (string \<times> double) list" where
  "members_between e lo hi m =
     filter (\<lambda>(_, sc). dle lo sc \<and> dle sc hi) (map (\<lambda>k. (k, the (map_of m k))) (iter e (keys m)))"

definition handleZCOUNT :: handler where
  "handleZCOUNT e args w = require_auth w
     (bnd (arg args 1) (\<lambda>key. bnd (score_bounds e args) (\<lambda>b.
       case b of Inl err \<Rightarrow> Inr (err, w)
       | Inr (lo, hi) \<Rightarrow> bnd (getShard e w key) (\<lambda>sh.
           case map_of (zset_score sh) key of None \<Rightarrow> Inr (integer 0, w)
           | Some m \<Rightarrow> Inr (integer (int (length (members_between e lo hi m))), w)))))"

definition handleZRANGEBYSCORE :: handler where
  "handleZRANGEBYSCORE e args w = require_auth w
     (bnd (arg args 1) (\<lambda>key. bnd (score_bounds e args) (\<lambda>b.
       case b of Inl err \<Rightarrow> Inr (err, w)
       | Inr (lo, hi) \<Rightarrow>
           let withscore = (length args = 5 \<and> str (args ! 4) \<in> {''WITHSCORE'', ''withscore''}) in
           bnd (getShard e w key) (\<lambda>sh.
             case map_of (zset_score sh) key of None \<Rightarrow> Inr (array [], w)
             | Some m \<Rightarrow>
                 Inr (array (concat (map (\<lambda>(mem, sc).
                        bulk_string mem # (if withscore then [bulk_string (format_score e sc)] else []))
                      (members_between e lo hi m))), w)))))"

fun zremrange_loop :: "(string \<times> double) list \<Rightarrow> zlist \<Rightarrow> zlist res" where
  "zremrange_loop [] z = Inr z"
| "zremrange_loop ((mem, sc) # rest) z = bnd (zl_remove (zkey sc mem) z) (\<lambda>(_, z'). zremrange_loop rest z')"

definition handleZREMRANGEBYSCORE :: handler where
  "handleZREMRANGEBYSCORE e args w = require_auth w
     (bnd (arg args 1) (\<lambda>key. bnd (score_bounds e args) (\<lambda>b.
       case b of Inl err \<Rightarrow> Inr (err, w)
       | Inr (lo, hi) \<Rightarrow> bnd (getShard e w key) (\<lambda>sh.
           case (map_of (zset sh) key, map_of (zset_score sh) key) of
             (Some z, Some m) \<Rightarrow>
               let tem = members_between e lo hi m;
                   m' = fold erase (map fst tem) m
               in bnd (zremrange_loop tem z) (\<lambda>z'.
                    Inr (integer (int (length tem)), if m' = [] then del_both e key w else put_both e key z' m' w))
           | _ \<Rightarrow> Inr (integer (- 1), w)))))"

subsection \<open>The two copies of a sorted set\<close>

text \<open>\<open>agree m xs\<close>: the hash map and the sorted list hold the same members with the same scores.\<close>

definition agree :: "double hmap \<Rightarrow> (ZSetKey \<times> string) list \<Rightarrow> bool" where
  "agree m xs \<longleftrightarrow> hmap_ok m \<and> (\<forall>p. p \<in> set xs \<longleftrightarrow> (\<exists>mem sc. p = (zkey sc mem, mem) \<and> map_of m mem = Some sc))"

definition zset_pair :: "zlist \<Rightarrow> double hmap \<Rightarrow> bool" where
  "zset_pair z m \<longleftrightarrow> (\<exists>xs. zrep z xs \<and> agree m xs)"

fun copies_ok :: "zlist option \<Rightarrow> double hmap option \<Rightarrow> bool" where
  "copies_ok None None = True"
| "copies_ok (Some z) (Some m) = zset_pair z m"
| "copies_ok _ _ = False"

definition zset_inv :: "env \<Rightarrow> world \<Rightarrow> bool" where
  "zset_inv e w \<longleftrightarrow> (\<forall>d k. copies_ok (view zset e w d k) (view zset_score e w d k))"

lemma zkey_simps [simp]: "score (zkey sc mem) = sc" "member (zkey sc mem) = mem" "zkey a x = zkey b y \<longleftrightarrow> a = b \<and> x = y"
  by (auto simp: zkey_def)

lemma agree_in: "agree m xs \<Longrightarrow> p \<in> set xs \<longleftrightarrow> (\<exists>mem sc. p = (zkey sc mem, mem) \<and> map_of m mem = Some sc)"
  unfolding agree_def by blast

lemma zset_pair_new: "zset_pair zlist_new []"
  unfolding zset_pair_def zlist_new_def by (intro exI [of _ "[]"]) (simp add: zk.new_refines agree_def)

lemma zrep_sorted: "zrep z xs \<Longrightarrow> sorted_wrt zkey_lt (map fst xs)"
  by (simp add: represents_def)

lemma zrep_number: "zrep z xs \<Longrightarrow> p \<in> set xs \<Longrightarrow> score (fst p) \<noteq> NaN"
  by (simp add: represents_def)

lemma pair_number: "zset_pair z m \<Longrightarrow> map_of m mem = Some sc \<Longrightarrow> sc \<noteq> NaN"
  unfolding zset_pair_def by (metis agree_in zrep_number fst_conv zkey_simps(1))

lemma pair_remove:
  assumes "zset_pair z m" and "map_of m mem = Some sc"
  shows "\<exists>z'. zl_remove (zkey sc mem) z = Inr (True, z') \<and> zset_pair z' (erase mem m)"
proof -
  obtain xs where xs: "zrep z xs" "agree m xs" using assms(1) by (auto simp: zset_pair_def)
  let ?p = "(zkey sc mem, mem)" and ?k = "zkey sc mem"
  have p: "?p \<in> set xs" using agree_in [OF xs(2)] assms(2) by blast
  have eq: "zkey_eq (fst ?p) ?k" using pair_number [OF assms] by (simp add: zkey_eq_def deq_def)
  have so: "sorted_wrt zkey_lt (map fst xs)" using xs(1) by (rule zrep_sorted)
  obtain z' where z': "zl_remove ?k z = Inr (fst (del_spec zkey_lt zkey_eq ?k xs), z')" "zrep z' (snd (del_spec zkey_lt zkey_eq ?k xs))"
    using zk.remove_refines [OF xs(1)] unfolding zl_remove_def by blast
  have "fst (del_spec zkey_lt zkey_eq ?k xs)" using zk.drop_found [OF so p eq] eq by (auto simp: del_spec_def)
  moreover have "agree (erase mem m) (snd (del_spec zkey_lt zkey_eq ?k xs))"
    using xs(2) zk.del_set [OF so p eq] assms(2) by (auto simp: agree_def hm.find_del)
  ultimately show ?thesis using z' by (auto simp: zset_pair_def)
qed

lemma level_loop_bounds: "level \<le> randomLevel_loop c n level \<and> randomLevel_loop c n level \<le> level + n"
proof (induction n arbitrary: level)
  case (Suc n)
  from Suc [of "Suc level"] show ?case by auto
qed simp

lemma level_bounds: "1 \<le> randomLevel c" "randomLevel c \<le> MAX_LEVEL"
  using level_loop_bounds [of 1 c "MAX_LEVEL - 1"] by (simp_all add: randomLevel_def MAX_LEVEL_def)

lemma pair_insert:
  assumes "zset_pair z m" and "map_of m mem = None" and "sc \<noteq> NaN"
  shows "\<exists>z'. zl_insert (randomLevel c) (zkey sc mem) mem z = Inr z' \<and> zset_pair z' (insert_or_assign mem sc m)"
proof -
  obtain xs where xs: "zrep z xs" "agree m xs" using assms(1) by (auto simp: zset_pair_def)
  have ne: "\<forall>p \<in> set xs. \<not> zkey_eq (fst p) (zkey sc mem)"
    using agree_in [OF xs(2)] assms(2) by (auto simp: zkey_eq_def)
  obtain z' where z': "zl_insert (randomLevel c) (zkey sc mem) mem z = Inr z'"
      "zrep z' (ins_spec zkey_lt zkey_eq (zkey sc mem) mem xs)"
    using zk.insert_refines [OF xs(1), of "zkey sc mem"] assms(3) level_bounds unfolding zl_insert_def by fastforce
  have "agree (insert_or_assign mem sc m) (ins_spec zkey_lt zkey_eq (zkey sc mem) mem xs)"
    using xs(2) zk.ins_set [OF ne, of mem] assms(2) by (auto simp: agree_def hm.find_ins)
  then show ?thesis using z' by (auto simp: zset_pair_def)
qed

subsection \<open>What the commands do to the map of scores\<close>

text \<open>The scores of a key in the current database; a missing key has none.\<close>

definition scores_at :: "env \<Rightarrow> world \<Rightarrow> string \<Rightarrow> string \<Rightarrow> double option" where
  "scores_at e w k = (case view zset_score e w (cur_db w) k of None \<Rightarrow> Map.empty | Some m \<Rightarrow> map_of m)"

lemma sock_both [simp]:
  "sock (put_both e k z m w) = sock w" "sock (del_both e k w) = sock w"
  "db_valid (put_both e k z m w) = db_valid w" "db_valid (del_both e k w) = db_valid w"
  by (simp_all add: put_both_def del_both_def put_scores_def put_zset_def del_scores_def del_zset_def)

lemma view_both:
  "view zset e (put_both e k z m w) = (view zset e w)(cur_db w := (view zset e w (cur_db w))(k \<mapsto> z))"
  "view zset_score e (put_both e k z m w) = (view zset_score e w)(cur_db w := (view zset_score e w (cur_db w))(k \<mapsto> m))"
  "view zset e (del_both e k w) = (view zset e w)(cur_db w := (view zset e w (cur_db w))(k := None))"
  "view zset_score e (del_both e k w) = (view zset_score e w)(cur_db w := (view zset_score e w (cur_db w))(k := None))"
  by (simp_all add: put_both_def del_both_def put_scores_def put_zset_def del_scores_def del_zset_def
      zsts.view_insert zsts.view_erase zscs.view_insert zscs.view_erase zsts.view_other zscs.view_other)

lemma inv_put: "zset_inv e w \<Longrightarrow> zset_pair z m \<Longrightarrow> zset_inv e (put_both e k z m w)"
  unfolding zset_inv_def view_both by simp

lemma inv_del: "zset_inv e w \<Longrightarrow> zset_inv e (del_both e k w)"
  unfolding zset_inv_def view_both by simp

lemma scores_put:
  "scores_at e (put_both e k z m w) = (scores_at e w)(k := map_of m)"
  "scores_at e (del_both e k w) = (scores_at e w)(k := Map.empty)"
  by (auto simp: scores_at_def view_both fun_eq_iff)

lemma inv_cases:
  assumes "zset_inv e w"
  obtains "view zset e w d k = None" "view zset_score e w d k = None"
  | z m where "view zset e w d k = Some z" "view zset_score e w d k = Some m" "zset_pair z m"
proof -
  have "copies_ok (view zset e w d k) (view zset_score e w d k)" using assms by (simp add: zset_inv_def)
  then show thesis using that by (cases "view zset e w d k"; cases "view zset_score e w d k") auto
qed

lemma shard_zsets:
  "map_of (zset (shard_of e w k)) k = view zset e w (cur_db w) k"
  "map_of (zset_score (shard_of e w k)) k = view zset_score e w (cur_db w) k"
  by (rule zsts.view_cur, rule zscs.view_cur)

text \<open>ZADD on a map: pairs are stored until one score does not parse.\<close>

fun zadd_spec :: "env \<Rightarrow> RespValue list \<Rightarrow> (string \<Rightarrow> double option) \<Rightarrow> (string \<Rightarrow> double option)" where
  "zadd_spec e (s # mem # rest) M =
     (case std_stod e (str s) of None \<Rightarrow> M | Some sc \<Rightarrow> zadd_spec e rest (M(str mem \<mapsto> sc)))"
| "zadd_spec e _ M = M"

fun scores_parse :: "env \<Rightarrow> RespValue list \<Rightarrow> bool" where
  "scores_parse e (s # mem # rest) = (std_stod e (str s) \<noteq> None \<and> scores_parse e rest)"
| "scores_parse e _ = True"

fun no_nan :: "env \<Rightarrow> RespValue list \<Rightarrow> bool" where
  "no_nan e (s # mem # rest) = (std_stod e (str s) \<noteq> Some NaN \<and> no_nan e rest)"
| "no_nan e _ = True"

lemma zadd_one_ok:
  assumes "zset_pair z m" and "sc \<noteq> NaN"
  shows "\<exists>z'. zadd_one e i sc mem m z = Inr (if map_of m mem = None then 1 else 0, insert_or_assign mem sc m, z') \<and>
     zset_pair z' (insert_or_assign mem sc m)"
proof (cases "map_of m mem")
  case None
  then show ?thesis using pair_insert [OF assms(1) None assms(2), of "coin e i"] by (auto simp: zadd_one_def)
next
  case (Some old)
  obtain z1 where z1: "zl_remove (zkey old mem) z = Inr (True, z1)" "zset_pair z1 (erase mem m)"
    using pair_remove [OF assms(1) Some] by blast
  have none: "map_of (erase mem m) mem = None" by (simp add: hm.find_del)
  obtain xs where "zrep z xs" "agree m xs" using assms(1) by (auto simp: zset_pair_def)
  then have ok: "hmap_ok m" by (simp add: agree_def)
  obtain z2 where z2: "zl_insert (randomLevel (coin e i)) (zkey sc mem) mem z1 = Inr z2"
      "zset_pair z2 (insert_or_assign mem sc (erase mem m))"
    using pair_insert [OF z1(2) none assms(2)] by blast
  have "agree (insert_or_assign mem sc m) ys = agree (insert_or_assign mem sc (erase mem m)) ys" for ys
    using ok by (simp add: agree_def hmap_simps)
  then have "zset_pair z2 (insert_or_assign mem sc m)" using z2(2) by (simp add: zset_pair_def)
  then show ?thesis using Some z1(1) z2(1) by (auto simp: zadd_one_def)
qed

lemma zadd_spec_dom: "finite (dom M) \<Longrightarrow> finite (dom (zadd_spec e as M)) \<and> dom M \<subseteq> dom (zadd_spec e as M)"
proof (induction e as M rule: zadd_spec.induct)
  case (1 e s mem rest M)
  then show ?case by (cases "std_stod e (str s)") (auto simp del: fun_upd_apply)
qed auto

lemma card_new:
  "finite D \<Longrightarrow> insert x M \<subseteq> D \<Longrightarrow> (if x \<notin> M then 1 else 0) + card (D - insert x M) = card (D - M)"
proof (cases "x \<in> M")
  case False
  assume "finite D" "insert x M \<subseteq> D"
  then have "card (D - M) = Suc (card (D - M - {x}))" using False by (intro card.remove) auto
  moreover have "D - insert x M = D - M - {x}" by blast
  ultimately show ?thesis using False by simp
qed (simp add: insert_absorb)

lemma zadd_loop_ok:
  assumes "even (length as)" and "no_nan e as" and "zset_pair z m"
  shows "\<exists>m' z'. zadd_loop e i as n m z =
      Inr (if scores_parse e as then Some (n + card (dom (map_of m') - dom (map_of m))) else None, m', z') \<and>
    zset_pair z' m' \<and> map_of m' = zadd_spec e as (map_of m)"
  using assms
proof (induction e i as n m z rule: zadd_loop.induct)
  case (3 e i s mem rest n m z)
  show ?case
  proof (cases "std_stod e (str s)")
    case None
    then show ?thesis using 3(4) by simp
  next
    case (Some sc)
    let ?k = "if map_of m (str mem) = None then 1 else 0 :: nat" and ?m = "insert_or_assign (str mem) sc m"
    have "sc \<noteq> NaN" using 3(3) Some by auto
    then obtain z1 where z1: "zadd_one e i sc (str mem) m z = Inr (?k, ?m, z1)" "zset_pair z1 ?m"
      using zadd_one_ok [OF 3(4)] by blast
    have ev: "even (length rest)" "no_nan e rest" using 3(2,3) by simp_all
    obtain m' z' where r: "zadd_loop e (Suc i) rest (n + ?k) ?m z1 =
        Inr (if scores_parse e rest then Some (n + ?k + card (dom (map_of m') - dom (map_of ?m))) else None, m', z')"
        "zset_pair z' m'" "map_of m' = zadd_spec e rest (map_of ?m)"
      using 3(1) [OF Some z1(1) refl refl ev z1(2)] by blast
    have eq: "map_of ?m = (map_of m)(str mem \<mapsto> sc)" by (simp add: hm.find_ins)
    have d: "finite (dom (map_of m'))" "insert (str mem) (dom (map_of m)) \<subseteq> dom (map_of m')"
      using zadd_spec_dom [of "map_of ?m" e rest] r(3) by (auto simp: eq finite_dom_map_of)
    have "?k + card (dom (map_of m') - dom (map_of ?m)) = card (dom (map_of m') - dom (map_of m))"
      using card_new [OF d] by (simp add: eq domIff)
    then show ?thesis using z1(1) r Some eq by (auto simp: add.assoc)
  qed
qed auto

lemma zrem_loop_ok:
  assumes "zset_pair z m"
  shows "\<exists>m' z'. zrem_loop as n m z = Inr (n + card (dom (map_of m) - dom (map_of m')), m', z') \<and>
    zset_pair z' m' \<and> map_of m' = map_of m |` (- (str ` set as))"
  using assms
proof (induction as n m z rule: zrem_loop.induct)
  case (2 a as n m z)
  show ?case
  proof (cases "map_of m (str a)")
    case None
    then have "map_of m |` (- (str ` set (a # as))) = map_of m |` (- (str ` set as))"
      by (auto simp: restrict_map_def fun_eq_iff)
    then show ?thesis using 2(1) [OF None 2(3)] None by simp
  next
    case (Some sc)
    obtain z1 where z1: "zl_remove (zkey sc (str a)) z = Inr (True, z1)" "zset_pair z1 (erase (str a) m)"
      using pair_remove [OF 2(3) Some] by blast
    obtain m' z' where r: "zrem_loop as (Suc n) (erase (str a) m) z1 =
        Inr (Suc n + card (dom (map_of (erase (str a) m)) - dom (map_of m')), m', z')" "zset_pair z' m'"
        "map_of m' = map_of (erase (str a) m) |` (- (str ` set as))"
      using 2(2) [OF Some z1(1) refl z1(2)] by blast
    have eq: "map_of (erase (str a) m) = (map_of m)(str a := None)" by (simp add: hm.find_del)
    have m': "map_of m' = map_of m |` (- (str ` set (a # as)))" unfolding r(3) eq by (auto simp: restrict_map_def fun_eq_iff)
    have "card (dom (map_of m) - dom (map_of m')) = Suc (card (dom (map_of m) - dom (map_of m') - {str a}))"
      using Some m' by (intro card.remove) (auto simp: finite_dom_map_of)
    moreover have "dom (map_of m) - dom (map_of m') - {str a} = dom ((map_of m)(str a := None)) - dom (map_of m')" by auto
    ultimately show ?thesis using z1(1) r(1,2) Some m' by (simp add: eq)
  qed
qed (auto simp: restrict_map_def fun_eq_iff)

lemma pair_empty: "zset_pair z m \<Longrightarrow> sl_empty z \<longleftrightarrow> m = []"
proof -
  assume "zset_pair z m"
  then obtain xs where xs: "zrep z xs" "agree m xs" by (auto simp: zset_pair_def)
  have "xs = [] \<longleftrightarrow> map_of m = Map.empty"
  proof
    assume "xs = []"
    then have "\<forall>mem sc. map_of m mem \<noteq> Some sc" using agree_in [OF xs(2)] by fastforce
    then show "map_of m = Map.empty" by (simp add: fun_eq_iff)
  next
    assume "map_of m = Map.empty"
    then have "\<forall>p. p \<notin> set xs" using agree_in [OF xs(2)] by simp
    then show "xs = []" by (cases xs) auto
  qed
  then show ?thesis using zk.size_refines [OF xs(1)] by simp
qed

text \<open>C20. ZADD on a sorted set whose two copies agree, with scores that are numbers: the map of
  scores gets the given pairs in order, up to the first score that does not parse, no other key
  changes, both copies still agree, and the reply is the number of new members, or the error when
  a score did not parse.\<close>

theorem zadd_stores_scores:
  assumes "zset_inv e w" and "db_valid w" and "1 \<le> m_auth_level (sock w)"
    and "even (length args)" and "4 \<le> length args" and "no_nan e (drop 2 args)"
  shows "\<exists>w'. handleZADD e args w =
      Inr (if scores_parse e (drop 2 args)
           then integer (int (card (dom (scores_at e w' (str (args ! 1))) - dom (scores_at e w (str (args ! 1))))))
           else error ''ERR value is not a double or out of range'', w') \<and>
    scores_at e w' = (scores_at e w)(str (args ! 1) := zadd_spec e (drop 2 args) (scores_at e w (str (args ! 1)))) \<and>
    zset_inv e w'"
proof -
  let ?k = "str (args ! 1)"
  define m where "m = (case view zset_score e w (cur_db w) ?k of None \<Rightarrow> [] | Some m \<Rightarrow> m)"
  define z where "z = (case view zset e w (cur_db w) ?k of None \<Rightarrow> zlist_new | Some z \<Rightarrow> z)"
  have ok: "zset_pair z m" using assms(1)
    by (rule inv_cases [of e w "cur_db w" ?k]) (simp_all add: m_def z_def zset_pair_new)
  have sc: "scores_at e w ?k = map_of m" by (simp add: scores_at_def m_def split: option.splits)
  obtain m' z' where r: "zadd_loop e 0 (drop 2 args) 0 m z =
      Inr (if scores_parse e (drop 2 args) then Some (card (dom (map_of m') - dom (map_of m))) else None, m', z')"
      "zset_pair z' m'" "map_of m' = zadd_spec e (drop 2 args) (map_of m)"
    using zadd_loop_ok [of "drop 2 args" e z m 0 0] assms(4,6) ok by auto
  have "handleZADD e args w = Inr (if scores_parse e (drop 2 args)
           then integer (int (card (dom (map_of m') - dom (map_of m))))
           else error ''ERR value is not a double or out of range'', put_both e ?k z' m' w)"
    using assms(2-5) r(1) m_def z_def by (simp add: handleZADD_def shard_zsets Let_def even_iff_mod_2_eq_zero)
  then show ?thesis using r sc inv_put [OF assms(1) r(2)] by (auto simp: scores_put)
qed

lemma zset_inv_demo: "zset_inv e demo_world"
  by (simp add: zset_inv_def view_def demo_world_def new_world_def new_server_def shard_empty_def)

theorem zadd_stores_scores_witness:
  "\<exists>w'. handleZADD demo_env (map bulk_string [''ZADD'', ''z'', ''7'', ''a'']) demo_world = Inr (integer 1, w') \<and>
     scores_at demo_env w' ''z'' = [''a'' \<mapsto> int64_to_double 7]"
proof -
  have s7: "std_stod demo_env ''7'' = Some (int64_to_double 7)" by (simp add: demo_env_def cpp_text)
  have nn: "int64_to_double v \<noteq> NaN" for v by (simp add: int64_to_double_def round_double_def Let_def)
  have e0: "scores_at demo_env demo_world ''z'' = Map.empty"
    by (simp add: scores_at_def view_def demo_world_def new_world_def new_server_def shard_empty_def)
  show ?thesis
    using zadd_stores_scores [of demo_env demo_world "map bulk_string [''ZADD'', ''z'', ''7'', ''a'']"] s7 nn e0
    by (auto simp: zset_inv_demo)
qed

subsection \<open>Removing and incrementing\<close>

lemma members_between_in:
  assumes "iter_ok e" and "hmap_ok m"
  shows "distinct (map fst (members_between e lo hi m)) \<and>
    (\<forall>mem sc. (mem, sc) \<in> set (members_between e lo hi m) \<longleftrightarrow> map_of m mem = Some sc \<and> dle lo sc \<and> dle sc hi)"
proof -
  let ?f = "\<lambda>k. (k, the (map_of m k))"
  have "map fst (map ?f (iter e (keys m))) = iter e (keys m)" by (simp add: comp_def)
  then have d: "distinct (map fst (map ?f (iter e (keys m))))"
    using assms iter_distinct [OF assms(1), of "keys m"] by (simp add: hmap_ok_def)
  have "(mem, sc) \<in> set (map ?f (iter e (keys m))) \<longleftrightarrow> map_of m mem = Some sc" for mem sc
    using iter_set [OF assms(1), of "keys m"] map_of_None_keys [of m mem] by (cases "map_of m mem") auto
  then show ?thesis using distinct_map_filter [OF d] unfolding members_between_def by auto
qed

lemma zremrange_ok:
  assumes "zset_pair z m" and "distinct (map fst ps)" and "\<forall>(mem, sc) \<in> set ps. map_of m mem = Some sc"
  shows "\<exists>z'. zremrange_loop ps z = Inr z' \<and> zset_pair z' (fold erase (map fst ps) m) \<and>
    map_of (fold erase (map fst ps) m) = map_of m |` (- fst ` set ps)"
  using assms
proof (induction ps arbitrary: z m)
  case (Cons p ps)
  obtain mem sc where p: "p = (mem, sc)" by fastforce
  obtain z1 where z1: "zl_remove (zkey sc mem) z = Inr (True, z1)" "zset_pair z1 (erase mem m)"
    using pair_remove [OF Cons.prems(1), of mem sc] Cons.prems(3) p by auto
  have "\<forall>(mem', sc') \<in> set ps. map_of (erase mem m) mem' = Some sc'"
    using Cons.prems(2,3) p by (force simp: hm.find_del)
  then obtain z' where "zremrange_loop ps z1 = Inr z'" "zset_pair z' (fold erase (map fst ps) (erase mem m))"
      "map_of (fold erase (map fst ps) (erase mem m)) = map_of (erase mem m) |` (- fst ` set ps)"
    using Cons.IH [OF z1(2)] Cons.prems(2) by auto
  moreover have "map_of (erase mem m) |` (- fst ` set ps) = map_of m |` (- fst ` set (p # ps))"
    by (auto simp: hm.find_del p restrict_map_def fun_eq_iff)
  ultimately show ?case using z1(1) p by simp
qed (simp add: restrict_map_def)

lemma scores_cur: "view zset_score e w (cur_db w) k = Some m \<Longrightarrow> scores_at e w k = map_of m"
  by (simp add: scores_at_def)

lemma inv_nonempty:
  assumes "zset_inv e w" and "scores_at e w k \<noteq> Map.empty"
  obtains z m where "view zset e w (cur_db w) k = Some z" "view zset_score e w (cur_db w) k = Some m" "zset_pair z m"
    "scores_at e w k = map_of m"
  using assms(1)
proof (rule inv_cases [of e w "cur_db w" k])
  assume "view zset_score e w (cur_db w) k = None"
  then show thesis using assms(2) by (simp add: scores_at_def)
qed (use that in \<open>simp add: scores_cur\<close>)

text \<open>
  \<open>scores_become e k M w w'\<close>: from \<open>w\<close> to \<open>w'\<close> the scores of \<open>k\<close> become \<open>M\<close>, the other keys keep
  theirs, both copies agree, and an empty sorted set is gone.
\<close>

definition scores_become :: "env \<Rightarrow> string \<Rightarrow> (string \<Rightarrow> double option) \<Rightarrow> world \<Rightarrow> world \<Rightarrow> bool" where
  "scores_become e k M w w' \<longleftrightarrow> scores_at e w' = (scores_at e w)(k := M) \<and> zset_inv e w' \<and>
     (M = Map.empty \<longrightarrow> view zset e w' (cur_db w) k = None \<and> view zset_score e w' (cur_db w) k = None)"

lemma scores_become_store:
  assumes "zset_inv e w" and "zset_pair z m"
  shows "scores_become e k (map_of m) w (if m = [] then del_both e k w else put_both e k z m w)"
  using inv_put [OF assms] inv_del [OF assms(1)] by (auto simp: scores_become_def scores_put view_both)

lemma handleZREM_ok:
  assumes "zset_inv e w" and "db_valid w" and "1 \<le> m_auth_level (sock w)" and "scores_at e w (str ka) \<noteq> Map.empty"
  shows "\<exists>w'. handleZREM e (c # ka # ms) w = Inr (integer (int (card (dom (scores_at e w (str ka)) \<inter> str ` set ms))), w') \<and>
      scores_become e (str ka) (scores_at e w (str ka) |` (- (str ` set ms))) w w'"
proof -
  obtain z m where v: "view zset e w (cur_db w) (str ka) = Some z" "view zset_score e w (cur_db w) (str ka) = Some m"
    "zset_pair z m" and M: "scores_at e w (str ka) = map_of m" using inv_nonempty [OF assms(1,4)] .
  obtain m' z' where r: "zrem_loop ms 0 m z = Inr (card (dom (map_of m) - dom (map_of m')), m', z')"
      "zset_pair z' m'" "map_of m' = map_of m |` (- (str ` set ms))"
    using zrem_loop_ok [OF v(3), of ms 0] by auto
  have "dom (map_of m) - dom (map_of m') = dom (map_of m) \<inter> str ` set ms"
    by (auto simp: r(3) restrict_map_def split: if_splits)
  then have "handleZREM e (c # ka # ms) w = Inr (integer (int (card (dom (map_of m) \<inter> str ` set ms))),
      if m' = [] then del_both e (str ka) w else put_both e (str ka) z' m' w)"
    using assms(2,3) v r(1) pair_empty [OF r(2)] by (simp add: handleZREM_def shard_zsets)
  then show ?thesis using scores_become_store [OF assms(1) r(2), of "str ka"] unfolding M r(3) by blast
qed

lemma handleZREMRANGEBYSCORE_ok:
  assumes "zset_inv e w" and "db_valid w" and "1 \<le> m_auth_level (sock w)" and "scores_at e w (str ka) \<noteq> Map.empty"
    and "iter_ok e" and "std_stod e (str a) = Some lo" and "std_stod e (str b) = Some hi" and "\<not> dlt hi lo"
    and out: "out = {mem. \<exists>sc. scores_at e w (str ka) mem = Some sc \<and> dle lo sc \<and> dle sc hi}"
  shows "\<exists>w'. handleZREMRANGEBYSCORE e [c, ka, a, b] w = Inr (integer (int (card out)), w') \<and>
      scores_become e (str ka) (scores_at e w (str ka) |` (- out)) w w'"
proof -
  obtain z m where v: "view zset e w (cur_db w) (str ka) = Some z" "view zset_score e w (cur_db w) (str ka) = Some m"
    "zset_pair z m" and M: "scores_at e w (str ka) = map_of m" using inv_nonempty [OF assms(1,4)] .
  have ok: "hmap_ok m" using v(3) by (auto simp: zset_pair_def agree_def)
  let ?ps = "members_between e lo hi m"
  note ps = members_between_in [OF assms(5) ok, of lo hi]
  have po: "fst ` set ?ps = out" using ps by (force simp: out M)
  obtain z2 where z2: "zremrange_loop ?ps z = Inr z2" "zset_pair z2 (fold erase (map fst ?ps) m)"
      "map_of (fold erase (map fst ?ps) m) = map_of m |` (- out)"
    using zremrange_ok [OF v(3), of ?ps] ps po by auto
  have "length ?ps = card out" using ps po distinct_card [of "map fst ?ps"] by simp
  then have "handleZREMRANGEBYSCORE e [c, ka, a, b] w = Inr (integer (int (card out)),
      if fold erase (map fst ?ps) m = [] then del_both e (str ka) w else put_both e (str ka) z2 (fold erase (map fst ?ps) m) w)"
    using assms(2,3,6-8) v z2(1) by (simp add: handleZREMRANGEBYSCORE_def score_bounds_def shard_zsets Let_def numeral_eq_Suc)
  then show ?thesis using scores_become_store [OF assms(1) z2(2), of "str ka"] unfolding M z2(3) by blast
qed

text \<open>ZREM and ZREMRANGEBYSCORE on a sorted set whose two copies agree: exactly the given members
  (for the second command, the members whose score is in the range) lose their score, the reply
  counts them, no other key changes, both copies still agree, and the key is gone from both when
  nothing is left.\<close>

theorem zset_removals:
  assumes "zset_inv e w" and "db_valid w" and "1 \<le> m_auth_level (sock w)" and "scores_at e w (str ka) \<noteq> Map.empty"
    and "iter_ok e" and "std_stod e (str a) = Some lo" and "std_stod e (str b) = Some hi" and "\<not> dlt hi lo"
  shows "(\<exists>w'. handleZREM e (c # ka # ms) w = Inr (integer (int (card (dom (scores_at e w (str ka)) \<inter> str ` set ms))), w') \<and>
      scores_become e (str ka) (scores_at e w (str ka) |` (- (str ` set ms))) w w') \<and>
    (let out = {mem. \<exists>sc. scores_at e w (str ka) mem = Some sc \<and> dle lo sc \<and> dle sc hi} in
     \<exists>w'. handleZREMRANGEBYSCORE e [c, ka, a, b] w = Inr (integer (int (card out)), w') \<and>
      scores_become e (str ka) (scores_at e w (str ka) |` (- out)) w w')"
  using handleZREM_ok [OF assms(1-4)] handleZREMRANGEBYSCORE_ok [OF assms refl] unfolding Let_def by blast

text \<open>A world with one sorted set, for closed examples.\<close>

definition demo_zlist :: zlist where
  "demo_zlist = (case zl_insert 1 (zkey (Fin 1) ''a'') ''a'' zlist_new of Inr z \<Rightarrow> z | Inl _ \<Rightarrow> zlist_new)"

definition demo_zworld :: world where
  "demo_zworld = put_both demo_env ''z'' demo_zlist [(''a'', Fin 1)] demo_world"

lemma demo_zlist_rep: "zrep demo_zlist [(zkey (Fin 1) ''a'', ''a'')]"
proof -
  have "zrep zlist_new []" unfolding zlist_new_def by (rule zk.new_refines)
  then obtain s' where "zl_insert 1 (zkey (Fin 1) ''a'') ''a'' zlist_new = Inr s'" "zrep s' [(zkey (Fin 1) ''a'', ''a'')]"
    using zk.insert_refines [of zlist_new "[]" "zkey (Fin 1) ''a''" 1 "''a''"]
    by (auto simp: MAX_LEVEL_def ins_spec_def zl_insert_def)
  then show ?thesis by (simp add: demo_zlist_def)
qed

lemma demo_zworld_ok [simp]:
  "zset_inv demo_env demo_zworld" "db_valid demo_zworld" "m_auth_level (sock demo_zworld) = 1"
  "scores_at demo_env demo_zworld ''z'' = [''a'' \<mapsto> Fin 1]" "iter_ok demo_env"
  "sock demo_zworld = sock demo_world"
proof -
  have "agree [(''a'', Fin 1)] [(zkey (Fin 1) ''a'', ''a'')]" by (auto simp: agree_def hmap_ok_def)
  then have "zset_pair demo_zlist [(''a'', Fin 1)]" using demo_zlist_rep by (auto simp: zset_pair_def)
  then show "zset_inv demo_env demo_zworld" unfolding demo_zworld_def using zset_inv_demo inv_put by blast
qed (simp_all add: demo_zworld_def scores_put iter_ok_demo)

theorem zset_removals_witness:
  "\<exists>w'. handleZREM demo_env (map bulk_string [''ZREM'', ''z'', ''a'', ''b'']) demo_zworld = Inr (integer 1, w') \<and>
     scores_become demo_env ''z'' Map.empty demo_zworld w'"
proof -
  have "std_stod demo_env ''0'' = Some (int64_to_double 0)" by (simp add: demo_env_def cpp_text)
  moreover have "[''a'' \<mapsto> Fin 1] |` (- {''a'', ''b''}) = Map.empty" by (auto simp: restrict_map_def fun_eq_iff)
  ultimately show ?thesis
    using zset_removals [of demo_env demo_zworld "bulk_string ''z''" "bulk_string ''0''" "int64_to_double 0" "bulk_string ''0''"
        "int64_to_double 0" "bulk_string ''ZREM''" "map bulk_string [''a'', ''b'']"]
    by simp
qed

subsection \<open>Reading in order\<close>

definition zrow :: "env \<Rightarrow> bool \<Rightarrow> ZSetKey \<times> string \<Rightarrow> RespValue list" where
  "zrow e withscores p =
     bulk_string (snd p) # (if withscores then [bulk_string (format_score e (score (fst p)))] else [])"

lemma zrange_loop_ok:
  "zrep z xs \<Longrightarrow> 0 \<le> i \<Longrightarrow> i + int n \<le> int (length xs) \<Longrightarrow>
   zrange_loop e ws n i z = Inr (concat (map (zrow e ws) (take n (drop (nat i) xs))))"
proof (induction n arbitrary: i)
  case (Suc n)
  have i: "nat i < length xs" "i < int (length xs)" using Suc.prems by (simp_all add: nat_less_iff)
  have "bnd (getByIndex z i) (\<lambda>n. Inr (map_option (\<lambda>nd. (nkey nd, nval nd)) n)) = Inr (Some (xs ! nat i))"
    using zk.index_refines [OF Suc.prems(1), of i] Suc.prems(2) i by simp
  then obtain nd where nd: "getByIndex z i = Inr (Some nd)" "(nkey nd, nval nd) = xs ! nat i"
    by (cases "getByIndex z i") auto
  have "drop (nat i) xs = xs ! nat i # drop (nat (i + 1)) xs"
    using i Suc.prems(2) by (simp add: Cons_nth_drop_Suc nat_add_distrib)
  moreover have "zrow e ws (xs ! nat i) = bulk_string (nval nd) # (if ws then [bulk_string (format_score e (score (nkey nd)))] else [])"
    using nd(2) [symmetric] by (simp add: zrow_def)
  ultimately show ?case using Suc.IH [OF Suc.prems(1), of "i + 1"] Suc.prems nd(1) by simp
qed simp

lemma range_bounds_ok: "range_bounds a b (int n) = (s, t) \<Longrightarrow> 0 \<le> s \<and> t < int n"
  by (auto simp: range_bounds_def Let_def split: if_splits)

text \<open>Reading a sorted set whose two copies agree: there is one list of its members and scores,
  strictly sorted by score and then by member. ZRANGE replies the slice of it between the two
  indices, counted from the end when negative; ZRANK replies how many members come before the
  given one; ZSCORE replies its score; nothing is changed.\<close>

theorem zset_reads_in_order:
  assumes "zset_inv e w" and "db_valid w" and "1 \<le> m_auth_level (sock w)" and "scores_at e w (str k) mem = Some sc"
    and "str x = mem" and "stoi (str a) = Some start" and "stoi (str b) = Some stop"
    and "card (dom (scores_at e w (str k))) < 2 ^ 31"
  shows "\<exists>xs. sorted_wrt zkey_lt (map fst xs) \<and>
      (\<forall>p. p \<in> set xs \<longleftrightarrow> (\<exists>m s. p = (zkey s m, m) \<and> scores_at e w (str k) m = Some s)) \<and>
      (let (s, t) = range_bounds start stop (int (length xs)) in
       handleZRANGE e [c, k, a, b] w = Inr (array (concat (map (zrow e False) (take (nat (t - s + 1)) (drop (nat s) xs)))), w)) \<and>
      handleZRANK e [c, k, x] w = Inr (integer (int (card {q \<in> set xs. zkey_lt (fst q) (zkey sc mem)})), w) \<and>
      handleZSCORE e [c, k, x] w = Inr (bulk_string (format_score e sc), w)"
proof -
  have ne: "scores_at e w (str k) \<noteq> Map.empty" using assms(4) by auto
  obtain z m where v: "view zset e w (cur_db w) (str k) = Some z" "view zset_score e w (cur_db w) (str k) = Some m"
    "zset_pair z m" and M: "scores_at e w (str k) = map_of m" using inv_nonempty [OF assms(1) ne] .
  obtain xs where xs: "zrep z xs" "agree m xs" using v(3) by (auto simp: zset_pair_def)
  have so: "sorted_wrt zkey_lt (map fst xs)" using xs(1) by (rule zrep_sorted)
  have p: "(zkey sc mem, mem) \<in> set xs" using agree_in [OF xs(2)] assms(4) M by auto
  have sc: "sc \<noteq> NaN" using pair_number [OF v(3)] assms(4) M by simp
  then have eq: "zkey_eq (fst (zkey sc mem, mem)) (zkey sc mem)" by (simp add: zkey_eq_def deq_def)
  have "set xs = (\<lambda>m'. (zkey (the (map_of m m')) m', m')) ` dom (map_of m)"
    using agree_in [OF xs(2)] by force
  then have "card (set xs) \<le> card (dom (map_of m))" by (simp add: card_image_le finite_dom_map_of)
  then have len: "sl_size z = length xs" "length xs < 2 ^ 31"
    using zk.size_refines [OF xs(1)] distinct_card [OF zk.sorted_distinct [OF so]] assms(8) M by simp_all
  have "zl_rank z (zkey sc mem) = Inr (int (card {q \<in> set xs. zkey_lt (fst q) (zkey sc mem)}))"
    using zk.rank_refines [OF xs(1)] zk.rank_found [OF so p eq] by (simp add: zl_rank_def)
  then have rank: "handleZRANK e [c, k, x] w = Inr (integer (int (card {q \<in> set xs. zkey_lt (fst q) (zkey sc mem)})), w)"
    using assms(2-5) v M by (simp add: handleZRANK_def shard_zsets numeral_eq_Suc Let_def)
  obtain s t where st: "range_bounds start stop (int (length xs)) = (s, t)" by fastforce
  have b: "0 \<le> s" "t < int (length xs)" using range_bounds_ok [OF st] by simp_all
  have "as_int32 (sl_size z) = int (length xs)" using len by (simp add: as_int32_small)
  moreover have "zrange_loop e False (nat (t - s + 1)) s z = Inr (concat (map (zrow e False) (take (nat (t - s + 1)) (drop (nat s) xs))))"
    if "s \<le> t" using that zrange_loop_ok [OF xs(1) b(1), of "nat (t - s + 1)" e False] b by simp
  ultimately have "handleZRANGE e [c, k, a, b] w = Inr (array (concat (map (zrow e False) (take (nat (t - s + 1)) (drop (nat s) xs)))), w)"
    using assms(2,3,6,7) v(1) st by (simp add: handleZRANGE_def shard_zsets)
  moreover have "handleZSCORE e [c, k, x] w = Inr (bulk_string (format_score e sc), w)"
    using assms(2-5) v M by (simp add: handleZSCORE_def shard_zsets numeral_eq_Suc)
  ultimately show ?thesis using so rank agree_in [OF xs(2)] st M by (intro exI [of _ xs]) simp
qed

theorem zset_reads_in_order_witness:
  "handleZRANK demo_env (map bulk_string [''ZRANK'', ''z'', ''a'']) demo_zworld = Inr (integer 0, demo_zworld)"
proof -
  have "stoi ''0'' = Some 0" by code_simp
  then obtain xs where "\<forall>p. p \<in> set xs \<longleftrightarrow> (\<exists>m s. p = (zkey s m, m) \<and> [''a'' \<mapsto> Fin 1] m = Some s)"
      and r: "handleZRANK demo_env [bulk_string ''ZRANK'', bulk_string ''z'', bulk_string ''a''] demo_zworld
        = Inr (integer (int (card {q \<in> set xs. zkey_lt (fst q) (zkey (Fin 1) ''a'')})), demo_zworld)"
    using zset_reads_in_order [of demo_env demo_zworld "bulk_string ''z''" "''a''" "Fin 1" "bulk_string ''a''" "bulk_string ''0''" 0
        "bulk_string ''0''" 0 "bulk_string ''ZRANK''"] by auto
  then have "{q \<in> set xs. zkey_lt (fst q) (zkey (Fin 1) ''a'')} = {}" by (auto simp: zk.lt_irrefl split: if_splits)
  then show ?thesis using r by simp
qed

subsection \<open>A score that is not a number\<close>

lemma nan_cut: "cut zkey_lt z (zkey NaN mem) [] ps"
  by (simp add: cut_def zkey_lt_iff)

lemma nan_search:
  assumes "linked z h ps ht"
  obtains up where "search zkey_lt z (zkey NaN mem) = Inr up" "length up = m_level z"
    "\<forall>j < m_level z. turn ht [h] j (up ! j)" "snd (hd up) = 0" "candidate zkey_eq z (zkey NaN mem) up = Inr None"
proof -
  have no: "\<not> zkey_eq k (zkey NaN mem)" for k by (simp add: zkey_eq_def deq_def)
  have L: "linked z h ([] @ ps) ht" using assms by simp
  obtain up where "search zkey_lt z (zkey NaN mem) = Inr up" "length up = m_level z"
      "\<forall>j < m_level z. turn ht [h] j (up ! j)" "snd (hd up) = int (length ([] :: nat list))"
      "candidate zkey_eq z (zkey NaN mem) up = Inr (case ps of [] \<Rightarrow> None
           | b # _ \<Rightarrow> if zkey_eq (ky z b) (zkey NaN mem) then Some (b, the (heap z b)) else None)"
    using search_spec [OF L nan_cut [of z mem ps]] by blast
  then show thesis using that no by (cases ps) simp_all
qed

lemma nan_remove: "linked z h ps ht \<Longrightarrow> zl_remove (zkey NaN mem) z = Inr (False, z)"
  by (rule nan_search [of z h ps ht mem]) (simp_all add: zl_remove_def sl_remove_def)

lemma nan_insert:
  assumes "linked z h ps ht"
  shows "\<exists>z' a ht'. zl_insert (randomLevel c) (zkey NaN mem) mem z = Inr z' \<and> linked z' h (a # ps) ht' \<and> vl z' a = mem"
proof -
  have L: "linked z h ([] @ ps) ht" using assms by simp
  obtain up where up: "search zkey_lt z (zkey NaN mem) = Inr up" "length up = m_level z"
      "\<forall>j < m_level z. turn ht [h] j (up ! j)" "snd (hd up) = 0" "candidate zkey_eq z (zkey NaN mem) up = Inr None"
    using nan_search [OF assms] .
  show ?thesis
    using linked_new [OF L up(2), of "randomLevel c" "zkey NaN mem" mem] up level_bounds [of c] linked_head [OF L]
    by (auto simp: zl_insert_def sl_insert_def Let_def)
qed

lemma first_node:
  assumes "linked z h (a # ps) ht"
  shows "\<exists>nd. getByIndex z 0 = Inr (Some nd) \<and> nval nd = vl z a"
  using follow_spec [OF assms, of "[]" h "a # ps" 0] linked_head [OF assms] linkedD(5) [OF assms]
  by (simp add: getByIndex_def fw_def vl_def)

text \<open>\<open>std::stod\<close> accepts \<open>nan\<close>, and a member stored with that score cannot be taken out of the
  skip list any more, since no key compares equal to it: after ZADD of a new member with that
  score, ZREM replies that it removed the member and the map of scores no longer has it, but the
  skip list still does, as its first node.\<close>

theorem zadd_nan_stays:
  assumes "zset_inv e w" and "db_valid w" and "1 \<le> m_auth_level (sock w)" and "scores_at e w (str k) (str x) = None"
    and "std_stod e (str s) = Some NaN"
  shows "\<exists>w1 w2 z nd. handleZADD e [c, k, s, x] w = Inr (integer 1, w1) \<and>
    handleZREM e [d, k, x] w1 = Inr (integer 1, w2) \<and> scores_at e w2 (str k) (str x) = None \<and>
    view zset e w2 (cur_db w) (str k) = Some z \<and> getByIndex z 0 = Inr (Some nd) \<and> nval nd = str x"
proof -
  define m where "m = (case view zset_score e w (cur_db w) (str k) of None \<Rightarrow> [] | Some m \<Rightarrow> m)"
  define z where "z = (case view zset e w (cur_db w) (str k) of None \<Rightarrow> zlist_new | Some z \<Rightarrow> z)"
  have ok: "zset_pair z m" using assms(1)
    by (rule inv_cases [of e w "cur_db w" "str k"]) (simp_all add: m_def z_def zset_pair_new)
  have none: "map_of m (str x) = None" using assms(4) by (simp add: scores_at_def m_def split: option.splits)
  obtain h ps ht where "linked z h ps ht" using ok by (auto simp: zset_pair_def represents_def)
  then obtain z' a ht' where z': "zl_insert (randomLevel (coin e 0)) (zkey NaN (str x)) (str x) z = Inr z'"
      "linked z' h (a # ps) ht'" "vl z' a = str x" using nan_insert by blast
  let ?m1 = "insert_or_assign (str x) NaN m"
  let ?w1 = "put_both e (str k) z' ?m1 w"
  have "handleZADD e [c, k, s, x] w = Inr (integer 1, ?w1)"
    using assms(2,3,5) none z'(1) m_def z_def by (simp add: handleZADD_def shard_zsets Let_def zadd_one_def)
  moreover have "\<not> sl_empty z'" using linkedD(5) [OF z'(2)] by (simp add: sl_empty_def)
  moreover have "map_of ?m1 (str x) = Some NaN" by (simp add: hm.find_ins)
  ultimately have "handleZREM e [d, k, x] ?w1 = Inr (integer 1, put_both e (str k) z' (erase (str x) ?m1) ?w1)"
    using assms(2,3) nan_remove [OF z'(2)] by (simp add: handleZREM_def shard_zsets view_both)
  moreover have "scores_at e (put_both e (str k) z' (erase (str x) ?m1) ?w1) (str k) (str x) = None"
    by (simp add: scores_put hm.find_del)
  moreover have "view zset e (put_both e (str k) z' (erase (str x) ?m1) ?w1) (cur_db w) (str k) = Some z'"
    by (simp add: view_both)
  ultimately show ?thesis using \<open>handleZADD e [c, k, s, x] w = Inr (integer 1, ?w1)\<close> first_node [OF z'(2)] z'(3) by fastforce
qed

theorem zadd_nan_stays_witness:
  "\<exists>w1 w2. handleZADD (demo_env\<lparr>std_stod := (\<lambda>_. Some NaN)\<rparr>) (map bulk_string [''ZADD'', ''z'', ''nan'', ''a'']) demo_world = Inr (integer 1, w1) \<and>
     handleZREM (demo_env\<lparr>std_stod := (\<lambda>_. Some NaN)\<rparr>) (map bulk_string [''ZREM'', ''z'', ''a'']) w1 = Inr (integer 1, w2)"
proof -
  have "scores_at e demo_world k = Map.empty" for e k
    by (simp add: scores_at_def view_def demo_world_def new_world_def new_server_def shard_empty_def)
  then show ?thesis
    using zadd_nan_stays [of "demo_env\<lparr>std_stod := (\<lambda>_. Some NaN)\<rparr>" demo_world "bulk_string ''z''" "bulk_string ''a''"
        "bulk_string ''nan''" "bulk_string ''ZADD''" "bulk_string ''ZREM''"] zset_inv_demo
    by auto
qed

end
