(* ===== verification/Rdb.thy ===== *)
theory Rdb
  imports ZSetCommands
begin

text \<open>
  The snapshot of \<open>server_data.cpp\<close>: \<open>saveToFile\<close> writes every element of every container as a line
  of fields separated by bars, \<open>loadFromFile\<close> reads such a file back, and the commands SAVE and
  BGSAVE run it. \<open>generateRDB\<close> makes the same traversal for a replica, as RESP commands. The main
  result is that a snapshot restores the data.
\<close>

subsection \<open>The traversal\<close>

text \<open>
  What one shard holds, in the order both writers visit it. A string carries the number of the
  clock reading its deadline is compared with.
\<close>

datatype rdb_item = IStr string StoreData nat | IHash string string string | IList string string
  | ISet string string | IZset string double string

definition items_of :: "env \<Rightarrow> 'v hmap \<Rightarrow> (string \<Rightarrow> 'v \<Rightarrow> rdb_item list) \<Rightarrow> rdb_item list" where
  "items_of e m f = concat (map (\<lambda>key. f key (the (map_of m key))) (iter e (keys m)))"

definition str_items :: "env \<Rightarrow> nat \<Rightarrow> nat \<Rightarrow> StoreData hmap \<Rightarrow> rdb_item list" where
  "str_items e d i m =
     map (\<lambda>(n, key). IStr key (the (map_of m key)) ((n * DB_COUNT + d) * SHARD_COUNT + i))
       (enumerate 0 (iter e (keys m)))"

definition shard_items :: "env \<Rightarrow> nat \<Rightarrow> nat \<Rightarrow> DataShard \<Rightarrow> rdb_item list" where
  "shard_items e d i sh =
     str_items e d i (store sh)
     @ items_of e (hashes sh) (\<lambda>key fields. map (\<lambda>f. IHash key f (the (map_of fields f))) (iter e (keys fields)))
     @ items_of e (lists sh) (\<lambda>key list. map (IList key) list)
     @ items_of e (sets sh) (\<lambda>key s. map (ISet key) (iter e s))
     @ items_of e (zset_score sh) (\<lambda>key z. map (\<lambda>mem. IZset key (the (map_of z mem)) mem) (iter e (keys z)))"

definition db_items :: "env \<Rightarrow> world \<Rightarrow> nat \<Rightarrow> rdb_item list" where
  "db_items e w d = concat (map (\<lambda>i. shard_items e d i (m_dbs (self w) d i)) [0..<SHARD_COUNT])"

subsection \<open>Writing the file\<close>

fun bars :: "string list \<Rightarrow> string" where
  "bars [] = []"
| "bars [p] = p"
| "bars (p # q # ps) = p @ ''|'' @ bars (q # ps)"

fun rdb_fields :: "env \<Rightarrow> nat \<Rightarrow> rdb_item \<Rightarrow> string list" where
  "rdb_fields e d (IStr key v n) = [''DB'', to_string (int d), ''STR'', key, val v]
     @ (if is_expired (clock e n) v then [to_string (the (expire v))] else [])"
| "rdb_fields e d (IHash key field v) = [''DB'', to_string (int d), ''HASH'', key, field, v]"
| "rdb_fields e d (IList key v) = [''DB'', to_string (int d), ''LIST'', key, v]"
| "rdb_fields e d (ISet key mem) = [''DB'', to_string (int d), ''SET'', key, mem]"
| "rdb_fields e d (IZset key sc mem) = [''DB'', to_string (int d), ''ZSET'', key, std_ostream e sc, mem]"

definition rdb_file :: string where
  "rdb_file = ''/var/lib/blueRedis/dump.rdb''"

definition rdb_lines :: "env \<Rightarrow> world \<Rightarrow> string list list" where
  "rdb_lines e w = concat (map (\<lambda>d. map (rdb_fields e d) (db_items e w d)) [0..<DB_COUNT])"

definition rdb_text :: "string list list \<Rightarrow> string" where
  "rdb_text ls = concat (map (\<lambda>l. bars l @ [LF]) ls)"

definition saveToFile :: "env \<Rightarrow> world \<Rightarrow> world" where
  "saveToFile e w =
     (if \<not> fs_open_ok e rdb_file then w
      else mod_self (m_last_time_update (\<lambda>_. tdiv (wall e 0) 1000000))
             (w\<lparr>disk := insert_or_assign rdb_file (rdb_text (rdb_lines e w)) (disk w)\<rparr>))"

definition handleSAVE :: handler where
  "handleSAVE e args w = require_auth w (Inr (ok_reply, saveToFile e w))"

text \<open>The thread BGSAVE detaches is a later step, \<open>bgsave_step\<close>.\<close>

definition handleBGSAVE :: handler where
  "handleBGSAVE e args w = require_auth w
     (if m_bgsave_running (self w) then Inr (error ''ERR Background save already in progress'', w)
      else Inr (simple_string ''Background saving started'', mod_self (m_bgsave_running_update (\<lambda>_. True)) w))"

definition bgsave_step :: "env \<Rightarrow> world \<Rightarrow> world" where
  "bgsave_step e w = mod_self (m_bgsave_running_update (\<lambda>_. False)) (saveToFile e w)"

subsection \<open>Reading the file\<close>

text \<open>\<open>std::getline\<close> until it fails: text after the last line feed is a line when it is not empty.\<close>

fun getlines :: "string \<Rightarrow> string \<Rightarrow> string list" where
  "getlines acc [] = (if acc = [] then [] else [rev acc])"
| "getlines acc (c # s) = (if c = LF then rev acc # getlines [] s else getlines (c # acc) s)"

fun split_bars :: "string \<Rightarrow> string \<Rightarrow> string list" where
  "split_bars acc [] = [rev acc]"
| "split_bars acc (c # s) = (if c = CHR ''|'' then rev acc # split_bars [] s else split_bars (c # acc) s)"

text \<open>One line, given its fields; \<open>False\<close> says that the loop returns. \<open>n\<close> numbers the lines.\<close>

definition get_or :: "'v \<Rightarrow> 'v hmap \<Rightarrow> string \<Rightarrow> 'v" where
  "get_or d m k = (case map_of m k of None \<Rightarrow> d | Some v \<Rightarrow> v)"

definition load_str :: "env \<Rightarrow> nat \<Rightarrow> string list \<Rightarrow> world \<Rightarrow> (bool \<times> world) res" where
  "load_str e d parts w =
     (let key = parts ! 3; v = parts ! 4; i = getShardIndex e key;
          put = (\<lambda>t. put_shard d i (store_update (insert_or_assign key \<lparr>val = v, expire = t\<rparr>)));
          w1 = put None w
      in if length parts < 6 then Inr (True, w1)
         else case stoll (parts ! 5) of None \<Rightarrow> Inr (False, w1) | Some t \<Rightarrow> Inr (True, put (Some t) w1))"

definition load_hash :: "env \<Rightarrow> nat \<Rightarrow> string list \<Rightarrow> world \<Rightarrow> (bool \<times> world) res" where
  "load_hash e d parts w =
     (let key = parts ! 3 in
      Inr (True, put_shard d (getShardIndex e key)
        (hashes_update (\<lambda>m. insert_or_assign key (insert_or_assign (parts ! 4) (parts ! 5) (get_or [] m key)) m)) w))"

definition load_list :: "env \<Rightarrow> nat \<Rightarrow> string list \<Rightarrow> world \<Rightarrow> (bool \<times> world) res" where
  "load_list e d parts w =
     (let key = parts ! 3 in
      Inr (True, put_shard d (getShardIndex e key)
        (lists_update (\<lambda>m. insert_or_assign key (get_or [] m key @ [parts ! 4]) m)) w))"

definition load_set :: "env \<Rightarrow> nat \<Rightarrow> string list \<Rightarrow> world \<Rightarrow> (bool \<times> world) res" where
  "load_set e d parts w =
     (let key = parts ! 3 in
      Inr (True, put_shard d (getShardIndex e key)
        (sets_update (\<lambda>m. insert_or_assign key (set_insert (parts ! 4) (get_or [] m key)) m)) w))"

definition load_zset :: "env \<Rightarrow> nat \<Rightarrow> nat \<Rightarrow> string list \<Rightarrow> world \<Rightarrow> (bool \<times> world) res" where
  "load_zset e n d parts w =
     (let key = parts ! 3; mem = parts ! 5; i = getShardIndex e key in
      case std_stod e (parts ! 4) of None \<Rightarrow> Inr (False, w)
      | Some sc \<Rightarrow>
          let sh = m_dbs (self w) d i;
              m = insert_or_assign mem sc (get_or [] (zset_score sh) key)
          in bnd (zl_insert (randomLevel (coin e n)) (zkey sc mem) mem (get_or zlist_new (zset sh) key)) (\<lambda>z.
               Inr (True, put_shard d i (\<lambda>s. s\<lparr>zset_score := insert_or_assign key m (zset_score s),
                                              zset := insert_or_assign key z (zset s)\<rparr>) w)))"

definition load_line :: "env \<Rightarrow> nat \<Rightarrow> string list \<Rightarrow> world \<Rightarrow> (bool \<times> world) res" where
  "load_line e n parts w =
     (if length parts < 2 then Inl OutOfBounds
      else case stoi (parts ! 1) of None \<Rightarrow> Inr (False, w)
      | Some d \<Rightarrow>
          if length parts < 3 \<or> d < 0 \<or> d \<ge> int DB_COUNT then Inl OutOfBounds
          else
            let type = parts ! 2 in
            if type = ''STR'' \<and> length parts \<ge> 5 then load_str e (nat d) parts w
            else if type = ''HASH'' \<and> length parts \<ge> 6 then load_hash e (nat d) parts w
            else if type = ''LIST'' \<and> length parts \<ge> 5 then load_list e (nat d) parts w
            else if type = ''SET'' \<and> length parts \<ge> 5 then load_set e (nat d) parts w
            else if type = ''ZSET'' \<and> length parts \<ge> 6 then load_zset e n (nat d) parts w
            else Inr (True, w))"

fun load_lines :: "env \<Rightarrow> nat \<Rightarrow> string list list \<Rightarrow> world \<Rightarrow> world res" where
  "load_lines e n [] w = Inr w"
| "load_lines e n (l # ls) w =
     bnd (load_line e n l w) (\<lambda>(go, w1). if go then load_lines e (Suc n) ls w1 else Inr w1)"

definition loadFromFile :: "env \<Rightarrow> world \<Rightarrow> world res" where
  "loadFromFile e w =
     (case map_of (disk w) rdb_file of None \<Rightarrow> Inr w
      | Some text \<Rightarrow> load_lines e 0 (map (split_bars []) (getlines [] text)) w)"

subsection \<open>Reading back what was written\<close>

definition clean :: "string \<Rightarrow> bool" where
  "clean s \<longleftrightarrow> CHR ''|'' \<notin> set s \<and> LF \<notin> set s"

lemma getlines_append: "LF \<notin> set s \<Longrightarrow> getlines acc (s @ LF # t) = (rev acc @ s) # getlines [] t"
  by (induction s arbitrary: acc) auto

lemma split_bars_last: "CHR ''|'' \<notin> set s \<Longrightarrow> split_bars acc s = [rev acc @ s]"
  by (induction s arbitrary: acc) auto

lemma split_bars_append: "CHR ''|'' \<notin> set s \<Longrightarrow> split_bars acc (s @ CHR ''|'' # t) = (rev acc @ s) # split_bars [] t"
  by (induction s arbitrary: acc) auto

lemma split_bars_bars: "ps \<noteq> [] \<Longrightarrow> \<forall>p \<in> set ps. clean p \<Longrightarrow> split_bars [] (bars ps) = ps"
  by (induction ps rule: bars.induct) (simp_all add: clean_def split_bars_last split_bars_append)

lemma LF_bars: "\<forall>p \<in> set ps. clean p \<Longrightarrow> LF \<notin> set (bars ps)"
  by (induction ps rule: bars.induct) (auto simp: clean_def LF_def)

lemma getlines_text:
  "\<forall>l \<in> set ls. l \<noteq> [] \<and> (\<forall>p \<in> set l. clean p) \<Longrightarrow> map (split_bars []) (getlines [] (rdb_text ls)) = ls"
  by (induction ls) (simp_all add: rdb_text_def getlines_append LF_bars split_bars_bars)

subsection \<open>What a snapshot holds\<close>

definition snapshot :: "env \<Rightarrow> world \<Rightarrow> (nat \<times> rdb_item) list" where
  "snapshot e w = concat (map (\<lambda>d. map (Pair d) (db_items e w d)) [0..<DB_COUNT])"

lemma rdb_lines_snapshot: "rdb_lines e w = map (\<lambda>(d, it). rdb_fields e d it) (snapshot e w)"
  by (simp add: rdb_lines_def snapshot_def map_concat comp_def)

text \<open>\<open>picks p d\<close> collects what \<open>p\<close> selects of the items of database \<open>d\<close>.\<close>

definition picks :: "(rdb_item \<Rightarrow> 'a list) \<Rightarrow> nat \<Rightarrow> (nat \<times> rdb_item) list \<Rightarrow> 'a list" where
  "picks p d L = concat (map (\<lambda>(d', it). if d' = d then p it else []) L)"

fun p_str :: "string \<Rightarrow> rdb_item \<Rightarrow> StoreData list" where
  "p_str k (IStr k' v n) = (if k' = k then [v] else [])"
| "p_str k _ = []"

fun p_hash :: "string \<Rightarrow> rdb_item \<Rightarrow> (string \<times> string) list" where
  "p_hash k (IHash k' f v) = (if k' = k then [(f, v)] else [])"
| "p_hash k _ = []"

fun p_list :: "string \<Rightarrow> rdb_item \<Rightarrow> string list" where
  "p_list k (IList k' v) = (if k' = k then [v] else [])"
| "p_list k _ = []"

fun p_set :: "string \<Rightarrow> rdb_item \<Rightarrow> string list" where
  "p_set k (ISet k' v) = (if k' = k then [v] else [])"
| "p_set k _ = []"

fun p_zset :: "string \<Rightarrow> rdb_item \<Rightarrow> (string \<times> double) list" where
  "p_zset k (IZset k' sc mem) = (if k' = k then [(mem, sc)] else [])"
| "p_zset k _ = []"

abbreviation sel :: "('b \<Rightarrow> 'a list) \<Rightarrow> 'b list \<Rightarrow> 'a list" where
  "sel p its \<equiv> concat (map p its)"

lemma concat_map_one:
  "distinct xs \<Longrightarrow> (\<And>y. y \<in> set xs \<Longrightarrow> y \<noteq> x \<Longrightarrow> g y = []) \<Longrightarrow> concat (map g xs) = (if x \<in> set xs then g x else [])"
  by (induction xs) auto

lemma sel_concat: "sel p (concat xss) = concat (map (sel p) xss)"
  by (induction xss) simp_all

lemma sel_items:
  assumes "iter_ok e" and "hmap_ok m" and "\<And>k' v. k' \<noteq> k \<Longrightarrow> sel p (f k' v) = []"
  shows "sel p (items_of e m f) = (case map_of m k of None \<Rightarrow> [] | Some v \<Rightarrow> sel p (f k v))"
proof -
  have d: "distinct (iter e (keys m))" using assms(1,2) by (simp add: iter_distinct hmap_ok_def)
  show ?thesis
    using concat_map_one [OF d, of k "\<lambda>k'. sel p (f k' (the (map_of m k')))"] assms(3)
    by (auto simp: items_of_def sel_concat comp_def iter_set [OF assms(1)] map_of_None_keys split: option.split)
      (metis hm.find_None option.distinct(1) image_eqI list.set_map)+
qed

lemma sel_items_none: "(\<And>k' v. sel p (f k' v) = []) \<Longrightarrow> sel p (items_of e m f) = []"
  by (auto simp: items_of_def sel_concat)

lemma sel_str_none: "(\<And>k v n. p (IStr k v n) = []) \<Longrightarrow> sel p (str_items e d i m) = []"
  by (auto simp: str_items_def)

lemma sel_map_nil: "(\<And>x. p (h x) = []) \<Longrightarrow> sel p (map h xs) = []"
  by (induction xs) auto

lemma sel_str:
  assumes "iter_ok e" and "hmap_ok m"
  shows "sel (p_str k) (str_items e d i m) = (case map_of m k of None \<Rightarrow> [] | Some v \<Rightarrow> [v])"
proof -
  have d: "distinct (iter e (keys m))" using assms by (simp add: iter_distinct hmap_ok_def)
  have "sel (p_str k) (str_items e d i m) = sel (\<lambda>(n, k'). if k' = k then [the (map_of m k')] else []) (enumerate 0 (iter e (keys m)))"
    unfolding str_items_def map_map comp_def by (intro arg_cong [of _ _ concat] map_cong refl) auto
  also have "\<dots> = concat (map ((\<lambda>k'. if k' = k then [the (map_of m k')] else []) \<circ> snd) (enumerate 0 (iter e (keys m))))"
    by (intro arg_cong [of _ _ concat] map_cong refl) auto
  also have "\<dots> = concat (map (\<lambda>k'. if k' = k then [the (map_of m k')] else []) (iter e (keys m)))"
    by (simp only: map_map [symmetric] map_snd_enumerate)
  also have "\<dots> = (case map_of m k of None \<Rightarrow> [] | Some v \<Rightarrow> [v])"
    using concat_map_one [OF d, of k "\<lambda>k'. if k' = k then [the (map_of m k')] else []"] hm.find_None [of m k]
    by (auto simp: iter_set [OF assms(1)] split: option.split)
  finally show ?thesis .
qed

text \<open>The selections of one shard.\<close>

lemma sel_shard:
  assumes "iter_ok e" and "shard_ok sh"
  shows "sel (p_str k) (shard_items e d i sh) = (case map_of (store sh) k of None \<Rightarrow> [] | Some v \<Rightarrow> [v])"
    and "sel (p_hash k) (shard_items e d i sh) =
      (case map_of (hashes sh) k of None \<Rightarrow> [] | Some m \<Rightarrow> map (\<lambda>f. (f, the (map_of m f))) (iter e (keys m)))"
    and "sel (p_list k) (shard_items e d i sh) = (case map_of (lists sh) k of None \<Rightarrow> [] | Some xs \<Rightarrow> xs)"
    and "sel (p_set k) (shard_items e d i sh) = (case map_of (sets sh) k of None \<Rightarrow> [] | Some xs \<Rightarrow> iter e xs)"
    and "sel (p_zset k) (shard_items e d i sh) =
      (case map_of (zset_score sh) k of None \<Rightarrow> [] | Some z \<Rightarrow> map (\<lambda>mem. (mem, the (map_of z mem))) (iter e (keys z)))"
proof -
  have ok: "hmap_ok (store sh)" "hmap_ok (hashes sh)" "hmap_ok (lists sh)" "hmap_ok (sets sh)" "hmap_ok (zset_score sh)"
    using assms(2) by (auto simp: shard_ok_def vals_ok_def)
  note own = sel_items [OF assms(1) ok(2), of k] sel_items [OF assms(1) ok(3), of k] sel_items [OF assms(1) ok(4), of k]
    sel_items [OF assms(1) ok(5), of k]
  show "sel (p_str k) (shard_items e d i sh) = (case map_of (store sh) k of None \<Rightarrow> [] | Some v \<Rightarrow> [v])"
    by (simp add: shard_items_def sel_str [OF assms(1) ok(1)] sel_items_none sel_map_nil)
  show "sel (p_hash k) (shard_items e d i sh) =
      (case map_of (hashes sh) k of None \<Rightarrow> [] | Some m \<Rightarrow> map (\<lambda>f. (f, the (map_of m f))) (iter e (keys m)))"
    by (simp add: shard_items_def sel_str_none sel_items_none sel_map_nil own comp_def concat_map_singleton split: option.split)
  show "sel (p_list k) (shard_items e d i sh) = (case map_of (lists sh) k of None \<Rightarrow> [] | Some xs \<Rightarrow> xs)"
    by (simp add: shard_items_def sel_str_none sel_items_none sel_map_nil own comp_def concat_map_singleton split: option.split)
  show "sel (p_set k) (shard_items e d i sh) = (case map_of (sets sh) k of None \<Rightarrow> [] | Some xs \<Rightarrow> iter e xs)"
    by (simp add: shard_items_def sel_str_none sel_items_none sel_map_nil own comp_def concat_map_singleton split: option.split)
  show "sel (p_zset k) (shard_items e d i sh) =
      (case map_of (zset_score sh) k of None \<Rightarrow> [] | Some z \<Rightarrow> map (\<lambda>mem. (mem, the (map_of z mem))) (iter e (keys z)))"
    by (simp add: shard_items_def sel_str_none sel_items_none sel_map_nil own comp_def concat_map_singleton split: option.split)
qed

text \<open>Every key is in the shard it hashes to.\<close>

definition placed :: "env \<Rightarrow> world \<Rightarrow> bool" where
  "placed e w \<longleftrightarrow> (\<forall>d i k. i < SHARD_COUNT \<longrightarrow> getShardIndex e k \<noteq> i \<longrightarrow>
     map_of (store (m_dbs (self w) d i)) k = None \<and> map_of (hashes (m_dbs (self w) d i)) k = None \<and>
     map_of (lists (m_dbs (self w) d i)) k = None \<and> map_of (sets (m_dbs (self w) d i)) k = None \<and>
     map_of (zset_score (m_dbs (self w) d i)) k = None)"

lemma getShardIndex_less: "getShardIndex e k < SHARD_COUNT"
  by (simp add: getShardIndex_def SHARD_COUNT_def)

lemma picks_concat: "picks p d (concat Ls) = concat (map (picks p d) Ls)"
  by (induction Ls) (simp_all add: picks_def)

lemma picks_snapshot: "d < DB_COUNT \<Longrightarrow> picks p d (snapshot e w) = sel p (db_items e w d)"
proof -
  assume d: "d < DB_COUNT"
  have in_db: "picks p d (map (Pair d') its) = (if d' = d then sel p its else [])" for d' its
    by (induction its) (auto simp: picks_def)
  have "picks p d (snapshot e w) = concat (map (\<lambda>d'. picks p d (map (Pair d') (db_items e w d'))) [0..<DB_COUNT])"
    unfolding snapshot_def picks_concat by (simp add: comp_def)
  also have "\<dots> = sel p (db_items e w d)"
    using concat_map_one [of "[0..<DB_COUNT]" d "\<lambda>d'. if d' = d then sel p (db_items e w d') else []"] d by (simp add: in_db)
  finally show ?thesis .
qed

lemma sel_db:
  assumes "\<And>i. i < SHARD_COUNT \<Longrightarrow> i \<noteq> j \<Longrightarrow> sel p (shard_items e d i (m_dbs (self w) d i)) = []" and "j < SHARD_COUNT"
  shows "sel p (db_items e w d) = sel p (shard_items e d j (m_dbs (self w) d j))"
  using concat_map_one [of "[0..<SHARD_COUNT]" j "\<lambda>i. sel p (shard_items e d i (m_dbs (self w) d i))"] assms
  by (simp add: db_items_def sel_concat comp_def)

lemma picks_view:
  assumes "iter_ok e" and "dbs_ok w" and "placed e w" and "d < DB_COUNT"
  shows "picks (p_str k) d (snapshot e w) = (case view store e w d k of None \<Rightarrow> [] | Some v \<Rightarrow> [v])"
    and "picks (p_hash k) d (snapshot e w) =
      (case view hashes e w d k of None \<Rightarrow> [] | Some m \<Rightarrow> map (\<lambda>f. (f, the (map_of m f))) (iter e (keys m)))"
    and "picks (p_list k) d (snapshot e w) = (case view lists e w d k of None \<Rightarrow> [] | Some xs \<Rightarrow> xs)"
    and "picks (p_set k) d (snapshot e w) = (case view sets e w d k of None \<Rightarrow> [] | Some xs \<Rightarrow> iter e xs)"
    and "picks (p_zset k) d (snapshot e w) =
      (case view zset_score e w d k of None \<Rightarrow> [] | Some z \<Rightarrow> map (\<lambda>mem. (mem, the (map_of z mem))) (iter e (keys z)))"
proof -
  have ok: "shard_ok (m_dbs (self w) d i)" for i using assms(2) by (simp add: dbs_ok_def)
  note sh = sel_shard [OF assms(1) ok]
  have away: "sel (p_str k) (shard_items e d i (m_dbs (self w) d i)) = []" "sel (p_hash k) (shard_items e d i (m_dbs (self w) d i)) = []"
    "sel (p_list k) (shard_items e d i (m_dbs (self w) d i)) = []" "sel (p_set k) (shard_items e d i (m_dbs (self w) d i)) = []"
    "sel (p_zset k) (shard_items e d i (m_dbs (self w) d i)) = []"
    if "i < SHARD_COUNT" "i \<noteq> getShardIndex e k" for i
    using that assms(3) by (simp_all add: sh placed_def)
  note one = picks_snapshot [OF assms(4)] sel_db [OF away(1) getShardIndex_less] sel_db [OF away(2) getShardIndex_less]
    sel_db [OF away(3) getShardIndex_less] sel_db [OF away(4) getShardIndex_less] sel_db [OF away(5) getShardIndex_less]
  show "picks (p_str k) d (snapshot e w) = (case view store e w d k of None \<Rightarrow> [] | Some v \<Rightarrow> [v])"
    "picks (p_hash k) d (snapshot e w) =
      (case view hashes e w d k of None \<Rightarrow> [] | Some m \<Rightarrow> map (\<lambda>f. (f, the (map_of m f))) (iter e (keys m)))"
    "picks (p_list k) d (snapshot e w) = (case view lists e w d k of None \<Rightarrow> [] | Some xs \<Rightarrow> xs)"
    "picks (p_set k) d (snapshot e w) = (case view sets e w d k of None \<Rightarrow> [] | Some xs \<Rightarrow> iter e xs)"
    "picks (p_zset k) d (snapshot e w) =
      (case view zset_score e w d k of None \<Rightarrow> [] | Some z \<Rightarrow> map (\<lambda>mem. (mem, the (map_of z mem))) (iter e (keys z)))"
    by (simp_all add: one sh view_def)
qed

text \<open>Where the items come from.\<close>

lemma items_of_mem:
  "iter_ok e \<Longrightarrow> it \<in> set (items_of e m f) \<Longrightarrow> \<exists>k v. map_of m k = Some v \<and> it \<in> set (f k v)"
  by (auto simp: items_of_def iter_set) (metis hm.find_None option.collapse image_eqI list.set_map fst_conv)

lemma items_of_notin: "(\<And>k v. it \<notin> set (f k v)) \<Longrightarrow> it \<notin> set (items_of e m f)"
  by (auto simp: items_of_def)

lemma snapshot_mem:
  assumes "iter_ok e" and "(d, it) \<in> set (snapshot e w)"
  shows "d < DB_COUNT \<and> (\<exists>i < SHARD_COUNT. it \<in> set (shard_items e d i (m_dbs (self w) d i)))"
  using assms by (auto simp: snapshot_def db_items_def)

lemma str_item_mem:
  assumes "iter_ok e" and "IStr k v n \<in> set (shard_items e d i sh)"
  shows "map_of (store sh) k = Some v"
proof -
  from assms have "IStr k v n \<in> set (str_items e d i (store sh))"
    by (simp add: shard_items_def items_of_notin image_iff)
  then have "k \<in> set (iter e (keys (store sh)))" "v = the (map_of (store sh) k)"
    by (auto simp: str_items_def in_set_enumerate_eq)
  then show ?thesis using hm.find_None [of "store sh" k] by (auto simp: iter_set [OF assms(1)])
qed

lemma zset_item_mem:
  assumes "iter_ok e" and "IZset k sc mem \<in> set (shard_items e d i sh)"
  shows "\<exists>z. map_of (zset_score sh) k = Some z \<and> map_of z mem = Some sc"
proof -
  from assms have "IZset k sc mem \<in> set (items_of e (zset_score sh) (\<lambda>key z. map (\<lambda>mem. IZset key (the (map_of z mem)) mem) (iter e (keys z))))"
    by (auto simp: shard_items_def str_items_def items_of_notin image_iff)
  from items_of_mem [OF assms(1) this] obtain z where z: "map_of (zset_score sh) k = Some z" "mem \<in> set (keys z)" "sc = the (map_of z mem)"
    by (auto simp: iter_set [OF assms(1)])
  then show ?thesis using hm.find_None [of z mem] by auto
qed

subsection \<open>What loading does\<close>

text \<open>The data as a client sees it: an absent container is an empty one.\<close>

record contents =
  c_str :: "nat \<Rightarrow> string \<Rightarrow> StoreData option"
  c_hash :: "nat \<Rightarrow> string \<Rightarrow> string \<Rightarrow> string option"
  c_list :: "nat \<Rightarrow> string \<Rightarrow> string list"
  c_set :: "nat \<Rightarrow> string \<Rightarrow> string set"
  c_zset :: "nat \<Rightarrow> string \<Rightarrow> string \<Rightarrow> double option"

definition contents_of :: "env \<Rightarrow> world \<Rightarrow> contents" where
  "contents_of e w = \<lparr>c_str = view store e w,
     c_hash = (\<lambda>d k. case view hashes e w d k of None \<Rightarrow> Map.empty | Some m \<Rightarrow> map_of m),
     c_list = (\<lambda>d k. case view lists e w d k of None \<Rightarrow> [] | Some xs \<Rightarrow> xs),
     c_set = (\<lambda>d k. case view sets e w d k of None \<Rightarrow> {} | Some xs \<Rightarrow> set xs),
     c_zset = (\<lambda>d k. case view zset_score e w d k of None \<Rightarrow> Map.empty | Some m \<Rightarrow> map_of m)\<rparr>"

definition at2 :: "nat \<Rightarrow> string \<Rightarrow> ('a \<Rightarrow> 'a) \<Rightarrow> (nat \<Rightarrow> string \<Rightarrow> 'a) \<Rightarrow> nat \<Rightarrow> string \<Rightarrow> 'a" where
  "at2 d k f g = g(d := (g d)(k := f (g d k)))"

lemma at2_apply: "at2 d k f g d' k' = (if d' = d \<and> k' = k then f (g d k) else g d' k')"
  by (simp add: at2_def)

fun add_item :: "nat \<Rightarrow> rdb_item \<Rightarrow> contents \<Rightarrow> contents" where
  "add_item d (IStr k v n) c = c\<lparr>c_str := at2 d k (\<lambda>_. Some \<lparr>val = val v, expire = None\<rparr>) (c_str c)\<rparr>"
| "add_item d (IHash k f v) c = c\<lparr>c_hash := at2 d k (\<lambda>m. m(f \<mapsto> v)) (c_hash c)\<rparr>"
| "add_item d (IList k v) c = c\<lparr>c_list := at2 d k (\<lambda>xs. xs @ [v]) (c_list c)\<rparr>"
| "add_item d (ISet k v) c = c\<lparr>c_set := at2 d k (insert v) (c_set c)\<rparr>"
| "add_item d (IZset k sc mem) c = c\<lparr>c_zset := at2 d k (\<lambda>m. m(mem \<mapsto> sc)) (c_zset c)\<rparr>"

fun item_loads :: "env \<Rightarrow> env \<Rightarrow> rdb_item \<Rightarrow> bool" where
  "item_loads e f (IStr k v n) = (\<not> is_expired (clock e n) v)"
| "item_loads e f (IZset k sc mem) = (std_stod f (std_ostream e sc) = Some sc \<and> sc \<noteq> NaN)"
| "item_loads e f _ = True"

fun item_new :: "contents \<Rightarrow> nat \<Rightarrow> rdb_item \<Rightarrow> bool" where
  "item_new c d (IZset k sc mem) = (c_zset c d k mem = None)"
| "item_new c d _ = True"

context shard_field
begin

lemma view_put:
  "view get e (put_shard d (getShardIndex e k) (upd (\<lambda>m. insert_or_assign k (h m) m)) w) =
    (view get e w)(d := (view get e w d)(k \<mapsto> h (get (m_dbs (self w) d (getShardIndex e k)))))"
  by (intro ext) (auto simp: view_def put_shard_def mod_self_def get_upd hmap_simps)

lemma view_put_other: "(\<And>sh. get (f sh) = get sh) \<Longrightarrow> view get e (put_shard d i f w) = view get e w"
  by (intro ext) (simp add: view_def put_shard_def mod_self_def)

end

lemmas view_puts = strs.view_put hshs.view_put lsts.view_put sets.view_put zsts.view_put zscs.view_put
lemmas view_put_others = strs.view_put_other hshs.view_put_other lsts.view_put_other sets.view_put_other
  zsts.view_put_other zscs.view_put_other

lemma get_or_view: "get_or c (get (m_dbs (self w) d (getShardIndex e k))) k = (case view get e w d k of None \<Rightarrow> c | Some v \<Rightarrow> v)"
  by (simp add: get_or_def view_def)

lemma stoi_db: "d < DB_COUNT \<Longrightarrow> stoi (to_string (int d)) = Some (int d)"
  by (simp add: stoi_def DB_COUNT_def)

lemma zset_inv_put_other:
  "(\<And>sh. zset (f sh) = zset sh) \<Longrightarrow> (\<And>sh. zset_score (f sh) = zset_score sh) \<Longrightarrow> zset_inv e (put_shard d i f w) = zset_inv e w"
  by (simp add: zset_inv_def view_put_others)

lemma load_item_simple:
  assumes "d < DB_COUNT" and "item_loads e f it" and "\<forall>k sc mem. it \<noteq> IZset k sc mem" and "zset_inv f w"
  shows "\<exists>w'. load_line f n (rdb_fields e d it) w = Inr (True, w') \<and> zset_inv f w' \<and>
    contents_of f w' = add_item d it (contents_of f w)"
  using assms
  by (cases it) (simp_all add: load_line_def stoi_db load_str_def load_hash_def load_list_def load_set_def Let_def
      zset_inv_put_other contents_of_def view_puts view_put_others get_or_view at2_def fun_eq_iff hmap_simps
      split: option.split)

lemma load_item_zset:
  assumes "d < DB_COUNT" and "item_loads e f (IZset k sc mem)" and "item_new (contents_of f w) d (IZset k sc mem)" and "zset_inv f w"
  shows "\<exists>w'. load_line f n (rdb_fields e d (IZset k sc mem)) w = Inr (True, w') \<and> zset_inv f w' \<and>
    contents_of f w' = add_item d (IZset k sc mem) (contents_of f w)"
proof -
  let ?i = "getShardIndex f k" and ?m = "case view zset_score f w d k of None \<Rightarrow> [] | Some m \<Rightarrow> m"
    and ?z = "case view zset f w d k of None \<Rightarrow> zlist_new | Some z \<Rightarrow> z"
  have pair: "zset_pair ?z ?m" using assms(4) by (rule inv_cases [of f w d k]) (simp_all add: zset_pair_new)
  have none: "map_of ?m mem = None" using assms(3) by (simp add: contents_of_def split: option.splits)
  have nan: "sc \<noteq> NaN" using assms(2) by simp
  obtain z where z: "zl_insert (randomLevel (coin f n)) (zkey sc mem) mem ?z = Inr z" "zset_pair z (insert_or_assign mem sc ?m)"
    using pair_insert [OF pair none nan, of "coin f n"] by blast
  let ?w = "put_shard d ?i (\<lambda>s. s\<lparr>zset_score := insert_or_assign k (insert_or_assign mem sc ?m) (zset_score s),
      zset := insert_or_assign k z (zset s)\<rparr>) w"
  have "load_line f n (rdb_fields e d (IZset k sc mem)) w = Inr (True, ?w)"
    using assms(1,2) z(1) by (simp add: load_line_def stoi_db load_zset_def Let_def get_or_view)
  moreover have zs: "view zset f ?w = (view zset f w)(d := (view zset f w d)(k \<mapsto> z))"
    "view zset_score f ?w = (view zset_score f w)(d := (view zset_score f w d)(k \<mapsto> insert_or_assign mem sc ?m))"
    by (auto simp: view_def put_shard_def mod_self_def hmap_simps fun_eq_iff)
  then have "zset_inv f ?w" using assms(4) z(2) by (simp add: zset_inv_def)
  moreover have "contents_of f ?w = add_item d (IZset k sc mem) (contents_of f w)"
    by (simp add: contents_of_def zs view_put_others at2_def fun_eq_iff hmap_simps split: option.split)
  ultimately show ?thesis by blast
qed

lemma load_item:
  assumes "d < DB_COUNT" and "item_loads e f it" and "item_new (contents_of f w) d it" and "zset_inv f w"
  shows "\<exists>w'. load_line f n (rdb_fields e d it) w = Inr (True, w') \<and> zset_inv f w' \<and>
    contents_of f w' = add_item d it (contents_of f w)"
proof (cases "\<exists>k sc mem. it = IZset k sc mem")
  case True
  then show ?thesis using load_item_zset assms by blast
next
  case False
  then show ?thesis using load_item_simple assms by blast
qed

abbreviation add_items :: "(nat \<times> rdb_item) list \<Rightarrow> contents \<Rightarrow> contents" where
  "add_items L c \<equiv> fold (\<lambda>(d, it). add_item d it) L c"

fun items_new :: "contents \<Rightarrow> (nat \<times> rdb_item) list \<Rightarrow> bool" where
  "items_new c [] = True"
| "items_new c ((d, it) # L) = (item_new c d it \<and> items_new (add_item d it c) L)"

lemma load_items:
  assumes "\<forall>(d, it) \<in> set L. d < DB_COUNT \<and> item_loads e f it" and "items_new (contents_of f w) L" and "zset_inv f w"
  shows "\<exists>w'. load_lines f n (map (\<lambda>(d, it). rdb_fields e d it) L) w = Inr w' \<and> zset_inv f w' \<and>
    contents_of f w' = add_items L (contents_of f w)"
  using assms
proof (induction L arbitrary: w n)
  case (Cons p L)
  obtain d it where p: "p = (d, it)" by force
  obtain w1 where w1: "load_line f n (rdb_fields e d it) w = Inr (True, w1)" "zset_inv f w1"
      "contents_of f w1 = add_item d it (contents_of f w)"
    using load_item [of d e f it w n] Cons.prems p by auto
  then show ?case using Cons.IH [of w1 "Suc n"] Cons.prems p by auto
qed simp

text \<open>The effect on each part depends on the items selected for it.\<close>

lemma add_items_parts:
  "c_str (add_items L c) d k = fold (\<lambda>v _. Some \<lparr>val = val v, expire = None\<rparr>) (picks (p_str k) d L) (c_str c d k)"
  "c_hash (add_items L c) d k = fold (\<lambda>(f, v) m. m(f \<mapsto> v)) (picks (p_hash k) d L) (c_hash c d k)"
  "c_list (add_items L c) d k = c_list c d k @ picks (p_list k) d L"
  "c_set (add_items L c) d k = c_set c d k \<union> set (picks (p_set k) d L)"
  "c_zset (add_items L c) d k = fold (\<lambda>(mem, sc) m. m(mem \<mapsto> sc)) (picks (p_zset k) d L) (c_zset c d k)"
proof (induction L arbitrary: c)
  case (Cons p L)
  obtain d' it where p: "p = (d', it)" by force
  { case 1 show ?case by (cases it) (auto simp: p Cons picks_def at2_apply simp del: fun_upd_apply) }
  { case 2 show ?case by (cases it) (auto simp: p Cons picks_def at2_apply simp del: fun_upd_apply) }
  { case 3 show ?case by (cases it) (auto simp: p Cons picks_def at2_apply simp del: fun_upd_apply) }
  { case 4 show ?case by (cases it) (auto simp: p Cons picks_def at2_apply simp del: fun_upd_apply) }
  { case 5 show ?case by (cases it) (auto simp: p Cons picks_def at2_apply simp del: fun_upd_apply) }
qed (simp_all add: picks_def)

lemma items_newI:
  assumes "\<And>d k. distinct (map fst (picks (p_zset k) d L))" and "\<And>d k mem. mem \<in> set (map fst (picks (p_zset k) d L)) \<Longrightarrow> c_zset c d k mem = None"
  shows "items_new c L"
  using assms
proof (induction L arbitrary: c)
  case (Cons p L)
  obtain d it where p: "p = (d, it)" by force
  have pk: "picks (p_zset k) d' (p # L) = (if d' = d then p_zset k it else []) @ picks (p_zset k) d' L" for d' k
    by (simp add: picks_def p)
  have "item_new c d it" using Cons.prems(2) [of _ _ d] pk by (cases it) auto
  moreover have "items_new (add_item d it c) L"
  proof (rule Cons.IH)
    fix d' k show "distinct (map fst (picks (p_zset k) d' L))" using Cons.prems(1) [of k d'] pk [of k d'] by simp
    fix mem assume m: "mem \<in> set (map fst (picks (p_zset k) d' L))"
    then have "c_zset c d' k mem = None" using Cons.prems(2) [of mem k d'] pk [of k d'] by simp
    then show "c_zset (add_item d it c) d' k mem = None"
      using Cons.prems(1) [of k d'] m pk [of k d'] by (cases it) (auto simp: at2_def)
  qed
  ultimately show ?case by (simp add: p)
qed simp

lemma fold_upd_map: "distinct ks \<Longrightarrow> fold (\<lambda>(k, v) m. m(k \<mapsto> v)) (map (\<lambda>k. (k, g k)) ks) m = (\<lambda>k. if k \<in> set ks then Some (g k) else m k)"
  by (induction ks arbitrary: m) (auto simp: fun_eq_iff)

lemma fold_restores:
  assumes "iter_ok e" and "hmap_ok m"
  shows "fold (\<lambda>(k, v) m. m(k \<mapsto> v)) (map (\<lambda>k. (k, the (map_of m k))) (iter e (keys m))) Map.empty = map_of m"
proof -
  have "distinct (iter e (keys m))" using assms by (simp add: iter_distinct hmap_ok_def)
  then have "fold (\<lambda>(k, v) m. m(k \<mapsto> v)) (map (\<lambda>k. (k, the (map_of m k))) (iter e (keys m))) Map.empty x = map_of m x" for x
    using hm.find_None [of m x] by (cases "map_of m x") (simp_all add: fold_upd_map iter_set [OF assms(1)])
  then show ?thesis by (rule ext)
qed

lemma contents_fresh:
  assumes "m_dbs (self w) = (\<lambda>_ _. shard_empty)"
  shows "contents_of f w = \<lparr>c_str = (\<lambda>_ _. None), c_hash = (\<lambda>_ _. Map.empty), c_list = (\<lambda>_ _. []), c_set = (\<lambda>_ _. {}), c_zset = (\<lambda>_ _. Map.empty)\<rparr>"
    and "zset_inv f w"
  using assms by (simp_all add: contents_of_def zset_inv_def view_def shard_empty_def fun_eq_iff)

lemma zset_picks_distinct:
  assumes "iter_ok e" and "dbs_ok w" and "placed e w"
  shows "distinct (map fst (picks (p_zset k) d (snapshot e w)))"
proof (cases "d < DB_COUNT")
  case True
  have "hmap_ok z" if "view zset_score e w d k = Some z" for z
    using that assms(2) vals_okD [of hmap_ok "zset_score (m_dbs (self w) d (getShardIndex e k))" k z]
    by (simp add: view_def dbs_ok_def shard_ok_def)
  then show ?thesis
    using picks_view(5) [OF assms True, of k] assms(1)
    by (auto simp: comp_def iter_distinct hmap_ok_def split: option.split)
next
  case False
  then have "picks (p_zset k) d (snapshot e w) = []" using snapshot_mem [OF assms(1)] by (fastforce simp: picks_def)
  then show ?thesis by simp
qed

lemma snapshot_loads:
  assumes "iter_ok e" and "placed e w" and "zset_inv e w"
    and "\<forall>d k v n. view store e w d k = Some v \<longrightarrow> \<not> is_expired (clock e n) v"
    and "\<forall>d k mem sc. c_zset (contents_of e w) d k mem = Some sc \<longrightarrow> std_stod f (std_ostream e sc) = Some sc"
  shows "\<forall>(d, it) \<in> set (snapshot e w). d < DB_COUNT \<and> item_loads e f it"
proof (clarify, intro conjI)
  fix d it assume "(d, it) \<in> set (snapshot e w)"
  from snapshot_mem [OF assms(1) this] obtain i where i: "d < DB_COUNT" "i < SHARD_COUNT" "it \<in> set (shard_items e d i (m_dbs (self w) d i))"
    by blast
  then show "d < DB_COUNT" by simp
  show "item_loads e f it"
  proof (cases it)
    case (IStr k v n)
    have "map_of (store (m_dbs (self w) d i)) k = Some v" using str_item_mem [OF assms(1)] i(3) IStr by blast
    moreover then have "getShardIndex e k = i" using assms(2) i(2) by (metis option.distinct(1) placed_def)
    ultimately show ?thesis using assms(4) IStr by (auto simp: view_def)
  next
    case (IZset k sc mem)
    obtain z where z: "map_of (zset_score (m_dbs (self w) d i)) k = Some z" "map_of z mem = Some sc"
      using zset_item_mem [OF assms(1)] i(3) IZset by blast
    then have "getShardIndex e k = i" using assms(2) i(2) by (metis option.distinct(1) placed_def)
    then have v: "view zset_score e w d k = Some z" using z(1) by (simp add: view_def)
    from assms(3) have "sc \<noteq> NaN" by (rule inv_cases [of e w d k]) (use v z(2) in \<open>auto dest: pair_number\<close>)
    moreover have "c_zset (contents_of e w) d k mem = Some sc" using v z(2) by (simp add: contents_of_def)
    then have "std_stod f (std_ostream e sc) = Some sc" using assms(5) by blast
    ultimately show ?thesis using IZset by simp
  qed simp_all
qed

lemma snapshot_contents:
  assumes "iter_ok e" and "dbs_ok w" and "placed e w" and "d < DB_COUNT"
  shows "c_str (add_items (snapshot e w) \<lparr>c_str = (\<lambda>_ _. None), c_hash = h0, c_list = l0, c_set = s0, c_zset = z0\<rparr>) d k =
      map_option (\<lambda>v. v\<lparr>expire := None\<rparr>) (c_str (contents_of e w) d k)"
    and "c_hash (add_items (snapshot e w) \<lparr>c_str = c0, c_hash = (\<lambda>_ _. Map.empty), c_list = l0, c_set = s0, c_zset = z0\<rparr>) d k =
      c_hash (contents_of e w) d k"
    and "c_list (add_items (snapshot e w) \<lparr>c_str = c0, c_hash = h0, c_list = (\<lambda>_ _. []), c_set = s0, c_zset = z0\<rparr>) d k =
      c_list (contents_of e w) d k"
    and "c_set (add_items (snapshot e w) \<lparr>c_str = c0, c_hash = h0, c_list = l0, c_set = (\<lambda>_ _. {}), c_zset = z0\<rparr>) d k =
      c_set (contents_of e w) d k"
    and "c_zset (add_items (snapshot e w) \<lparr>c_str = c0, c_hash = h0, c_list = l0, c_set = s0, c_zset = (\<lambda>_ _. Map.empty)\<rparr>) d k =
      c_zset (contents_of e w) d k"
proof -
  have ok: "shard_ok (m_dbs (self w) d i)" for i using assms(2) by (simp add: dbs_ok_def)
  have h: "hmap_ok m" if "view hashes e w d k = Some m" for m
    using that ok vals_okD [of hmap_ok "hashes (m_dbs (self w) d (getShardIndex e k))" k m] by (simp add: view_def shard_ok_def)
  have z: "hmap_ok m" if "view zset_score e w d k = Some m" for m
    using that ok vals_okD [of hmap_ok "zset_score (m_dbs (self w) d (getShardIndex e k))" k m] by (simp add: view_def shard_ok_def)
  note parts = add_items_parts picks_view [OF assms]
  show "c_str (add_items (snapshot e w) \<lparr>c_str = (\<lambda>_ _. None), c_hash = h0, c_list = l0, c_set = s0, c_zset = z0\<rparr>) d k =
      map_option (\<lambda>v. v\<lparr>expire := None\<rparr>) (c_str (contents_of e w) d k)"
    by (simp add: parts contents_of_def split: option.split)
  show "c_hash (add_items (snapshot e w) \<lparr>c_str = c0, c_hash = (\<lambda>_ _. Map.empty), c_list = l0, c_set = s0, c_zset = z0\<rparr>) d k =
      c_hash (contents_of e w) d k"
    using h by (simp add: parts contents_of_def fold_restores [OF assms(1)] split: option.split)
  show "c_list (add_items (snapshot e w) \<lparr>c_str = c0, c_hash = h0, c_list = (\<lambda>_ _. []), c_set = s0, c_zset = z0\<rparr>) d k =
      c_list (contents_of e w) d k"
    by (simp add: parts contents_of_def)
  show "c_set (add_items (snapshot e w) \<lparr>c_str = c0, c_hash = h0, c_list = l0, c_set = (\<lambda>_ _. {}), c_zset = z0\<rparr>) d k =
      c_set (contents_of e w) d k"
    by (simp add: parts contents_of_def iter_set [OF assms(1)] split: option.split)
  show "c_zset (add_items (snapshot e w) \<lparr>c_str = c0, c_hash = h0, c_list = l0, c_set = s0, c_zset = (\<lambda>_ _. Map.empty)\<rparr>) d k =
      c_zset (contents_of e w) d k"
    using z by (simp add: parts contents_of_def fold_restores [OF assms(1)] split: option.split)
qed

text \<open>Loading changes nothing but the databases.\<close>

definition only_dbs :: "world \<Rightarrow> world \<Rightarrow> bool" where
  "only_dbs w w1 \<longleftrightarrow> (\<exists>D. w1 = mod_self (m_dbs_update (\<lambda>_. D)) w)"

lemma only_dbs_refl: "only_dbs w w"
  by (auto simp: only_dbs_def mod_self_def intro!: exI [of _ "m_dbs (self w)"])

lemma only_dbs_put: "only_dbs w w1 \<Longrightarrow> only_dbs w (put_shard d i f w1)"
  by (auto simp: only_dbs_def put_shard_def mod_self_def)

lemma load_line_frame: "load_line e n l w = Inr (go, w1) \<Longrightarrow> only_dbs w w1"
  by (auto simp: load_line_def load_str_def load_hash_def load_list_def load_set_def load_zset_def Let_def bnd_eq_Inr
      intro!: only_dbs_put only_dbs_refl split: if_splits option.splits)

lemma only_dbs_trans: "only_dbs w w1 \<Longrightarrow> only_dbs w1 w2 \<Longrightarrow> only_dbs w w2"
  by (auto simp: only_dbs_def mod_self_def)

lemma load_lines_frame: "load_lines e n ls w = Inr w1 \<Longrightarrow> only_dbs w w1"
proof (induction ls arbitrary: n w)
  case (Cons l ls)
  then obtain go w2 where w2: "load_line e n l w = Inr (go, w2)" "(if go then load_lines e (Suc n) ls w2 else Inr w2) = Inr w1"
    by (auto simp: bnd_eq_Inr)
  then show ?case using load_line_frame [OF w2(1)] Cons.IH only_dbs_trans by (auto split: if_splits)
qed (simp add: only_dbs_refl)

lemma loadFromFile_frame: "loadFromFile e w = Inr w1 \<Longrightarrow> only_dbs w w1"
  using load_lines_frame by (auto simp: loadFromFile_def only_dbs_refl split: option.splits)

text \<open>The file of a snapshot loaded by a server just started.\<close>

definition same_contents :: "contents \<Rightarrow> contents \<Rightarrow> bool" where
  "same_contents c c' \<longleftrightarrow> (\<forall>d < DB_COUNT. \<forall>k. c_str c' d k = map_option (\<lambda>v. v\<lparr>expire := None\<rparr>) (c_str c d k) \<and>
     c_hash c' d k = c_hash c d k \<and> c_list c' d k = c_list c d k \<and> c_set c' d k = c_set c d k \<and> c_zset c' d k = c_zset c d k)"

lemma load_snapshot:
  assumes "iter_ok e" and "dbs_ok w" and "placed e w" and "zset_inv e w"
    and "\<forall>l \<in> set (rdb_lines e w). \<forall>s \<in> set l. clean s"
    and "\<forall>d k v n. view store e w d k = Some v \<longrightarrow> \<not> is_expired (clock e n) v"
    and "\<forall>d k mem sc. c_zset (contents_of e w) d k mem = Some sc \<longrightarrow> std_stod f (std_ostream e sc) = Some sc"
    and "m_dbs (self w2) = (\<lambda>_ _. shard_empty)" and "map_of (disk w2) rdb_file = Some (rdb_text (rdb_lines e w))"
  shows "\<exists>w3. loadFromFile f w2 = Inr w3 \<and> zset_inv f w3 \<and> same_contents (contents_of e w) (contents_of f w3)"
proof -
  have "rdb_fields e d it \<noteq> []" for d it by (cases it) simp_all
  then have "map (split_bars []) (getlines [] (rdb_text (rdb_lines e w))) = rdb_lines e w"
    using assms(5) by (intro getlines_text) (auto simp: rdb_lines_snapshot)
  then have l: "loadFromFile f w2 = load_lines f 0 (map (\<lambda>(d, it). rdb_fields e d it) (snapshot e w)) w2"
    using assms(9) by (simp add: loadFromFile_def rdb_lines_snapshot)
  note fresh = contents_fresh [OF assms(8), of f]
  have "items_new (contents_of f w2) (snapshot e w)"
    using zset_picks_distinct [OF assms(1-3)] fresh(1) by (intro items_newI) simp_all
  from load_items [OF snapshot_loads [OF assms(1,3,4,6,7)] this fresh(2)]
  obtain w3 where w3: "loadFromFile f w2 = Inr w3" "zset_inv f w3" "contents_of f w3 = add_items (snapshot e w) (contents_of f w2)"
    using l by metis
  then show ?thesis using snapshot_contents [OF assms(1-3)] fresh(1) by (auto simp: same_contents_def)
qed

subsection \<open>Properties\<close>

text \<open>C15. A snapshot restores the data: SAVE on a server whose texts hold no bar and no line feed, and
  whose scores survive printing, then loading on a server just started, possibly with another hash
  function, gives back every string, hash, list, set and sorted set of every database, and sorted
  sets whose two copies agree. Strings come back without their deadlines: the file has the deadline
  of a key only when the key has already expired.\<close>

theorem rdb_restores:
  assumes "iter_ok e" and "dbs_ok w" and "placed e w" and "zset_inv e w" and "1 \<le> m_auth_level (sock w)" and "fs_open_ok e rdb_file"
    and "\<forall>l \<in> set (rdb_lines e w). \<forall>s \<in> set l. clean s"
    and "\<forall>d k v n. view store e w d k = Some v \<longrightarrow> \<not> is_expired (clock e n) v"
    and "\<forall>d k mem sc. c_zset (contents_of e w) d k mem = Some sc \<longrightarrow> std_stod f (std_ostream e sc) = Some sc"
    and "handleSAVE e args w = Inr (r, w1)" and "m_dbs (self w2) = (\<lambda>_ _. shard_empty)" and "disk w2 = disk w1"
  shows "\<exists>w3. loadFromFile f w2 = Inr w3 \<and> zset_inv f w3 \<and> (\<forall>d < DB_COUNT. \<forall>k.
      c_str (contents_of f w3) d k = map_option (\<lambda>v. v\<lparr>expire := None\<rparr>) (c_str (contents_of e w) d k) \<and>
      c_hash (contents_of f w3) d k = c_hash (contents_of e w) d k \<and>
      c_list (contents_of f w3) d k = c_list (contents_of e w) d k \<and>
      c_set (contents_of f w3) d k = c_set (contents_of e w) d k \<and>
      c_zset (contents_of f w3) d k = c_zset (contents_of e w) d k)"
proof -
  have "map_of (disk w2) rdb_file = Some (rdb_text (rdb_lines e w))"
    using assms(5,6,10,12) by (auto simp: handleSAVE_def saveToFile_def hmap_simps)
  from load_snapshot [OF assms(1-4,7-9,11) this] show ?thesis unfolding same_contents_def by blast
qed

text \<open>A server with one filled shard.\<close>

definition demo_shard :: DataShard where
  "demo_shard = \<lparr>store = [(''z'', \<lparr>val = ''hello'', expire = Some 5000\<rparr>)], hashes = [(''z'', [(''f'', ''v'')])],
     lists = [(''z'', [''a'', ''b''])], sets = [(''z'', [''m''])], zset = [(''z'', demo_zlist)], zset_score = [(''z'', [(''a'', Fin 1)])]\<rparr>"

definition demo_rworld :: world where
  "demo_rworld = put_shard 0 (getShardIndex demo_env ''z'') (\<lambda>_. demo_shard) demo_world"

lemma demo_rworld_dbs:
  "m_dbs (self demo_rworld) = (\<lambda>_ _. shard_empty)(0 := (\<lambda>_. shard_empty)(getShardIndex demo_env ''z'' := demo_shard))"
  by (simp add: demo_rworld_def put_shard_def mod_self_def demo_world_def mod_sock_def new_world_def new_server_def)

lemma shard_items_empty: "iter_ok e \<Longrightarrow> shard_items e d i shard_empty = []"
  using iter_set [of e "[]"] by (simp add: shard_items_def shard_empty_def str_items_def items_of_def)

lemma demo_rworld_items: "db_items demo_env demo_rworld d = (if d = 0 then shard_items demo_env 0 (getShardIndex demo_env ''z'') demo_shard else [])"
proof -
  let ?j = "getShardIndex demo_env ''z''"
  have "db_items demo_env demo_rworld 0 = shard_items demo_env 0 ?j demo_shard"
    using concat_map_one [of "[0..<SHARD_COUNT]" ?j "\<lambda>i. shard_items demo_env 0 i (m_dbs (self demo_rworld) 0 i)"] getShardIndex_less [of demo_env "''z''"]
    by (simp add: db_items_def demo_rworld_dbs shard_items_empty)
  then show ?thesis by (simp add: db_items_def demo_rworld_dbs shard_items_empty)
qed

lemma demo_rworld_lines: "rdb_lines demo_env demo_rworld = map (rdb_fields demo_env 0) (shard_items demo_env 0 (getShardIndex demo_env ''z'') demo_shard)"
  using concat_map_one [of "[0..<DB_COUNT]" 0 "\<lambda>d. map (rdb_fields demo_env d) (db_items demo_env demo_rworld d)"]
  by (simp add: rdb_lines_def DB_COUNT_def demo_rworld_items)

lemma demo_rworld_views:
  "view store demo_env demo_rworld d k = (if d = 0 \<and> k = ''z'' then Some \<lparr>val = ''hello'', expire = Some 5000\<rparr> else None)"
  "view zset demo_env demo_rworld d k = (if d = 0 \<and> k = ''z'' then Some demo_zlist else None)"
  "view zset_score demo_env demo_rworld d k = (if d = 0 \<and> k = ''z'' then Some [(''a'', Fin 1)] else None)"
  by (auto simp: view_def demo_rworld_dbs demo_shard_def shard_empty_def)

lemma demo_rworld_ok:
  "dbs_ok demo_rworld" "placed demo_env demo_rworld" "zset_inv demo_env demo_rworld"
  "\<forall>l \<in> set (rdb_lines demo_env demo_rworld). \<forall>s \<in> set l. clean s"
proof -
  have "shard_ok demo_shard" by (simp add: demo_shard_def shard_ok_def hmap_ok_def vals_ok_def)
  then show "dbs_ok demo_rworld" by (simp add: dbs_ok_def demo_rworld_dbs)
  show "placed demo_env demo_rworld"
    by (auto simp: placed_def demo_rworld_dbs demo_shard_def shard_empty_def)
  have "agree [(''a'', Fin 1)] [(zkey (Fin 1) ''a'', ''a'')]" by (auto simp: agree_def hmap_ok_def)
  then have "zset_pair demo_zlist [(''a'', Fin 1)]" using demo_zlist_rep by (auto simp: zset_pair_def)
  then show "zset_inv demo_env demo_rworld" by (simp add: zset_inv_def demo_rworld_views)
  have "to_string 0 = ''0''" by code_simp
  then show "\<forall>l \<in> set (rdb_lines demo_env demo_rworld). \<forall>s \<in> set l. clean s"
    unfolding demo_rworld_lines
    by (simp add: shard_items_def demo_shard_def str_items_def items_of_def clean_def LF_def demo_env_def is_expired_def)
qed

theorem rdb_restores_witness:
  "\<exists>w3. loadFromFile (demo_env\<lparr>std_stod := \<lambda>_. Some (Fin 1)\<rparr>) ((new_world demo_config)\<lparr>disk := disk (saveToFile demo_env demo_rworld)\<rparr>) = Inr w3 \<and>
     c_str (contents_of (demo_env\<lparr>std_stod := \<lambda>_. Some (Fin 1)\<rparr>) w3) 0 ''z'' = Some \<lparr>val = ''hello'', expire = None\<rparr> \<and>
     c_list (contents_of (demo_env\<lparr>std_stod := \<lambda>_. Some (Fin 1)\<rparr>) w3) 0 ''z'' = [''a'', ''b''] \<and>
     c_zset (contents_of (demo_env\<lparr>std_stod := \<lambda>_. Some (Fin 1)\<rparr>) w3) 0 ''z'' = [''a'' \<mapsto> Fin 1]"
proof -
  let ?f = "demo_env\<lparr>std_stod := \<lambda>_. Some (Fin 1)\<rparr>" and ?w2 = "(new_world demo_config)\<lparr>disk := disk (saveToFile demo_env demo_rworld)\<rparr>"
  have s: "1 \<le> m_auth_level (sock demo_rworld)" by (simp add: demo_rworld_def)
  then have h: "handleSAVE demo_env [] demo_rworld = Inr (ok_reply, saveToFile demo_env demo_rworld)" by (simp add: handleSAVE_def)
  have o: "fs_open_ok demo_env rdb_file" and t: "clock demo_env n = 1000" for n by (simp_all add: demo_env_def)
  have live: "\<forall>d k v n. view store demo_env demo_rworld d k = Some v \<longrightarrow> \<not> is_expired (clock demo_env n) v"
    using t by (auto simp: demo_rworld_views is_expired_def split: if_splits)
  have sc: "\<forall>d k mem sc. c_zset (contents_of demo_env demo_rworld) d k mem = Some sc \<longrightarrow> std_stod ?f (std_ostream demo_env sc) = Some sc"
    by (auto simp: contents_of_def demo_rworld_views split: if_splits)
  have m: "m_dbs (self ?w2) = (\<lambda>_ _. shard_empty)" by (simp add: new_world_def new_server_def)
  have dk: "disk ?w2 = disk (saveToFile demo_env demo_rworld)" by simp
  have v: "view lists demo_env demo_rworld 0 ''z'' = Some [''a'', ''b'']" by (simp add: view_def demo_rworld_dbs demo_shard_def)
  have d: "(0 :: nat) < DB_COUNT" by (simp add: DB_COUNT_def)
  from rdb_restores [OF iter_ok_demo demo_rworld_ok(1,2,3) s o demo_rworld_ok(4) live sc h m dk]
  show ?thesis using d v by (auto simp: contents_of_def demo_rworld_views dest!: spec [of _ "0 :: nat"] spec [of _ "''z''"])
qed

end
