(* ===== verification/Replication.thy ===== *)
theory Replication
  imports Rdb
begin

text \<open>
  Replication as the commands see it: INFO, REPLICAOF, SLAVEOF and SYNC of
  \<open>command_handler_table.cpp\<close>, \<open>generateRDB\<close> of \<open>server_data.cpp\<close>, and starting and stopping of
  \<open>ReplicationModule\<close>. The stream of a full synchronisation is scheduled by SYNC and runs as a later
  step (\<open>sendRDBStreaming\<close>), here without writes in between. What a replica does with it is in theory
  \<open>Replica\<close>.
\<close>

subsection \<open>The stream of a full synchronisation\<close>

definition frame :: "string list \<Rightarrow> string" where
  "frame args = ''*'' @ to_string (int (length args)) @ CRLF
     @ concat (map (\<lambda>a. ''$'' @ to_string (int (length a)) @ CRLF @ a @ CRLF) args)"

text \<open>
  The commands that rebuild one item. A string with time left is followed by a frame of its own
  that no command reads.
\<close>

definition seconds_left :: "env \<Rightarrow> nat \<Rightarrow> int \<Rightarrow> int" where
  "seconds_left e n t = tdiv (t - clock e n) 1000000000"

fun sync_commands :: "env \<Rightarrow> rdb_item \<Rightarrow> string list list" where
  "sync_commands e (IStr key v n) = [''SET'', key, val v] #
     (case expire v of None \<Rightarrow> []
      | Some t \<Rightarrow> if seconds_left e n t > 0 then [[''EX'', to_string (seconds_left e n t)]] else [])"
| "sync_commands e (IHash key field v) = [[''HSET'', key, field, v]]"
| "sync_commands e (IList key v) = [[''RPUSH'', key, v]]"
| "sync_commands e (ISet key mem) = [[''SADD'', key, mem]]"
| "sync_commands e (IZset key sc mem) = [[''ZADD'', key, std_to_string e sc, mem]]"

definition sync_entry :: "env \<Rightarrow> rdb_item \<Rightarrow> string" where
  "sync_entry e it = concat (map frame (sync_commands e it))"

definition has_data :: "world \<Rightarrow> nat \<Rightarrow> bool" where
  "has_data w d \<longleftrightarrow> list_ex (\<lambda>i. let sh = m_dbs (self w) d i in
     store sh \<noteq> [] \<or> hashes sh \<noteq> [] \<or> lists sh \<noteq> [] \<or> sets sh \<noteq> [] \<or> zset sh \<noteq> []) [0..<SHARD_COUNT]"

definition generateRDB :: "env \<Rightarrow> world \<Rightarrow> string list" where
  "generateRDB e w =
     concat (map (\<lambda>d. if has_data w d
                      then frame [''SELECT'', to_string (int d)] # map (sync_entry e) (db_items e w d)
                      else []) [0..<DB_COUNT])
     @ [frame [''EOF'']]"

abbreviation mod_repl :: "(Replication \<Rightarrow> Replication) \<Rightarrow> world \<Rightarrow> world" where
  "mod_repl f w \<equiv> mod_self (m_repl_update f) w"

text \<open>Sending the chunks: a failed send drops the replica.\<close>

definition drop_slave :: "nat \<Rightarrow> world \<Rightarrow> world" where
  "drop_slave i w = mod_self (m_slaves_update (remove_slave (peers w) i)) w"

fun sendRDBStreaming :: "env \<Rightarrow> nat \<Rightarrow> string list \<Rightarrow> world \<Rightarrow> world" where
  "sendRDBStreaming e i [] w = w"
| "sendRDBStreaming e i (chunk # chunks) w =
     (let (sent, n) = (if online (peers w) i then net_send e i chunk (peers w) else (- 1, peers w)) in
      if sent \<le> 0 then drop_slave i (w\<lparr>peers := n\<rparr>)
      else sendRDBStreaming e i chunks (w\<lparr>peers := n\<rparr>))"

definition stream_step :: "env \<Rightarrow> nat \<Rightarrow> world \<Rightarrow> world" where
  "stream_step e i w =
     sendRDBStreaming e i (generateRDB e w) (mod_repl (m_streams_update (remove1 i)) w)"

text \<open>Without a scheduler SYNC sends the chunks itself, each as a bulk string.\<close>

fun sync_direct :: "env \<Rightarrow> nat \<Rightarrow> string list \<Rightarrow> world \<Rightarrow> RespValue \<times> world" where
  "sync_direct e i [] w = (ok_reply, w)"
| "sync_direct e i (chunk # chunks) w =
     (let (sent, n) = net_send e i (''$'' @ to_string (int (length chunk)) @ CRLF @ chunk @ CRLF) (peers w) in
      if sent \<le> 0 then (error ''ERR failed to send RDB'', drop_slave i (w\<lparr>peers := n\<rparr>))
      else sync_direct e i chunks (w\<lparr>peers := n\<rparr>))"

definition handleSYNC :: handler where
  "handleSYNC e args w = require_auth w
     (if \<not> s_repl_is_master (cfg w) then Inr (error ''ERR not master'', w)
      else
        let w1 = mod_self (m_slaves_update (addSlaves (cur w))) w in
        if on_iomanager e
        then Inr (ok_reply, mod_repl (m_streams_update (\<lambda>is. is @ [cur w])) w1)
        else Inr (sync_direct e (cur w) (generateRDB e w1) w1))"

subsection \<open>Becoming a replica\<close>

text \<open>
  \<open>startReplication\<close> and \<open>stopReplication\<close>, for the flags and the queue. Stopping waits for the
  replication thread and the consumer; both leave their loops when they see the stop flags.
\<close>

definition startReplication :: "env \<Rightarrow> Replication \<Rightarrow> Replication" where
  "startReplication e r =
     (if \<not> m_repl_stop r \<and> \<not> m_repl_queue_stop r then r
      else r\<lparr>m_repl_state := REPL_STATE_CONNECTING, m_repl_queue_stop := False, m_repl_stop := False,
             m_consumer_started := True\<rparr>)"

definition stopReplication :: "Replication \<Rightarrow> Replication" where
  "stopReplication r =
     (if m_repl_stop r \<and> m_repl_queue_stop r then r
      else r\<lparr>m_repl_stop := True, m_repl_queue_stop := True, m_consumer_started := False, m_repl_queue := []\<rparr>)"

definition handleREPLICAOF :: handler where
  "handleREPLICAOF e args w = require_auth w
     (if length args \<noteq> 3 then Inr (wrong_args ''REPLICAOF'', w)
      else bnd (arg args 1) (\<lambda>addr. bnd (arg args 2) (\<lambda>port_str.
        if addr \<in> {''NO'', ''no''} \<and> port_str \<in> {''ONE'', ''one''} then
          Inr (ok_reply, if s_repl_is_master (cfg w) then w
                         else (mod_repl stopReplication w)\<lparr>cfg := (cfg w)\<lparr>s_repl_is_master := True\<rparr>\<rparr>)
        else case stoi port_str of None \<Rightarrow> Inr (error ''ERR value is not an integer or out of range'', w)
        | Some port \<Rightarrow>
            if port < 0 \<or> port > 65535 then Inr (error ''ERR value is invalid'', w)
            else if \<not> s_repl_is_master (cfg w) \<and> s_repl_master_addr (cfg w) = addr \<and> int (s_repl_master_port (cfg w)) = port
            then Inr (ok_reply, w)
            else
              let w1 = (if s_repl_is_master (cfg w) then w else mod_repl stopReplication w);
                  w2 = w1\<lparr>cfg := (cfg w1)\<lparr>s_repl_is_master := False, s_repl_master_addr := addr,
                                             s_repl_master_port := nat port, s_repl_offset := 0\<rparr>\<rparr>
              in Inr (ok_reply, mod_repl (startReplication e) w2))))"

text \<open>SLAVEOF has the same body, the name in its error message included.\<close>

definition handleSLAVEOF :: handler where
  "handleSLAVEOF e args w = handleREPLICAOF e args w"

subsection \<open>INFO\<close>

fun slaves_lines :: "config \<Rightarrow> net \<Rightarrow> nat \<Rightarrow> nat list \<Rightarrow> string" where
  "slaves_lines c n idx [] = []"
| "slaves_lines c n idx (i # is) =
     (case rip n i of None \<Rightarrow> slaves_lines c n idx is
      | Some (ip, port) \<Rightarrow> ''slave'' @ to_string (int idx) @ '':'' @ ''ip='' @ ip @ '','' @ ''port='' @ to_string (int port) @ '',''
          @ ''state=online,'' @ ''offset='' @ to_string (s_repl_offset c) @ '','' @ ''lag=0'' @ CRLF @ slaves_lines c n (Suc idx) is)"

definition slavesToString :: "config \<Rightarrow> net \<Rightarrow> nat list \<Rightarrow> string \<times> nat list" where
  "slavesToString c n slaves = (let js = filter (lockable n) slaves in (slaves_lines c n 0 js, js))"

definition info_line :: "string \<Rightarrow> string \<Rightarrow> string" where
  "info_line k v = k @ '':'' @ v @ CRLF"

definition flag :: "bool \<Rightarrow> string" where
  "flag b = (if b then ''1'' else ''0'')"

definition getCurrentFileSize :: "env \<Rightarrow> AOFModule \<Rightarrow> nat" where
  "getCurrentFileSize e a = (if m_aof_file a = None then 0 else nat (fs_tell e mod 2 ^ 64))"

definition info_server :: string where
  "info_server = ''# Server'' @ CRLF @ info_line ''redis_version'' ''1.0.0'' @ info_line ''tcp_port'' ''6666'' @ CRLF"

definition info_client :: "world \<Rightarrow> string" where
  "info_client w = ''# Client'' @ CRLF @ info_line ''connections'' (to_string (int (m_connections (self w))))
     @ info_line ''maxclient'' (to_string (int (s_redis_server_maxClients (cfg w))))
     @ info_line ''reject_connections'' (to_string (int (m_rejected_connections (self w)))) @ CRLF"

definition info_aof :: "env \<Rightarrow> world \<Rightarrow> string" where
  "info_aof e w =
     (let a = m_aof (self w); c = cfg w in
      ''# AOF'' @ CRLF @ info_line ''aof_enabled'' (flag (s_aof_enabled c))
      @ info_line ''aof_sync'' (syncStrategyToString (s_aof_sync c))
      @ info_line ''aof_current_file'' (m_aof_current_filename a)
      @ info_line ''aof_file_index'' (to_string (int (m_aof_file_idx a)))
      @ info_line ''aof_current_size'' (to_string (int (getCurrentFileSize e a)))
      @ info_line ''aof_max_file_size'' (to_string (int (s_aof_max_file_size c)))
      @ info_line ''aof_max_files'' (to_string (s_aof_max_file_number c))
      @ info_line ''aof_max_buffer_size'' (to_string (int (s_aof_max_buffer_size c))) @ CRLF)"

text \<open>On a master the section also drops expired replicas from the list.\<close>

definition info_replication :: "world \<Rightarrow> string \<times> world" where
  "info_replication w =
     (if s_repl_is_master (cfg w) then
        let (n, js) = slavesCount (peers w) (m_slaves (self w));
            (txt, js') = slavesToString (cfg w) (peers w) js
        in (''# Replication'' @ CRLF @ ''role:master'' @ CRLF @ info_line ''connected_slaves'' (to_string (int n)) @ txt @ CRLF,
            mod_self (m_slaves_update (\<lambda>_. js')) w)
      else
        (''# Replication'' @ CRLF @ ''role:slave'' @ CRLF @ info_line ''master_host'' (s_repl_master_addr (cfg w))
         @ info_line ''master_port'' (to_string (int (s_repl_master_port (cfg w))))
         @ info_line ''master_link_status'' (flag (m_repl_state (m_repl (self w)) = REPL_STATE_ONLINE))
         @ info_line ''slave_repl_offset'' (to_string (s_repl_offset (cfg w))) @ CRLF, w))"

definition info_monitor :: "world \<Rightarrow> string" where
  "info_monitor w = ''# Monitor'' @ CRLF @ info_line ''monitor_clients'' (to_string (int (length (m_monitor (self w))))) @ CRLF"

definition info_stats :: "world \<Rightarrow> string" where
  "info_stats w = ''# Stats'' @ CRLF @ info_line ''total_connections_received'' (to_string (int (m_connections (self w))))
     @ info_line ''total_commands_processed'' (to_string (int (m_commands (self w)))) @ CRLF"

definition info_memory :: "world \<Rightarrow> string res" where
  "info_memory w =
     (if db_valid w
      then Inr (''# Memory'' @ CRLF @ info_line ''total_keys'' (to_string (int (getTotalKeys w (m_client_db_id (sock w))))))
      else Inl OutOfBounds)"

text \<open>One section by its name in upper case; other names add nothing.\<close>

definition info_section :: "env \<Rightarrow> string \<Rightarrow> world \<Rightarrow> (string \<times> world) res" where
  "info_section e tem w =
     (if tem = ''SERVER'' then Inr (info_server, w)
      else if tem = ''CLIENT'' then Inr (info_client w, w)
      else if tem = ''AOF'' then Inr (info_aof e w, w)
      else if tem = ''REPLICATION'' then Inr (info_replication w)
      else if tem = ''MONITOR'' then Inr (info_monitor w, w)
      else if tem = ''STATS'' then Inr (info_stats w, w)
      else if tem = ''MEMORY'' then bnd (info_memory w) (\<lambda>t. Inr (t, w))
      else Inr ([], w))"

fun info_sections :: "env \<Rightarrow> string list \<Rightarrow> world \<Rightarrow> (string \<times> world) res" where
  "info_sections e [] w = Inr ([], w)"
| "info_sections e (t # ts) w =
     bnd (info_section e t w) (\<lambda>(s, w1). bnd (info_sections e ts w1) (\<lambda>(s', w2). Inr (s @ s', w2)))"

definition all_sections :: "string list" where
  "all_sections = [''SERVER'', ''CLIENT'', ''AOF'', ''REPLICATION'', ''MONITOR'', ''STATS'', ''MEMORY'']"

definition handleINFO :: handler where
  "handleINFO e args w = require_auth w
     (bnd (info_sections e (if length args = 1 then all_sections else map (toupper \<circ> str) (drop 1 args)) w)
       (\<lambda>(info, w1). Inr (bulk_string info, w1)))"

subsection \<open>Laws\<close>

lemma frame_encode: "frame args = encode (array (map bulk_string args))"
  by (simp add: frame_def o_def)

end
