(* ===== verification/Dispatch.thy ===== *)
theory Dispatch
  imports Replication ConfigCommands CommandTable
begin

text \<open>
  Command dispatch: \<open>executeTable\<close> of \<open>src/redis_command/command/command_handler_table.cpp\<close> and the
  command table of \<open>command_handler_table.h\<close>. Nine frequent commands are compared by name; every
  other command goes through the table by its hash.
\<close>

subsection \<open>The table\<close>

definition EVEN_VALIDATOR :: "nat \<Rightarrow> bool" where "EVEN_VALIDATOR argc \<longleftrightarrow> argc \<ge> 4 \<and> even argc"
definition ODD_VALIDATOR :: "nat \<Rightarrow> bool" where "ODD_VALIDATOR argc \<longleftrightarrow> argc \<ge> 3 \<and> odd argc"
definition ONLY_ONE :: "nat \<Rightarrow> bool" where "ONLY_ONE argc \<longleftrightarrow> argc = 1"
definition ONLY_TWO :: "nat \<Rightarrow> bool" where "ONLY_TWO argc \<longleftrightarrow> argc = 2"
definition ONLY_THREE :: "nat \<Rightarrow> bool" where "ONLY_THREE argc \<longleftrightarrow> argc = 3"
definition ONLY_FOUR :: "nat \<Rightarrow> bool" where "ONLY_FOUR argc \<longleftrightarrow> argc = 4"
definition ONLY_FIVE :: "nat \<Rightarrow> bool" where "ONLY_FIVE argc \<longleftrightarrow> argc = 5"
definition ONLY_ONE_TWO :: "nat \<Rightarrow> bool" where "ONLY_ONE_TWO argc \<longleftrightarrow> argc \<ge> 1 \<and> argc \<le> 2"
definition ONLY_TWO_THREE :: "nat \<Rightarrow> bool" where "ONLY_TWO_THREE argc \<longleftrightarrow> argc \<ge> 2 \<and> argc \<le> 3"
definition ONLY_THREE_FOUR :: "nat \<Rightarrow> bool" where "ONLY_THREE_FOUR argc \<longleftrightarrow> argc \<ge> 3 \<and> argc \<le> 4"
definition ONLY_FOUR_FIVE :: "nat \<Rightarrow> bool" where "ONLY_FOUR_FIVE argc \<longleftrightarrow> argc \<ge> 4 \<and> argc \<le> 5"
definition ONLY_MORE_ONE :: "nat \<Rightarrow> bool" where "ONLY_MORE_ONE argc \<longleftrightarrow> argc \<ge> 1"
definition ONLY_MORE_TWO :: "nat \<Rightarrow> bool" where "ONLY_MORE_TWO argc \<longleftrightarrow> argc \<ge> 2"
definition ONLY_MORE_THREE :: "nat \<Rightarrow> bool" where "ONLY_MORE_THREE argc \<longleftrightarrow> argc \<ge> 3"

definition cmd_entry :: "string \<Rightarrow> handler \<Rightarrow> bool \<Rightarrow> (nat \<Rightarrow> bool) \<Rightarrow> handler Entry" where
  "cmd_entry n h w v = \<lparr>name = n, handler = h, hash = fnv1a_hash n, is_write = w, argV = v\<rparr>"

definition command_entries :: "handler Entry list" where
  "command_entries =
     [cmd_entry ''PING'' handlePING False ONLY_ONE_TWO,
      cmd_entry ''AUTH'' handleAUTH False ONLY_TWO,
      cmd_entry ''SELECT'' handleSELECT True ONLY_TWO,
      cmd_entry ''CLIENT'' handleCLIENT False ONLY_TWO_THREE,
      cmd_entry ''CONFIG'' handleCONFIG False ONLY_THREE_FOUR,
      cmd_entry ''MSET'' handleMSET True ODD_VALIDATOR,
      cmd_entry ''MGET'' handleMGET False ONLY_MORE_TWO,
      cmd_entry ''GETSET'' handleGETSET True ONLY_THREE,
      cmd_entry ''APPEND'' handleAPPEND True ONLY_THREE,
      cmd_entry ''SETNX'' handleSETNX True ONLY_THREE,
      cmd_entry ''EXISTS'' handleEXISTS False ONLY_MORE_TWO,
      cmd_entry ''INCR'' handleINCR False ONLY_TWO,
      cmd_entry ''INCRBY'' handleINCRBY False ONLY_THREE,
      cmd_entry ''STRLEN'' handleSTRLEN False ONLY_TWO,
      cmd_entry ''TYPE'' handleTYPE False ONLY_TWO,
      cmd_entry ''HGETALL'' handleHGETALL False ONLY_TWO,
      cmd_entry ''HDEL'' handleHDEL True ONLY_MORE_THREE,
      cmd_entry ''HLEN'' handleHLEN False ONLY_TWO,
      cmd_entry ''HEXISTS'' handleHEXISTS False ONLY_THREE,
      cmd_entry ''HKEYS'' handleHKEYS False ONLY_TWO,
      cmd_entry ''HVALS'' handleHVALS False ONLY_TWO,
      cmd_entry ''KEYS'' handleKEYS False ONLY_TWO,
      cmd_entry ''SCAN'' handleSCAN False ONLY_MORE_TWO,
      cmd_entry ''RPUSH'' handleRPUSH True ONLY_MORE_THREE,
      cmd_entry ''RPOP'' handleRPOP True ONLY_TWO_THREE,
      cmd_entry ''LLEN'' handleLLEN False ONLY_TWO,
      cmd_entry ''LINSERT'' handleLINSERT True ONLY_FIVE,
      cmd_entry ''LINDEX'' handleLINDEX False ONLY_THREE,
      cmd_entry ''LSET'' handleLSET True ONLY_FOUR,
      cmd_entry ''RPOPLPUSH'' handleRPOPLPUSH True ONLY_THREE,
      cmd_entry ''LPOPRPUSH'' handleLPOPRPUSH True ONLY_THREE,
      cmd_entry ''LRANGE'' handleLRANGE False ONLY_FOUR,
      cmd_entry ''ZRANGE'' handleZRANGE False ONLY_FOUR_FIVE,
      cmd_entry ''ZREM'' handleZREM True ONLY_MORE_THREE,
      cmd_entry ''ZSCORE'' handleZSCORE False ONLY_THREE,
      cmd_entry ''ZRANK'' handleZRANK False ONLY_THREE,
      cmd_entry ''ZINCRBY'' handleZINCRBY False ONLY_FOUR,
      cmd_entry ''ZINCRBYFLOAT'' handleZINCRBYFLOAT False ONLY_FOUR,
      cmd_entry ''ZCOUNT'' handleZCOUNT False ONLY_FOUR,
      cmd_entry ''ZRANGEBYSCORE'' handleZRANGEBYSCORE False ONLY_FOUR_FIVE,
      cmd_entry ''ZREMRANGEBYSCORE'' handleZREMRANGEBYSCORE True ONLY_FOUR,
      cmd_entry ''SMEMBERS'' handleSMEMBERS False ONLY_TWO,
      cmd_entry ''SREM'' handleSREM True ONLY_MORE_THREE,
      cmd_entry ''SISMEMBER'' handleSISMEMBER False ONLY_THREE,
      cmd_entry ''SCARD'' handleSCARD False ONLY_TWO,
      cmd_entry ''SRANDMEMBER'' handleSRANDMEMBER False ONLY_TWO_THREE,
      cmd_entry ''SPOP'' handleSPOP True ONLY_TWO_THREE,
      cmd_entry ''SDIFF'' handleSDIFF False ONLY_MORE_TWO,
      cmd_entry ''SINTER'' handleSINTER False ONLY_MORE_TWO,
      cmd_entry ''SUNION'' handleSUNION False ONLY_MORE_TWO,
      cmd_entry ''SMOVE'' handleSMOVE True ONLY_FOUR,
      cmd_entry ''FLUSHDB'' handleFLUSHDB True ONLY_ONE_TWO,
      cmd_entry ''FLUSHDBALL'' handleFLUSHDBALL True ONLY_ONE_TWO,
      cmd_entry ''DBSIZE'' handleDBSIZE False ONLY_ONE,
      cmd_entry ''EXPIRE'' handleEXPIRE False ONLY_THREE,
      cmd_entry ''TTL'' handleTTL False ONLY_TWO,
      cmd_entry ''PEXPIRE'' handlePEXPIRE False ONLY_THREE,
      cmd_entry ''PTTL'' handlePTTL False ONLY_TWO,
      cmd_entry ''PERSIST'' handlePERSIST False ONLY_TWO,
      cmd_entry ''RENAME'' handleRENAME False ONLY_THREE,
      cmd_entry ''RENAMENX'' handleRENAMENX False ONLY_THREE,
      cmd_entry ''RANDOMKEY'' handleRANDOMKEY False ONLY_ONE,
      cmd_entry ''INFO'' handleINFO False ONLY_MORE_ONE,
      cmd_entry ''SAVE'' handleSAVE False ONLY_ONE,
      cmd_entry ''BGSAVE'' handleBGSAVE False ONLY_ONE,
      cmd_entry ''LASTSAVE'' handleLASTSAVE False ONLY_ONE,
      cmd_entry ''LASTSAVE1'' handleLASTSAVE1 False ONLY_ONE,
      cmd_entry ''COMMAND'' handleCOMMAND False ONLY_ONE,
      cmd_entry ''ECHO'' handleECHO False ONLY_TWO,
      cmd_entry ''TIME'' handleTIME False ONLY_ONE,
      cmd_entry ''LOCALTIME'' handleLOCALTIME False ONLY_ONE,
      cmd_entry ''WATCH'' handleWATCH False ONLY_MORE_TWO,
      cmd_entry ''UNWATCH'' handleUNWATCH False ONLY_ONE,
      cmd_entry ''SLOWLOG'' handleSLOWLOG False ONLY_TWO_THREE,
      cmd_entry ''MONITOR'' handleMONITOR False ONLY_ONE,
      cmd_entry ''AOFROTATE'' handleAOFROTATE False ONLY_ONE,
      cmd_entry ''SHUTDOWN'' handleSHUTDOWN False ONLY_ONE,
      cmd_entry ''QUIT'' handleQUIT False ONLY_ONE,
      cmd_entry ''REPLICAOF'' handleREPLICAOF False ONLY_THREE,
      cmd_entry ''SLAVEOF'' handleSLAVEOF False ONLY_THREE,
      cmd_entry ''SYNC'' handleSYNC False ONLY_ONE]"

definition getCommandTable :: "handler Entry list res" where
  "getCommandTable = build command_entries"

subsection \<open>Executing one command\<close>

text \<open>Appending to the AOF and, on a master with replicas, broadcasting.\<close>

definition log_write :: "env \<Rightarrow> RespValue list \<Rightarrow> world \<Rightarrow> world" where
  "log_write e args w =
     (let aof_cmds = formatCommand args;
          w1 = mod_self (m_aof_update (appendToAOF (cfg w) aof_cmds)) w
      in if s_repl_is_master (cfg w1) \<and> m_slaves (self w1) \<noteq> [] then
           let (sl, n) = broadcastToSlaves e aof_cmds (m_slaves (self w1)) (peers w1)
           in (mod_self (m_slaves_update (\<lambda>_. sl)) w1)\<lparr>peers := n\<rparr>
         else w1)"

text \<open>The arguments joined by spaces, for the slow log and the monitors.\<close>

fun join :: "string list \<Rightarrow> string" where
  "join [] = []"
| "join [s] = s"
| "join (s # t # ss) = s @ '' '' @ join (t # ss)"

definition log_slow :: "env \<Rightarrow> string \<Rightarrow> world \<Rightarrow> world res" where
  "log_slow e cmd_str w =
     bnd (pushEntry (cfg w) cmd_str (raddr (peers w) (cur w)) (t_log e) (t_start e) (t_end e) (m_slowLog (self w)))
       (\<lambda>m. Inr (mod_self (m_slowLog_update (\<lambda>_. m)) w))"

text \<open>INFO turns its arguments to upper case in place, once the client is known to be authenticated.\<close>

definition args_after :: "string \<Rightarrow> world \<Rightarrow> RespValue list \<Rightarrow> string list" where
  "args_after nm w args =
     (if nm = ''INFO'' \<and> m_auth_level (sock w) \<ge> 1 then map str (take 1 args) @ map (toupper \<circ> str) (drop 1 args)
      else map str args)"

text \<open>The common part of the two ways: log the command, run the handler, note the time it took.\<close>

definition run_logged :: "env \<Rightarrow> string \<Rightarrow> bool \<Rightarrow> handler \<Rightarrow> RespValue list \<Rightarrow> world \<Rightarrow> reply" where
  "run_logged e nm logit h args w =
     (let w1 = (if logit then log_write e args w else w) in
      bnd (h e args w1) (\<lambda>(r, w2).
        bnd (log_slow e (join (args_after nm w1 args)) w2) (\<lambda>w3. Inr (r, w3))))"

definition hot_commands :: "(string \<times> handler) list" where
  "hot_commands =
     [(''GET'', handleGET), (''SET'', handleSET), (''DEL'', handleDEL), (''HSET'', handleHSET), (''HGET'', handleHGET),
      (''LPUSH'', handleLPUSH), (''LPOP'', handleLPOP), (''SADD'', handleSADD), (''ZADD'', handleZADD)]"

definition executeTable :: "bool \<Rightarrow> handler" where
  "executeTable RecordAOF e args w =
     (if args = [] then Inr (error ''ERR empty command'', w)
      else
        let cmd = toupper (str (hd args)) in
        case map_of hot_commands cmd of
          Some h \<Rightarrow> run_logged e cmd (isWriteCommand cmd \<and> RecordAOF) h args w
        | None \<Rightarrow>
            bnd getCommandTable (\<lambda>table.
              case find_lowerbound table (fnv1a_hash cmd) of
                None \<Rightarrow> Inr (error ''ERR unknown command'', w)
              | Some entry \<Rightarrow>
                  if \<not> argV entry (length args) then Inr (wrong_args cmd, w)
                  else run_logged e (name entry) (RecordAOF \<and> is_write entry) (handler entry) args w))"

subsection \<open>The table is what it lists\<close>

definition command_hashes :: "nat list" where
  "command_hashes =
     [43150473, 1470642895, 3022600877, 1832704414, 27894855, 3618043064, 429418084, 4219192909, 182292129,
      356424093, 3869950141, 1511201903, 2862452106, 922897367, 338683789, 537185016, 3255369720, 725568966,
      3976151799, 3871194599, 498165735, 2724587085, 718814888, 3358138605, 606126912, 1339810730, 1271627866,
      3106661761, 1443389497, 3649524192, 2570162416, 2725390592, 3266826490, 367379151, 187004893, 3475368143,
      804991586, 4253398560, 1371257868, 428018399, 1990552889, 486596445, 774839270, 1224886128, 1580822712,
      3110148487, 1559726321, 4132776441, 1956937176, 2291047969, 1016544703, 3218654075, 845337566, 373428930,
      3946000738, 1063775611, 3723114728, 2606408697, 890746211, 540800083, 1495759981, 2838696681, 218589765,
      3394429320, 3489894947, 1231924716, 1957212903, 674452178, 3193431940, 582941476, 433950369, 3927417544,
      2083821793, 3599449706, 2586842937, 1423548866, 2561572299, 2228862006, 106079354, 3674922081, 1198286938]"

lemma hashes_computed: "map hash command_entries = map of_nat command_hashes"
proof -
  have "map hash command_entries = map fnv1a_hash (map name command_entries)"
    by (simp add: command_entries_def cmd_entry_def)
  also have "map fnv1a_hash (map name command_entries) = map of_nat command_hashes"
    unfolding command_entries_def cmd_entry_def list.map Entry.simps command_hashes_def of_nat_numeral by code_simp
  finally show ?thesis .
qed

lemma hashes_distinct: "distinct (map hash command_entries)"
proof -
  have "distinct command_hashes" "\<forall>n \<in> set command_hashes. n < 2 ^ 32" by (simp_all add: command_hashes_def)
  moreover have "inj_on (of_nat :: nat \<Rightarrow> 32 word) {n. n < 2 ^ 32}"
    by (rule inj_onI) (simp add: word_of_nat_eq_iff take_bit_nat_eq_self)
  moreover have "set command_hashes \<subseteq> {n. n < 2 ^ 32}" using calculation(2) by blast
  ultimately have "inj_on (of_nat :: nat \<Rightarrow> 32 word) (set command_hashes)" using inj_on_subset by blast
  then show ?thesis using \<open>distinct command_hashes\<close> unfolding hashes_computed by (simp add: distinct_map)
qed

definition hash_entry :: "32 word \<Rightarrow> unit Entry" where
  "hash_entry h = \<lparr>name = [], handler = (), hash = h, is_write = False, argV = (\<lambda>_. True)\<rparr>"

lemma sort_computed: "\<not> isl (quicksort (map hash_entry (map of_nat command_hashes)))"
  unfolding command_hashes_def list.map of_nat_numeral by code_simp

lemma table_builds: "\<not> isl getCommandTable"
proof -
  let ?es = "command_entries"
  have "quicksort (map (\<lambda>e. hash_entry (hash e)) ?es) = map_sum id (map (\<lambda>e. hash_entry (hash e))) (quicksort ?es)"
    by (rule quicksort_map) (simp add: hash_entry_def)
  moreover have "map (\<lambda>e. hash_entry (hash e)) ?es = map hash_entry (map of_nat command_hashes)"
    unfolding hashes_computed [symmetric] by simp
  ultimately show ?thesis using sort_computed unfolding getCommandTable_def build_def
    by (cases "quicksort ?es") simp_all
qed

lemma entry_hash: "en \<in> set command_entries \<Longrightarrow> hash en = fnv1a_hash (name en)"
  by (auto simp: command_entries_def cmd_entry_def)

lemma table_lookup:
  "\<exists>t. getCommandTable = Inr t \<and>
     (\<forall>h en. find_lowerbound t h = Some en \<longleftrightarrow> en \<in> set command_entries \<and> hash en = h)"
proof -
  obtain t where t: "getCommandTable = Inr t" using sum.collapse(2) [OF table_builds] by metis
  then show ?thesis using build_lookup [of "command_entries" t] hashes_distinct unfolding getCommandTable_def by blast
qed

lemma execute_cold:
  assumes "getCommandTable = Inr t" and "args \<noteq> []" and "map_of hot_commands (toupper (str (hd args))) = None"
  shows "executeTable rec e args w =
    (case find_lowerbound t (fnv1a_hash (toupper (str (hd args)))) of
       None \<Rightarrow> Inr (error ''ERR unknown command'', w)
     | Some entry \<Rightarrow>
         if \<not> argV entry (length args) then Inr (wrong_args (toupper (str (hd args))), w)
         else run_logged e (name entry) (rec \<and> is_write entry) (handler entry) args w)"
  using assms(2,3) unfolding executeTable_def assms(1) by (auto simp: Let_def split: option.split)

lemma execute_entry:
  assumes "args \<noteq> []" and "en \<in> set command_entries" and "toupper (str (hd args)) = name en"
    and "map_of hot_commands (name en) = None"
  shows "executeTable rec e args w =
    (if argV en (length args) then run_logged e (name en) (rec \<and> is_write en) (handler en) args w
     else Inr (wrong_args (name en), w))"
proof -
  obtain t where t: "getCommandTable = Inr t"
    and look: "\<forall>h en. find_lowerbound t h = Some en \<longleftrightarrow> en \<in> set command_entries \<and> hash en = h"
    using table_lookup by blast
  have "find_lowerbound t (fnv1a_hash (name en)) = Some en" using look assms(2) entry_hash by metis
  then show ?thesis using assms execute_cold [OF t] by simp
qed

text \<open>C11. The dispatcher runs the handler the table lists: for every entry, a command whose name in
  upper case is the entry's name is checked by the entry's argument count and then run by the
  entry's handler; a command whose hash no entry has is refused and changes nothing. The table is
  really built (the sort ends inside its array) and no two entries share a hash.\<close>

theorem dispatch_runs_listed_handler:
  assumes "args \<noteq> []" and "map_of hot_commands (toupper (str (hd args))) = None"
  shows "(\<exists>t. getCommandTable = Inr t) \<and>
    (\<forall>en \<in> set command_entries. name en = toupper (str (hd args)) \<longrightarrow>
       executeTable rec e args w =
         (if argV en (length args) then run_logged e (name en) (rec \<and> is_write en) (handler en) args w
          else Inr (wrong_args (name en), w))) \<and>
    ((\<forall>en \<in> set command_entries. fnv1a_hash (name en) \<noteq> fnv1a_hash (toupper (str (hd args)))) \<longrightarrow>
       executeTable rec e args w = Inr (error ''ERR unknown command'', w))"
proof -
  obtain t where t: "getCommandTable = Inr t"
    "\<forall>h en. find_lowerbound t h = Some en \<longleftrightarrow> en \<in> set command_entries \<and> hash en = h"
    using table_lookup by blast
  have "executeTable rec e args w = Inr (error ''ERR unknown command'', w)"
    if "\<forall>en \<in> set command_entries. fnv1a_hash (name en) \<noteq> fnv1a_hash (toupper (str (hd args)))"
  proof -
    have "find_lowerbound t (fnv1a_hash (toupper (str (hd args)))) = None" using that t(2) entry_hash by (metis not_None_eq)
    then show ?thesis using assms execute_cold [OF t(1)] by simp
  qed
  moreover have "executeTable rec e args w =
         (if argV en (length args) then run_logged e (name en) (rec \<and> is_write en) (handler en) args w
          else Inr (wrong_args (name en), w))"
    if "en \<in> set command_entries" "name en = toupper (str (hd args))" for en
    using execute_entry [OF assms(1) that(1)] that(2) assms(2) by simp
  ultimately show ?thesis using t(1) by blast
qed

lemma strlen_entry: "cmd_entry ''STRLEN'' handleSTRLEN False ONLY_TWO \<in> set command_entries"
  by (simp add: command_entries_def)

theorem dispatch_runs_listed_handler_witness:
  "executeTable True demo_env [bulk_string ''strlen''] demo_world = Inr (wrong_args ''STRLEN'', demo_world)"
proof -
  have "toupper ''strlen'' = ''STRLEN''" "map_of hot_commands ''STRLEN'' = None" by (code_simp, simp add: hot_commands_def)
  then show ?thesis
    using dispatch_runs_listed_handler [of "[bulk_string ''strlen'']" True demo_env demo_world]
      strlen_entry
    by (auto simp: cmd_entry_def ONLY_TWO_def dest!: bspec [of _ _ "cmd_entry ''STRLEN'' handleSTRLEN False ONLY_TWO"])
qed

end
