(* ===== verification/Access.thy ===== *)
theory Access
  imports Dispatch
begin

text \<open>
  Authentication across the whole command set: which handlers check the level, what the dispatcher
  does for a client that has not authenticated, and what it has done before it finds out.
\<close>

subsection \<open>Handlers that check the level first\<close>

definition guarded :: "handler \<Rightarrow> bool" where
  "guarded h \<longleftrightarrow> (\<forall>e args w. m_auth_level (sock w) < 1 \<longrightarrow> h e args w = Inr (auth_required, w))"

lemma guarded_hot: "map_of hot_commands cmd = Some h \<Longrightarrow> guarded h"
  by (auto simp: hot_commands_def guarded_def require_auth_no handleGET_def handleSET_def handleDEL_def handleHSET_def
      handleHGET_def handleLPUSH_def handleLPOP_def handleSADD_def handleZADD_def split: if_splits)

lemmas handler_defs1 = handlePING_def handleSELECT_def handleCLIENT_def handleMSET_def handleMGET_def handleGETSET_def
  handleAPPEND_def handleSETNX_def handleEXISTS_def handleINCR_def handleINCRBY_def handleSTRLEN_def handleTYPE_def
  handleHGETALL_def handleHDEL_def handleHLEN_def handleHEXISTS_def handleHKEYS_def handleHVALS_def handleKEYS_def
  handleSCAN_def handleRPUSH_def handleRPOP_def handleLLEN_def handleLINSERT_def handleLINDEX_def handleLSET_def
  handleRPOPLPUSH_def handleLPOPRPUSH_def handleLRANGE_def
lemmas handler_defs2 = handleZRANGE_def handleZREM_def handleZSCORE_def handleZRANK_def handleZINCRBY_def
  handleZINCRBYFLOAT_def handleZCOUNT_def handleZRANGEBYSCORE_def handleZREMRANGEBYSCORE_def handleSMEMBERS_def
  handleSREM_def handleSISMEMBER_def handleSCARD_def handleSRANDMEMBER_def handleSPOP_def handleSDIFF_def
  handleSINTER_def handleSUNION_def handleSMOVE_def
lemmas handler_defs3 = handleFLUSHDB_def handleFLUSHDBALL_def handleDBSIZE_def handleEXPIRE_def handleTTL_def
  handlePEXPIRE_def handlePTTL_def expire_in_def time_left_def handlePERSIST_def handleRENAME_def handleRENAMENX_def
  handleRANDOMKEY_def handleLASTSAVE_def handleLASTSAVE1_def handleCOMMAND_def handleECHO_def handleTIME_def
  handleLOCALTIME_def handleWATCH_def handleUNWATCH_def handleSLOWLOG_def handleMONITOR_def handleAOFROTATE_def
  move_element_def handleSAVE_def handleBGSAVE_def handleINFO_def handleREPLICAOF_def handleSLAVEOF_def handleSYNC_def

definition unguarded_names :: "string list" where
  "unguarded_names = [''AUTH'', ''CONFIG'', ''QUIT'', ''SHUTDOWN'']"

lemma guarded_entry: "en \<in> set command_entries \<Longrightarrow> name en \<notin> set unguarded_names \<Longrightarrow> guarded (handler en)"
  by (auto simp: command_entries_def cmd_entry_def unguarded_names_def guarded_def require_auth_no
      handler_defs1 handler_defs2 handler_defs3)

subsection \<open>What logging leaves alone\<close>

text \<open>Data, connections and configuration; logging touches the AOF buffer, the replicas and the slow log.\<close>

definition same_data :: "world \<Rightarrow> world \<Rightarrow> bool" where
  "same_data w w' \<longleftrightarrow> m_dbs (self w') = m_dbs (self w) \<and> socks w' = socks w \<and> cur w' = cur w \<and> cfg w' = cfg w \<and> disk w' = disk w"

lemma same_data_trans: "same_data w w' \<Longrightarrow> same_data w' w'' \<Longrightarrow> same_data w w''"
  by (simp add: same_data_def)

lemma same_data_sock: "same_data w w' \<Longrightarrow> sock w' = sock w"
  by (simp add: same_data_def sock_def)

lemma log_write_data: "same_data w (log_write e args w)" "m_slowLog (self (log_write e args w)) = m_slowLog (self w)"
  "m_aof (self (log_write e args w)) = appendToAOF (cfg w) (formatCommand args) (m_aof (self w))"
  by (auto simp: log_write_def same_data_def mod_self_def Let_def split: prod.splits)

lemma log_slow_data:
  assumes "slowlog_ok (m_slowLog (self w))"
  obtains w' where "log_slow e c w = Inr w'" "same_data w w'" "m_aof (self w') = m_aof (self w)"
    "slowlog_ok (m_slowLog (self w'))"
proof (rule pushEntry_total [OF assms, of "cfg w" c "raddr (peers w) (cur w)" "t_log e" "t_start e" "t_end e"])
  fix m'
  assume "pushEntry (cfg w) c (raddr (peers w) (cur w)) (t_log e) (t_start e) (t_end e) (m_slowLog (self w)) = Inr m'" "slowlog_ok m'"
  then show thesis using that [of "mod_self (m_slowLog_update (\<lambda>_. m')) w"]
    by (simp add: log_slow_def same_data_def mod_self_def)
qed

lemma run_guarded:
  assumes "guarded h" and "m_auth_level (sock w) < 1" and "slowlog_ok (m_slowLog (self w))"
  shows "\<exists>w'. run_logged e nm logit h args w = Inr (auth_required, w') \<and> same_data w w' \<and>
    m_aof (self w') = (if logit then appendToAOF (cfg w) (formatCommand args) (m_aof (self w)) else m_aof (self w))"
proof -
  let ?w1 = "if logit then log_write e args w else w"
  have d: "same_data w ?w1" "slowlog_ok (m_slowLog (self ?w1))"
    using log_write_data [where e = e and args = args and w = w] assms(3) by (auto simp: same_data_def)
  then have "h e args ?w1 = Inr (auth_required, ?w1)"
    using assms(1,2) same_data_sock [OF d(1)] unfolding guarded_def by metis
  moreover obtain w2 where "log_slow e (join (args_after nm ?w1 args)) ?w1 = Inr w2" "same_data ?w1 w2" "m_aof (self w2) = m_aof (self ?w1)"
    using log_slow_data [OF d(2)] by blast
  ultimately show ?thesis using d(1) log_write_data(3) [where e = e and args = args and w = w]
    by (auto simp: run_logged_def Let_def intro: same_data_trans)
qed

subsection \<open>Properties\<close>

text \<open>C9. A client that has not authenticated cannot read or change any data through the dispatcher:
  for every command other than AUTH, CONFIG, QUIT and SHUTDOWN, the reply is an error and databases, connections, configuration and files are as
  before.\<close>

theorem unauthenticated_has_no_effect:
  assumes "args \<noteq> []" and "m_auth_level (sock w) < 1" and "slowlog_ok (m_slowLog (self w))"
    and "\<forall>n \<in> set unguarded_names. fnv1a_hash n \<noteq> fnv1a_hash (toupper (str (hd args)))"
  shows "\<exists>m w'. executeTable rec e args w = Inr (error m, w') \<and> same_data w w'"
proof -
  let ?c = "toupper (str (hd args))"
  have err: "auth_required = error ''ERR authentication required''" by (simp add: auth_required_def)
  show ?thesis
  proof (cases "map_of hot_commands ?c")
    case (Some h)
    then show ?thesis using run_guarded [OF guarded_hot [OF Some] assms(2,3), of e ?c "isWriteCommand ?c \<and> rec" args] assms(1) err
      by (auto simp: executeTable_def Let_def)
  next
    case None
    obtain t where t: "getCommandTable = Inr t"
      "\<forall>h en. find_lowerbound t h = Some en \<longleftrightarrow> en \<in> set command_entries \<and> hash en = h"
      using table_lookup by blast
    show ?thesis
    proof (cases "find_lowerbound t (fnv1a_hash ?c)")
      case None
      then show ?thesis using execute_cold [OF t(1) assms(1) \<open>map_of hot_commands ?c = None\<close>] by (auto simp: same_data_def)
    next
      case (Some en)
      then have en: "en \<in> set command_entries" "fnv1a_hash (name en) = fnv1a_hash ?c" using t(2) entry_hash by metis+
      then have "guarded (handler en)" using guarded_entry assms(4) by metis
      then show ?thesis
        using run_guarded [OF _ assms(2,3), of "handler en" e "name en" "rec \<and> is_write en" args] err
          execute_cold [OF t(1) assms(1) \<open>map_of hot_commands ?c = None\<close>] Some
        by (auto simp: same_data_def wrong_args_def)
    qed
  qed
qed

theorem unauthenticated_has_no_effect_witness:
  "\<exists>m w'. executeTable True demo_env (map bulk_string [''strlen'', ''k'']) (new_world demo_config) = Inr (error m, w') \<and>
     same_data (new_world demo_config) w'"
proof (rule unauthenticated_has_no_effect)
  have "list_all (\<lambda>n. fnv1a_hash n \<noteq> fnv1a_hash (toupper ''strlen'')) unguarded_names" by code_simp
  then show "\<forall>n \<in> set unguarded_names. fnv1a_hash n \<noteq> fnv1a_hash (toupper (str (hd (map bulk_string [''strlen'', ''k'']))))"
    by (simp add: list_all_iff)
qed (simp_all add: new_world_def sock_def new_socket_def new_server_def slowlog_ok_new)



end
