(* ===== verification/Invariant.thy ===== *)
theory Invariant
  imports Dispatch
begin

text \<open>
  The invariant of the whole server and its preservation by every command: connections are in one
  mode at a time and on an existing database, no container of any shard holds a key twice, sets have
  no duplicates, the ring of the slow log is well formed, and the registry of channels agrees with
  what the connections themselves have noted; the connection being served is alive. The rules in \<open>keep\<close> say which
  updates of the world keep it; \<open>keeps h\<close> is the contract of a handler.
\<close>

subsection \<open>The invariant\<close>

text \<open>
  A connection is registered on a channel exactly when it lists the channel; it is in subscription
  mode exactly when it lists one, and only while it is alive.
\<close>

definition subs_ok :: "world \<Rightarrow> bool" where
  "subs_ok w \<longleftrightarrow> channels_ok (m_subscription (self w)) \<and>
     (\<forall>i c. i \<in> set (subscribers (m_subscription (self w)) c) \<longleftrightarrow> c \<in> set (m_subScription_channels (socks w i))) \<and>
     (\<forall>i. m_in_subScription (socks w i) \<longleftrightarrow> m_subScription_channels (socks w i) \<noteq> []) \<and>
     (\<forall>i. m_in_subScription (socks w i) \<longrightarrow> lockable (peers w) i)"

definition sys_ok :: "world \<Rightarrow> bool" where
  "sys_ok w \<longleftrightarrow> (\<forall>i. socket_ok (socks w i)) \<and> dbs_ok w \<and> slowlog_ok (m_slowLog (self w)) \<and> subs_ok w \<and>
     lockable (peers w) (cur w)"

lemma subs_ok_cong:
  assumes "m_subscription (self w') = m_subscription (self w)" and "alive (peers w') = alive (peers w)"
    and "\<And>i. m_in_subScription (socks w' i) = m_in_subScription (socks w i)"
    and "\<And>i. m_subScription_channels (socks w' i) = m_subScription_channels (socks w i)"
  shows "subs_ok w' = subs_ok w"
  using assms by (simp add: subs_ok_def lockable_def)

definition keeps :: "handler \<Rightarrow> bool" where
  "keeps h \<longleftrightarrow> (\<forall>e args w r w'. sys_ok w \<longrightarrow> h e args w = Inr (r, w') \<longrightarrow> sys_ok w')"

lemma keepsI: "(\<And>e args w r w'. sys_ok w \<Longrightarrow> h e args w = Inr (r, w') \<Longrightarrow> sys_ok w') \<Longrightarrow> keeps h"
  unfolding keeps_def by blast

lemma keepsD: "keeps h \<Longrightarrow> h e args w = Inr (r, w') \<Longrightarrow> sys_ok w \<Longrightarrow> sys_ok w'"
  unfolding keeps_def by blast

lemma sys_ok_shard: "sys_ok w \<Longrightarrow> shard_ok (shard_of e w k)"
  by (simp add: sys_ok_def dbs_ok_def shard_of_def)

lemma sys_ok_db: "sys_ok w \<Longrightarrow> db_valid w"
  by (simp add: sys_ok_def socket_ok_def db_valid_def sock_def DB_COUNT_def)

subsection \<open>Updates that keep it\<close>

named_theorems keep

lemma ok_mod_shard: "sys_ok w \<Longrightarrow> (\<And>sh. shard_ok sh \<Longrightarrow> shard_ok (f sh)) \<Longrightarrow> sys_ok (mod_shard e k f w)"
  using subs_ok_cong [of "mod_shard e k f w" w]
  by (simp add: sys_ok_def dbs_ok_mod) (simp add: mod_shard_def put_shard_def mod_self_def)

lemma ok_string [keep]: "sys_ok w \<Longrightarrow> sys_ok (put_string e k d w)" "sys_ok w \<Longrightarrow> sys_ok (del_string e k w)"
  unfolding put_string_def del_string_def by (auto intro!: ok_mod_shard simp: shard_ok_def)

lemma ok_hash [keep]: "sys_ok w \<Longrightarrow> hmap_ok h \<Longrightarrow> sys_ok (put_hash e k h w)" "sys_ok w \<Longrightarrow> sys_ok (del_hash e k w)"
  unfolding put_hash_def del_hash_def by (auto intro!: ok_mod_shard simp: shard_ok_def)

lemma ok_list [keep]: "sys_ok w \<Longrightarrow> sys_ok (put_list e k xs w)" "sys_ok w \<Longrightarrow> sys_ok (del_list e k w)"
  unfolding put_list_def del_list_def by (auto intro!: ok_mod_shard simp: shard_ok_def)

lemma ok_set [keep]: "sys_ok w \<Longrightarrow> distinct xs \<Longrightarrow> sys_ok (put_set e k xs w)" "sys_ok w \<Longrightarrow> sys_ok (del_set e k w)"
  "sys_ok w \<Longrightarrow> distinct xs \<Longrightarrow> sys_ok (store_set e k xs w)"
  unfolding put_set_def del_set_def store_set_def by (auto intro!: ok_mod_shard simp: shard_ok_def)

lemma ok_zset [keep]: "sys_ok w \<Longrightarrow> sys_ok (put_zset e k z w)" "sys_ok w \<Longrightarrow> sys_ok (del_zset e k w)"
  "sys_ok w \<Longrightarrow> hmap_ok m \<Longrightarrow> sys_ok (put_scores e k m w)" "sys_ok w \<Longrightarrow> sys_ok (del_scores e k w)"
  unfolding put_zset_def del_zset_def put_scores_def del_scores_def by (auto intro!: ok_mod_shard simp: shard_ok_def)

lemma ok_both [keep]: "sys_ok w \<Longrightarrow> hmap_ok m \<Longrightarrow> sys_ok (put_both e k z m w)" "sys_ok w \<Longrightarrow> sys_ok (del_both e k w)"
  by (simp_all add: put_both_def del_both_def keep)

lemma ok_flush [keep]: "sys_ok w \<Longrightarrow> sys_ok (flush_db d w)"
  using subs_ok_cong [of "flush_db d w" w] by (auto simp: sys_ok_def dbs_ok_def flush_db_def mod_self_def)

lemma ok_flush_all [keep]: "sys_ok w \<Longrightarrow> sys_ok (flush_all w)"
proof -
  have "sys_ok w \<Longrightarrow> sys_ok (fold flush_db ds w)" for ds
    by (induction ds arbitrary: w) (simp_all add: keep)
  then show "sys_ok w \<Longrightarrow> sys_ok (flush_all w)" by (simp add: flush_all_def)
qed

lemma ok_mod_sock:
  assumes "sys_ok w" and "\<And>s. socket_ok s \<Longrightarrow> socket_ok (f s)"
    and "\<And>s. m_in_subScription (f s) = m_in_subScription s" "\<And>s. m_subScription_channels (f s) = m_subScription_channels s"
  shows "sys_ok (mod_sock f w)"
proof -
  have "subs_ok (mod_sock f w) = subs_ok w" by (rule subs_ok_cong) (simp_all add: mod_sock_def assms(3,4))
  then show ?thesis using assms(1,2) by (simp add: sys_ok_def) (simp add: mod_sock_def)
qed

lemma ok_socket [keep]:
  "sys_ok w \<Longrightarrow> sys_ok (mod_sock (m_auth_level_update f1) w)" "sys_ok w \<Longrightarrow> sys_ok (mod_sock (m_client_name_update f2) w)"
  "sys_ok w \<Longrightarrow> sys_ok (mod_sock (m_client_password_update f2) w)" "sys_ok w \<Longrightarrow> sys_ok (mod_sock (m_in_monitor_update f3) w)"
  "sys_ok w \<Longrightarrow> 0 \<le> d \<Longrightarrow> d < int DB_COUNT \<Longrightarrow> sys_ok (mod_sock (m_client_db_id_update (\<lambda>_. d)) w)"
  "sys_ok w \<Longrightarrow> sys_ok (mod_sock clearWatchedKey w)" "sys_ok w \<Longrightarrow> sys_ok (mod_sock (addWatchKey k v) w)"
  "sys_ok w \<Longrightarrow> sys_ok (mod_sock clearTransaction w)" "sys_ok w \<Longrightarrow> sys_ok (mod_sock (addTransaction c) w)"
  "sys_ok w \<Longrightarrow> sys_ok (mod_sock clearScanCursor w)" "sys_ok w \<Longrightarrow> sys_ok (mod_sock (setScanCursor cu) w)"
  "sys_ok w \<Longrightarrow> sys_ok (mod_sock (\<lambda>s. snd (beginTransaction s)) w)"
  by (auto intro!: ok_mod_sock simp: socket_ok_ops) (auto simp: socket_ok_def socket_defs DB_COUNT_def split: if_splits)

text \<open>The rest of the server and the world: nothing the invariant looks at.\<close>

lemma ok_self [keep]:
  "sys_ok w \<Longrightarrow> sys_ok (mod_self (m_aof_update f1) w)" "sys_ok w \<Longrightarrow> sys_ok (mod_self (m_admin_sock_update f2) w)"
  "sys_ok w \<Longrightarrow> sys_ok (mod_self (m_shutdown_update f3) w)" "sys_ok w \<Longrightarrow> sys_ok (mod_self (m_monitor_update f4) w)"
  "sys_ok w \<Longrightarrow> sys_ok (mod_self (m_slaves_update f4) w)" "sys_ok w \<Longrightarrow> sys_ok (mod_self (m_repl_update f5) w)"
  "sys_ok w \<Longrightarrow> sys_ok (mod_self (m_last_time_update f7) w)" "sys_ok w \<Longrightarrow> sys_ok (mod_self (m_bgsave_running_update f8) w)"
  "sys_ok w \<Longrightarrow> sys_ok (mod_self (m_commands_update f6) w)" "sys_ok w \<Longrightarrow> sys_ok (mod_self (m_connections_update f6) w)"
  "sys_ok w \<Longrightarrow> slowlog_ok m \<Longrightarrow> sys_ok (mod_self (m_slowLog_update (\<lambda>_. m)) w)"
  by (simp_all add: sys_ok_def dbs_ok_def subs_ok_def mod_self_def)

lemma ok_world [simp]: "sys_ok (w\<lparr>cfg := c\<rparr>) = sys_ok w" "sys_ok (w\<lparr>disk := fs\<rparr>) = sys_ok w"
  by (simp_all add: sys_ok_def dbs_ok_def subs_ok_def)

lemma ok_peers: "alive n = alive (peers w) \<Longrightarrow> sys_ok w \<Longrightarrow> sys_ok (w\<lparr>peers := n\<rparr>)"
  by (simp add: sys_ok_def dbs_ok_def subs_ok_def lockable_def)

text \<open>Sending leaves the connections alone.\<close>

lemma alive_net_send [simp]: "alive (snd (net_send e i data n)) = alive n"
  by (simp add: net_send_def Let_def)

lemma alive_broadcast: "alive (snd (snd (broadcast_pass e cmd is n))) = alive n"
proof (induction "is" arbitrary: n)
  case (Cons i "is")
  have "alive (snd (net_send e i cmd n)) = alive n" by simp
  then show ?case using Cons [of n] Cons [of "snd (net_send e i cmd n)"] by (auto simp: Let_def split: prod.splits)
qed simp

lemma alive_broadcastToSlaves [simp]: "alive (snd (broadcastToSlaves e cmd sl n)) = alive n"
  using alive_broadcast [of e cmd sl n] by (auto simp: broadcastToSlaves_def Let_def split: prod.splits)


subsection \<open>Loops\<close>

lemma mset_keeps: "mset_loop e kvs w = Inr w' \<Longrightarrow> sys_ok w \<Longrightarrow> sys_ok w'"
  by (induction e kvs w rule: mset_loop.induct) (auto simp: bnd_eq_Inr keep)

lemma mget_keeps: "mget_loop e i ks w = Inr (rs, w') \<Longrightarrow> sys_ok w \<Longrightarrow> sys_ok w'"
  by (induction ks arbitrary: i w rs) (fastforce simp: bnd_eq_Inr keep Let_def split: option.splits if_splits)+

lemma del_keeps: "del_loop e ks w = Inr (n, w') \<Longrightarrow> sys_ok w \<Longrightarrow> sys_ok w'"
  by (induction ks arbitrary: w n) (fastforce simp: bnd_eq_Inr keep split: if_splits)+

lemma watch_keeps: "watch_loop e ks w = Inr w' \<Longrightarrow> sys_ok w \<Longrightarrow> sys_ok w'"
  by (induction e ks w rule: watch_loop.induct) (auto simp: bnd_eq_Inr keep)

lemma stored_hash_ok: "sys_ok w \<Longrightarrow> getShard e w k = Inr sh \<Longrightarrow> map_of (hashes sh) k = Some h \<Longrightarrow> hmap_ok h"
  using sys_ok_shard [of w e k] by (auto simp: getShard_def shard_ok_def split: if_splits dest: vals_okD)

lemma stored_set_ok: "sys_ok w \<Longrightarrow> getShard e w k = Inr sh \<Longrightarrow> map_of (sets sh) k = Some xs \<Longrightarrow> distinct xs"
  using sys_ok_shard [of w e k] by (auto simp: getShard_def shard_ok_def split: if_splits dest: vals_okD)

lemma stored_scores_ok: "sys_ok w \<Longrightarrow> getShard e w k = Inr sh \<Longrightarrow> map_of (zset_score sh) k = Some m \<Longrightarrow> hmap_ok m"
  using sys_ok_shard [of w e k] by (auto simp: getShard_def shard_ok_def split: if_splits dest: vals_okD)

lemmas stored_ok = stored_hash_ok stored_set_ok stored_scores_ok

lemma hset_keeps: "hset_loop e key fs w = Inr (n, w') \<Longrightarrow> sys_ok w \<Longrightarrow> sys_ok w'"
proof (induction fs arbitrary: w n rule: pairs_of.induct)
  case (1 f v rest)
  from "1.prems"(1) obtain sh where sh: "getShard e w key = Inr sh" by (auto simp: bnd_eq_Inr)
  define h where "h = insert_or_assign (str f) (str v) (case map_of (hashes sh) key of None \<Rightarrow> [] | Some inner \<Rightarrow> inner)"
  have "hmap_ok h" using stored_hash_ok [OF "1.prems"(2) sh] by (auto simp: h_def hm.ok_ins split: option.split)
  moreover obtain k where "hset_loop e key rest (put_hash e key h w) = Inr (k, w')"
    using "1.prems"(1) sh by (auto simp: h_def bnd_eq_Inr Let_def split: option.splits)
  ultimately show ?case using "1.IH" "1.prems"(2) by (blast intro: keep)
qed simp_all

lemma hdel_ok: "hmap_ok h \<Longrightarrow> hmap_ok (snd (hdel_loop fs h))"
  by (induction fs arbitrary: h) (auto simp: Let_def case_prod_beta)

lemma set_insert_distinct: "distinct xs \<Longrightarrow> distinct (set_insert m xs)"
  by (simp add: set_insert_def)

lemma insert_all_distinct: "distinct xs \<Longrightarrow> distinct (snd (insert_all ms xs))"
  by (induction ms xs rule: insert_all.induct) (auto simp: Let_def set_insert_distinct split: prod.splits)

lemma erase_all_distinct: "distinct xs \<Longrightarrow> distinct (snd (erase_all ms xs))"
  by (induction ms xs rule: erase_all.induct) (auto simp: Let_def distinct_removeAll split: prod.splits)

lemma zadd_one_hmap_ok: "zadd_one e i sc mem m z = Inr (n, m', z') \<Longrightarrow> hmap_ok m \<Longrightarrow> hmap_ok m'"
  by (auto simp: zadd_one_def bnd_eq_Inr)

lemma zadd_ok: "zadd_loop e i ps n m z = Inr (k, m', z') \<Longrightarrow> hmap_ok m \<Longrightarrow> hmap_ok m'"
proof (induction ps arbitrary: i n m z rule: pairs_of.induct)
  case (1 s mem rest)
  then show ?case by (auto simp: bnd_eq_Inr split: option.splits elim!: "1.IH" dest: zadd_one_hmap_ok)
qed (auto split: option.splits)

lemma zrem_ok: "zrem_loop ms n m z = Inr (k, m', z') \<Longrightarrow> hmap_ok m \<Longrightarrow> hmap_ok m'"
  by (induction ms n m z rule: zrem_loop.induct) (auto simp: bnd_eq_Inr split: option.splits)

lemma fold_erase_ok: "hmap_ok m \<Longrightarrow> hmap_ok (fold erase ks m)"
  by (induction ks arbitrary: m) simp_all

lemma remove_newkey_keeps [keep]: "sys_ok w \<Longrightarrow> sys_ok (remove_newkey e k w)"
  by (auto simp: remove_newkey_def keep split: option.splits)

lemma scores_or_empty_ok:
  assumes "sys_ok w"
  shows "hmap_ok (case map_of (zset_score (shard_of e w k)) k of None \<Rightarrow> [] | Some m \<Rightarrow> m)"
  using sys_ok_shard [OF assms, of e k] by (auto simp: shard_ok_def split: option.split dest: vals_okD)

lemma move_zset_keeps: "move_zset e key newkey w = Inr w' \<Longrightarrow> sys_ok w \<Longrightarrow> sys_ok w'"
  using scores_or_empty_ok [of w e key] unfolding move_zset_def Let_def
  by (simp split: if_split_asm) (auto intro!: keep)

lemma move_keeps:
  assumes "move_key e key newkey t w = Inr w'" and "sys_ok w"
    and "t = 1 \<Longrightarrow> view hashes e w (cur_db w) key \<noteq> None" and "t = 3 \<Longrightarrow> view sets e w (cur_db w) key \<noteq> None"
  shows "sys_ok w'"
proof -
  have ok: "shard_ok (shard_of e w key)" using assms(2) by (rule sys_ok_shard)
  have "t = 1 \<Longrightarrow> hmap_ok (the (map_of (hashes (shard_of e w key)) key))"
    "t = 3 \<Longrightarrow> distinct (the (map_of (sets (shard_of e w key)) key))"
    using assms(3,4) ok by (auto simp: shard_ok_def view_def shard_of_def dest: vals_okD)
  then show ?thesis using assms(1,2) move_zset_keeps unfolding move_key_def Let_def
    by (simp split: if_split_asm) (auto intro!: keep)
qed

lemmas loop_keeps = mset_keeps mget_keeps del_keeps watch_keeps hset_keeps

subsection \<open>Handlers\<close>

text \<open>\<open>post r\<close>: a reply that is not a fault leaves a world with the invariant.\<close>

definition post :: "reply \<Rightarrow> bool" where
  "post r \<longleftrightarrow> (\<forall>v w. r = Inr (v, w) \<longrightarrow> sys_ok w)"

lemma post_simps [simp]:
  "post (Inl f)" "post (Inr (v, w)) \<longleftrightarrow> sys_ok w" "post (bnd r g) \<longleftrightarrow> (\<forall>x. r = Inr x \<longrightarrow> post (g x))"
  by (auto simp: post_def bnd_eq_Inr)

lemma post_auth [simp]: "post (require_auth w r) \<longleftrightarrow> (if m_auth_level (sock w) < 1 then sys_ok w else post r)"
  by (simp add: require_auth_def)

lemma keeps_post: "(\<And>e args w. sys_ok w \<Longrightarrow> post (h e args w)) \<Longrightarrow> keeps h"
  by (auto simp: keeps_def post_def)

lemmas post_splits = option.split sum.split prod.split list.split

text \<open>Commands that only read return the world they were given.\<close>

lemma keeps_readers1:
  "keeps handlePING" "keeps handleEXISTS" "keeps handleTYPE" "keeps handleHGET" "keeps handleHGETALL" "keeps handleHLEN"
  "keeps handleHEXISTS" "keeps handleHKEYS" "keeps handleHVALS" "keeps handleLLEN" "keeps handleLINDEX" "keeps handleLRANGE"
  "keeps move_element"
  by (rule keeps_post, simp add: handlePING_def handleEXISTS_def handleTYPE_def handleHGET_def handleHGETALL_def handleHLEN_def
      handleHEXISTS_def handleHKEYS_def handleHVALS_def handleLLEN_def handleLINDEX_def handleLRANGE_def move_element_def Let_def
      split: post_splits)+

lemma keeps_readers2:
  "keeps handleSMEMBERS" "keeps handleSISMEMBER" "keeps handleSCARD" "keeps handleSRANDMEMBER" "keeps handleSDIFF"
  "keeps handleSINTER" "keeps handleSUNION" "keeps handleZRANGE" "keeps handleZSCORE" "keeps handleZCOUNT"
  "keeps handleZRANGEBYSCORE"
  by (rule keeps_post, simp add: handleSMEMBERS_def handleSISMEMBER_def handleSCARD_def handleSRANDMEMBER_def handleSDIFF_def
      handleSINTER_def handleSUNION_def handleZRANGE_def handleZSCORE_def handleZCOUNT_def handleZRANGEBYSCORE_def Let_def
      split: post_splits)+

lemma keeps_readers3:
  "keeps handleKEYS" "keeps handleDBSIZE" "keeps (time_left u)" "keeps handleRANDOMKEY" "keeps handleLASTSAVE" "keeps handleLASTSAVE1"
  "keeps handleCOMMAND" "keeps handleECHO" "keeps handleTIME" "keeps handleLOCALTIME" "keeps handleQUIT" "keeps handleAOFROTATE"
  by (rule keeps_post, simp add: handleKEYS_def handleDBSIZE_def time_left_def handleRANDOMKEY_def handleLASTSAVE_def
      handleLASTSAVE1_def handleCOMMAND_def handleECHO_def handleTIME_def handleLOCALTIME_def handleQUIT_def
      handleAOFROTATE_def Let_def split: post_splits)+

text \<open>Strings, hashes, lists.\<close>

lemma keeps_strings:
  "keeps handleSET" "keeps handleGET" "keeps handleGETSET" "keeps handleAPPEND" "keeps handleSETNX" "keeps handleSTRLEN"
  "keeps (expire_in u)" "keeps handlePERSIST" "keeps handleINCR" "keeps handleINCRBY"
  by (rule keeps_post, simp add: handleSET_def handleGET_def handleGETSET_def handleAPPEND_def handleSETNX_def handleSTRLEN_def
      expire_in_def handlePERSIST_def handleINCR_def handleINCRBY_def incr_by_def Let_def keep split: post_splits)+

lemma keeps_string_loops: "keeps handleMSET" "keeps handleMGET" "keeps handleDEL"
  by (rule keeps_post, auto simp: handleMSET_def handleMGET_def handleDEL_def split: post_splits dest: loop_keeps)+

lemma keeps_hashes: "keeps handleHSET" "keeps handleHDEL"
proof -
  show "keeps handleHSET" by (rule keeps_post) (auto simp: handleHSET_def dest: loop_keeps)
  have "hdel_loop fs h = (n, h') \<Longrightarrow> hmap_ok h \<Longrightarrow> hmap_ok h'" for fs h n h'
    using hdel_ok [of h fs] by simp
  then show "keeps handleHDEL"
    by (intro keeps_post) (auto simp: handleHDEL_def Let_def split: post_splits intro!: keep dest: stored_hash_ok)
qed

lemma keeps_lists: "keeps handleLPUSH" "keeps handleRPUSH" "keeps handleLPOP" "keeps handleRPOP" "keeps handleLINSERT" "keeps handleLSET"
  by (rule keeps_post, simp add: handleLPUSH_def handleRPUSH_def handleLPOP_def handleRPOP_def handleLINSERT_def handleLSET_def
      pop_list_def Let_def keep split: post_splits)+

lemma keeps_sets: "keeps handleSADD" "keeps handleSREM" "keeps handleSPOP" "keeps handleSMOVE"
proof -
  have ins: "insert_all ms xs = (n, ys) \<Longrightarrow> distinct xs \<Longrightarrow> distinct ys" for ms xs n ys
    using insert_all_distinct [of xs ms] by simp
  show "keeps handleSADD"
    by (rule keeps_post) (auto simp: handleSADD_def Let_def split: post_splits intro!: keep dest: stored_set_ok ins)
  have del: "erase_all ms xs = (n, ys) \<Longrightarrow> distinct xs \<Longrightarrow> distinct ys" for ms xs n ys
    using erase_all_distinct [of xs ms] by simp
  show "keeps handleSREM"
    by (rule keeps_post) (auto simp: handleSREM_def Let_def split: post_splits intro!: keep dest: stored_set_ok del)
  show "keeps handleSPOP"
    by (rule keeps_post) (auto simp: handleSPOP_def Let_def split: post_splits
        intro!: keep erase_all_distinct distinct_removeAll dest: stored_set_ok)
  show "keeps handleSMOVE"
    by (rule keeps_post) (auto simp: handleSMOVE_def Let_def split: post_splits
        intro!: keep set_insert_distinct distinct_removeAll dest: stored_set_ok)
qed

lemma keeps_zsets1: "keeps handleZADD" "keeps handleZREM" "keeps handleZRANK"
proof -
  show "keeps handleZADD"
    by (rule keeps_post) (auto simp: handleZADD_def Let_def split: post_splits intro!: keep dest!: zadd_ok dest: stored_scores_ok)
  show "keeps handleZREM"
    by (rule keeps_post) (auto simp: handleZREM_def split: post_splits intro!: keep dest!: zrem_ok dest: stored_scores_ok)
  show "keeps handleZRANK"
    by (rule keeps_post) (auto simp: handleZRANK_def Let_def split: post_splits intro!: keep)
qed

lemma zincr_post: "sys_ok w \<Longrightarrow> post (zincr e key mem d w)"
  by (auto simp: zincr_def Let_def split: post_splits intro!: keep dest: stored_scores_ok)

lemma keeps_zsets2: "keeps handleZINCRBY" "keeps handleZINCRBYFLOAT" "keeps handleZREMRANGEBYSCORE"
proof -
  show "keeps handleZINCRBY" by (rule keeps_post) (auto simp: handleZINCRBY_def zincr_post split: post_splits)
  show "keeps handleZINCRBYFLOAT" by (rule keeps_post) (auto simp: handleZINCRBYFLOAT_def zincr_post split: post_splits)
  show "keeps handleZREMRANGEBYSCORE"
    by (rule keeps_post) (auto simp: handleZREMRANGEBYSCORE_def Let_def split: post_splits
        intro!: keep fold_erase_ok dest: stored_scores_ok)
qed

text \<open>Renaming finds the key in the container whose type it noted.\<close>

lemma key_type_found:
  "key_type (shard_of e w k) k = Some t \<Longrightarrow> t = 1 \<Longrightarrow> view hashes e w (cur_db w) k \<noteq> None"
  "key_type (shard_of e w k) k = Some t \<Longrightarrow> t = 3 \<Longrightarrow> view sets e w (cur_db w) k \<noteq> None"
  by (auto simp: key_type_view split: if_splits)

lemma keeps_rename: "keeps handleRENAME" "keeps handleRENAMENX"
proof -
  have "sys_ok w'" if "sys_ok w" "key \<noteq> newkey" "key_type (shard_of e w key) key = Some t"
    "move_key e key newkey t (remove_newkey e newkey w) = Inr w'" for e w w' key newkey t
    using move_keeps [OF that(4) remove_newkey_keeps [OF that(1)]] key_type_found [OF that(3)] that(2)
    by (simp add: remove_newkey_frame)
  then show "keeps handleRENAME"
    by (intro keeps_post) (auto simp: handleRENAME_def sys_ok_db split: post_splits)
  have "sys_ok w'" if "sys_ok w" "key_type (shard_of e w key) key = Some t" "move_key e key newkey t w = Inr w'" for e w w' key newkey t
    using move_keeps [OF that(3,1)] key_type_found [OF that(2)] by simp
  then show "keeps handleRENAMENX"
    by (intro keeps_post) (auto simp: handleRENAMENX_def sys_ok_db split: post_splits)
qed

subsection \<open>Connection and server commands\<close>

lemma sys_ok_slowlog: "sys_ok w \<Longrightarrow> slowlog_ok (m_slowLog (self w))"
  by (simp add: sys_ok_def)

lemma sync_loop_ok: "sync_loop k fuel m = Inr m' \<Longrightarrow> slowlog_ok m \<Longrightarrow> slowlog_ok m'"
proof (induction fuel arbitrary: m)
  case (Suc fuel)
  obtain q where "spsc_pop slowlog_capacity (m_slow_logs m) = Inr ((case queued m of [] \<Rightarrow> None | x # _ \<Rightarrow> Some x), q)"
    "ring_ok slowlog_capacity q"
    using Suc.prems(2) unfolding slowlog_ok_def by (rule slow_queue(2))
  then show ?case using Suc by (auto simp: slowlog_ok_def split: option.splits list.splits)
qed simp

lemma sync_keeps: "sync_slowlog w = Inr w' \<Longrightarrow> sys_ok w \<Longrightarrow> sys_ok w'"
  by (auto simp: sync_slowlog_def bnd_eq_Inr syncSlowLogs_def intro!: keep elim: sync_loop_ok dest: sys_ok_slowlog)

lemma reset_ok: "slowlog_reset m = Inr m' \<Longrightarrow> slowlog_ok m \<Longrightarrow> slowlog_ok m'"
  using reset_loop_spec [of "m\<lparr>m_slow_logs_cache := []\<rparr>" slowlog_capacity] queued_bound [of m]
  by (auto simp: slowlog_reset_def bnd_eq_Inr slowlog_ok_def)

lemma keeps_server1: "keeps handleAUTH" "keeps handleSELECT" "keeps handleCLIENT" "keeps handleSHUTDOWN" "keeps handleUNWATCH" "keeps handleMONITOR"
  by (rule keeps_post, simp add: handleAUTH_def handleSELECT_def handleCLIENT_def handleSHUTDOWN_def handleUNWATCH_def
      handleMONITOR_def Let_def keep split: post_splits)+

lemma keeps_server2: "keeps handleWATCH" "keeps handleSLOWLOG" "keeps handleSCAN" "keeps handleFLUSHDB" "keeps handleFLUSHDBALL"
proof -
  show "keeps handleWATCH" by (rule keeps_post) (auto simp: handleWATCH_def intro: keep dest: watch_keeps)
  show "keeps handleSLOWLOG"
    by (rule keeps_post) (auto simp: handleSLOWLOG_def Let_def split: post_splits intro!: keep dest: sync_keeps reset_ok sys_ok_slowlog)
  show "keeps handleSCAN" by (rule keeps_post) (auto simp: handleSCAN_def Let_def split: post_splits intro!: keep)
  show "keeps handleFLUSHDB" "keeps handleFLUSHDBALL"
    by (rule keeps_post, simp add: handleFLUSHDB_def handleFLUSHDBALL_def keep)+
qed

lemma post_if: "post a \<Longrightarrow> post b \<Longrightarrow> post (if P then a else b)"
  by simp

lemma config_set_post: "sys_ok w \<Longrightarrow> post (config_set e p v w)"
  unfolding config_set_def Let_def
  by (intro post_if) (simp_all add: keep split: option.split prod.split)

lemma keeps_config: "keeps handleCONFIG"
  by (rule keeps_post) (simp add: handleCONFIG_def Let_def config_set_post)

subsection \<open>The dispatcher\<close>

lemma log_write_keeps: "sys_ok w \<Longrightarrow> sys_ok (log_write e args w)"
  by (auto simp: log_write_def Let_def intro!: keep ok_peers split: prod.split)
    (metis alive_broadcastToSlaves snd_conv)

lemma log_slow_keeps:
  assumes "log_slow e c w = Inr w'" and "sys_ok w"
  shows "sys_ok w'"
proof (rule pushEntry_total [OF sys_ok_slowlog [OF assms(2)], of "cfg w" c "raddr (peers w) (cur w)" "t_log e" "t_start e" "t_end e"])
  fix m'
  assume "pushEntry (cfg w) c (raddr (peers w) (cur w)) (t_log e) (t_start e) (t_end e) (m_slowLog (self w)) = Inr m'" "slowlog_ok m'"
  then show ?thesis using assms by (auto simp: log_slow_def bnd_eq_Inr intro: keep)
qed

lemma run_logged_post: "keeps h \<Longrightarrow> sys_ok w \<Longrightarrow> post (run_logged e nm b h args w)"
  by (auto simp: run_logged_def Let_def log_write_keeps dest: keepsD log_slow_keeps split: if_splits)

lemmas keeps_all = keeps_readers1 keeps_readers2 keeps_readers3 keeps_strings keeps_string_loops keeps_hashes keeps_lists
  keeps_sets keeps_zsets1 keeps_zsets2 keeps_rename keeps_server1 keeps_server2 keeps_config

text \<open>Persistence and replication.\<close>

lemma ok_save [keep]: "sys_ok w \<Longrightarrow> sys_ok (saveToFile e w)"
  by (simp add: saveToFile_def keep)

lemma ok_drop_slave [keep]: "sys_ok w \<Longrightarrow> sys_ok (drop_slave i w)"
  by (simp add: drop_slave_def keep)

lemma ok_streaming [keep]: "sys_ok w \<Longrightarrow> sys_ok (sendRDBStreaming e i chunks w)"
proof (induction chunks arbitrary: w)
  case (Cons c cs)
  have "sys_ok (w\<lparr>peers := snd (net_send e i c (peers w))\<rparr>)" "sys_ok (w\<lparr>peers := peers w\<rparr>)"
    using Cons.prems by (simp_all add: ok_peers)
  then show ?case using Cons.IH Cons.prems ok_drop_slave
    by (auto simp: Let_def split: prod.split)
qed simp

lemma ok_sync_direct [keep]: "sys_ok w \<Longrightarrow> sys_ok (snd (sync_direct e i chunks w))"
proof (induction chunks arbitrary: w)
  case (Cons c cs)
  have "sys_ok (w\<lparr>peers := snd (net_send e i (''$'' @ to_string (int (length c)) @ CRLF @ c @ CRLF) (peers w))\<rparr>)"
    using Cons.prems by (simp add: ok_peers)
  then show ?case using Cons.IH Cons.prems ok_drop_slave
    by (auto simp: Let_def split: prod.split)
qed simp

lemma ok_info_replication [keep]: "sys_ok w \<Longrightarrow> sys_ok (snd (info_replication w))"
  by (simp add: info_replication_def Let_def keep split: prod.split)

lemma info_section_keeps: "info_section e t w = Inr (s, w') \<Longrightarrow> sys_ok w \<Longrightarrow> sys_ok w'"
  using ok_info_replication [of w] by (auto simp: info_section_def bnd_eq_Inr split: if_splits)

lemma info_sections_keeps: "info_sections e ts w = Inr (s, w') \<Longrightarrow> sys_ok w \<Longrightarrow> sys_ok w'"
  by (induction ts arbitrary: w s) (auto simp: bnd_eq_Inr dest!: info_section_keeps)

lemma keeps_repl: "keeps handleSAVE" "keeps handleBGSAVE" "keeps handleREPLICAOF" "keeps handleSLAVEOF" "keeps handleSYNC" "keeps handleINFO"
proof -
  show "keeps handleSAVE" "keeps handleBGSAVE"
    by (rule keeps_post, simp add: handleSAVE_def handleBGSAVE_def keep split: post_splits)+
  show r: "keeps handleREPLICAOF"
    by (rule keeps_post, simp add: handleREPLICAOF_def Let_def keep split: post_splits)
  then show "keeps handleSLAVEOF" by (simp add: keeps_def handleSLAVEOF_def)
  show "keeps handleINFO"
    by (rule keeps_post) (auto simp: handleINFO_def bnd_eq_Inr post_def require_auth_def split: if_splits dest: info_sections_keeps)
  show "keeps handleSYNC"
  proof (rule keepsI)
    fix e args w r w'
    assume ok: "sys_ok w" and h: "handleSYNC e args w = Inr (r, w')"
    let ?w = "mod_self (m_slaves_update (addSlaves (cur w))) w"
    have "sys_ok (snd (sync_direct e (cur w) (generateRDB e ?w) ?w))" using ok by (simp add: keep)
    then have "sync_direct e (cur w) (generateRDB e ?w) ?w = (r, w') \<Longrightarrow> sys_ok w'" by simp
    then show "sys_ok w'" using ok h by (auto simp: handleSYNC_def require_auth_def Let_def keep split: if_splits)
  qed
qed

lemma keeps_hot: "map_of hot_commands cmd = Some h \<Longrightarrow> keeps h"
  by (auto simp: hot_commands_def keeps_all split: if_splits)

lemma keeps_entry: "en \<in> set command_entries \<Longrightarrow> keeps (handler en)"
  by (auto simp: command_entries_def cmd_entry_def keeps_all keeps_repl handleRPOPLPUSH_def handleLPOPRPUSH_def handleEXPIRE_def
      handlePEXPIRE_def handleTTL_def handlePTTL_def)

lemma executeTable_keeps: "keeps (executeTable rec)"
proof (rule keeps_post)
  fix e args w
  assume ok: "sys_ok w"
  obtain t where t: "getCommandTable = Inr t"
    "\<forall>h en. find_lowerbound t h = Some en \<longleftrightarrow> en \<in> set command_entries \<and> hash en = h"
    using table_lookup by blast
  show "post (executeTable rec e args w)"
    using ok t(2) keeps_entry keeps_hot unfolding executeTable_def t(1)
    by (auto simp: Let_def intro!: run_logged_post split: option.split)
qed

end
