(* ===== verification/Session.thy ===== *)
theory Session
  imports Access Invariant RespStream
begin

text \<open>
  The life of a connection, from \<open>src/redis_command/command_handler.cpp\<close>: transactions, subscription
  mode and the switch between them, PUBLISH, the batches of ordinary commands, and what the loop of
  \<open>handleClient\<close> (batch mode, the one \<open>USE_GENERATOR 0\<close> compiles) and the generator \<open>commandFlow\<close> make
  of a chunk of received bytes.

  A command that runs others (EXEC, a batch) takes a sequence of environments: \<open>es 0\<close> is its
  own, \<open>es (Suc j)\<close> that of the \<open>j\<close>-th command it runs.
\<close>

subsection \<open>Running a sequence of commands\<close>

fun executeBatch :: "bool \<Rightarrow> (nat \<Rightarrow> env) \<Rightarrow> RespValue list list \<Rightarrow> world \<Rightarrow> (RespValue list \<times> world) res" where
  "executeBatch RecordAOF es [] w = Inr ([], w)"
| "executeBatch RecordAOF es (args # batch) w =
     bnd (executeTable RecordAOF (es 0) args w) (\<lambda>(r, w1).
       bnd (executeBatch RecordAOF (\<lambda>j. es (Suc j)) batch w1) (\<lambda>(rs, w2). Inr (r # rs, w2)))"

subsection \<open>Transactions\<close>

text \<open>\<open>hasKeyModified\<close> with the version checker EXEC installs; it stops at the first difference.\<close>

fun watched_modified :: "env \<Rightarrow> WatchedKey list \<Rightarrow> world \<Rightarrow> bool res" where
  "watched_modified e [] w = Inr False"
| "watched_modified e (wk # wks) w =
     bnd (getKeyVersion e (wkey wk) w) (\<lambda>v. if version wk \<noteq> v then Inr True else watched_modified e wks w)"

definition leave_transaction :: "world \<Rightarrow> world" where
  "leave_transaction w = mod_sock clearWatchedKey (mod_sock clearTransaction w)"

definition handleTransactionCommand :: "(nat \<Rightarrow> env) \<Rightarrow> string \<Rightarrow> RespValue list \<Rightarrow> world \<Rightarrow> reply" where
  "handleTransactionCommand es cmd args w =
     (if cmd = ''EXEC'' then require_auth w
        (if length args \<noteq> 1 then Inr (wrong_args ''EXEC'', w)
         else bnd (watched_modified (es 0) (m_watchedKeys (sock w)) w) (\<lambda>modified.
           if modified then Inr (null_bulk, leave_transaction w)
           else bnd (executeBatch True (\<lambda>j. es (Suc j)) (m_transaction_cmds (sock w)) w) (\<lambda>(results, w1).
             Inr (array results, leave_transaction w1))))
      else if cmd = ''DISCARD'' then require_auth w
        (if length args \<noteq> 1 then Inr (wrong_args ''DISCARD'', w)
         else Inr (ok_reply, mod_sock clearTransaction w))
      else Inr (simple_string ''QUEUED'', mod_sock (addTransaction args) w))"

subsection \<open>Subscription mode\<close>

definition channel_reply :: "string \<Rightarrow> string \<Rightarrow> int \<Rightarrow> RespValue" where
  "channel_reply kind channel n = array [bulk_string kind, bulk_string channel, integer n]"

definition unsubscribe_one :: "string \<Rightarrow> world \<Rightarrow> world" where
  "unsubscribe_one channel w =
     mod_sock (removeSubScriptionChannel channel)
       (mod_self (m_subscription_update (removeSubscriber (peers w) channel (cur w))) w)"

fun unsubscribe_loop :: "string list \<Rightarrow> world \<Rightarrow> RespValue list \<times> world" where
  "unsubscribe_loop [] w = ([], w)"
| "unsubscribe_loop (c # cs) w =
     (let w1 = unsubscribe_one c w; (rs, w2) = unsubscribe_loop cs w1
      in (channel_reply ''unsubscribe'' c (int (length (m_subScription_channels (sock w1)))) # rs, w2))"

definition handleSubscriptionCommand :: "env \<Rightarrow> string \<Rightarrow> RespValue list \<Rightarrow> world \<Rightarrow> reply" where
  "handleSubscriptionCommand e cmd args w =
     (if cmd = ''UNSUBSCRIBE'' then require_auth w
        (let channels = (if length args = 1 then iter e (m_subScription_channels (sock w)) else map str (drop 1 args));
             (results, w1) = unsubscribe_loop channels w
         in Inr (array results,
                 if m_subScription_channels (sock w1) = [] then mod_sock (\<lambda>s. snd (endSubScription s)) w1 else w1))
      else if cmd = ''PING'' then require_auth w
        (if length args < 1 \<or> length args > 2 then Inr (wrong_args ''PING'', w)
         else if length args = 1 then Inr (simple_string ''PONG'', w)
         else Inr (bulk_string (str (args ! 1)), w))
      else Inr (error (''ERR in SubScription, only '' @ quoted ''UNSUBSCRIBE'' @ '' and '' @ quoted ''PING''), w))"

definition subscribe_one :: "string \<Rightarrow> world \<Rightarrow> world" where
  "subscribe_one channel w =
     mod_self (m_subscription_update (addSubscriber channel (cur w))) (mod_sock (addSubScriptionChannel channel) w)"

definition handleModeSwitchCommand :: "string \<Rightarrow> RespValue list \<Rightarrow> world \<Rightarrow> reply" where
  "handleModeSwitchCommand cmd args w =
     (if cmd = ''MULTI'' then require_auth w
        (if length args \<noteq> 1 then Inr (wrong_args ''MULTI'', w)
         else let (ok, s) = beginTransaction (sock w) in
           if \<not> ok then Inr (error ''ERR already in SubScription'', w)
           else Inr (ok_reply, mod_sock (\<lambda>_. s) w))
      else if cmd = ''SUBSCRIBE'' then require_auth w
        (if length args < 2 then Inr (wrong_args ''SUBSCRIBE'', w)
         else let (ok, s) = beginSubScription (sock w) in
           if \<not> ok then Inr (error ''ERR already in Transaction'', w)
           else
             let channels = map str (drop 1 args)
             in Inr (array (map (\<lambda>c. channel_reply ''subscribe'' c 1) channels),
                     fold subscribe_one channels (mod_sock (\<lambda>_. s) w)))
      else Inr (error ''ERR unknown mode command'', w))"

definition handlePublishCommand :: "env \<Rightarrow> RespValue list \<Rightarrow> world \<Rightarrow> reply" where
  "handlePublishCommand e args w = require_auth w
     (if length args \<noteq> 3 then Inr (wrong_args ''PUBLISH'', w)
      else let (n, net) = publishMessage e (str (args ! 1)) (str (args ! 2)) (m_subscription (self w)) (peers w)
           in Inr (integer (int n), w\<lparr>peers := net\<rparr>))"

subsection \<open>One command of a connection\<close>

definition special :: "string \<Rightarrow> world \<Rightarrow> bool" where
  "special cmd w \<longleftrightarrow> m_in_transaction (sock w) \<or> m_in_subScription (sock w) \<or> cmd \<in> {''MULTI'', ''SUBSCRIBE'', ''PUBLISH''}"

definition run_special :: "(nat \<Rightarrow> env) \<Rightarrow> string \<Rightarrow> RespValue list \<Rightarrow> world \<Rightarrow> reply" where
  "run_special es cmd args w =
     (if m_in_transaction (sock w) then handleTransactionCommand es cmd args w
      else if m_in_subScription (sock w) then handleSubscriptionCommand (es 0) cmd args w
      else if cmd = ''MULTI'' \<or> cmd = ''SUBSCRIBE'' then handleModeSwitchCommand cmd args w
      else handlePublishCommand (es 0) args w)"

text \<open>Telling the monitors, unless the reply text is the one of a queued command.\<close>

definition tell_monitors :: "env \<Rightarrow> string \<Rightarrow> RespValue \<Rightarrow> world \<Rightarrow> world" where
  "tell_monitors e cmd_str r w =
     (if str r \<noteq> ''QUEUED'' \<and> m_push_monitor (self w) then
        let (ms, n) = pushToMonitor e cmd_str (cur w) (m_monitor (self w)) (peers w)
        in (mod_self (m_monitor_update (\<lambda>_. ms)) w)\<lparr>peers := n\<rparr>
      else w)"

definition special_step :: "(nat \<Rightarrow> env) \<Rightarrow> RespValue list \<Rightarrow> world \<Rightarrow> reply" where
  "special_step es args w =
     bnd (run_special es (toupper (str (hd args))) args w) (\<lambda>(r, w1).
       bnd (log_slow (es 0) (join (map str args)) w1) (\<lambda>w2.
         Inr (r, tell_monitors (es 0) (join (map str args)) r w2)))"

subsection \<open>A chunk of bytes, in batch mode\<close>

text \<open>What the coroutine collects: commands not yet executed, replies not yet sent.\<close>

record Outbox =
  batch_commands :: "RespValue list list"
  batch_response :: string

definition outbox_empty :: Outbox where
  "outbox_empty = \<lparr>batch_commands = [], batch_response = []\<rparr>"

definition send_response :: "env \<Rightarrow> string \<Rightarrow> world \<Rightarrow> world" where
  "send_response e data w = (if data = [] then w else w\<lparr>peers := snd (send_all e (cur w) data (peers w))\<rparr>)"

definition execute_and_encode :: "(nat \<Rightarrow> env) \<Rightarrow> Outbox \<Rightarrow> world \<Rightarrow> (Outbox \<times> world) res" where
  "execute_and_encode es q w =
     (if batch_commands q = [] then Inr (q, w)
      else bnd (executeBatch True (\<lambda>j. es (Suc j)) (batch_commands q) w) (\<lambda>(results, w1).
        let response = batch_response q @ concat (map encode results) in
        if length response \<ge> s_max_batch_size (cfg w1)
        then Inr (outbox_empty, send_response (es 0) response w1)
        else Inr (\<lparr>batch_commands = [], batch_response = response\<rparr>, w1)))"

text \<open>One round of the loop over the parsed commands; \<open>False\<close> is its \<open>break\<close>.\<close>

definition client_step :: "(nat \<Rightarrow> env) \<Rightarrow> RespValue \<Rightarrow> Outbox \<Rightarrow> world \<Rightarrow> (bool \<times> Outbox \<times> world) res" where
  "client_step es v q w =
     (if arr v = [] then Inr (True, q, w)
      else if rtype v = ARRAY \<and> length (arr v) > 1000
      then Inr (False, q\<lparr>batch_response := batch_response q @ encode (error ''ERR command too large'')\<rparr>, w)
      else if special (toupper (str (hd (arr v)))) w then
        bnd (special_step es (arr v) w) (\<lambda>(r, w1).
          Inr (True, q\<lparr>batch_response := []\<rparr>,
               send_response (es 0) (batch_response q @ encode r)
                 (mod_self (m_commands_update (\<lambda>n. Suc n mod 2 ^ 32)) w1)))
      else
        let q1 = q\<lparr>batch_commands := batch_commands q @ [arr v]\<rparr> in
        if length (batch_commands q1) \<ge> s_max_exec_batch_size (cfg w)
        then bnd (execute_and_encode es q1 w) (\<lambda>(q2, w1). Inr (True, q2, w1))
        else Inr (True, q1, w))"

function client_loop ::
  "nat \<Rightarrow> (nat \<Rightarrow> nat \<Rightarrow> env) \<Rightarrow> RespStreamParser \<Rightarrow> Outbox \<Rightarrow> world \<Rightarrow> (RespStreamParser \<times> Outbox \<times> world) res" where
  "client_loop cap es p q w =
     bnd (next_cmd cap p) (\<lambda>(out, p').
       case out of None \<Rightarrow> Inr (p', q, w)
       | Some v \<Rightarrow> bnd (client_step (es 0) v q w) (\<lambda>(go, q1, w1).
           if go then client_loop cap (\<lambda>i. es (Suc i)) p' q1 w1 else Inr (p', q1, w1)))"
  by pat_completeness auto
termination
proof (relation "measure (\<lambda>(cap, es, p, q, w). length (pending p))", goal_cases)
  case (2 cap es p q w r out p' v x go y q1 w1)
  then have "next_cmd cap p = Inr (Some v, p')" by auto
  then show ?case by (rule next_cmd_Some) auto
qed simp

declare client_loop.simps [simp del]

text \<open>
  What follows a successful \<open>recv\<close>: \<open>fin\<close> are the environments of the commands left over after the
  loop. The result says whether the connection stays open.
\<close>

definition receive_chunk ::
  "nat \<Rightarrow> (nat \<Rightarrow> nat \<Rightarrow> env) \<Rightarrow> (nat \<Rightarrow> env) \<Rightarrow> string \<Rightarrow> RespStreamParser \<Rightarrow> world \<Rightarrow> (bool \<times> RespStreamParser \<times> world) res" where
  "receive_chunk cap es fin data p w =
     (let (ok, p1) = feed p data in
      if \<not> ok then Inr (False, p1, w)
      else bnd (client_loop cap es p1 outbox_empty w) (\<lambda>(p2, q, w1).
        bnd (execute_and_encode fin q w1) (\<lambda>(q2, w2).
          Inr (length (buffer p2) \<le> s_max_command_size (cfg w2), p2, send_response (fin 0) (batch_response q2) w2))))"

subsection \<open>A chunk of bytes, in generator mode\<close>

definition flow_step :: "(nat \<Rightarrow> env) \<Rightarrow> RespValue list \<Rightarrow> world \<Rightarrow> reply" where
  "flow_step es args w =
     (if special (toupper (str (hd args))) w then special_step es args w
      else bnd (executeTable True (es 1) args w) (\<lambda>(r, w1).
        Inr (r, tell_monitors (es 0) (join (map str args)) r w1)))"

function flow_loop ::
  "nat \<Rightarrow> (nat \<Rightarrow> nat \<Rightarrow> env) \<Rightarrow> RespStreamParser \<Rightarrow> world \<Rightarrow> (RespValue list \<times> RespStreamParser \<times> world) res" where
  "flow_loop cap es p w =
     bnd (next_cmd cap p) (\<lambda>(out, p').
       case out of None \<Rightarrow> Inr ([], p', w)
       | Some v \<Rightarrow>
           if arr v = [] then flow_loop cap (\<lambda>i. es (Suc i)) p' w
           else if rtype v = ARRAY \<and> length (arr v) > 1000 then Inr ([error ''ERR command too large''], p', w)
           else bnd (flow_step (es 0) (arr v) w) (\<lambda>(r, w1).
             bnd (flow_loop cap (\<lambda>i. es (Suc i)) p' w1) (\<lambda>(rs, p2, w2). Inr (r # rs, p2, w2))))"
  by pat_completeness auto
termination
proof (relation "measure (\<lambda>(cap, es, p, w). length (pending p))", goal_cases)
  case (2 cap es p w r out p' v)
  then have "next_cmd cap p = Inr (Some v, p')" by auto
  then show ?case by (rule next_cmd_Some) auto
next
  case (3 cap es p w r out p' v)
  then have "next_cmd cap p = Inr (Some v, p')" by auto
  then show ?case by (rule next_cmd_Some) auto
qed simp

declare flow_loop.simps [simp del]

text \<open>\<open>commandFlow\<close>: \<open>should_done\<close>, the values it yields, the parser and the world.\<close>

definition commandFlow ::
  "nat \<Rightarrow> (nat \<Rightarrow> nat \<Rightarrow> env) \<Rightarrow> string \<Rightarrow> RespStreamParser \<Rightarrow> world \<Rightarrow> (bool \<times> RespValue list \<times> RespStreamParser \<times> world) res" where
  "commandFlow cap es data p w =
     (let (ok, p1) = feed p data in
      if \<not> ok then Inr (True, [], p1, w)
      else bnd (flow_loop cap es p1 w) (\<lambda>(rs, p2, w1). Inr (False, rs, p2, w1)))"

subsection \<open>Laws of the loop\<close>

definition too_large :: "RespValue \<Rightarrow> bool" where
  "too_large v \<longleftrightarrow> rtype v = ARRAY \<and> length (arr v) > 1000"

fun client_steps :: "(nat \<Rightarrow> nat \<Rightarrow> env) \<Rightarrow> RespValue list \<Rightarrow> Outbox \<Rightarrow> world \<Rightarrow> (Outbox \<times> world) res" where
  "client_steps es [] q w = Inr (q, w)"
| "client_steps es (v # vs) q w =
     bnd (client_step (es 0) v q w) (\<lambda>(_, q1, w1). client_steps (\<lambda>i. es (Suc i)) vs q1 w1)"

lemma client_step_go: "client_step es v q w = Inr (go, q1, w1) \<Longrightarrow> \<not> too_large v \<Longrightarrow> go"
  by (auto simp: client_step_def too_large_def Let_def bnd_eq_Inr split: if_splits)

lemma client_loop_steps:
  assumes "drain cap p = Inr (vs, p')" and "\<forall>v \<in> set vs. \<not> too_large v"
  shows "client_loop cap es p q w = bnd (client_steps es vs q w) (\<lambda>t. Inr (p', t))"
  using assms
proof (induction vs arbitrary: es p q w)
  case Nil
  then show ?case by (subst client_loop.simps, subst (asm) drain.simps) (auto simp: bnd_eq_Inr split: option.splits)
next
  case (Cons v vs)
  from Cons.prems(1) obtain p1 where p1: "next_cmd cap p = Inr (Some v, p1)" "drain cap p1 = Inr (vs, p')"
    by (subst (asm) drain.simps) (auto simp: bnd_eq_Inr split: option.splits)
  show ?case
  proof (cases "client_step (es 0) v q w")
    case (Inl f)
    then show ?thesis using p1(1) by (subst client_loop.simps) simp
  next
    case (Inr t)
    obtain go q1 w1 where t: "t = (go, q1, w1)" by (cases t) auto
    then have go: "go" using client_step_go [of "es 0" v q w go q1 w1] Inr Cons.prems(2) by simp
    have "client_loop cap (\<lambda>i. es (Suc i)) p1 q1 w1 =
        bnd (client_steps (\<lambda>i. es (Suc i)) vs q1 w1) (\<lambda>t. Inr (p', t))"
      using Cons.IH [OF p1(2)] Cons.prems(2) by simp
    then show ?thesis using p1(1) Inr t go by (subst client_loop.simps) simp
  qed
qed

definition ordinary :: "RespValue \<Rightarrow> bool" where
  "ordinary v \<longleftrightarrow> arr v \<noteq> [] \<and> \<not> too_large v \<and> toupper (str (hd (arr v))) \<notin> {''MULTI'', ''SUBSCRIBE'', ''PUBLISH''}"

definition normal_mode :: "world \<Rightarrow> bool" where
  "normal_mode w \<longleftrightarrow> \<not> m_in_transaction (sock w) \<and> \<not> m_in_subScription (sock w)"

lemma step_collects:
  assumes "ordinary v" and "normal_mode w" and "Suc (length (batch_commands q)) < s_max_exec_batch_size (cfg w)"
  shows "client_step es v q w = Inr (True, q\<lparr>batch_commands := batch_commands q @ [arr v]\<rparr>, w)"
  using assms by (auto simp: client_step_def ordinary_def too_large_def normal_mode_def special_def Let_def)

lemma steps_collect:
  assumes "\<forall>v \<in> set vs. ordinary v" and "normal_mode w"
    and "length (batch_commands q) + length vs < s_max_exec_batch_size (cfg w)"
  shows "client_steps es vs q w = Inr (q\<lparr>batch_commands := batch_commands q @ map arr vs\<rparr>, w)"
  using assms by (induction vs arbitrary: es q) (simp_all add: step_collects)

lemma client_steps_append: "client_steps es (us @ ts) q w =
    bnd (client_steps es us q w) (\<lambda>(q1, w1). client_steps (\<lambda>i. es (i + length us)) ts q1 w1)"
  by (induction us arbitrary: es q w) (simp_all add: bnd_def split: sum.split)

text \<open>The command that fills the batch runs it; its replies join the response that is waiting.\<close>

lemma steps_fill:
  assumes "\<forall>v \<in> set (us @ [v]). ordinary v" and "normal_mode w"
    and "length (batch_commands q) + Suc (length us) = s_max_exec_batch_size (cfg w)"
    and "executeBatch True (\<lambda>j. es (length us) (Suc j)) (batch_commands q @ map arr (us @ [v])) w = Inr (rs, w1)"
    and "length (batch_response q @ concat (map encode rs)) < s_max_batch_size (cfg w1)"
  shows "client_steps es (us @ [v]) q w =
    Inr (\<lparr>batch_commands = [], batch_response = batch_response q @ concat (map encode rs)\<rparr>, w1)"
proof -
  let ?q = "q\<lparr>batch_commands := batch_commands q @ map arr us\<rparr>"
  have "client_steps es us q w = Inr (?q, w)" using steps_collect [of us w q es] assms(1-3) by simp
  moreover have "client_step (es (length us)) v ?q w =
      Inr (True, \<lparr>batch_commands = [], batch_response = batch_response q @ concat (map encode rs)\<rparr>, w1)"
    using assms by (simp add: client_step_def execute_and_encode_def ordinary_def too_large_def normal_mode_def special_def Let_def)
  ultimately show ?thesis by (simp add: client_steps_append)
qed

lemma cfg_send [simp]: "cfg (send_response e data w) = cfg w" "cur (send_response e data w) = cur w"
  "self (send_response e data w) = self w" "sock (send_response e data w) = sock w" "send_response e [] w = w"
  by (simp_all add: send_response_def sock_def)

lemma flush_batch:
  "bnd (execute_and_encode es \<lparr>batch_commands = cmds, batch_response = resp\<rparr> w) (\<lambda>(q2, w2).
      Inr (length (buffer p2) \<le> s_max_command_size (cfg w2), p2, send_response (es 0) (batch_response q2) w2)) =
    bnd (executeBatch True (\<lambda>j. es (Suc j)) cmds w) (\<lambda>(rs, w1).
      Inr (length (buffer p2) \<le> s_max_command_size (cfg w1), p2, send_response (es 0) (resp @ concat (map encode rs)) w1))"
  by (auto simp: execute_and_encode_def Let_def outbox_empty_def bnd_def split: sum.split)

text \<open>A sequence of special commands, as the loop runs them.\<close>

fun run_specials :: "(nat \<Rightarrow> nat \<Rightarrow> env) \<Rightarrow> RespValue list list \<Rightarrow> world \<Rightarrow> (RespValue list \<times> world) res" where
  "run_specials es [] w = Inr ([], w)"
| "run_specials es (c # cs) w =
     bnd (run_special (es 0) (toupper (str (hd c))) c w) (\<lambda>(r, w1).
       bnd (run_specials (\<lambda>i. es (Suc i)) cs w1) (\<lambda>(rs, w2). Inr (r # rs, w2)))"

lemma queue_commands:
  assumes "m_in_transaction (sock w)" and "\<forall>c \<in> set cs. toupper (str (hd c)) \<notin> {''EXEC'', ''DISCARD''}"
  shows "run_specials es (cs @ rest) w =
    bnd (run_specials (\<lambda>i. es (i + length cs)) rest (mod_sock (\<lambda>s. s\<lparr>m_transaction_cmds := m_transaction_cmds s @ cs\<rparr>) w))
      (\<lambda>(rs, w'). Inr (replicate (length cs) (simple_string ''QUEUED'') @ rs, w'))"
  using assms
proof (induction cs arbitrary: es w)
  case Nil
  have "mod_sock (\<lambda>s. s) w = w" by (simp add: mod_sock_def)
  then show ?case by (simp add: bnd_def split: sum.split)
next
  case (Cons c cs)
  let ?w = "mod_sock (addTransaction c) w"
  have step: "run_special (es 0) (toupper (str (hd c))) c w = Inr (simple_string ''QUEUED'', ?w)"
    using Cons.prems by (simp add: run_special_def handleTransactionCommand_def)
  have m: "mod_sock (\<lambda>s. s\<lparr>m_transaction_cmds := m_transaction_cmds s @ cs\<rparr>) ?w =
      mod_sock (\<lambda>s. s\<lparr>m_transaction_cmds := m_transaction_cmds s @ c # cs\<rparr>) w"
    by (simp add: mod_sock_def addTransaction_def)
  have "m_in_transaction (sock ?w)" using Cons.prems(1) by (simp add: addTransaction_def)
  then show ?case using Cons.IH [of ?w "\<lambda>i. es (Suc i)"] Cons.prems(2) step m
    by (simp add: bnd_def split: sum.split)
qed

subsection \<open>Laws of subscription mode\<close>

text \<open>The registry agrees with the connections; mode flags apart.\<close>

definition reg_ok :: "world \<Rightarrow> bool" where
  "reg_ok w \<longleftrightarrow> channels_ok (m_subscription (self w)) \<and>
     (\<forall>i c. i \<in> set (subscribers (m_subscription (self w)) c) \<longleftrightarrow> c \<in> set (m_subScription_channels (socks w i))) \<and>
     (\<forall>i. m_subScription_channels (socks w i) \<noteq> [] \<longrightarrow> lockable (peers w) i)"

text \<open>Only the registry and the list of channels of the current connection change.\<close>

definition sub_frame :: "world \<Rightarrow> world \<Rightarrow> bool" where
  "sub_frame w w' \<longleftrightarrow> (\<exists>m cs. w' = mod_sock (\<lambda>s. s\<lparr>m_subScription_channels := cs\<rparr>) (mod_self (m_subscription_update (\<lambda>_. m)) w))"

lemma sub_frame_refl: "sub_frame w w"
  unfolding sub_frame_def mod_sock_def mod_self_def
  by (intro exI [of _ "m_subscription (self w)"] exI [of _ "m_subScription_channels (sock w)"]) (simp add: sock_def)

lemma sub_frame_trans: "sub_frame w w' \<Longrightarrow> sub_frame w' w'' \<Longrightarrow> sub_frame w w''"
  by (auto simp: sub_frame_def mod_sock_def mod_self_def) blast

lemma sub_frame_fields:
  assumes "sub_frame w w'"
  shows "cur w' = cur w" "peers w' = peers w" "i \<noteq> cur w \<Longrightarrow> socks w' i = socks w i" "m_dbs (self w') = m_dbs (self w)"
    "m_slowLog (self w') = m_slowLog (self w)" "m_in_subScription (sock w') = m_in_subScription (sock w)"
    "m_in_transaction (sock w') = m_in_transaction (sock w)" "socket_ok (sock w') = socket_ok (sock w)"
    "m_auth_level (sock w') = m_auth_level (sock w)"
  using assms by (auto simp: sub_frame_def mod_sock_def mod_self_def sock_def socket_ok_def)

lemma reg_ok_sys: "sys_ok w \<Longrightarrow> reg_ok w"
  by (auto simp: sys_ok_def subs_ok_def reg_ok_def)

lemma subscribe_one_frame: "sub_frame w (subscribe_one c w)" "sub_frame w (unsubscribe_one c w)"
proof -
  have upd: "m_subscription_update f s = s\<lparr>m_subscription := f (m_subscription s)\<rparr>" for f s by (cases s) simp
  show "sub_frame w (subscribe_one c w)"
    unfolding sub_frame_def subscribe_one_def mod_sock_def mod_self_def
    by (intro exI [of _ "addSubscriber c (cur w) (m_subscription (self w))"]
        exI [of _ "set_insert c (m_subScription_channels (sock w))"]) (simp add: addSubScriptionChannel_def upd [of "addSubscriber c (cur w)"] sock_def)
  show "sub_frame w (unsubscribe_one c w)"
    unfolding sub_frame_def unsubscribe_one_def mod_sock_def mod_self_def
    by (intro exI [of _ "removeSubscriber (peers w) c (cur w) (m_subscription (self w))"]
        exI [of _ "removeAll c (m_subScription_channels (sock w))"]) (simp add: removeSubScriptionChannel_def upd [of "removeSubscriber (peers w) c (cur w)"] sock_def)
qed

lemma subscribe_one_sets:
  assumes "reg_ok w"
  shows "set (m_subScription_channels (sock (subscribe_one c w))) = insert c (set (m_subScription_channels (sock w)))"
    "lockable (peers w) (cur w) \<Longrightarrow> reg_ok (subscribe_one c w)"
    "set (m_subScription_channels (sock (unsubscribe_one c w))) = set (m_subScription_channels (sock w)) - {c}"
    "reg_ok (unsubscribe_one c w)"
proof -
  show "set (m_subScription_channels (sock (subscribe_one c w))) = insert c (set (m_subScription_channels (sock w)))"
    by (auto simp: subscribe_one_def addSubScriptionChannel_def set_insert_def)
  show "set (m_subScription_channels (sock (unsubscribe_one c w))) = set (m_subScription_channels (sock w)) - {c}"
    by (auto simp: unsubscribe_one_def removeSubScriptionChannel_def)
  show "reg_ok (subscribe_one c w)" if "lockable (peers w) (cur w)"
    using assms that
    by (auto simp: reg_ok_def subscribe_one_def mod_self_def mod_sock_def addSubScriptionChannel_def set_insert_def
        channels_ok_ops subscribers_add)
  have alive: "i \<in> set (subscribers (m_subscription (self w)) c') \<Longrightarrow> lockable (peers w) i" for i c'
    using assms unfolding reg_ok_def by (metis list.set(1) empty_iff)
  show "reg_ok (unsubscribe_one c w)"
    using assms alive unfolding reg_ok_def unsubscribe_one_def mod_self_def mod_sock_def
    by (auto simp: removeSubScriptionChannel_def channels_ok_ops subscribers_remove drop_sock_def)
      (metis removeAll.simps(1))
qed

lemma subscribe_fold:
  assumes "reg_ok w" and "lockable (peers w) (cur w)"
  shows "reg_ok (fold subscribe_one cs w) \<and> sub_frame w (fold subscribe_one cs w) \<and>
    set (m_subScription_channels (sock (fold subscribe_one cs w))) = set (m_subScription_channels (sock w)) \<union> set cs"
  using assms
proof (induction cs arbitrary: w)
  case (Cons c cs)
  note f = sub_frame_fields [OF subscribe_one_frame(1) [of w c]]
  have "lockable (peers (subscribe_one c w)) (cur (subscribe_one c w))" using Cons.prems(2) f(1,2) by simp
  then show ?case using Cons.IH [of "subscribe_one c w"] subscribe_one_sets(1,2) [OF Cons.prems(1), of c] Cons.prems(2)
      sub_frame_trans [OF subscribe_one_frame(1) [of w c]] by auto
qed (simp add: sub_frame_refl)

lemma unsubscribe_fold:
  assumes "reg_ok w" and "unsubscribe_loop cs w = (rs, w')"
  shows "reg_ok w' \<and> sub_frame w w' \<and> set (m_subScription_channels (sock w')) = set (m_subScription_channels (sock w)) - set cs"
  using assms
proof (induction cs arbitrary: w rs)
  case (Cons c cs)
  obtain rs1 where "unsubscribe_loop cs (unsubscribe_one c w) = (rs1, w')"
    using Cons.prems(2) by (auto simp: Let_def split: prod.splits)
  from Cons.IH [OF subscribe_one_sets(4) [OF Cons.prems(1)] this]
  show ?case using subscribe_one_sets(3) [OF Cons.prems(1), of c] sub_frame_trans [OF subscribe_one_frame(2) [of w c]] by auto
qed (simp add: sub_frame_refl)

subsection \<open>The invariant\<close>

text \<open>Only the current connection and the registry change.\<close>

definition sess_frame :: "world \<Rightarrow> world \<Rightarrow> bool" where
  "sess_frame w w' \<longleftrightarrow> cur w' = cur w \<and> peers w' = peers w \<and> (\<forall>i. i \<noteq> cur w \<longrightarrow> socks w' i = socks w i) \<and>
     m_dbs (self w') = m_dbs (self w) \<and> m_slowLog (self w') = m_slowLog (self w)"

lemma sess_frame_intros:
  "sub_frame w w' \<Longrightarrow> sess_frame w w'" "sess_frame w (mod_sock f w)" "sess_frame w w' \<Longrightarrow> sess_frame w (mod_sock f w')"
  "sub_frame (mod_sock f w) w' \<Longrightarrow> sess_frame w w'"
  by (auto simp: sess_frame_def mod_sock_def sub_frame_def mod_self_def)

lemma sys_okI:
  assumes "sys_ok w" and "sess_frame w w'" and "reg_ok w'" and "socket_ok (sock w')"
    and "m_in_subScription (sock w') \<longleftrightarrow> m_subScription_channels (sock w') \<noteq> []"
  shows "sys_ok w'"
proof -
  have m: "m_in_subScription (socks w' i) \<longleftrightarrow> m_subScription_channels (socks w' i) \<noteq> []" for i
    using assms(1,2,5) by (cases "i = cur w") (auto simp: sys_ok_def subs_ok_def sock_def sess_frame_def)
  have "socket_ok (socks w' i)" for i
    using assms(1,2,4) by (cases "i = cur w") (auto simp: sys_ok_def sock_def sess_frame_def)
  then show ?thesis using assms(1-3) m by (auto simp: sys_ok_def subs_ok_def reg_ok_def dbs_ok_def sess_frame_def)
qed

lemma sys_ok_cur: "sys_ok w \<Longrightarrow> socket_ok (sock w)" "sys_ok w \<Longrightarrow> lockable (peers w) (cur w)"
  "sys_ok w \<Longrightarrow> m_in_subScription (sock w) \<longleftrightarrow> m_subScription_channels (sock w) \<noteq> []"
  by (auto simp: sys_ok_def sock_def subs_ok_def)

text \<open>SUBSCRIBE and UNSUBSCRIBE, on the channels of the connection.\<close>

lemma subscribe_effect:
  assumes "sys_ok w" and "normal_mode w" and "1 \<le> m_auth_level (sock w)" and "2 \<le> length args"
  shows "\<exists>w'. handleModeSwitchCommand ''SUBSCRIBE'' args w =
      Inr (array (map (\<lambda>ch. channel_reply ''subscribe'' ch 1) (map str (drop 1 args))), w') \<and> sys_ok w' \<and> sess_frame w w' \<and>
    set (m_subScription_channels (sock w')) = set (map str (drop 1 args)) \<and> m_in_subScription (sock w') \<and>
    m_auth_level (sock w') = m_auth_level (sock w) \<and> \<not> m_in_transaction (sock w')"
proof -
  let ?u = "mod_sock (\<lambda>_. (sock w)\<lparr>m_in_subScription := True\<rparr>) w"
  let ?w = "fold subscribe_one (map str (drop 1 args)) ?u"
  have nil: "m_subScription_channels (sock w) = []" using sys_ok_cur(3) [OF assms(1)] assms(2) by (simp add: normal_mode_def)
  have "reg_ok ?u" using reg_ok_sys [OF assms(1)] by (auto simp: reg_ok_def mod_sock_def sock_def)
  from subscribe_fold [OF this, of "map str (drop 1 args)"] have r: "reg_ok ?w" "sub_frame ?u ?w" "set (m_subScription_channels (sock ?w)) = set (map str (drop 1 args))"
    using sys_ok_cur(2) [OF assms(1)] nil by simp_all
  note f = sub_frame_fields [OF r(2)]
  have ne: "m_subScription_channels (sock ?w) \<noteq> []" 
  proof
    assume "m_subScription_channels (sock ?w) = []"
    then have "drop 1 args = []" using r(3) by simp
    then show False using assms(4) by simp
  qed
  have fr: "sess_frame w ?w" using r(2) by (rule sess_frame_intros)
  have "sys_ok ?w"
    using assms(2) sys_ok_cur(1) [OF assms(1)] f(6,8) ne r
    by (intro sys_okI [OF assms(1) fr]) (simp_all add: socket_ok_def normal_mode_def)
  moreover have "handleModeSwitchCommand ''SUBSCRIBE'' args w =
      Inr (array (map (\<lambda>ch. channel_reply ''subscribe'' ch 1) (map str (drop 1 args))), ?w)"
    using assms(2-4) by (simp add: handleModeSwitchCommand_def beginSubScription_def normal_mode_def)
  ultimately show ?thesis using fr r(3) f assms(2) by (auto simp: normal_mode_def)
qed

lemma unsubscribe_effect:
  assumes "sys_ok w" and "m_in_subScription (sock w)" and "1 \<le> m_auth_level (sock w)"
  shows "\<exists>rs w'. handleSubscriptionCommand e ''UNSUBSCRIBE'' args w = Inr (array rs, w') \<and> sys_ok w' \<and> sess_frame w w' \<and>
    set (m_subScription_channels (sock w')) = set (m_subScription_channels (sock w)) -
      set (if length args = 1 then iter e (m_subScription_channels (sock w)) else map str (drop 1 args)) \<and>
    (m_in_subScription (sock w') \<longleftrightarrow> m_subScription_channels (sock w') \<noteq> []) \<and> \<not> m_in_transaction (sock w')"
proof -
  let ?cs = "if length args = 1 then iter e (m_subScription_channels (sock w)) else map str (drop 1 args)"
  obtain rs w1 where u: "unsubscribe_loop ?cs w = (rs, w1)" by force
  from unsubscribe_fold [OF reg_ok_sys [OF assms(1)] u]
  have r: "reg_ok w1" "sub_frame w w1" "set (m_subScription_channels (sock w1)) = set (m_subScription_channels (sock w)) - set ?cs"
    by auto
  note f = sub_frame_fields [OF r(2)]
  let ?w = "if m_subScription_channels (sock w1) = [] then mod_sock (\<lambda>s. snd (endSubScription s)) w1 else w1"
  have fr: "sess_frame w ?w" using r(2) by (simp add: sess_frame_intros)
  have ok: "socket_ok (sock ?w)" using f(8) sys_ok_cur(1) [OF assms(1)] by (simp add: socket_ok_ops)
  have reg: "reg_ok ?w" using r(1) by (auto simp: reg_ok_def mod_sock_def endSubScription_def)
  have md: "m_in_subScription (sock ?w) \<longleftrightarrow> m_subScription_channels (sock ?w) \<noteq> []"
    using f(6) assms(2) by (simp add: endSubScription_def)
  have "sys_ok ?w" using sys_okI [OF assms(1) fr reg ok md] .
  moreover have "handleSubscriptionCommand e ''UNSUBSCRIBE'' args w = Inr (array rs, ?w)"
    using assms(3) u by (simp add: handleSubscriptionCommand_def Let_def)
  moreover have "\<not> m_in_transaction (sock ?w)"
    using f(7) assms(2) sys_ok_cur(1) [OF assms(1)] by (simp add: endSubScription_def socket_ok_def)
  moreover have "m_subScription_channels (sock ?w) = m_subScription_channels (sock w1)" by (simp add: endSubScription_def)
  ultimately show ?thesis using fr md r(3) by metis
qed

lemma alive_send_all [simp]: "alive (snd (send_all e i data n)) = alive n"
proof (induction e i data n rule: send_all.induct)
  case (1 e i data n)
  obtain k n1 where k: "net_send e i data n = (k, n1)" by force
  then have "alive n1 = alive n" using alive_net_send [of e i data n] by simp
  moreover have "0 < k \<Longrightarrow> data \<noteq> [] \<Longrightarrow> alive (snd (send_all e i (drop (nat k) data) n1)) = alive n1"
    using "1.IH" k by simp
  ultimately show ?case using k by (subst send_all.simps) simp
qed

lemma alive_deliver [simp]: "alive (snd (deliver e data is n)) = alive n"
proof (induction "is" arbitrary: n)
  case (Cons i "is")
  have "alive (snd (send_all e i data n)) = alive n" by simp
  then show ?case using Cons [of n] Cons [of "snd (send_all e i data n)"] by (auto simp: Let_def split: prod.splits)
qed simp

lemma alive_push [simp]: "alive (snd (push_monitors e msg is n)) = alive n"
proof (induction "is" arbitrary: n)
  case (Cons i "is")
  have "alive (snd (net_send e i msg n)) = alive n" by simp
  then show ?case using Cons [of n] Cons [of "snd (net_send e i msg n)"] by (auto simp: Let_def split: prod.splits)
qed simp

lemma send_response_keeps [keep]: "sys_ok w \<Longrightarrow> sys_ok (send_response e data w)"
  by (simp add: send_response_def ok_peers)

lemma tell_monitors_keeps [keep]: "sys_ok w \<Longrightarrow> sys_ok (tell_monitors e c r w)"
  by (auto simp: tell_monitors_def pushToMonitor_def Let_def intro!: keep ok_peers split: prod.split if_splits)
    (metis alive_push snd_conv)

lemma executeBatch_keeps:
  assumes "executeBatch rec es cs w = Inr (rs, w')" and "sys_ok w"
  shows "sys_ok w'"
  using assms
proof (induction cs arbitrary: es w rs)
  case (Cons c cs)
  then show ?case using keepsD [OF executeTable_keeps] by (auto simp: bnd_eq_Inr)
qed simp

lemma transaction_post:
  assumes "sys_ok w"
  shows "post (handleTransactionCommand es cmd args w)"
  using assms executeBatch_keeps
  by (auto simp: handleTransactionCommand_def leave_transaction_def intro!: keep)

lemma subscription_post:
  assumes "sys_ok w" and "m_in_subScription (sock w)"
  shows "post (handleSubscriptionCommand e cmd args w)"
proof (cases "cmd = ''UNSUBSCRIBE'' \<and> 1 \<le> m_auth_level (sock w)")
  case True
  then show ?thesis using unsubscribe_effect [OF assms, of e args] by auto
next
  case False
  then show ?thesis using assms(1) by (auto simp: handleSubscriptionCommand_def require_auth_def)
qed

lemma multi_post:
  assumes "sys_ok w"
  shows "post (handleModeSwitchCommand ''MULTI'' args w)"
proof -
  have "mod_sock (\<lambda>_. snd (beginTransaction (sock w))) w = mod_sock (\<lambda>s. snd (beginTransaction s)) w"
    by (simp add: mod_sock_def sock_def)
  moreover have "sys_ok (mod_sock (\<lambda>s. snd (beginTransaction s)) w)" using assms by (rule keep)
  ultimately show ?thesis using assms
    by (simp add: handleModeSwitchCommand_def Let_def case_prod_beta)
qed

lemma mode_switch_post:
  assumes "sys_ok w" and "normal_mode w"
  shows "post (handleModeSwitchCommand cmd args w)"
proof (cases "cmd = ''SUBSCRIBE'' \<and> 1 \<le> m_auth_level (sock w) \<and> 2 \<le> length args")
  case True
  then show ?thesis using subscribe_effect [OF assms, of args] by auto
next
  case sub: False
  show ?thesis
  proof (cases "cmd = ''MULTI''")
    case True
    then show ?thesis using multi_post [OF assms(1)] by simp
  next
    case False
    have "cmd \<noteq> ''SUBSCRIBE'' \<or> m_auth_level (sock w) < 1 \<or> length args < 2" using sub by linarith
    then show ?thesis using False assms(1) by (elim disjE) (simp_all add: handleModeSwitchCommand_def)
  qed
qed

lemma publish_alive: "alive (snd (publishMessage e c msg m n)) = alive n"
  by (simp add: publishMessage_def split: option.split)

lemma publish_post: "sys_ok w \<Longrightarrow> post (handlePublishCommand e args w)"
  by (simp add: handlePublishCommand_def case_prod_beta ok_peers publish_alive)

lemma special_step_post:
  assumes "sys_ok w"
  shows "post (special_step es args w)"
proof -
  have "post (run_special es cmd args w)" for cmd
    using transaction_post [OF assms] subscription_post [OF assms] mode_switch_post [OF assms] publish_post [OF assms]
    by (auto simp: run_special_def normal_mode_def)
  then have "run_special es cmd args w = Inr (r, w1) \<Longrightarrow> sys_ok w1" for cmd r w1 unfolding post_def by blast
  then show ?thesis by (auto simp: special_step_def intro!: keep dest: log_slow_keeps)
qed

lemma execute_and_encode_keeps:
  assumes "execute_and_encode es q w = Inr (q', w')" and "sys_ok w"
  shows "sys_ok w'"
  using assms executeBatch_keeps
  by (auto simp: execute_and_encode_def bnd_eq_Inr Let_def intro!: keep split: if_splits)

lemma client_step_keeps:
  assumes "client_step es v q w = Inr (go, q', w')" and "sys_ok w"
  shows "sys_ok w'"
proof -
  have "special_step es (arr v) w = Inr (r, w1) \<Longrightarrow> sys_ok w1" for r w1
    using special_step_post [OF assms(2)] unfolding post_def by blast
  then show ?thesis using assms execute_and_encode_keeps
    by (auto simp: client_step_def bnd_eq_Inr Let_def intro!: keep split: if_splits)
qed

lemma client_loop_keeps:
  "client_loop cap es p q w = Inr (p', q', w') \<Longrightarrow> sys_ok w \<Longrightarrow> sys_ok w'"
proof (induction "length (pending p)" arbitrary: es p q w rule: less_induct)
  case less
  from less.prems(1) obtain out p1 where n: "next_cmd cap p = Inr (out, p1)"
    by (subst (asm) client_loop.simps) (auto simp: bnd_eq_Inr)
  show ?case
  proof (cases out)
    case None
    then show ?thesis using less.prems n by (subst (asm) client_loop.simps) auto
  next
    case (Some v)
    with less.prems(1) n obtain go q1 w1 where s: "client_step (es 0) v q w = Inr (go, q1, w1)"
      and rest: "(if go then client_loop cap (\<lambda>i. es (Suc i)) p1 q1 w1 else Inr (p1, q1, w1)) = Inr (p', q', w')"
      by (subst (asm) client_loop.simps) (auto simp: bnd_eq_Inr)
    have "sys_ok w1" using client_step_keeps [OF s less.prems(2)] .
    moreover have "length (pending p1) < length (pending p)"
      by (rule next_cmd_Some [OF n [unfolded Some]]) auto
    ultimately show ?thesis using less.hyps rest by (auto split: if_splits)
  qed
qed

lemma receive_chunk_keeps:
  assumes "receive_chunk cap es fin data p w = Inr (b, p', w')" and "sys_ok w"
  shows "sys_ok w'"
  using assms client_loop_keeps execute_and_encode_keeps
  by (auto simp: receive_chunk_def bnd_eq_Inr Let_def intro!: keep split: prod.splits if_splits)

lemma quiet_log:
  assumes "ns_to_us (t_end e - t_start e) \<le> s_slow_log_slower_than (cfg w)"
  shows "log_slow e c w = Inr w"
proof -
  have "mod_self (m_slowLog_update (\<lambda>_. m_slowLog (self w))) w = w" by (simp add: mod_self_def)
  then show ?thesis using assms by (simp add: log_slow_def pushEntry_def)
qed

text \<open>Feeding the encodings of some values to a fresh parser delivers them.\<close>

lemma chunk_of_values:
  assumes "\<forall>v \<in> set vs. resp_wf cap v" and "length (concat (map encode vs)) \<le> m"
  shows "\<exists>p1 p2. feed (new_parser m) (concat (map encode vs)) = (True, p1) \<and> drain cap p1 = Inr (vs, p2)"
proof -
  have ok: "parser_ok (new_parser m)" "pending (new_parser m) = []" by (simp_all add: new_parser_def parser_ok_def pending_def)
  then obtain p1 where p1: "feed (new_parser m) (concat (map encode vs)) = (True, p1)" "parser_ok p1"
    "pending p1 = concat (map encode vs)"
    using feed_ok [OF ok(1), of "concat (map encode vs)"] assms(2) by (auto simp: new_parser_def)
  have "parse_seq (parse cap) (pending p1) = Inr (vs, [])" using resp.seq_encoded [OF assms(1)] p1(3) by simp
  then obtain p2 where "drain cap p1 = Inr (vs, p2)"
    using drain_parse_seq(1) [OF p1(2), of cap] by (auto simp: bnd_eq_Inr)
  then show ?thesis using p1(1) by blast
qed

lemma arr_array [simp]: "arr (array xs) = xs" by (simp add: array_def)

lemma demo_session:
  "normal_mode demo_world" "cfg demo_world = demo_config" "s_max_exec_batch_size demo_config = 8" "cur demo_world = 0"
  "m_monitor (self demo_world) = []" "m_subscription (self demo_world) = []" "outq (peers demo_world) = []"
  "s_slow_log_slower_than demo_config = 10000"
  by (simp_all add: demo_world_def new_world_def new_server_def mod_sock_def sock_def new_socket_def normal_mode_def demo_config_def)

lemma get_missing:
  assumes "strings demo_env u ''k'' = None" and "m_auth_level (sock u) = 1" and "db_valid u" and "s_slow_log_slower_than (cfg u) = 10000"
  shows "executeTable True demo_env (map bulk_string [''GET'', ''k'']) u = Inr (null_bulk, u)"
proof -
  have up: "toupper ''GET'' = ''GET''" "\<not> isWriteCommand ''GET''" by code_simp+
  have "log_slow demo_env c u = Inr u" for c using assms(4) by (intro quiet_log) (simp add: demo_env_def ns_to_us_def)
  moreover have "handleGET demo_env (map bulk_string [''GET'', ''k'']) u = Inr (null_bulk, u)"
    using assms(1-3) by (simp add: handleGET_def view_curs_rev)
  moreover have "map_of hot_commands ''GET'' = Some handleGET" by (simp add: hot_commands_def)
  ultimately show ?thesis using up by (simp add: executeTable_def run_logged_def)
qed

subsection \<open>Properties\<close>





text \<open>SUBSCRIBE and UNSUBSCRIBE: from normal mode, SUBSCRIBE registers the connection on exactly the
  channels named (each once or more often, as named) and puts it in subscription mode; UNSUBSCRIBE
  without arguments then takes it off every channel and back to normal mode; the registrations of other
  connections are as before, and the invariant holds throughout.\<close>

theorem subscribe_unsubscribe:
  assumes "sys_ok w" and "normal_mode w" and "1 \<le> m_auth_level (sock w)" and "chans \<noteq> []" and "iter_ok e"
  shows "\<exists>w1 rs w2. handleModeSwitchCommand ''SUBSCRIBE'' (map bulk_string (''SUBSCRIBE'' # chans)) w =
      Inr (array (map (\<lambda>ch. channel_reply ''subscribe'' ch 1) chans), w1) \<and> sys_ok w1 \<and> m_in_subScription (sock w1) \<and>
    (\<forall>ch. cur w \<in> set (subscribers (m_subscription (self w1)) ch) \<longleftrightarrow> ch \<in> set chans) \<and>
    handleSubscriptionCommand e ''UNSUBSCRIBE'' [bulk_string ''UNSUBSCRIBE''] w1 = Inr (array rs, w2) \<and> sys_ok w2 \<and> normal_mode w2 \<and>
    (\<forall>ch. cur w \<notin> set (subscribers (m_subscription (self w2)) ch)) \<and>
    (\<forall>i ch. i \<noteq> cur w \<longrightarrow> i \<in> set (subscribers (m_subscription (self w2)) ch) \<longleftrightarrow> i \<in> set (subscribers (m_subscription (self w)) ch))"
proof -
  let ?args = "map bulk_string (''SUBSCRIBE'' # chans)"
  have "2 \<le> length ?args" using assms(4) by (cases chans) auto
  from subscribe_effect [OF assms(1-3) this] obtain w1 where w1:
    "handleModeSwitchCommand ''SUBSCRIBE'' ?args w = Inr (array (map (\<lambda>ch. channel_reply ''subscribe'' ch 1) chans), w1)"
    "sys_ok w1" "sess_frame w w1" "set (m_subScription_channels (sock w1)) = set chans" "m_in_subScription (sock w1)"
    "m_auth_level (sock w1) = m_auth_level (sock w)" by (auto simp: o_def)
  from unsubscribe_effect [OF w1(2,5), of e "[bulk_string ''UNSUBSCRIBE'']"] obtain rs w2 where w2:
    "handleSubscriptionCommand e ''UNSUBSCRIBE'' [bulk_string ''UNSUBSCRIBE''] w1 = Inr (array rs, w2)" "sys_ok w2" "sess_frame w1 w2"
    "m_subScription_channels (sock w2) = []" "normal_mode w2"
    using w1(6) assms(3,5) iter_set [OF assms(5), of "m_subScription_channels (sock w1)"] by (auto simp: normal_mode_def)
  have reg: "i \<in> set (subscribers (m_subscription (self u)) ch) \<longleftrightarrow> ch \<in> set (m_subScription_channels (socks u i))" if "sys_ok u" for u i ch
    using reg_ok_sys [OF that] by (simp add: reg_ok_def)
  have "socks w1 (cur w) = sock w1" "socks w2 (cur w) = sock w2" "i \<noteq> cur w \<Longrightarrow> socks w2 i = socks w i" for i
    using w1(3) w2(3) by (auto simp: sess_frame_def sock_def)
  then show ?thesis using w1 w2 reg [OF w1(2)] reg [OF w2(2)] reg [OF assms(1)] by auto
qed

lemma new_world_ok: "sys_ok (new_world c)" "sys_ok demo_world"
proof -
  show new: "sys_ok (new_world c)" for c
    by (simp add: sys_ok_def new_world_def new_server_def dbs_ok_def subs_ok_def lockable_def slowlog_ok_new channels_ok_def
        subscribers_def new_socket_def hmap_ok_def) (simp add: socket_ok_def)
  show "sys_ok demo_world" unfolding demo_world_def using new by (rule keep)
qed

theorem subscribe_unsubscribe_witness:
  "\<exists>w1. handleModeSwitchCommand ''SUBSCRIBE'' (map bulk_string [''SUBSCRIBE'', ''news'']) demo_world =
      Inr (array [channel_reply ''subscribe'' ''news'' 1], w1) \<and> cur demo_world \<in> set (subscribers (m_subscription (self w1)) ''news'')"
proof -
  have "normal_mode demo_world" "iter_ok demo_env"
    by (simp_all add: demo_world_def new_world_def mod_sock_def sock_def new_socket_def normal_mode_def iter_ok_def demo_env_def)
  from subscribe_unsubscribe [OF new_world_ok(2) this(1) _ _ this(2), of "[''news'']"] show ?thesis by auto
qed



text \<open>C35. A mode switch or PUBLISH overtakes the ordinary command before it: of two commands in one
  chunk, an ordinary one and then MULTI, SUBSCRIBE or PUBLISH, the second is executed and answered
  first, in the state before the first one. (A client that sends AUTH and MULTI together is refused
  the MULTI.)\<close>

theorem special_overtakes_batch:
  assumes "feed p data = (True, p1)" and "drain cap p1 = Inr ([v1, v2], p2)" and "ordinary v1" and "arr v2 \<noteq> []" and "\<not> too_large v2"
    and "toupper (str (hd (arr v2))) \<in> {''MULTI'', ''SUBSCRIBE'', ''PUBLISH''}"
    and "normal_mode w" and "1 < s_max_exec_batch_size (cfg w)"
  shows "receive_chunk cap es fin data p w =
    bnd (special_step (es 1) (arr v2) w) (\<lambda>(r2, w1).
      let w2 = send_response (es 1 0) (encode r2) (mod_self (m_commands_update (\<lambda>n. Suc n mod 2 ^ 32)) w1) in
      bnd (executeTable True (fin 1) (arr v1) w2) (\<lambda>(r1, w3).
        Inr (length (buffer p2) \<le> s_max_command_size (cfg w3), p2, send_response (fin 0) (encode r1) w3)))"
proof -
  have "\<forall>v \<in> set [v1, v2]. \<not> too_large v" using assms(3,5) by (simp add: ordinary_def)
  note loop = client_loop_steps [OF assms(2) this]
  have s1: "client_step (es 0) v1 outbox_empty w = Inr (True, \<lparr>batch_commands = [arr v1], batch_response = []\<rparr>, w)"
    using step_collects [OF assms(3,7)] assms(8) by (simp add: outbox_empty_def)
  have s2: "client_step f v2 \<lparr>batch_commands = [arr v1], batch_response = []\<rparr> w =
      bnd (special_step f (arr v2) w) (\<lambda>(r, w1). Inr (True, \<lparr>batch_commands = [arr v1], batch_response = []\<rparr>,
        send_response (f 0) (encode r) (mod_self (m_commands_update (\<lambda>n. Suc n mod 2 ^ 32)) w1)))" for f
    using assms(4-6) by (auto simp: client_step_def too_large_def special_def)
  show ?thesis using assms(1) loop s1 s2 [of "es 1"] flush_batch [of fin "[arr v1]" "[]" _ p2]
    by (simp add: receive_chunk_def bnd_def Let_def split: sum.splits prod.splits)
qed

theorem special_overtakes_batch_witness:
  "\<exists>b q w'. receive_chunk 10 (\<lambda>_ _. demo_env) (\<lambda>_. demo_env)
      (concat (map encode [array (map bulk_string [''GET'', ''k'']), array (map bulk_string [''PUBLISH'', ''c'', ''m''])]))
      (new_parser 200) demo_world = Inr (b, q, w') \<and>
    outq (peers w') = [(0, encode (integer 0)), (0, encode null_bulk)]"
proof -
  let ?g = "array (map bulk_string [''GET'', ''k''])" and ?m = "array (map bulk_string [''PUBLISH'', ''c'', ''m''])"
  have "list_all (resp_wf 10) [?g, ?m]" "length (concat (map encode [?g, ?m])) \<le> 200" by code_simp+
  then obtain p1 p2 where p: "feed (new_parser 200) (concat (map encode [?g, ?m])) = (True, p1)" "drain 10 p1 = Inr ([?g, ?m], p2)"
    using chunk_of_values [of "[?g, ?m]" 10 200] unfolding list_all_iff by blast
  have up: "toupper ''GET'' = ''GET''" "toupper ''PUBLISH'' = ''PUBLISH''" "\<not> isWriteCommand ''GET''" by code_simp+
  have q: "log_slow demo_env c u = Inr u" if "cfg u = demo_config" for c u
    using that demo_session(8) by (intro quiet_log) (simp add: demo_env_def ns_to_us_def)
  have s: "special_step (\<lambda>_. demo_env) (arr ?m) demo_world = Inr (integer 0, demo_world)"
    using demo_session q up by (simp add: special_step_def run_special_def normal_mode_def handlePublishCommand_def publishMessage_def
        tell_monitors_def pushToMonitor_def mod_self_def)
  let ?u = "send_response demo_env (encode (integer 0)) (mod_self (m_commands_update (\<lambda>n. Suc n mod 2 ^ 32)) demo_world)"
  have "strings demo_env ?u ''k'' = None" using demo_world_strings by (simp add: view_def mod_self_def fun_eq_iff)
  then have g: "executeTable True demo_env (arr ?g) ?u = Inr (null_bulk, ?u)"
    using get_missing [of ?u] demo_session(2,8) by (simp add: db_valid_def DB_COUNT_def)
  have "sends_all demo_env" by (simp add: sends_all_def demo_env_def)
  then have "outq (peers (send_response demo_env (encode null_bulk) ?u)) = [(0, encode (integer 0)), (0, encode null_bulk)]"
    using demo_session(4,7) by (simp add: send_response_def send_all_whole encode_neq_Nil)
  moreover have "ordinary ?g" by (simp add: ordinary_def too_large_def up)
  ultimately show ?thesis
    using special_overtakes_batch [OF p, of demo_world "\<lambda>_ _. demo_env" "\<lambda>_. demo_env"] s g demo_session up
    by (simp add: too_large_def)
qed

end
