(* ===== verification/Server.thy ===== *)
theory Server
  imports Session
begin

text \<open>
  The server as a state machine. A step is what one coroutine or thread does between two points at
  which another may run: accepting a connection (\<open>src/src/net/tcpServer.cpp\<close>), processing a received
  chunk or closing a connection (\<open>src/redis_command/command_handler.cpp\<close>), a round of the AOF flush
  thread, a rotation of the AOF. The expiry cycle of \<open>src/redis_command/server_data.cpp\<close> is here too.
  The invariant of \<open>Invariant\<close> holds in every reachable state, whatever the clients send and in
  whatever order the steps are interleaved.
\<close>

subsection \<open>Connections come and go\<close>

text \<open>\<open>startAccept\<close> after a successful \<open>accept\<close>; connection numbers are never shared by live sockets.\<close>

definition accept_client :: "nat \<Rightarrow> string \<Rightarrow> (string \<times> nat) option \<Rightarrow> world \<Rightarrow> world" where
  "accept_client i addr ip w =
     mod_self (m_connections_update (\<lambda>n. Suc n mod 2 ^ 32))
       (w\<lparr>socks := (socks w)(i := new_socket),
          peers := (peers w)\<lparr>alive := i # alive (peers w), connected := i # connected (peers w),
                             raddr := (raddr (peers w))(i := addr), rip := (rip (peers w))(i := ip)\<rparr>\<rparr>)"

text \<open>
  The limit on connections: \<open>CommandHandler\<close> does not override \<open>getMaxClientCount\<close>, whose value -1 is
  compared with an unsigned counter.
\<close>

definition may_accept :: "world \<Rightarrow> bool" where
  "may_accept w \<longleftrightarrow> m_connections (self w) < nat (- 1 mod 2 ^ 32)"

text \<open>The end of \<open>handleClient\<close>; with the coroutine the last owner of the socket is gone.\<close>

definition close_client :: "world \<Rightarrow> world" where
  "close_client w =
     (let w1 = (if isAdmin w then mod_self (m_admin_sock_update (\<lambda>_. None)) w else w);
          w2 = mod_self (m_subscription_update (removeAllSubscribers (peers w1) (cur w1))) w1;
          w3 = mod_sock clearSubScription w2;
          w4 = w3\<lparr>peers := (peers w3)\<lparr>connected := removeAll (cur w3) (connected (peers w3))\<rparr>\<rparr>;
          w5 = mod_self (m_monitor_update (removeMonitor (peers w4))) w4;
          w6 = mod_self (m_connections_update (\<lambda>n. (n + 2 ^ 32 - 1) mod 2 ^ 32)) w5
      in w6\<lparr>peers := (peers w6)\<lparr>alive := removeAll (cur w6) (alive (peers w6))\<rparr>\<rparr>)"

subsection \<open>The expiry cycle\<close>

text \<open>
  The loop over one shard, in the order of the hash map: it stops after 20 keys in all, or at a key
  without a deadline.
\<close>

fun expire_keys :: "int \<Rightarrow> string list \<Rightarrow> nat \<Rightarrow> StoreData hmap \<Rightarrow> nat \<times> StoreData hmap" where
  "expire_keys now [] n m = (n, m)"
| "expire_keys now (k # ks) n m =
     (case map_of m k of None \<Rightarrow> (n, m)
      | Some d \<Rightarrow>
          (case expire d of None \<Rightarrow> (n, m)
           | Some t \<Rightarrow>
               if n < 20 then expire_keys now ks (Suc n) (if t < now then erase k m else m)
               else (n, m)))"

definition expire_shard :: "env \<Rightarrow> int \<Rightarrow> nat \<times> nat \<Rightarrow> nat \<times> world \<Rightarrow> nat \<times> world" where
  "expire_shard e now di nw =
     (case (di, nw) of ((d, i), (n, w)) \<Rightarrow>
        let st = store (m_dbs (self w) d i); (n', st') = expire_keys now (iter e (keys st)) n st
        in (n', put_shard d i (store_update (\<lambda>_. st')) w))"

definition removeExpireCycle :: "env \<Rightarrow> int \<Rightarrow> world \<Rightarrow> world" where
  "removeExpireCycle e now w =
     (if m_shutdown (self w) then w
      else snd (fold (expire_shard e now) (List.product [0..<DB_COUNT] [0..<SHARD_COUNT]) (0, w)))"

text \<open>One round of the coroutine \<open>expireTime\<close>; \<open>None\<close> when its loop ends.\<close>

definition expireTime_round :: "env \<Rightarrow> int \<Rightarrow> world \<Rightarrow> world option" where
  "expireTime_round e now w = (if m_shutdown (self w) then Some (removeExpireCycle e now w) else None)"

subsection \<open>Steps\<close>

type_synonym system = "world \<times> (nat \<Rightarrow> RespStreamParser)"

definition flush_step :: "env \<Rightarrow> int \<Rightarrow> world \<Rightarrow> world res" where
  "flush_step e now w =
     bnd (aofFlushThread_round e now (cfg w) (m_aof (self w)) (disk w)) (\<lambda>(c, a, fs).
       Inr ((mod_self (m_aof_update (\<lambda>_. a)) w)\<lparr>cfg := c, disk := fs\<rparr>))"

inductive server_step :: "system \<Rightarrow> system \<Rightarrow> bool" where
  accept: "may_accept w \<Longrightarrow> \<not> lockable (peers w) i \<Longrightarrow>
    server_step (w, ps) (accept_client i addr ip w, ps(i := new_parser (s_max_command_size (cfg w))))"
| receive: "online (peers w) i \<Longrightarrow> \<not> m_shutdown (self w) \<Longrightarrow>
    receive_chunk cap es fin data (ps i) (w\<lparr>cur := i\<rparr>) = Inr (True, p', w') \<Longrightarrow> server_step (w, ps) (w', ps(i := p'))"
| overflow: "online (peers w) i \<Longrightarrow> \<not> m_shutdown (self w) \<Longrightarrow>
    receive_chunk cap es fin data (ps i) (w\<lparr>cur := i\<rparr>) = Inr (False, p', w') \<Longrightarrow> 
    server_step (w, ps) (close_client (w'\<lparr>cur := i\<rparr>), ps(i := p'))"
| hangup: "lockable (peers w) i \<Longrightarrow> server_step (w, ps) (close_client (w\<lparr>cur := i\<rparr>), ps)"
| flush: "flush_step e now w = Inr w' \<Longrightarrow> server_step (w, ps) (w', ps)"
| aofsync: "server_step (w, ps) (mod_self (m_aof_update (aofSyncLoop_round now (cfg w))) w, ps)"
| rotate: "server_step (w, ps) (rotate_step e w, ps)"
| bgsave: "m_bgsave_running (self w) \<Longrightarrow> server_step (w, ps) (bgsave_step e w, ps)"
| stream: "i \<in> set (m_streams (m_repl (self w))) \<Longrightarrow> server_step (w, ps) (stream_step e i w, ps)"
| expiry: "expireTime_round e now w = Some w' \<Longrightarrow> server_step (w, ps) (w', ps)"

subsection \<open>The invariant\<close>

definition server_ok :: "system \<Rightarrow> bool" where
  "server_ok sys \<longleftrightarrow> (case sys of (w, ps) \<Rightarrow>
     (\<forall>i. socket_ok (socks w i)) \<and> dbs_ok w \<and> slowlog_ok (m_slowLog (self w)) \<and> subs_ok w \<and> (\<forall>i. parser_ok (ps i)))"

lemma server_ok_serve: "server_ok (w, ps) \<Longrightarrow> lockable (peers w) i \<Longrightarrow> sys_ok (w\<lparr>cur := i\<rparr>)"
  by (simp add: server_ok_def sys_ok_def dbs_ok_def subs_ok_def)

lemma server_ok_sys: "sys_ok w \<Longrightarrow> \<forall>i. parser_ok (ps i) \<Longrightarrow> server_ok (w, ps)"
  by (simp add: server_ok_def sys_ok_def)

lemma client_loop_parser:
  "client_loop cap es p q w = Inr (p', q', w') \<Longrightarrow> parser_ok p \<Longrightarrow> parser_ok p'"
proof (induction "length (pending p)" arbitrary: es p q w rule: less_induct)
  case less
  from less.prems(1) obtain out p1 where n: "next_cmd cap p = Inr (out, p1)"
    by (subst (asm) client_loop.simps) (auto simp: bnd_eq_Inr)
  have ok: "parser_ok p1" using next_cmd_ok [OF n less.prems(2)] by simp
  show ?case
  proof (cases out)
    case None
    then show ?thesis using less.prems n ok by (subst (asm) client_loop.simps) auto
  next
    case (Some v)
    with less.prems(1) n obtain go q1 w1 where
      rest: "(if go then client_loop cap (\<lambda>i. es (Suc i)) p1 q1 w1 else Inr (p1, q1, w1)) = Inr (p', q', w')"
      by (subst (asm) client_loop.simps) (auto simp: bnd_eq_Inr)
    have "length (pending p1) < length (pending p)"
      by (rule next_cmd_Some [OF n [unfolded Some]]) auto
    then show ?thesis using less.hyps rest ok by (auto split: if_splits)
  qed
qed

lemma receive_parser:
  assumes "receive_chunk cap es fin data p w = Inr (b, p', w')" and "parser_ok p"
  shows "parser_ok p'"
proof -
  obtain ok p1 where f: "feed p data = (ok, p1)" by force
  then have "parser_ok p1" using assms(2) by (auto simp: feed_def parser_ok_def split: if_splits)
  then show ?thesis using assms(1) f client_loop_parser by (auto simp: receive_chunk_def bnd_eq_Inr split: if_splits)
qed

lemma accept_ok:
  assumes "server_ok (w, ps)" and "\<not> lockable (peers w) i"
  shows "server_ok (accept_client i addr ip w, ps(i := new_parser m))"
proof -
  have none: "m_subScription_channels (socks w i) = []" using assms by (auto simp: server_ok_def subs_ok_def)
  have new: "parser_ok (new_parser m)" by (simp add: new_parser_def parser_ok_def)
  have f: "m_in_subScription new_socket = False" "m_subScription_channels new_socket = []" by (simp_all add: new_socket_def)
  have "subs_ok (accept_client i addr ip w)"
    using assms none f unfolding server_ok_def subs_ok_def accept_client_def mod_self_def lockable_def by auto
  then show ?thesis using assms(1) new by (simp add: server_ok_def dbs_ok_def) (simp add: accept_client_def mod_self_def)
qed

lemma close_subs:
  assumes "subs_ok w"
  shows "subs_ok (close_client w)"
proof -
  have reg: "channels_ok (m_subscription (self w))"
    "\<And>i c. i \<in> set (subscribers (m_subscription (self w)) c) \<longleftrightarrow> c \<in> set (m_subScription_channels (socks w i))"
    "\<And>i. m_in_subScription (socks w i) \<longleftrightarrow> m_subScription_channels (socks w i) \<noteq> []"
    "\<And>i. m_in_subScription (socks w i) \<Longrightarrow> lockable (peers w) i"
    using assms by (auto simp: subs_ok_def)
  have m: "m_subscription (self (close_client w)) = removeAllSubscribers (peers w) (cur w) (m_subscription (self w))"
    "socks (close_client w) = (socks w)(cur w := clearSubScription (socks w (cur w)))"
    "lockable (peers (close_client w)) i \<longleftrightarrow> lockable (peers w) i \<and> i \<noteq> cur w" for i
    by (auto simp: close_client_def Let_def mod_self_def mod_sock_def lockable_def)
  have alive: "c \<in> set (m_subScription_channels (socks w i)) \<Longrightarrow> lockable (peers w) i" for c i
    using reg(3,4) by (metis list.set(1) empty_iff)
  have f: "m_in_subScription (clearSubScription u) = False" "m_subScription_channels (clearSubScription u) = []" for u
    by (simp_all add: clearSubScription_def)
  show ?thesis unfolding subs_ok_def m
    using reg alive by (auto simp: channels_ok_ops subscribers_removeAll drop_sock_def f)
qed

lemma close_ok: "server_ok (w, ps) \<Longrightarrow> server_ok (close_client (w\<lparr>cur := i\<rparr>), ps)"
proof -
  assume ok: "server_ok (w, ps)"
  let ?w = "w\<lparr>cur := i\<rparr>"
  have "subs_ok ?w" using ok by (simp add: server_ok_def subs_ok_def)
  moreover have "socks (close_client ?w) = (socks w)(i := clearSubScription (socks w i))" "m_dbs (self (close_client ?w)) = m_dbs (self w)"
    "m_slowLog (self (close_client ?w)) = m_slowLog (self w)"
    by (simp_all add: close_client_def Let_def mod_self_def mod_sock_def)
  ultimately show ?thesis using ok close_subs by (simp add: server_ok_def dbs_ok_def socket_ok_ops)
qed

text \<open>What the expiry cycle removes was due; nothing else changes.\<close>

lemma expire_keys_spec:
  "expire_keys now ks n m = (n', m') \<Longrightarrow>
     (\<forall>k. map_of m' k = map_of m k \<or> (\<exists>d t. map_of m k = Some d \<and> expire d = Some t \<and> t < now \<and> map_of m' k = None)) \<and>
     (hmap_ok m \<longrightarrow> hmap_ok m') \<and> n \<le> n' \<and> (n \<le> 20 \<longrightarrow> n' \<le> 20)"
proof (induction ks arbitrary: n m)
  case (Cons k ks)
  show ?case
  proof (cases "\<exists>d t. map_of m k = Some d \<and> expire d = Some t \<and> n < 20")
    case True
    then obtain d t where d: "map_of m k = Some d" "expire d = Some t" "n < 20" by blast
    then have r: "expire_keys now ks (Suc n) (if t < now then erase k m else m) = (n', m')" using Cons.prems by simp
    show ?thesis using Cons.IH [OF r] d by (auto simp: hm.find_del split: if_splits)
  next
    case False
    then have "(n', m') = (n, m)" using Cons.prems by (auto split: option.splits if_splits)
    then show ?thesis by simp
  qed
qed simp

definition only_due :: "env \<Rightarrow> int \<Rightarrow> world \<Rightarrow> world \<Rightarrow> bool" where
  "only_due e now w w' \<longleftrightarrow> (\<forall>d k. view store e w' d k = view store e w d k \<or>
     (\<exists>v t. view store e w d k = Some v \<and> expire v = Some t \<and> t < now \<and> view store e w' d k = None)) \<and>
     only_strings w w'"

lemma only_due_refl: "only_due e now w w"
  by (simp add: only_due_def)

lemma only_due_trans: "only_due e now w w' \<Longrightarrow> only_due e now w' w'' \<Longrightarrow> only_due e now w w''"
  unfolding only_due_def by (intro conjI allI) (metis option.distinct(1), blast intro: only_strings_trans)

lemma only_strings_put_shard: "only_strings w (put_shard d i (store_update (\<lambda>_. st)) w)"
proof -
  let ?f = "\<lambda>d' i'. if d' = d \<and> i' = i then st else store (m_dbs (self w) d' i')"
  have "(m_dbs (self w))(d := (m_dbs (self w) d)(i := (m_dbs (self w) d i)\<lparr>store := st\<rparr>)) = (\<lambda>d i. (m_dbs (self w) d i)\<lparr>store := ?f d i\<rparr>)"
    by (intro ext) simp
  then show ?thesis unfolding only_strings_def put_shard_def mod_self_def by (intro exI [of _ ?f]) simp
qed

lemma only_strings_ok:
  assumes "only_strings w w'" and "server_ok (w, ps)" and "\<And>d i. hmap_ok (store (m_dbs (self w') d i))"
  shows "server_ok (w', ps)"
  using assms by (auto simp: only_strings_def server_ok_def dbs_ok_def shard_ok_def subs_ok_def)

lemma expire_shard_spec:
  assumes "expire_shard e now (d, i) (n, w) = (n', w')"
  shows "only_due e now w w' \<and> (n \<le> 20 \<longrightarrow> n' \<le> 20) \<and>
    ((\<forall>d i. hmap_ok (store (m_dbs (self w) d i))) \<longrightarrow> (\<forall>d i. hmap_ok (store (m_dbs (self w') d i))))"
proof -
  let ?st = "store (m_dbs (self w) d i)"
  obtain st' where r: "expire_keys now (iter e (keys ?st)) n ?st = (n', st')" and w': "w' = put_shard d i (store_update (\<lambda>_. st')) w"
    using assms by (auto simp: expire_shard_def Let_def split: prod.splits)
  note sp = expire_keys_spec [OF r]
  have "view store e w' d' k = (if d' = d \<and> getShardIndex e k = i then map_of st' k else view store e w d' k)" for d' k
    by (simp add: w' view_def put_shard_def mod_self_def)
  then have "only_due e now w w'"
    using sp only_strings_put_shard [of w d i st'] unfolding only_due_def w' by (auto simp: view_def)
  then show ?thesis using sp by (auto simp: w' put_shard_def mod_self_def)
qed

lemma expire_fold_spec:
  assumes "fold (expire_shard e now) dis (n, w) = (n', w')"
  shows "only_due e now w w' \<and> (n \<le> 20 \<longrightarrow> n' \<le> 20) \<and>
    ((\<forall>d i. hmap_ok (store (m_dbs (self w) d i))) \<longrightarrow> (\<forall>d i. hmap_ok (store (m_dbs (self w') d i))))"
  using assms
proof (induction dis arbitrary: n w)
  case (Cons di dis)
  obtain n1 w1 where s: "expire_shard e now di (n, w) = (n1, w1)" by force
  obtain d i where "di = (d, i)" by force
  from expire_shard_spec [OF s [unfolded this]] Cons.IH [of n1 w1] Cons.prems s
  show ?case by (auto intro: only_due_trans)
qed (simp add: only_due_refl)

lemma cycle_spec:
  "only_due e now w (removeExpireCycle e now w) \<and>
    ((\<forall>d i. hmap_ok (store (m_dbs (self w) d i))) \<longrightarrow> (\<forall>d i. hmap_ok (store (m_dbs (self (removeExpireCycle e now w)) d i))))"
  using expire_fold_spec [of e now "List.product [0..<DB_COUNT] [0..<SHARD_COUNT]" 0 w]
  unfolding removeExpireCycle_def by (cases "fold (expire_shard e now) (List.product [0..<DB_COUNT] [0..<SHARD_COUNT]) (0, w)")
    (simp add: only_due_refl)

lemma server_ok_streaming: "server_ok (w, ps) \<Longrightarrow> server_ok (sendRDBStreaming e i chunks w, ps)"
proof (induction chunks arbitrary: w)
  case (Cons c cs)
  have n: "server_ok (w\<lparr>peers := n\<rparr>, ps)" if "alive n = alive (peers w)" for n
    using Cons.prems that by (simp add: server_ok_def dbs_ok_def subs_ok_def lockable_def)
  have d: "server_ok (u, ps) \<Longrightarrow> server_ok (drop_slave i u, ps)" for u
    by (simp add: server_ok_def dbs_ok_def subs_ok_def drop_slave_def mod_self_def)
  have "server_ok (w\<lparr>peers := snd (net_send e i c (peers w))\<rparr>, ps)" by (intro n) simp
  moreover have "server_ok (w\<lparr>peers := peers w\<rparr>, ps)" by (intro n) simp
  ultimately show ?case using Cons.IH d by (cases "net_send e i c (peers w)") (simp add: Let_def)
qed simp

lemma step_ok:
  assumes "server_step s s'" and "server_ok s"
  shows "server_ok s'"
  using assms
proof (induction rule: server_step.induct)
  case (receive w i cap es fin data ps p' w')
  have "sys_ok w'" using receive_chunk_keeps [OF receive(3)] server_ok_serve [OF receive(4)] receive(1)
    by (simp add: online_def)
  moreover have "parser_ok p'" using receive_parser [OF receive(3)] receive(4) by (simp add: server_ok_def)
  ultimately show ?case using receive(4) by (auto simp: server_ok_def sys_ok_def)
next
  case (overflow w i cap es fin data ps p' w')
  have "sys_ok w'" using receive_chunk_keeps [OF overflow(3)] server_ok_serve [OF overflow(4)] overflow(1)
    by (simp add: online_def)
  moreover have "parser_ok p'" using receive_parser [OF overflow(3)] overflow(4) by (simp add: server_ok_def)
  ultimately have "server_ok (w', ps(i := p'))" using overflow(4) by (auto simp: server_ok_def sys_ok_def)
  then show ?case by (rule close_ok)
next
  case (flush e now w w' ps)
  then show ?case
    by (auto simp: flush_step_def bnd_eq_Inr server_ok_def dbs_ok_def subs_ok_def mod_self_def)
next
  case (aofsync w ps now)
  then show ?case by (auto simp: server_ok_def dbs_ok_def subs_ok_def mod_self_def)
next
  case (rotate w ps e)
  then show ?case
    by (auto simp: rotate_step_def server_ok_def dbs_ok_def subs_ok_def mod_self_def split: prod.splits)
next
  case (bgsave w ps e)
  then show ?case
    by (auto simp: bgsave_step_def saveToFile_def server_ok_def dbs_ok_def subs_ok_def mod_self_def)
next
  case (stream i w ps e)
  then show ?case using server_ok_streaming [of "mod_repl (m_streams_update (remove1 i)) w" ps]
    by (auto simp: stream_step_def server_ok_def dbs_ok_def subs_ok_def mod_self_def)
next
  case (expiry e now w w' ps)
  then have "w' = w" by (auto simp: expireTime_round_def removeExpireCycle_def split: if_splits)
  then show ?case using expiry by simp
qed (auto intro: accept_ok close_ok)

subsection \<open>Properties\<close>



text \<open>The expiry cycle is safe: it removes only strings whose deadline has passed, and touches
  nothing but strings.\<close>

theorem expiry_cycle_sound:
  "(view store e (removeExpireCycle e now w) d k = view store e w d k \<or>
     (\<exists>v t. view store e w d k = Some v \<and> expire v = Some t \<and> t < now \<and> view store e (removeExpireCycle e now w) d k = None)) \<and>
   only_strings w (removeExpireCycle e now w)"
  using cycle_spec [of e now w] unfolding only_due_def by blast

text \<open>The expiry cycle never runs: the loop of \<open>expireTime\<close> continues only while the server
  is shutting down, and then the cycle returns at once; a round of the coroutine ends it or changes
  nothing.\<close>

theorem expiry_cycle_never_runs:
  "expireTime_round e now w = None \<or> expireTime_round e now w = Some w"
  by (simp add: expireTime_round_def removeExpireCycle_def)

end
