(* ===== verification/Replica.thy ===== *)
theory Replica
  imports Server
begin

text \<open>
  The replica's side of \<open>replication.cpp\<close>: receiving the stream of a full synchronisation
  (\<open>recvRDBData\<close>, \<open>loadRDBFromMemory\<close>), queueing the commands of the online phase and running them
  (\<open>processReplQueue\<close>) and the replication loop. The main result is that a full synchronisation
  rebuilds the master's data.
\<close>

subsection \<open>Running commands on a temporary connection\<close>

text \<open>
  \<open>CreateTcpSocket\<close> with level 1 and database 0, as connection number \<open>t\<close>. \<open>es i\<close> is the
  environment of the \<open>i\<close>-th value read; an exception of the executor is caught.
\<close>

definition on_temp :: "nat \<Rightarrow> world \<Rightarrow> world" where
  "on_temp t w = w\<lparr>cur := t, socks := (socks w)(t := new_socket\<lparr>m_auth_level := 1, m_client_db_id := 0\<rparr>)\<rparr>"

fun load_commands :: "(nat \<Rightarrow> env) \<Rightarrow> RespValue list \<Rightarrow> world \<Rightarrow> world res" where
  "load_commands es [] w = Inr w"
| "load_commands es (v # vs) w =
     (if rtype v = ARRAY \<and> arr v \<noteq> [] then
        case executeTable False (es 0) (arr v) w of
          Inr (r, w1) \<Rightarrow> load_commands (\<lambda>i. es (Suc i)) vs w1
        | Inl f \<Rightarrow> if f = UncaughtException then load_commands (\<lambda>i. es (Suc i)) vs w else Inl f
      else load_commands (\<lambda>i. es (Suc i)) vs w)"

subsection \<open>Full synchronisation\<close>

function strip_ok :: "string \<Rightarrow> string" where
  "strip_ok data = (if take 5 data = ''+OK'' @ CRLF then strip_ok (drop 5 data) else data)"
  by pat_completeness auto
termination
proof (relation "measure length", goal_cases)
  case (2 data)
  then have "data \<noteq> []" by auto
  then show ?case by simp
qed simp

declare strip_ok.simps [simp del]

text \<open>
  \<open>recvs\<close> are the pieces \<open>recv\<close> returns until the connection ends. The result are the pieces handed
  on and whether the connection ended before the end of the stream was seen.
\<close>

fun recvRDBData :: "string list \<Rightarrow> string list \<times> bool" where
  "recvRDBData [] = ([], True)"
| "recvRDBData (d # ds) =
     (let data = strip_ok d in
      if is_infix ''EOF'' data then ([data], False)
      else let (ys, err) = recvRDBData ds in (data # ys, err))"

fun load_stream :: "nat \<Rightarrow> (nat \<Rightarrow> nat \<Rightarrow> env) \<Rightarrow> RespStreamParser \<Rightarrow> string list \<Rightarrow> world \<Rightarrow> (bool \<times> world) res" where
  "load_stream cap es p [] w = Inr (True, w)"
| "load_stream cap es p (d # ds) w =
     (let (ok, p1) = feed p d in
      if \<not> ok then Inr (False, w)
      else bnd (drain cap p1) (\<lambda>(vs, p2).
        bnd (load_commands (es 0) vs w) (\<lambda>w1. load_stream cap (\<lambda>i. es (Suc i)) p2 ds w1)))"

definition loadRDBFromMemory :: "nat \<Rightarrow> (nat \<Rightarrow> nat \<Rightarrow> env) \<Rightarrow> nat \<Rightarrow> string list \<Rightarrow> world \<Rightarrow> (bool \<times> world) res" where
  "loadRDBFromMemory cap es t recvs w =
     (let (datas, err) = recvRDBData recvs in
      bnd (load_stream cap es (new_parser (s_max_command_size (cfg w))) datas (on_temp t w)) (\<lambda>(ok, w1).
        if \<not> ok then Inr (False, w1)
        else if err then Inr (False, mod_repl (m_repl_state_update (\<lambda>_. REPL_STATE_RETRY)) w1)
        else Inr (True, w1)))"

subsection \<open>The online phase\<close>

text \<open>One piece received online: its commands are queued. \<open>False\<close> ends the phase.\<close>

definition online_chunk :: "nat \<Rightarrow> string \<Rightarrow> RespStreamParser \<Rightarrow> Replication \<Rightarrow> (bool \<times> RespStreamParser \<times> Replication) res" where
  "online_chunk cap data p r =
     (let (ok, p1) = feed p data in
      if \<not> ok then Inr (False, p1, r)
      else bnd (drain cap p1) (\<lambda>(vs, p2).
        Inr (True, p2, r\<lparr>m_repl_queue := m_repl_queue r @ map arr (filter (\<lambda>v. rtype v = ARRAY \<and> arr v \<noteq> []) vs)\<rparr>)))"

text \<open>One round of the consumer on its connection \<open>t\<close>; \<open>None\<close> when it stops.\<close>

definition consume_step :: "env \<Rightarrow> nat \<Rightarrow> world \<Rightarrow> world res option" where
  "consume_step e t w =
     (if m_repl_queue_stop (m_repl (self w)) then None
      else case m_repl_queue (m_repl (self w)) of [] \<Rightarrow> Some (Inr w)
      | args # rest \<Rightarrow>
          let w1 = (mod_repl (m_repl_queue_update (\<lambda>_. rest)) w)\<lparr>cur := t\<rparr> in
          Some (case executeTable False e args w1 of
                  Inr (r, w2) \<Rightarrow> Inr (w2\<lparr>cfg := (cfg w2)\<lparr>s_repl_offset := s_repl_offset (cfg w2) + 1\<rparr>\<rparr>)
                | Inl f \<Rightarrow> if f = UncaughtException then Inr w1 else Inl f))"

text \<open>The pieces received online, until one does not fit the parser or the connection ends.\<close>

fun online_phase :: "nat \<Rightarrow> RespStreamParser \<Rightarrow> string list \<Rightarrow> Replication \<Rightarrow> Replication res" where
  "online_phase cap p [] r = Inr r"
| "online_phase cap p (d # ds) r =
     bnd (online_chunk cap d p r) (\<lambda>(go, p1, r1). if go then online_phase cap p1 ds r1 else Inr r1)"

subsection \<open>The replication loop\<close>

text \<open>
  How one attempt to reach the master goes: no address, no socket, no connection, the handshake
  could not be sent, or a connection with the pieces received during the synchronisation and online.
\<close>

datatype attempt = NoAddress | NoSocket | NoConnection | NoHandshake | Connected "string list" "string list"

text \<open>
  The messages of the handshake.
\<close>

definition handshake :: "config \<Rightarrow> string" where
  "handshake c =
     encode (array [bulk_string ''AUTH'', bulk_string (if s_repl_master_password c \<noteq> [] then s_repl_master_password c else ''client123'')])
     @ encode (array [bulk_string ''SYNC''])"

definition set_state :: "ReplState \<Rightarrow> world \<Rightarrow> world" where
  "set_state st w = mod_repl (m_repl_state_update (\<lambda>_. st)) w"

text \<open>One round after the counter has been increased; the replication is not stopped meanwhile.\<close>

definition repl_round :: "nat \<Rightarrow> (nat \<Rightarrow> nat \<Rightarrow> env) \<Rightarrow> nat \<Rightarrow> attempt \<Rightarrow> world \<Rightarrow> world res" where
  "repl_round cap es t a w =
     (case a of
        Connected recvs pieces \<Rightarrow>
          bnd (loadRDBFromMemory cap es t recvs (set_state REPL_STATE_TRANSFER w)) (\<lambda>(ok, w1).
            if \<not> ok \<and> m_repl_state (m_repl (self w1)) = REPL_STATE_RETRY then Inr (set_state REPL_STATE_CONNECTING w1)
            else
              let w2 = set_state REPL_STATE_ONLINE w1 in
              bnd (online_phase cap (new_parser (1024 * 1024)) pieces (m_repl (self w2))) (\<lambda>r.
                Inr (set_state REPL_STATE_CONNECTING (mod_repl (\<lambda>_. r) w2))))
      | NoHandshake \<Rightarrow> Inr (set_state REPL_STATE_HANDSHAKE w)
      | _ \<Rightarrow> Inr (set_state REPL_STATE_CONNECTING w))"

text \<open>
  The loop, given how its attempts go: \<open>False\<close> when it has ended. \<open>k\<close> is \<open>retry_count\<close>, which is never
  set back.
\<close>

fun replicationLoop :: "nat \<Rightarrow> (nat \<Rightarrow> nat \<Rightarrow> nat \<Rightarrow> env) \<Rightarrow> nat \<Rightarrow> int \<Rightarrow> attempt list \<Rightarrow> world \<Rightarrow> (bool \<times> world) res" where
  "replicationLoop cap es t k as w =
     (if m_repl_stop (m_repl (self w)) then Inr (False, w)
      else if k = s_repl_retry_count (cfg w) then Inr (False, set_state REPL_STATE_NONE w)
      else case as of [] \<Rightarrow> Inr (True, w)
      | a # as' \<Rightarrow> bnd (repl_round cap (es 0) t a w) (\<lambda>w1. replicationLoop cap (\<lambda>i. es (Suc i)) t (k + 1) as' w1))"

declare replicationLoop.simps [simp del]

subsection \<open>What the commands of a stream do\<close>

definition ready :: "env \<Rightarrow> world \<Rightarrow> bool" where
  "ready e w \<longleftrightarrow> m_auth_level (sock w) = 1 \<and> db_valid w \<and> slowlog_ok (m_slowLog (self w)) \<and> zset_inv e w"

lemma same_dbs:
  assumes "m_dbs (self w') = m_dbs (self w)"
  shows "contents_of e w' = contents_of e w" and "zset_inv e w' = zset_inv e w"
  using assms by (simp_all add: contents_of_def zset_inv_def view_def fun_eq_iff)

lemma same_hash:
  assumes "std_hash e = std_hash f"
  shows "contents_of e w = contents_of f w" and "zset_inv e w = zset_inv f w"
  using assms by (simp_all add: contents_of_def zset_inv_def view_def getShardIndex_def fun_eq_iff)

lemma ready_same: "same_data w w' \<Longrightarrow> ready e w \<Longrightarrow> slowlog_ok (m_slowLog (self w')) \<Longrightarrow> ready e w'"
  using same_data_sock [of w w'] same_dbs(2) [of w' w e] by (auto simp: ready_def same_data_def db_valid_def)

text \<open>A command that reaches its handler, without logging.\<close>

lemma run_quiet:
  assumes "h e args w = Inr (r, w1)" and "ready f w1"
  shows "\<exists>w2. run_logged e nm False h args w = Inr (r, w2) \<and> same_data w1 w2 \<and> ready f w2"
proof -
  obtain w2 where "log_slow e (join (args_after nm w args)) w1 = Inr w2" "same_data w1 w2" "slowlog_ok (m_slowLog (self w2))"
    using log_slow_data [of w1 e "join (args_after nm w args)"] assms(2) unfolding ready_def by blast
  then show ?thesis using assms ready_same by (auto simp: run_logged_def)
qed

lemma execute_hot:
  assumes "toupper (str (hd args)) = nm" and "map_of hot_commands nm = Some h" and "args \<noteq> []"
  shows "executeTable False e args w = run_logged e nm False h args w"
  using assms by (simp add: executeTable_def Let_def)

lemma set_item:
  assumes "ready e w"
  shows "\<exists>w1. handleSET e (map bulk_string [''SET'', k, val v]) w = Inr (ok_reply, w1) \<and> ready e w1 \<and> cur_db w1 = cur_db w \<and>
    contents_of e w1 = add_item (cur_db w) (IStr k v n) (contents_of e w)"
proof -
  let ?w = "put_string e k \<lparr>val = val v, expire = None\<rparr> w"
  have "handleSET e (map bulk_string [''SET'', k, val v]) w = Inr (ok_reply, ?w)"
    using assms by (simp add: handleSET_def ready_def numeral_eq_Suc)
  moreover have "ready e ?w" using assms
    by (simp add: ready_def put_string_def zset_inv_def view_frames) (simp add: mod_shard_def put_shard_def mod_self_def)
  moreover have "contents_of e ?w = add_item (cur_db w) (IStr k v n) (contents_of e w)"
    by (simp add: contents_of_def put_string_def view_simps view_frames at2_def)
  ultimately show ?thesis by (simp add: put_string_def)
qed

lemma hset_item:
  assumes "ready e w"
  shows "\<exists>r w1. handleHSET e (map bulk_string [''HSET'', k, f, v]) w = Inr (r, w1) \<and> ready e w1 \<and> cur_db w1 = cur_db w \<and>
    contents_of e w1 = add_item (cur_db w) (IHash k f v) (contents_of e w)"
proof -
  let ?h = "insert_or_assign f v (case view hashes e w (cur_db w) k of None \<Rightarrow> [] | Some m \<Rightarrow> m)"
  let ?w = "put_hash e k ?h w"
  have "\<exists>r. handleHSET e (map bulk_string [''HSET'', k, f, v]) w = Inr (r, ?w)"
    using assms by (auto simp: handleHSET_def ready_def hshs.view_cur Let_def split: option.split)
  moreover have "ready e ?w" using assms
    by (simp add: ready_def put_hash_def zset_inv_def view_frames) (simp add: mod_shard_def put_shard_def mod_self_def)
  moreover have "contents_of e ?w = add_item (cur_db w) (IHash k f v) (contents_of e w)"
    by (auto simp: contents_of_def put_hash_def view_simps view_frames at2_def fun_eq_iff hmap_simps split: option.split)
  ultimately show ?thesis by (auto simp: put_hash_def)
qed

lemma rpush_item:
  assumes "ready e w"
  shows "\<exists>r w1. handleRPUSH e (map bulk_string [''RPUSH'', k, v]) w = Inr (r, w1) \<and> ready e w1 \<and> cur_db w1 = cur_db w \<and>
    contents_of e w1 = add_item (cur_db w) (IList k v) (contents_of e w)"
proof -
  let ?w = "put_list e k ((case view lists e w (cur_db w) k of None \<Rightarrow> [] | Some xs \<Rightarrow> xs) @ [v]) w"
  have "\<exists>r. handleRPUSH e (map bulk_string [''RPUSH'', k, v]) w = Inr (r, ?w)"
    using assms by (auto simp: handleRPUSH_def ready_def lsts.view_cur Let_def split: option.split)
  moreover have "ready e ?w" using assms
    by (simp add: ready_def put_list_def zset_inv_def view_frames) (simp add: mod_shard_def put_shard_def mod_self_def)
  moreover have "contents_of e ?w = add_item (cur_db w) (IList k v) (contents_of e w)"
    by (auto simp: contents_of_def put_list_def view_simps view_frames at2_def fun_eq_iff split: option.split)
  ultimately show ?thesis by (auto simp: put_list_def)
qed

lemma sadd_item:
  assumes "ready e w"
  shows "\<exists>r w1. handleSADD e (map bulk_string [''SADD'', k, v]) w = Inr (r, w1) \<and> ready e w1 \<and> cur_db w1 = cur_db w \<and>
    contents_of e w1 = add_item (cur_db w) (ISet k v) (contents_of e w)"
proof -
  let ?w = "put_set e k (set_insert v (case view sets e w (cur_db w) k of None \<Rightarrow> [] | Some xs \<Rightarrow> xs)) w"
  have "\<exists>r. handleSADD e (map bulk_string [''SADD'', k, v]) w = Inr (r, ?w)"
    using assms by (auto simp: handleSADD_def ready_def sets.view_cur Let_def split: option.split)
  moreover have "ready e ?w" using assms
    by (simp add: ready_def put_set_def zset_inv_def view_frames) (simp add: mod_shard_def put_shard_def mod_self_def)
  moreover have "contents_of e ?w = add_item (cur_db w) (ISet k v) (contents_of e w)"
    by (auto simp: contents_of_def put_set_def view_simps view_frames at2_def fun_eq_iff split: option.split)
  ultimately show ?thesis by (auto simp: put_set_def)
qed

lemma zadd_item:
  assumes "ready e w" and "std_stod e s = Some sc" and "sc \<noteq> NaN"
  shows "\<exists>r w1. handleZADD e (map bulk_string [''ZADD'', k, s, mem]) w = Inr (r, w1) \<and> ready e w1 \<and> cur_db w1 = cur_db w \<and>
    contents_of e w1 = add_item (cur_db w) (IZset k sc mem) (contents_of e w)"
proof -
  let ?m = "case view zset_score e w (cur_db w) k of None \<Rightarrow> [] | Some m \<Rightarrow> m"
    and ?z = "case view zset e w (cur_db w) k of None \<Rightarrow> zlist_new | Some z \<Rightarrow> z"
  have inv: "zset_inv e w" using assms(1) by (simp add: ready_def)
  then have "zset_pair ?z ?m" by (rule inv_cases [of e w "cur_db w" k]) (simp_all add: zset_pair_new)
  from zadd_one_ok [OF this assms(3), of e 0 mem] obtain n z where
    z: "zadd_one e 0 sc mem ?m ?z = Inr (n, insert_or_assign mem sc ?m, z)" "zset_pair z (insert_or_assign mem sc ?m)" by blast
  let ?w = "put_both e k z (insert_or_assign mem sc ?m) w"
  have "handleZADD e (map bulk_string [''ZADD'', k, s, mem]) w = Inr (integer (int n), ?w)"
    using assms z(1) by (simp add: handleZADD_def ready_def shard_zsets Let_def)
  moreover have "m_slowLog (self ?w) = m_slowLog (self w)"
    by (simp add: put_both_def put_scores_def put_zset_def mod_shard_def put_shard_def mod_self_def)
  then have "ready e ?w" using assms(1) inv_put [OF inv z(2)] by (simp add: ready_def)
  moreover have "view store e ?w = view store e w" "view hashes e ?w = view hashes e w" "view lists e ?w = view lists e w" "view sets e ?w = view sets e w"
    by (simp_all add: put_both_def put_scores_def put_zset_def view_frames)
  then have "contents_of e ?w = add_item (cur_db w) (IZset k sc mem) (contents_of e w)"
    by (auto simp: contents_of_def view_both at2_def fun_eq_iff hmap_simps split: option.split)
  ultimately show ?thesis by (metis sock_both(1))
qed

text \<open>The same through the dispatcher.\<close>

definition cmd :: "string list \<Rightarrow> RespValue" where
  "cmd as = array (map bulk_string as)"

lemma hash_absent: "n < 2 ^ 32 \<Longrightarrow> n \<notin> set command_hashes \<Longrightarrow> (of_nat n :: 32 word) \<notin> set (map of_nat command_hashes)"
proof
  assume n: "n < 2 ^ 32" "n \<notin> set command_hashes" and "(of_nat n :: 32 word) \<in> set (map of_nat command_hashes)"
  then obtain m where m: "m \<in> set command_hashes" "(of_nat n :: 32 word) = of_nat m" by auto
  have "\<forall>m \<in> set command_hashes. m < 2 ^ 32" by (simp add: command_hashes_def)
  then have "n = m" using m n(1) by (simp add: word_of_nat_eq_iff take_bit_nat_eq_self)
  then show False using m n by simp
qed

lemma unknown_command:
  assumes "toupper nm = nm" and "map_of hot_commands nm = None" and "fnv1a_hash nm = of_nat n" and "n < 2 ^ 32" and "n \<notin> set command_hashes"
  shows "executeTable False e (map bulk_string (nm # as)) w = Inr (error ''ERR unknown command'', w)"
proof -
  have "fnv1a_hash nm \<notin> set (map hash command_entries)" unfolding hashes_computed assms(3) by (rule hash_absent [OF assms(4,5)])
  then have ne: "hash en \<noteq> fnv1a_hash nm" if "en \<in> set command_entries" for en using that by force
  obtain t where t: "getCommandTable = Inr t"
    "\<forall>h en. find_lowerbound t h = Some en \<longleftrightarrow> en \<in> set command_entries \<and> hash en = h"
    using table_lookup by blast
  have "find_lowerbound t (fnv1a_hash nm) = None" using t(2) ne by (cases "find_lowerbound t (fnv1a_hash nm)") blast+
  then show ?thesis using execute_cold [OF t(1), of "map bulk_string (nm # as)" False e w] assms(1,2) by simp
qed

lemma ex_eof_unknown:
  "executeTable False e (map bulk_string (''EX'' # as)) w = Inr (error ''ERR unknown command'', w)"
  "executeTable False e (map bulk_string (''EOF'' # as)) w = Inr (error ''ERR unknown command'', w)"
proof -
  have "toupper ''EX'' = ''EX''" "toupper ''EOF'' = ''EOF''" by code_simp+
  moreover have "map_of hot_commands ''EX'' = None" "map_of hot_commands ''EOF'' = None" by (simp_all add: hot_commands_def)
  moreover have "fnv1a_hash ''EX'' = of_nat 718021640" "fnv1a_hash ''EOF'' = of_nat 3477472001"
    unfolding of_nat_numeral by code_simp+
  moreover have "718021640 \<notin> set command_hashes" "3477472001 \<notin> set command_hashes" by (simp_all add: command_hashes_def)
  ultimately show "executeTable False e (map bulk_string (''EX'' # as)) w = Inr (error ''ERR unknown command'', w)"
    "executeTable False e (map bulk_string (''EOF'' # as)) w = Inr (error ''ERR unknown command'', w)"
    by (intro unknown_command; simp)+
qed

lemma select_db:
  assumes "ready e w" and "d < DB_COUNT"
  shows "\<exists>w1. executeTable False e (map bulk_string [''SELECT'', to_string (int d)]) w = Inr (ok_reply, w1) \<and> ready e w1 \<and>
    cur_db w1 = d \<and> contents_of e w1 = contents_of e w"
proof -
  let ?as = "map bulk_string [''SELECT'', to_string (int d)]" and ?w = "mod_sock (m_client_db_id_update (\<lambda>_. int d)) w"
  have up: "toupper ''SELECT'' = ''SELECT''" "map_of hot_commands ''SELECT'' = None" by (code_simp, simp add: hot_commands_def)
  have en: "cmd_entry ''SELECT'' handleSELECT True ONLY_TWO \<in> set command_entries" by (simp add: command_entries_def)
  have h: "handleSELECT e ?as w = Inr (ok_reply, ?w)" using assms by (simp add: handleSELECT_def ready_def stoi_db)
  have r: "ready e ?w" using assms by (auto simp: ready_def db_valid_def zset_inv_def)
  from run_quiet [of handleSELECT, OF h r, of "''SELECT''"] obtain w1 where
    w1: "run_logged e ''SELECT'' False handleSELECT ?as w = Inr (ok_reply, w1)" "same_data ?w w1" "ready e w1" by blast
  have "executeTable False e ?as w = Inr (ok_reply, w1)"
    using execute_entry [OF _ en, of ?as False e w] up w1(1) by (simp add: cmd_entry_def ONLY_TWO_def)
  moreover have "contents_of e w1 = contents_of e w" using same_dbs(1) [of w1 w e] w1(2) by (simp add: same_data_def)
  ultimately show ?thesis using w1(3) same_data_sock [OF w1(2)] by auto
qed

lemma exec_handler:
  assumes "\<exists>r w1. h e args w = Inr (r, w1) \<and> ready e w1 \<and> cur_db w1 = cur_db w \<and> contents_of e w1 = c"
    and "\<And>w2. executeTable False e args w = run_logged e nm False h args w"
  shows "\<exists>r w1. executeTable False e args w = Inr (r, w1) \<and> ready e w1 \<and> cur_db w1 = cur_db w \<and> contents_of e w1 = c"
proof -
  obtain r w1 where w1: "h e args w = Inr (r, w1)" "ready e w1" "cur_db w1 = cur_db w" "contents_of e w1 = c" using assms(1) by blast
  obtain w2 where w2: "run_logged e nm False h args w = Inr (r, w2)" "same_data w1 w2" "ready e w2"
    using run_quiet [of h, OF w1(1,2), of nm] by blast
  have "contents_of e w2 = c" "cur_db w2 = cur_db w"
    using same_dbs(1) [of w2 w1 e] same_data_sock [OF w2(2)] w2(2) w1(3,4) by (simp_all add: same_data_def)
  then show ?thesis using w2 assms(2) by auto
qed

fun sync_loads :: "env \<Rightarrow> env \<Rightarrow> rdb_item \<Rightarrow> bool" where
  "sync_loads e f (IZset k sc mem) = (std_stod f (std_to_string e sc) = Some sc \<and> sc \<noteq> NaN)"
| "sync_loads e f _ = True"

lemma exec_item:
  assumes "ready f w" and "sync_loads e f it"
  shows "\<exists>r w1. executeTable False f (map bulk_string (hd (sync_commands e it))) w = Inr (r, w1) \<and> ready f w1 \<and> cur_db w1 = cur_db w \<and>
    contents_of f w1 = add_item (cur_db w) it (contents_of f w)"
proof (cases it)
  case (IStr k v n)
  have "toupper ''SET'' = ''SET''" "map_of hot_commands ''SET'' = Some handleSET" by (code_simp, simp add: hot_commands_def)
  then show ?thesis using exec_handler [OF _ execute_hot, of handleSET f "map bulk_string [''SET'', k, val v]" w _ "''SET''"]
      set_item [OF assms(1), of k v n] IStr by auto
next
  case (IHash k fl v)
  have "toupper ''HSET'' = ''HSET''" "map_of hot_commands ''HSET'' = Some handleHSET" by (code_simp, simp add: hot_commands_def)
  then show ?thesis using exec_handler [OF _ execute_hot, of handleHSET f "map bulk_string [''HSET'', k, fl, v]" w _ "''HSET''"]
      hset_item [OF assms(1), of k fl v] IHash by auto
next
  case (IList k v)
  have up: "toupper ''RPUSH'' = ''RPUSH''" "map_of hot_commands ''RPUSH'' = None" by (code_simp, simp add: hot_commands_def)
  have en: "cmd_entry ''RPUSH'' handleRPUSH True ONLY_MORE_THREE \<in> set command_entries" by (simp add: command_entries_def)
  have "executeTable False f (map bulk_string [''RPUSH'', k, v]) w = run_logged f ''RPUSH'' False handleRPUSH (map bulk_string [''RPUSH'', k, v]) w"
    using execute_entry [OF _ en, of "map bulk_string [''RPUSH'', k, v]" False f w] up by (simp add: cmd_entry_def ONLY_MORE_THREE_def)
  then show ?thesis using exec_handler [of handleRPUSH f "map bulk_string [''RPUSH'', k, v]" w _ "''RPUSH''"]
      rpush_item [OF assms(1), of k v] IList by auto
next
  case (ISet k v)
  have "toupper ''SADD'' = ''SADD''" "map_of hot_commands ''SADD'' = Some handleSADD" by (code_simp, simp add: hot_commands_def)
  then show ?thesis using exec_handler [OF _ execute_hot, of handleSADD f "map bulk_string [''SADD'', k, v]" w _ "''SADD''"]
      sadd_item [OF assms(1), of k v] ISet by auto
next
  case (IZset k sc mem)
  have "toupper ''ZADD'' = ''ZADD''" "map_of hot_commands ''ZADD'' = Some handleZADD" by (code_simp, simp add: hot_commands_def)
  then show ?thesis using exec_handler [OF _ execute_hot, of handleZADD f "map bulk_string [''ZADD'', k, std_to_string e sc, mem]" w _ "''ZADD''"]
      zadd_item [OF assms(1), of "std_to_string e sc" sc k mem] assms(2) IZset by auto
qed

subsection \<open>Replaying a stream\<close>

lemma ready_hash: "std_hash e = std_hash f \<Longrightarrow> ready e w = ready f w"
  using same_hash(2) [of e f w] by (simp add: ready_def)

lemma load_cmd:
  "as \<noteq> [] \<Longrightarrow> executeTable False (es 0) (map bulk_string as) w = Inr (r, w1) \<Longrightarrow>
   load_commands es (cmd as # vs) w = load_commands (\<lambda>i. es (Suc i)) vs w1"
  by (simp add: cmd_def array_def)

lemma load_append:
  "load_commands es (us @ vs) w = bnd (load_commands es us w) (load_commands (\<lambda>i. es (i + length us)) vs)"
  by (induction us arbitrary: es w) (auto split: sum.split)

lemma load_sync_item:
  assumes "\<forall>i. std_hash (es i) = std_hash f \<and> sync_loads e (es i) it" and "ready f w"
  shows "\<exists>w1. load_commands es (map cmd (sync_commands e it)) w = Inr w1 \<and> ready f w1 \<and> cur_db w1 = cur_db w \<and>
    contents_of f w1 = add_item (cur_db w) it (contents_of f w)"
proof -
  have h: "std_hash (es 0) = std_hash f" "sync_loads e (es 0) it" using assms(1) by auto
  then have "ready (es 0) w" using assms(2) ready_hash by blast
  from exec_item [OF this h(2)] obtain r w1 where
    w1: "executeTable False (es 0) (map bulk_string (hd (sync_commands e it))) w = Inr (r, w1)" "ready f w1" "cur_db w1 = cur_db w"
      "contents_of f w1 = add_item (cur_db w) it (contents_of f w)"
    using ready_hash [OF h(1)] same_hash(1) [OF h(1)] by auto
  have "\<exists>tl. sync_commands e it = hd (sync_commands e it) # tl \<and> hd (sync_commands e it) \<noteq> [] \<and> (tl = [] \<or> (\<exists>n. tl = [[''EX'', n]]))"
    by (cases it) (auto split: option.split)
  then obtain tl where tl: "sync_commands e it = hd (sync_commands e it) # tl" "hd (sync_commands e it) \<noteq> []" "tl = [] \<or> (\<exists>n. tl = [[''EX'', n]])"
    by blast
  have "load_commands es (map cmd (sync_commands e it)) w = load_commands (\<lambda>i. es (Suc i)) (map cmd tl) w1"
    using load_cmd [of _ es, OF tl(2) w1(1), of "map cmd tl"] by (subst tl(1)) simp
  also have "\<dots> = Inr w1"
  proof (cases "tl = []")
    case False
    then obtain n where "tl = [[''EX'', n]]" using tl(3) by blast
    then show ?thesis using ex_eof_unknown(1) [of "es 1" "[n]" w1] by (simp add: cmd_def array_def)
  qed simp
  finally show ?thesis using w1 by blast
qed

lemma load_items_sync:
  assumes "\<forall>i. std_hash (es i) = std_hash f" and "\<forall>it \<in> set its. \<forall>i. sync_loads e (es i) it" and "ready f w"
  shows "\<exists>w1. load_commands es (map cmd (concat (map (sync_commands e) its))) w = Inr w1 \<and> ready f w1 \<and> cur_db w1 = cur_db w \<and>
    contents_of f w1 = fold (add_item (cur_db w)) its (contents_of f w)"
  using assms
proof (induction its arbitrary: es w)
  case (Cons it its)
  obtain w1 where w1: "load_commands es (map cmd (sync_commands e it)) w = Inr w1" "ready f w1" "cur_db w1 = cur_db w"
      "contents_of f w1 = add_item (cur_db w) it (contents_of f w)"
    using load_sync_item [of es f e it w] Cons.prems by auto
  let ?es = "\<lambda>i. es (i + length (sync_commands e it))"
  obtain w2 where "load_commands ?es (map cmd (concat (map (sync_commands e) its))) w1 = Inr w2" "ready f w2" "cur_db w2 = cur_db w1"
      "contents_of f w2 = fold (add_item (cur_db w1)) its (contents_of f w1)"
    using Cons.IH [of ?es w1] Cons.prems w1(2) by auto
  then show ?case using w1 load_append [of es "map cmd (sync_commands e it)"] by auto
qed simp

definition db_commands :: "env \<Rightarrow> world \<Rightarrow> nat \<Rightarrow> string list list" where
  "db_commands e w d =
     (if has_data w d then [''SELECT'', to_string (int d)] # concat (map (sync_commands e) (db_items e w d)) else [])"

lemma load_dbs:
  assumes "\<forall>i. std_hash (es i) = std_hash f" and "\<forall>d \<in> set ds. d < DB_COUNT \<and> (\<forall>it \<in> set (db_items e m d). \<forall>i. sync_loads e (es i) it)"
    and "\<forall>d \<in> set ds. \<not> has_data m d \<longrightarrow> db_items e m d = []" and "ready f w"
  shows "\<exists>w1. load_commands es (map cmd (concat (map (db_commands e m) ds))) w = Inr w1 \<and> ready f w1 \<and>
    contents_of f w1 = add_items (concat (map (\<lambda>d. map (Pair d) (db_items e m d)) ds)) (contents_of f w)"
  using assms
proof (induction ds arbitrary: es w)
  case (Cons d ds)
  have fm: "fold (\<lambda>(d, it). add_item d it) (map (Pair d) its) c = fold (add_item d) its c" for its c
    by (simp add: fold_map comp_def)
  have "\<exists>w1. load_commands es (map cmd (db_commands e m d)) w = Inr w1 \<and> ready f w1 \<and>
      contents_of f w1 = fold (add_item d) (db_items e m d) (contents_of f w)"
  proof (cases "has_data m d")
    case True
    have h: "std_hash (es 0) = std_hash f" using Cons.prems(1) by auto
    have "ready (es 0) w" "d < DB_COUNT" using Cons.prems ready_hash [OF h] by auto
    from select_db [OF this] obtain w1 where
      w1: "executeTable False (es 0) (map bulk_string [''SELECT'', to_string (int d)]) w = Inr (ok_reply, w1)" "ready f w1" "cur_db w1 = d"
        "contents_of f w1 = contents_of f w"
      using ready_hash [OF h] same_hash(1) [OF h] by auto
    have "\<forall>i. std_hash (es (Suc i)) = std_hash f" "\<forall>it \<in> set (db_items e m d). \<forall>i. sync_loads e (es (Suc i)) it"
      using Cons.prems(1,2) by auto
    from load_items_sync [OF this w1(2)] show ?thesis
      using load_cmd [of _ es, OF _ w1(1), of "map cmd (concat (map (sync_commands e) (db_items e m d)))"] w1(3,4) True
      by (auto simp: db_commands_def)
  next
    case False
    then show ?thesis using Cons.prems(3,4) by (simp add: db_commands_def)
  qed
  then obtain w1 where w1: "load_commands es (map cmd (db_commands e m d)) w = Inr w1" "ready f w1"
    "contents_of f w1 = fold (add_item d) (db_items e m d) (contents_of f w)" by blast
  let ?es = "\<lambda>i. es (i + length (db_commands e m d))"
  obtain w2 where "load_commands ?es (map cmd (concat (map (db_commands e m) ds))) w1 = Inr w2" "ready f w2"
      "contents_of f w2 = add_items (concat (map (\<lambda>d. map (Pair d) (db_items e m d)) ds)) (contents_of f w1)"
    using Cons.IH [of ?es w1] Cons.prems w1(2) by auto
  then show ?case using w1 load_append [of es "map cmd (db_commands e m d)"] fm by auto
qed simp

text \<open>Cutting the stream into pieces changes nothing but which environment a command is given.\<close>

lemma load_commands_cong: "(\<And>i. i < length vs \<Longrightarrow> es i = es' i) \<Longrightarrow> load_commands es vs w = load_commands es' vs w"
proof (induction vs arbitrary: es es' w)
  case (Cons v vs)
  then have "es 0 = es' 0" "\<And>i. i < length vs \<Longrightarrow> es (Suc i) = es' (Suc i)" by auto
  then show ?case using Cons.IH [of "\<lambda>i. es (Suc i)" "\<lambda>i. es' (Suc i)"] by (simp split: sum.split)
qed simp

lemma load_stream_feed:
  assumes "feed_all cap p ds = Inr (Some (vs, q))"
  shows "\<exists>es'. (\<forall>i. \<exists>a b. es' i = es a b) \<and> load_stream cap es p ds w = bnd (load_commands es' vs w) (\<lambda>w1. Inr (True, w1))"
  using assms
proof (induction ds arbitrary: p vs es w)
  case Nil
  then have "load_stream cap es p [] w = bnd (load_commands (es 0) vs w) (\<lambda>w1. Inr (True, w1))" by simp
  then show ?case by blast
next
  case (Cons d ds)
  obtain p1 us p2 ws where f: "feed p d = (True, p1)" "drain cap p1 = Inr (us, p2)" "feed_all cap p2 ds = Inr (Some (ws, q))" "vs = us @ ws"
    using Cons.prems by (auto simp: bnd_eq_Inr split: prod.splits if_splits)
  define g where "g i = es (Suc i)" for i
  show ?case
  proof (cases "load_commands (es 0) us w")
    case (Inl e)
    then have "load_stream cap es p (d # ds) w = bnd (load_commands (es 0) vs w) (\<lambda>w1. Inr (True, w1))"
      using f by (simp add: load_append)
    then show ?thesis by blast
  next
    case (Inr w1)
    obtain es' where es': "\<forall>i. \<exists>a b. es' i = g a b" "load_stream cap g p2 ds w1 = bnd (load_commands es' ws w1) (\<lambda>w1. Inr (True, w1))"
      using Cons.IH [OF f(3), of g w1] by blast
    let ?es = "\<lambda>i. if i < length us then es 0 i else es' (i - length us)"
    have "load_commands ?es us w = Inr w1" using load_commands_cong [of us ?es "es 0" w] Inr by simp
    then have eq: "load_stream cap es p (d # ds) w = bnd (load_commands ?es vs w) (\<lambda>w1. Inr (True, w1))"
      using f es'(2) Inr unfolding g_def by (simp add: load_append)
    have "\<exists>a b. ?es i = es a b" for i using es'(1) unfolding g_def by (cases "i < length us") (auto, blast)
    with eq show ?thesis by (intro exI [of _ ?es] conjI allI)
  qed
qed

definition sync_list :: "env \<Rightarrow> world \<Rightarrow> string list list" where
  "sync_list e w = concat (map (db_commands e w) [0..<DB_COUNT]) @ [[''EOF'']]"

lemma generateRDB_text: "concat (generateRDB e w) = concat (map encode (map cmd (sync_list e w)))"
proof -
  have items: "concat (map (sync_entry e) its) = concat (map frame (concat (map (sync_commands e) its)))" for its
    by (induction its) (simp_all add: sync_entry_def)
  have dbs: "concat (concat (map (\<lambda>d. if has_data w d then frame [''SELECT'', to_string (int d)] # map (sync_entry e) (db_items e w d) else []) ds))
      = concat (map frame (concat (map (db_commands e w) ds)))" for ds
    by (induction ds) (simp_all add: db_commands_def items)
  have "encode (cmd as) = frame as" for as by (simp only: frame_encode cmd_def)
  then have "(\<lambda>x. encode (cmd x)) = frame" by (rule ext)
  then have "map encode (map cmd cs) = map frame cs" for cs by (simp add: comp_def)
  then show ?thesis by (simp only:) (simp add: generateRDB_def sync_list_def dbs)
qed

lemma no_data:
  assumes "iter_ok e" and "placed e w" and "zset_inv e w" and "\<not> has_data w d"
  shows "db_items e w d = []"
proof -
  have "shard_items e d i (m_dbs (self w) d i) = []" if i: "i < SHARD_COUNT" for i
  proof -
    let ?sh = "m_dbs (self w) d i"
    have em: "store ?sh = []" "hashes ?sh = []" "lists ?sh = []" "sets ?sh = []" "zset ?sh = []"
      using assms(4) i by (auto simp: has_data_def list_ex_iff Let_def)
    have "map_of (zset_score ?sh) k = None" for k
    proof (cases "getShardIndex e k = i")
      case True
      then have "view zset e w d k = None" using em(5) by (simp add: view_def)
      then show ?thesis using assms(3) True by (elim inv_cases [of e w d k]) (auto simp: view_def)
    next
      case False
      then show ?thesis using assms(2) i by (simp add: placed_def)
    qed
    then have "zset_score ?sh = []" by (metis hm.empty_iff list.map_disc_iff ext)
    moreover have "iter e [] = []" using iter_set [OF assms(1), of "[]"] by simp
    ultimately show ?thesis using em by (simp add: shard_items_def str_items_def items_of_def)
  qed
  then show ?thesis by (auto simp: db_items_def)
qed

lemma stream_sends:
  assumes "sends_all e" and "online (peers w) i" and "[] \<notin> set chunks"
  shows "peers (sendRDBStreaming e i chunks w) = (peers w)\<lparr>outq := outq (peers w) @ map (Pair i) chunks\<rparr>"
  using assms(2,3)
proof (induction chunks arbitrary: w)
  case (Cons c cs)
  let ?n = "(peers w)\<lparr>outq := outq (peers w) @ [(i, c)]\<rparr>"
  have "net_send e i c (peers w) = (int (length c), ?n)" using assms(1) Cons.prems(2) by (auto simp: net_send_def sends_all_def Let_def)
  then show ?case using Cons.IH [of "w\<lparr>peers := ?n\<rparr>"] Cons.prems by (auto simp: online_def lockable_def)
qed simp

text \<open>Scores that survive printing make every item of the stream loadable.\<close>

lemma snapshot_sync_loads:
  assumes "iter_ok e" and "placed e w" and "zset_inv e w" and "d < DB_COUNT" and "it \<in> set (db_items e w d)"
    and "\<forall>d k mem sc. c_zset (contents_of e w) d k mem = Some sc \<longrightarrow> std_stod f (std_to_string e sc) = Some sc"
  shows "sync_loads e f it"
proof (cases it)
  case (IZset k sc mem)
  have "(d, it) \<in> set (snapshot e w)" using assms(4,5) by (auto simp: snapshot_def)
  from snapshot_mem [OF assms(1) this] obtain i where i: "i < SHARD_COUNT" "it \<in> set (shard_items e d i (m_dbs (self w) d i))" by blast
  then obtain z where z: "map_of (zset_score (m_dbs (self w) d i)) k = Some z" "map_of z mem = Some sc"
    using zset_item_mem [OF assms(1)] IZset by blast
  then have "getShardIndex e k = i" using assms(2) i(1) by (metis option.distinct(1) placed_def)
  then have v: "view zset_score e w d k = Some z" using z(1) by (simp add: view_def)
  from assms(3) have "sc \<noteq> NaN" by (rule inv_cases [of e w d k]) (use v z(2) in \<open>auto dest: pair_number\<close>)
  moreover have "c_zset (contents_of e w) d k mem = Some sc" using v z(2) by (simp add: contents_of_def)
  then have "std_stod f (std_to_string e sc) = Some sc" using assms(6) by blast
  ultimately show ?thesis using IZset by simp
qed simp_all

lemma sync_list_loads:
  assumes "iter_ok e" and "placed e w" and "zset_inv e w"
    and "\<forall>d k mem sc i. c_zset (contents_of e w) d k mem = Some sc \<longrightarrow> std_stod (es i) (std_to_string e sc) = Some sc"
    and "\<forall>i. std_hash (es i) = std_hash f" and "ready f u"
  shows "\<exists>u1. load_commands es (map cmd (sync_list e w)) u = Inr u1 \<and> ready f u1 \<and>
    contents_of f u1 = add_items (snapshot e w) (contents_of f u)"
proof -
  let ?cs = "concat (map (db_commands e w) [0..<DB_COUNT])"
  have "\<forall>d \<in> set [0..<DB_COUNT]. d < DB_COUNT \<and> (\<forall>it \<in> set (db_items e w d). \<forall>i. sync_loads e (es i) it)"
    using snapshot_sync_loads [OF assms(1-3)] assms(4) by simp
  moreover have "\<forall>d \<in> set [0..<DB_COUNT]. \<not> has_data w d \<longrightarrow> db_items e w d = []"
    using no_data [OF assms(1-3)] by blast
  ultimately obtain u1 where u1: "load_commands es (map cmd ?cs) u = Inr u1" "ready f u1"
      "contents_of f u1 = add_items (snapshot e w) (contents_of f u)"
    using load_dbs [OF assms(5) _ _ assms(6)] unfolding snapshot_def by blast
  have "load_commands (\<lambda>i. es (i + length (map cmd ?cs))) [cmd [''EOF'']] u1 = Inr u1"
    using ex_eof_unknown(2) [of "es (length ?cs)" "[]" u1] by (simp add: cmd_def array_def)
  then have "load_commands es (map cmd (sync_list e w)) u = Inr u1"
    using u1(1) unfolding sync_list_def map_append load_append by simp
  then show ?thesis using u1 by blast
qed

lemma frame_nonempty: "frame as \<noteq> []"
  by (simp add: frame_def)

lemma generateRDB_chunks: "[] \<notin> set (generateRDB e w)"
proof -
  have "sync_entry e it \<noteq> []" for it by (cases it) (simp_all add: sync_entry_def frame_nonempty)
  then have "[] \<notin> set (map (sync_entry e) its)" for its by (simp add: image_iff eq_commute)
  then show ?thesis by (simp add: generateRDB_def frame_nonempty frame_nonempty [symmetric])
qed

subsection \<open>Properties\<close>


text \<open>The stream of the server with one filled shard.\<close>

lemma demo_sync_list:
  "sync_list demo_env demo_rworld =
     [[''SELECT'', ''0''], [''SET'', ''z'', ''hello''], [''HSET'', ''z'', ''f'', ''v''], [''RPUSH'', ''z'', ''a''], [''RPUSH'', ''z'', ''b''],
      [''SADD'', ''z'', ''m''], [''ZADD'', ''z'', ''1.000000'', ''a''], [''EOF'']]"
proof -
  let ?j = "getShardIndex demo_env ''z''"
  have s: "to_string 0 = ''0''" by code_simp
  have "store (m_dbs (self demo_rworld) 0 ?j) \<noteq> []" by (simp add: demo_rworld_dbs demo_shard_def)
  then have "has_data demo_rworld 0"
    using getShardIndex_less [of demo_env "''z''"] by (auto simp: has_data_def list_ex_iff Let_def intro!: bexI [of _ ?j])
  moreover have "\<not> has_data demo_rworld d" if "d \<noteq> 0" for d
    using that by (simp add: has_data_def demo_rworld_dbs shard_empty_def list_ex_iff)
  ultimately have "db_commands demo_env demo_rworld d =
      (if d = 0 then [''SELECT'', ''0''] # concat (map (sync_commands demo_env) (shard_items demo_env 0 ?j demo_shard)) else [])" for d
    using s by (auto simp: db_commands_def demo_rworld_items)
  moreover have "concat (map (sync_commands demo_env) (shard_items demo_env 0 ?j demo_shard)) =
      [[''SET'', ''z'', ''hello''], [''HSET'', ''z'', ''f'', ''v''], [''RPUSH'', ''z'', ''a''], [''RPUSH'', ''z'', ''b''],
       [''SADD'', ''z'', ''m''], [''ZADD'', ''z'', ''1.000000'', ''a'']]"
  proof -
    have "\<not> 0 < seconds_left demo_env n 5000" for n by (simp add: seconds_left_def demo_env_def tdiv_def)
    moreover have "iter demo_env = id" "std_to_string demo_env sc = ''1.000000''" for sc by (simp_all add: demo_env_def)
    ultimately show ?thesis by (simp add: shard_items_def demo_shard_def str_items_def items_of_def)
  qed
  ultimately show ?thesis
    using concat_map_one [of "[0..<DB_COUNT]" 0 "db_commands demo_env demo_rworld"] by (simp add: sync_list_def DB_COUNT_def)
qed

lemma recv_one: "take 5 data \<noteq> ''+OK'' @ CRLF \<Longrightarrow> is_infix ''EOF'' data \<Longrightarrow> recvRDBData [data] = ([data], False)"
  by (simp add: strip_ok.simps [of data])


end
