(* ===== verification/ReplicaLoop.thy ===== *)
theory ReplicaLoop
  imports Replica
begin

text \<open>
  The replica over time: how the replication loop of \<open>replication.cpp\<close> ends, the online phase as a
  step relation in which the receiving thread, the consumer and the rest of the server interleave,
  and what a log shared by clients on several databases replays to.
\<close>

subsection \<open>Giving up\<close>

text \<open>
  An attempt that ends without changing the data: no connection, a connection that ends at once, or a
  synchronisation with an empty master.
\<close>

fun brief :: "attempt \<Rightarrow> bool" where
  "brief (Connected recvs pieces) \<longleftrightarrow> (recvs = [] \<or> recvs = [frame [''EOF'']]) \<and> pieces = []"
| "brief _ \<longleftrightarrow> True"

lemma eof_frame: "frame [''EOF''] = encode (cmd [''EOF''])"
  by (simp only: frame_encode cmd_def)

lemma eof_value: "1 \<le> cap \<Longrightarrow> resp_wf cap (cmd [''EOF''])"
  by (simp add: cmd_def array_def bulk_string_def line_ok_def int64_ok_def CR_def)

lemma load_eof:
  assumes "1 \<le> cap" and "13 \<le> s_max_command_size (cfg w)"
  shows "loadRDBFromMemory cap es t [frame [''EOF'']] w = Inr (True, on_temp t w)"
proof -
  let ?p = "new_parser (s_max_command_size (cfg w))"
  have l: "length (frame [''EOF'']) = 13" by code_simp
  have r: "recvRDBData [frame [''EOF'']] = ([frame [''EOF'']], False)"
  proof (rule recv_one)
    show "take 5 (frame [''EOF'']) \<noteq> ''+OK'' @ CRLF" "is_infix ''EOF'' (frame [''EOF''])" by code_simp+
  qed
  have "parse_seq (parse cap) (concat (map encode [cmd [''EOF'']])) = Inr ([cmd [''EOF'']], [])"
    by (rule resp.seq_encoded) (simp add: eof_value [OF assms(1)])
  then obtain q where "feed_all cap ?p [frame [''EOF'']] = Inr (Some ([cmd [''EOF'']], q))"
    using feed_all_parse_seq [of ?p "[frame [''EOF'']]" cap "[cmd [''EOF'']]" "[]"] assms(2) l
    by (auto simp: new_parser_def parser_ok_def pending_def eof_frame)
  from load_stream_feed [OF this] obtain es' where "load_stream cap es ?p [frame [''EOF'']] (on_temp t w) =
      bnd (load_commands es' [cmd [''EOF'']] (on_temp t w)) (\<lambda>w1. Inr (True, w1))" by blast
  then show ?thesis using r ex_eof_unknown(2) [of "es' 0" "[]" "on_temp t w"]
    by (simp add: loadRDBFromMemory_def cmd_def array_def)
qed

lemma brief_round:
  assumes "brief a" and "1 \<le> cap" and "13 \<le> s_max_command_size (cfg w)"
  shows "\<exists>w1. repl_round cap es t a w = Inr w1 \<and> cfg w1 = cfg w \<and> m_dbs (self w1) = m_dbs (self w) \<and>
    m_repl_stop (m_repl (self w1)) = m_repl_stop (m_repl (self w)) \<and> m_repl_queue_stop (m_repl (self w1)) = m_repl_queue_stop (m_repl (self w))"
proof (cases a)
  case (Connected recvs pieces)
  let ?w = "set_state REPL_STATE_TRANSFER w"
  have "loadRDBFromMemory cap es t [] ?w = Inr (False, set_state REPL_STATE_RETRY (on_temp t ?w))"
    by (simp add: loadRDBFromMemory_def set_state_def)
  moreover have "loadRDBFromMemory cap es t [frame [''EOF'']] ?w = Inr (True, on_temp t ?w)"
    using assms(2,3) by (intro load_eof) (simp_all add: set_state_def mod_self_def)
  ultimately show ?thesis using assms(1) Connected
    by (auto simp: repl_round_def set_state_def mod_self_def on_temp_def)
qed (simp_all add: repl_round_def set_state_def mod_self_def)

lemma loop_gives_up:
  assumes "\<forall>a \<in> set as. brief a" and "1 \<le> cap" and "13 \<le> s_max_command_size (cfg w)"
    and "\<not> m_repl_stop (m_repl (self w))" and "k + int n = s_repl_retry_count (cfg w)" and "n \<le> length as"
  shows "\<exists>w1. replicationLoop cap es t k as w = Inr (False, w1) \<and> m_repl_state (m_repl (self w1)) = REPL_STATE_NONE \<and>
    cfg w1 = cfg w \<and> m_dbs (self w1) = m_dbs (self w) \<and> \<not> m_repl_stop (m_repl (self w1)) \<and> m_repl_queue_stop (m_repl (self w1)) = m_repl_queue_stop (m_repl (self w))"
  using assms
proof (induction n arbitrary: k as es w)
  case 0
  then show ?case by (simp add: replicationLoop.simps set_state_def mod_self_def)
next
  case (Suc n)
  then obtain a as' where as: "as = a # as'" by (cases as) auto
  obtain w1 where w1: "repl_round cap (es 0) t a w = Inr w1" "cfg w1 = cfg w" "m_dbs (self w1) = m_dbs (self w)"
      "m_repl_stop (m_repl (self w1)) = m_repl_stop (m_repl (self w))" "m_repl_queue_stop (m_repl (self w1)) = m_repl_queue_stop (m_repl (self w))"
    using brief_round [of a cap w "es 0" t] Suc.prems as by auto
  have "\<exists>w2. replicationLoop cap (\<lambda>i. es (Suc i)) t (k + 1) as' w1 = Inr (False, w2) \<and> m_repl_state (m_repl (self w2)) = REPL_STATE_NONE \<and>
      cfg w2 = cfg w1 \<and> m_dbs (self w2) = m_dbs (self w1) \<and> \<not> m_repl_stop (m_repl (self w2)) \<and> m_repl_queue_stop (m_repl (self w2)) = m_repl_queue_stop (m_repl (self w1))"
    using Suc.prems as w1(2,4) by (intro Suc.IH) auto
  moreover have "k \<noteq> s_repl_retry_count (cfg w)" using Suc.prems(5) by simp
  ultimately show ?case using w1 Suc.prems(4) as by (auto simp: replicationLoop.simps [of cap es])
qed

lemma loop_goes_on:
  assumes "\<forall>a \<in> set as. brief a" and "1 \<le> cap" and "13 \<le> s_max_command_size (cfg w)"
    and "\<not> m_repl_stop (m_repl (self w))" and "\<not> (k \<le> s_repl_retry_count (cfg w) \<and> s_repl_retry_count (cfg w) \<le> k + int (length as))"
  shows "\<exists>w1. replicationLoop cap es t k as w = Inr (True, w1)"
  using assms
proof (induction as arbitrary: k es w)
  case Nil
  then show ?case by (auto simp: replicationLoop.simps)
next
  case (Cons a as)
  obtain w1 where w1: "repl_round cap (es 0) t a w = Inr w1" "cfg w1 = cfg w"
      "m_repl_stop (m_repl (self w1)) = m_repl_stop (m_repl (self w))"
    using brief_round [of a cap w "es 0" t] Cons.prems by auto
  have "\<exists>w2. replicationLoop cap (\<lambda>i. es (Suc i)) t (k + 1) as w1 = Inr (True, w2)"
    using Cons.prems w1(2,3) by (intro Cons.IH) auto
  then show ?case using w1(1) Cons.prems by (auto simp: replicationLoop.simps [of cap es])
qed

subsection \<open>The online phase as a step relation\<close>

text \<open>
  The state: the server, the parser of the receiving thread, the pieces still to be received and the
  commands the consumer has run. The thread queues the commands of a piece, the consumer, on its
  connection \<open>t\<close>, takes one from the queue, and the rest of the server does anything that leaves the
  replication alone (a command that stops the replication ends the phase).
\<close>

type_synonym online_state = "world \<times> RespStreamParser \<times> string list \<times> RespValue list list"

inductive online_step :: "nat \<Rightarrow> nat \<Rightarrow> online_state \<Rightarrow> online_state \<Rightarrow> bool" for cap t where
  receive: "online_chunk cap d p (m_repl (self w)) = Inr (True, p1, r) \<Longrightarrow>
     online_step cap t (w, p, d # ds, xs) (mod_repl (\<lambda>_. r) w, p1, ds, xs)"
| consume: "m_repl_queue (m_repl (self w)) = args # rest \<Longrightarrow> consume_step e t w = Some (Inr w1) \<Longrightarrow>
     m_repl (self w1) = (m_repl (self w))\<lparr>m_repl_queue := rest\<rparr> \<Longrightarrow>
     online_step cap t (w, p, ds, xs) (w1, p, ds, xs @ [args])"
| other: "m_repl (self w1) = m_repl (self w) \<Longrightarrow> online_step cap t (w, p, ds, xs) (w1, p, ds, xs)"

inductive_cases online_stepE: "online_step cap t s s'"

definition queued_args :: "RespValue list \<Rightarrow> RespValue list list" where
  "queued_args vs = map arr (filter (\<lambda>v. rtype v = ARRAY \<and> arr v \<noteq> []) vs)"

lemma queued_args_append [simp]: "queued_args (us @ vs) = queued_args us @ queued_args vs"
  by (simp add: queued_args_def)

text \<open>What has been run, what waits and what is still to be parsed make up the master's commands.\<close>

definition online_inv :: "nat \<Rightarrow> RespValue list \<Rightarrow> online_state \<Rightarrow> bool" where
  "online_inv cap vs s = (case s of (w, p, ds, xs) \<Rightarrow>
     parser_ok p \<and> length (buffer p) + length (concat ds) \<le> max_buffer_size p \<and>
     parse_seq (parse cap) (pending p) = Inr ([], pending p) \<and>
     (\<exists>us. parse_seq (parse cap) (pending p @ concat ds) = Inr (us, []) \<and>
       xs @ m_repl_queue (m_repl (self w)) @ queued_args us = queued_args vs))"

lemma online_inv_receive:
  assumes "online_inv cap vs (w, p, d # ds, xs)"
  shows "\<exists>p1 r. online_chunk cap d p (m_repl (self w)) = Inr (True, p1, r) \<and> online_inv cap vs (mod_repl (\<lambda>_. r) w, p1, ds, xs)"
proof -
  obtain us where inv: "parser_ok p" "length (buffer p) + length (concat (d # ds)) \<le> max_buffer_size p"
      "parse_seq (parse cap) (pending p) = Inr ([], pending p)"
      "parse_seq (parse cap) (pending p @ concat (d # ds)) = Inr (us, [])"
      "xs @ m_repl_queue (m_repl (self w)) @ queued_args us = queued_args vs"
    using assms by (auto simp: online_inv_def)
  obtain p1 where f: "feed p d = (True, p1)" "parser_ok p1" "pending p1 = pending p @ d"
    "length (buffer p1) = length (buffer p) + length d" "max_buffer_size p1 = max_buffer_size p"
    using feed_ok [of p d] inv(1,2) by auto
  have "parse_seq (parse cap) (pending p1 @ concat ds) = Inr (us, [])" using inv(4) by (simp add: f(3))
  then obtain ys q ws where s: "parse_seq (parse cap) (pending p1) = Inr (ys, q)"
      "parse_seq (parse cap) (q @ concat ds) = Inr (ws, [])" "us = ys @ ws"
    by (rule resp.seq_prefix_ok)
  then obtain p2 where d: "drain cap p1 = Inr (ys, p2)" "pending p2 = q"
    using drain_parse_seq(1) [OF f(2), of cap] by (auto simp: bnd_eq_Inr)
  note ok2 = drain_parse_seq(2) [OF f(2) d(1)]
  have "parse_seq (parse cap) q = Inr ([], q)"
    using resp.seq_append [of cap "pending p1" "[]"] s(1) by (auto simp: bnd_def split: sum.splits prod.splits)
  then show ?thesis using f d ok2 s(2,3) inv(2,5)
    by (auto simp: online_chunk_def online_inv_def mod_self_def queued_args_def [symmetric])
qed

lemma online_inv_step: "online_step cap t s s' \<Longrightarrow> online_inv cap vs s \<Longrightarrow> online_inv cap vs s'"
proof (erule online_stepE, goal_cases)
  case (1 d p w p1 r ds xs)
  then show ?case using online_inv_receive [of cap vs w p d ds xs] by auto
next
  case (2 w args rest e w1 p ds xs)
  then show ?case by (auto simp: online_inv_def)
next
  case (3 w1 w p ds xs)
  then show ?case by (auto simp: online_inv_def)
qed

lemma online_inv_reach: "(online_step cap t)\<^sup>*\<^sup>* s s' \<Longrightarrow> online_inv cap vs s \<Longrightarrow> online_inv cap vs s'"
  by (induction rule: rtranclp_induct) (auto intro: online_inv_step)

subsection \<open>A log shared by several databases\<close>

lemma run_logged_split: "run_logged e nm True h args w = run_logged e nm False h args (log_write e args w)"
  by (simp add: run_logged_def Let_def)

lemma run_aof:
  assumes "run_logged e nm False h args w = Inr (r, w2)" and "h e args w = Inr (r1, w1)" and "m_aof (self w1) = m_aof (self w)"
    and "slowlog_ok (m_slowLog (self w1))"
  shows "m_aof (self w2) = m_aof (self w)"
  using assms log_slow_data [OF assms(4), of e "join (args_after nm w args)"] by (fastforce simp: run_logged_def)

lemma ready_log_write: "ready e w \<Longrightarrow> ready e (log_write e args w)"
  using ready_same [OF log_write_data(1) [of w e args], of e] log_write_data(2) [of e args w] unfolding ready_def by simp

lemma log_write_contents: "contents_of f (log_write e args w) = contents_of f w" "cur_db (log_write e args w) = cur_db w"
  using same_dbs(1) [of "log_write e args w" w] log_write_data(1) [of w e args] same_data_sock [OF log_write_data(1)]
  by (simp_all add: same_data_def)

text \<open>SELECT and SET with logging.\<close>

lemma select_logged:
  assumes "ready e w" and "d < DB_COUNT" and "s_aof_enabled (cfg w)" and "m_aof_file (m_aof (self w)) \<noteq> None"
  shows "\<exists>w1. executeTable True e (map bulk_string [''SELECT'', to_string (int d)]) w = Inr (ok_reply, w1) \<and> contents_of e w1 = contents_of e w \<and>
    (\<forall>i. i \<noteq> cur w \<longrightarrow> socks w1 i = socks w i) \<and> cfg w1 = cfg w \<and> slowlog_ok (m_slowLog (self w1)) \<and> zset_inv e w1 \<and>
    m_aof (self w1) = appendToAOF (cfg w) (frame [''SELECT'', to_string (int d)]) (m_aof (self w))"
proof -
  let ?as = "map bulk_string [''SELECT'', to_string (int d)]"
  let ?u = "log_write e ?as w" and ?w = "mod_sock (m_client_db_id_update (\<lambda>_. int d)) (log_write e ?as w)"
  have up: "toupper ''SELECT'' = ''SELECT''" "map_of hot_commands ''SELECT'' = None" by (code_simp, simp add: hot_commands_def)
  have en: "cmd_entry ''SELECT'' handleSELECT True ONLY_TWO \<in> set command_entries" by (simp add: command_entries_def)
  have u: "ready e ?u" using ready_log_write assms(1) .
  have h: "handleSELECT e ?as ?u = Inr (ok_reply, ?w)" using u assms(2) by (simp add: handleSELECT_def ready_def stoi_db)
  have r: "ready e ?w" using u assms(2) by (auto simp: ready_def db_valid_def zset_inv_def)
  from run_quiet [of handleSELECT, OF h r, of "''SELECT''"] obtain w1 where
    w1: "run_logged e ''SELECT'' False handleSELECT ?as ?u = Inr (ok_reply, w1)" "same_data ?w w1" "ready e w1" by blast
  have "executeTable True e ?as w = Inr (ok_reply, w1)"
    using execute_entry [OF _ en, of ?as True e w] up w1(1) by (simp add: cmd_entry_def ONLY_TWO_def run_logged_split)
  moreover have "contents_of e w1 = contents_of e w"
    using same_dbs(1) [of w1 ?w e] same_dbs(1) [of ?w ?u e] w1(2) log_write_contents(1) by (simp add: same_data_def)
  moreover have "m_aof (self w1) = m_aof (self ?u)" using run_aof [of e _ handleSELECT, OF w1(1) h] r by (simp add: ready_def)
  then have "m_aof (self w1) = appendToAOF (cfg w) (frame [''SELECT'', to_string (int d)]) (m_aof (self w))"
    by (simp add: log_write_data(3) formatCommand_encode frame_encode cmd_value_def comp_def)
  moreover have "\<forall>i. i \<noteq> cur w \<longrightarrow> socks w1 i = socks w i" "cfg w1 = cfg w"
    using w1(2) log_write_data(1) [of w e ?as] by (simp_all add: same_data_def mod_sock_def)
  ultimately show ?thesis using w1(3) by (auto simp: ready_def)
qed

lemma set_logged:
  assumes "ready e w" and "s_aof_enabled (cfg w)" and "m_aof_file (m_aof (self w)) \<noteq> None"
  shows "\<exists>w1. executeTable True e (map bulk_string [''SET'', k, v]) w = Inr (ok_reply, w1) \<and>
    contents_of e w1 = add_item (cur_db w) (IStr k \<lparr>val = v, expire = None\<rparr> 0) (contents_of e w) \<and>
    m_aof (self w1) = appendToAOF (cfg w) (frame [''SET'', k, v]) (m_aof (self w))"
proof -
  let ?as = "map bulk_string [''SET'', k, v]"
  let ?u = "log_write e ?as w"
  have up: "toupper ''SET'' = ''SET''" "map_of hot_commands ''SET'' = Some handleSET" "isWriteCommand ''SET''"
    by (code_simp, simp add: hot_commands_def, code_simp)
  let ?w = "put_string e k \<lparr>val = v, expire = None\<rparr> ?u"
  have u: "ready e ?u" using ready_log_write assms(1) .
  have h: "handleSET e ?as ?u = Inr (ok_reply, ?w)" using u by (simp add: handleSET_def ready_def numeral_eq_Suc)
  from set_item [OF u, of k "\<lparr>val = v, expire = None\<rparr>" 0] have r: "ready e ?w"
    and c: "contents_of e ?w = add_item (cur_db ?u) (IStr k \<lparr>val = v, expire = None\<rparr> 0) (contents_of e ?u)"
    using h by simp_all
  from run_quiet [of handleSET, OF h r, of "''SET''"] obtain w1 where
    w1: "run_logged e ''SET'' False handleSET ?as ?u = Inr (ok_reply, w1)" "same_data ?w w1" "ready e w1" by blast
  have "executeTable True e ?as w = Inr (ok_reply, w1)"
    using up w1(1) by (simp add: executeTable_def Let_def run_logged_split)
  moreover have "contents_of e w1 = contents_of e ?w" using same_dbs(1) [of w1 ?w e] w1(2) by (simp add: same_data_def)
  moreover have "m_aof (self ?w) = m_aof (self ?u)" by (simp add: put_string_def mod_shard_def put_shard_def mod_self_def)
  then have "m_aof (self w1) = m_aof (self ?u)" using run_aof [of e _ handleSET, OF w1(1) h] r by (simp add: ready_def)
  then have "m_aof (self w1) = appendToAOF (cfg w) (frame [''SET'', k, v]) (m_aof (self w))"
    by (simp add: log_write_data(3) formatCommand_encode frame_encode cmd_value_def comp_def)
  ultimately show ?thesis using c log_write_contents by auto
qed

text \<open>The loader of the log runs its commands without logging them.\<close>

abbreviation replay :: "env \<Rightarrow> RespValue list \<Rightarrow> world \<Rightarrow> world res" where
  "replay e args w \<equiv> bnd (executeTable False e args w) (\<lambda>(_, w1). Inr w1)"

lemma db_digits: "list_all (\<lambda>d. line_ok (to_string d) \<and> int64_ok (int (length (to_string d)))) [1, 2, 3, 4, 5, 6, 7, 8, 9, 10, 11, 12, 13, 14, 15]"
  by code_simp

lemma replay_select_set:
  assumes "ready e w" and "0 < d" and "d < DB_COUNT" and "c_str (contents_of e w) 0 k = None"
    and "\<forall>s \<in> {k, v}. line_ok s \<and> int64_ok (int (length s))" and "3 \<le> cap"
    and "length (frame [''SELECT'', to_string (int d)] @ frame [''SET'', k, v]) \<le> 1024 * 1024"
  shows "\<exists>w2. load_file cap (replay e) (frame [''SELECT'', to_string (int d)] @ frame [''SET'', k, v]) w = Inr w2 \<and>
    c_str (contents_of e w2) d k = Some \<lparr>val = v, expire = None\<rparr> \<and> c_str (contents_of e w2) 0 k = None"
proof -
  let ?vs = "map cmd [[''SELECT'', to_string (int d)], [''SET'', k, v]]"
  have "int d \<in> set [1, 2, 3, 4, 5, 6, 7, 8, 9, 10, 11, 12, 13, 14, 15]" using assms(2,3) by (simp add: DB_COUNT_def) presburger
  then have "line_ok (to_string (int d)) \<and> int64_ok (int (length (to_string (int d))))"
    using db_digits unfolding list_all_iff by blast
  then have "\<forall>v \<in> set ?vs. resp_wf cap v" using assms(5,6) by (simp add: cmd_def array_def bulk_string_def line_ok_def int64_ok_def CR_def)
  moreover have "concat (map encode ?vs) = frame [''SELECT'', to_string (int d)] @ frame [''SET'', k, v]" by (simp add: frame_encode cmd_def)
  ultimately have l: "load_file cap (replay e) (frame [''SELECT'', to_string (int d)] @ frame [''SET'', k, v]) w = run_commands (replay e) ?vs w"
    using load_file_values [of ?vs cap "replay e" w] assms(7) by metis
  obtain w1 where w1: "executeTable False e (map bulk_string [''SELECT'', to_string (int d)]) w = Inr (ok_reply, w1)" "ready e w1" "cur_db w1 = d"
      "contents_of e w1 = contents_of e w" using select_db [OF assms(1,3)] by blast
  obtain r w2 where w2: "executeTable False e (map bulk_string [''SET'', k, v]) w1 = Inr (r, w2)"
      "contents_of e w2 = add_item d (IStr k \<lparr>val = v, expire = None\<rparr> 0) (contents_of e w1)"
    using exec_item [OF w1(2), of e "IStr k \<lparr>val = v, expire = None\<rparr> 0"] w1(3) by auto
  have "run_commands (replay e) ?vs w = Inr w2" using w1(1) w2(1) by (simp add: cmd_def array_def)
  then show ?thesis using l w1(4) w2(2) assms(2,4) by (simp add: at2_apply)
qed

subsection \<open>Properties\<close>





text \<open>The log and the replication stream have one current database for all clients: when one
  client selects database \<open>d\<close> and another, still on database 0, sets a string, the server has the
  string in database 0, but loading what was logged into an empty server puts it into \<open>d\<close>.\<close>

theorem log_mixes_databases:
  assumes "a \<noteq> b" and "ready e (w\<lparr>cur := a\<rparr>)" and "ready e (w\<lparr>cur := b\<rparr>)" and "m_client_db_id (socks w b) = 0"
    and "s_aof_enabled (cfg w)" and "m_aof_file (m_aof (self w)) \<noteq> None" and "aof_buffer (m_aof (self w)) = []"
    and "0 < d" and "d < DB_COUNT" and "\<forall>s \<in> {k, v}. line_ok s \<and> int64_ok (int (length s))" and "3 \<le> cap"
    and "length (frame [''SELECT'', to_string (int d)] @ frame [''SET'', k, v]) \<le> 1024 * 1024"
    and "ready e u" and "m_dbs (self u) = (\<lambda>_ _. shard_empty)"
  shows "\<exists>w1 w2 u2. executeTable True e (map bulk_string [''SELECT'', to_string (int d)]) (w\<lparr>cur := a\<rparr>) = Inr (ok_reply, w1) \<and>
    executeTable True e (map bulk_string [''SET'', k, v]) (w1\<lparr>cur := b\<rparr>) = Inr (ok_reply, w2) \<and>
    load_file cap (replay e) (aof_buffer (m_aof (self w2))) u = Inr u2 \<and>
    c_str (contents_of e w2) 0 k = Some \<lparr>val = v, expire = None\<rparr> \<and>
    c_str (contents_of e u2) 0 k = None \<and> c_str (contents_of e u2) d k = Some \<lparr>val = v, expire = None\<rparr>"
proof -
  obtain w1 where w1: "executeTable True e (map bulk_string [''SELECT'', to_string (int d)]) (w\<lparr>cur := a\<rparr>) = Inr (ok_reply, w1)"
      "socks w1 b = socks w b" "cfg w1 = cfg w" "slowlog_ok (m_slowLog (self w1))" "zset_inv e w1"
      "m_aof (self w1) = appendToAOF (cfg w) (frame [''SELECT'', to_string (int d)]) (m_aof (self w))"
    using select_logged [OF assms(2,9)] assms(1,5,6) by auto
  have "zset_inv e (w1\<lparr>cur := b\<rparr>)" using w1(5) same_dbs(2) [of "w1\<lparr>cur := b\<rparr>" w1 e] by simp
  then have r: "ready e (w1\<lparr>cur := b\<rparr>)" using assms(3) w1(2,4) by (simp add: ready_def sock_def db_valid_def)
  have "s_aof_enabled (cfg (w1\<lparr>cur := b\<rparr>))" "m_aof_file (m_aof (self (w1\<lparr>cur := b\<rparr>))) \<noteq> None"
    using assms(5,6) w1(3,6) by (simp_all add: appendToAOF_def)
  from set_logged [OF r this, of k v] obtain w2 where
    w2: "executeTable True e (map bulk_string [''SET'', k, v]) (w1\<lparr>cur := b\<rparr>) = Inr (ok_reply, w2)"
      "contents_of e w2 = add_item (cur_db (w1\<lparr>cur := b\<rparr>)) (IStr k \<lparr>val = v, expire = None\<rparr> 0) (contents_of e (w1\<lparr>cur := b\<rparr>))"
      "m_aof (self w2) = appendToAOF (cfg w1) (frame [''SET'', k, v]) (m_aof (self w1))" by auto
  have "cur_db (w1\<lparr>cur := b\<rparr>) = 0" using assms(4) w1(2) by (simp add: sock_def)
  then have c: "c_str (contents_of e w2) 0 k = Some \<lparr>val = v, expire = None\<rparr>" using w2(2) by (simp add: at2_apply)
  have log: "aof_buffer (m_aof (self w2)) = frame [''SELECT'', to_string (int d)] @ frame [''SET'', k, v]"
    using w2(3) w1(3,6) assms(5-7) by (simp add: appendToAOF_def)
  have "c_str (contents_of e u) 0 k = None" using contents_fresh(1) [OF assms(14), of e] by simp
  from replay_select_set [OF assms(13,8,9) this assms(10-12)] show ?thesis using w1(1) w2(1) c log by auto
qed

theorem log_mixes_databases_witness:
  "\<exists>w1 w2 u2. executeTable True demo_env (map bulk_string [''SELECT'', to_string (int 2)])
       ((mod_self (m_aof_update (\<lambda>a. a\<lparr>m_aof_file := Some ''f''\<rparr>)) (new_world demo_config))
          \<lparr>socks := \<lambda>_. new_socket\<lparr>m_auth_level := 1, m_client_db_id := 0\<rparr>, cur := 0\<rparr>) = Inr (ok_reply, w1) \<and>
     executeTable True demo_env (map bulk_string [''SET'', ''k'', ''v'']) (w1\<lparr>cur := 1\<rparr>) = Inr (ok_reply, w2) \<and>
     load_file 8 (replay demo_env) (aof_buffer (m_aof (self w2))) (on_temp 7 (new_world demo_config)) = Inr u2 \<and>
     c_str (contents_of demo_env w2) 0 ''k'' = Some \<lparr>val = ''v'', expire = None\<rparr> \<and> c_str (contents_of demo_env u2) 0 ''k'' = None"
proof -
  let ?w = "(mod_self (m_aof_update (\<lambda>a. a\<lparr>m_aof_file := Some ''f''\<rparr>)) (new_world demo_config))
      \<lparr>socks := \<lambda>_. new_socket\<lparr>m_auth_level := 1, m_client_db_id := 0\<rparr>\<rparr>"
    and ?u = "on_temp 7 (new_world demo_config)"
  have fresh: "m_dbs (self ?u) = (\<lambda>_ _. shard_empty)" "\<And>i. m_dbs (self (?w\<lparr>cur := i\<rparr>)) = (\<lambda>_ _. shard_empty)"
    by (simp_all add: on_temp_def new_world_def new_server_def mod_self_def)
  have r: "ready demo_env (?w\<lparr>cur := i\<rparr>)" for i
    using contents_fresh(2) [OF fresh(2), of demo_env i]
    by (simp add: ready_def sock_def db_valid_def DB_COUNT_def new_world_def new_server_def mod_self_def slowlog_ok_new)
  have ru: "ready demo_env ?u" using contents_fresh(2) [OF fresh(1), of demo_env]
    by (simp add: ready_def sock_def db_valid_def DB_COUNT_def on_temp_def new_world_def new_server_def slowlog_ok_new)
  have f: "s_aof_enabled (cfg ?w)" "m_aof_file (m_aof (self ?w)) \<noteq> None" "aof_buffer (m_aof (self ?w)) = []" "m_client_db_id (socks ?w 1) = 0"
    by (simp_all add: new_world_def new_server_def mod_self_def demo_config_def aof_new_def)
  have n: "(0 :: nat) \<noteq> 1" "(0 :: nat) < 2" "2 < DB_COUNT" "3 \<le> (8 :: nat)" by (simp_all add: DB_COUNT_def)
  have s: "\<forall>s \<in> {''k'', ''v''}. line_ok s \<and> int64_ok (int (length s))" by (simp add: line_ok_def int64_ok_def CR_def)
  have "length (frame [''SELECT'', to_string (int 2)] @ frame [''SET'', ''k'', ''v'']) = 50" by code_simp
  then have l: "length (frame [''SELECT'', to_string (int 2)] @ frame [''SET'', ''k'', ''v'']) \<le> 1024 * 1024" by simp
  from log_mixes_databases [OF n(1) r r f(4,1-3) n(2,3) s n(4) l ru fresh(1)] show ?thesis by auto
qed

end
