(* ===== verification/Lifecycle.thy ===== *)
theory Lifecycle
  imports ReplicaLoop
begin

text \<open>
  The life of a server process: what the constructor of \<open>CommandHandler\<close> loads and opens
  (\<open>startup\<close>), what its destructor writes (\<open>shutdown\<close>), and what a restart does to the data.
\<close>

subsection \<open>Starting and stopping\<close>

text \<open>
  The snapshot is loaded, then the log is replayed on a connection of its own (number \<open>t\<close>) and
  opened for appending. One environment stands for the clock and the random choices of the start.
\<close>

definition startup :: "nat \<Rightarrow> env \<Rightarrow> nat \<Rightarrow> world \<Rightarrow> world res" where
  "startup cap e t w =
     bnd (loadFromFile e w) (\<lambda>w1.
       bnd (loadAOF cap (replay e) (cfg w1) (disk w1) (m_aof (self w1)) (on_temp t w1)) (\<lambda>(a, w2).
         let (c, a1, fs) = initAOF e (cfg w2) ((m_aof (self w2))\<lparr>m_aof_file_idx := m_aof_file_idx a,
                                       m_aof_current_filename := m_aof_current_filename a\<rparr>) (disk w2)
         in Inr ((mod_self (m_aof_update (\<lambda>_. a1)) w2)\<lparr>cfg := c, disk := fs\<rparr>)))"

text \<open>The buffer of the log is written, then the snapshot, then the log is closed.\<close>

definition shutdown :: "env \<Rightarrow> world \<Rightarrow> world res" where
  "shutdown e w =
     (let w1 = mod_self (\<lambda>s. s\<lparr>m_shutdown := True, m_aof := (m_aof s)\<lparr>m_aof_stop := True\<rparr>\<rparr>) w in
      bnd (stopAOFFlushThread (m_aof (self w1)) (disk w1)) (\<lambda>(a, fs).
        let w2 = saveToFile e ((mod_self (m_aof_update (\<lambda>_. a)) w1)\<lparr>disk := fs\<rparr>)
        in Inr (mod_self (m_aof_update closeAOFWithFlush) w2)))"

subsection \<open>What is on disk afterwards\<close>

lemma file_of_put: "file_of (insert_or_assign f c fs) g = (if g = f then c else file_of fs g)"
  by (simp add: file_of_def hmap_simps)

lemma flush_files:
  assumes "aof_ok a" and "m_aof_file a = Some f" and "m_aof_good a" and "aof_buffer a \<noteq> []"
  shows "flushAOFBuffer a fs = Inr (a\<lparr>aof_buffer := [], aof_buffer_size := 0\<rparr>, insert_or_assign f (file_of fs f @ aof_buffer a) fs)"
proof -
  have "aof_buffer_size a \<noteq> 0" using assms(1,4) by (simp add: aof_ok_def)
  then show ?thesis using assms by (simp add: flushAOFBuffer_def take_buffer_ok stream_write_def)
qed

lemma shutdown_disk:
  assumes "aof_ok (m_aof (self w))" and "m_aof_file (m_aof (self w)) = Some f" and "m_aof_good (m_aof (self w))"
    and "m_aof_flush_running (m_aof (self w))" and "aof_buffer (m_aof (self w)) \<noteq> []" and "fs_open_ok e rdb_file"
  shows "\<exists>w1. shutdown e w = Inr w1 \<and> disk w1 = insert_or_assign rdb_file (rdb_text (rdb_lines e w))
    (insert_or_assign f (file_of (disk w) f @ aof_buffer (m_aof (self w))) (disk w))"
proof -
  let ?a = "(m_aof (self w))\<lparr>m_aof_stop := True, m_aof_flush_running := False\<rparr>"
  have "flushAOFBuffer ?a (disk w) = Inr (?a\<lparr>aof_buffer := [], aof_buffer_size := 0\<rparr>,
      insert_or_assign f (file_of (disk w) f @ aof_buffer (m_aof (self w))) (disk w))"
    using assms flush_files [of ?a f] by (simp add: aof_ok_def)
  moreover have "rdb_lines e (w\<lparr>self := (self w)\<lparr>m_shutdown := True, m_aof := b\<rparr>, disk := fs\<rparr>) = rdb_lines e w" for b fs
    by (simp add: rdb_lines_def db_items_def)
  ultimately show ?thesis using assms(4,6)
    by (simp add: shutdown_def stopAOFFlushThread_def saveToFile_def mod_self_def Let_def)
qed

lemma existing_put:
  assumes "\<forall>i. getAOFFilename c i \<noteq> f"
  shows "existing_aofs c (insert_or_assign f x fs) = existing_aofs c fs"
  using assms by (simp add: existing_aofs_def hmap_simps)

lemma only_dbs_facts:
  assumes "only_dbs w w1"
  shows "cfg w1 = cfg w" "disk w1 = disk w" "m_aof (self w1) = m_aof (self w)" "m_slowLog (self w1) = m_slowLog (self w)"
  using assms by (auto simp: only_dbs_def mod_self_def)

lemma on_temp_ready: "zset_inv e w \<Longrightarrow> slowlog_ok (m_slowLog (self w)) \<Longrightarrow> ready e (on_temp t w)"
  using same_dbs(2) [of "on_temp t w" w e] by (simp add: ready_def on_temp_def sock_def db_valid_def DB_COUNT_def)

text \<open>Starting on a snapshot and a log of one command that adds an item.\<close>

lemma startup_item:
  assumes "loadFromFile f u = Inr u1" and "zset_inv f u1" and "slowlog_ok (m_slowLog (self u))"
    and "existing_aofs (cfg u) (disk u) = [1]" and "file_of (disk u) (getAOFFilename (cfg u) 1) = frame (hd (sync_commands e it))"
    and "sync_loads e f it" and "resp_wf cap (cmd (hd (sync_commands e it)))" and "length (frame (hd (sync_commands e it))) \<le> 1024 * 1024"
  shows "\<exists>u2. startup cap f t u = Inr u2 \<and> contents_of f u2 = add_item 0 it (contents_of f u1)"
proof -
  let ?c = "hd (sync_commands e it)"
  note same = only_dbs_facts [OF loadFromFile_frame [OF assms(1)]]
  have r: "ready f (on_temp t u1)" by (rule on_temp_ready) (use assms(2,3) same in simp_all)
  from exec_item [OF r assms(6)] obtain x u2 where
    u2: "executeTable False f (map bulk_string ?c) (on_temp t u1) = Inr (x, u2)"
      "contents_of f u2 = add_item (cur_db (on_temp t u1)) it (contents_of f (on_temp t u1))" by blast
  have "?c \<noteq> []" by (cases it) simp_all
  then have run: "run_commands (replay f) [cmd ?c] (on_temp t u1) = Inr u2" using u2(1) by (simp add: cmd_def array_def)
  have "load_file cap (replay f) (frame ?c) (on_temp t u1) = run_commands (replay f) [cmd ?c] (on_temp t u1)"
    using load_file_values [of "[cmd ?c]" cap "replay f" "on_temp t u1"] assms(7,8) by (simp add: frame_encode cmd_def)
  then obtain a where l: "loadAOF cap (replay f) (cfg u1) (disk u1) (m_aof (self u1)) (on_temp t u1) = Inr (a, u2)"
    using run assms(4,5) same by (simp add: loadAOF_def)
  have c: "cur_db (on_temp t u1) = 0" "contents_of f (on_temp t u1) = contents_of f u1"
    using same_dbs(1) [of "on_temp t u1" u1] by (simp_all add: on_temp_def sock_def)
  obtain c a1 fs where "initAOF f (cfg u2) ((m_aof (self u2))\<lparr>m_aof_file_idx := m_aof_file_idx a,
      m_aof_current_filename := m_aof_current_filename a\<rparr>) (disk u2) = (c, a1, fs)" by (rule prod_cases3)
  then obtain u3 where "startup cap f t u = Inr u3" "m_dbs (self u3) = m_dbs (self u2)"
    using l assms(1) by (simp add: startup_def mod_self_def)
  then show ?thesis using u2(2) c same_dbs(1) [of u3 u2] by auto
qed

subsection \<open>Properties\<close>

text \<open>C40. A restart applies the log twice: the destructor writes the snapshot with everything the
  log holds, and the constructor loads the snapshot and then replays the log on top of it, so an
  RPUSH in the log adds its element to a list that already has it.\<close>

theorem restart_repeats_log:
  assumes "iter_ok e" and "dbs_ok w" and "placed e w" and "zset_inv e w" and "fs_open_ok e rdb_file"
    and "\<forall>l \<in> set (rdb_lines e w). \<forall>s \<in> set l. clean s"
    and "\<forall>d k v n. view store e w d k = Some v \<longrightarrow> \<not> is_expired (clock e n) v"
    and "\<forall>d k mem sc. c_zset (contents_of e w) d k mem = Some sc \<longrightarrow> std_stod f (std_ostream e sc) = Some sc"
    and "aof_ok (m_aof (self w))" and "m_aof_file (m_aof (self w)) = Some (getAOFFilename (cfg w) 1)"
    and "m_aof_good (m_aof (self w))" and "m_aof_flush_running (m_aof (self w))"
    and "existing_aofs (cfg w) (disk w) = [1]" and "file_of (disk w) (getAOFFilename (cfg w) 1) = []"
    and "aof_buffer (m_aof (self w)) = frame [''RPUSH'', k, v]" and "\<forall>i. getAOFFilename (cfg w) i \<noteq> rdb_file"
    and "resp_wf cap (cmd [''RPUSH'', k, v])" and "length (frame [''RPUSH'', k, v]) \<le> 1024 * 1024"
  shows "\<exists>w1 w2. shutdown e w = Inr w1 \<and> startup cap f t ((new_world (cfg w))\<lparr>disk := disk w1\<rparr>) = Inr w2 \<and>
    c_list (contents_of f w2) 0 k = c_list (contents_of e w) 0 k @ [v]"
proof -
  let ?log = "frame [''RPUSH'', k, v]" and ?f1 = "getAOFFilename (cfg w) 1"
  let ?disk = "insert_or_assign rdb_file (rdb_text (rdb_lines e w)) (insert_or_assign ?f1 ?log (disk w))"
  let ?u = "(new_world (cfg w))\<lparr>disk := ?disk\<rparr>"
  obtain w1 where w1: "shutdown e w = Inr w1" "disk w1 = ?disk"
    using shutdown_disk [OF assms(9-12) _ assms(5)] assms(14,15) frame_nonempty by auto
  have m: "m_dbs (self ?u) = (\<lambda>_ _. shard_empty)" by (simp add: new_world_def new_server_def)
  have "map_of (disk ?u) rdb_file = Some (rdb_text (rdb_lines e w))" by (simp add: hmap_simps)
  from load_snapshot [OF assms(1-4,6-8) m this] obtain u1 where
    u1: "loadFromFile f ?u = Inr u1" "zset_inv f u1" "same_contents (contents_of e w) (contents_of f u1)" by blast
  have s: "slowlog_ok (m_slowLog (self ?u))" by (simp add: new_world_def new_server_def slowlog_ok_new)
  have n: "cfg ?u = cfg w" "disk ?u = ?disk" by (simp_all add: new_world_def)
  have "map_of (disk w) ?f1 \<noteq> None" using assms(13) by (auto simp: existing_aofs_def filter_eq_Cons_iff)
  then have "existing_aofs (cfg w) (insert_or_assign ?f1 ?log (disk w)) = existing_aofs (cfg w) (disk w)"
    by (auto simp: existing_aofs_def hmap_simps intro!: filter_cong)
  then have ex: "existing_aofs (cfg ?u) (disk ?u) = [1]" using assms(13,16) n by (simp add: existing_put)
  have fl: "file_of (disk ?u) (getAOFFilename (cfg ?u) 1) = frame (hd (sync_commands e (IList k v)))"
    using assms(16) n by (simp add: file_of_put)
  from startup_item [OF u1(1,2) s ex fl _ _ _, of cap t] assms(17,18) obtain w2 where
    "startup cap f t ?u = Inr w2" "contents_of f w2 = add_item 0 (IList k v) (contents_of f u1)" by auto
  moreover have "c_list (contents_of f u1) 0 k = c_list (contents_of e w) 0 k" using u1(3) by (simp add: same_contents_def DB_COUNT_def)
  ultimately show ?thesis using w1 by (auto simp: at2_apply)
qed

theorem restart_repeats_log_witness:
  "\<exists>w1 w2. shutdown demo_env ((mod_self (m_aof_update (\<lambda>_. aof_new\<lparr>m_aof_file := Some (getAOFFilename demo_config 1), m_aof_flush_running := True,
         aof_buffer := frame [''RPUSH'', ''z'', ''b''], aof_buffer_size := length (frame [''RPUSH'', ''z'', ''b''])\<rparr>)) demo_rworld)
       \<lparr>disk := [(getAOFFilename demo_config 1, [])]\<rparr>) = Inr w1 \<and>
     startup 8 (demo_env\<lparr>std_stod := \<lambda>_. Some (Fin 1)\<rparr>) 3 ((new_world demo_config)\<lparr>disk := disk w1\<rparr>) = Inr w2 \<and>
     c_list (contents_of (demo_env\<lparr>std_stod := \<lambda>_. Some (Fin 1)\<rparr>) w2) 0 ''z'' = [''a'', ''b'', ''b'']"
proof -
  let ?a = "aof_new\<lparr>m_aof_file := Some (getAOFFilename demo_config 1), m_aof_flush_running := True,
      aof_buffer := frame [''RPUSH'', ''z'', ''b''], aof_buffer_size := length (frame [''RPUSH'', ''z'', ''b''])\<rparr>"
  let ?w = "(mod_self (m_aof_update (\<lambda>_. ?a)) demo_rworld)\<lparr>disk := [(getAOFFilename demo_config 1, [])]\<rparr>"
    and ?f = "demo_env\<lparr>std_stod := \<lambda>_. Some (Fin 1)\<rparr>"
  have d: "m_dbs (self ?w) = m_dbs (self demo_rworld)" by (simp add: mod_self_def)
  have cf: "cfg ?w = demo_config"
    by (simp add: demo_rworld_def put_shard_def mod_self_def demo_world_def mod_sock_def new_world_def)
  have a: "m_aof (self ?w) = ?a" by (simp add: mod_self_def)
  have v: "view g demo_env ?w = view g demo_env demo_rworld" for g :: "DataShard \<Rightarrow> 'b hmap" using d by (simp add: view_def fun_eq_iff)
  have ok: "dbs_ok ?w" "placed demo_env ?w" "zset_inv demo_env ?w"
    using demo_rworld_ok(1,2) same_dbs(2) [OF d] demo_rworld_ok(3) d by (simp_all add: dbs_ok_def placed_def)
  have "rdb_lines demo_env ?w = rdb_lines demo_env demo_rworld" using d by (simp add: rdb_lines_def db_items_def)
  then have cl: "\<forall>l \<in> set (rdb_lines demo_env ?w). \<forall>s \<in> set l. clean s" using demo_rworld_ok(4) by simp
  have t: "clock demo_env n = 1000" and o: "fs_open_ok demo_env rdb_file" for n by (simp_all add: demo_env_def)
  have live: "\<forall>d k v n. view store demo_env ?w d k = Some v \<longrightarrow> \<not> is_expired (clock demo_env n) v"
    using t v [of store] by (auto simp: demo_rworld_views is_expired_def split: if_splits)
  have co: "contents_of demo_env ?w = contents_of demo_env demo_rworld" by (rule same_dbs(1) [OF d])
  have sc: "\<forall>d k mem sc. c_zset (contents_of demo_env ?w) d k mem = Some sc \<longrightarrow> std_stod ?f (std_ostream demo_env sc) = Some sc"
    unfolding co by (auto simp: contents_of_def demo_rworld_views split: if_splits)
  have ao: "aof_ok ?a" "m_aof_file ?a = Some (getAOFFilename demo_config 1)" "m_aof_good ?a" "m_aof_flush_running ?a"
      "aof_buffer ?a = frame [''RPUSH'', ''z'', ''b'']"
    by (simp_all add: aof_ok_def aof_new_def)
  have ex: "existing_aofs demo_config [(getAOFFilename demo_config 1, [])] = [1]" by code_simp
  have fi: "file_of [(getAOFFilename demo_config 1, [])] (getAOFFilename demo_config 1) = []" by (simp add: file_of_def)
  have ne: "\<forall>i. getAOFFilename demo_config i \<noteq> rdb_file" by (simp add: getAOFFilename_def demo_config_def rdb_file_def)
  have wf: "resp_wf 8 (cmd [''RPUSH'', ''z'', ''b''])" by code_simp
  have "length (frame [''RPUSH'', ''z'', ''b'']) = 29" by code_simp
  then have le: "length (frame [''RPUSH'', ''z'', ''b'']) \<le> 1024 * 1024" by simp
  have dk: "disk ?w = [(getAOFFilename demo_config 1, [])]" by simp
  have "c_list (contents_of demo_env ?w) 0 ''z'' = [''a'', ''b'']" unfolding co by (simp add: contents_of_def view_def demo_rworld_dbs demo_shard_def)
  then show ?thesis
    using restart_repeats_log [of demo_env ?w ?f "''z''" "''b''" 8 3, unfolded cf a dk, OF iter_ok_demo ok o cl live sc ao(1-4) ex fi ao(5) ne wf le]
    by simp
qed

end
