(* ===== verification/ByteCodec.thy ===== *)
theory ByteCodec
  imports Prelude "HOL-Library.Word"
begin

unbundle bit_operations_syntax

text \<open>
  The number formats of \<open>src/src/util/bytearray.cpp\<close> and \<open>mendian.h\<close>: integers in memory order and
  their swapping, zigzag coding of signed integers, and variable-length integers. Machine
  integers are words of their width; a signed value is the word with its bit pattern. The order of
  the bytes of the machine, a macro of the build, is the parameter \<open>host\<close>.
\<close>

type_synonym byte = "8 word"

subsection \<open>Memory order\<close>

datatype endian = Little | Big

text \<open>The bytes of a word from the least significant on, and back.\<close>

definition le_bytes :: "'a::len word \<Rightarrow> byte list" where
  "le_bytes v = map (\<lambda>i. ucast (drop_bit (8 * i) v)) [0..<LENGTH('a) div 8]"

fun le_word :: "byte list \<Rightarrow> 'a::len word" where
  "le_word [] = 0"
| "le_word (b # bs) = ucast b OR push_bit 8 (le_word bs)"

definition mem_bytes :: "endian \<Rightarrow> 'a::len word \<Rightarrow> byte list" where
  "mem_bytes host v = (if host = Little then le_bytes v else rev (le_bytes v))"

definition mem_word :: "endian \<Rightarrow> byte list \<Rightarrow> 'a::len word" where
  "mem_word host bs = le_word (if host = Little then bs else rev bs)"

definition bitswap :: "'a::len word \<Rightarrow> 'a word" where
  "bitswap v = le_word (rev (le_bytes v))"

text \<open>What \<open>writeFint16\<close> and its kin put into the buffer, and what the reading functions make of it.\<close>

definition to_wire :: "endian \<Rightarrow> endian \<Rightarrow> 'a::len word \<Rightarrow> byte list" where
  "to_wire host endian v = mem_bytes host (if endian \<noteq> host then bitswap v else v)"

definition from_wire :: "endian \<Rightarrow> endian \<Rightarrow> byte list \<Rightarrow> 'a::len word" where
  "from_wire host endian bs = (let v = mem_word host bs in if endian = host then v else bitswap v)"

subsection \<open>Zigzag\<close>

definition EncodeZigzag :: "32 word \<Rightarrow> 32 word" where
  "EncodeZigzag v = push_bit 1 v XOR signed_drop_bit 31 v"

definition EncodeZigzag64 :: "64 word \<Rightarrow> 64 word" where
  "EncodeZigzag64 v = push_bit 1 v XOR signed_drop_bit 63 v"

definition DecodeZigzag :: "32 word \<Rightarrow> 32 word" where
  "DecodeZigzag v = drop_bit 1 v XOR - (v AND 1)"

definition DecodeZigzag64 :: "64 word \<Rightarrow> 64 word" where
  "DecodeZigzag64 v = drop_bit 1 v XOR - (v AND 1)"

subsection \<open>Variable-length integers\<close>

lemma unat_shift7: "unat (drop_bit 7 v) = unat v div 128"
  by (simp add: unat_drop_bit_eq) (simp add: drop_bit_eq_div)

lemma shift7: "v \<noteq> 0 \<Longrightarrow> unat (drop_bit 7 v) < unat v"
  unfolding unat_shift7 by (simp add: unat_gt_0)

function varint32 :: "32 word \<Rightarrow> byte list" where
  "varint32 v = (if v \<ge> 0x80 then (ucast (v AND 0x7F) OR 0x80) # varint32 (drop_bit 7 v) else [ucast v])"
  by pat_completeness auto
termination
  by (relation "measure unat") (auto intro!: shift7)

function varint64 :: "64 word \<Rightarrow> byte list" where
  "varint64 v = (if v \<ge> 0x80 then (ucast (v AND 0x7F) OR 0x80) # varint64 (drop_bit 7 v) else [ucast v])"
  by pat_completeness auto
termination
  by (relation "measure unat") (auto intro!: shift7)

declare varint32.simps [simp del] varint64.simps [simp del]

text \<open>
  The reading loop on a list of bytes: a shift by the width of the type or more is undefined, and
  running out of bytes is an exception.
\<close>

fun take_varint :: "nat \<Rightarrow> 'a::len word \<Rightarrow> byte list \<Rightarrow> ('a word \<times> byte list) res" where
  "take_varint i v [] = Inl UncaughtException"
| "take_varint i v (tem # bs) =
     (if LENGTH('a) \<le> 7 * i then Inl BadShift
      else let v1 = v OR push_bit (7 * i) (ucast (tem AND 0x7F)) in
           if tem AND 0x80 = 0 then Inr (v1, bs) else take_varint (Suc i) v1 bs)"

subsection \<open>Laws\<close>

lemma length_le_bytes [simp]: "length (le_bytes (v :: 'a::len word)) = LENGTH('a) div 8"
  by (simp add: le_bytes_def)

lemma bit_le_word: "bit (le_word bs :: 'a::len word) i \<longleftrightarrow> i < LENGTH('a) \<and> i div 8 < length bs \<and> bit (bs ! (i div 8)) (i mod 8)"
proof (induction bs arbitrary: i)
  case (Cons b bs)
  show ?case
  proof (cases "i < 8")
    case True
    then show ?thesis by (auto simp: bit_simps)
  next
    case False
    then have "i div 8 = Suc ((i - 8) div 8)" "i mod 8 = (i - 8) mod 8" by (simp_all add: le_div_geq le_mod_geq)
    moreover have "\<not> bit b i" using False bit_imp_le_length [of b i] by auto
    ultimately show ?thesis using False Cons.IH [of "i - 8"] by (auto simp: bit_simps)
  qed
qed simp

lemma bit_le_bytes: "i < LENGTH('a) div 8 \<Longrightarrow> bit (le_bytes (v :: 'a::len word) ! i) j \<longleftrightarrow> j < 8 \<and> bit v (8 * i + j)"
  by (auto simp: le_bytes_def bit_simps)

lemma le_word_bytes: "8 dvd LENGTH('a) \<Longrightarrow> le_word (le_bytes v) = (v :: 'a::len word)"
  by (rule bit_word_eqI) (auto simp: bit_le_word bit_le_bytes elim!: dvdE)

lemma le_bytes_word: "8 * length bs = LENGTH('a) \<Longrightarrow> le_bytes (le_word bs :: 'a::len word) = bs"
proof (rule nth_equalityI)
  fix i assume l: "8 * length bs = LENGTH('a)" and "i < length (le_bytes (le_word bs :: 'a word))"
  then have i: "i < length bs" by auto
  show "le_bytes (le_word bs :: 'a word) ! i = bs ! i"
  proof (rule bit_word_eqI)
    fix j assume "j < LENGTH(8)"
    then show "bit (le_bytes (le_word bs :: 'a word) ! i) j = bit (bs ! i) j"
      using i l by (auto simp: bit_le_bytes bit_le_word)
  qed
qed auto

lemma bitswap_bitswap: "8 dvd LENGTH('a) \<Longrightarrow> bitswap (bitswap v) = (v :: 'a::len word)"
  by (simp add: bitswap_def le_bytes_word le_word_bytes)

lemma mem_word_bytes: "8 dvd LENGTH('a) \<Longrightarrow> mem_word host (mem_bytes host v) = (v :: 'a::len word)"
  by (simp add: mem_word_def mem_bytes_def le_word_bytes)

lemma length_to_wire [simp]: "length (to_wire host en (v :: 'a::len word)) = LENGTH('a) div 8"
  by (simp add: to_wire_def mem_bytes_def)

lemma from_to_wire: "8 dvd LENGTH('a) \<Longrightarrow> from_wire host en (to_wire host en v) = (v :: 'a::len word)"
  by (auto simp: from_wire_def to_wire_def mem_word_bytes bitswap_bitswap)

text \<open>The bytes on the wire do not depend on the machine.\<close>

lemma to_wire_order: "8 dvd LENGTH('a) \<Longrightarrow> to_wire host en (v :: 'a::len word) = (if en = Little then le_bytes v else rev (le_bytes v))"
  by (cases host; cases en) (simp_all add: to_wire_def mem_bytes_def bitswap_def le_bytes_word)

text \<open>Zigzag: \<open>n \<mapsto> 2n\<close> for \<open>n \<ge> 0\<close>, \<open>n \<mapsto> - 2n - 1\<close> otherwise.\<close>

lemma minus_and_one_bit: "bit (- (v AND 1)) i \<longleftrightarrow> i < LENGTH('a) \<and> odd v" for v :: "'a::len word"
proof -
  have "v AND 1 = (if odd v then 1 else 0)" by (simp add: and_one_eq mod2_eq_if)
  then show ?thesis by (simp add: bit_simps)
qed

lemma zigzag_roundtrip:
  fixes v :: "'a::len word"
  shows "drop_bit 1 (push_bit 1 v XOR signed_drop_bit (LENGTH('a) - 1) v) XOR - ((push_bit 1 v XOR signed_drop_bit (LENGTH('a) - 1) v) AND 1) = v"
proof (rule bit_word_eqI)
  fix i assume i: "i < LENGTH('a)"
  let ?e = "push_bit 1 v XOR signed_drop_bit (LENGTH('a) - 1) v"
  have "bit ?e 0 \<longleftrightarrow> bit v (LENGTH('a) - 1)"
    unfolding bit_xor_iff bit_push_bit_iff bit_signed_drop_bit_iff using i by auto
  then have odd: "odd ?e \<longleftrightarrow> bit v (LENGTH('a) - 1)" by (simp only: bit_0)
  have top: "\<not> bit v (LENGTH('a) + LENGTH('a) - Suc 0)" using bit_imp_le_length [of v "LENGTH('a) + LENGTH('a) - Suc 0"] i by auto
  have last: "Suc i = LENGTH('a) \<Longrightarrow> i = LENGTH('a) - Suc 0" by simp
  show "bit (drop_bit 1 ?e XOR - (?e AND 1)) i = bit v i"
    unfolding bit_xor_iff minus_and_one_bit odd bit_drop_bit_eq comp_def bit_push_bit_iff bit_signed_drop_bit_iff using i top
    by (cases "Suc i = LENGTH('a)") (auto simp: last)
qed

lemma zigzag32: "DecodeZigzag (EncodeZigzag v) = v"
  using zigzag_roundtrip [of v] by (simp add: DecodeZigzag_def EncodeZigzag_def)

lemma zigzag64: "DecodeZigzag64 (EncodeZigzag64 v) = v"
  using zigzag_roundtrip [of v] by (simp add: DecodeZigzag64_def EncodeZigzag64_def)

lemma EncodeZigzag_value: "uint (EncodeZigzag v) = (if 0 \<le> sint v then 2 * sint v else - 2 * sint v - 1)"
proof -
  have d: "signed_drop_bit 31 v = (if bit v 31 then - 1 else 0)"
    by (rule bit_word_eqI) (auto simp: bit_simps Suc_le_eq)
  have m: "bit v 31 \<longleftrightarrow> 2 ^ 31 \<le> uint v"
  proof -
    have "bit v 31 \<longleftrightarrow> odd (uint v div 2 ^ 31)" using bit_uint_iff [of v 31] by (simp add: bit_iff_odd [of "uint v"])
    moreover have "uint v < 2 ^ 32" "0 \<le> uint v" using uint_lt2p [of v] by simp_all
    then have "uint v div 2 ^ 31 = (if 2 ^ 31 \<le> uint v then 1 else 0)"
      by (auto intro: int_div_pos_eq [where r = "uint v - 2 ^ 31"])
    ultimately show ?thesis by simp
  qed
  have s: "sint v = uint v - (if bit v 31 then 2 ^ 32 else 0)"
    using bintr_uint [of 32 v] by (simp add: sint_uint signed_take_bit_eq_take_bit_minus bit_uint_iff)
  have r: "0 \<le> uint v" "uint v < 2 ^ 32" using uint_lt2p [of v] by simp_all
  show ?thesis
  proof (cases "bit v 31")
    case True
    have "EncodeZigzag v = - (2 * v) - 1"
      using True by (simp add: EncodeZigzag_def d not_eq_complement mult.commute)
    then have "uint (EncodeZigzag v) = (- (2 * uint v) - 1) mod 2 ^ 32"
      by (simp add: uint_word_ariths) (simp add: mod_simps)
    also have "\<dots> = (- (2 * uint v) - 1 + 2 * 2 ^ 32) mod 2 ^ 32" by (rule mod_mult_self1 [symmetric])
    also have "\<dots> = - (2 * uint v) - 1 + 2 * 2 ^ 32" using r True m by (intro mod_pos_pos_trivial) simp_all
    finally show ?thesis using True s r by simp
  next
    case False
    then have "EncodeZigzag v = 2 * v" by (simp add: EncodeZigzag_def d mult.commute)
    then show ?thesis using False s m r by (simp add: uint_word_ariths)
  qed
qed

text \<open>Variable-length integers: one step of writing, undone by one step of reading.\<close>

lemma and_7F: "(v AND 0x7F :: 'a::len word) = take_bit 7 v"
  by (simp add: take_bit_eq_mask mask_eq_exp_minus_1)

lemma bit_80: "bit (0x80 :: byte) i \<longleftrightarrow> i = 7"
proof -
  have "(0x80 :: byte) = push_bit 7 1" by simp
  then show ?thesis by (simp only: bit_push_bit_iff bit_1_iff) (auto simp: bit_imp_le_length)
qed

lemma flag_bit: "(tem :: byte) AND 0x80 = 0 \<longleftrightarrow> \<not> bit tem 7"
proof -
  have b: "bit (tem AND 0x80) i \<longleftrightarrow> i = 7 \<and> bit tem 7" for i unfolding bit_and_iff bit_80 by auto
  show ?thesis
  proof
    assume "tem AND 0x80 = 0"
    then show "\<not> bit tem 7" using b [of 7] by simp
  next
    assume "\<not> bit tem 7"
    then show "tem AND 0x80 = 0" using b by (intro bit_word_eqI) simp
  qed
qed

lemma varint_byte:
  fixes v :: "'a::len word"
  shows "(ucast (v AND 0x7F) OR 0x80 :: byte) AND 0x80 \<noteq> 0"
    and "ucast ((ucast (v AND 0x7F) OR 0x80 :: byte) AND 0x7F) = (take_bit 7 v :: 'a word)"
proof -
  show "(ucast (v AND 0x7F) OR 0x80 :: byte) AND 0x80 \<noteq> 0" unfolding flag_bit bit_or_iff bit_80 by simp
  show "ucast ((ucast (v AND 0x7F) OR 0x80 :: byte) AND 0x7F) = (take_bit 7 v :: 'a word)"
    unfolding and_7F by (rule bit_word_eqI) (auto simp: bit_simps bit_80)
qed

lemma varint_last:
  fixes v :: "'a::len word"
  assumes "unat v < 128"
  shows "(ucast v :: byte) AND 0x80 = 0" and "ucast ((ucast v :: byte) AND 0x7F) = v"
proof -
  have t: "take_bit 7 v = v" using assms by (simp add: word_unat_eq_iff unsigned_take_bit_eq take_bit_nat_eq_self)
  have "\<not> bit v 7" using t bit_take_bit_iff [of 7 v 7] by simp
  then show "(ucast v :: byte) AND 0x80 = 0" unfolding flag_bit by (simp add: bit_simps)
  have "ucast ((ucast v :: byte) AND 0x7F) = take_bit 7 v"
    unfolding and_7F by (rule bit_word_eqI) (auto simp: bit_simps)
  then show "ucast ((ucast v :: byte) AND 0x7F) = v" using t by simp
qed

lemma push_split: "(acc OR push_bit n (take_bit 7 v)) OR push_bit (n + 7) (drop_bit 7 v) = acc OR push_bit n v" for v :: "'a::len word"
proof (rule bit_word_eqI)
  fix j assume "j < LENGTH('a)"
  moreover have "n + 7 \<le> j \<Longrightarrow> 7 + (j - (n + 7)) = j - n" by simp
  ultimately show "bit ((acc OR push_bit n (take_bit 7 v)) OR push_bit (n + 7) (drop_bit 7 v)) j = bit (acc OR push_bit n v) j"
    by (cases "n + 7 \<le> j") (auto simp: bit_simps)
qed

lemma take_varint32:
  assumes "7 * i < 32" and "unat v < 2 ^ (32 - 7 * i)"
  shows "take_varint i acc (varint32 v @ bs) = Inr (acc OR push_bit (7 * i) v, bs)"
  using assms
proof (induction v arbitrary: i acc rule: varint32.induct)
  case (1 v)
  show ?case
  proof (cases "0x80 \<le> v")
    case True
    then have u: "128 \<le> unat v" by (simp add: word_le_nat_alt)
    have "(2 :: nat) ^ 7 < 2 ^ (32 - 7 * i)" using u 1(3) by simp
    then have i: "7 < 32 - 7 * i" by (rule power_less_imp_less_exp [rotated]) simp
    have "unat (drop_bit 7 v) < 2 ^ (32 - 7 * Suc i)"
    proof -
      have "(2 :: nat) ^ (32 - 7 * i) = 128 * 2 ^ (32 - 7 * Suc i)" using i power_add [of "2 :: nat" 7 "32 - 7 * Suc i"] by simp
      then show ?thesis using 1(3) by (simp add: unat_shift7 less_mult_imp_div_less mult.commute)
    qed
    moreover have "7 * Suc i < 32" using i by simp
    ultimately have "take_varint (Suc i) a (varint32 (drop_bit 7 v) @ bs) = Inr (a OR push_bit (7 * Suc i) (drop_bit 7 v), bs)" for a
      using 1(1) [OF True] by blast
    then show ?thesis using True 1(2) push_split [of acc "7 * i" v] varint_byte [of v]
      by (simp add: varint32.simps [of v] add.commute)
  next
    case False
    then have "unat v < 128" by (simp add: word_le_nat_alt)
    then show ?thesis using False 1(2) varint_last [of v] by (simp add: varint32.simps [of v])
  qed
qed

lemma take_varint64:
  assumes "7 * i < 64" and "unat v < 2 ^ (64 - 7 * i)"
  shows "take_varint i acc (varint64 v @ bs) = Inr (acc OR push_bit (7 * i) v, bs)"
  using assms
proof (induction v arbitrary: i acc rule: varint64.induct)
  case (1 v)
  show ?case
  proof (cases "0x80 \<le> v")
    case True
    then have u: "128 \<le> unat v" by (simp add: word_le_nat_alt)
    have "(2 :: nat) ^ 7 < 2 ^ (64 - 7 * i)" using u 1(3) by simp
    then have i: "7 < 64 - 7 * i" by (rule power_less_imp_less_exp [rotated]) simp
    have "unat (drop_bit 7 v) < 2 ^ (64 - 7 * Suc i)"
    proof -
      have "(2 :: nat) ^ (64 - 7 * i) = 128 * 2 ^ (64 - 7 * Suc i)" using i power_add [of "2 :: nat" 7 "64 - 7 * Suc i"] by simp
      then show ?thesis using 1(3) by (simp add: unat_shift7 less_mult_imp_div_less mult.commute)
    qed
    moreover have "7 * Suc i < 64" using i by simp
    ultimately have "take_varint (Suc i) a (varint64 (drop_bit 7 v) @ bs) = Inr (a OR push_bit (7 * Suc i) (drop_bit 7 v), bs)" for a
      using 1(1) [OF True] by blast
    then show ?thesis using True 1(2) push_split [of acc "7 * i" v] varint_byte [of v]
      by (simp add: varint64.simps [of v] add.commute)
  next
    case False
    then have "unat v < 128" by (simp add: word_le_nat_alt)
    then show ?thesis using False 1(2) varint_last [of v] by (simp add: varint64.simps [of v])
  qed
qed

text \<open>The encodings fit the arrays of five and ten bytes the writers have on the stack.\<close>

lemma varint32_length: "unat v < 2 ^ (7 * n) \<Longrightarrow> 0 < n \<Longrightarrow> length (varint32 v) \<le> n"
proof (induction v arbitrary: n rule: varint32.induct)
  case (1 v)
  show ?case
  proof (cases "0x80 \<le> v")
    case True
    then have u: "128 \<le> unat v" by (simp add: word_le_nat_alt)
    have "n \<noteq> 1" using u 1(2) by auto
    then obtain m where m: "n = Suc m" "0 < m" using 1(3) by (cases n) auto
    have "unat (drop_bit 7 v) < 2 ^ (7 * m)"
      using 1(2) m(1) by (simp add: unat_shift7 less_mult_imp_div_less power_add mult.commute)
    then show ?thesis using 1(1) [OF True _ m(2)] m(1) by (simp add: varint32.simps [of v])
  next
    case False
    then show ?thesis using 1(3) by (simp add: varint32.simps [of v])
  qed
qed

lemma varint64_length: "unat v < 2 ^ (7 * n) \<Longrightarrow> 0 < n \<Longrightarrow> length (varint64 v) \<le> n"
proof (induction v arbitrary: n rule: varint64.induct)
  case (1 v)
  show ?case
  proof (cases "0x80 \<le> v")
    case True
    then have u: "128 \<le> unat v" by (simp add: word_le_nat_alt)
    have "n \<noteq> 1" using u 1(2) by auto
    then obtain m where m: "n = Suc m" "0 < m" using 1(3) by (cases n) auto
    have "unat (drop_bit 7 v) < 2 ^ (7 * m)"
      using 1(2) m(1) by (simp add: unat_shift7 less_mult_imp_div_less power_add mult.commute)
    then show ?thesis using 1(1) [OF True _ m(2)] m(1) by (simp add: varint64.simps [of v])
  next
    case False
    then show ?thesis using 1(3) by (simp add: varint64.simps [of v])
  qed
qed

text \<open>Too many continuation bytes shift past the width.\<close>

lemma take_varint_too_long:
  "\<forall>t \<in> set ts. t AND 0x80 \<noteq> 0 \<Longrightarrow> LENGTH('a) \<le> 7 * (i + length ts) \<Longrightarrow> 7 * i < LENGTH('a) + 7 \<Longrightarrow>
   take_varint i (v :: 'a::len word) (ts @ tem # bs) = Inl BadShift"
  by (induction ts arbitrary: i v) (auto simp: Let_def)

end
