(* ===== verification/ByteArray.thy ===== *)
theory ByteArray
  imports ByteCodec
begin

unbundle bit_operations_syntax

text \<open>
  The paged buffer of \<open>src/src/util/bytearray.{h,cpp}\<close>. The linked pages are a list, \<open>m_curr\<close> is the
  number of the current page or \<open>None\<close> for the null pointer; the back links are never read. Bytes of a
  fresh page are indeterminate in C++; here they all have the value \<open>m_fill\<close>. Sizes are \<open>size_t\<close> and stay
  below \<open>2^64\<close>; the one subtraction that can wrap is written out. An \<open>out_of_range\<close> is
  \<open>UncaughtException\<close>.
\<close>

subsection \<open>State\<close>

record ByteArray =
  m_nodes :: "byte list list"
  m_curr :: "nat option"
  m_baseSize :: nat
  m_capacity :: nat
  m_position :: nat
  m_size :: nat
  m_endian :: endian
  m_fill :: byte

definition fresh_page :: "ByteArray \<Rightarrow> byte list" where
  "fresh_page b = replicate (m_baseSize b) (m_fill b)"

definition bytearray_new :: "byte \<Rightarrow> nat \<Rightarrow> ByteArray" where
  "bytearray_new fill base_size =
     \<lparr>m_nodes = [replicate base_size fill], m_curr = Some 0, m_baseSize = base_size, m_capacity = base_size,
      m_position = 0, m_size = 0, m_endian = Big, m_fill = fill\<rparr>"

definition isLittleEndian :: "ByteArray \<Rightarrow> bool" where
  "isLittleEndian b \<longleftrightarrow> m_endian b = Little"

definition setLittleEndian :: "bool \<Rightarrow> ByteArray \<Rightarrow> ByteArray" where
  "setLittleEndian val b = b\<lparr>m_endian := if val then Little else Big\<rparr>"

definition getReadSize :: "ByteArray \<Rightarrow> nat" where
  "getReadSize b = m_size b - m_position b"

definition getCapacity :: "ByteArray \<Rightarrow> nat res" where
  "getCapacity b = (if m_size b > m_capacity b then Inl UncaughtException else Inr (m_capacity b - m_size b))"

definition next_node :: "byte list list \<Rightarrow> nat \<Rightarrow> nat option" where
  "next_node ns c = (if Suc c < length ns then Some (Suc c) else None)"

subsection \<open>Writing and reading\<close>

definition addCapacity :: "nat \<Rightarrow> ByteArray \<Rightarrow> ByteArray res" where
  "addCapacity len b =
     bnd (getCapacity b) (\<lambda>remain.
       if len = 0 \<or> remain \<ge> len then Inr b
       else if m_baseSize b = 0 then Inl DivByZero
       else
         let count = (len - remain + m_baseSize b - 1) div m_baseSize b
         in Inr (b\<lparr>m_capacity := m_capacity b + count * m_baseSize b,
                   m_nodes := m_nodes b @ replicate count (fresh_page b),
                   m_curr := (case m_curr b of None \<Rightarrow> next_node (m_nodes b @ replicate count (fresh_page b)) (length (m_nodes b) - 1)
                              | Some c \<Rightarrow> Some c)\<rparr>))"

text \<open>\<open>memcpy\<close> into a page.\<close>

definition put :: "nat \<Rightarrow> 'a list \<Rightarrow> 'a list \<Rightarrow> 'a list" where
  "put p data xs = take p xs @ data @ drop (p + length data) xs"

function write_loop :: "byte list \<Rightarrow> nat \<Rightarrow> nat \<Rightarrow> byte list list \<Rightarrow> nat \<Rightarrow> (byte list list \<times> nat option \<times> nat) res" where
  "write_loop buf npos c ns pos =
     (let page = ns ! c; ncap = length page - npos in
      if ncap \<ge> length buf then
        Inr (ns[c := put npos buf page], (if length page = npos + length buf then next_node ns c else Some c), pos + length buf)
      else case next_node ns c of None \<Rightarrow> Inl NullDereference
        | Some c1 \<Rightarrow> write_loop (drop ncap buf) 0 c1 (ns[c := put npos (take ncap buf) page]) (pos + ncap))"
  by pat_completeness auto
termination
  by (relation "measure (\<lambda>(buf, npos, c, ns, pos). length ns - c)") (auto simp: next_node_def split: if_splits)

declare write_loop.simps [simp del]

definition ba_write :: "byte list \<Rightarrow> ByteArray \<Rightarrow> ByteArray res" where
  "ba_write buf b =
     (if buf = [] then Inr b
      else bnd (addCapacity (length buf) b) (\<lambda>b1.
        if m_baseSize b1 = 0 then Inl DivByZero
        else case m_curr b1 of None \<Rightarrow> Inl NullDereference
        | Some c \<Rightarrow>
            bnd (write_loop buf (m_position b1 mod m_baseSize b1) c (m_nodes b1) (m_position b1)) (\<lambda>(ns, curr, pos).
              let sz = max (m_size b1) pos in
              Inr (b1\<lparr>m_nodes := ns, m_curr := curr, m_position := pos, m_size := sz, m_capacity := max (m_capacity b1) sz\<rparr>))))"

function read_loop :: "nat \<Rightarrow> nat \<Rightarrow> nat \<Rightarrow> byte list list \<Rightarrow> (byte list \<times> nat option) res" where
  "read_loop len npos c ns =
     (let page = ns ! c; ncap = length page - npos in
      if ncap \<ge> len then
        Inr (take len (drop npos page), (if npos + len = length page then next_node ns c else Some c))
      else case next_node ns c of None \<Rightarrow> Inl NullDereference
        | Some c1 \<Rightarrow> bnd (read_loop (len - ncap) 0 c1 ns) (\<lambda>(out, curr). Inr (drop npos page @ out, curr)))"
  by pat_completeness auto
termination
  by (relation "measure (\<lambda>(len, npos, c, ns). length ns - c)") (auto simp: next_node_def split: if_splits)

declare read_loop.simps [simp del]

definition ba_read :: "nat \<Rightarrow> ByteArray \<Rightarrow> (byte list \<times> ByteArray) res" where
  "ba_read len b =
     (if len = 0 then Inr ([], b)
      else if len > getReadSize b then Inl UncaughtException
      else if m_baseSize b = 0 then Inl DivByZero
      else case m_curr b of None \<Rightarrow> Inl NullDereference
      | Some c \<Rightarrow>
          bnd (read_loop len (m_position b mod m_baseSize b) c (m_nodes b)) (\<lambda>(out, curr).
            Inr (out, b\<lparr>m_curr := curr, m_position := m_position b + len\<rparr>)))"

text \<open>
  Walking from the first page to a position: the page, if there is one, and what is left of the
  position.
\<close>

fun seek :: "byte list list \<Rightarrow> nat \<Rightarrow> nat \<Rightarrow> nat option \<times> nat" where
  "seek [] c tem = (None, tem)"
| "seek (page # pages) c tem = (if tem \<ge> length page then seek pages (Suc c) (tem - length page) else (Some c, tem))"

text \<open>
  Reading at a position into a buffer \<open>buf\<close>, which keeps what is not read. The loop stops at the last
  page.
\<close>

function read_at_loop :: "nat \<Rightarrow> nat \<Rightarrow> nat \<Rightarrow> byte list list \<Rightarrow> byte list" where
  "read_at_loop len npos c ns =
     (let page = ns ! c; ncap = length page - npos in
      if ncap \<ge> len then take len (drop npos page)
      else case next_node ns c of None \<Rightarrow> drop npos page
        | Some c1 \<Rightarrow> drop npos page @ read_at_loop (len - ncap) 0 c1 ns)"
  by pat_completeness auto
termination
  by (relation "measure (\<lambda>(len, npos, c, ns). length ns - c)") (auto simp: next_node_def split: if_splits)

declare read_at_loop.simps [simp del]

definition read_at :: "byte list \<Rightarrow> nat \<Rightarrow> ByteArray \<Rightarrow> byte list res" where
  "read_at buf position b =
     (let len = length buf in
      if len = 0 then Inr buf
      else if int len > (int (m_size b) - int position) mod 2 ^ 64 then Inl UncaughtException
      else case fst (seek (m_nodes b) 0 position) of None \<Rightarrow> Inr buf
      | Some c \<Rightarrow>
          if m_baseSize b = 0 then Inl DivByZero
          else Inr (put 0 (read_at_loop len (position mod m_baseSize b) c (m_nodes b)) buf))"

subsection \<open>Positions\<close>

definition setPosition :: "nat \<Rightarrow> ByteArray \<Rightarrow> ByteArray res" where
  "setPosition v b =
     (if v > m_size b then Inl UncaughtException
      else
        let (curr, tem) = seek (m_nodes b) 0 v; b1 = b\<lparr>m_position := v, m_curr := curr\<rparr> in
        if tem = 0 \<and> v = m_size b then
          (case curr of None \<Rightarrow> Inr b1
           | Some c \<Rightarrow>
               if next_node (m_nodes b) c = None
               then Inr (b1\<lparr>m_nodes := m_nodes b @ [fresh_page b], m_capacity := m_capacity b + m_baseSize b, m_curr := Some (Suc c)\<rparr>)
               else Inr b1)
        else Inr b1)"

definition setSize :: "nat \<Rightarrow> ByteArray \<Rightarrow> ByteArray" where
  "setSize v b = (if m_size b < v then b\<lparr>m_size := v\<rparr> else b)"

definition clear :: "ByteArray \<Rightarrow> ByteArray" where
  "clear b = b\<lparr>m_position := 0, m_size := 0, m_capacity := m_baseSize b, m_nodes := take 1 (m_nodes b), m_curr := Some 0\<rparr>"

definition toString :: "ByteArray \<Rightarrow> byte list res" where
  "toString b = (if getReadSize b = 0 then Inr [] else read_at (replicate (getReadSize b) 0) (m_position b) b)"

text \<open>In hexadecimal, 32 bytes to a line.\<close>

definition hex_digit :: "nat \<Rightarrow> char" where
  "hex_digit n = ''0123456789abcdef'' ! n"

definition toHexString :: "ByteArray \<Rightarrow> string res" where
  "toHexString b = bnd (toString b) (\<lambda>bytes.
     Inr (concat (map (\<lambda>(i, v). (if 0 < i \<and> i mod 32 = 0 then [LF] else [])
       @ [hex_digit (unat v div 16), hex_digit (unat v mod 16)] @ '' '') (enumerate 0 bytes))))"

subsection \<open>Typed values\<close>

definition writeF :: "endian \<Rightarrow> 'a::len word \<Rightarrow> ByteArray \<Rightarrow> ByteArray res" where
  "writeF host val b = ba_write (to_wire host (m_endian b) val) b"

definition readF :: "endian \<Rightarrow> ByteArray \<Rightarrow> ('a::len word \<times> ByteArray) res" where
  "readF host b = bnd (ba_read (LENGTH('a) div 8) b) (\<lambda>(v, b1). Inr (from_wire host (m_endian b1) v, b1))"

definition writeFuint8 :: "byte \<Rightarrow> ByteArray \<Rightarrow> ByteArray res" where
  "writeFuint8 val b = ba_write [val] b"

definition readFuint8 :: "ByteArray \<Rightarrow> (byte \<times> ByteArray) res" where
  "readFuint8 b = bnd (ba_read 1 b) (\<lambda>(v, b1). Inr (hd v, b1))"

definition writeFuint16 :: "endian \<Rightarrow> 16 word \<Rightarrow> ByteArray \<Rightarrow> ByteArray res" where
  "writeFuint16 = writeF"

definition writeFuint32 :: "endian \<Rightarrow> 32 word \<Rightarrow> ByteArray \<Rightarrow> ByteArray res" where
  "writeFuint32 = writeF"

definition writeFuint64 :: "endian \<Rightarrow> 64 word \<Rightarrow> ByteArray \<Rightarrow> ByteArray res" where
  "writeFuint64 = writeF"

definition readFuint16 :: "endian \<Rightarrow> ByteArray \<Rightarrow> (16 word \<times> ByteArray) res" where
  "readFuint16 = readF"

definition readFuint32 :: "endian \<Rightarrow> ByteArray \<Rightarrow> (32 word \<times> ByteArray) res" where
  "readFuint32 = readF"

definition readFuint64 :: "endian \<Rightarrow> ByteArray \<Rightarrow> (64 word \<times> ByteArray) res" where
  "readFuint64 = readF"

text \<open>The signed versions and the floating-point numbers, as bit patterns.\<close>

definition writeFint8 :: "byte \<Rightarrow> ByteArray \<Rightarrow> ByteArray res" where
  "writeFint8 = writeFuint8"

definition readFint8 :: "ByteArray \<Rightarrow> (byte \<times> ByteArray) res" where
  "readFint8 = readFuint8"

definition writeFint16 :: "endian \<Rightarrow> 16 word \<Rightarrow> ByteArray \<Rightarrow> ByteArray res" where
  "writeFint16 = writeF"

definition writeFint32 :: "endian \<Rightarrow> 32 word \<Rightarrow> ByteArray \<Rightarrow> ByteArray res" where
  "writeFint32 = writeF"

definition writeFint64 :: "endian \<Rightarrow> 64 word \<Rightarrow> ByteArray \<Rightarrow> ByteArray res" where
  "writeFint64 = writeF"

definition readFint16 :: "endian \<Rightarrow> ByteArray \<Rightarrow> (16 word \<times> ByteArray) res" where
  "readFint16 = readF"

definition readFint32 :: "endian \<Rightarrow> ByteArray \<Rightarrow> (32 word \<times> ByteArray) res" where
  "readFint32 = readF"

definition readFint64 :: "endian \<Rightarrow> ByteArray \<Rightarrow> (64 word \<times> ByteArray) res" where
  "readFint64 = readF"

definition writeFloat :: "endian \<Rightarrow> 32 word \<Rightarrow> ByteArray \<Rightarrow> ByteArray res" where
  "writeFloat host val = writeFint32 host val"

definition readFloat :: "endian \<Rightarrow> ByteArray \<Rightarrow> (32 word \<times> ByteArray) res" where
  "readFloat host = readFint32 host"

definition writeDouble :: "endian \<Rightarrow> 64 word \<Rightarrow> ByteArray \<Rightarrow> ByteArray res" where
  "writeDouble host val = writeFint64 host val"

definition readDouble :: "endian \<Rightarrow> ByteArray \<Rightarrow> (64 word \<times> ByteArray) res" where
  "readDouble host = readFint64 host"

text \<open>Integers of variable length.\<close>

definition writeUint32 :: "32 word \<Rightarrow> ByteArray \<Rightarrow> ByteArray res" where
  "writeUint32 val b = ba_write (varint32 val) b"

definition writeUint64 :: "64 word \<Rightarrow> ByteArray \<Rightarrow> ByteArray res" where
  "writeUint64 val b = ba_write (varint64 val) b"

definition writeInt32 :: "32 word \<Rightarrow> ByteArray \<Rightarrow> ByteArray res" where
  "writeInt32 val = writeUint32 (EncodeZigzag val)"

definition writeInt64 :: "64 word \<Rightarrow> ByteArray \<Rightarrow> ByteArray res" where
  "writeInt64 val = writeUint64 (EncodeZigzag64 val)"

function readUint_loop :: "nat \<Rightarrow> 'a::len word \<Rightarrow> ByteArray \<Rightarrow> ('a word \<times> ByteArray) res" where
  "readUint_loop i v b =
     bnd (readFuint8 b) (\<lambda>(tem, b1).
       if LENGTH('a) \<le> 7 * i then Inl BadShift
       else let v1 = v OR push_bit (7 * i) (ucast (tem AND 0x7F)) in
            if tem AND 0x80 = 0 then Inr (v1, b1) else readUint_loop (Suc i) v1 b1)"
  by pat_completeness auto
termination
  by (relation "measure (\<lambda>(i, v :: 'a word, b). LENGTH('a) - 7 * i)") auto

declare readUint_loop.simps [simp del]

definition readUint32 :: "ByteArray \<Rightarrow> (32 word \<times> ByteArray) res" where
  "readUint32 b = readUint_loop 0 0 b"

definition readUint64 :: "ByteArray \<Rightarrow> (64 word \<times> ByteArray) res" where
  "readUint64 b = readUint_loop 0 0 b"

definition readInt32 :: "ByteArray \<Rightarrow> (32 word \<times> ByteArray) res" where
  "readInt32 b = bnd (readUint32 b) (\<lambda>(uv, b1). Inr (DecodeZigzag uv, b1))"

definition readInt64 :: "ByteArray \<Rightarrow> (64 word \<times> ByteArray) res" where
  "readInt64 b = bnd (readUint64 b) (\<lambda>(uv, b1). Inr (DecodeZigzag64 uv, b1))"

text \<open>Strings with their length in front.\<close>

definition writeString16 :: "endian \<Rightarrow> byte list \<Rightarrow> ByteArray \<Rightarrow> ByteArray res" where
  "writeString16 host val b = bnd (writeFuint16 host (of_nat (length val)) b) (ba_write val)"

definition writeString32 :: "endian \<Rightarrow> byte list \<Rightarrow> ByteArray \<Rightarrow> ByteArray res" where
  "writeString32 host val b = bnd (writeFuint32 host (of_nat (length val)) b) (ba_write val)"

definition writeString64 :: "endian \<Rightarrow> byte list \<Rightarrow> ByteArray \<Rightarrow> ByteArray res" where
  "writeString64 host val b = bnd (writeFuint64 host (of_nat (length val)) b) (ba_write val)"

definition writeStringVint :: "endian \<Rightarrow> byte list \<Rightarrow> ByteArray \<Rightarrow> ByteArray res" where
  "writeStringVint host val b = bnd (writeFuint64 host (of_nat (length val)) b) (ba_write val)"

definition writeStringLength :: "byte list \<Rightarrow> ByteArray \<Rightarrow> ByteArray res" where
  "writeStringLength val b = ba_write val b"

definition readString16 :: "endian \<Rightarrow> ByteArray \<Rightarrow> (byte list \<times> ByteArray) res" where
  "readString16 host b = bnd (readFuint16 host b) (\<lambda>(n, b1). ba_read (unat n) b1)"

definition readString32 :: "endian \<Rightarrow> ByteArray \<Rightarrow> (byte list \<times> ByteArray) res" where
  "readString32 host b = bnd (readFuint32 host b) (\<lambda>(n, b1). ba_read (unat n) b1)"

definition readString64 :: "endian \<Rightarrow> ByteArray \<Rightarrow> (byte list \<times> ByteArray) res" where
  "readString64 host b = bnd (readFuint64 host b) (\<lambda>(n, b1). ba_read (unat n) b1)"

definition readStringVint :: "endian \<Rightarrow> ByteArray \<Rightarrow> (byte list \<times> ByteArray) res" where
  "readStringVint host b = bnd (readFuint64 host b) (\<lambda>(n, b1). ba_read (unat n) b1)"

subsection \<open>Files and scatter lists\<close>

text \<open>What \<open>writeToFile\<close> writes, page by page; \<open>readsize\<close> is left over when the pages end.\<close>

function file_loop :: "nat \<Rightarrow> nat \<Rightarrow> nat \<Rightarrow> ByteArray \<Rightarrow> byte list \<times> nat" where
  "file_loop readsize position c b =
     (if c < length (m_nodes b) \<and> readsize > 0 then
        let page = m_nodes b ! c; npos = position mod m_baseSize b; n = min readsize (length page - npos);
            (out, rest) = file_loop (readsize - n) (position + n) (Suc c) b
        in (take n (drop npos page) @ out, rest)
      else ([], readsize))"
  by pat_completeness auto
termination
  by (relation "measure (\<lambda>(readsize, position, c, b). length (m_nodes b) - c)") auto

declare file_loop.simps [simp del]

text \<open>\<open>None\<close>: the file could not be opened.\<close>

definition writeToFile :: "bool \<Rightarrow> ByteArray \<Rightarrow> (byte list \<times> bool) option" where
  "writeToFile opens b =
     (if \<not> opens then None
      else Some (case m_curr b of None \<Rightarrow> ([], getReadSize b = 0)
                 | Some c \<Rightarrow> let (out, rest) = file_loop (getReadSize b) (m_position b) c b in (out, rest = 0)))"

function readFromFile_loop :: "byte list \<Rightarrow> ByteArray \<Rightarrow> ByteArray res" where
  "readFromFile_loop content b =
     (if m_baseSize b = 0 then Inl Diverges
      else bnd (ba_write (take (m_baseSize b) content) b) (\<lambda>b1.
        if length content < m_baseSize b then Inr b1 else readFromFile_loop (drop (m_baseSize b) content) b1))"
  by pat_completeness auto
termination
  by (relation "measure (\<lambda>(content, b). length content)") auto

declare readFromFile_loop.simps [simp del]

definition readFromFile :: "byte list option \<Rightarrow> ByteArray \<Rightarrow> (bool \<times> ByteArray) res" where
  "readFromFile file b =
     (case file of None \<Rightarrow> Inr (False, b) | Some content \<Rightarrow> bnd (readFromFile_loop content b) (\<lambda>b1. Inr (True, b1)))"

text \<open>A scatter entry: page, offset and length.\<close>

type_synonym iovec = "nat \<times> nat \<times> nat"

function iov_loop :: "nat \<Rightarrow> nat \<Rightarrow> nat \<Rightarrow> byte list list \<Rightarrow> iovec list \<times> nat" where
  "iov_loop n npos c ns =
     (let ncap = length (ns ! c) - npos in
      if ncap \<ge> n then ([(c, npos, n)], 0)
      else case next_node ns c of None \<Rightarrow> ([], n - ncap)
        | Some c1 \<Rightarrow> let (vs, rest) = iov_loop (n - ncap) 0 c1 ns in ((c, npos, ncap) # vs, rest))"
  by pat_completeness auto
termination
  by (relation "measure (\<lambda>(n, npos, c, ns). length ns - c)") (auto simp: next_node_def split: if_splits)

declare iov_loop.simps [simp del]

definition getReadBuffers :: "nat \<Rightarrow> ByteArray \<Rightarrow> (iovec list \<times> nat) res" where
  "getReadBuffers n b =
     (let n1 = min n (getReadSize b) in
      if n1 = 0 then Inr ([], 0)
      else case m_curr b of None \<Rightarrow> Inl NullDereference
      | Some c \<Rightarrow>
          if m_baseSize b = 0 then Inl DivByZero
          else let (vs, rest) = iov_loop n1 (m_position b mod m_baseSize b) c (m_nodes b) in Inr (vs, n1 - rest))"

definition getReadBuffers_at :: "nat \<Rightarrow> nat \<Rightarrow> ByteArray \<Rightarrow> (iovec list \<times> nat) res" where
  "getReadBuffers_at n position b =
     (if position < m_size b then Inl UncaughtException
      else
        let n1 = min n (nat ((int (m_size b) - int position) mod 2 ^ 64)) in
        if n1 = 0 then Inr ([], 0)
        else case fst (seek (m_nodes b) 0 position) of None \<Rightarrow> Inr ([], 0)
        | Some c \<Rightarrow>
            if m_baseSize b = 0 then Inl DivByZero
            else let (vs, rest) = iov_loop n1 (position mod m_baseSize b) c (m_nodes b) in Inr (vs, n1 - rest))"

text \<open>For writing, pages are appended when they run out; \<open>fresh\<close> is a new page, which is not empty, and \<open>c\<close> is
  the number of a page.\<close>

function write_iov_loop :: "byte list \<Rightarrow> nat \<Rightarrow> nat \<Rightarrow> nat \<Rightarrow> byte list list \<Rightarrow> iovec list \<times> byte list list" where
  "write_iov_loop fresh n npos c ns =
     (let ncap = length (ns ! c) - npos in
      if ncap \<ge> n \<or> fresh = [] \<or> c \<ge> length ns then ([(c, npos, n)], ns)
      else let ns1 = (if next_node ns c = None then ns @ [fresh] else ns);
               (vs, ns2) = write_iov_loop fresh (n - ncap) 0 (Suc c) ns1
           in ((c, npos, ncap) # vs, ns2))"
  by pat_completeness auto
termination
proof (relation "measure (\<lambda>(fresh, n, npos, c, ns). n + (length ns - c) + (if length (ns ! c) \<le> npos then 1 else 0))", goal_cases)
  case (2 fresh n npos c ns ncap ns1)
  then show ?case by (auto simp: next_node_def nth_append split: if_splits)
qed simp

declare write_iov_loop.simps [simp del]

definition getWriteBuffers :: "nat \<Rightarrow> ByteArray \<Rightarrow> (iovec list \<times> nat \<times> ByteArray) res" where
  "getWriteBuffers n b =
     (if n = 0 then Inr ([], 0, b)
      else bnd (addCapacity n b) (\<lambda>b1.
        if m_baseSize b1 = 0 then Inl DivByZero
        else case m_curr b1 of None \<Rightarrow> Inl NullDereference
        | Some c \<Rightarrow>
            let (vs, ns) = write_iov_loop (fresh_page b1) n (m_position b1 mod m_baseSize b1) c (m_nodes b1)
            in Inr (vs, n, b1\<lparr>m_nodes := ns, m_capacity := m_capacity b1 + (length ns - length (m_nodes b1)) * m_baseSize b1\<rparr>)))"

end
