(* ===== verification/ByteArraySpec.thy ===== *)
theory ByteArraySpec
  imports ByteArray
begin

text \<open>
  The paged buffer implements a flat sequence of bytes with a position: an invariant of the pages,
  what writing, reading and positioning do to the sequence, the round trip of sequences of typed
  values, and where the code departs from it.
\<close>

subsection \<open>Pages as one sequence\<close>

definition pages_ok :: "nat \<Rightarrow> byte list list \<Rightarrow> bool" where
  "pages_ok base ns \<longleftrightarrow> (\<forall>p \<in> set ns. length p = base)"

lemma length_put [simp]: "p + length d \<le> length xs \<Longrightarrow> length (put p d xs) = length xs"
  by (simp add: put_def)

lemma put_append1: "p + length d \<le> length xs \<Longrightarrow> put p d (xs @ ys) = put p d xs @ ys"
  by (simp add: put_def)

lemma put_append2: "length xs \<le> p \<Longrightarrow> put p d (xs @ ys) = xs @ put (p - length xs) d ys"
  by (simp add: put_def)

lemma put_put: "p + length d1 \<le> length xs \<Longrightarrow> put (p + length d1) d2 (put p d1 xs) = put p (d1 @ d2) xs"
  by (simp add: put_def min_absorb2 ac_simps)

lemma pages_length: "pages_ok base ns \<Longrightarrow> length (concat ns) = length ns * base"
  by (induction ns) (auto simp: pages_ok_def)

lemma concat_put:
  assumes "pages_ok base ns" and "c < length ns" and "npos + length d \<le> base"
  shows "concat (ns[c := put npos d (ns ! c)]) = put (c * base + npos) d (concat ns)"
  using assms
proof (induction ns arbitrary: c)
  case (Cons p ns)
  then have p: "length p = base" "pages_ok base ns" by (auto simp: pages_ok_def)
  show ?case
  proof (cases c)
    case 0
    then show ?thesis using Cons.prems p(1) by (simp add: put_append1)
  next
    case (Suc c')
    then show ?thesis using Cons.IH [of c'] Cons.prems p by (simp add: put_append2 add.assoc)
  qed
qed simp

lemma drop_pages:
  assumes "pages_ok base ns" and "c < length ns"
  shows "drop (c * base) (concat ns) = ns ! c @ drop (Suc c * base) (concat ns)"
  using assms
proof (induction ns arbitrary: c)
  case (Cons p ns)
  then show ?case by (cases c) (auto simp: pages_ok_def add.commute)
qed simp

lemma drop_at:
  assumes "pages_ok base ns" and "c < length ns" and "npos < base"
  shows "drop (c * base + npos) (concat ns) = drop npos (ns ! c) @ drop (Suc c * base) (concat ns)"
proof -
  have "drop (c * base + npos) (concat ns) = drop npos (drop (c * base) (concat ns))" by (simp add: add.commute)
  also have "\<dots> = drop npos (ns ! c @ drop (Suc c * base) (concat ns))" by (simp only: drop_pages [OF assms(1,2)])
  finally show ?thesis using assms by (simp add: pages_ok_def)
qed

lemma more_pages:
  assumes "c < length ns" and "npos < base" and "c * base + npos + n \<le> length ns * base" and "\<not> n \<le> base - npos"
  shows "Suc c < length ns" and "next_node ns c = Some (Suc c)"
proof -
  show "Suc c < length ns"
  proof (rule ccontr)
    assume "\<not> Suc c < length ns"
    then have "length ns = Suc c" using assms(1) by simp
    then show False using assms(2-4) by simp
  qed
  then show "next_node ns c = Some (Suc c)" by (simp add: next_node_def)
qed

lemma pages_ok_update: "pages_ok base ns \<Longrightarrow> length x = base \<Longrightarrow> pages_ok base (ns[c := x])"
  by (auto simp: pages_ok_def dest: set_update_subset_insert [THEN subsetD])

definition page_at :: "nat \<Rightarrow> nat \<Rightarrow> nat \<Rightarrow> nat option" where
  "page_at base n p = (if p div base < n then Some (p div base) else None)"

lemma page_at_end: "0 < base \<Longrightarrow> npos + k = base \<Longrightarrow> page_at base (length ns) (c * base + npos + k) = next_node ns c"
  by (simp add: page_at_def next_node_def add.assoc)

lemma page_at_inside: "npos + k < base \<Longrightarrow> c < n \<Longrightarrow> page_at base n (c * base + npos + k) = Some c"
  by (simp add: page_at_def add.assoc)

lemma write_loop_flat:
  assumes "pages_ok base ns" and "0 < base" and "c < length ns" and "npos < base" and "c * base + npos + length buf \<le> length ns * base"
  shows "\<exists>ns1. write_loop buf npos c ns pos = Inr (ns1, page_at base (length ns) (c * base + npos + length buf), pos + length buf) \<and>
    concat ns1 = put (c * base + npos) buf (concat ns) \<and> pages_ok base ns1 \<and> length ns1 = length ns"
  using assms
proof (induction buf npos c ns pos rule: write_loop.induct)
  case (1 buf npos c ns pos)
  have l: "length (ns ! c) = base" using 1(2,4) by (simp add: pages_ok_def)
  show ?case
  proof (cases "length buf \<le> base - npos")
    case True
    then have le: "npos + length buf \<le> base" using 1(5) by simp
    then have "pages_ok base (ns[c := put npos buf (ns ! c)])" using 1(2) l by (simp add: pages_ok_update)
    moreover have "page_at base (length ns) (c * base + npos + length buf) =
        (if base = npos + length buf then next_node ns c else Some c)"
      using le 1(3,4) page_at_end [of base npos "length buf" ns c] page_at_inside [of npos "length buf" base c "length ns"] by auto
    ultimately show ?thesis using True l concat_put [OF 1(2,4) le] by (simp add: write_loop.simps [of buf])
  next
    case False
    let ?ncap = "base - npos" and ?ns = "ns[c := put npos (take (base - npos) buf) (ns ! c)]"
    note c1 = more_pages(1) [OF 1(4,5,6) False] and nx = more_pages(2) [OF 1(4,5,6) False]
    have t: "length (take ?ncap buf) = ?ncap" using False by simp
    have ok: "pages_ok base ?ns" using 1(2,5) l t by (simp add: pages_ok_update)
    have e: "Suc c * base + 0 + length (drop ?ncap buf) = c * base + npos + length buf" using False 1(5) by simp
    from 1(1) [OF refl, of "length (ns ! c) - npos", simplified l, OF refl] False nx ok c1 1(3,6) e
    obtain ns1 where ns1: "write_loop (drop ?ncap buf) 0 (Suc c) ?ns (pos + ?ncap) =
        Inr (ns1, page_at base (length ns) (c * base + npos + length buf), pos + ?ncap + length (drop ?ncap buf))"
      "concat ns1 = put (Suc c * base) (drop ?ncap buf) (concat ?ns)" "pages_ok base ns1" "length ns1 = length ns"
      by auto
    have "concat ?ns = put (c * base + npos) (take ?ncap buf) (concat ns)" using 1(5) t by (intro concat_put [OF 1(2,4)]) simp
    moreover have "Suc c * base = c * base + npos + length (take ?ncap buf)" using t 1(5) by simp
    moreover have "c * base + npos + length (take ?ncap buf) \<le> length (concat ns)"
      using pages_length [OF 1(2)] 1(6) t False by simp
    ultimately have "concat ns1 = put (c * base + npos) buf (concat ns)"
      using ns1(2) put_put [of "c * base + npos" "take ?ncap buf" "concat ns" "drop ?ncap buf"] by (simp add: add.commute)
    then show ?thesis using ns1 False l nx by (simp add: write_loop.simps [of buf])
  qed
qed

lemma read_loop_flat:
  assumes "pages_ok base ns" and "0 < base" and "c < length ns" and "npos < base" and "c * base + npos + n \<le> length ns * base"
  shows "read_loop n npos c ns = Inr (take n (drop (c * base + npos) (concat ns)), page_at base (length ns) (c * base + npos + n))"
  using assms
proof (induction n npos c ns rule: read_loop.induct)
  case (1 n npos c ns)
  have l: "length (ns ! c) = base" using 1(2,4) by (simp add: pages_ok_def)
  note d = drop_at [OF 1(2,4,5)]
  show ?case
  proof (cases "n \<le> base - npos")
    case True
    then have "page_at base (length ns) (c * base + npos + n) = (if npos + n = base then next_node ns c else Some c)"
      using 1(3,4,5) page_at_end [of base npos n ns c] page_at_inside [of npos n base c "length ns"] by auto
    then show ?thesis using True l d by (simp add: read_loop.simps [of n])
  next
    case False
    note c1 = more_pages(1) [OF 1(4,5,6) False] and nx = more_pages(2) [OF 1(4,5,6) False]
    have e: "Suc c * base + 0 + (n - (base - npos)) = c * base + npos + n" using False 1(5) by simp
    have "read_loop (n - (base - npos)) 0 (Suc c) ns =
        Inr (take (n - (base - npos)) (drop (Suc c * base) (concat ns)), page_at base (length ns) (c * base + npos + n))"
      using 1(1) [OF refl, of "length (ns ! c) - npos", simplified l, OF refl] False nx c1 1(2,3,6) e by auto
    then show ?thesis using False l nx d by (simp add: read_loop.simps [of n])
  qed
qed

subsection \<open>The invariant\<close>

definition ba_ok :: "ByteArray \<Rightarrow> bool" where
  "ba_ok b \<longleftrightarrow> 0 < m_baseSize b \<and> m_nodes b \<noteq> [] \<and> pages_ok (m_baseSize b) (m_nodes b) \<and>
     m_capacity b = length (m_nodes b) * m_baseSize b \<and> m_position b \<le> m_size b \<and> m_size b \<le> m_capacity b \<and>
     m_curr b = page_at (m_baseSize b) (length (m_nodes b)) (m_position b)"

text \<open>What has been written.\<close>

definition data :: "ByteArray \<Rightarrow> byte list" where
  "data b = take (m_size b) (concat (m_nodes b))"

lemma ba_ok_new: "0 < base \<Longrightarrow> ba_ok (bytearray_new x base) \<and> data (bytearray_new x base) = []"
  by (simp add: ba_ok_def bytearray_new_def pages_ok_def page_at_def data_def)

lemma length_data: "ba_ok b \<Longrightarrow> length (data b) = m_size b"
  using pages_length [of "m_baseSize b" "m_nodes b"] by (simp add: ba_ok_def data_def)

lemma addCapacity_ok:
  assumes "ba_ok b" and "0 < n"
  shows "\<exists>b1. addCapacity n b = Inr b1 \<and> ba_ok b1 \<and> data b1 = data b \<and> m_position b1 = m_position b \<and> m_size b1 = m_size b \<and>
    m_baseSize b1 = m_baseSize b \<and> m_endian b1 = m_endian b \<and> m_size b + n \<le> m_capacity b1"
proof (cases "n \<le> m_capacity b - m_size b")
  case True
  then have "addCapacity n b = Inr b" using assms by (auto simp: addCapacity_def getCapacity_def ba_ok_def)
  then show ?thesis using True assms by (auto simp: ba_ok_def)
next
  case False
  let ?base = "m_baseSize b"
  define count where "count = (n - (m_capacity b - m_size b) + ?base - 1) div ?base"
  have base: "0 < ?base" using assms(1) by (simp add: ba_ok_def)
  have need: "n - (m_capacity b - m_size b) \<le> count * ?base"
  proof -
    have "n - (m_capacity b - m_size b) + ?base - 1 = count * ?base + (n - (m_capacity b - m_size b) + ?base - 1) mod ?base"
      unfolding count_def by simp
    moreover have "(n - (m_capacity b - m_size b) + ?base - 1) mod ?base < ?base" using base by simp
    ultimately show ?thesis by linarith
  qed
  have pos: "0 < count" using False base unfolding count_def by (simp add: div_greater_zero_iff)
  let ?b = "b\<lparr>m_capacity := m_capacity b + count * ?base, m_nodes := m_nodes b @ replicate count (fresh_page b),
      m_curr := (case m_curr b of None \<Rightarrow> next_node (m_nodes b @ replicate count (fresh_page b)) (length (m_nodes b) - 1) | Some c \<Rightarrow> Some c)\<rparr>"
  have add: "addCapacity n b = Inr ?b"
  proof -
    have "\<not> m_capacity b < m_size b" "\<not> (n = 0 \<or> n \<le> m_capacity b - m_size b)" "m_baseSize b \<noteq> 0"
      using assms False base by (auto simp: ba_ok_def)
    then show ?thesis unfolding addCapacity_def getCapacity_def count_def Let_def by simp
  qed
  have le: "m_position b \<le> length (m_nodes b) * ?base" using assms(1) by (auto simp: ba_ok_def)
  then have "m_position b div ?base \<le> length (m_nodes b)" using div_le_mono [OF le, of ?base] base by simp
  then have "m_curr ?b = page_at ?base (length (m_nodes ?b)) (m_position b)"
    using assms(1) pos by (auto simp: ba_ok_def page_at_def next_node_def)
  moreover have "pages_ok ?base (m_nodes ?b)" using assms(1) by (auto simp: ba_ok_def pages_ok_def fresh_page_def)
  ultimately have "ba_ok ?b" using assms(1) by (auto simp: ba_ok_def algebra_simps)
  moreover have "data ?b = data b" using assms(1) pages_length [of ?base "m_nodes b"] by (simp add: ba_ok_def data_def)
  moreover have "m_size b + n \<le> m_capacity ?b" using need assms(1) by (simp add: ba_ok_def)
  ultimately show ?thesis using add by auto
qed

lemma take_put:
  assumes "p \<le> m" and "max m (p + length d) \<le> length f"
  shows "take (max m (p + length d)) (put p d f) = put p d (take m f)"
proof (cases "p + length d \<le> m")
  case True
  then have "take m (take p f @ d @ drop (p + length d) f) = take p f @ d @ take (m - (p + length d)) (drop (p + length d) f)"
    using assms by (simp add: min_absorb2)
  then show ?thesis using True assms by (simp add: put_def drop_take min_absorb1 max_absorb1)
next
  case False
  then show ?thesis using assms by (simp add: put_def min_absorb2 max_absorb2)
qed

text \<open>Writing replaces the bytes at the position, extending the sequence when it passes its end.\<close>

lemma ba_write_flat:
  assumes "ba_ok b"
  shows "\<exists>b1. ba_write buf b = Inr b1 \<and> ba_ok b1 \<and> data b1 = put (m_position b) buf (data b) \<and>
    m_position b1 = m_position b + length buf \<and> m_endian b1 = m_endian b \<and> m_baseSize b1 = m_baseSize b"
proof (cases "buf = []")
  case True
  then show ?thesis using assms by (simp add: ba_write_def put_def)
next
  case False
  let ?base = "m_baseSize b"
  obtain b1 where b1: "addCapacity (length buf) b = Inr b1" "ba_ok b1" "data b1 = data b" "m_position b1 = m_position b"
      "m_size b1 = m_size b" "m_baseSize b1 = ?base" "m_endian b1 = m_endian b" "m_size b + length buf \<le> m_capacity b1"
    using addCapacity_ok [OF assms, of "length buf"] False by auto
  have ok: "0 < ?base" "pages_ok ?base (m_nodes b1)" "m_capacity b1 = length (m_nodes b1) * ?base" "m_position b \<le> m_size b"
      "m_curr b1 = page_at ?base (length (m_nodes b1)) (m_position b)"
    using b1 by (auto simp: ba_ok_def)
  let ?c = "m_position b div ?base" and ?npos = "m_position b mod ?base"
  have p: "?c * ?base + ?npos = m_position b" by simp
  have fits: "m_position b + length buf \<le> length (m_nodes b1) * ?base" using b1(8) ok(3,4) by simp
  then have "m_position b < length (m_nodes b1) * ?base" using False by (cases buf) auto
  then have c: "?c < length (m_nodes b1)" by (simp add: less_mult_imp_div_less)
  then have cur: "m_curr b1 = Some ?c" using ok(5) by (simp add: page_at_def)
  obtain ns where ns: "write_loop buf ?npos ?c (m_nodes b1) (m_position b) =
      Inr (ns, page_at ?base (length (m_nodes b1)) (m_position b + length buf), m_position b + length buf)"
    "concat ns = put (m_position b) buf (concat (m_nodes b1))" "pages_ok ?base ns" "length ns = length (m_nodes b1)"
    using write_loop_flat [OF ok(2,1) c, of ?npos buf "m_position b"] ok(1) fits p by auto
  let ?sz = "max (m_size b) (m_position b + length buf)"
  have cap: "?sz \<le> m_capacity b1" using b1(8) ok(4) by simp
  let ?b = "b1\<lparr>m_nodes := ns, m_curr := page_at ?base (length (m_nodes b1)) (m_position b + length buf), m_position := m_position b + length buf, m_size := ?sz\<rparr>"
  have w: "ba_write buf b = Inr ?b" using False b1 ok(1) cur ns(1) cap by (simp add: ba_write_def max_absorb1)
  have "ba_ok ?b" using ns(3,4) b1(2,6) cap ok(3) by (auto simp: ba_ok_def)
  moreover have "data ?b = put (m_position b) buf (data b)"
  proof -
    let ?f = "concat (m_nodes b1)"
    have "length ?f = m_capacity b1" using pages_length [OF ok(2)] ok(3) by simp
    then have "take ?sz (put (m_position b) buf ?f) = put (m_position b) buf (take (m_size b) ?f)"
      using cap ok(4) by (intro take_put) simp_all
    then show ?thesis using ns(2) b1(3,5) by (simp add: data_def)
  qed
  ultimately show ?thesis using w b1(6,7) by auto
qed

lemma ba_read_flat:
  assumes "ba_ok b"
  shows "if n \<le> m_size b - m_position b
    then \<exists>b1. ba_read n b = Inr (take n (drop (m_position b) (data b)), b1) \<and> ba_ok b1 \<and> data b1 = data b \<and>
      m_position b1 = m_position b + n \<and> m_size b1 = m_size b \<and> m_endian b1 = m_endian b \<and> m_baseSize b1 = m_baseSize b
    else ba_read n b = Inl UncaughtException"
proof (cases "0 < n \<and> n \<le> m_size b - m_position b")
  case True
  let ?base = "m_baseSize b"
  have ok: "0 < ?base" "pages_ok ?base (m_nodes b)" "m_capacity b = length (m_nodes b) * ?base" "m_position b \<le> m_size b" "m_size b \<le> m_capacity b"
      "m_curr b = page_at ?base (length (m_nodes b)) (m_position b)"
    using assms by (auto simp: ba_ok_def)
  let ?c = "m_position b div ?base" and ?npos = "m_position b mod ?base"
  have p: "?c * ?base + ?npos = m_position b" by simp
  have fits: "m_position b + n \<le> length (m_nodes b) * ?base" using True ok(3-5) by linarith
  then have c: "?c < length (m_nodes b)" using True by (intro less_mult_imp_div_less) linarith
  have r: "read_loop n ?npos ?c (m_nodes b) =
      Inr (take n (drop (m_position b) (concat (m_nodes b))), page_at ?base (length (m_nodes b)) (m_position b + n))"
    using read_loop_flat [OF ok(2,1) c, of ?npos n] ok(1) fits p by simp
  let ?b = "b\<lparr>m_curr := page_at ?base (length (m_nodes b)) (m_position b + n), m_position := m_position b + n\<rparr>"
  have "m_position b + n \<le> m_size b" using True by linarith
  then have "ba_ok ?b" "take n (drop (m_position b) (concat (m_nodes b))) = take n (drop (m_position b) (data b))"
    using assms by (simp_all add: ba_ok_def data_def drop_take min_absorb1)
  moreover have "m_curr b = Some ?c" using ok(6) c by (simp add: page_at_def)
  then have "ba_read n b = Inr (take n (drop (m_position b) (concat (m_nodes b))), ?b)"
    using True ok(1) r by (simp add: ba_read_def getReadSize_def)
  ultimately show ?thesis using True by (simp add: data_def)
next
  case False
  then show ?thesis using assms by (auto simp: ba_read_def getReadSize_def)
qed

lemma seek_pages:
  assumes "pages_ok base ns" and "0 < base" and "v \<le> length ns * base"
  shows "seek ns c v = (if v div base < length ns then (Some (c + v div base), v mod base) else (None, 0))"
  using assms
proof (induction ns arbitrary: c v)
  case (Cons p ns)
  then have p: "length p = base" "pages_ok base ns" by (auto simp: pages_ok_def)
  show ?case
  proof (cases "base \<le> v")
    case True
    then have "v div base = Suc ((v - base) div base)" "v mod base = (v - base) mod base"
      using Cons.prems(2) by (simp_all add: le_div_geq le_mod_geq)
    then show ?thesis using True Cons.IH [OF p(2) Cons.prems(2), of "v - base" "Suc c"] Cons.prems(3) p(1) by simp
  next
    case False
    then show ?thesis using p(1) by simp
  qed
qed simp

text \<open>
  Setting the position keeps the sequence, except at its end: when the end is the first byte of the
  last page, the page is skipped.
\<close>

lemma setPosition_flat:
  assumes "ba_ok b" and "v \<le> m_size b" and "v = m_size b \<Longrightarrow> v mod m_baseSize b = 0 \<Longrightarrow> Suc (v div m_baseSize b) \<noteq> length (m_nodes b)"
  shows "\<exists>b1. setPosition v b = Inr b1 \<and> ba_ok b1 \<and> data b1 = data b \<and> m_position b1 = v \<and> m_size b1 = m_size b \<and>
    m_endian b1 = m_endian b \<and> m_baseSize b1 = m_baseSize b"
proof -
  let ?base = "m_baseSize b"
  have ok: "0 < ?base" "pages_ok ?base (m_nodes b)" "v \<le> length (m_nodes b) * ?base" using assms(1,2) by (auto simp: ba_ok_def)
  note s = seek_pages [OF ok(2,1,3), of 0]
  let ?b = "b\<lparr>m_position := v, m_curr := page_at ?base (length (m_nodes b)) v\<rparr>"
  have "setPosition v b = Inr ?b"
  proof (cases "v div ?base < length (m_nodes b)")
    case True
    then have "seek (m_nodes b) 0 v = (Some (v div ?base), v mod ?base)" using s by simp
    moreover have "Suc (v div ?base) < length (m_nodes b)" if "v mod ?base = 0" "v = m_size b"
      using assms(3) that True by fastforce
    ultimately show ?thesis using True assms(2) by (auto simp: setPosition_def page_at_def next_node_def Let_def)
  next
    case False
    then show ?thesis using s assms(2) by (simp add: setPosition_def page_at_def Let_def)
  qed
  then show ?thesis using assms(1,2) by (auto simp: ba_ok_def data_def)
qed

subsection \<open>Typed values\<close>

text \<open>What is left to read.\<close>

definition unread :: "ByteArray \<Rightarrow> byte list" where
  "unread b = drop (m_position b) (data b)"

definition after :: "ByteArray \<Rightarrow> byte list \<Rightarrow> ByteArray \<Rightarrow> bool" where
  "after b r b1 \<longleftrightarrow> ba_ok b1 \<and> unread b1 = r \<and> data b1 = data b \<and> m_endian b1 = m_endian b"

lemma after_trans: "after b r b1 \<Longrightarrow> after b1 r' b2 \<Longrightarrow> after b r' b2"
  by (simp add: after_def)

lemma read_next:
  assumes "ba_ok b" and "unread b = d @ r"
  shows "\<exists>b1. ba_read (length d) b = Inr (d, b1) \<and> after b r b1"
proof -
  have "length (unread b) = m_size b - m_position b" using length_data [OF assms(1)] by (simp add: unread_def)
  then have n: "length d \<le> m_size b - m_position b" using assms(2) by simp
  obtain b1 where b1: "ba_read (length d) b = Inr (take (length d) (drop (m_position b) (data b)), b1)" "ba_ok b1" "data b1 = data b"
      "m_position b1 = m_position b + length d" "m_endian b1 = m_endian b"
    using ba_read_flat [OF assms(1), of "length d"] n by auto
  have "unread b1 = drop (length d) (unread b)" using b1(3,4) by (simp add: unread_def add.commute)
  then have "unread b1 = r" using assms(2) by simp
  moreover have "take (length d) (drop (m_position b) (data b)) = d" using assms(2) by (simp add: unread_def)
  ultimately show ?thesis using b1 by (auto simp: after_def)
qed

text \<open>Appending.\<close>

definition appended :: "ByteArray \<Rightarrow> byte list \<Rightarrow> ByteArray \<Rightarrow> bool" where
  "appended b d b1 \<longleftrightarrow> ba_ok b1 \<and> data b1 = data b @ d \<and> m_position b1 = m_size b1 \<and> m_endian b1 = m_endian b"

lemma appended_trans: "appended b d b1 \<Longrightarrow> appended b1 d' b2 \<Longrightarrow> appended b (d @ d') b2"
  by (simp add: appended_def)

lemma write_end:
  assumes "ba_ok b" and "m_position b = m_size b"
  shows "\<exists>b1. ba_write d b = Inr b1 \<and> appended b d b1"
proof -
  obtain b1 where b1: "ba_write d b = Inr b1" "ba_ok b1" "data b1 = put (m_position b) d (data b)" "m_position b1 = m_position b + length d"
      "m_endian b1 = m_endian b" using ba_write_flat [OF assms(1), of d] by blast
  have "data b1 = data b @ d" using b1(3) assms length_data [OF assms(1)] by (simp add: put_def)
  moreover from this have "m_size b1 = m_size b + length d" using length_data [OF b1(2)] length_data [OF assms(1)] by simp
  ultimately show ?thesis using b1 assms(2) by (simp add: appended_def)
qed

lemma wire_host: "8 dvd LENGTH('a) \<Longrightarrow> to_wire host en (v :: 'a::len word) = to_wire en en v"
  by (simp add: to_wire_order)

lemma readF_next:
  assumes "ba_ok b" and "unread b = to_wire host (m_endian b) (v :: 'a::len word) @ r" and "8 dvd LENGTH('a)"
  shows "\<exists>b1. readF host' b = Inr (v, b1) \<and> after b r b1"
proof -
  let ?d = "to_wire host' (m_endian b) v"
  have "unread b = ?d @ r" using assms(2) wire_host [OF assms(3)] by metis
  from read_next [OF assms(1) this] obtain b1 where "ba_read (LENGTH('a) div 8) b = Inr (?d, b1)" "after b r b1" by auto
  then show ?thesis using from_to_wire [OF assms(3), of host' "m_endian b" v] by (auto simp: readF_def after_def)
qed

lemma read_byte:
  assumes "ba_ok b" and "unread b = v # r"
  shows "\<exists>b1. readFuint8 b = Inr (v, b1) \<and> after b r b1"
  using read_next [OF assms(1), of "[v]" r] assms(2) by (auto simp: readFuint8_def)

lemma readUint_next:
  assumes "ba_ok b" and "take_varint i v (unread b) = Inr (x, r)"
  shows "\<exists>b1. readUint_loop i v b = Inr (x, b1) \<and> after b r b1"
  using assms
proof (induction i v b rule: readUint_loop.induct)
  case (1 i v b)
  from 1(3) obtain t ts where u: "unread b = t # ts" by (cases "unread b") auto
  obtain b1 where b1: "readFuint8 b = Inr (t, b1)" "after b ts b1" using read_byte [OF 1(2) u] by blast
  show ?case
  proof (cases "t AND 0x80 = 0")
    case True
    then show ?thesis using 1(3) u b1 by (auto simp: readUint_loop.simps [of i] Let_def split: if_splits)
  next
    case False
    let ?v = "v OR push_bit (7 * i) (ucast (t AND 0x7F))"
    have i: "\<not> LENGTH('a) \<le> 7 * i" "take_varint (Suc i) ?v ts = Inr (x, r)" using 1(3) u False by (auto simp: Let_def split: if_splits)
    have "ba_ok b1" "take_varint (Suc i) ?v (unread b1) = Inr (x, r)" using b1(2) i(2) by (simp_all add: after_def)
    from 1(1) [OF b1(1) refl i(1) refl False this] obtain b2 where "readUint_loop (Suc i) ?v b1 = Inr (x, b2)" "after b1 r b2" by blast
    then show ?thesis using b1 i(1) False after_trans by (auto simp: readUint_loop.simps [of i] Let_def)
  qed
qed

lemma read_varint32: "ba_ok b \<Longrightarrow> unread b = varint32 v @ r \<Longrightarrow> \<exists>b1. readUint32 b = Inr (v, b1) \<and> after b r b1"
  using readUint_next [of b 0 0 v r] take_varint32 [of 0 v 0 r] by (simp add: readUint32_def unsigned_less [of v, simplified])

lemma read_varint64: "ba_ok b \<Longrightarrow> unread b = varint64 v @ r \<Longrightarrow> \<exists>b1. readUint64 b = Inr (v, b1) \<and> after b r b1"
  using readUint_next [of b 0 0 v r] take_varint64 [of 0 v 0 r] by (simp add: readUint64_def unsigned_less [of v, simplified])

text \<open>
  A record of typed values, as a client serialises it. Strings are longer than their length field
  can say only when it overflows.
\<close>

datatype field = U8 byte | U16 "16 word" | U32 "32 word" | U64 "64 word" | V32 "32 word" | V64 "64 word"
  | Z32 "32 word" | Z64 "64 word" | S16 "byte list" | S32 "byte list" | S64 "byte list"

fun write_field :: "endian \<Rightarrow> field \<Rightarrow> ByteArray \<Rightarrow> ByteArray res" where
  "write_field host (U8 v) = writeFuint8 v"
| "write_field host (U16 v) = writeFuint16 host v"
| "write_field host (U32 v) = writeFuint32 host v"
| "write_field host (U64 v) = writeFuint64 host v"
| "write_field host (V32 v) = writeUint32 v"
| "write_field host (V64 v) = writeUint64 v"
| "write_field host (Z32 v) = writeInt32 v"
| "write_field host (Z64 v) = writeInt64 v"
| "write_field host (S16 s) = writeString16 host s"
| "write_field host (S32 s) = writeString32 host s"
| "write_field host (S64 s) = writeString64 host s"

text \<open>Reading a field of the kind of a given one.\<close>

abbreviation tag :: "('a \<Rightarrow> field) \<Rightarrow> ('a \<times> ByteArray) res \<Rightarrow> (field \<times> ByteArray) res" where
  "tag con r \<equiv> bnd r (\<lambda>(v, b). Inr (con v, b))"

fun read_field :: "endian \<Rightarrow> field \<Rightarrow> ByteArray \<Rightarrow> (field \<times> ByteArray) res" where
  "read_field host (U8 _) b = tag U8 (readFuint8 b)"
| "read_field host (U16 _) b = tag U16 (readFuint16 host b)"
| "read_field host (U32 _) b = tag U32 (readFuint32 host b)"
| "read_field host (U64 _) b = tag U64 (readFuint64 host b)"
| "read_field host (V32 _) b = tag V32 (readUint32 b)"
| "read_field host (V64 _) b = tag V64 (readUint64 b)"
| "read_field host (Z32 _) b = tag Z32 (readInt32 b)"
| "read_field host (Z64 _) b = tag Z64 (readInt64 b)"
| "read_field host (S16 _) b = tag S16 (readString16 host b)"
| "read_field host (S32 _) b = tag S32 (readString32 host b)"
| "read_field host (S64 _) b = tag S64 (readString64 host b)"

fun field_fits :: "field \<Rightarrow> bool" where
  "field_fits (S16 s) \<longleftrightarrow> length s < 2 ^ 16"
| "field_fits (S32 s) \<longleftrightarrow> length s < 2 ^ 32"
| "field_fits (S64 s) \<longleftrightarrow> length s < 2 ^ 64"
| "field_fits _ \<longleftrightarrow> True"

text \<open>The bytes of a field.\<close>

fun field_bytes :: "endian \<Rightarrow> field \<Rightarrow> byte list" where
  "field_bytes en (U8 v) = [v]"
| "field_bytes en (U16 v) = to_wire en en v"
| "field_bytes en (U32 v) = to_wire en en v"
| "field_bytes en (U64 v) = to_wire en en v"
| "field_bytes en (V32 v) = varint32 v"
| "field_bytes en (V64 v) = varint64 v"
| "field_bytes en (Z32 v) = varint32 (EncodeZigzag v)"
| "field_bytes en (Z64 v) = varint64 (EncodeZigzag64 v)"
| "field_bytes en (S16 s) = to_wire en en (of_nat (length s) :: 16 word) @ s"
| "field_bytes en (S32 s) = to_wire en en (of_nat (length s) :: 32 word) @ s"
| "field_bytes en (S64 s) = to_wire en en (of_nat (length s) :: 64 word) @ s"

lemmas field_defs = writeFuint8_def writeFuint16_def writeFuint32_def writeFuint64_def writeUint32_def writeUint64_def writeInt32_def
  writeInt64_def writeString16_def writeString32_def writeString64_def writeF_def

lemma field_nonempty: "field_bytes en f \<noteq> []"
proof (cases f)
  case (V32 v)
  then show ?thesis by (simp add: varint32.simps [of v])
next
  case (V64 v)
  then show ?thesis by (simp add: varint64.simps [of v])
next
  case (Z32 v)
  then show ?thesis by (simp add: varint32.simps [of "EncodeZigzag v"])
next
  case (Z64 v)
  then show ?thesis by (simp add: varint64.simps [of "EncodeZigzag64 v"])
qed (simp_all flip: length_greater_0_conv)

lemma write_two:
  assumes "ba_ok b" and "m_position b = m_size b"
  shows "\<exists>b1. bnd (ba_write d b) (ba_write d') = Inr b1 \<and> appended b (d @ d') b1"
proof -
  obtain b1 where b1: "ba_write d b = Inr b1" "appended b d b1" using write_end [OF assms] by blast
  then obtain b2 where "ba_write d' b1 = Inr b2" "appended b1 d' b2" using write_end [of b1] by (auto simp: appended_def)
  then show ?thesis using b1 appended_trans by fastforce
qed

lemma write_field_end:
  assumes "ba_ok b" and "m_position b = m_size b"
  shows "\<exists>b1. write_field host f b = Inr b1 \<and> appended b (field_bytes (m_endian b) f) b1"
  using write_end [OF assms] write_two [OF assms] by (cases f) (simp_all add: field_defs wire_host [of host "m_endian b"])

lemma read_string:
  assumes "ba_ok b" and "unread b = to_wire en en (of_nat (length s) :: 'a::len word) @ s @ r" and "en = m_endian b" and "8 dvd LENGTH('a)" and "length s < 2 ^ LENGTH('a)"
  shows "\<exists>b1. bnd (readF host b) (\<lambda>(n :: 'a word, b1). ba_read (unat n) b1) = Inr (s, b1) \<and> after b r b1"
proof -
  obtain b1 where b1: "readF host b = Inr (of_nat (length s) :: 'a word, b1)" "after b (s @ r) b1"
    using readF_next [OF assms(1) _ assms(4), of en "of_nat (length s)" "s @ r" host] assms(2,3) by auto
  then obtain b2 where "ba_read (length s) b1 = Inr (s, b2)" "after b1 r b2" using read_next [of b1 s r] by (auto simp: after_def)
  then show ?thesis using b1 assms(5) after_trans by (auto simp: unat_of_nat take_bit_nat_eq_self)
qed

lemma read_field_next:
  assumes "ba_ok b" and "unread b = field_bytes (m_endian b) f @ r" and "field_fits f"
  shows "\<exists>b1. read_field host f b = Inr (f, b1) \<and> after b r b1"
proof (cases f)
  case (U8 v)
  then show ?thesis using read_byte [OF assms(1), of v r] assms(2) by auto
next
  case (U16 v)
  then show ?thesis using readF_next [OF assms(1), of "m_endian b" v r host] assms(2) by (auto simp: readFuint16_def)
next
  case (U32 v)
  then show ?thesis using readF_next [OF assms(1), of "m_endian b" v r host] assms(2) by (auto simp: readFuint32_def)
next
  case (U64 v)
  then show ?thesis using readF_next [OF assms(1), of "m_endian b" v r host] assms(2) by (auto simp: readFuint64_def)
next
  case (V32 v)
  then show ?thesis using read_varint32 [OF assms(1), of v r] assms(2) by auto
next
  case (V64 v)
  then show ?thesis using read_varint64 [OF assms(1), of v r] assms(2) by auto
next
  case (Z32 v)
  then show ?thesis using read_varint32 [OF assms(1), of "EncodeZigzag v" r] assms(2) by (auto simp: readInt32_def zigzag32)
next
  case (Z64 v)
  then show ?thesis using read_varint64 [OF assms(1), of "EncodeZigzag64 v" r] assms(2) by (auto simp: readInt64_def zigzag64)
next
  case (S16 s)
  then show ?thesis using read_string [OF assms(1), of "m_endian b" s r host, where 'a = 16] assms(2,3)
    by (auto simp: readString16_def readFuint16_def)
next
  case (S32 s)
  then show ?thesis using read_string [OF assms(1), of "m_endian b" s r host, where 'a = 32] assms(2,3)
    by (auto simp: readString32_def readFuint32_def)
next
  case (S64 s)
  then show ?thesis using read_string [OF assms(1), of "m_endian b" s r host, where 'a = 64] assms(2,3)
    by (auto simp: readString64_def readFuint64_def)
qed

fun write_fields :: "endian \<Rightarrow> field list \<Rightarrow> ByteArray \<Rightarrow> ByteArray res" where
  "write_fields host [] b = Inr b"
| "write_fields host (f # fs) b = bnd (write_field host f b) (write_fields host fs)"

fun read_fields :: "endian \<Rightarrow> field list \<Rightarrow> ByteArray \<Rightarrow> (field list \<times> ByteArray) res" where
  "read_fields host [] b = Inr ([], b)"
| "read_fields host (f # fs) b =
     bnd (read_field host f b) (\<lambda>(v, b1). bnd (read_fields host fs b1) (\<lambda>(vs, b2). Inr (v # vs, b2)))"

lemma write_fields_end:
  assumes "ba_ok b" and "m_position b = m_size b"
  shows "\<exists>b1. write_fields host fs b = Inr b1 \<and> appended b (concat (map (field_bytes (m_endian b)) fs)) b1"
  using assms
proof (induction fs arbitrary: b)
  case Nil
  then show ?case by (simp add: appended_def)
next
  case (Cons f fs)
  obtain b1 where b1: "write_field host f b = Inr b1" "appended b (field_bytes (m_endian b) f) b1"
    using write_field_end [OF Cons.prems] by blast
  then obtain b2 where "write_fields host fs b1 = Inr b2" "appended b1 (concat (map (field_bytes (m_endian b)) fs)) b2"
    using Cons.IH [of b1] by (auto simp: appended_def)
  then show ?case using b1 appended_trans by fastforce
qed

lemma read_fields_next:
  assumes "ba_ok b" and "unread b = concat (map (field_bytes (m_endian b)) fs) @ r" and "\<forall>f \<in> set fs. field_fits f"
  shows "\<exists>b1. read_fields host fs b = Inr (fs, b1) \<and> after b r b1"
  using assms
proof (induction fs arbitrary: b)
  case Nil
  then show ?case by (simp add: after_def)
next
  case (Cons f fs)
  obtain b1 where b1: "read_field host f b = Inr (f, b1)" "after b (concat (map (field_bytes (m_endian b)) fs) @ r) b1"
    using read_field_next [OF Cons.prems(1), of f "concat (map (field_bytes (m_endian b)) fs) @ r" host] Cons.prems(2,3) by auto
  then obtain b2 where "read_fields host fs b1 = Inr (fs, b2)" "after b1 r b2"
    using Cons.IH [of b1] Cons.prems(3) by (auto simp: after_def)
  then show ?case using b1 after_trans by fastforce
qed

subsection \<open>Scatter lists and files\<close>

definition iov_data :: "byte list list \<Rightarrow> iovec \<Rightarrow> byte list" where
  "iov_data ns v = (case v of (c, p, n) \<Rightarrow> take n (drop p (ns ! c)))"

lemma iov_data_app: "iov_data ns (c, p, n) = take n (drop p (ns ! c))"
  by (simp add: iov_data_def)

lemma iov_loop_flat:
  assumes "pages_ok base ns" and "0 < base" and "c < length ns" and "npos < base" and "c * base + npos + n \<le> length ns * base"
  shows "\<exists>vs. iov_loop n npos c ns = (vs, 0) \<and> concat (map (iov_data ns) vs) = take n (drop (c * base + npos) (concat ns))"
  using assms
proof (induction n npos c ns rule: iov_loop.induct)
  case (1 n npos c ns)
  have l: "length (ns ! c) = base" using 1(2,4) by (simp add: pages_ok_def)
  note d = drop_at [OF 1(2,4,5)]
  show ?case
  proof (cases "n \<le> base - npos")
    case True
    then show ?thesis using l d by (simp add: iov_loop.simps [of n] iov_data_app)
  next
    case False
    note c1 = more_pages(1) [OF 1(4,5,6) False] and nx = more_pages(2) [OF 1(4,5,6) False]
    have e: "Suc c * base + 0 + (n - (base - npos)) = c * base + npos + n" using False 1(5) by simp
    obtain vs where "iov_loop (n - (base - npos)) 0 (Suc c) ns = (vs, 0)"
        "concat (map (iov_data ns) vs) = take (n - (base - npos)) (drop (Suc c * base) (concat ns))"
      using 1(1) [OF refl, simplified l] False nx c1 1(2,3,6) e by auto
    then show ?thesis using False l nx d by (simp add: iov_loop.simps [of n] iov_data_app)
  qed
qed

lemma getReadBuffers_flat:
  assumes "ba_ok b"
  shows "\<exists>vs. getReadBuffers n b = Inr (vs, min n (length (unread b))) \<and> concat (map (iov_data (m_nodes b)) vs) = take n (unread b)"
proof -
  let ?base = "m_baseSize b" and ?n = "min n (m_size b - m_position b)"
  have ok: "0 < ?base" "pages_ok ?base (m_nodes b)" "m_capacity b = length (m_nodes b) * ?base" "m_position b \<le> m_size b" "m_size b \<le> m_capacity b"
      "m_curr b = page_at ?base (length (m_nodes b)) (m_position b)"
    using assms by (auto simp: ba_ok_def)
  have len: "length (unread b) = m_size b - m_position b" using length_data [OF assms] by (simp add: unread_def)
  show ?thesis
  proof (cases "?n = 0")
    case True
    then have "take n (unread b) = []" using len by (auto simp: min_def split: if_splits)
    then show ?thesis using True len by (simp add: getReadBuffers_def getReadSize_def)
  next
    case False
    let ?c = "m_position b div ?base" and ?npos = "m_position b mod ?base"
    have fits: "m_position b + ?n \<le> length (m_nodes b) * ?base" using ok(3-5) by linarith
    then have c: "?c < length (m_nodes b)" using False by (intro less_mult_imp_div_less) linarith
    obtain vs where vs: "iov_loop ?n ?npos ?c (m_nodes b) = (vs, 0)"
        "concat (map (iov_data (m_nodes b)) vs) = take ?n (drop (m_position b) (concat (m_nodes b)))"
      using iov_loop_flat [OF ok(2,1) c, of ?npos ?n] ok(1) fits by auto
    have "take ?n (drop (m_position b) (concat (m_nodes b))) = take n (unread b)"
      using ok(4) by (simp add: unread_def data_def drop_take)
    moreover have "m_curr b = Some ?c" using ok(6) c by (simp add: page_at_def)
    moreover have "?n \<noteq> 0" using False .
    ultimately show ?thesis using vs ok(1) len by (simp add: getReadBuffers_def getReadSize_def Let_def del: min_0R min_0L) auto
  qed
qed

lemma file_loop_flat:
  assumes "pages_ok (m_baseSize b) (m_nodes b)" and "0 < m_baseSize b" and "c * m_baseSize b + npos = p" and "npos < m_baseSize b"
    and "p + n \<le> length (m_nodes b) * m_baseSize b"
  shows "file_loop n p c b = (take n (drop p (concat (m_nodes b))), 0)"
  using assms(3-5)
proof (induction "length (m_nodes b) - c" arbitrary: n p c npos)
  case 0
  then have "length (m_nodes b) \<le> c" by simp
  from mult_le_mono1 [OF this, of "m_baseSize b"] have "length (m_nodes b) * m_baseSize b \<le> p" using 0(2) by linarith
  then show ?case using 0 by (simp add: file_loop.simps)
next
  case (Suc k)
  let ?base = "m_baseSize b"
  have c: "c < length (m_nodes b)" using Suc(2) by simp
  have l: "length (m_nodes b ! c) = ?base" using assms(1) c by (simp add: pages_ok_def)
  have np: "p mod ?base = npos" using Suc(3,4) by (metis mod_less mod_mult_self3)
  show ?case
  proof (cases "n \<le> ?base - npos")
    case True
    note d = drop_at [OF assms(1) c Suc(4), unfolded Suc(3)]
    have "file_loop 0 q (Suc c) b = ([], 0)" for q by (simp add: file_loop.simps)
    then show ?thesis using True c l np d by (simp add: file_loop.simps [of n] min_absorb1 Let_def)
  next
    case False
    note d = drop_at [OF assms(1) c Suc(4), unfolded Suc(3)]
    have q: "Suc c * ?base + 0 = p + (?base - npos)" using Suc(3,4) by simp
    have "file_loop (n - (?base - npos)) (p + (?base - npos)) (Suc c) b = (take (n - (?base - npos)) (drop (p + (?base - npos)) (concat (m_nodes b))), 0)"
    proof (rule Suc(1) [of "Suc c" 0])
      show "k = length (m_nodes b) - Suc c" using Suc(2) by simp
      show "p + (?base - npos) + (n - (?base - npos)) \<le> length (m_nodes b) * ?base" using Suc(5) False by linarith
    qed (use q assms(2) in simp_all)
    moreover have "p + (?base - npos) = Suc c * ?base" using q by simp
    ultimately show ?thesis using False c l np d assms(2) by (simp add: file_loop.simps [of n] min_absorb2)
  qed
qed

lemma writeToFile_flat:
  assumes "ba_ok b"
  shows "writeToFile True b = Some (unread b, True)"
proof -
  let ?base = "m_baseSize b"
  have ok: "0 < ?base" "pages_ok ?base (m_nodes b)" "m_capacity b = length (m_nodes b) * ?base" "m_position b \<le> m_size b" "m_size b \<le> m_capacity b"
      "m_curr b = page_at ?base (length (m_nodes b)) (m_position b)"
    using assms by (auto simp: ba_ok_def)
  show ?thesis
  proof (cases "m_position b div ?base < length (m_nodes b)")
    case True
    have "file_loop (m_size b - m_position b) (m_position b) (m_position b div ?base) b =
        (take (m_size b - m_position b) (drop (m_position b) (concat (m_nodes b))), 0)"
      using file_loop_flat [OF ok(2,1), of _ "m_position b mod ?base"] ok(1,3-5) by simp
    then show ?thesis using True ok(6) by (simp add: writeToFile_def getReadSize_def page_at_def unread_def data_def drop_take)
  next
    case False
    then have "length (m_nodes b) * ?base \<le> m_position b" by (simp add: not_less less_eq_div_iff_mult_less_eq ok(1))
    then have "m_position b = m_size b" using ok(3-5) by linarith
    then show ?thesis using False ok(6) length_data [OF assms] by (simp add: writeToFile_def getReadSize_def page_at_def unread_def)
  qed
qed

lemma readFromFile_flat:
  assumes "ba_ok b" and "m_position b = m_size b"
  shows "\<exists>b1. readFromFile_loop content b = Inr b1 \<and> appended b content b1"
  using assms
proof (induction content b rule: readFromFile_loop.induct)
  case (1 content b)
  let ?base = "m_baseSize b"
  have base: "?base \<noteq> 0" using 1(2) by (simp add: ba_ok_def)
  obtain b1 where b1: "ba_write (take ?base content) b = Inr b1" "appended b (take ?base content) b1"
    using write_end [OF 1(2,3)] by blast
  show ?case
  proof (cases "length content < ?base")
    case True
    then show ?thesis using b1 base by (auto simp: readFromFile_loop.simps [of content])
  next
    case False
    have "ba_ok b1" "m_position b1 = m_size b1" using b1(2) by (simp_all add: appended_def)
    from 1(1) [OF base b1(1) False this] obtain b2 where "readFromFile_loop (drop ?base content) b1 = Inr b2" "appended b1 (drop ?base content) b2" by blast
    then show ?thesis using b1 base False appended_trans [of b "take ?base content" b1 "drop ?base content" b2]
      by (auto simp: readFromFile_loop.simps [of content])
  qed
qed

text \<open>Reading at a position, and the text of the unread bytes.\<close>

lemma read_at_loop_same: "read_loop n npos c ns = Inr (out, cur) \<Longrightarrow> read_at_loop n npos c ns = out"
proof (induction n npos c ns arbitrary: out cur rule: read_at_loop.induct)
  case (1 n npos c ns)
  show ?case
  proof (cases "n \<le> length (ns ! c) - npos")
    case True
    then show ?thesis using 1(2) by (simp add: read_at_loop.simps [of n] read_loop.simps [of n] Let_def)
  next
    case False
    then obtain c1 out1 where c1: "next_node ns c = Some c1" "read_loop (n - (length (ns ! c) - npos)) 0 c1 ns = Inr (out1, cur)" "out = drop npos (ns ! c) @ out1"
      using 1(2) by (auto simp: read_loop.simps [of n] Let_def bnd_eq_Inr split: option.splits)
    then show ?thesis using 1(1) [OF refl refl False c1(1,2)] False by (simp add: read_at_loop.simps [of n] Let_def)
  qed
qed

lemma toString_flat:
  assumes "ba_ok b" and "m_size b < 2 ^ 64"
  shows "toString b = Inr (unread b)"
proof -
  let ?base = "m_baseSize b" and ?n = "m_size b - m_position b"
  have len: "length (unread b) = ?n" using length_data [OF assms(1)] by (simp add: unread_def)
  have ok: "0 < ?base" "pages_ok ?base (m_nodes b)" "m_capacity b = length (m_nodes b) * ?base" "m_position b \<le> m_size b" "m_size b \<le> m_capacity b"
    using assms(1) by (auto simp: ba_ok_def)
  show ?thesis
  proof (cases "?n = 0")
    case True
    then show ?thesis using len by (simp add: toString_def getReadSize_def)
  next
    case False
    let ?c = "m_position b div ?base" and ?npos = "m_position b mod ?base"
    have fits: "m_position b + ?n \<le> length (m_nodes b) * ?base" using ok(3-5) by linarith
    then have c: "?c < length (m_nodes b)" using False by (intro less_mult_imp_div_less) linarith
    have "read_loop ?n ?npos ?c (m_nodes b) =
        Inr (take ?n (drop (m_position b) (concat (m_nodes b))), page_at ?base (length (m_nodes b)) (m_position b + ?n))"
      using read_loop_flat [OF ok(2,1) c, of ?npos ?n] ok(1) fits by simp
    then have r: "read_at_loop ?n ?npos ?c (m_nodes b) = unread b"
      using read_at_loop_same by (simp add: unread_def data_def drop_take)
    have "m_position b \<le> length (m_nodes b) * ?base" using fits by linarith
    then have s: "fst (seek (m_nodes b) 0 (m_position b)) = Some ?c" using seek_pages [OF ok(2,1), of "m_position b" 0] c by simp
    have "(int (m_size b) - int (m_position b)) mod 2 ^ 64 = int ?n" using assms(2) ok(4) by (simp add: of_nat_diff)
    then show ?thesis using False r s ok(1) len by (simp add: toString_def getReadSize_def read_at_def put_def)
  qed
qed

subsection \<open>Properties\<close>

text \<open>C18. The byte array implements a flat sequence of bytes with a position: writing replaces the
  bytes at the position and extends the sequence at its end, reading returns the next bytes or throws
  when there are too few, the scatter list, the printed text and the file hold exactly the unread
  bytes, loading a file appends it, and all of them keep the pages well formed.\<close>

theorem bytearray_refines:
  assumes "ba_ok b" and "m_size b < 2 ^ 64"
  shows "(\<exists>b1. ba_write d b = Inr b1 \<and> ba_ok b1 \<and> data b1 = put (m_position b) d (data b) \<and> m_position b1 = m_position b + length d) \<and>
    (if n \<le> length (unread b)
     then \<exists>b1. ba_read n b = Inr (take n (unread b), b1) \<and> ba_ok b1 \<and> data b1 = data b \<and> unread b1 = drop n (unread b)
     else ba_read n b = Inl UncaughtException) \<and>
    (\<exists>vs. getReadBuffers n b = Inr (vs, min n (length (unread b))) \<and> concat (map (iov_data (m_nodes b)) vs) = take n (unread b)) \<and>
    toString b = Inr (unread b) \<and> writeToFile True b = Some (unread b, True) \<and>
    (m_position b = m_size b \<longrightarrow> (\<exists>b1. readFromFile (Some d) b = Inr (True, b1) \<and> ba_ok b1 \<and> data b1 = data b @ d))"
proof (intro conjI impI)
  show "\<exists>b1. ba_write d b = Inr b1 \<and> ba_ok b1 \<and> data b1 = put (m_position b) d (data b) \<and> m_position b1 = m_position b + length d"
    using ba_write_flat [OF assms(1), of d] by blast
  show "\<exists>b1. readFromFile (Some d) b = Inr (True, b1) \<and> ba_ok b1 \<and> data b1 = data b @ d" if "m_position b = m_size b"
    using readFromFile_flat [OF assms(1) that, of d] by (auto simp: readFromFile_def appended_def)
  have len: "length (unread b) = m_size b - m_position b" using length_data [OF assms(1)] by (simp add: unread_def)
  show "if n \<le> length (unread b)
     then \<exists>b1. ba_read n b = Inr (take n (unread b), b1) \<and> ba_ok b1 \<and> data b1 = data b \<and> unread b1 = drop n (unread b)
     else ba_read n b = Inl UncaughtException"
    using ba_read_flat [OF assms(1), of n] len by (auto simp: unread_def add.commute)
qed (rule getReadBuffers_flat [OF assms(1)] writeToFile_flat [OF assms(1)] toString_flat [OF assms])+

theorem bytearray_refines_witness:
  "\<exists>b1. ba_write [1, 2, 3] (bytearray_new 7 2) = Inr b1 \<and> ba_ok b1 \<and> data b1 = [1, 2, 3] \<and> m_position b1 = 3"
proof -
  have ok: "ba_ok (bytearray_new 7 2)" "data (bytearray_new 7 2) = []" "m_position (bytearray_new 7 2) = 0"
    using ba_ok_new [of 2 7] by (simp_all add: bytearray_new_def)
  have sz: "m_size (bytearray_new 7 2) < 2 ^ 64" by (simp add: bytearray_new_def)
  from bytearray_refines [OF ok(1) sz, of "[1, 2, 3]" 0] show ?thesis using ok by (auto simp: put_def)
qed

text \<open>C19. Typed values come back as they were written: a sequence of fixed-width integers in either
  byte order, variable-length and zigzag integers and strings, written at the end of a byte array on one
  machine, is read back from where it began, on a machine of either byte order, and nothing is left.\<close>

theorem bytearray_roundtrip:
  assumes "ba_ok b" and "m_position b = m_size b" and "fs \<noteq> []" and "\<forall>f \<in> set fs. field_fits f"
  shows "\<exists>b1 b2 b3. write_fields host fs b = Inr b1 \<and> setPosition (m_size b) b1 = Inr b2 \<and>
    read_fields host' fs b2 = Inr (fs, b3) \<and> unread b3 = [] \<and> ba_ok b3"
proof -
  let ?bs = "concat (map (field_bytes (m_endian b)) fs)"
  obtain b1 where b1: "write_fields host fs b = Inr b1" "appended b ?bs b1" using write_fields_end [OF assms(1,2)] by blast
  have ok1: "ba_ok b1" "data b1 = data b @ ?bs" "m_endian b1 = m_endian b" using b1(2) by (simp_all add: appended_def)
  have "?bs \<noteq> []" using assms(3) field_nonempty by (cases fs) auto
  then have lt: "m_size b < m_size b1" using ok1 length_data [OF ok1(1)] length_data [OF assms(1)] by (cases ?bs) auto
  then obtain b2 where b2: "setPosition (m_size b) b1 = Inr b2" "ba_ok b2" "data b2 = data b1" "m_position b2 = m_size b" "m_endian b2 = m_endian b"
    using setPosition_flat [OF ok1(1), of "m_size b"] ok1(3) by auto
  have "unread b2 = ?bs" using b2(3,4) ok1(2) length_data [OF assms(1)] by (simp add: unread_def)
  then obtain b3 where "read_fields host' fs b2 = Inr (fs, b3)" "after b2 [] b3"
    using read_fields_next [OF b2(2), of fs "[]" host'] b2(5) assms(4) by auto
  then show ?thesis using b1(1) b2(1) by (auto simp: after_def)
qed

theorem bytearray_roundtrip_witness:
  "\<exists>b1 b2 b3. write_fields Little [U16 0x1234, Z32 (- 3), S16 [104, 105]] (bytearray_new 0 4) = Inr b1 \<and>
     setPosition 0 b1 = Inr b2 \<and> read_fields Big [U16 0x1234, Z32 (- 3), S16 [104, 105]] b2 = Inr ([U16 0x1234, Z32 (- 3), S16 [104, 105]], b3)"
proof -
  have ok: "ba_ok (bytearray_new 0 4)" "m_position (bytearray_new 0 4) = m_size (bytearray_new 0 4)" "m_size (bytearray_new 0 4) = 0"
    using ba_ok_new [of 4 0] by (simp_all add: bytearray_new_def)
  have f: "[U16 0x1234, Z32 (- 3), S16 [104, 105]] \<noteq> []" "\<forall>f \<in> set [U16 0x1234, Z32 (- 3), S16 [104, 105]]. field_fits f" by simp_all
  from bytearray_roundtrip [OF ok(1,2) f, of Little Big] show ?thesis using ok(3) by auto
qed

text \<open>Variable-length integers stay within the arrays on the writer's stack, five bytes for 32 and
  ten for 64 bits; zigzag maps \<open>0, -1, 1, -2, \<dots>\<close> to \<open>0, 1, 2, 3, \<dots>\<close>, so that exactly the numbers from
  -64 to 63 take one byte. A reader that meets five continuation bytes shifts a 32-bit number by 35.\<close>

theorem varint_bounds:
  "length (varint32 v) \<le> 5 \<and> length (varint64 u) \<le> 10 \<and>
   uint (EncodeZigzag v) = (if 0 \<le> sint v then 2 * sint v else - 2 * sint v - 1) \<and>
   (length (varint32 (EncodeZigzag v)) = 1 \<longleftrightarrow> - 64 \<le> sint v \<and> sint v < 64) \<and>
   take_varint 0 (0 :: 32 word) [0x80, 0x80, 0x80, 0x80, 0x80, 0] = Inl BadShift"
proof (intro conjI)
  have "unat v < 2 ^ 32" "unat u < 2 ^ 64" using unsigned_less [of v] unsigned_less [of u] by simp_all
  then show "length (varint32 v) \<le> 5" "length (varint64 u) \<le> 10"
    by (auto intro!: varint32_length varint64_length)
  show z: "uint (EncodeZigzag v) = (if 0 \<le> sint v then 2 * sint v else - 2 * sint v - 1)" by (rule EncodeZigzag_value)
  have "length (varint32 x) = 1 \<longleftrightarrow> uint x < 128" for x
  proof -
    have "varint32 y \<noteq> []" for y by (simp add: varint32.simps [of y])
    then have "length (varint32 x) = 1 \<longleftrightarrow> \<not> 0x80 \<le> x" by (simp add: varint32.simps [of x])
    also have "\<dots> \<longleftrightarrow> uint x < 128" by (simp add: word_le_def linorder_not_le)
    finally show ?thesis .
  qed
  then show "length (varint32 (EncodeZigzag v)) = 1 \<longleftrightarrow> - 64 \<le> sint v \<and> sint v < 64" using z by auto
  show "take_varint 0 (0 :: 32 word) [0x80, 0x80, 0x80, 0x80, 0x80, 0] = Inl BadShift" by (simp add: Let_def)
qed

text \<open>Setting the position to the end of the data loses the page that begins there: on an empty
  array, \<open>setPosition(0)\<close> moves to a new second page, so what is written next is not what is read
  from position 0.\<close>

theorem setPosition_skips_page:
  assumes "0 < length d" and "length d \<le> base"
  shows "\<exists>b1 b2 b3 b4. setPosition 0 (bytearray_new x base) = Inr b1 \<and> ba_write d b1 = Inr b2 \<and> setPosition 0 b2 = Inr b3 \<and>
    ba_read (length d) b3 = Inr (replicate (length d) x, b4)"
proof -
  let ?p = "replicate base x" and ?n = "length d"
  let ?b1 = "(bytearray_new x base)\<lparr>m_nodes := [?p, ?p], m_capacity := base + base, m_curr := Some 1\<rparr>"
  have base: "0 < base" using assms by linarith
  have "setPosition 0 (bytearray_new x base) = Inr ?b1"
    using base by (simp add: setPosition_def bytearray_new_def next_node_def fresh_page_def)
  moreover let ?cur = "if base = ?n then None else Some 1"
  let ?b2 = "?b1\<lparr>m_nodes := [?p, put 0 d ?p], m_curr := ?cur, m_position := ?n, m_size := ?n\<rparr>"
  have "write_loop d 0 1 [?p, ?p] 0 = Inr ([?p, put 0 d ?p], ?cur, ?n)"
    using assms by (simp add: write_loop.simps [of d] next_node_def Let_def)
  then have "ba_write d ?b1 = Inr ?b2"
    using assms base by (auto simp: ba_write_def addCapacity_def getCapacity_def bytearray_new_def)
  moreover let ?b3 = "?b2\<lparr>m_position := 0, m_curr := Some 0\<rparr>"
  have "setPosition 0 ?b2 = Inr ?b3" using assms base by (simp add: setPosition_def bytearray_new_def)
  moreover have "read_loop ?n 0 0 [?p, put 0 d ?p] = Inr (take ?n ?p, if ?n = base then Some 1 else Some 0)"
    using assms by (simp add: read_loop.simps [of ?n] next_node_def Let_def)
  then have "\<exists>b4. ba_read ?n ?b3 = Inr (replicate ?n x, b4)"
    using assms base by (simp add: ba_read_def getReadSize_def bytearray_new_def min_absorb2)
  ultimately show ?thesis by blast
qed

theorem setPosition_skips_page_witness:
  "\<exists>b1 b2 b3 b4. setPosition 0 (bytearray_new 9 4) = Inr b1 \<and> ba_write [1, 2] b1 = Inr b2 \<and> setPosition 0 b2 = Inr b3 \<and>
     ba_read 2 b3 = Inr ([9, 9], b4)"
  using setPosition_skips_page [of "[1, 2]" 4 9] by (simp add: numeral_2_eq_2)

end
