(* ===== verification/Sched.thy ===== *)
theory Sched
  imports Prelude "HOL-Library.Multiset"
begin

text \<open>
  The scheduler of \<open>src/src/core/scheduler.{h,cpp}\<close>: one queue per worker thread and a global one, work stealing, the
  list of running coroutines. What a job does when it runs belongs to its submitter; jobs are told apart
  by what they call. The part of the code under one lock is one step, so the state after a step is one
  another thread can see; a worker is where it stands in the loop of \<open>run\<close>. The condition variables only
  shorten waits that end after 5 ms anyway and are left out; calls of \<open>tickle\<close> are counted.
\<close>

subsection \<open>State\<close>

text \<open>
  What is submitted: a function (that of a conditional timer is bound to a weak pointer and to a function
  that may be empty), the resumption of a coroutine handle, the resumption through a ticket, the first
  resumption of a top-level coroutine.
\<close>

datatype callback = Fn nat | OnTimer nat "nat option"

datatype job = Call callback | Resume nat | TryResume nat | StartTask nat

record FuncAndId =
  fcb :: job
  threadId :: int

record PerThreadQueue =
  tasks :: "FuncAndId list"
  pending :: nat

record Scheduler =
  m_threadQueues :: "PerThreadQueue list"
  m_queue :: "FuncAndId list"
  m_pending :: nat
  m_running :: int
  m_stopping :: bool
  m_stop :: bool
  m_runningTasks :: "nat list"
  m_finishedTasks :: "nat list"
  tickles :: nat

definition m_threadCount :: "Scheduler \<Rightarrow> nat" where
  "m_threadCount s = length (m_threadQueues s)"

definition scheduler_new :: "nat \<Rightarrow> Scheduler res" where
  "scheduler_new threads =
     (if threads = 0 then Inl AssertionFailed
      else Inr \<lparr>m_threadQueues = replicate threads \<lparr>tasks = [], pending = 0\<rparr>, m_queue = [], m_pending = 0, m_running = 0,
                m_stopping = False, m_stop = True, m_runningTasks = [], m_finishedTasks = [], tickles = 0\<rparr>)"

subsection \<open>Submitting\<close>

definition push_local :: "nat \<Rightarrow> FuncAndId \<Rightarrow> Scheduler \<Rightarrow> Scheduler" where
  "push_local i f s =
     (let q = m_threadQueues s ! i; need_notify = (tasks q = []) in
      s\<lparr>m_threadQueues := (m_threadQueues s)[i := q\<lparr>tasks := tasks q @ [f], pending := pending q + 1\<rparr>],
        tickles := tickles s + (if need_notify then 1 else 0)\<rparr>)"

definition push_global :: "FuncAndId \<Rightarrow> Scheduler \<Rightarrow> Scheduler" where
  "push_global f s =
     (let need_notify = (m_queue s = []) in
      s\<lparr>m_queue := m_queue s @ [f], m_pending := m_pending s + 1, tickles := tickles s + (if need_notify then 1 else 0)\<rparr>)"

text \<open>\<open>cur\<close> is the index of the calling thread, \<open>-1\<close> outside the workers; \<open>None\<close> the empty function.\<close>

definition schedule :: "int \<Rightarrow> job option \<Rightarrow> int \<Rightarrow> Scheduler \<Rightarrow> Scheduler" where
  "schedule cur cb thr s =
     (case cb of None \<Rightarrow> s
      | Some j \<Rightarrow>
        if m_stopping s then s
        else if 0 \<le> thr \<and> thr < int (m_threadCount s) then push_local (nat thr) \<lparr>fcb = j, threadId = thr\<rparr> s
        else if 0 \<le> cur \<and> cur < int (m_threadCount s) then push_local (nat cur) \<lparr>fcb = j, threadId = cur\<rparr> s
        else push_global \<lparr>fcb = j, threadId = -1\<rparr> s)"

text \<open>The overload for handles; \<open>None\<close> the null handle, \<open>dn\<close> tells which coroutines are done.\<close>

definition schedule_handle :: "(nat \<Rightarrow> bool) \<Rightarrow> int \<Rightarrow> nat option \<Rightarrow> int \<Rightarrow> Scheduler \<Rightarrow> Scheduler" where
  "schedule_handle dn cur h thr s =
     (case h of None \<Rightarrow> s | Some x \<Rightarrow> if dn x \<or> m_stopping s then s else schedule cur (Some (Resume x)) thr s)"

text \<open>The overload for coroutines, which the scheduler owns from then on.\<close>

definition schedule_task :: "int \<Rightarrow> nat \<Rightarrow> int \<Rightarrow> Scheduler \<Rightarrow> Scheduler" where
  "schedule_task cur t thr s =
     (if m_stopping s then s
      else schedule cur (Some (StartTask t)) thr (s\<lparr>m_runningTasks := m_runningTasks s @ [t]\<rparr>))"

definition scheduleMul :: "int \<Rightarrow> nat list \<Rightarrow> Scheduler \<Rightarrow> Scheduler" where
  "scheduleMul cur ts s = (if m_stopping s then s else fold (\<lambda>t. schedule_task cur t (-1)) ts s)"

subsection \<open>Coroutines that end\<close>

text \<open>The callback \<open>final_suspend\<close> makes.\<close>

definition on_complete :: "nat \<Rightarrow> Scheduler \<Rightarrow> Scheduler" where
  "on_complete t s = s\<lparr>m_finishedTasks := m_finishedTasks s @ [t], m_runningTasks := removeAll t (m_runningTasks s)\<rparr>"

definition drainFinished :: "(nat \<Rightarrow> bool) \<Rightarrow> Scheduler \<Rightarrow> nat list \<times> Scheduler" where
  "drainFinished finalizing s =
     (filter (\<lambda>t. \<not> finalizing t) (m_finishedTasks s), s\<lparr>m_finishedTasks := filter finalizing (m_finishedTasks s)\<rparr>)"

definition clearFinishedTasks :: "(nat \<Rightarrow> bool) \<Rightarrow> Scheduler \<Rightarrow> Scheduler" where
  "clearFinishedTasks finalizing s = snd (drainFinished finalizing s)"

definition notHasRunningTask :: "Scheduler \<Rightarrow> bool" where
  "notHasRunningTask s \<longleftrightarrow> m_runningTasks s = []"

subsection \<open>Taking a job\<close>

definition fetch_local :: "nat \<Rightarrow> Scheduler \<Rightarrow> FuncAndId option \<times> Scheduler" where
  "fetch_local i s =
     (let q = m_threadQueues s ! i in
      case tasks q of [] \<Rightarrow> (None, s)
      | f # fs \<Rightarrow> (Some f, s\<lparr>m_threadQueues := (m_threadQueues s)[i := q\<lparr>tasks := fs, pending := pending q - 1\<rparr>]\<rparr>))"

definition fetch_global :: "Scheduler \<Rightarrow> FuncAndId option \<times> Scheduler" where
  "fetch_global s =
     (case m_queue s of [] \<Rightarrow> (None, s)
      | f # fs \<Rightarrow> (Some f, s\<lparr>m_queue := fs, m_pending := m_pending s - 1\<rparr>))"

text \<open>One attempt: the random number \<open>r\<close> picks the victim, \<open>owns\<close> tells whether its lock was free.\<close>

definition steal_once :: "nat \<Rightarrow> nat \<Rightarrow> bool \<Rightarrow> Scheduler \<Rightarrow> FuncAndId option \<times> Scheduler" where
  "steal_once my_idx r owns s =
     (let victim = r mod m_threadCount s; q = m_threadQueues s ! victim in
      if victim \<noteq> my_idx \<and> owns \<and> tasks q \<noteq> []
      then (Some (last (tasks q)),
            s\<lparr>m_threadQueues := (m_threadQueues s)[victim := q\<lparr>tasks := butlast (tasks q), pending := pending q - 1\<rparr>]\<rparr>)
      else (None, s))"

text \<open>All attempts, one random number and lock result for each.\<close>

fun stealTask :: "nat \<Rightarrow> (nat \<times> bool) list \<Rightarrow> Scheduler \<Rightarrow> FuncAndId option \<times> Scheduler" where
  "stealTask my_idx [] s = (None, s)"
| "stealTask my_idx ((r, owns) # rs) s =
     (if m_threadCount s \<le> 1 then (None, s)
      else case steal_once my_idx r owns s of (Some f, s1) \<Rightarrow> (Some f, s1) | (None, s1) \<Rightarrow> stealTask my_idx rs s1)"

definition drainLocalQueue :: "nat \<Rightarrow> Scheduler \<Rightarrow> Scheduler" where
  "drainLocalQueue i s =
     (let q = m_threadQueues s ! i; remaining = tasks q in
      s\<lparr>m_threadQueues := (m_threadQueues s)[i := q\<lparr>tasks := [], pending := pending q - length remaining\<rparr>],
        m_queue := m_queue s @ map (\<lambda>f. f\<lparr>threadId := -1\<rparr>) remaining, m_pending := m_pending s + length remaining\<rparr>)"

subsection \<open>Waiting and stopping\<close>

text \<open>The test of \<open>wait_all\<close>.\<close>

definition wait_all_test :: "Scheduler \<Rightarrow> bool" where
  "wait_all_test s \<longleftrightarrow>
     m_pending s + sum_list (map pending (m_threadQueues s)) = 0 \<and> m_running s = 0 \<and> notHasRunningTask s"

text \<open>What \<open>start\<close> and \<open>stop\<close> do to the flags; the result tells whether the call goes on to the threads.\<close>

definition start_flags :: "Scheduler \<Rightarrow> bool \<times> Scheduler" where
  "start_flags s = (if \<not> m_stop s then (False, s) else (True, s\<lparr>m_stop := False, m_stopping := False\<rparr>))"

definition stop_flags :: "Scheduler \<Rightarrow> bool \<times> Scheduler" where
  "stop_flags s =
     (if m_stopping s then (False, s) else (True, s\<lparr>m_stopping := True, m_stop := True, tickles := tickles s + 1\<rparr>))"

subsection \<open>The worker threads\<close>

datatype worker = AtLocal | AtGlobal | AtSteal nat | Holding FuncAndId | Running FuncAndId | AtIdle | AtWait | Exited

text \<open>With the jobs accepted so far and those that have run.\<close>

record pool =
  sched :: Scheduler
  workers :: "worker list"
  accepted :: "job multiset"
  ran :: "job multiset"

definition goto :: "nat \<Rightarrow> worker \<Rightarrow> Scheduler \<Rightarrow> pool \<Rightarrow> pool" where
  "goto i w s p = p\<lparr>sched := s, workers := (workers p)[i := w]\<rparr>"

text \<open>One step of the loop of \<open>run\<close> in thread \<open>i\<close>; three attempts at stealing, \<open>max_attempts\<close>.\<close>

definition run_step :: "nat \<Rightarrow> nat \<Rightarrow> bool \<Rightarrow> (nat \<Rightarrow> bool) \<Rightarrow> pool \<Rightarrow> pool" where
  "run_step i r owns finalizing p =
     (let s = sched p in
      case workers p ! i of
        AtLocal \<Rightarrow> (case fetch_local i s of (Some f, s1) \<Rightarrow> goto i (Holding f) s1 p | (None, s1) \<Rightarrow> goto i AtGlobal s1 p)
      | AtGlobal \<Rightarrow> (case fetch_global s of (Some f, s1) \<Rightarrow> goto i (Holding f) s1 p | (None, s1) \<Rightarrow> goto i (AtSteal 0) s1 p)
      | AtSteal n \<Rightarrow>
          if m_threadCount s \<le> 1 \<or> n \<ge> 3 then goto i AtIdle s p
          else (case steal_once i r owns s of (Some f, s1) \<Rightarrow> goto i (Holding f) s1 p | (None, s1) \<Rightarrow> goto i (AtSteal (n + 1)) s1 p)
      | Holding f \<Rightarrow> goto i (Running f) (s\<lparr>m_running := m_running s + 1\<rparr>) p
      | Running f \<Rightarrow> (goto i AtLocal (s\<lparr>m_running := m_running s - 1\<rparr>) p)\<lparr>ran := ran p + {#fcb f#}\<rparr>
      | AtIdle \<Rightarrow> (let s1 = clearFinishedTasks finalizing s in goto i (if m_stopping s1 then Exited else AtWait) s1 p)
      | AtWait \<Rightarrow> goto i (if m_stopping s then Exited else AtLocal) s p
      | Exited \<Rightarrow> p)"

definition accept :: "job multiset \<Rightarrow> Scheduler \<Rightarrow> pool \<Rightarrow> pool" where
  "accept js s p = p\<lparr>sched := s, accepted := (if m_stopping (sched p) then accepted p else accepted p + js)\<rparr>"

definition pool_new :: "nat \<Rightarrow> pool res" where
  "pool_new n = bnd (scheduler_new n) (\<lambda>s. Inr \<lparr>sched = snd (start_flags s), workers = replicate n AtLocal, accepted = {#}, ran = {#}\<rparr>)"

text \<open>What can happen next: a thread submits, a worker makes a step, a coroutine ends, someone stops the scheduler.\<close>

datatype action =
    Submit int job int
  | SubmitTask int nat int
  | Work nat nat bool "nat list"
  | Complete nat
  | Drain nat
  | Stop

fun act :: "action \<Rightarrow> pool \<Rightarrow> pool" where
  "act (Submit cur j thr) p = accept {#j#} (schedule cur (Some j) thr (sched p)) p"
| "act (SubmitTask cur t thr) p = accept {#StartTask t#} (schedule_task cur t thr (sched p)) p"
| "act (Work i r owns fin) p = (if i < length (workers p) then run_step i r owns (\<lambda>t. t \<in> set fin) p else p)"
| "act (Complete t) p = p\<lparr>sched := on_complete t (sched p)\<rparr>"
| "act (Drain i) p = (if i < length (workers p) then p\<lparr>sched := drainLocalQueue i (sched p)\<rparr> else p)"
| "act Stop p = p\<lparr>sched := snd (stop_flags (sched p))\<rparr>"

inductive pool_reachable :: "nat \<Rightarrow> pool \<Rightarrow> bool" for n where
  start: "pool_new n = Inr p \<Longrightarrow> pool_reachable n p"
| step: "pool_reachable n p \<Longrightarrow> pool_reachable n (act a p)"

lemma pool_reachable_acts: "pool_reachable n p \<Longrightarrow> pool_reachable n (fold act as p)"
  by (induction as arbitrary: p) (auto intro: pool_reachable.step)

lemma pool_run:
  assumes "map_sum id (\<lambda>p. P (fold act as p)) (pool_new n) = Inr True"
  shows "\<exists>p. pool_reachable n p \<and> P p"
  using assms by (cases "pool_new n") (auto intro: pool_reachable_acts pool_reachable.start)

lemmas pool_eval = pool_new_def scheduler_new_def start_flags_def accept_def schedule_def push_local_def m_threadCount_def
  run_step_def fetch_local_def fetch_global_def steal_once_def goto_def clearFinishedTasks_def drainFinished_def stop_flags_def
  wait_all_test_def notHasRunningTask_def

subsection \<open>No job is lost or run twice\<close>

lemma sum_list_upd:
  fixes f :: "'a \<Rightarrow> 'b::comm_monoid_add"
  assumes "i < length xs"
  shows "sum_list (map f (xs[i := x])) + f (xs ! i) = sum_list (map f xs) + f x"
proof -
  have "sum_list (map f xs) = sum_list (map f (take i xs @ xs ! i # drop (Suc i) xs))"
    using assms by (simp add: id_take_nth_drop[symmetric])
  then show ?thesis
    using assms by (simp add: upd_conv_take_nth_drop ac_simps)
qed

lemma sum_list_replicate_empty: "sum_list (replicate n {#}) = {#}"
  by (induction n) simp_all

fun held_by :: "worker \<Rightarrow> job multiset" where
  "held_by (Holding f) = {#fcb f#}"
| "held_by (Running f) = {#fcb f#}"
| "held_by _ = {#}"

fun is_running :: "worker \<Rightarrow> bool" where
  "is_running (Running f) = True"
| "is_running _ = False"

definition jobs_of :: "FuncAndId list \<Rightarrow> job multiset" where
  "jobs_of fs = mset (map fcb fs)"

definition waiting_jobs :: "Scheduler \<Rightarrow> job multiset" where
  "waiting_jobs s = sum_list (map (jobs_of \<circ> tasks) (m_threadQueues s)) + jobs_of (m_queue s)"

definition held :: "pool \<Rightarrow> job multiset" where
  "held p = sum_list (map held_by (workers p))"

definition counters_ok :: "Scheduler \<Rightarrow> bool" where
  "counters_ok s \<longleftrightarrow> (\<forall>q\<in>set (m_threadQueues s). pending q = length (tasks q)) \<and> m_pending s = length (m_queue s)"

definition pool_ok :: "nat \<Rightarrow> pool \<Rightarrow> bool" where
  "pool_ok n p \<longleftrightarrow> 0 < n \<and> length (m_threadQueues (sched p)) = n \<and> length (workers p) = n \<and> counters_ok (sched p) \<and>
     m_running (sched p) = sum_list (map (\<lambda>w. if is_running w then 1 else 0) (workers p)) \<and>
     accepted p = ran p + held p + waiting_jobs (sched p)"

lemma jobs_of_simps [simp]:
  "jobs_of [] = {#}" "jobs_of (f # fs) = {#fcb f#} + jobs_of fs" "jobs_of (fs @ gs) = jobs_of fs + jobs_of gs"
  by (simp_all add: jobs_of_def)

lemma waiting_jobs_simps [simp]:
  "waiting_jobs (s\<lparr>m_running := r\<rparr>) = waiting_jobs s" "waiting_jobs (s\<lparr>m_runningTasks := ts\<rparr>) = waiting_jobs s"
  "waiting_jobs (s\<lparr>m_finishedTasks := ts\<rparr>) = waiting_jobs s" "waiting_jobs (s\<lparr>tickles := n\<rparr>) = waiting_jobs s"
  by (simp_all add: waiting_jobs_def)

lemma counters_ok_simps [simp]:
  "counters_ok (s\<lparr>m_running := r\<rparr>) = counters_ok s" "counters_ok (s\<lparr>m_runningTasks := ts\<rparr>) = counters_ok s"
  "counters_ok (s\<lparr>m_finishedTasks := ts\<rparr>) = counters_ok s" "counters_ok (s\<lparr>tickles := n\<rparr>) = counters_ok s"
  by (simp_all add: counters_ok_def)

text \<open>Replacing the queue of one thread.\<close>

lemma waiting_jobs_upd:
  assumes "i < length (m_threadQueues s)"
  shows "waiting_jobs (s\<lparr>m_threadQueues := (m_threadQueues s)[i := q]\<rparr>) + jobs_of (tasks (m_threadQueues s ! i)) =
         waiting_jobs s + jobs_of (tasks q)"
  using sum_list_upd[OF assms, of "jobs_of \<circ> tasks" q] by (simp add: waiting_jobs_def ac_simps)

lemma counters_ok_upd:
  assumes "counters_ok s" and "pending q = length (tasks q)"
  shows "counters_ok (s\<lparr>m_threadQueues := (m_threadQueues s)[i := q]\<rparr>)"
  using assms set_update_subset_insert[of "m_threadQueues s" i q] by (auto simp: counters_ok_def)

lemma counters_ok_queue: "counters_ok s \<Longrightarrow> b = length a \<Longrightarrow> counters_ok (s\<lparr>m_queue := a, m_pending := b\<rparr>)"
  by (simp add: counters_ok_def)

lemma counters_okD: "counters_ok s \<Longrightarrow> i < length (m_threadQueues s) \<Longrightarrow> pending (m_threadQueues s ! i) = length (tasks (m_threadQueues s ! i))"
  by (simp add: counters_ok_def)

text \<open>What an operation on the queues keeps: the number of threads, the counters, the number running.\<close>

definition keeps_shape :: "Scheduler \<Rightarrow> Scheduler \<Rightarrow> bool" where
  "keeps_shape s s1 \<longleftrightarrow> length (m_threadQueues s1) = length (m_threadQueues s) \<and> (counters_ok s \<longrightarrow> counters_ok s1) \<and> m_running s1 = m_running s"

lemma push_local_ok:
  assumes "i < length (m_threadQueues s)"
  shows "keeps_shape s (push_local i f s) \<and> waiting_jobs (push_local i f s) = waiting_jobs s + {#fcb f#}"
proof -
  let ?q = "m_threadQueues s ! i"
  let ?s = "s\<lparr>m_threadQueues := (m_threadQueues s)[i := ?q\<lparr>tasks := tasks ?q @ [f], pending := pending ?q + 1\<rparr>]\<rparr>"
  have "waiting_jobs ?s = waiting_jobs s + {#fcb f#}"
    using waiting_jobs_upd[OF assms, of "?q\<lparr>tasks := tasks ?q @ [f], pending := pending ?q + 1\<rparr>"] by simp
  moreover have "counters_ok s \<longrightarrow> counters_ok ?s"
    using assms by (simp add: counters_ok_upd counters_okD)
  ultimately show ?thesis
    by (simp add: push_local_def Let_def keeps_shape_def)
qed

lemma push_global_ok: "keeps_shape s (push_global f s) \<and> waiting_jobs (push_global f s) = waiting_jobs s + {#fcb f#}"
  by (simp add: push_global_def Let_def keeps_shape_def waiting_jobs_def counters_ok_def)

lemma schedule_ok:
  "keeps_shape s (schedule cur (Some j) thr s) \<and>
   waiting_jobs (schedule cur (Some j) thr s) = waiting_jobs s + (if m_stopping s then {#} else {#j#})"
proof (cases "m_stopping s")
  case True
  then show ?thesis
    by (simp add: schedule_def keeps_shape_def)
next
  case False
  then show ?thesis
    using push_local_ok[of "nat thr" s "\<lparr>fcb = j, threadId = thr\<rparr>"] push_local_ok[of "nat cur" s "\<lparr>fcb = j, threadId = cur\<rparr>"]
      push_global_ok[of s "\<lparr>fcb = j, threadId = -1\<rparr>"]
    by (auto simp: schedule_def m_threadCount_def nat_less_iff)
qed

lemma fetch_local_ok:
  assumes "i < length (m_threadQueues s)" and "fetch_local i s = (r, s1)"
  shows "keeps_shape s s1 \<and> waiting_jobs s = waiting_jobs s1 + (case r of None \<Rightarrow> {#} | Some f \<Rightarrow> {#fcb f#})"
proof (cases "tasks (m_threadQueues s ! i)")
  case Nil
  then show ?thesis
    using assms by (auto simp: fetch_local_def keeps_shape_def)
next
  case (Cons f fs)
  let ?q = "(m_threadQueues s ! i)\<lparr>tasks := fs, pending := pending (m_threadQueues s ! i) - 1\<rparr>"
  have "s1 = s\<lparr>m_threadQueues := (m_threadQueues s)[i := ?q]\<rparr>" "r = Some f"
    using assms(2) Cons by (auto simp: fetch_local_def Let_def)
  then show ?thesis
    using waiting_jobs_upd[OF assms(1), of ?q] counters_okD[OF _ assms(1)] Cons by (auto simp: keeps_shape_def intro!: counters_ok_upd)
qed

lemma fetch_global_ok:
  assumes "fetch_global s = (r, s1)"
  shows "keeps_shape s s1 \<and> waiting_jobs s = waiting_jobs s1 + (case r of None \<Rightarrow> {#} | Some f \<Rightarrow> {#fcb f#})"
  using assms by (auto simp: fetch_global_def keeps_shape_def waiting_jobs_def counters_ok_def split: list.splits)

lemma steal_once_ok:
  assumes "m_threadQueues s \<noteq> []" and "steal_once i x owns s = (r, s1)"
  shows "keeps_shape s s1 \<and> waiting_jobs s = waiting_jobs s1 + (case r of None \<Rightarrow> {#} | Some f \<Rightarrow> {#fcb f#})"
proof (cases r)
  case None
  then show ?thesis
    using assms by (auto simp: steal_once_def keeps_shape_def Let_def split: if_splits)
next
  case (Some f)
  define v where "v = x mod m_threadCount s"
  define q where "q = m_threadQueues s ! v"
  have v: "v < length (m_threadQueues s)"
    using assms(1) by (simp add: v_def m_threadCount_def)
  have "tasks q \<noteq> []" "f = last (tasks q)" and s1: "s1 = s\<lparr>m_threadQueues := (m_threadQueues s)[v := q\<lparr>tasks := butlast (tasks q), pending := pending q - 1\<rparr>]\<rparr>"
    using assms(2) Some by (auto simp: steal_once_def Let_def v_def q_def split: if_splits)
  then obtain fs where "tasks q = fs @ [f]"
    by (metis append_butlast_last_id)
  then show ?thesis
    using waiting_jobs_upd[OF v, of "q\<lparr>tasks := butlast (tasks q), pending := pending q - 1\<rparr>"] counters_okD[OF _ v] Some
    by (auto simp: keeps_shape_def s1 q_def[symmetric] intro!: counters_ok_upd)
qed

lemma drainLocalQueue_ok:
  assumes "i < length (m_threadQueues s)" and "counters_ok s"
  shows "keeps_shape s (drainLocalQueue i s) \<and> waiting_jobs (drainLocalQueue i s) = waiting_jobs s"
proof -
  define q where "q = m_threadQueues s ! i"
  let ?q = "q\<lparr>tasks := [], pending := pending q - length (tasks q)\<rparr>"
  let ?s = "s\<lparr>m_threadQueues := (m_threadQueues s)[i := ?q]\<rparr>"
  have "counters_ok ?s"
    using assms counters_okD[OF assms(2,1)] by (intro counters_ok_upd) (simp_all add: q_def)
  moreover have "m_pending s = length (m_queue s)"
    using assms(2) by (simp add: counters_ok_def)
  ultimately have "counters_ok (?s\<lparr>m_queue := m_queue s @ fs, m_pending := m_pending s + length fs\<rparr>)" for fs
    by (intro counters_ok_queue) simp_all
  moreover have d: "drainLocalQueue i s = ?s\<lparr>m_queue := m_queue s @ map (\<lambda>f. f\<lparr>threadId := -1\<rparr>) (tasks q),
      m_pending := m_pending s + length (map (\<lambda>f. f\<lparr>threadId := -1\<rparr>) (tasks q))\<rparr>"
    by (simp add: drainLocalQueue_def Let_def q_def)
  ultimately have "keeps_shape s (drainLocalQueue i s)"
    by (simp only: keeps_shape_def) simp
  moreover have "waiting_jobs ?s + jobs_of (tasks q) = waiting_jobs s"
    using waiting_jobs_upd[OF assms(1), of ?q] by (simp add: q_def)
  moreover have "jobs_of (map (\<lambda>f. f\<lparr>threadId := -1\<rparr>) (tasks q)) = jobs_of (tasks q)"
    by (simp add: jobs_of_def comp_def)
  ultimately show ?thesis
    unfolding d by (simp add: waiting_jobs_def ac_simps)
qed

text \<open>The steps keep the invariant.\<close>

lemma goto_ok:
  assumes "pool_ok n p" and "i < length (workers p)" and "length (m_threadQueues s) = length (m_threadQueues (sched p))"
    and "counters_ok s"
    and "m_running s + (if is_running (workers p ! i) then 1 else 0) = m_running (sched p) + (if is_running w then 1 else 0)"
    and "j + held_by w + waiting_jobs s = held_by (workers p ! i) + waiting_jobs (sched p)"
  shows "pool_ok n ((goto i w s p)\<lparr>ran := ran p + j\<rparr>)"
proof -
  have "held (goto i w s p) + held_by (workers p ! i) = held p + held_by w"
    using sum_list_upd[OF assms(2), of held_by w] by (simp add: goto_def held_def)
  then have eqs: "count (held (goto i w s p)) x + count (held_by (workers p ! i)) x = count (held p) x + count (held_by w) x"
    "count j x + count (held_by w) x + count (waiting_jobs s) x = count (held_by (workers p ! i)) x + count (waiting_jobs (sched p)) x" for x
    using assms(6) by (metis count_union)+
  then have "j + held (goto i w s p) + waiting_jobs s = held p + waiting_jobs (sched p)"
  proof (intro multiset_eqI)
    fix x
    show "count (j + held (goto i w s p) + waiting_jobs s) x = count (held p + waiting_jobs (sched p)) x"
      using eqs[of x] by simp
  qed
  moreover have "m_running s = sum_list (map (\<lambda>w. if is_running w then 1 else 0) ((workers p)[i := w]))"
    using assms(1,5) sum_list_upd[OF assms(2), of "\<lambda>w. if is_running w then (1::int) else 0" w]
    by (simp add: pool_ok_def)
  ultimately show ?thesis
    using assms(1-4) by (simp add: pool_ok_def goto_def held_def ac_simps)
qed

lemma goto_ok0:
  assumes "pool_ok n p" and "i < length (workers p)" and "length (m_threadQueues s) = length (m_threadQueues (sched p))"
    and "counters_ok s"
    and "m_running s + (if is_running (workers p ! i) then 1 else 0) = m_running (sched p) + (if is_running w then 1 else 0)"
    and "held_by w + waiting_jobs s = held_by (workers p ! i) + waiting_jobs (sched p)"
  shows "pool_ok n (goto i w s p)"
  using goto_ok[OF assms(1-5), of "{#}"] assms(6) by (simp add: goto_def)

lemma goto_fetch:
  assumes ok: "pool_ok n p" "i < length (workers p)" and "held_by (workers p ! i) = {#}" "\<not> is_running (workers p ! i)"
    and "keeps_shape (sched p) s1" "waiting_jobs (sched p) = waiting_jobs s1 + (case r of None \<Rightarrow> {#} | Some f \<Rightarrow> {#fcb f#})"
    and "held_by w = {#}" "\<not> is_running w"
  shows "pool_ok n (case r of None \<Rightarrow> goto i w s1 p | Some f \<Rightarrow> goto i (Holding f) s1 p)"
proof -
  have "counters_ok (sched p)"
    using ok(1) by (simp add: pool_ok_def)
  then have "pool_ok n ((goto i (case r of None \<Rightarrow> w | Some f \<Rightarrow> Holding f) s1 p)\<lparr>ran := ran p + {#}\<rparr>)"
    using assms by (intro goto_ok) (auto simp: keeps_shape_def split: option.splits)
  then show ?thesis
    by (cases r) (simp_all add: goto_def)
qed

lemma run_step_ok:
  assumes ok: "pool_ok n p" and i: "i < length (workers p)"
  shows "pool_ok n (run_step i x owns fin p)"
proof -
  have c: "counters_ok (sched p)" "i < length (m_threadQueues (sched p))" "m_threadQueues (sched p) \<noteq> []"
    using ok i by (auto simp: pool_ok_def)
  show ?thesis
  proof (cases "workers p ! i")
    case AtLocal
    obtain r s1 where rs: "fetch_local i (sched p) = (r, s1)"
      by fastforce
    show ?thesis
      using goto_fetch[OF ok i, of s1 r AtGlobal] fetch_local_ok[OF c(2) rs] AtLocal
      by (cases r) (simp_all add: run_step_def rs)
  next
    case AtGlobal
    obtain r s1 where rs: "fetch_global (sched p) = (r, s1)"
      by fastforce
    show ?thesis
      using goto_fetch[OF ok i, of s1 r "AtSteal 0"] fetch_global_ok[OF rs] AtGlobal
      by (cases r) (simp_all add: run_step_def rs)
  next
    case (AtSteal k)
    obtain r s1 where rs: "steal_once i x owns (sched p) = (r, s1)"
      by fastforce
    have "pool_ok n (goto i AtIdle (sched p) p)"
      using AtSteal c by (intro goto_ok0[OF ok i]) simp_all
    then show ?thesis
      using goto_fetch[OF ok i, of s1 r "AtSteal (Suc k)"] steal_once_ok[OF c(3) rs] AtSteal
      by (cases r) (simp_all add: run_step_def Let_def rs)
  next
    case (Holding f)
    then show ?thesis
      using c by (simp add: run_step_def Let_def) (rule goto_ok0[OF ok i], simp_all)
  next
    case (Running f)
    then show ?thesis
      using c by (simp add: run_step_def Let_def) (rule goto_ok[OF ok i, where j = "{#fcb f#}", simplified], simp_all)
  next
    case AtIdle
    then show ?thesis
      using c by (simp add: run_step_def Let_def clearFinishedTasks_def drainFinished_def goto_ok0[OF ok i])
  next
    case AtWait
    then show ?thesis
      using c by (simp add: run_step_def Let_def goto_ok0[OF ok i])
  next
    case Exited
    then show ?thesis
      using ok by (simp add: run_step_def Let_def)
  qed
qed

lemma accepted_ok:
  assumes "pool_ok n p" and "keeps_shape (sched p) s" and "waiting_jobs s = waiting_jobs (sched p) + (if m_stopping (sched p) then {#} else js)"
  shows "pool_ok n (accept js s p)"
  using assms by (auto simp: pool_ok_def accept_def keeps_shape_def held_def)

lemma act_ok:
  assumes "pool_ok n p"
  shows "pool_ok n (act a p)"
proof (cases a)
  case (Submit cur j thr)
  then show ?thesis
    using schedule_ok[of "sched p" cur j thr] by (auto intro: accepted_ok[OF assms])
next
  case (SubmitTask cur t thr)
  let ?s = "(sched p)\<lparr>m_runningTasks := m_runningTasks (sched p) @ [t]\<rparr>"
  have "keeps_shape (sched p) ?s"
    by (simp add: keeps_shape_def)
  then show ?thesis
    using SubmitTask schedule_ok[of ?s cur "StartTask t" thr]
    by (auto simp: schedule_task_def keeps_shape_def intro!: accepted_ok[OF assms])
next
  case (Drain i)
  then show ?thesis
    using assms drainLocalQueue_ok[of i "sched p"] by (auto simp: pool_ok_def keeps_shape_def held_def)
next
  case (Work i r owns fin)
  then show ?thesis
    using assms by (simp add: run_step_ok)
qed (use assms in \<open>auto simp: on_complete_def stop_flags_def pool_ok_def held_def waiting_jobs_def counters_ok_def\<close>)

lemma pool_reachable_ok: "pool_reachable n p \<Longrightarrow> pool_ok n p"
proof (induction rule: pool_reachable.induct)
  case (start p)
  then show ?case
    by (auto simp: pool_new_def scheduler_new_def start_flags_def pool_ok_def held_def waiting_jobs_def counters_ok_def
        sum_list_replicate sum_list_replicate_empty split: if_splits)
qed (rule act_ok)



subsection \<open>Where jobs are missed\<close>

text \<open>\<open>wait_all\<close> may return while a job has not run: a worker takes a job off its queue, which takes it
  off the counter, and only then counts it as running. Between the two the test holds.\<close>

theorem wait_all_misses_job:
  "\<exists>p. pool_reachable 1 p \<and> wait_all_test (sched p) \<and> accepted p = {#j#} \<and> ran p = {#}"
  by (rule pool_run[where as = "[Submit (-1) j 0, Work 0 0 True []]"]) (simp add: pool_eval)

text \<open>Stopping may drop a job that was accepted before the stop was requested: a worker that found
  all queues empty looks at the flag, and leaves, without looking at the queues again.\<close>

theorem stop_drops_job:
  "\<exists>p. pool_reachable 1 p \<and> \<not> m_stopping (sched p) \<and> accepted p = {#j#} \<and>
       workers (fold act [Stop, Work 0 0 True []] p) = [Exited] \<and> ran (fold act [Stop, Work 0 0 True []] p) = {#}"
  by (rule pool_run[where as = "[Work 0 0 True [], Work 0 0 True [], Work 0 0 True [], Submit (-1) j 0]"]) (simp add: pool_eval)

text \<open>A job submitted for one thread may run in another, which stole it.\<close>

lemma pinned_job_stolen:
  "\<exists>p. pool_reachable 2 p \<and> workers p ! 1 = Holding \<lparr>fcb = j, threadId = 0\<rparr>"
  by (rule pool_run[where as = "[Submit (-1) j 0, Work 1 0 True [], Work 1 0 True [], Work 1 0 True []]"]) (simp add: pool_eval numeral_2_eq_2)

end
