(* ===== verification/Timers.thy ===== *)
theory Timers
  imports Sched
begin

text \<open>
  The timers of \<open>src/src/core/timer.{h,cpp}\<close>. A timer object lives at an address; the \<open>std::set\<close> of the
  manager is the list of the addresses in its order, which the comparator takes from the objects. A
  search in the set (\<open>insert\<close>, \<open>find\<close>, \<open>erase\<close> by key) is undefined when the keys of its elements have
  been changed so that it is no longer ordered: \<open>BrokenOrder\<close>. Walking it is not. Callbacks and
  coroutine handles are numbers; what the scheduler is given are the jobs \<open>processExpired\<close> returns. The clock is an argument,
  in nanoseconds; instants and periods are unbounded, so the overflow of a \<open>time_point\<close> (periods of more
  than 292 years) is outside the model.
\<close>

subsection \<open>State\<close>

record Timer =
  m_recurring :: bool
  m_ms :: nat
  m_expire :: int
  m_handle :: "nat option"
  m_cb :: "callback option"

record TimerManager =
  objs :: "nat \<Rightarrow> Timer"
  m_timers :: "nat list"
  m_tickle :: bool
  m_previousTime :: int
  wakeups :: nat

definition ms_ns :: "nat \<Rightarrow> int" where
  "ms_ns ms = int ms * 1000000"

definition timers_new :: "int \<Rightarrow> TimerManager" where
  "timers_new now = \<lparr>objs = (\<lambda>_. \<lparr>m_recurring = False, m_ms = 0, m_expire = 0, m_handle = None, m_cb = None\<rparr>),
     m_timers = [], m_tickle = False, m_previousTime = now, wakeups = 0\<rparr>"

text \<open>The comparator; the null pointer comes first.\<close>

fun comparator :: "(nat \<Rightarrow> Timer) \<Rightarrow> nat option \<Rightarrow> nat option \<Rightarrow> bool" where
  "comparator os None None = False"
| "comparator os None (Some b) = True"
| "comparator os (Some a) None = False"
| "comparator os (Some a) (Some b) =
     (if m_expire (os a) = m_expire (os b) then a < b else m_expire (os a) < m_expire (os b))"

definition timer_before :: "(nat \<Rightarrow> Timer) \<Rightarrow> nat \<Rightarrow> nat \<Rightarrow> bool" where
  "timer_before os a b = comparator os (Some a) (Some b)"

definition timers_ordered :: "(nat \<Rightarrow> Timer) \<Rightarrow> nat list \<Rightarrow> bool" where
  "timers_ordered os xs \<longleftrightarrow> sorted_wrt (timer_before os) xs"

subsection \<open>The ordered set\<close>

definition timers_insert :: "(nat \<Rightarrow> Timer) \<Rightarrow> nat \<Rightarrow> nat list \<Rightarrow> (bool \<times> nat list) res" where
  "timers_insert os t xs =
     (if \<not> timers_ordered os xs then Inl BrokenOrder
      else if t \<in> set xs then Inr (False, xs)
      else Inr (True, takeWhile (\<lambda>x. timer_before os x t) xs @ [t] @ dropWhile (\<lambda>x. timer_before os x t) xs))"

definition timers_erase :: "(nat \<Rightarrow> Timer) \<Rightarrow> nat \<Rightarrow> nat list \<Rightarrow> (bool \<times> nat list) res" where
  "timers_erase os t xs =
     (if \<not> timers_ordered os xs then Inl BrokenOrder else Inr (t \<in> set xs, filter (\<lambda>x. x \<noteq> t) xs))"

subsection \<open>Timers\<close>

definition timer_new :: "int \<Rightarrow> nat \<Rightarrow> nat option \<Rightarrow> callback option \<Rightarrow> bool \<Rightarrow> Timer" where
  "timer_new now ms h cb recurring = \<lparr>m_recurring = recurring, m_ms = ms, m_expire = now + ms_ns ms, m_handle = h, m_cb = cb\<rparr>"

definition timer_cancel :: "nat \<Rightarrow> TimerManager \<Rightarrow> (bool \<times> TimerManager) res" where
  "timer_cancel t m =
     (let os = (objs m)(t := (objs m t)\<lparr>m_cb := None, m_handle := None\<rparr>) in
      bnd (timers_erase os t (m_timers m)) (\<lambda>(_, xs). Inr (True, m\<lparr>objs := os, m_timers := xs\<rparr>)))"

text \<open>\<open>None\<close> stands for the default argument, \<open>-1\<close>.\<close>

definition timer_reset :: "int \<Rightarrow> nat option \<Rightarrow> bool \<Rightarrow> nat \<Rightarrow> TimerManager \<Rightarrow> (bool \<times> TimerManager) res" where
  "timer_reset now ms from_now t m =
     (let tm = (case ms of None \<Rightarrow> objs m t | Some n \<Rightarrow> (objs m t)\<lparr>m_ms := n\<rparr>);
          m1 = m\<lparr>objs := (objs m)(t := tm)\<rparr>;
          start = (if from_now then now else m_expire tm - ms_ns (m_ms tm));
          new_expire = start + ms_ns (m_ms tm)
      in if new_expire = m_expire tm then Inr (True, m1)
         else bnd (timers_erase (objs m1) t (m_timers m1)) (\<lambda>(found, xs).
           if \<not> found then Inr (False, m1)
           else
             let m2 = m1\<lparr>objs := (objs m1)(t := tm\<lparr>m_expire := new_expire\<rparr>)\<rparr> in
             bnd (timers_insert (objs m2) t xs) (\<lambda>(inserted, ys).
               if \<not> inserted then Inr (False, m2\<lparr>m_timers := ys\<rparr>)
               else let at_front = (hd ys = t) in
                    Inr (True, m2\<lparr>m_timers := ys, m_tickle := m_tickle m2 \<or> at_front,
                                  wakeups := wakeups m2 + (if at_front then 1 else 0)\<rparr>))))"

subsection \<open>The manager\<close>

text \<open>The new object is allocated at address \<open>t\<close>.\<close>

definition addTimer :: "int \<Rightarrow> nat \<Rightarrow> nat \<Rightarrow> nat option \<Rightarrow> callback option \<Rightarrow> bool \<Rightarrow> TimerManager \<Rightarrow> (nat option \<times> TimerManager) res" where
  "addTimer now t ms h cb recurring m =
     (let os = (objs m)(t := timer_new now ms h cb recurring); was_empty = (m_timers m = []) in
      bnd (timers_insert os t (m_timers m)) (\<lambda>(inserted, ys).
        if \<not> inserted then Inr (None, m\<lparr>objs := os\<rparr>)
        else let at_front = (hd ys = t) in
             Inr (Some t, m\<lparr>objs := os, m_timers := ys, m_tickle := m_tickle m \<or> at_front,
                            wakeups := wakeups m + (if at_front \<or> was_empty then 1 else 0)\<rparr>)))"

definition addConditionTimer ::
  "int \<Rightarrow> nat \<Rightarrow> nat \<Rightarrow> nat option \<Rightarrow> nat option \<Rightarrow> nat \<Rightarrow> bool \<Rightarrow> TimerManager \<Rightarrow> (nat option \<times> TimerManager) res"
where
  "addConditionTimer now t ms h cb weak_cond recurring m = addTimer now t ms h (Some (OnTimer weak_cond cb)) recurring m"

text \<open>The functions a callback calls when it runs, given which condition objects are still alive.\<close>

fun run_callback :: "(nat \<Rightarrow> bool) \<Rightarrow> callback \<Rightarrow> nat list" where
  "run_callback alive (Fn f) = [f]"
| "run_callback alive (OnTimer c cb) = (case cb of Some f \<Rightarrow> if alive c then [f] else [] | None \<Rightarrow> [])"

definition clear_timers :: "TimerManager \<Rightarrow> TimerManager" where
  "clear_timers m = m\<lparr>objs := (\<lambda>t. if t \<in> set (m_timers m) then (objs m t)\<lparr>m_handle := None, m_cb := None\<rparr> else objs m t),
     m_timers := []\<rparr>"

definition getNextTime :: "int \<Rightarrow> TimerManager \<Rightarrow> int" where
  "getNextTime now m =
     (case m_timers m of [] \<Rightarrow> 2 ^ 64 - 1
      | t # _ \<Rightarrow> if now \<ge> m_expire (objs m t) then 0 else (m_expire (objs m t) - now) div 1000000)"

text \<open>
  One walk over the set: the timers to process, what stays in the set, and the objects. A recurring
  timer gets its new deadline where it stands.
\<close>

fun expire_loop :: "int \<Rightarrow> (nat \<Rightarrow> Timer) \<Rightarrow> nat list \<Rightarrow> nat list \<times> nat list \<times> (nat \<Rightarrow> Timer)" where
  "expire_loop now os [] = ([], [], os)"
| "expire_loop now os (t # ts) =
     (if m_expire (os t) \<le> now then
        if m_recurring (os t) then
          let (fired, rest, os1) = expire_loop now (os(t := (os t)\<lparr>m_expire := now + ms_ns (m_ms (os t))\<rparr>)) ts
          in (t # fired, t # rest, os1)
        else let (fired, rest, os1) = expire_loop now os ts in (t # fired, rest, os1)
      else ([], t # ts, os))"

definition tasks_of :: "Timer \<Rightarrow> job list" where
  "tasks_of t = (case m_cb t of None \<Rightarrow> [] | Some c \<Rightarrow> [Call c]) @ (case m_handle t of None \<Rightarrow> [] | Some h \<Rightarrow> [Resume h])"

text \<open>\<open>on_scheduler\<close>: the calling thread has a scheduler.\<close>

definition processExpired :: "bool \<Rightarrow> int \<Rightarrow> TimerManager \<Rightarrow> job list \<times> TimerManager" where
  "processExpired on_scheduler now m =
     (let (to_process, rest, os) = expire_loop now (objs m) (m_timers m) in
      (if on_scheduler then concat (map (\<lambda>t. tasks_of (os t)) to_process) else [], m\<lparr>objs := os, m_timers := rest\<rparr>))"

definition hasTimer :: "TimerManager \<Rightarrow> bool" where
  "hasTimer m \<longleftrightarrow> m_timers m \<noteq> []"

definition detectClockRollover :: "int \<Rightarrow> TimerManager \<Rightarrow> bool \<times> TimerManager" where
  "detectClockRollover now m =
     (now < m_previousTime m \<and> now < m_previousTime m - ms_ns (60 * 60 * 1000), m\<lparr>m_previousTime := now\<rparr>)"

definition removeTimerLocked :: "nat \<Rightarrow> TimerManager \<Rightarrow> TimerManager res" where
  "removeTimerLocked t m = bnd (timers_erase (objs m) t (m_timers m)) (\<lambda>(_, xs). Inr (m\<lparr>m_timers := xs\<rparr>))"

subsection \<open>Laws of the ordered set\<close>

lemma timer_before_trans: "timer_before os a b \<Longrightarrow> timer_before os b c \<Longrightarrow> timer_before os a c"
  by (auto simp: timer_before_def split: if_splits)

lemma timer_before_total: "a \<noteq> b \<Longrightarrow> \<not> timer_before os a b \<Longrightarrow> timer_before os b a"
  by (auto simp: timer_before_def split: if_splits)

lemma timer_before_irrefl [simp]: "\<not> timer_before os a a"
  by (simp add: timer_before_def)

lemma timer_before_expire: "timer_before os a b \<Longrightarrow> m_expire (os a) \<le> m_expire (os b)"
  by (auto simp: timer_before_def split: if_splits)

lemma timers_ordered_simps [simp]:
  "timers_ordered os []"
  "timers_ordered os (x # xs) \<longleftrightarrow> (\<forall>y\<in>set xs. timer_before os x y) \<and> timers_ordered os xs"
  by (simp_all add: timers_ordered_def)

lemma timers_ordered_append:
  "timers_ordered os (xs @ ys) \<longleftrightarrow>
   timers_ordered os xs \<and> timers_ordered os ys \<and> (\<forall>x\<in>set xs. \<forall>y\<in>set ys. timer_before os x y)"
  by (auto simp: timers_ordered_def sorted_wrt_append)

lemma timers_ordered_filter: "timers_ordered os xs \<Longrightarrow> timers_ordered os (filter P xs)"
  by (simp add: timers_ordered_def sorted_wrt_filter)

lemma timers_ordered_cong:
  assumes "\<And>x. x \<in> set xs \<Longrightarrow> m_expire (os x) = m_expire (os' x)"
  shows "timers_ordered os xs = timers_ordered os' xs"
  using assms by (induction xs) (auto simp: timer_before_def)

lemma after_dropWhile:
  assumes "timers_ordered os xs" and "t \<notin> set xs" and "y \<in> set (dropWhile (\<lambda>x. timer_before os x t) xs)"
  shows "timer_before os t y"
  using assms
proof (induction xs)
  case (Cons a xs)
  then show ?case
    by (auto split: if_splits dest: timer_before_total intro: timer_before_trans)
qed simp

lemma timers_insert_ordered:
  assumes "timers_ordered os xs" and "t \<notin> set xs"
  obtains ys where "timers_insert os t xs = Inr (True, ys)" and "timers_ordered os ys" and "set ys = insert t (set xs)"
proof (rule that)
  let ?p = "\<lambda>x. timer_before os x t"
  show "timers_insert os t xs = Inr (True, takeWhile ?p xs @ [t] @ dropWhile ?p xs)"
    using assms by (simp add: timers_insert_def)
  have "timers_ordered os (takeWhile ?p xs @ dropWhile ?p xs)"
    using assms(1) by simp
  then show "timers_ordered os (takeWhile ?p xs @ [t] @ dropWhile ?p xs)"
    unfolding timers_ordered_append using after_dropWhile[OF assms] by (auto dest: set_takeWhileD)
  have "set xs = set (takeWhile ?p xs) \<union> set (dropWhile ?p xs)"
    by (metis set_append takeWhile_dropWhile_id)
  then show "set (takeWhile ?p xs @ [t] @ dropWhile ?p xs) = insert t (set xs)"
    by auto
qed

lemma timers_erase_ordered:
  "timers_ordered os xs \<Longrightarrow> timers_erase os t xs = Inr (t \<in> set xs, filter (\<lambda>x. x \<noteq> t) xs)"
  by (simp add: timers_erase_def)

subsection \<open>One-shot timers\<close>

definition timers_ok :: "TimerManager \<Rightarrow> bool" where
  "timers_ok m \<longleftrightarrow> timers_ordered (objs m) (m_timers m) \<and> (\<forall>t\<in>set (m_timers m). \<not> m_recurring (objs m t))"

definition due :: "int \<Rightarrow> TimerManager \<Rightarrow> nat list" where
  "due now m = filter (\<lambda>t. m_expire (objs m t) \<le> now) (m_timers m)"

text \<open>The calls the rest of the program makes, none of them asking for a recurring timer.\<close>

inductive timer_step :: "TimerManager \<Rightarrow> TimerManager \<Rightarrow> bool" where
  add: "t \<notin> set (m_timers m) \<Longrightarrow> addTimer now t ms h cb False m = Inr (r, m') \<Longrightarrow> timer_step m m'"
| cancelled: "timer_cancel t m = Inr (r, m') \<Longrightarrow> timer_step m m'"
| restarted: "timer_reset now ms from_now t m = Inr (r, m') \<Longrightarrow> timer_step m m'"
| fired: "timer_step m (snd (processExpired on_scheduler now m))"
| cleared: "timer_step m (clear_timers m)"

inductive timers_reachable :: "TimerManager \<Rightarrow> bool" where
  start: "timers_reachable (timers_new now)"
| step: "timers_reachable m \<Longrightarrow> timer_step m m' \<Longrightarrow> timers_reachable m'"

lemma timers_ordered_upd:
  "m_expire v = m_expire (os t) \<Longrightarrow> timers_ordered (os(t := v)) xs = timers_ordered os xs"
  by (rule timers_ordered_cong) simp

lemma timers_ordered_other: "t \<notin> set xs \<Longrightarrow> timers_ordered (os(t := v)) xs = timers_ordered os xs"
  by (rule timers_ordered_cong) auto

lemma addTimer_ok:
  assumes "timers_ok m" and "t \<notin> set (m_timers m)"
  obtains m' where "addTimer now t ms h cb False m = Inr (Some t, m')" and "timers_ok m'"
    and "set (m_timers m') = insert t (set (m_timers m))" and "m_expire (objs m' t) = now + ms_ns ms"
proof -
  let ?os = "(objs m)(t := timer_new now ms h cb False)"
  have "timers_ordered ?os (m_timers m)"
    using assms by (simp add: timers_ok_def timers_ordered_other)
  then obtain ys where ys: "timers_insert ?os t (m_timers m) = Inr (True, ys)" "timers_ordered ?os ys"
      "set ys = insert t (set (m_timers m))"
    using assms(2) by (rule timers_insert_ordered)
  have run: "addTimer now t ms h cb False m = Inr (Some t, m\<lparr>objs := ?os, m_timers := ys, m_tickle := m_tickle m \<or> hd ys = t,
      wakeups := wakeups m + (if hd ys = t \<or> m_timers m = [] then 1 else 0)\<rparr>)"
    by (simp add: addTimer_def Let_def ys(1))
  show thesis
    by (rule that[OF run]) (use assms ys in \<open>auto simp: timers_ok_def timer_new_def\<close>)
qed

lemma timer_cancel_ok:
  assumes "timers_ok m"
  obtains m' where "timer_cancel t m = Inr (True, m')" and "timers_ok m'" and "set (m_timers m') = set (m_timers m) - {t}"
  using assms by (auto simp: timer_cancel_def timers_ok_def timers_ordered_upd timers_erase_ordered Let_def timers_ordered_filter)

lemma timer_reset_ok:
  assumes "timers_ok m"
  obtains r m' where "timer_reset now ms from_now t m = Inr (r, m')" and "timers_ok m'" and "set (m_timers m') = set (m_timers m)"
proof -
  define tm where "tm = (case ms of None \<Rightarrow> objs m t | Some n \<Rightarrow> (objs m t)\<lparr>m_ms := n\<rparr>)"
  define start where "start = (if from_now then now else m_expire tm - ms_ns (m_ms tm))"
  let ?os1 = "(objs m)(t := tm)"
  let ?os2 = "(objs m)(t := tm\<lparr>m_expire := start + ms_ns (m_ms tm)\<rparr>)"
  let ?xs = "filter (\<lambda>x. x \<noteq> t) (m_timers m)"
  have same: "m_expire tm = m_expire (objs m t)" "m_recurring tm = m_recurring (objs m t)"
    by (simp_all add: tm_def split: option.split)
  then have ord1: "timers_ordered ?os1 (m_timers m)"
    using assms by (simp add: timers_ok_def timers_ordered_upd)
  have "timers_ordered ?os2 ?xs"
    using assms by (simp add: timers_ok_def timers_ordered_other timers_ordered_filter)
  then obtain ys where ys: "timers_insert ?os2 t ?xs = Inr (True, ys)" "timers_ordered ?os2 ys" "set ys = insert t (set ?xs)"
    by (rule timers_insert_ordered[where t = t]) auto
  have run: "timer_reset now ms from_now t m =
    (if start + ms_ns (m_ms tm) = m_expire tm then Inr (True, m\<lparr>objs := ?os1\<rparr>)
     else if t \<notin> set (m_timers m) then Inr (False, m\<lparr>objs := ?os1\<rparr>)
     else Inr (True, m\<lparr>objs := ?os2, m_timers := ys, m_tickle := m_tickle m \<or> hd ys = t,
                       wakeups := wakeups m + (if hd ys = t then 1 else 0)\<rparr>))"
    unfolding timer_reset_def Let_def tm_def[symmetric] start_def[symmetric]
    using ord1 ys(1) by (simp add: timers_erase_ordered)
  have ok: "timers_ok (m\<lparr>objs := ?os1\<rparr>)"
    using assms ord1 same by (auto simp: timers_ok_def)
  show thesis
  proof (cases "start + ms_ns (m_ms tm) = m_expire tm \<or> t \<notin> set (m_timers m)")
    case True
    then show thesis
      using run ok by (auto intro!: that split: if_splits)
  next
    case False
    then have run2: "timer_reset now ms from_now t m =
      Inr (True, m\<lparr>objs := ?os2, m_timers := ys, m_tickle := m_tickle m \<or> hd ys = t,
                    wakeups := wakeups m + (if hd ys = t then 1 else 0)\<rparr>)"
      using run by simp
    show thesis
      by (rule that[OF run2]) (use False assms ys same in \<open>auto simp: timers_ok_def\<close>)
  qed
qed

text \<open>Without recurring timers the walk is a split of the set at the current time.\<close>

lemma expire_loop_oneshot:
  assumes "timers_ordered os xs" and "\<forall>t\<in>set xs. \<not> m_recurring (os t)"
  shows "expire_loop now os xs = (filter (\<lambda>t. m_expire (os t) \<le> now) xs, filter (\<lambda>t. \<not> m_expire (os t) \<le> now) xs, os)"
  using assms
proof (induction xs)
  case (Cons x xs)
  show ?case
  proof (cases "m_expire (os x) \<le> now")
    case False
    then have "\<not> m_expire (os y) \<le> now" if "y \<in> set xs" for y
      using Cons.prems(1) that by (fastforce dest: timer_before_expire)
    then show ?thesis
      using False by (auto simp: filter_empty_conv filter_id_conv)
  qed (use Cons in simp)
qed simp

lemma processExpired_oneshot:
  assumes "timers_ok m"
  shows "processExpired s now m =
    (if s then concat (map (\<lambda>t. tasks_of (objs m t)) (filter (\<lambda>t. m_expire (objs m t) \<le> now) (m_timers m))) else [],
     m\<lparr>m_timers := filter (\<lambda>t. \<not> m_expire (objs m t) \<le> now) (m_timers m)\<rparr>)"
  using assms by (simp add: processExpired_def timers_ok_def expire_loop_oneshot)

lemma timer_step_ok:
  assumes "timer_step m m'" and ok: "timers_ok m"
  shows "timers_ok m'"
  using assms(1)
proof cases
  case (add t now ms h cb r)
  then show ?thesis
    using addTimer_ok[OF ok, of t now ms h cb] by auto
next
  case (cancelled t r)
  then show ?thesis
    using timer_cancel_ok[OF ok, of t] by auto
next
  case (restarted now ms from_now t r)
  then show ?thesis
    using timer_reset_ok[OF ok, of now ms from_now t] by auto
next
  case (fired s now)
  then show ?thesis
    using ok by (simp add: processExpired_oneshot) (auto simp: timers_ok_def timers_ordered_filter)
next
  case cleared
  then show ?thesis
    by (simp add: clear_timers_def timers_ok_def)
qed

lemma timers_reachable_ok: "timers_reachable m \<Longrightarrow> timers_ok m"
proof (induction rule: timers_reachable.induct)
  case (start now)
  then show ?case
    by (simp add: timers_new_def timers_ok_def)
qed (rule timer_step_ok)

lemma getNextTime_sound:
  assumes "timers_ok m" and "t \<in> set (m_timers m)" and "now < m_expire (objs m t)"
  shows "now + getNextTime now m * 1000000 \<le> m_expire (objs m t)"
proof (cases "m_timers m")
  case (Cons x xs)
  have "m_expire (objs m x) \<le> m_expire (objs m t)"
    using assms(1,2) Cons by (auto simp: timers_ok_def dest: timer_before_expire)
  then show ?thesis
    using assms(3) Cons by (auto simp: getNextTime_def)
qed (use assms in simp)



subsection \<open>Recurring timers\<close>

lemma expire_loop_head:
  assumes "m_recurring (os r)" and "m_expire (os r) \<le> now" and "r \<noteq> t" and "now < m_expire (os t)"
  shows "expire_loop now os (r # t # ts) = ([r], r # t # ts, os(r := (os r)\<lparr>m_expire := now + ms_ns (m_ms (os r))\<rparr>))"
  using assms by simp

text \<open>A recurring timer that fires keeps its place in the set while its deadline moves on, and the timer
  behind it, although its own deadline comes first, is not fired when that deadline has passed: the
  walk stops at the recurring timer, nothing is scheduled, and the poller is told to sleep until the
  recurring timer is due. The set is then out of order, and adding another timer to it is undefined.
\<close>

theorem recurring_timer_starves:
  assumes "m_timers m = r # t # ts" and "r \<noteq> t" and "m_recurring (objs m r)"
    and "m_expire (objs m r) \<le> now1" and "now1 < m_expire (objs m t)"
    and "m_expire (objs m t) \<le> now2" and "now2 < now1 + ms_ns (m_ms (objs m r))"
    and "u \<notin> set (m_timers m)"
  defines "m1 \<equiv> snd (processExpired True now1 m)"
  shows "processExpired True now2 m1 = ([], m1) \<and> t \<in> set (m_timers m1) \<and>
    getNextTime now2 m1 = (now1 + ms_ns (m_ms (objs m r)) - now2) div 1000000 \<and>
    addTimer now2 u ms h cb b m1 = Inl BrokenOrder"
proof -
  let ?os = "(objs m)(r := (objs m r)\<lparr>m_expire := now1 + ms_ns (m_ms (objs m r))\<rparr>)"
  have m1: "objs m1 = ?os" "m_timers m1 = r # t # ts"
    using assms(1-5) by (simp_all add: m1_def processExpired_def expire_loop_head)
  have "processExpired True now2 m1 = ([], m1)"
    using assms(7) by (simp add: processExpired_def m1)
  moreover have "t \<in> set (m_timers m1)"
    by (simp add: m1)
  moreover have "getNextTime now2 m1 = (now1 + ms_ns (m_ms (objs m r)) - now2) div 1000000"
    using assms(7) by (simp add: getNextTime_def m1)
  moreover have "\<not> timers_ordered (?os(u := v)) (r # t # ts)" for v
    using assms by (auto simp: timer_before_def)
  then have "addTimer now2 u ms h cb b m1 = Inl BrokenOrder"
    by (simp add: addTimer_def m1 timers_insert_def Let_def del: timers_ordered_simps)
  ultimately show ?thesis
    by simp
qed

theorem recurring_timer_starves_witness:
  "\<exists>m m1. addTimer 0 2 10 None (Some (Fn 7)) True (timers_new 0) = Inr (Some 2, m) \<and>
     addTimer 0 3 15 None (Some (Fn 8)) False m = Inr (Some 3, m1) \<and>
     fst (processExpired True 16000000 (snd (processExpired True 10000000 m1))) = []"
proof -
  let ?f = "\<lambda>m. addTimer 0 3 15 None (Some (Fn 8)) False m"
  obtain m where m: "addTimer 0 2 10 None (Some (Fn 7)) True (timers_new 0) = Inr (Some 2, m)"
    and "m_timers m = [2]" "objs m 2 = timer_new 0 10 None (Some (Fn 7)) True"
    by (simp add: addTimer_def timers_insert_def timers_new_def)
  then obtain m1 where m1: "?f m = Inr (Some 3, m1)" "m_timers m1 = [2, 3]"
    and os: "objs m1 2 = timer_new 0 10 None (Some (Fn 7)) True" "objs m1 3 = timer_new 0 15 None (Some (Fn 8)) False"
    by (simp add: addTimer_def timers_insert_def timer_before_def timer_new_def ms_ns_def)
  have "fst (processExpired True 16000000 (snd (processExpired True 10000000 m1))) = []"
    using recurring_timer_starves[OF m1(2), where ?now1.0 = 10000000 and ?now2.0 = 16000000 and u = 4]
    by (simp add: os m1(2) timer_new_def ms_ns_def)
  then show ?thesis
    using m m1(1) by blast
qed

text \<open>With \<open>from_now\<close> false the new period is used for both ends, so the deadline does not move.\<close>

lemma timer_reset_keeps_deadline:
  "timer_reset now (Some n) False t m = Inr (True, m\<lparr>objs := (objs m)(t := (objs m t)\<lparr>m_ms := n\<rparr>)\<rparr>)"
  by (simp add: timer_reset_def Let_def)

end
