(* ===== verification/IoManager.thy ===== *)
theory IoManager
  imports Timers "HOL-Library.Word"
begin

text \<open>
  The I/O manager of \<open>src/src/core/io_manager.{h,cpp}\<close>: which coroutine or callback waits for which event of which
  descriptor, on top of the scheduler and the timers. The kernel is a parameter: \<open>ctl\<close> gives the error
  number of a call of \<open>epoll_ctl\<close>, 0 for success, and \<open>interest\<close> records what the successful calls have
  registered (and what \<open>ENOENT\<close> tells is not); what \<open>epoll_wait\<close> returns is an argument. A context is never freed while the manager lives, so the pointer
  in an event is named by its descriptor. There is one manager, which is the scheduler of its threads.
\<close>

unbundle bit_operations_syntax

subsection \<open>State\<close>

type_synonym Event = "32 word"

definition READ :: Event where "READ = 1"
definition WRITE :: Event where "WRITE = 4"

definition EPOLLIN :: "32 word" where "EPOLLIN = 1"
definition EPOLLOUT :: "32 word" where "EPOLLOUT = 4"
definition EPOLLERR :: "32 word" where "EPOLLERR = 8"
definition EPOLLHUP :: "32 word" where "EPOLLHUP = 16"
definition EPOLLET :: "32 word" where "EPOLLET = push_bit 31 1"

lemmas event_values = READ_def WRITE_def EPOLLIN_def EPOLLOUT_def EPOLLERR_def EPOLLHUP_def

lemma READ_WRITE [simp]: "READ \<noteq> WRITE" "WRITE \<noteq> READ"
  by (simp_all add: event_values)

definition ENOENT :: nat where "ENOENT = 2"

record EventContext =
  ec_scheduler :: bool
  handle :: "nat option"
  resumeTicket :: "nat option"
  cb :: "callback option"
  thread_id :: int

definition reset_ctx :: EventContext where
  "reset_ctx = \<lparr>ec_scheduler = False, handle = None, resumeTicket = None, cb = None, thread_id = -1\<rparr>"

record FdContext =
  read_ctx :: EventContext
  write_ctx :: EventContext
  ctx_fd :: int
  m_events :: Event

record IOManager =
  m_fdContexts :: "int \<rightharpoonup> FdContext"
  m_pendingEventCounts :: int
  io_sched :: Scheduler
  io_timers :: TimerManager
  interest :: "int \<rightharpoonup> 32 word"

definition io_manager_new :: "nat \<Rightarrow> int \<Rightarrow> IOManager res" where
  "io_manager_new threads now =
     bnd (scheduler_new threads) (\<lambda>s. Inr \<lparr>m_fdContexts = Map.empty, m_pendingEventCounts = 0, io_sched = snd (start_flags s),
       io_timers = timers_new now, interest = Map.empty\<rparr>)"

subsection \<open>Contexts\<close>

definition getEventContext :: "Event \<Rightarrow> FdContext \<Rightarrow> EventContext res" where
  "getEventContext event c =
     (if event = READ then Inr (read_ctx c) else if event = WRITE then Inr (write_ctx c) else Inl AssertionFailed)"

definition setEventContext :: "Event \<Rightarrow> EventContext \<Rightarrow> FdContext \<Rightarrow> FdContext" where
  "setEventContext event ec c = (if event = READ then c\<lparr>read_ctx := ec\<rparr> else c\<lparr>write_ctx := ec\<rparr>)"

text \<open>What is scheduled for a context: its function, else its handle, else its ticket.\<close>

definition submit_ctx :: "(nat \<Rightarrow> bool) \<Rightarrow> int \<Rightarrow> EventContext \<Rightarrow> Scheduler \<Rightarrow> Scheduler" where
  "submit_ctx dn cur ctx s =
     (if \<not> ec_scheduler ctx then s
      else case cb ctx of Some f \<Rightarrow> schedule cur (Some (Call f)) (thread_id ctx) s
      | None \<Rightarrow> (case handle ctx of Some h \<Rightarrow> schedule_handle dn cur (Some h) (thread_id ctx) s
        | None \<Rightarrow> (case resumeTicket ctx of Some rt \<Rightarrow> schedule cur (Some (TryResume rt)) (thread_id ctx) s | None \<Rightarrow> s)))"

text \<open>The context's function is moved out; its handle and its ticket stay.\<close>

definition triggerContext :: "(nat \<Rightarrow> bool) \<Rightarrow> int \<Rightarrow> Event \<Rightarrow> FdContext \<Rightarrow> Scheduler \<Rightarrow> (FdContext \<times> Scheduler) res" where
  "triggerContext dn cur event c s =
     (if m_events c AND event = 0 then Inl AssertionFailed
      else bnd (getEventContext event c) (\<lambda>ctx.
        Inr (setEventContext event (ctx\<lparr>cb := None\<rparr>) (c\<lparr>m_events := m_events c AND NOT event\<rparr>), submit_ctx dn cur ctx s)))"

subsection \<open>Registering\<close>

datatype epoll_op = CTL_ADD | CTL_MOD | CTL_DEL

definition epoll_ctl :: "(epoll_op \<Rightarrow> int \<Rightarrow> nat) \<Rightarrow> epoll_op \<Rightarrow> int \<Rightarrow> 32 word \<Rightarrow> IOManager \<Rightarrow> nat \<times> IOManager" where
  "epoll_ctl ctl op fd ev m =
     (if ctl op fd = ENOENT then (ENOENT, m\<lparr>interest := (interest m)(fd := None)\<rparr>)
      else if ctl op fd \<noteq> 0 then (ctl op fd, m)
      else (0, m\<lparr>interest := (case op of CTL_DEL \<Rightarrow> (interest m)(fd := None) | _ \<Rightarrow> (interest m)(fd \<mapsto> ev))\<rparr>))"

text \<open>A context for the descriptor, found or made.\<close>

definition find_ctx :: "int \<Rightarrow> IOManager \<Rightarrow> FdContext \<times> IOManager" where
  "find_ctx fd m =
     (case m_fdContexts m fd of Some c \<Rightarrow> (c, m)
      | None \<Rightarrow> (let c = \<lparr>read_ctx = reset_ctx, write_ctx = reset_ctx, ctx_fd = fd, m_events = 0\<rparr> in
                 (c, m\<lparr>m_fdContexts := (m_fdContexts m)(fd \<mapsto> c)\<rparr>)))"

text \<open>What the three overloads share: everything but the check of the arguments and what is stored.\<close>

definition addEvent_common ::
  "(epoll_op \<Rightarrow> int \<Rightarrow> nat) \<Rightarrow> int \<Rightarrow> Event \<Rightarrow> bool \<Rightarrow> (EventContext \<Rightarrow> EventContext) \<Rightarrow> IOManager \<Rightarrow> (int \<times> IOManager) res"
where
  "addEvent_common ctl fd event nothing store m =
     (if m_stopping (io_sched m) \<or> fd < 0 \<or> nothing then Inr (-1, m)
      else
        let (c, m1) = find_ctx fd m in
        if m_events c AND event \<noteq> 0 then Inr (-1, m1)
        else
          let op = (if m_events c \<noteq> 0 then CTL_MOD else CTL_ADD);
              new_event = m_events c OR event;
              (rt, m2) = epoll_ctl ctl op fd (EPOLLET OR new_event) m1
          in if rt \<noteq> 0 then Inr (-1, m2)
             else bnd (getEventContext event c) (\<lambda>ec.
               let c1 = setEventContext event (store (ec\<lparr>ec_scheduler := True\<rparr>)) (c\<lparr>m_events := new_event\<rparr>) in
               Inr (0, m2\<lparr>m_pendingEventCounts := m_pendingEventCounts m2 + 1, m_fdContexts := (m_fdContexts m2)(fd \<mapsto> c1)\<rparr>)))"

definition addEvent_function ::
  "(epoll_op \<Rightarrow> int \<Rightarrow> nat) \<Rightarrow> int \<Rightarrow> Event \<Rightarrow> callback option \<Rightarrow> IOManager \<Rightarrow> (int \<times> IOManager) res"
where
  "addEvent_function ctl fd event f m =
     addEvent_common ctl fd event (f = None) (\<lambda>ec. if f \<noteq> None then ec\<lparr>cb := f, thread_id := -1\<rparr> else ec) m"

definition addEvent_ticket ::
  "(epoll_op \<Rightarrow> int \<Rightarrow> nat) \<Rightarrow> int \<Rightarrow> Event \<Rightarrow> nat option \<Rightarrow> callback option \<Rightarrow> int \<Rightarrow> IOManager \<Rightarrow> (int \<times> IOManager) res"
where
  "addEvent_ticket ctl fd event rt f thr m =
     addEvent_common ctl fd event (rt = None \<and> f = None)
       (\<lambda>ec. if f \<noteq> None then ec\<lparr>cb := f, thread_id := thr\<rparr>
             else if rt \<noteq> None then ec\<lparr>resumeTicket := rt, thread_id := thr\<rparr> else ec) m"

definition addEvent_handle ::
  "(epoll_op \<Rightarrow> int \<Rightarrow> nat) \<Rightarrow> int \<Rightarrow> Event \<Rightarrow> nat option \<Rightarrow> callback option \<Rightarrow> int \<Rightarrow> IOManager \<Rightarrow> (int \<times> IOManager) res"
where
  "addEvent_handle ctl fd event h f thr m =
     addEvent_common ctl fd event (h = None \<and> f = None)
       (\<lambda>ec. if f \<noteq> None then ec\<lparr>cb := f, thread_id := thr\<rparr>
             else if h \<noteq> None then ec\<lparr>handle := h, thread_id := thr\<rparr> else ec) m"

subsection \<open>Taking back\<close>

definition delEvent :: "(epoll_op \<Rightarrow> int \<Rightarrow> nat) \<Rightarrow> int \<Rightarrow> Event \<Rightarrow> IOManager \<Rightarrow> (bool \<times> IOManager) res" where
  "delEvent ctl fd event m =
     (if m_stopping (io_sched m) \<or> fd < 0 then Inr (False, m)
      else case m_fdContexts m fd of None \<Rightarrow> Inr (False, m)
      | Some c \<Rightarrow>
        if m_events c AND event = 0 then Inr (False, m)
        else
          let new_event = m_events c AND NOT event;
              op = (if new_event \<noteq> 0 then CTL_MOD else CTL_DEL);
              (rt, m1) = epoll_ctl ctl op fd (EPOLLET OR new_event) m
          in if rt \<noteq> 0 then Inr (False, m1)
             else bnd (getEventContext event c) (\<lambda>_.
               let c1 = setEventContext event reset_ctx (c\<lparr>m_events := new_event\<rparr>) in
               Inr (True, m1\<lparr>m_fdContexts := (m_fdContexts m1)(fd \<mapsto> c1), m_pendingEventCounts := m_pendingEventCounts m1 - 1\<rparr>)))"

text \<open>Trigger one event of a context and count it.\<close>

definition fire :: "(nat \<Rightarrow> bool) \<Rightarrow> int \<Rightarrow> int \<Rightarrow> Event \<Rightarrow> IOManager \<Rightarrow> IOManager res" where
  "fire dn cur fd event m =
     (case m_fdContexts m fd of None \<Rightarrow> Inl NullDereference
      | Some c \<Rightarrow> bnd (triggerContext dn cur event c (io_sched m)) (\<lambda>(c1, s1).
          Inr (m\<lparr>m_fdContexts := (m_fdContexts m)(fd \<mapsto> c1), io_sched := s1, m_pendingEventCounts := m_pendingEventCounts m - 1\<rparr>)))"

definition cancelEvent ::
  "(epoll_op \<Rightarrow> int \<Rightarrow> nat) \<Rightarrow> (nat \<Rightarrow> bool) \<Rightarrow> int \<Rightarrow> int \<Rightarrow> Event \<Rightarrow> IOManager \<Rightarrow> (bool \<times> IOManager) res"
where
  "cancelEvent ctl dn cur fd event m =
     (if m_stopping (io_sched m) \<or> fd < 0 then Inr (False, m)
      else case m_fdContexts m fd of None \<Rightarrow> Inr (False, m)
      | Some c \<Rightarrow>
        if m_events c AND event = 0 then Inr (False, m)
        else
          let new_event = m_events c AND NOT event;
              op = (if new_event \<noteq> 0 then CTL_MOD else CTL_DEL);
              (rt, m1) = epoll_ctl ctl op fd (EPOLLET OR new_event) m
          in if rt \<noteq> 0 then Inr (False, m1) else bnd (fire dn cur fd event m1) (\<lambda>m2. Inr (True, m2)))"

text \<open>Fire those of the two events that are in a set.\<close>

definition fire_all :: "(nat \<Rightarrow> bool) \<Rightarrow> int \<Rightarrow> int \<Rightarrow> Event \<Rightarrow> IOManager \<Rightarrow> IOManager res" where
  "fire_all dn cur fd events m =
     bnd (if events AND READ \<noteq> 0 then fire dn cur fd READ m else Inr m) (\<lambda>m1.
       if events AND WRITE \<noteq> 0 then fire dn cur fd WRITE m1 else Inr m1)"

definition cancelAll ::
  "(epoll_op \<Rightarrow> int \<Rightarrow> nat) \<Rightarrow> (nat \<Rightarrow> bool) \<Rightarrow> int \<Rightarrow> int \<Rightarrow> IOManager \<Rightarrow> (bool \<times> IOManager) res"
where
  "cancelAll ctl dn cur fd m =
     (if m_stopping (io_sched m) \<or> fd < 0 then Inr (False, m)
      else case m_fdContexts m fd of None \<Rightarrow> Inr (False, m)
      | Some c \<Rightarrow>
        if m_events c = 0 then Inr (False, m)
        else
          let (rt, m1) = epoll_ctl ctl CTL_DEL fd 0 m
          in if rt \<noteq> 0 \<and> rt \<noteq> ENOENT then Inr (False, m1)
             else bnd (fire_all dn cur fd (m_events c) m1) (\<lambda>m2.
               Inr (True, m2\<lparr>m_fdContexts := (m_fdContexts m2)(fd := map_option (\<lambda>c. c\<lparr>m_events := 0\<rparr>) (m_fdContexts m2 fd))\<rparr>)))"

subsection \<open>The polling thread\<close>

definition io_stopping :: "IOManager \<Rightarrow> bool" where
  "io_stopping m \<longleftrightarrow> m_pendingEventCounts m = 0 \<and> \<not> hasTimer (io_timers m) \<and> m_stopping (io_sched m)"

definition MAX_WAIT_TIMEOUT :: int where
  "MAX_WAIT_TIMEOUT = 3000"

text \<open>The timeout for \<open>epoll_wait\<close>: the time to the next timer, converted to a 32-bit \<open>int\<close>.\<close>

definition idle_timeout :: "int \<Rightarrow> int" where
  "idle_timeout next_timeout =
     (if next_timeout \<noteq> 2 ^ 64 - 1 then min (sint (word_of_int next_timeout :: 32 word)) MAX_WAIT_TIMEOUT else MAX_WAIT_TIMEOUT)"

datatype epoll_event = Wakeup | Ready int "32 word"

definition real_events :: "32 word \<Rightarrow> Event" where
  "real_events evs =
     (let triggered = (if evs AND (EPOLLERR OR EPOLLHUP) \<noteq> 0 then evs OR EPOLLIN OR EPOLLOUT else evs) in
      (if triggered AND EPOLLIN \<noteq> 0 then READ else 0) OR (if triggered AND EPOLLOUT \<noteq> 0 then WRITE else 0))"

fun handle_event ::
  "(epoll_op \<Rightarrow> int \<Rightarrow> nat) \<Rightarrow> (nat \<Rightarrow> bool) \<Rightarrow> epoll_event \<Rightarrow> IOManager \<Rightarrow> IOManager res"
where
  "handle_event ctl dn Wakeup m = Inr m"
| "handle_event ctl dn (Ready fd evs) m =
     (case m_fdContexts m fd of None \<Rightarrow> Inr m
      | Some c \<Rightarrow>
        let real_event = real_events evs;
            active_events = m_events c AND real_event;
            left_events = m_events c AND NOT real_event;
            op = (if left_events \<noteq> 0 then CTL_MOD else CTL_DEL)
        in if active_events = 0 then Inr m
           else let (rt2, m1) = epoll_ctl ctl op fd (EPOLLET OR left_events) m in
                if rt2 \<noteq> 0 then Inr m1 else fire_all dn (-1) fd active_events m1)"

fun handle_events ::
  "(epoll_op \<Rightarrow> int \<Rightarrow> nat) \<Rightarrow> (nat \<Rightarrow> bool) \<Rightarrow> epoll_event list \<Rightarrow> IOManager \<Rightarrow> IOManager res"
where
  "handle_events ctl dn [] m = Inr m"
| "handle_events ctl dn (e # es) m = bnd (handle_event ctl dn e m) (handle_events ctl dn es)"

definition submit_timer_job :: "(nat \<Rightarrow> bool) \<Rightarrow> job \<Rightarrow> Scheduler \<Rightarrow> Scheduler" where
  "submit_timer_job dn j s = (case j of Resume h \<Rightarrow> schedule_handle dn (-1) (Some h) (-1) s | _ \<Rightarrow> schedule (-1) (Some j) (-1) s)"

text \<open>One turn of the loop of \<open>idle\<close> after \<open>epoll_wait\<close> has returned \<open>evs\<close> (none on an error); the result tells whether it goes on.\<close>

definition idle_round ::
  "(epoll_op \<Rightarrow> int \<Rightarrow> nat) \<Rightarrow> (nat \<Rightarrow> bool) \<Rightarrow> int \<Rightarrow> epoll_event list \<Rightarrow> IOManager \<Rightarrow> (bool \<times> IOManager) res"
where
  "idle_round ctl dn now evs m =
     (if io_stopping m then Inr (False, m)
      else
        let (jobs, tm) = processExpired True now (io_timers m);
            m1 = m\<lparr>io_timers := tm, io_sched := fold (submit_timer_job dn) jobs (io_sched m)\<rparr>
        in if io_stopping m1 then Inr (False, m1)
           else bnd (handle_events ctl dn evs m1) (\<lambda>m2. Inr (True, m2)))"

definition io_wait_all_test :: "IOManager \<Rightarrow> bool" where
  "io_wait_all_test m \<longleftrightarrow>
     m_pending (io_sched m) + sum_list (map pending (m_threadQueues (io_sched m))) = 0 \<and> m_pendingEventCounts m = 0 \<and>
     \<not> hasTimer (io_timers m) \<and> m_running (io_sched m) = 0 \<and> notHasRunningTask (io_sched m)"

subsection \<open>Counting the events\<close>

definition ev_ok :: "Event \<Rightarrow> bool" where
  "ev_ok e \<longleftrightarrow> e \<in> {0, 1, 4, 5}"

definition bits :: "Event \<Rightarrow> int" where
  "bits e = (if e AND READ \<noteq> 0 then 1 else 0) + (if e AND WRITE \<noteq> 0 then 1 else 0)"

definition registered :: "(int \<rightharpoonup> FdContext) \<Rightarrow> int" where
  "registered f = (\<Sum>fd\<in>dom f. bits (m_events (the (f fd))))"

definition io_counts :: "IOManager \<Rightarrow> bool" where
  "io_counts m \<longleftrightarrow> finite (dom (m_fdContexts m)) \<and>
     (\<forall>fd c. m_fdContexts m fd = Some c \<longrightarrow> ctx_fd c = fd \<and> ev_ok (m_events c)) \<and>
     m_pendingEventCounts m = registered (m_fdContexts m)"

text \<open>The kernel watches for nothing the manager does not expect.\<close>

definition watch_ok :: "IOManager \<Rightarrow> bool" where
  "watch_ok m \<longleftrightarrow> (\<forall>fd e. interest m fd = Some e \<longrightarrow>
     (\<exists>c. m_fdContexts m fd = Some c \<and> m_events c \<noteq> 0 \<and> e = EPOLLET OR m_events c))"

lemma registered_upd:
  assumes "finite (dom f)"
  shows "registered (f(fd \<mapsto> c)) = registered f - (case f fd of None \<Rightarrow> 0 | Some c0 \<Rightarrow> bits (m_events c0)) + bits (m_events c)"
proof -
  have "registered (f(fd \<mapsto> c)) = bits (m_events c) + (\<Sum>x\<in>dom f - {fd}. bits (m_events (the (f x))))"
    using assms by (simp add: registered_def sum.insert_remove)
  moreover have "registered f = (case f fd of None \<Rightarrow> 0 | Some c0 \<Rightarrow> bits (m_events c0)) + (\<Sum>x\<in>dom f - {fd}. bits (m_events (the (f x))))"
  proof (cases "f fd")
    case None
    then have "dom f - {fd} = dom f"
      by auto
    then show ?thesis
      using None by (simp add: registered_def)
  next
    case (Some c0)
    then show ?thesis
      using assms sum.remove[of "dom f" fd "\<lambda>x. bits (m_events (the (f x)))"] by (auto simp: registered_def)
  qed
  ultimately show ?thesis
    by simp
qed

lemma registered_nonneg: "0 \<le> registered f"
  by (auto simp: registered_def bits_def intro: sum_nonneg)

text \<open>Adding and removing one of the two events.\<close>

lemma ev_add:
  assumes "ev_ok e" and "event \<in> {READ, WRITE}" and "e AND event = 0"
  shows "ev_ok (e OR event) \<and> bits (e OR event) = bits e + 1 \<and> e OR event \<noteq> 0"
  using assms by (auto simp: ev_ok_def bits_def event_values)

lemma ev_del:
  assumes "ev_ok e" and "event \<in> {READ, WRITE}" and "e AND event \<noteq> 0"
  shows "ev_ok (e AND NOT event) \<and> bits (e AND NOT event) = bits e - 1"
  using assms by (auto simp: ev_ok_def bits_def event_values)

lemma ev_split:
  assumes "ev_ok e" and "ev_ok r"
  shows "(e AND r) AND READ \<noteq> 0 \<Longrightarrow> e AND READ \<noteq> 0"
    and "(e AND r) AND WRITE \<noteq> 0 \<Longrightarrow> (e AND NOT READ) AND WRITE \<noteq> 0"
    and "(e AND r) AND WRITE \<noteq> 0 \<Longrightarrow> e AND WRITE \<noteq> 0"
    and "(e AND r) AND READ \<noteq> 0 \<Longrightarrow> (e AND r) AND WRITE \<noteq> 0 \<Longrightarrow> (e AND NOT READ) AND NOT WRITE = e AND NOT r"
    and "(e AND r) AND READ \<noteq> 0 \<Longrightarrow> (e AND r) AND WRITE = 0 \<Longrightarrow> e AND NOT READ = e AND NOT r"
    and "(e AND r) AND READ = 0 \<Longrightarrow> (e AND r) AND WRITE \<noteq> 0 \<Longrightarrow> e AND NOT WRITE = e AND NOT r"
    and "(e AND r) AND READ = 0 \<Longrightarrow> (e AND r) AND WRITE = 0 \<Longrightarrow> e AND NOT r = e"
  using assms by (auto simp: ev_ok_def event_values)

lemma ev_ok_real_events: "ev_ok (real_events evs)"
  by (auto simp: real_events_def ev_ok_def event_values Let_def)

subsection \<open>The operations keep the books\<close>

definition io_ok :: "IOManager \<Rightarrow> bool" where
  "io_ok m \<longleftrightarrow> io_counts m \<and> watch_ok m"

lemma io_countsD:
  assumes "io_counts m" and "m_fdContexts m fd = Some c"
  shows "ctx_fd c = fd" "ev_ok (m_events c)"
  using assms by (auto simp: io_counts_def)

lemma io_counts_upd:
  assumes "io_counts m" and "m_fdContexts m1 = (m_fdContexts m)(fd \<mapsto> c1)" and "ctx_fd c1 = fd" and "ev_ok (m_events c1)"
    and "m_pendingEventCounts m1 = m_pendingEventCounts m - (case m_fdContexts m fd of None \<Rightarrow> 0 | Some c \<Rightarrow> bits (m_events c)) + bits (m_events c1)"
  shows "io_counts m1"
  using assms by (auto simp: io_counts_def registered_upd)

text \<open>
  What the overloads for functions and tickets leave behind: no handle, and no function where no event is
  registered.
\<close>

definition ctx_clean :: "FdContext \<Rightarrow> bool" where
  "ctx_clean c \<longleftrightarrow> handle (read_ctx c) = None \<and> handle (write_ctx c) = None \<and>
     (m_events c AND READ = 0 \<longrightarrow> cb (read_ctx c) = None) \<and> (m_events c AND WRITE = 0 \<longrightarrow> cb (write_ctx c) = None)"

definition io_clean :: "IOManager \<Rightarrow> bool" where
  "io_clean m \<longleftrightarrow> (\<forall>fd c. m_fdContexts m fd = Some c \<longrightarrow> ctx_clean c)"

lemma io_clean_upd:
  assumes "io_clean m" and "m_fdContexts m1 = (m_fdContexts m)(fd \<mapsto> c1)" and "ctx_clean c1"
  shows "io_clean m1"
  using assms by (simp add: io_clean_def)

lemma io_clean_interest [simp]: "io_clean (m\<lparr>interest := f\<rparr>) = io_clean m"
  by (simp add: io_clean_def)

lemma setEventContext_simps [simp]:
  "m_events (setEventContext event ec c) = m_events c" "ctx_fd (setEventContext event ec c) = ctx_fd c"
  by (simp_all add: setEventContext_def)

lemma ctx_clean_set:
  assumes "ctx_clean c" and "ev_ok (m_events c)" and "event \<in> {READ, WRITE}" and "handle ec = None"
  shows "cb ec = None \<Longrightarrow> ctx_clean (setEventContext event ec (c\<lparr>m_events := m_events c AND NOT event\<rparr>))"
    and "ctx_clean (setEventContext event ec (c\<lparr>m_events := m_events c OR event\<rparr>))"
  using assms by (auto simp: ctx_clean_def setEventContext_def ev_ok_def event_values)

lemma ctx_clean_get: "ctx_clean c \<Longrightarrow> getEventContext event c = Inr ec \<Longrightarrow> handle ec = None"
  by (auto simp: ctx_clean_def getEventContext_def split: if_splits)

lemma getEventContext_ok: "event \<in> {READ, WRITE} \<Longrightarrow> \<exists>ec. getEventContext event c = Inr ec"
  by (auto simp: getEventContext_def)

definition io_keeps :: "IOManager \<Rightarrow> IOManager \<Rightarrow> bool" where
  "io_keeps m m1 \<longleftrightarrow> io_ok m1 \<and> (io_clean m \<longrightarrow> io_clean m1)"

lemma fire_ok:
  assumes "io_counts m" and c: "m_fdContexts m fd = Some c" and "event \<in> {READ, WRITE}" and "m_events c AND event \<noteq> 0"
  obtains m1 c1 where "fire dn cur fd event m = Inr m1" and "io_counts m1" and "m_fdContexts m1 = (m_fdContexts m)(fd \<mapsto> c1)"
    and "ctx_fd c1 = fd" and "m_events c1 = m_events c AND NOT event" and "interest m1 = interest m" and "ctx_clean c \<Longrightarrow> ctx_clean c1"
proof -
  have e: "ev_ok (m_events c)"
    using assms(1) c by (simp add: io_countsD)
  obtain ctx where ctx: "getEventContext event c = Inr ctx"
    using getEventContext_ok[OF assms(3)] by blast
  obtain c1 s1 where t: "triggerContext dn cur event c (io_sched m) = Inr (c1, s1)"
    and c1: "m_events c1 = m_events c AND NOT event" "ctx_fd c1 = ctx_fd c" "ctx_clean c \<Longrightarrow> ctx_clean c1"
    using assms(4) ctx_clean_set(1)[OF _ e assms(3), of "ctx\<lparr>cb := None\<rparr>"] ctx_clean_get[OF _ ctx]
    by (simp add: triggerContext_def ctx Let_def)
  let ?m = "m\<lparr>m_fdContexts := (m_fdContexts m)(fd \<mapsto> c1), io_sched := s1, m_pendingEventCounts := m_pendingEventCounts m - 1\<rparr>"
  have "io_counts ?m"
    using io_countsD[OF assms(1) c] ev_del[OF _ assms(3,4)] c c1 by (intro io_counts_upd[OF assms(1), where fd = fd and ?c1.0 = c1]) simp_all
  then show thesis
    using t c c1 io_countsD[OF assms(1) c] by (intro that[of ?m c1]) (simp_all add: fire_def)
qed

lemma fire_all_ok:
  assumes "io_counts m" and c: "m_fdContexts m fd = Some c" and r: "ev_ok r"
  obtains m1 c1 where "fire_all dn cur fd (m_events c AND r) m = Inr m1" and "io_counts m1"
    and "m_fdContexts m1 = (m_fdContexts m)(fd \<mapsto> c1)" and "m_events c1 = m_events c AND NOT r" and "interest m1 = interest m"
    and "ctx_clean c \<Longrightarrow> ctx_clean c1"
proof -
  have e: "ev_ok (m_events c)"
    using assms by (simp add: io_countsD)
  note sp = ev_split[OF e r]
  show thesis
  proof (cases "(m_events c AND r) AND READ \<noteq> 0")
    case rd: True
    then obtain m1 c1 where m1: "fire dn cur fd READ m = Inr m1" "io_counts m1" "m_fdContexts m1 = (m_fdContexts m)(fd \<mapsto> c1)"
      "m_events c1 = m_events c AND NOT READ" "interest m1 = interest m" "ctx_clean c \<Longrightarrow> ctx_clean c1"
      using fire_ok[OF assms(1) c, of READ dn cur] sp(1) by blast
    show thesis
    proof (cases "(m_events c AND r) AND WRITE \<noteq> 0")
      case True
      then have "m_events c1 AND WRITE \<noteq> 0"
        using sp(2) unfolding m1(4) by blast
      moreover have "m_fdContexts m1 fd = Some c1"
        by (simp add: m1(3))
      ultimately obtain m2 c2 where "fire dn cur fd WRITE m1 = Inr m2" "io_counts m2" "m_fdContexts m2 = (m_fdContexts m1)(fd \<mapsto> c2)"
        "m_events c2 = m_events c1 AND NOT WRITE" "interest m2 = interest m1" "ctx_clean c1 \<Longrightarrow> ctx_clean c2"
        using fire_ok[OF m1(2), of fd c1 WRITE dn cur] by blast
      then show thesis
        using that[of m2 c2] m1 sp(4)[OF rd True] rd True by (simp add: fire_all_def)
    next
      case False
      then show thesis
        using that[of m1 c1] m1 sp(5)[OF rd] rd by (simp add: fire_all_def)
    qed
  next
    case rd: False
    show thesis
    proof (cases "(m_events c AND r) AND WRITE \<noteq> 0")
      case True
      then obtain m1 c1 where "fire dn cur fd WRITE m = Inr m1" "io_counts m1" "m_fdContexts m1 = (m_fdContexts m)(fd \<mapsto> c1)"
        "m_events c1 = m_events c AND NOT WRITE" "interest m1 = interest m" "ctx_clean c \<Longrightarrow> ctx_clean c1"
        using fire_ok[OF assms(1) c, of WRITE dn cur] sp(3) by blast
      then show thesis
        using that[of m1 c1] sp(6)[OF _ True] rd True by (simp add: fire_all_def)
    next
      case False
      then show thesis
        using that[of m c] assms(1) c sp(7) rd by (simp add: fire_all_def fun_upd_idem)
    qed
  qed
qed

lemma epoll_ctl_cases:
  obtains (ok) "ctl op fd = 0" and "epoll_ctl ctl op fd ev m =
      (0, m\<lparr>interest := (case op of CTL_DEL \<Rightarrow> (interest m)(fd := None) | _ \<Rightarrow> (interest m)(fd \<mapsto> ev))\<rparr>)"
  | (gone) "epoll_ctl ctl op fd ev m = (ENOENT, m\<lparr>interest := (interest m)(fd := None)\<rparr>)"
  | (error) "ctl op fd \<noteq> 0" "ctl op fd \<noteq> ENOENT" "epoll_ctl ctl op fd ev m = (ctl op fd, m)"
  by (cases "ctl op fd = ENOENT"; cases "ctl op fd = 0") (auto simp: epoll_ctl_def ENOENT_def)

lemma io_ok_interest: "io_ok m \<Longrightarrow> io_ok (m\<lparr>interest := (interest m)(fd := None)\<rparr>)"
  by (auto simp: io_ok_def io_counts_def watch_ok_def)

lemma io_counts_interest [simp]: "io_counts (m\<lparr>interest := f\<rparr>) = io_counts m"
  by (simp add: io_counts_def)

text \<open>After a context has changed, the kernel watches for what is left of its events.\<close>

lemma watch_ok_upd:
  assumes "watch_ok m" and "m_fdContexts m1 = (m_fdContexts m)(fd \<mapsto> c1)"
    and "interest m1 = (case (if m_events c1 \<noteq> 0 then CTL_MOD else CTL_DEL) of CTL_DEL \<Rightarrow> (interest m)(fd := None)
      | _ \<Rightarrow> (interest m)(fd \<mapsto> (EPOLLET OR m_events c1)))"
  shows "watch_ok m1"
  using assms by (auto simp: watch_ok_def split: if_splits)

lemma watch_ok_new:
  assumes "watch_ok m" and "m_fdContexts m fd = None"
  shows "watch_ok (m\<lparr>m_fdContexts := (m_fdContexts m)(fd \<mapsto> c)\<rparr>)"
  unfolding watch_ok_def
proof (intro allI impI)
  fix x e
  assume "interest (m\<lparr>m_fdContexts := (m_fdContexts m)(fd \<mapsto> c)\<rparr>) x = Some e"
  then have "\<exists>c. m_fdContexts m x = Some c \<and> m_events c \<noteq> 0 \<and> e = EPOLLET OR m_events c"
    using assms(1) by (simp add: watch_ok_def)
  moreover from this have "x \<noteq> fd"
    using assms(2) by auto
  ultimately show "\<exists>d. m_fdContexts (m\<lparr>m_fdContexts := (m_fdContexts m)(fd \<mapsto> c)\<rparr>) x = Some d \<and> m_events d \<noteq> 0 \<and> e = EPOLLET OR m_events d"
    by simp
qed

lemma find_ctx_ok:
  assumes "io_ok m"
  obtains c m1 where "find_ctx fd m = (c, m1)" and "io_ok m1" and "m_fdContexts m1 fd = Some c"
    and "m_fdContexts m1 = (m_fdContexts m)(fd \<mapsto> c)" and "m_fdContexts m fd = None \<longrightarrow> ctx_clean c"
proof (cases "m_fdContexts m fd")
  case None
  let ?c = "\<lparr>read_ctx = reset_ctx, write_ctx = reset_ctx, ctx_fd = fd, m_events = 0\<rparr>"
  let ?m = "m\<lparr>m_fdContexts := (m_fdContexts m)(fd \<mapsto> ?c)\<rparr>"
  have "io_counts ?m"
    by (rule io_counts_upd[of m _ fd ?c]) (use assms None in \<open>simp_all add: io_ok_def ev_ok_def bits_def\<close>)
  moreover have "watch_ok ?m"
    using assms None by (simp add: io_ok_def watch_ok_new)
  ultimately show thesis
    using None by (intro that[of ?c ?m]) (simp_all add: find_ctx_def io_ok_def Let_def ctx_clean_def reset_ctx_def)
next
  case (Some c)
  then show thesis
    using assms by (intro that[of c m]) (simp_all add: find_ctx_def fun_upd_idem)
qed

lemma addEvent_common_ok:
  assumes "io_ok m" and ev: "event \<in> {READ, WRITE}" and store: "\<And>ec. handle ec = None \<Longrightarrow> handle (store ec) = None"
  shows "\<exists>r m1. addEvent_common ctl fd event nothing store m = Inr (r, m1) \<and> io_keeps m m1"
proof (cases "m_stopping (io_sched m) \<or> fd < 0 \<or> nothing")
  case True
  then show ?thesis
    using assms(1) by (auto simp: addEvent_common_def io_keeps_def)
next
  case False
  obtain c m1 where f: "find_ctx fd m = (c, m1)" and ok: "io_ok m1" and c: "m_fdContexts m1 fd = Some c"
    and m1: "m_fdContexts m1 = (m_fdContexts m)(fd \<mapsto> c)" "m_fdContexts m fd = None \<longrightarrow> ctx_clean c"
    by (rule find_ctx_ok[OF assms(1), of fd])
  have "m_fdContexts m fd = None \<or> m_fdContexts m fd = Some c"
    using f by (auto simp: find_ctx_def split: option.splits)
  then have cl: "ctx_clean c" if "io_clean m"
    using that m1(2) by (auto simp: io_clean_def)
  have keep: "io_keeps m m1"
    using ok m1(1) cl io_clean_upd[of m m1 fd c] by (simp add: io_keeps_def)
  define op where "op = (if m_events c \<noteq> 0 then CTL_MOD else CTL_ADD)"
  obtain ec where ec: "getEventContext event c = Inr ec"
    using getEventContext_ok[OF ev] by blast
  note run = addEvent_common_def[of ctl fd event nothing store m, unfolded f Let_def prod.case, folded op_def]
  show ?thesis
  proof (cases "m_events c AND event = 0")
    case new: True
    let ?e = "m_events c OR event"
    have ct: "ctx_fd c = fd" "ev_ok (m_events c)"
      using ok c by (auto simp: io_ok_def dest: io_countsD)
    note ne = ev_add[OF ct(2) ev new]
    show ?thesis
    proof (cases rule: epoll_ctl_cases[of ctl op fd "EPOLLET OR ?e" m1])
      case ok: ok
      let ?c = "setEventContext event (store (ec\<lparr>ec_scheduler := True\<rparr>)) (c\<lparr>m_events := ?e\<rparr>)"
      let ?m2 = "m1\<lparr>interest := (interest m1)(fd \<mapsto> (EPOLLET OR ?e)), m_pendingEventCounts := m_pendingEventCounts m1 + 1,
        m_fdContexts := (m_fdContexts m1)(fd \<mapsto> ?c)\<rparr>"
      have "(case op of CTL_DEL \<Rightarrow> (interest m1)(fd := None) | _ \<Rightarrow> (interest m1)(fd \<mapsto> (EPOLLET OR ?e))) = (interest m1)(fd \<mapsto> (EPOLLET OR ?e))"
        by (simp add: op_def)
      then have "addEvent_common ctl fd event nothing store m = Inr (0, ?m2)"
        unfolding run using False new ok ec by simp
      moreover have "io_counts ?m2"
        by (rule io_counts_upd[of m1 _ fd ?c]) (use \<open>io_ok m1\<close> ct ne c in \<open>simp_all add: io_ok_def\<close>)
      moreover have "watch_ok ?m2"
        by (rule watch_ok_upd[of m1 _ fd ?c]) (use \<open>io_ok m1\<close> ct ne in \<open>simp_all add: io_ok_def\<close>)
      moreover have "io_clean ?m2" if "io_clean m"
        by (rule io_clean_upd[of m _ fd ?c])
          (use that m1(1) ctx_clean_set(2)[OF cl[OF that] ct(2) ev store] ctx_clean_get[OF cl[OF that] ec] in simp_all)
      ultimately show ?thesis
        by (simp add: io_keeps_def io_ok_def)
    next
      case gone
      then show ?thesis
        using keep io_ok_interest[OF ok] False new unfolding run by (simp add: ENOENT_def io_keeps_def)
    next
      case error
      then show ?thesis
        using keep False new unfolding run by simp
    qed
  next
    case False': False
    then show ?thesis
      using keep False unfolding run by simp
  qed
qed

text \<open>Taking an event off: the kernel first, then the context.\<close>

lemma unregister_ok:
  assumes "io_ok m" and "io_counts m2" and "m_fdContexts m2 = (m_fdContexts m)(fd \<mapsto> c1)" and "m_events c1 = e"
    and "interest m2 = (case (if e \<noteq> 0 then CTL_MOD else CTL_DEL) of CTL_DEL \<Rightarrow> (interest m)(fd := None)
      | _ \<Rightarrow> (interest m)(fd \<mapsto> (EPOLLET OR e)))"
    and "m_fdContexts m fd = Some c" and "ctx_clean c \<Longrightarrow> ctx_clean c1"
  shows "io_keeps m m2"
  using assms watch_ok_upd[of m m2 fd c1] io_clean_upd[of m m2 fd c1] by (simp add: io_keeps_def io_ok_def io_clean_def)

lemma io_okD:
  assumes "io_ok m" and "m_fdContexts m fd = Some c"
  shows "ctx_fd c = fd" "ev_ok (m_events c)"
  using assms io_countsD[of m fd c] by (simp_all add: io_ok_def)

lemma delEvent_ok:
  assumes "io_ok m" and ev: "event \<in> {READ, WRITE}"
  shows "\<exists>r m1. delEvent ctl fd event m = Inr (r, m1) \<and> io_keeps m m1"
proof (cases "m_stopping (io_sched m) \<or> fd < 0 \<or> m_fdContexts m fd = None")
  case True
  then show ?thesis
    using assms(1) by (auto simp: io_keeps_def delEvent_def split: option.split)
next
  case False
  then obtain c where c: "m_fdContexts m fd = Some c" and go: "\<not> m_stopping (io_sched m)" "\<not> fd < 0"
    by auto
  let ?e = "m_events c AND NOT event"
  let ?op = "if ?e \<noteq> 0 then CTL_MOD else CTL_DEL"
  obtain ec where ec: "getEventContext event c = Inr ec"
    using getEventContext_ok[OF ev] by blast
  show ?thesis
  proof (cases "m_events c AND event = 0")
    case has: False
    show ?thesis
    proof (cases rule: epoll_ctl_cases[of ctl ?op fd "EPOLLET OR ?e" m])
      case ok
      let ?c = "setEventContext event reset_ctx (c\<lparr>m_events := ?e\<rparr>)"
      let ?m = "m\<lparr>interest := (case ?op of CTL_DEL \<Rightarrow> (interest m)(fd := None) | _ \<Rightarrow> (interest m)(fd \<mapsto> (EPOLLET OR ?e))),
        m_fdContexts := (m_fdContexts m)(fd \<mapsto> ?c), m_pendingEventCounts := m_pendingEventCounts m - 1\<rparr>"
      have "io_counts ?m"
        by (rule io_counts_upd[of m _ fd ?c]) (use assms(1) c io_okD[OF assms(1) c] ev_del[OF _ ev has] in \<open>simp_all add: io_ok_def\<close>)
      then have "io_keeps m ?m"
        by (rule unregister_ok[OF assms(1), where fd = fd and c = c and ?c1.0 = ?c and e = ?e]) (use c ctx_clean_set(1)[OF _ io_okD(2)[OF assms(1) c] ev] in \<open>simp_all add: reset_ctx_def\<close>)
      moreover have "delEvent ctl fd event m = Inr (True, ?m)"
        using go c has ok(2) ec by (simp add: delEvent_def Let_def)
      ultimately show ?thesis
        by blast
    qed (use go c has assms(1) io_ok_interest[OF assms(1)] in \<open>auto simp: io_keeps_def delEvent_def Let_def ENOENT_def\<close>)
  qed (use go c assms(1) in \<open>auto simp: io_keeps_def delEvent_def\<close>)
qed

lemma cancelEvent_ok:
  assumes "io_ok m" and ev: "event \<in> {READ, WRITE}"
  shows "\<exists>r m1. cancelEvent ctl dn cur fd event m = Inr (r, m1) \<and> io_keeps m m1"
proof (cases "m_stopping (io_sched m) \<or> fd < 0 \<or> m_fdContexts m fd = None")
  case True
  then show ?thesis
    using assms(1) by (auto simp: io_keeps_def cancelEvent_def split: option.split)
next
  case False
  then obtain c where c: "m_fdContexts m fd = Some c" and go: "\<not> m_stopping (io_sched m)" "\<not> fd < 0"
    by auto
  let ?e = "m_events c AND NOT event"
  let ?op = "if ?e \<noteq> 0 then CTL_MOD else CTL_DEL"
  show ?thesis
  proof (cases "m_events c AND event = 0")
    case has: False
    show ?thesis
    proof (cases rule: epoll_ctl_cases[of ctl ?op fd "EPOLLET OR ?e" m])
      case ok
      let ?m = "m\<lparr>interest := (case ?op of CTL_DEL \<Rightarrow> (interest m)(fd := None) | _ \<Rightarrow> (interest m)(fd \<mapsto> (EPOLLET OR ?e)))\<rparr>"
      have "io_counts ?m" "m_fdContexts ?m fd = Some c"
        using assms(1) c by (simp_all add: io_ok_def)
      from fire_ok[OF this ev has, of dn cur] obtain m2 c2 where m2: "fire dn cur fd event ?m = Inr m2" "io_counts m2"
          "m_fdContexts m2 = (m_fdContexts ?m)(fd \<mapsto> c2)" "m_events c2 = ?e" "interest m2 = interest ?m" "ctx_clean c \<Longrightarrow> ctx_clean c2"
        by blast
      have "io_keeps m m2"
        by (rule unregister_ok[OF assms(1) m2(2) _ m2(4), where fd = fd and c = c]) (use m2 c in simp_all)
      moreover have "cancelEvent ctl dn cur fd event m = Inr (True, m2)"
        using go c has ok(2) m2(1) by (simp add: cancelEvent_def Let_def)
      ultimately show ?thesis
        by blast
    qed (use go c has assms(1) io_ok_interest[OF assms(1)] in \<open>auto simp: io_keeps_def cancelEvent_def Let_def ENOENT_def\<close>)
  qed (use go c assms(1) in \<open>auto simp: io_keeps_def cancelEvent_def\<close>)
qed

lemma handle_event_ok:
  assumes "io_ok m"
  shows "\<exists>m1. handle_event ctl dn e m = Inr m1 \<and> io_keeps m m1"
proof (cases e)
  case (Ready fd evs)
  show ?thesis
  proof (cases "m_fdContexts m fd")
    case (Some c)
    let ?r = "real_events evs"
    let ?e = "m_events c AND NOT ?r"
    let ?op = "if ?e \<noteq> 0 then CTL_MOD else CTL_DEL"
    show ?thesis
    proof (cases "m_events c AND ?r = 0")
      case act: False
      show ?thesis
      proof (cases rule: epoll_ctl_cases[of ctl ?op fd "EPOLLET OR ?e" m])
        case ok
        let ?m = "m\<lparr>interest := (case ?op of CTL_DEL \<Rightarrow> (interest m)(fd := None) | _ \<Rightarrow> (interest m)(fd \<mapsto> (EPOLLET OR ?e)))\<rparr>"
        have "io_counts ?m" "m_fdContexts ?m fd = Some c"
          using assms Some by (simp_all add: io_ok_def)
        from fire_all_ok[OF this ev_ok_real_events, of dn "-1" evs] obtain m2 c2 where
          m2: "fire_all dn (-1) fd (m_events c AND ?r) ?m = Inr m2" "io_counts m2"
          "m_fdContexts m2 = (m_fdContexts ?m)(fd \<mapsto> c2)" "m_events c2 = ?e" "interest m2 = interest ?m" "ctx_clean c \<Longrightarrow> ctx_clean c2"
          by blast
        have "io_keeps m m2"
          by (rule unregister_ok[OF assms m2(2) _ m2(4), where fd = fd and c = c]) (use m2 Some in simp_all)
        then show ?thesis
          using Ready Some act ok(2) m2(1) by (simp add: Let_def)
      qed (use Ready Some act assms io_ok_interest[OF assms] in \<open>auto simp: io_keeps_def Let_def ENOENT_def\<close>)
    qed (use Ready Some assms in \<open>simp add: io_keeps_def\<close>)
  qed (use Ready assms in \<open>simp add: io_keeps_def\<close>)
qed (use assms in \<open>simp add: io_keeps_def\<close>)

lemma io_keeps_trans: "io_keeps m m1 \<Longrightarrow> io_keeps m1 m2 \<Longrightarrow> io_keeps m m2"
  by (simp add: io_keeps_def)

lemma handle_events_ok: "io_ok m \<Longrightarrow> \<exists>m1. handle_events ctl dn es m = Inr m1 \<and> io_keeps m m1"
proof (induction es arbitrary: m)
  case (Cons e es)
  obtain m1 where "handle_event ctl dn e m = Inr m1" "io_keeps m m1"
    using handle_event_ok[OF Cons.prems] by blast
  then show ?case
    using Cons.IH[of m1] io_keeps_trans[of m m1] by (auto simp: io_keeps_def)
qed (simp add: io_keeps_def)

lemma cancelAll_ok:
  assumes "io_ok m"
  shows "\<exists>r m1. cancelAll ctl dn cur fd m = Inr (r, m1) \<and> io_keeps m m1"
proof (cases "m_stopping (io_sched m) \<or> fd < 0 \<or> (case m_fdContexts m fd of None \<Rightarrow> True | Some c \<Rightarrow> m_events c = 0)")
  case True
  then show ?thesis
    using assms by (auto simp: cancelAll_def io_keeps_def split: option.splits)
next
  case False
  then obtain c where c: "m_fdContexts m fd = Some c" and go: "\<not> m_stopping (io_sched m)" "\<not> fd < 0" "m_events c \<noteq> 0"
    by (auto split: option.splits)
  have all: "m_events c AND 5 = m_events c" "m_events c AND NOT 5 = 0"
    using io_okD(2)[OF assms c] by (auto simp: ev_ok_def)
  let ?m = "m\<lparr>interest := (interest m)(fd := None)\<rparr>"
  have "io_counts ?m" "m_fdContexts ?m fd = Some c"
    using assms c by (simp_all add: io_ok_def)
  moreover have "ev_ok 5"
    by (simp add: ev_ok_def)
  ultimately obtain m2 c2 where m2: "fire_all dn cur fd (m_events c) ?m = Inr m2" "io_counts m2"
      "m_fdContexts m2 = (m_fdContexts ?m)(fd \<mapsto> c2)" "m_events c2 = 0" "interest m2 = interest ?m" "ctx_clean c \<Longrightarrow> ctx_clean c2"
    using fire_all_ok[of ?m fd c 5 dn cur, unfolded all] by blast
  then have "c2\<lparr>m_events := 0\<rparr> = c2"
    by simp
  then have upd: "m2\<lparr>m_fdContexts := (m_fdContexts m2)(fd := map_option (\<lambda>c. c\<lparr>m_events := 0\<rparr>) (m_fdContexts m2 fd))\<rparr> = m2"
    using m2(3) by (simp add: fun_upd_idem)
  have "io_keeps m m2"
    by (rule unregister_ok[OF assms m2(2) _ m2(4) _ c]) (use m2 in simp_all)
  moreover have "cancelAll ctl dn cur fd m = Inr (True, m2)"
    if "epoll_ctl ctl CTL_DEL fd 0 m = (0, ?m) \<or> epoll_ctl ctl CTL_DEL fd 0 m = (ENOENT, ?m)"
    using that go c m2(1) upd by (auto simp: cancelAll_def)
  ultimately show ?thesis
    using assms go c by (cases rule: epoll_ctl_cases[of ctl CTL_DEL fd 0 m]) (auto simp: cancelAll_def io_keeps_def)
qed

lemma io_keeps_rest: "io_ok m \<Longrightarrow> io_keeps m (m\<lparr>io_timers := t, io_sched := s\<rparr>)"
  by (simp add: io_keeps_def io_ok_def io_counts_def watch_ok_def io_clean_def)

lemma idle_round_ok:
  assumes "io_ok m"
  shows "\<exists>r m1. idle_round ctl dn now evs m = Inr (r, m1) \<and> io_keeps m m1"
proof -
  obtain jobs t where t: "processExpired True now (io_timers m) = (jobs, t)"
    by fastforce
  let ?m = "m\<lparr>io_timers := t, io_sched := fold (submit_timer_job dn) jobs (io_sched m)\<rparr>"
  have k: "io_keeps m ?m"
    using assms by (rule io_keeps_rest)
  then obtain m2 where "handle_events ctl dn evs ?m = Inr m2" "io_keeps ?m m2"
    using handle_events_ok[of ?m ctl dn evs] by (auto simp: io_keeps_def)
  moreover have "io_keeps m m"
    using assms by (simp add: io_keeps_def)
  ultimately show ?thesis
    using k io_keeps_trans[OF k] by (cases "io_stopping m"; cases "io_stopping ?m") (auto simp: idle_round_def t)
qed

subsection \<open>Reachable states\<close>

text \<open>
  The calls the program makes (it registers functions and tickets, not bare handles), the polling
  thread, the kernel dropping a descriptor that is closed, and whatever else happens to the queues of the
  scheduler and to the timers.
\<close>

inductive io_step :: "IOManager \<Rightarrow> IOManager \<Rightarrow> bool" where
  add_function: "event \<in> {READ, WRITE} \<Longrightarrow> addEvent_function ctl fd event f m = Inr (r, m1) \<Longrightarrow> io_step m m1"
| add_ticket: "event \<in> {READ, WRITE} \<Longrightarrow> addEvent_ticket ctl fd event rt f thr m = Inr (r, m1) \<Longrightarrow> io_step m m1"
| del: "event \<in> {READ, WRITE} \<Longrightarrow> delEvent ctl fd event m = Inr (b, m1) \<Longrightarrow> io_step m m1"
| cancel: "event \<in> {READ, WRITE} \<Longrightarrow> cancelEvent ctl dn cur fd event m = Inr (b, m1) \<Longrightarrow> io_step m m1"
| cancel_all: "cancelAll ctl dn cur fd m = Inr (b, m1) \<Longrightarrow> io_step m m1"
| idle: "idle_round ctl dn now evs m = Inr (b, m1) \<Longrightarrow> io_step m m1"
| closed: "io_step m (m\<lparr>interest := (interest m)(fd := None)\<rparr>)"
| others: "io_step m (m\<lparr>io_timers := t, io_sched := s\<rparr>)"

inductive io_reachable :: "IOManager \<Rightarrow> bool" where
  start: "io_manager_new n now = Inr m \<Longrightarrow> io_reachable m"
| step: "io_reachable m \<Longrightarrow> io_step m m1 \<Longrightarrow> io_reachable m1"

lemma addEvent_function_ok:
  assumes "io_ok m" and "event \<in> {READ, WRITE}"
  shows "\<exists>r m1. addEvent_function ctl fd event f m = Inr (r, m1) \<and> io_keeps m m1"
  unfolding addEvent_function_def by (rule addEvent_common_ok[OF assms]) simp

lemma addEvent_ticket_ok:
  assumes "io_ok m" and "event \<in> {READ, WRITE}"
  shows "\<exists>r m1. addEvent_ticket ctl fd event rt f thr m = Inr (r, m1) \<and> io_keeps m m1"
  unfolding addEvent_ticket_def by (rule addEvent_common_ok[OF assms]) simp

lemma io_step_keeps:
  assumes "io_step m m1" and ok: "io_ok m"
  shows "io_keeps m m1"
  using assms(1)
proof cases
  case (add_function event ctl fd f r)
  then show ?thesis
    using addEvent_function_ok[OF ok, of event ctl fd f] by auto
next
  case (add_ticket event ctl fd rt f thr r)
  then show ?thesis
    using addEvent_ticket_ok[OF ok, of event ctl fd rt f thr] by auto
next
  case (del event ctl fd b)
  then show ?thesis
    using delEvent_ok[OF ok, of event ctl fd] by auto
next
  case (cancel event ctl dn cur fd b)
  then show ?thesis
    using cancelEvent_ok[OF ok, of event ctl dn cur fd] by auto
next
  case (cancel_all ctl dn cur fd b)
  then show ?thesis
    using cancelAll_ok[OF ok, of ctl dn cur fd] by auto
next
  case (idle ctl dn now evs b)
  then show ?thesis
    using idle_round_ok[OF ok, of ctl dn now evs] by auto
next
  case (closed fd)
  then show ?thesis
    using io_ok_interest[OF ok] by (simp add: io_keeps_def)
next
  case (others t s)
  then show ?thesis
    using io_keeps_rest[OF ok] by simp
qed

lemma io_reachable_ok: "io_reachable m \<Longrightarrow> io_ok m \<and> io_clean m"
proof (induction rule: io_reachable.induct)
  case (start n now m)
  then show ?case
    by (auto simp: io_manager_new_def bnd_eq_Inr io_ok_def io_counts_def watch_ok_def io_clean_def registered_def)
next
  case (step m m1)
  then show ?case
    using io_step_keeps[of m m1] by (simp add: io_keeps_def)
qed

text \<open>C23. The books of the I/O manager are right in every state it reaches: the number of pending events is the
  number of registered ones, so it never goes below zero and the manager can stop exactly when nothing is
  registered; the kernel watches a descriptor only for the events its context expects; and no call of
  the public operations, nor a round of the polling thread, fails an assertion.\<close>

theorem event_bookkeeping:
  assumes "io_reachable m" and "event \<in> {READ, WRITE}"
  shows "m_pendingEventCounts m = registered (m_fdContexts m) \<and> 0 \<le> m_pendingEventCounts m \<and> watch_ok m \<and>
    (\<exists>r m1. addEvent_ticket ctl fd event rt f thr m = Inr (r, m1)) \<and> (\<exists>r m1. addEvent_function ctl fd event f m = Inr (r, m1)) \<and>
    (\<exists>b m1. delEvent ctl fd event m = Inr (b, m1)) \<and> (\<exists>b m1. cancelEvent ctl dn cur fd event m = Inr (b, m1)) \<and>
    (\<exists>b m1. cancelAll ctl dn cur fd m = Inr (b, m1)) \<and> (\<exists>b m1. idle_round ctl dn now evs m = Inr (b, m1))"
proof -
  have ok: "io_ok m"
    using io_reachable_ok[OF assms(1)] by simp
  have "m_pendingEventCounts m = registered (m_fdContexts m) \<and> watch_ok m"
    using ok by (simp add: io_ok_def io_counts_def)
  then show ?thesis
    using addEvent_ticket_ok[OF ok assms(2)] addEvent_function_ok[OF ok assms(2)] delEvent_ok[OF ok assms(2)] cancelEvent_ok[OF ok assms(2)] cancelAll_ok[OF ok] idle_round_ok[OF ok] registered_nonneg
    by metis
qed

theorem event_bookkeeping_witness:
  "\<exists>m m1. io_manager_new 1 0 = Inr m \<and> addEvent_ticket (\<lambda>_ _. 0) 5 READ (Some 7) None (-1) m = Inr (0, m1) \<and>
    m_pendingEventCounts m1 = registered (m_fdContexts m1)"
proof -
  obtain m where m: "io_manager_new 1 0 = Inr m"
    by (simp add: io_manager_new_def scheduler_new_def)
  obtain m1 where m1: "addEvent_ticket (\<lambda>_ _. 0) 5 READ (Some 7) None (-1) m = Inr (0, m1)"
    using m by (auto simp: io_manager_new_def scheduler_new_def start_flags_def addEvent_ticket_def addEvent_common_def find_ctx_def
        epoll_ctl_def ENOENT_def getEventContext_def Let_def)
  have "io_reachable m1"
    by (rule io_reachable.step[OF io_reachable.start[OF m] io_step.add_ticket[OF _ m1]]) simp
  then show ?thesis
    using m m1 event_bookkeeping[of m1 READ] by blast
qed

subsection \<open>An event fires what was registered\<close>

lemma fire_all_single: "event \<in> {READ, WRITE} \<Longrightarrow> fire_all dn cur fd event m = fire dn cur fd event m"
  by (auto simp: fire_all_def event_values split: bnd_split)

lemma ev_put_back:
  assumes "ev_ok e" and "event \<in> {READ, WRITE}" and "e AND event = 0"
  shows "(e OR event) AND event = event" "(e OR event) AND NOT event = e" "event \<noteq> 0"
  using assms by (auto simp: ev_ok_def event_values)

lemma setEventContext_again:
  assumes "event \<in> {READ, WRITE}"
  shows "getEventContext event (setEventContext event ec c) = Inr ec"
    and "setEventContext event ec' ((setEventContext event ec (c\<lparr>m_events := e\<rparr>))\<lparr>m_events := m_events c\<rparr>) = setEventContext event ec' c"
  using assms by (auto simp: getEventContext_def setEventContext_def event_values)

lemma register_then_ready:
  assumes run: "\<not> m_stopping (io_sched m)" "0 \<le> fd" "\<not> nothing" and ev: "event \<in> {READ, WRITE}"
    and f: "find_ctx fd m = (c, m0)" "ev_ok (m_events c)" and new: "m_events c AND event = 0"
    and ec: "getEventContext event c = Inr ec" "store (ec\<lparr>ec_scheduler := True\<rparr>) = ec1"
    and ctl: "\<forall>op. ctl op fd = 0" and real: "real_events evs = event"
  obtains m1 m2 where "addEvent_common ctl fd event nothing store m = Inr (0, m1)" and "handle_event ctl dn (Ready fd evs) m1 = Inr m2"
    and "io_sched m2 = submit_ctx dn (-1) ec1 (io_sched m)" and "m_pendingEventCounts m2 = m_pendingEventCounts m"
    and "m_fdContexts m2 fd = Some (setEventContext event (ec1\<lparr>cb := None\<rparr>) c)"
    and "handle_event ctl dn' (Ready fd evs) m2 = Inr m2"
proof -
  have fnd: "m_fdContexts m0 fd = Some c" "io_sched m0 = io_sched m" "m_pendingEventCounts m0 = m_pendingEventCounts m"
    using f(1) by (auto simp: find_ctx_def Let_def split: option.splits)
  note e = ev_put_back[OF f(2) ev new]
  let ?c1 = "setEventContext event ec1 (c\<lparr>m_events := m_events c OR event\<rparr>)"
  define m1 where "m1 = m0\<lparr>interest := (interest m0)(fd \<mapsto> (EPOLLET OR (m_events c OR event))),
    m_pendingEventCounts := m_pendingEventCounts m0 + 1, m_fdContexts := (m_fdContexts m0)(fd \<mapsto> ?c1)\<rparr>"
  have add: "addEvent_common ctl fd event nothing store m = Inr (0, m1)"
    using run f(1) new ec ctl by (simp add: addEvent_common_def epoll_ctl_def ENOENT_def m1_def Let_def)
  obtain m2 where m2: "handle_event ctl dn (Ready fd evs) m1 = Inr m2" "io_sched m2 = submit_ctx dn (-1) ec1 (io_sched m)"
    "m_pendingEventCounts m2 = m_pendingEventCounts m"
    "m_fdContexts m2 fd = Some (setEventContext event (ec1\<lparr>cb := None\<rparr>) c)"
    using e fnd ctl setEventContext_again[OF ev]
    by (simp add: m1_def real epoll_ctl_def ENOENT_def Let_def fire_all_single[OF ev] fire_def triggerContext_def)
  moreover have "handle_event ctl dn' (Ready fd evs) m2 = Inr m2"
    using m2(4) new by (simp add: real Let_def)
  ultimately show thesis
    using that[OF add] by blast
qed

text \<open>C24. A ticket registered for an event is handed to the scheduler when the event comes, once: in every
  reachable state, registering it succeeds if the event is free and the kernel accepts; when the kernel reports the event,
  exactly the resumption of this ticket is scheduled, on the thread asked for, the event is no longer
  pending, and another report of it does nothing.\<close>

theorem ticket_fires_once:
  assumes "io_reachable m" and "\<not> m_stopping (io_sched m)" and "0 \<le> fd" and ev: "event \<in> {READ, WRITE}"
    and free: "\<forall>c. m_fdContexts m fd = Some c \<longrightarrow> m_events c AND event = 0"
    and "\<forall>op. ctl op fd = 0" and "real_events evs = event"
  shows "\<exists>m1 m2. addEvent_ticket ctl fd event (Some rt) None thr m = Inr (0, m1) \<and> handle_event ctl dn (Ready fd evs) m1 = Inr m2 \<and>
    io_sched m2 = schedule (-1) (Some (TryResume rt)) thr (io_sched m) \<and> m_pendingEventCounts m2 = m_pendingEventCounts m \<and>
    handle_event ctl dn (Ready fd evs) m2 = Inr m2"
proof -
  have ok: "io_ok m" "io_clean m"
    using io_reachable_ok[OF assms(1)] by simp_all
  obtain c m0 where f: "find_ctx fd m = (c, m0)" "io_ok m0" "m_fdContexts m0 fd = Some c" "m_fdContexts m fd = None \<longrightarrow> ctx_clean c"
    by (rule find_ctx_ok[OF ok(1), of fd])
  have c: "ev_ok (m_events c)" "m_events c AND event = 0" "ctx_clean c"
    using f ok(2) free io_okD(2)[OF f(2,3)]
    by (cases "m_fdContexts m fd"; auto simp: find_ctx_def io_clean_def Let_def)+
  obtain ec where ec: "getEventContext event c = Inr ec" "handle ec = None" "cb ec = None"
    using c(2,3) ev by (auto simp: getEventContext_def ctx_clean_def)
  let ?ec1 = "ec\<lparr>ec_scheduler := True, resumeTicket := Some rt, thread_id := thr\<rparr>"
  obtain m1 m2 where m: "addEvent_ticket ctl fd event (Some rt) None thr m = Inr (0, m1)" "handle_event ctl dn (Ready fd evs) m1 = Inr m2"
    "io_sched m2 = submit_ctx dn (-1) ?ec1 (io_sched m)" "m_pendingEventCounts m2 = m_pendingEventCounts m"
    "handle_event ctl dn (Ready fd evs) m2 = Inr m2"
    unfolding addEvent_ticket_def
    by (rule register_then_ready[OF assms(2,3) _ ev f(1) c(1,2) ec(1), where ?ec1.0 = ?ec1 and dn = dn and dn' = dn])
      (use assms(6,7) in auto)
  then show ?thesis
    using ec(2,3) by (auto simp: submit_ctx_def)
qed

theorem ticket_fires_once_witness:
  "\<exists>m m1 m2. io_manager_new 1 0 = Inr m \<and> addEvent_ticket (\<lambda>_ _. 0) 5 READ (Some 7) None (-1) m = Inr (0, m1) \<and>
    handle_event (\<lambda>_ _. 0) (\<lambda>_. False) (Ready 5 EPOLLIN) m1 = Inr m2 \<and> m_queue (io_sched m2) = [\<lparr>fcb = TryResume 7, threadId = -1\<rparr>]"
proof -
  obtain m where m: "io_manager_new 1 0 = Inr m" and v: "\<not> m_stopping (io_sched m)" "m_fdContexts m = Map.empty" "m_queue (io_sched m) = []"
    by (simp add: io_manager_new_def scheduler_new_def start_flags_def)
  obtain m1 m2 where "addEvent_ticket (\<lambda>_ _. 0) 5 READ (Some 7) None (-1) m = Inr (0, m1)"
    "handle_event (\<lambda>_ _. 0) (\<lambda>_. False) (Ready 5 EPOLLIN) m1 = Inr m2"
    "io_sched m2 = schedule (-1) (Some (TryResume 7)) (-1) (io_sched m)"
    using ticket_fires_once[OF io_reachable.start[OF m] v(1), of 5 READ "\<lambda>_ _. 0" EPOLLIN 7 "-1" "\<lambda>_. False"] v(2)
    by (auto simp: real_events_def event_values)
  then show ?thesis
    using m v by (intro exI[of _ m] exI[of _ m1] exI[of _ m2]) (simp add: schedule_def push_global_def Let_def)
qed

subsection \<open>A handle that stays behind\<close>

lemma submit_ctx_stopping [simp]: "m_stopping (submit_ctx dn cur ctx s) = m_stopping s"
  by (simp add: submit_ctx_def schedule_handle_def schedule_def push_local_def push_global_def Let_def split: option.split)

text \<open>After an event registered with a bare handle has fired, the handle stays in the context and has
  precedence over a ticket: a ticket registered next for the same event of the descriptor is never resumed.
  When its event comes, the old coroutine is scheduled instead, or, if that one is done by then, nothing, and the event is
  used up.\<close>

theorem stale_handle_resumed:
  assumes "\<not> m_stopping (io_sched m)" and "0 \<le> fd" and ev: "event \<in> {READ, WRITE}" and none: "m_fdContexts m fd = None"
    and ctl: "\<forall>op. ctl op fd = 0" and real: "real_events evs = event"
  shows "\<exists>m1 m2 m3 m4. addEvent_handle ctl fd event (Some h) None thr m = Inr (0, m1) \<and>
    handle_event ctl dn (Ready fd evs) m1 = Inr m2 \<and>
    addEvent_ticket ctl fd event (Some rt) None thr m2 = Inr (0, m3) \<and> handle_event ctl dn2 (Ready fd evs) m3 = Inr m4 \<and>
    io_sched m4 = (if dn2 h then io_sched m2 else schedule (-1) (Some (Resume h)) thr (io_sched m2)) \<and>
    handle_event ctl dn2 (Ready fd evs) m4 = Inr m4"
proof -
  define ec0 where ec0: "ec0 = reset_ctx\<lparr>ec_scheduler := True, handle := Some h, thread_id := thr\<rparr>"
  let ?c = "\<lparr>read_ctx = reset_ctx, write_ctx = reset_ctx, ctx_fd = fd, m_events = 0\<rparr>"
  let ?c2 = "setEventContext event (ec0\<lparr>cb := None\<rparr>) ?c"
  have f: "find_ctx fd m = (?c, m\<lparr>m_fdContexts := (m_fdContexts m)(fd \<mapsto> ?c)\<rparr>)" "getEventContext event ?c = Inr reset_ctx"
    using none ev by (auto simp: find_ctx_def Let_def getEventContext_def)
  obtain m1 m2 where 1: "addEvent_handle ctl fd event (Some h) None thr m = Inr (0, m1)" "handle_event ctl dn (Ready fd evs) m1 = Inr m2"
    "io_sched m2 = submit_ctx dn (-1) ec0 (io_sched m)" "m_fdContexts m2 fd = Some ?c2"
    unfolding addEvent_handle_def
    by (rule register_then_ready[OF assms(1,2) _ ev f(1) _ _ f(2), where ?ec1.0 = ec0 and dn = dn and dn' = dn2])
      (use ctl real ec0 in \<open>auto simp: ev_ok_def\<close>)
  have f2: "find_ctx fd m2 = (?c2, m2)" "getEventContext event ?c2 = Inr (ec0\<lparr>cb := None\<rparr>)" "\<not> m_stopping (io_sched m2)"
    using 1(3,4) assms(1) setEventContext_again(1)[OF ev] by (auto simp: find_ctx_def)
  obtain m3 m4 where 2: "addEvent_ticket ctl fd event (Some rt) None thr m2 = Inr (0, m3)" "handle_event ctl dn2 (Ready fd evs) m3 = Inr m4"
    "io_sched m4 = submit_ctx dn2 (-1) (ec0\<lparr>cb := None, ec_scheduler := True, resumeTicket := Some rt, thread_id := thr\<rparr>) (io_sched m2)"
    "handle_event ctl dn2 (Ready fd evs) m4 = Inr m4"
    unfolding addEvent_ticket_def
    by (rule register_then_ready[OF f2(3) assms(2) _ ev f2(1) _ _ f2(2), where dn = dn2 and dn' = dn2
          and ?ec1.0 = "ec0\<lparr>cb := None, ec_scheduler := True, resumeTicket := Some rt, thread_id := thr\<rparr>"])
      (use ctl real in \<open>auto simp: ev_ok_def\<close>)
  have "io_sched m4 = (if dn2 h then io_sched m2 else schedule (-1) (Some (Resume h)) thr (io_sched m2))"
    unfolding 2(3) using ec0 f2(3) by (simp add: submit_ctx_def reset_ctx_def schedule_handle_def)
  then show ?thesis
    using 1 2 by blast
qed

theorem stale_handle_resumed_witness:
  "\<exists>m m1 m2 m3 m4. io_manager_new 1 0 = Inr m \<and> addEvent_handle (\<lambda>_ _. 0) 5 READ (Some 3) None (-1) m = Inr (0, m1) \<and>
    handle_event (\<lambda>_ _. 0) (\<lambda>_. False) (Ready 5 EPOLLIN) m1 = Inr m2 \<and> addEvent_ticket (\<lambda>_ _. 0) 5 READ (Some 7) None (-1) m2 = Inr (0, m3) \<and>
    handle_event (\<lambda>_ _. 0) (\<lambda>_. True) (Ready 5 EPOLLIN) m3 = Inr m4 \<and> io_sched m4 = io_sched m2"
proof -
  obtain m where m: "io_manager_new 1 0 = Inr m" and v: "\<not> m_stopping (io_sched m)" "m_fdContexts m 5 = None"
    by (simp add: io_manager_new_def scheduler_new_def start_flags_def)
  then show ?thesis
    using stale_handle_resumed[of m 5 READ "\<lambda>_ _. 0" EPOLLIN 3 "-1" "\<lambda>_. False" 7 "\<lambda>_. True"]
    by (simp add: real_events_def event_values) blast
qed

subsection \<open>The timeout of the poller\<close>



end
