(* ===== verification/AsyncIo.thy ===== *)
theory AsyncIo
  imports IoManager
begin

text \<open>
  Waiting for a descriptor in a coroutine: \<open>ResumeTicket\<close> (\<open>src/src/core/resume_ticket.{h,cpp}\<close>) and the awaiter \<open>AsyncIo\<close> of
  \<open>src/src/core/asyncio.h\<close> on the I/O manager. An awaiter has a number, which is also that of the ticket, of the
  shared state and of the timeout function it creates. What the wrapped system call returns, a result and an
  error number, is an argument. \<open>resumed\<close> logs the tickets whose coroutine is resumed; the coroutine then
  runs \<open>await_resume\<close>, a step of its own.
\<close>

subsection \<open>State\<close>

record ResumeTicket =
  m_handle :: nat
  m_armed :: bool

record AsyncIoState =
  is_timeout :: bool
  event_added :: bool

record AsyncIo =
  io_fd :: int
  io_event :: Event
  timeout_ms :: nat
  has_timer :: bool
  ret :: int
  timer :: "nat option"
  old_error :: nat

record waits =
  iom :: IOManager
  tickets :: "nat \<rightharpoonup> ResumeTicket"
  states :: "nat \<rightharpoonup> AsyncIoState"
  ios :: "nat \<rightharpoonup> AsyncIo"
  resumed :: "nat list"

definition EINTR :: nat where "EINTR = 4"
definition EIO :: nat where "EIO = 5"
definition EAGAIN :: nat where "EAGAIN = 11"
definition ETIMEDOUT :: nat where "ETIMEDOUT = 110"

definition asyncio_new :: "int \<Rightarrow> Event \<Rightarrow> nat option \<Rightarrow> AsyncIo" where
  "asyncio_new fd event timeout = \<lparr>io_fd = fd, io_event = event, timeout_ms = (case timeout of None \<Rightarrow> 0 | Some ms \<Rightarrow> ms),
     has_timer = (timeout \<noteq> None), ret = -1, timer = None, old_error = 0\<rparr>"

subsection \<open>Tickets\<close>

definition try_resume :: "(nat \<Rightarrow> bool) \<Rightarrow> nat \<Rightarrow> waits \<Rightarrow> waits res" where
  "try_resume dn n w =
     (case tickets w n of None \<Rightarrow> Inl NullDereference
      | Some t \<Rightarrow>
        let w1 = w\<lparr>tickets := (tickets w)(n \<mapsto> t\<lparr>m_armed := False\<rparr>)\<rparr> in
        if \<not> m_armed t then Inr w1
        else Inr (if dn (m_handle t) then w1 else w1\<lparr>resumed := resumed w1 @ [n]\<rparr>))"

definition disarm :: "nat \<Rightarrow> waits \<Rightarrow> waits" where
  "disarm n w = w\<lparr>tickets := (tickets w)(n := map_option (\<lambda>t. t\<lparr>m_armed := False\<rparr>) (tickets w n))\<rparr>"

text \<open>Remove the event unless someone else has: the exchange of \<open>event_added\<close> and \<open>delEvent\<close>.\<close>

definition drop_event :: "(epoll_op \<Rightarrow> int \<Rightarrow> nat) \<Rightarrow> nat \<Rightarrow> AsyncIo \<Rightarrow> waits \<Rightarrow> waits res" where
  "drop_event ctl n io w =
     (case states w n of None \<Rightarrow> Inr w
      | Some st \<Rightarrow>
        if \<not> event_added st then Inr w
        else bnd (delEvent ctl (io_fd io) (io_event io) (iom w)) (\<lambda>(_, m).
          Inr (w\<lparr>states := (states w)(n \<mapsto> st\<lparr>event_added := False\<rparr>), iom := m\<rparr>)))"

definition drop_timer :: "nat \<Rightarrow> AsyncIo \<Rightarrow> waits \<Rightarrow> waits res" where
  "drop_timer n io w =
     (case timer io of None \<Rightarrow> Inr w
      | Some t \<Rightarrow> bnd (timer_cancel t (io_timers (iom w))) (\<lambda>(_, tm).
          Inr (w\<lparr>iom := (iom w)\<lparr>io_timers := tm\<rparr>, ios := (ios w)(n \<mapsto> io\<lparr>timer := None\<rparr>)\<rparr>)))"

subsection \<open>The awaiter\<close>

text \<open>\<open>True\<close>: the coroutine goes on without suspending.\<close>

definition await_ready :: "int \<Rightarrow> nat \<Rightarrow> AsyncIo \<Rightarrow> bool \<times> AsyncIo" where
  "await_ready r err io =
     (if r \<ge> 0 then (True, io\<lparr>ret := r\<rparr>) else (err \<noteq> EAGAIN, io\<lparr>ret := r, old_error := err\<rparr>))"

text \<open>\<open>True\<close>: the coroutine goes on at once. \<open>h\<close> is its handle, \<open>t\<close> the address of a new timer.\<close>

definition await_suspend ::
  "(epoll_op \<Rightarrow> int \<Rightarrow> nat) \<Rightarrow> int \<Rightarrow> nat \<Rightarrow> nat \<Rightarrow> nat \<Rightarrow> AsyncIo \<Rightarrow> waits \<Rightarrow> (bool \<times> waits) res"
where
  "await_suspend ctl now n h t io w =
     (let w1 = w\<lparr>tickets := (tickets w)(n \<mapsto> \<lparr>m_handle = h, m_armed = True\<rparr>),
                 states := (states w)(n \<mapsto> \<lparr>is_timeout = False, event_added = True\<rparr>), ios := (ios w)(n \<mapsto> io)\<rparr> in
      bnd (addEvent_ticket ctl (io_fd io) (io_event io) (Some n) None (-1) (iom w1)) (\<lambda>(tem, m).
        if tem \<noteq> 0 then Inr (True, disarm n (w1\<lparr>iom := m, ios := (ios w1)(n \<mapsto> io\<lparr>ret := -1\<rparr>)\<rparr>))
        else if \<not> has_timer io then Inr (False, w1\<lparr>iom := m\<rparr>)
        else bnd (addTimer now t (timeout_ms io) None (Some (Fn n)) False (io_timers m)) (\<lambda>(tp, tm).
          Inr (False, w1\<lparr>iom := m\<lparr>io_timers := tm\<rparr>, ios := (ios w1)(n \<mapsto> io\<lparr>timer := tp\<rparr>)\<rparr>))))"

text \<open>The function the timer calls.\<close>

definition on_timeout :: "(epoll_op \<Rightarrow> int \<Rightarrow> nat) \<Rightarrow> (nat \<Rightarrow> bool) \<Rightarrow> nat \<Rightarrow> AsyncIo \<Rightarrow> waits \<Rightarrow> waits res" where
  "on_timeout ctl dn n io w =
     (let w1 = w\<lparr>states := (states w)(n := map_option (\<lambda>st. st\<lparr>is_timeout := True\<rparr>) (states w n))\<rparr> in
      bnd (drop_event ctl n io w1) (try_resume dn n))"

text \<open>The result and, for a timeout, the error number; \<open>r\<close> is what the repeated system call returns.\<close>

definition await_resume :: "(epoll_op \<Rightarrow> int \<Rightarrow> nat) \<Rightarrow> int \<Rightarrow> nat \<Rightarrow> AsyncIo \<Rightarrow> waits \<Rightarrow> ((int \<times> nat option) \<times> waits) res" where
  "await_resume ctl r n io w =
     bnd (drop_timer n io w) (\<lambda>w1. bnd (drop_event ctl n io w1) (\<lambda>w2.
       Inr (if (case states w2 n of Some st \<Rightarrow> is_timeout st | None \<Rightarrow> False) then (-1, Some ETIMEDOUT)
            else if ret io < 0 \<and> (old_error io = EAGAIN \<or> old_error io = EINTR) then (r, None) else (ret io, None), w2)))"

definition asyncio_destroy :: "(epoll_op \<Rightarrow> int \<Rightarrow> nat) \<Rightarrow> nat \<Rightarrow> AsyncIo \<Rightarrow> waits \<Rightarrow> waits res" where
  "asyncio_destroy ctl n io w = bnd (drop_timer n io (disarm n w)) (drop_event ctl n io)"

text \<open>A job of the scheduler that concerns tickets.\<close>

definition run_job :: "(epoll_op \<Rightarrow> int \<Rightarrow> nat) \<Rightarrow> (nat \<Rightarrow> bool) \<Rightarrow> job \<Rightarrow> waits \<Rightarrow> waits res" where
  "run_job ctl dn j w =
     (case j of TryResume n \<Rightarrow> try_resume dn n w
      | Call (Fn n) \<Rightarrow> (case ios w n of None \<Rightarrow> Inr w | Some io \<Rightarrow> on_timeout ctl dn n io w)
      | _ \<Rightarrow> Inr w)"

subsection \<open>A coroutine is resumed at most once for each wait\<close>

text \<open>
  Suspending with a new ticket, a job that runs, a coroutine that goes on, an awaiter that is destroyed, and
  anything else that happens to the I/O manager, in any order and as often as it likes.
\<close>

inductive wait_step :: "waits \<Rightarrow> waits \<Rightarrow> bool" where
  suspend: "tickets w n = None \<Longrightarrow> await_suspend ctl now n h t io w = Inr (b, w1) \<Longrightarrow> wait_step w w1"
| job: "run_job ctl dn j w = Inr w1 \<Longrightarrow> wait_step w w1"
| resume: "ios w n = Some io \<Longrightarrow> await_resume ctl r n io w = Inr (x, w1) \<Longrightarrow> wait_step w w1"
| destroy: "ios w n = Some io \<Longrightarrow> asyncio_destroy ctl n io w = Inr w1 \<Longrightarrow> wait_step w w1"
| others: "wait_step w (w\<lparr>iom := m\<rparr>)"

inductive waits_reachable :: "waits \<Rightarrow> bool" where
  start: "waits_reachable \<lparr>iom = m, tickets = Map.empty, states = Map.empty, ios = Map.empty, resumed = []\<rparr>"
| step: "waits_reachable w \<Longrightarrow> wait_step w w1 \<Longrightarrow> waits_reachable w1"

definition may_resume :: "waits \<Rightarrow> nat \<Rightarrow> bool" where
  "may_resume w n \<longleftrightarrow> (case tickets w n of None \<Rightarrow> True | Some t \<Rightarrow> m_armed t)"

definition resumed_once :: "waits \<Rightarrow> bool" where
  "resumed_once w \<longleftrightarrow> distinct (resumed w) \<and> (\<forall>n\<in>set (resumed w). \<not> may_resume w n)"

text \<open>A step that resumes nobody and arms no ticket that was disarmed, and one that may also resume, and disarm, one.\<close>

definition disarms :: "waits \<Rightarrow> waits \<Rightarrow> bool" where
  "disarms w w1 \<longleftrightarrow> resumed w1 = resumed w \<and> (\<forall>n. may_resume w1 n \<longrightarrow> may_resume w n)"

definition resumes :: "waits \<Rightarrow> waits \<Rightarrow> bool" where
  "resumes w w1 \<longleftrightarrow> (\<forall>n. may_resume w1 n \<longrightarrow> may_resume w n) \<and>
     (resumed w1 = resumed w \<or> (\<exists>n. may_resume w n \<and> \<not> may_resume w1 n \<and> resumed w1 = resumed w @ [n]))"

lemma disarms_resumes: "disarms w w1 \<Longrightarrow> resumes w w1"
  by (simp add: disarms_def resumes_def)

lemma disarms_then: "disarms w w1 \<Longrightarrow> resumes w1 w2 \<Longrightarrow> resumes w w2"
  by (auto simp: disarms_def resumes_def)

lemma resumes_once: "resumes w w1 \<Longrightarrow> resumed_once w \<Longrightarrow> resumed_once w1"
  by (auto simp: resumes_def resumed_once_def)

lemma disarms_refl: "tickets w1 = tickets w \<Longrightarrow> resumed w1 = resumed w \<Longrightarrow> disarms w w1"
  by (simp add: disarms_def may_resume_def)

lemma disarm_disarms: "disarms w (disarm n w)"
  by (auto simp: disarms_def disarm_def may_resume_def split: option.splits if_splits)

lemma drop_event_frame: "drop_event ctl n io w = Inr w1 \<Longrightarrow> tickets w1 = tickets w \<and> resumed w1 = resumed w \<and> ios w1 = ios w"
  by (auto simp: drop_event_def bnd_eq_Inr split: option.splits if_splits prod.splits)

lemma drop_timer_frame: "drop_timer n io w = Inr w1 \<Longrightarrow> tickets w1 = tickets w \<and> resumed w1 = resumed w \<and> states w1 = states w"
  by (auto simp: drop_timer_def bnd_eq_Inr split: option.splits prod.splits)

lemma drops_disarms: "drop_timer n io w = Inr w1 \<Longrightarrow> drop_event ctl n io w1 = Inr w2 \<Longrightarrow> disarms w w2"
  using drop_timer_frame[of n io w w1] drop_event_frame[of ctl n io w1 w2] by (intro disarms_refl) simp_all

lemma try_resume_resumes: "try_resume dn n w = Inr w1 \<Longrightarrow> resumes w w1"
  by (auto simp: try_resume_def resumes_def may_resume_def Let_def split: option.splits if_splits)

lemma await_suspend_disarms: "await_suspend ctl now n h t io w = Inr (b, w1) \<Longrightarrow> tickets w n = None \<Longrightarrow> disarms w w1"
  unfolding await_suspend_def Let_def
  by (auto simp: bnd_eq_Inr disarms_def may_resume_def disarm_def split: if_splits prod.splits option.splits)

lemma on_timeout_resumes:
  assumes "on_timeout ctl dn n io w = Inr w1"
  shows "resumes w w1"
proof -
  let ?w = "w\<lparr>states := (states w)(n := map_option (\<lambda>st. st\<lparr>is_timeout := True\<rparr>) (states w n))\<rparr>"
  obtain w2 where w2: "drop_event ctl n io ?w = Inr w2" "try_resume dn n w2 = Inr w1"
    using assms by (auto simp: on_timeout_def Let_def bnd_eq_Inr)
  have "disarms w w2"
    using drop_event_frame[OF w2(1)] by (intro disarms_refl) simp_all
  then show ?thesis
    using try_resume_resumes[OF w2(2)] by (rule disarms_then)
qed

lemma run_job_resumes: "run_job ctl dn j w = Inr w1 \<Longrightarrow> resumes w w1"
  by (auto simp: run_job_def try_resume_resumes on_timeout_resumes disarms_resumes[OF disarms_refl]
      split: job.splits callback.splits option.splits)

lemma wait_step_resumes:
  assumes "wait_step w w1"
  shows "resumes w w1"
  using assms
proof cases
  case (suspend n ctl now h t io b)
  then show ?thesis
    by (blast intro: disarms_resumes await_suspend_disarms)
next
  case (job ctl dn j)
  then show ?thesis
    by (simp add: run_job_resumes)
next
  case (resume n io ctl r x)
  then show ?thesis
    by (auto simp: await_resume_def bnd_eq_Inr intro: disarms_resumes drops_disarms)
next
  case (destroy n io ctl)
  then show ?thesis
    by (auto simp: asyncio_destroy_def bnd_eq_Inr intro: disarms_then[OF disarm_disarms] disarms_resumes drops_disarms)
next
  case (others m)
  then show ?thesis
    by (simp add: disarms_resumes disarms_refl)
qed

lemma waits_reachable_once: "waits_reachable w \<Longrightarrow> resumed_once w"
proof (induction rule: waits_reachable.induct)
  case (start m)
  then show ?case
    by (simp add: resumed_once_def)
next
  case (step w w1)
  then show ?case
    using wait_step_resumes resumes_once by blast
qed

lemma disarmed_stays:
  assumes "wait_step\<^sup>*\<^sup>* w w1" and "\<not> may_resume w n"
  shows "\<not> may_resume w1 n \<and> (n \<in> set (resumed w1) \<longleftrightarrow> n \<in> set (resumed w))"
  using assms
proof (induction rule: rtranclp_induct)
  case (step w1 w2)
  then show ?case
    using wait_step_resumes[of w1 w2] by (auto simp: resumes_def)
qed simp

text \<open>C25. A coroutine that waits for a descriptor is resumed at most once for this wait, whatever the order in which the
  event, the timeout, a cancellation and the end of the awaiter come and however often the scheduler
  runs their jobs; and once its awaiter has been destroyed it is not resumed any more.\<close>

theorem resume_at_most_once:
  assumes "waits_reachable w"
  shows "distinct (resumed w) \<and>
    (\<forall>ctl n io w1 w2. tickets w n \<noteq> None \<and> asyncio_destroy ctl n io w = Inr w1 \<and> wait_step\<^sup>*\<^sup>* w1 w2 \<longrightarrow>
      (n \<in> set (resumed w2) \<longleftrightarrow> n \<in> set (resumed w)))"
proof (intro conjI allI impI)
  show "distinct (resumed w)"
    using waits_reachable_once[OF assms] by (simp add: resumed_once_def)
next
  fix ctl n io w1 w2
  assume a: "tickets w n \<noteq> None \<and> asyncio_destroy ctl n io w = Inr w1 \<and> wait_step\<^sup>*\<^sup>* w1 w2"
  then obtain w0 where d: "drop_timer n io (disarm n w) = Inr w0" "drop_event ctl n io w0 = Inr w1"
    by (auto simp: asyncio_destroy_def bnd_eq_Inr)
  have "disarms (disarm n w) w1"
    using d by (rule drops_disarms)
  moreover have "\<not> may_resume (disarm n w) n" "resumed (disarm n w) = resumed w"
    using a by (auto simp: may_resume_def disarm_def)
  ultimately show "n \<in> set (resumed w2) \<longleftrightarrow> n \<in> set (resumed w)"
    using disarmed_stays[of w1 w2 n] a by (auto simp: disarms_def)
qed

theorem resume_at_most_once_witness:
  "\<exists>w. waits_reachable w \<and> run_job (\<lambda>_ _. 0) (\<lambda>_. False) (TryResume 0) w = Inr w \<and> resumed w = [0] \<and> distinct (resumed w)"
proof -
  obtain m where m: "io_manager_new 1 0 = Inr m" and v: "\<not> m_stopping (io_sched m)" "m_fdContexts m = Map.empty"
    by (simp add: io_manager_new_def scheduler_new_def start_flags_def)
  let ?w = "\<lparr>iom = m, tickets = Map.empty, states = Map.empty, ios = Map.empty, resumed = []\<rparr>"
  obtain w1 where w1: "await_suspend (\<lambda>_ _. 0) 0 0 9 1 (asyncio_new 5 READ None) ?w = Inr (False, w1)"
    and t: "tickets w1 = [0 \<mapsto> \<lparr>m_handle = 9, m_armed = True\<rparr>]" "resumed w1 = []"
    using v by (simp add: await_suspend_def asyncio_new_def addEvent_ticket_def addEvent_common_def find_ctx_def epoll_ctl_def
        ENOENT_def getEventContext_def Let_def)
  obtain w2 where w2: "run_job (\<lambda>_ _. 0) (\<lambda>_. False) (TryResume 0) w1 = Inr w2" "resumed w2 = [0]"
    "run_job (\<lambda>_ _. 0) (\<lambda>_. False) (TryResume 0) w2 = Inr w2"
    using t by (simp add: run_job_def try_resume_def)
  have "wait_step ?w w1" "wait_step w1 w2"
    using wait_step.suspend[OF _ w1] wait_step.job[OF w2(1)] by simp_all
  then have r: "waits_reachable w2"
    using waits_reachable.start waits_reachable.step by blast
  then show ?thesis
    using resume_at_most_once[OF r] w2(2,3) by blast
qed

subsection \<open>Timeouts\<close>

text \<open>
  When the timer fires first: the event is taken back, the coroutine is resumed, learns of the timeout, and a
  report of the event that was under way does not resume it again.
\<close>

lemma timeout_wins:
  assumes ok: "io_ok (iom w)" "\<not> m_stopping (io_sched (iom w))" "0 \<le> io_fd io" "io_event io \<in> {READ, WRITE}"
    and c: "m_fdContexts (iom w) (io_fd io) = Some c" "m_events c AND io_event io \<noteq> 0"
    and ctl: "\<forall>op. ctl op (io_fd io) = 0" and "tickets w n = Some \<lparr>m_handle = h, m_armed = True\<rparr>" "\<not> dn h"
    and "states w n = Some \<lparr>is_timeout = False, event_added = True\<rparr>" "timer io = None"
  shows "\<exists>w1 c1. on_timeout ctl dn n io w = Inr w1 \<and> resumed w1 = resumed w @ [n] \<and>
    m_fdContexts (iom w1) (io_fd io) = Some c1 \<and> m_events c1 = m_events c AND NOT (io_event io) \<and>
    await_resume ctl r n io w1 = Inr ((-1, Some ETIMEDOUT), w1) \<and> (\<exists>w2. try_resume dn n w1 = Inr w2 \<and> resumed w2 = resumed w1)"
proof -
  obtain ec where "getEventContext (io_event io) c = Inr ec"
    using getEventContext_ok[OF ok(4)] by blast
  then obtain m1 c1 where m1: "delEvent ctl (io_fd io) (io_event io) (iom w) = Inr (True, m1)"
    "m_fdContexts m1 (io_fd io) = Some c1" "m_events c1 = m_events c AND NOT (io_event io)"
    using ok(2,3) c ctl by (simp add: delEvent_def epoll_ctl_def ENOENT_def Let_def)
  then show ?thesis
    using assms(8-11) by (auto simp: on_timeout_def drop_event_def try_resume_def await_resume_def drop_timer_def Let_def)
qed

subsection \<open>Two coroutines on one event\<close>

text \<open>A coroutine that waits for an event another one is already waiting for takes the other's
  registration away. Its own registration is refused, it goes on at once, and since \<open>event_added\<close> was set before the attempt, it then
  removes the event of the first: when the kernel reports it, nothing is scheduled, and the ticket of the
  first coroutine stays armed.\<close>

theorem second_waiter_removes_first:
  assumes ok: "io_ok (iom w)" "\<not> m_stopping (io_sched (iom w))" "0 \<le> fd" "event \<in> {READ, WRITE}"
    and c: "m_fdContexts (iom w) fd = Some c" "m_events c AND event \<noteq> 0"
    and ctl: "\<forall>op. ctl op fd = 0" and io: "io = asyncio_new fd event timeout" and "a \<noteq> b" and real: "real_events evs = event"
  shows "\<exists>w1 w2 x. await_suspend ctl now b h t io w = Inr (True, w1) \<and>
    (\<exists>io1. ios w1 b = Some io1 \<and> await_resume ctl r b io1 w1 = Inr (x, w2)) \<and>
    tickets w2 a = tickets w a \<and> m_pendingEventCounts (iom w2) = m_pendingEventCounts (iom w) - 1 \<and>
    handle_event ctl dn (Ready fd evs) (iom w2) = Inr (iom w2)"
proof -
  obtain ec where ec: "getEventContext event c = Inr ec"
    using getEventContext_ok[OF ok(4)] by blast
  have gone: "(m_events c AND NOT event) AND event = 0"
    using io_okD(2)[OF ok(1) c(1)] ok(4) by (auto simp: ev_ok_def event_values)
  have add: "addEvent_ticket ctl fd event (Some b) None (-1) (iom w) = Inr (-1, iom w)"
    using ok(2,3) c by (simp add: addEvent_ticket_def addEvent_common_def find_ctx_def)
  obtain m1 c1 where del: "delEvent ctl fd event (iom w) = Inr (True, m1)" "m_fdContexts m1 fd = Some c1"
    "m_events c1 = m_events c AND NOT event" "m_pendingEventCounts m1 = m_pendingEventCounts (iom w) - 1"
    using ok(2,3) c ctl ec by (simp add: delEvent_def epoll_ctl_def ENOENT_def Let_def)
  have "handle_event ctl dn (Ready fd evs) m1 = Inr m1"
    using del(2,3) gone by (simp add: real Let_def)
  then show ?thesis
    using add del(1,4) \<open>a \<noteq> b\<close>
    by (simp add: io asyncio_new_def await_suspend_def disarm_def await_resume_def drop_timer_def drop_event_def del: handle_event.simps)
qed

theorem second_waiter_removes_first_witness:
  "\<exists>m m1 w1. io_manager_new 1 0 = Inr m \<and> addEvent_ticket (\<lambda>_ _. 0) 5 READ (Some 0) None (-1) m = Inr (0, m1) \<and>
    await_suspend (\<lambda>_ _. 0) 0 1 9 1 (asyncio_new 5 READ None)
      \<lparr>iom = m1, tickets = [0 \<mapsto> \<lparr>m_handle = 8, m_armed = True\<rparr>], states = Map.empty, ios = Map.empty, resumed = []\<rparr> = Inr (True, w1)"
proof -
  obtain m where m: "io_manager_new 1 0 = Inr m" and v: "\<not> m_stopping (io_sched m)" "m_fdContexts m = Map.empty"
    by (simp add: io_manager_new_def scheduler_new_def start_flags_def)
  obtain m1 c where m1: "addEvent_ticket (\<lambda>_ _. 0) 5 READ (Some 0) None (-1) m = Inr (0, m1)"
    "m_fdContexts m1 5 = Some c" "m_events c AND READ \<noteq> 0" "\<not> m_stopping (io_sched m1)"
    using v by (auto simp: addEvent_ticket_def addEvent_common_def find_ctx_def epoll_ctl_def ENOENT_def getEventContext_def
        setEventContext_def event_values Let_def)
  have "io_reachable m1"
    by (rule io_reachable.step[OF io_reachable.start[OF m] io_step.add_ticket[OF _ m1(1)]]) simp
  then have "io_ok m1"
    using io_reachable_ok by blast
  moreover have "real_events EPOLLIN = READ"
    by (simp add: real_events_def event_values)
  ultimately have "\<exists>w1. await_suspend (\<lambda>_ _. 0) 0 1 9 1 (asyncio_new 5 READ None)
      \<lparr>iom = m1, tickets = [0 \<mapsto> \<lparr>m_handle = 8, m_armed = True\<rparr>], states = Map.empty, ios = Map.empty, resumed = []\<rparr> = Inr (True, w1)"
    using second_waiter_removes_first[of "\<lparr>iom = m1, tickets = [0 \<mapsto> \<lparr>m_handle = 8, m_armed = True\<rparr>], states = Map.empty, ios = Map.empty, resumed = []\<rparr>"
        5 READ c "\<lambda>_ _. 0" "asyncio_new 5 READ None" None 0 1 EPOLLIN 0 9 1 0 "\<lambda>_. False"] m1(2-4)
    by (simp del: handle_event.simps) blast
  then show ?thesis
    using m m1(1) by blast
qed

end
