(* ===== verification/Addresses.thy ===== *)
theory Addresses
  imports ByteCodec
begin

text \<open>
  Network addresses, \<open>src/src/net/address.{h,cpp}\<close>: counting the bits of a mask, the network and broadcast address and the
  mask of a prefix, comparison, text, Unix paths, and the splitting of a host name into name and service. The
  numbers in a \<open>sockaddr\<close> are words in memory order; \<open>host\<close> is the order of the bytes of the
  machine. Name resolution (\<open>getaddrinfo\<close>, \<open>getifaddrs\<close>, the URL parser) is an argument.
\<close>

unbundle bit_operations_syntax

subsection \<open>Masks\<close>

lemma clear_lowest_less: "x \<noteq> 0 \<Longrightarrow> unat (x AND (x - 1)) < unat x" for x :: "'a::len word"
proof -
  assume "x \<noteq> 0"
  moreover have "x AND (x - 1) \<le> x - 1"
    by (rule word_and_le1)
  ultimately show ?thesis
    by (metis measure_unat unat_mono word_le_less_eq less_trans)
qed

function Count_one :: "'a::len word \<Rightarrow> nat" where
  "Count_one x = (if x = 0 then 0 else Suc (Count_one (x AND (x - 1))))"
  by pat_completeness auto
termination
  by (relation "measure unat") (auto intro: clear_lowest_less)

declare Count_one.simps [simp del]

definition CreateMask :: "nat \<Rightarrow> 'a::len word res" where
  "CreateMask high =
     (if high = 0 \<or> \<not> high < LENGTH('a) then Inl AssertionFailed else Inr (push_bit (LENGTH('a) - high) 1 - 1))"

definition hTon :: "endian \<Rightarrow> 'a::len word \<Rightarrow> 'a word" where
  "hTon host v = (if host = Big then v else bitswap v)"

subsection \<open>IPv4\<close>

record IPv4Address =
  sin_port :: "16 word"
  s_addr :: "32 word"

definition ipv4_new :: "endian \<Rightarrow> 32 word \<Rightarrow> 16 word \<Rightarrow> IPv4Address" where
  "ipv4_new host address port = \<lparr>sin_port = hTon host port, s_addr = hTon host address\<rparr>"

definition ipv4_broadcastAddress :: "endian \<Rightarrow> nat \<Rightarrow> IPv4Address \<Rightarrow> IPv4Address option res" where
  "ipv4_broadcastAddress host prefix_len a =
     (if prefix_len \<ge> 32 then Inr None
      else bnd (CreateMask prefix_len) (\<lambda>m. Inr (Some (a\<lparr>s_addr := s_addr a OR hTon host m\<rparr>))))"

definition ipv4_networkAddress :: "endian \<Rightarrow> nat \<Rightarrow> IPv4Address \<Rightarrow> IPv4Address option res" where
  "ipv4_networkAddress host prefix_len a =
     (if prefix_len \<ge> 32 then Inr None
      else bnd (CreateMask prefix_len) (\<lambda>m. Inr (Some (a\<lparr>s_addr := s_addr a AND NOT (hTon host m)\<rparr>))))"

definition ipv4_subnetMask :: "endian \<Rightarrow> nat \<Rightarrow> IPv4Address res" where
  "ipv4_subnetMask host prefix_len =
     bnd (CreateMask prefix_len) (\<lambda>m. Inr \<lparr>sin_port = 0, s_addr = NOT (hTon host m)\<rparr>)"

definition ipv4_getPort :: "endian \<Rightarrow> IPv4Address \<Rightarrow> 16 word" where
  "ipv4_getPort host a = hTon host (sin_port a)"

definition ipv4_setPort :: "endian \<Rightarrow> 16 word \<Rightarrow> IPv4Address \<Rightarrow> IPv4Address" where
  "ipv4_setPort host v a = a\<lparr>sin_port := hTon host v\<rparr>"

text \<open>The dotted form, which \<open>inet_ntop\<close> makes of the bytes in memory, and the port.\<close>

fun join_with :: "string \<Rightarrow> string list \<Rightarrow> string" where
  "join_with sep [] = []"
| "join_with sep [x] = x"
| "join_with sep (x # xs) = x @ sep @ join_with sep xs"

definition dotted :: "byte list \<Rightarrow> string" where
  "dotted bs = join_with ''.'' (map (\<lambda>b. to_string_nat (unat b)) bs)"

definition ipv4_insert :: "endian \<Rightarrow> bool \<Rightarrow> IPv4Address \<Rightarrow> string" where
  "ipv4_insert host show_port a =
     dotted (mem_bytes host (s_addr a)) @ (if show_port then '':'' @ to_string_nat (unat (ipv4_getPort host a)) else [])"

subsection \<open>IPv6\<close>

record IPv6Address =
  sin6_port :: "16 word"
  s6_addr :: "byte list"

definition ipv6_new :: "endian \<Rightarrow> byte list \<Rightarrow> 16 word \<Rightarrow> IPv6Address" where
  "ipv6_new host address port = \<lparr>sin6_port = hTon host port, s6_addr = address\<rparr>"

text \<open>Set the bytes from \<open>pos\<close> on.\<close>

definition fill_from :: "nat \<Rightarrow> byte \<Rightarrow> byte list \<Rightarrow> byte list" where
  "fill_from pos v bs = take pos bs @ replicate (16 - pos) v"

text \<open>The mask is made for 32 bits and cut down to the byte it is applied to.\<close>

definition ipv6_broadcastAddress :: "nat \<Rightarrow> IPv6Address \<Rightarrow> IPv6Address option res" where
  "ipv6_broadcastAddress prefix_len a =
     (if prefix_len \<ge> 128 then Inr None
      else
        let bit_pos = prefix_len div 8; bit_offset = prefix_len mod 8 in
        if bit_offset > 0
        then bnd (CreateMask bit_offset :: 32 word res) (\<lambda>m.
          let bs = (s6_addr a)[bit_pos := s6_addr a ! bit_pos OR ucast m] in
          Inr (Some (a\<lparr>s6_addr := fill_from (bit_pos + 1) 0xff bs\<rparr>)))
        else Inr (Some (a\<lparr>s6_addr := fill_from bit_pos 0xff (s6_addr a)\<rparr>)))"

definition ipv6_networkAddress :: "nat \<Rightarrow> IPv6Address \<Rightarrow> IPv6Address option res" where
  "ipv6_networkAddress prefix_len a =
     (if prefix_len \<ge> 128 then Inr None
      else
        let bit_pos = prefix_len div 8; bit_offset = prefix_len mod 8 in
        if bit_offset > 0
        then bnd (CreateMask bit_offset :: 32 word res) (\<lambda>m.
          let bs = (s6_addr a)[bit_pos := s6_addr a ! bit_pos AND ucast (NOT m)] in
          Inr (Some (a\<lparr>s6_addr := fill_from (bit_pos + 1) 0 bs\<rparr>)))
        else Inr (Some (a\<lparr>s6_addr := fill_from bit_pos 0 (s6_addr a)\<rparr>)))"

definition ipv6_subnetMask :: "nat \<Rightarrow> IPv6Address option res" where
  "ipv6_subnetMask prefix_len =
     (if prefix_len \<ge> 128 then Inr None
      else
        let bit_pos = prefix_len div 8; bit_offset = prefix_len mod 8;
            bs = replicate bit_pos 0xff @ replicate (16 - bit_pos) 0 in
        if bit_offset > 0
        then bnd (CreateMask bit_offset :: 32 word res) (\<lambda>m.
          Inr (Some \<lparr>sin6_port = 0, s6_addr = bs[bit_pos := ucast (NOT m)]\<rparr>))
        else Inr (Some \<lparr>sin6_port = 0, s6_addr = bs\<rparr>))"

definition ipv6_getPort :: "endian \<Rightarrow> IPv6Address \<Rightarrow> 16 word" where
  "ipv6_getPort host a = hTon host (sin6_port a)"

definition ipv6_setPort :: "endian \<Rightarrow> 16 word \<Rightarrow> IPv6Address \<Rightarrow> IPv6Address" where
  "ipv6_setPort host v a = a\<lparr>sin6_port := hTon host v\<rparr>"

text \<open>\<open>ntop\<close> is \<open>inet_ntop\<close>.\<close>

definition ipv6_insert :: "(byte list \<Rightarrow> string) \<Rightarrow> endian \<Rightarrow> bool \<Rightarrow> IPv6Address \<Rightarrow> string" where
  "ipv6_insert ntop host show_port a =
     ''['' @ ntop (s6_addr a) @ '']'' @ (if show_port then '':'' @ to_string_nat (unat (ipv6_getPort host a)) else [])"

subsection \<open>Comparison\<close>

text \<open>\<open>memcmp\<close> on the first \<open>n\<close> bytes; both objects must have them.\<close>

fun memcmp_bytes :: "byte list \<Rightarrow> byte list \<Rightarrow> int" where
  "memcmp_bytes (x # a) (y # b) = (if x < y then -1 else if y < x then 1 else memcmp_bytes a b)"
| "memcmp_bytes _ _ = 0"

definition memcmp :: "nat \<Rightarrow> byte list \<Rightarrow> byte list \<Rightarrow> int res" where
  "memcmp n a b = (if length a < n \<or> length b < n then Inl OutOfBounds else Inr (memcmp_bytes (take n a) (take n b)))"

definition address_less :: "byte list \<Rightarrow> byte list \<Rightarrow> bool res" where
  "address_less a b =
     bnd (memcmp (min (length a) (length b)) a b) (\<lambda>r.
       Inr (if r < 0 then True else if r > 0 then False else length a < length b))"

definition address_eq :: "byte list \<Rightarrow> byte list \<Rightarrow> bool res" where
  "address_eq a b = bnd (memcmp (length a) a b) (\<lambda>r. Inr (r = 0 \<and> length a = length b))"

definition address_neq :: "byte list \<Rightarrow> byte list \<Rightarrow> bool res" where
  "address_neq a b = bnd (address_eq a b) (\<lambda>r. Inr (\<not> r))"

subsection \<open>Unix paths\<close>

text \<open>108 bytes for the path, after two for the family.\<close>

record UnixAddress =
  sun_path :: string
  m_length :: nat

definition NUL :: char where "NUL = CHR 0x00"

definition unix_new :: "string \<Rightarrow> UnixAddress res" where
  "unix_new path =
     (let len = length path + 1 - (if path \<noteq> [] \<and> hd path = NUL then 1 else 0) in
      if len > 108 then Inl UncaughtException
      else Inr \<lparr>sun_path = take 108 (take len (path @ [NUL]) @ replicate 108 NUL), m_length = len + 2\<rparr>)"

definition unix_insert :: "UnixAddress \<Rightarrow> string" where
  "unix_insert a =
     (if m_length a > 2 \<and> hd (sun_path a) = NUL
      then [CHR 0x5C, CHR ''0''] @ take (m_length a - 2 - 1) (tl (sun_path a))
      else takeWhile (\<lambda>c. c \<noteq> NUL) (sun_path a))"

subsection \<open>Interfaces\<close>

datatype sock_addr = AF_INET IPv4Address | AF_INET6 IPv6Address | AF_OTHER nat

record ifaddrs =
  ifa_name :: string
  ifa_addr :: "sock_addr option"
  ifa_netmask :: "byte list"

fun sa_family :: "sock_addr \<Rightarrow> nat" where
  "sa_family (AF_INET _) = 2"
| "sa_family (AF_INET6 _) = 10"
| "sa_family (AF_OTHER f) = f"

text \<open>The netmask of an interface is the four or sixteen bytes of its address.\<close>

fun GetInterfaceAddress :: "nat \<Rightarrow> ifaddrs list \<Rightarrow> (string \<times> sock_addr \<times> nat) list res" where
  "GetInterfaceAddress family [] = Inr []"
| "GetInterfaceAddress family (i # is) =
     (case ifa_addr i of None \<Rightarrow> Inl NullDereference
      | Some a \<Rightarrow>
        if family \<noteq> 0 \<and> family \<noteq> sa_family a then GetInterfaceAddress family is
        else bnd (GetInterfaceAddress family is) (\<lambda>rest.
          case a of AF_INET _ \<Rightarrow> Inr ((ifa_name i, a, Count_one (le_word (ifa_netmask i) :: 32 word)) # rest)
          | AF_INET6 _ \<Rightarrow> Inr ((ifa_name i, a, sum_list (map Count_one (take 16 (ifa_netmask i)))) # rest)
          | AF_OTHER _ \<Rightarrow> Inr rest))"

definition GetInterfaceAddress_named :: "string \<Rightarrow> nat \<Rightarrow> ifaddrs list \<Rightarrow> (sock_addr \<times> nat) list res" where
  "GetInterfaceAddress_named interface family is =
     (if interface = [] \<or> interface = ''*''
      then Inr ((if family = 2 \<or> family = 0 then [(AF_INET \<lparr>sin_port = 0, s_addr = 0\<rparr>, 0)] else []) @
                (if family = 10 \<or> family = 0 then [(AF_INET6 \<lparr>sin6_port = 0, s6_addr = replicate 16 0\<rparr>, 0)] else []))
      else bnd (GetInterfaceAddress family is) (\<lambda>rs. Inr (map snd (filter (\<lambda>r. fst r = interface) rs))))"

subsection \<open>Host names\<close>

definition find_char :: "char \<Rightarrow> nat \<Rightarrow> string \<Rightarrow> nat option" where
  "find_char c pos s =
     (if pos \<le> length s \<and> c \<in> set (drop pos s) then Some (pos + length (takeWhile (\<lambda>x. x \<noteq> c) (drop pos s))) else None)"

fun find_sub :: "string \<Rightarrow> string \<Rightarrow> nat option" where
  "find_sub pat [] = (if pat = [] then Some 0 else None)"
| "find_sub pat (c # s) = (if take (length pat) (c # s) = pat then Some 0 else map_option Suc (find_sub pat s))"

text \<open>From \<open>pos\<close> to before \<open>stop\<close>, or to the end; the exception for a position past the end is caught by \<open>Lookup\<close>.\<close>

definition cut_text :: "nat \<Rightarrow> nat option \<Rightarrow> string \<Rightarrow> string option" where
  "cut_text pos stop s = (if pos > length s then None else Some (case stop of None \<Rightarrow> drop pos s | Some e \<Rightarrow> take (e - pos) (drop pos s)))"

text \<open>The service that follows a colon at \<open>pos - 1\<close>, up to the next slash, with its default and its limit.\<close>

definition service_at :: "string \<Rightarrow> nat \<Rightarrow> string \<Rightarrow> string option" where
  "service_at port pos s =
     (case cut_text pos (find_char (CHR ''/'') pos s) s of None \<Rightarrow> None
      | Some sv \<Rightarrow>
        let service = (if sv = [] then port else sv) in
        case stoull service of None \<Rightarrow> None | Some n \<Rightarrow> if n > 65535 then None else Some service)"

text \<open>
  What \<open>Lookup\<close> asks \<open>getaddrinfo\<close> for: name and service; \<open>None\<close> when it gives up before. \<open>url\<close> is the host and
  port the URL parser found, if it accepted the text.
\<close>

definition lookup_target :: "(string \<times> nat) option \<Rightarrow> nat \<Rightarrow> string \<Rightarrow> (string \<times> string) option" where
  "lookup_target url family host =
     (if host = [] then None
      else case url of
        Some (h, p) \<Rightarrow> Some (if h = [] then host else h, to_string_nat p)
      | None \<Rightarrow>
        let port = (if find_sub ''https://'' host \<noteq> None then ''443'' else ''80'');
            addr_start = (case find_sub ''://'' host of None \<Rightarrow> 0 | Some i \<Rightarrow> i + 3);
            isipv6nobracket = (count_list host (CHR '':'') \<ge> 2 \<and> CHR ''.'' \<notin> set host)
        in
        if family = 10 \<or> (addr_start < length host \<and> host ! addr_start = CHR ''['') \<or> isipv6nobracket then
          (case find_char (CHR ''['') 0 host of
             Some b \<Rightarrow>
               (case find_char (CHR '']'') 0 host of None \<Rightarrow> None
                | Some e \<Rightarrow>
                  if \<not> b < e then None
                  else
                    let bulk = take (e - b - 1) (drop (b + 1) host) in
                    if bulk = [] then None
                    else
                      (case (if e + 1 < length host \<and> host ! (e + 1) = CHR '':'' then service_at port (e + 2) host else Some port)
                       of None \<Rightarrow> None | Some sv \<Rightarrow> Some (bulk, sv)))
           | None \<Rightarrow> if isipv6nobracket \<and> addr_start < length host then Some (drop addr_start host, port) else None)
        else
          let addr_end = find_char (CHR '':'') addr_start host in
          (case cut_text addr_start addr_end host of None \<Rightarrow> None
           | Some bulk \<Rightarrow>
             if bulk = [] then None
             else (case addr_end of None \<Rightarrow> Some (bulk, port)
                   | Some e \<Rightarrow> (case service_at port (e + 1) host of None \<Rightarrow> None | Some sv \<Rightarrow> Some (bulk, sv)))))"

text \<open>\<open>getaddrinfo\<close> gives the addresses for a name and a service, or an error.\<close>

definition Lookup ::
  "(string \<Rightarrow> string \<Rightarrow> sock_addr list option) \<Rightarrow> (string \<times> nat) option \<Rightarrow> nat \<Rightarrow> string \<Rightarrow> sock_addr list option"
where
  "Lookup getaddrinfo url family host = (case lookup_target url family host of None \<Rightarrow> None | Some (b, s) \<Rightarrow> getaddrinfo b s)"

definition LookupAny ::
  "(string \<Rightarrow> string \<Rightarrow> sock_addr list option) \<Rightarrow> (string \<times> nat) option \<Rightarrow> nat \<Rightarrow> string \<Rightarrow> sock_addr option res"
where
  "LookupAny getaddrinfo url family host =
     (case Lookup getaddrinfo url family host of None \<Rightarrow> Inr None | Some [] \<Rightarrow> Inl OutOfBounds | Some (r # _) \<Rightarrow> Inr (Some r))"

fun is_ip :: "sock_addr \<Rightarrow> bool" where
  "is_ip (AF_OTHER _) = False"
| "is_ip _ = True"

definition LookupAnyIpAddress ::
  "(string \<Rightarrow> string \<Rightarrow> sock_addr list option) \<Rightarrow> (string \<times> nat) option \<Rightarrow> nat \<Rightarrow> string \<Rightarrow> sock_addr option"
where
  "LookupAnyIpAddress getaddrinfo url family host =
     (case Lookup getaddrinfo url family host of None \<Rightarrow> None | Some rs \<Rightarrow> find is_ip rs)"

subsection \<open>Laws of masks\<close>

lemma split_lowest:
  fixes x :: "'a::len word"
  assumes "x \<noteq> 0"
  obtains k where "bit x k" and "{i. bit (x AND (x - 1)) i} = {i. bit x i} - {k}"
proof -
  define k where "k = (LEAST i. bit x i)"
  have k: "bit x k" and low: "\<And>i. i < k \<Longrightarrow> \<not> bit x i"
    using assms unfolding k_def by (metis LeastI bit_eqI bit_0_eq bot_apply bot_bool_def, metis not_less_Least)
  have kl: "k < LENGTH('a)"
    using k by (rule bit_imp_le_length)
  define y where "y = x AND NOT (push_bit k 1)"
  have yb: "bit y i \<longleftrightarrow> bit x i \<and> i \<noteq> k" for i
    using kl by (auto simp: y_def bit_simps dest: bit_imp_le_length)
  have "x = y OR push_bit k 1"
    by (rule bit_word_eqI) (auto simp: bit_simps yb k)
  also have "\<dots> = y + push_bit k 1"
    by (rule disjunctive_add[symmetric]) (auto simp: bit_simps yb)
  finally have "x - 1 = y + (push_bit k 1 - 1)"
    by simp
  also have "push_bit k 1 - 1 = (mask k :: 'a word)"
    by (simp add: mask_eq_exp_minus_1 push_bit_eq_mult)
  also have "y + mask k = y OR mask k"
    by (rule disjunctive_add) (auto simp: bit_simps yb low)
  finally have m: "x - 1 = y OR mask k" .
  have "x AND (x - 1) = y"
    unfolding m by (rule bit_word_eqI) (auto simp: bit_simps yb low)
  then have "{i. bit (x AND (x - 1)) i} = {i. bit x i} - {k}"
    by (auto simp: yb)
  then show thesis
    using k that by blast
qed

lemma Count_one_card: "Count_one x = card {i. bit x i}"
proof (induction x rule: Count_one.induct)
  case (1 x)
  show ?case
  proof (cases "x = 0")
    case False
    then obtain k where k: "bit x k" "{i. bit (x AND (x - 1)) i} = {i. bit x i} - {k}"
      by (rule split_lowest)
    have "finite {i. bit x i}"
      by (rule finite_subset[of _ "{..<LENGTH('a)}"]) (auto dest: bit_imp_le_length)
    then have "Suc (card ({i. bit x i} - {k})) = card {i. bit x i}"
      using k(1) by (intro card_Suc_Diff1) simp_all
    then show ?thesis
      using 1 False k(2) by (subst Count_one.simps) simp
  qed (simp add: Count_one.simps)
qed

lemma CreateMask_mask: "0 < p \<Longrightarrow> p < LENGTH('a) \<Longrightarrow> (CreateMask p :: 'a::len word res) = Inr (mask (LENGTH('a) - p))"
  by (simp add: CreateMask_def mask_eq_exp_minus_1 push_bit_eq_mult)

text \<open>Swapping permutes the bits.\<close>

lemma bit_bitswap:
  fixes v :: "'a::len word"
  assumes "8 dvd LENGTH('a)"
  shows "bit (bitswap v) i \<longleftrightarrow> i < LENGTH('a) \<and> bit v (8 * (LENGTH('a) div 8 - Suc (i div 8)) + i mod 8)"
proof (cases "i < LENGTH('a)")
  case True
  then have "i div 8 < LENGTH('a) div 8"
    using assms by auto
  then show ?thesis
    using True by (simp add: bitswap_def bit_le_word rev_nth bit_le_bytes)
qed (auto dest: bit_imp_le_length)

lemma hTon_bits:
  fixes a b :: "'a::len word"
  assumes "8 dvd LENGTH('a)"
  shows "hTon host (a OR b) = hTon host a OR hTon host b" and "hTon host (a AND b) = hTon host a AND hTon host b"
    and "hTon host (NOT a) = NOT (hTon host a)" and "hTon host (hTon host a) = a"
proof -
  have r: "8 * (LENGTH('a) div 8 - Suc (i div 8)) + i mod 8 < LENGTH('a)" if "i < LENGTH('a)" for i
    using that assms by auto
  show "hTon host (a OR b) = hTon host a OR hTon host b" "hTon host (a AND b) = hTon host a AND hTon host b"
    "hTon host (NOT a) = NOT (hTon host a)"
    by (rule bit_word_eqI, auto simp: hTon_def bit_bitswap[OF assms] bit_simps r)+
  show "hTon host (hTon host a) = a"
    using assms by (simp add: hTon_def bitswap_bitswap)
qed

subsection \<open>Prefixes\<close>

text \<open>The address as a number.\<close>

definition ip_number :: "endian \<Rightarrow> IPv4Address \<Rightarrow> 32 word" where
  "ip_number host a = hTon host (s_addr a)"



lemma mask_low_byte: "p < 8 \<Longrightarrow> (ucast (mask (32 - p) :: 32 word) :: byte) = 0xff" "p < 8 \<Longrightarrow> (ucast (NOT (mask (32 - p) :: 32 word)) :: byte) = 0"
proof -
  assume p: "p < 8"
  have ff: "(0xff :: byte) = mask 8"
    by (simp add: mask_eq_exp_minus_1)
  show "(ucast (mask (32 - p) :: 32 word) :: byte) = 0xff" "(ucast (NOT (mask (32 - p) :: 32 word)) :: byte) = 0"
    unfolding ff using p by (auto intro!: bit_word_eqI simp: bit_simps)
qed

text \<open>The addresses of an IPv6 prefix are those of the prefix cut to whole bytes: the mask for the byte
  the prefix ends in is made for 32 bits, so its low byte is all ones. A prefix of 60 bits gives the network
  and broadcast address of 56. Only for multiples of 8 are they what was asked for.\<close>

theorem ipv6_prefix_rounds_down:
  assumes "p < 128" and "length (s6_addr a) = 16"
  shows "ipv6_networkAddress p a = ipv6_networkAddress (8 * (p div 8)) a \<and>
    ipv6_broadcastAddress p a = ipv6_broadcastAddress (8 * (p div 8)) a \<and> ipv6_subnetMask p = ipv6_subnetMask (8 * (p div 8)) \<and>
    ipv6_networkAddress (8 * (p div 8)) a = Inr (Some (a\<lparr>s6_addr := take (p div 8) (s6_addr a) @ replicate (16 - p div 8) 0\<rparr>))"
proof -
  let ?q = "p div 8"
  have q: "?q < 16" "8 * ?q < 128"
    using assms(1) by auto
  have c: "(CreateMask (p mod 8) :: 32 word res) = Inr (mask (32 - p mod 8))" if "0 < p mod 8"
    using CreateMask_mask[where 'a = 32, of "p mod 8"] that by (simp add: less_trans[OF mod_less_divisor])
  have low: "(ucast (mask (32 - p mod 8) :: 32 word) :: byte) = 0xff" "(ucast (NOT (mask (32 - p mod 8) :: 32 word)) :: byte) = 0"
    by (simp_all add: mask_low_byte)
  have fill: "fill_from (Suc ?q) v ((s6_addr a)[?q := v]) = fill_from ?q v (s6_addr a)" for v
    using q assms(2) by (simp add: fill_from_def take_Suc_conv_app_nth take_update_cancel Suc_diff_Suc flip: replicate_Suc)
  have rep: "(replicate ?q v @ replicate (16 - ?q) w)[?q := w] = replicate ?q v @ replicate (16 - ?q) w" for v w :: byte
    using q by (cases "16 - ?q") (simp_all add: list_update_append)
  have m8: "(0xff :: byte) = mask 8"
    by (simp add: mask_eq_exp_minus_1)
  have ff: "x OR 0xff = 0xff" for x :: byte
    unfolding m8 by (rule bit_word_eqI) (auto simp: bit_simps)
  show ?thesis
    using assms(1) q c low fill rep ff
    by (cases "0 < p mod 8") (simp_all add: ipv6_networkAddress_def ipv6_broadcastAddress_def ipv6_subnetMask_def Let_def fill_from_def)
qed

theorem ipv6_prefix_rounds_down_witness:
  "ipv6_networkAddress 60 (ipv6_new Little (replicate 16 0xAB) 80) = ipv6_networkAddress 56 (ipv6_new Little (replicate 16 0xAB) 80)"
  using ipv6_prefix_rounds_down[of 60 "ipv6_new Little (replicate 16 0xAB) 80"] by (simp add: ipv6_new_def)

subsection \<open>The order of addresses\<close>

abbreviation byte_less :: "byte rel" where
  "byte_less \<equiv> {(x, y). x < y}"

lemma memcmp_bytes_min:
  "(memcmp_bytes (take (length b) a) (take (length a) b) < 0 \<or>
    memcmp_bytes (take (length b) a) (take (length a) b) = 0 \<and> length a < length b) \<longleftrightarrow> (a, b) \<in> lexord byte_less"
  by (induction a b rule: memcmp_bytes.induct) (auto simp: neq_Nil_conv)

lemma memcmp_bytes_eq: "length a = length b \<Longrightarrow> memcmp_bytes a b = 0 \<longleftrightarrow> a = b"
  by (induction a b rule: list_induct2) auto

text \<open>Addresses are ordered as their bytes are, lexicographically, which is a strict total order; equality
  is equality of the bytes, except that comparing an address with a shorter one reads past the end of
  the shorter.\<close>

theorem address_order:
  "address_less a b = Inr ((a, b) \<in> lexord byte_less) \<and>
   \<not> ((a, a) \<in> lexord byte_less) \<and> (a \<noteq> b \<longrightarrow> (a, b) \<in> lexord byte_less \<or> (b, a) \<in> lexord byte_less) \<and>
   address_eq a b = (if length b < length a then Inl OutOfBounds else Inr (a = b))"
proof (intro conjI impI)
  have "take (min (length a) (length b)) a = take (length b) a" "take (min (length a) (length b)) b = take (length a) b"
    by (simp_all add: min_def)
  then show "address_less a b = Inr ((a, b) \<in> lexord byte_less)"
    using memcmp_bytes_min[of b a] by (auto simp: address_less_def memcmp_def)
  show "(a, a) \<notin> lexord byte_less"
    by (rule lexord_irreflexive) simp
  show "(a, b) \<in> lexord byte_less \<or> (b, a) \<in> lexord byte_less" if "a \<noteq> b"
  proof -
    have "\<forall>x y. (x, y) \<in> byte_less \<or> x = y \<or> (y, x) \<in> byte_less"
      by auto
    then show ?thesis
      using that lexord_linear by blast
  qed
  show "address_eq a b = (if length b < length a then Inl OutOfBounds else Inr (a = b))"
    using memcmp_bytes_eq[of a "take (length a) b"] by (auto simp: address_eq_def memcmp_def)
qed

theorem address_order_witness: "address_less [1, 2] [1, 3] = Inr True"
  using address_order[of "[1, 2]" "[1, 3]"] by (simp add: lexord_cons_cons)

subsection \<open>Text\<close>

lemma takeWhile_NUL: "NUL \<notin> set path \<Longrightarrow> takeWhile (\<lambda>c. c \<noteq> NUL) (path @ NUL # cs) = path"
  by (induction path) auto

text \<open>A Unix address made from a path prints as that path, if the path is not empty, has no NUL character and
  fits; a longer path is an exception.\<close>

theorem unix_path_roundtrip:
  "if length path > 107 \<and> NUL \<notin> set path then unix_new path = Inl UncaughtException
   else path \<noteq> [] \<and> NUL \<notin> set path \<longrightarrow> (\<exists>a. unix_new path = Inr a \<and> unix_insert a = path)"
proof -
  have h: "hd path \<noteq> NUL" if "path \<noteq> []" "NUL \<notin> set path"
    using that by (cases path) auto
  have "unix_insert \<lparr>sun_path = take 108 (path @ NUL # replicate 108 NUL), m_length = Suc (Suc (Suc (length path)))\<rparr> = path"
    if p: "path \<noteq> []" "NUL \<notin> set path" "length path \<le> 107"
  proof -
    have "take 108 (path @ NUL # replicate 108 NUL) = path @ NUL # replicate (107 - length path) NUL"
      using p(3) by (simp add: take_Cons' min_def)
    moreover have "hd (path @ cs) \<noteq> NUL" for cs
      using p h by simp
    ultimately show ?thesis
      using p(2) by (simp add: unix_insert_def takeWhile_NUL)
  qed
  then show ?thesis
    using h by (auto simp: unix_new_def Let_def)
qed

theorem unix_path_roundtrip_witness: "\<exists>a. unix_new ''/tmp/s'' = Inr a \<and> unix_insert a = ''/tmp/s''"
  using unix_path_roundtrip[of "''/tmp/s''"] by (simp add: NUL_def)

subsection \<open>Host and service\<close>

lemma find_sub_none: "c \<in> set pat \<Longrightarrow> c \<notin> set s \<Longrightarrow> find_sub pat s = None"
proof (induction s)
  case (Cons x s)
  have "take (length pat) (x # s) \<noteq> pat"
    using Cons.prems by (metis in_set_takeD)
  then show ?case
    using Cons by auto
qed auto

lemma find_char_append: "c \<notin> set s \<Longrightarrow> find_char c 0 (s @ c # t) = Some (length s)"
  by (induction s) (auto simp: find_char_def)

text \<open>When the URL parser does not take the text, a name with a port after a colon is split into the two, and a bare name gets port 80; but
  a name that is followed by a path and no port is looked up with the path in it.\<close>

theorem lookup_splits:
  assumes "name \<noteq> []" and "CHR '':'' \<notin> set name" and "CHR ''/'' \<notin> set name" and "CHR ''['' \<notin> set name" and "n \<le> 65535"
    and "CHR '':'' \<notin> set path"
  shows "lookup_target None 0 (name @ '':'' @ to_string_nat n) = Some (name, to_string_nat n) \<and>
    lookup_target None 0 name = Some (name, ''80'') \<and> lookup_target None 0 (name @ ''/'' @ path) = Some (name @ ''/'' @ path, ''80'')"
proof -
  have nd: "\<not> isdigit (CHR ''/'')" "\<not> isdigit (CHR '':'')"
    by (simp_all add: isdigit_def)
  then have d: "CHR ''/'' \<notin> set (to_string_nat n)" "CHR '':'' \<notin> set (to_string_nat n)"
    using to_string_nat_digits by blast+
  have hd: "(name @ t) ! 0 \<noteq> CHR ''[''" for t
    using assms(1,4) by (cases name) auto
  let ?h = "name @ '':'' @ to_string_nat n"
  have "stoull (to_string (int n)) = Some n"
    using assms(5) by (simp add: stoull_def)
  then have "stoull (to_string_nat n) = Some n"
    by (simp add: to_string_def)
  then have sv: "service_at ''80'' (Suc (length name)) ?h = Some (to_string_nat n)"
    using assms(5) d by (simp add: service_at_def cut_text_def find_char_def)
  have "find_sub ''://'' ?h = None" "find_sub ''https://'' ?h = None"
    using d assms(3) by (auto intro!: find_sub_none[where c = "CHR ''/''"])
  moreover have "count_list ?h (CHR '':'') = 1"
    using assms(2) d by (simp add: count_list_0_iff)
  ultimately have 1: "lookup_target None 0 ?h = Some (name, to_string_nat n)"
    using assms(1) sv hd find_char_append[OF assms(2), of "to_string_nat n"] by (simp add: lookup_target_def cut_text_def Let_def)
  have "lookup_target None 0 (name @ t) = Some (name @ t, ''80'')" if t: "CHR '':'' \<notin> set t" for t
  proof -
    have "find_sub ''://'' (name @ t) = None" "find_sub ''https://'' (name @ t) = None"
      using t assms(2) by (auto intro!: find_sub_none[where c = "CHR '':''"])
    moreover have "count_list (name @ t) (CHR '':'') = 0" "find_char (CHR '':'') 0 (name @ t) = None"
      using t assms(2) by (simp_all add: count_list_0_iff find_char_def)
    ultimately show ?thesis
      using assms(1) hd by (simp add: lookup_target_def cut_text_def Let_def)
  qed
  from this[of "[]"] this[of "''/'' @ path"] 1 show ?thesis
    using assms(6) by simp
qed

theorem lookup_splits_witness: "lookup_target None 0 (''a.b:'' @ to_string_nat 6379) = Some (''a.b'', to_string_nat 6379)"
  using lookup_splits[of "''a.b''" 6379 "[]"] by simp

end
