(* ===== verification/Http.thy ===== *)
theory Http
  imports Prelude "HOL-Library.List_Lexorder"
begin

text \<open>
  HTTP messages, \<open>src/src/http/http.{h,cpp}\<close>: the tables of methods and status codes and their conversions, the maps of
  fields that do not distinguish upper and lower case, requests, responses and their text. An enumeration is
  its number, since the code casts numbers to it. Compression is a library.
\<close>

subsection \<open>C strings\<close>

definition c_str :: "string \<Rightarrow> string" where
  "c_str s = takeWhile (\<lambda>c. c \<noteq> CHR 0x00) s"

text \<open>The sign of \<open>strcasecmp\<close>.\<close>

fun casecmp :: "string \<Rightarrow> string \<Rightarrow> int" where
  "casecmp [] [] = 0"
| "casecmp [] (y # ys) = -1"
| "casecmp (x # xs) [] = 1"
| "casecmp (x # xs) (y # ys) =
     (let a = (of_char (to_lower x) :: nat); b = of_char (to_lower y) in if a < b then -1 else if b < a then 1 else casecmp xs ys)"

definition strcasecmp :: "string \<Rightarrow> string \<Rightarrow> int" where
  "strcasecmp a b = casecmp (c_str a) (c_str b)"

definition SpaceToUnderLine :: "string \<Rightarrow> string" where
  "SpaceToUnderLine s = map (\<lambda>ch. if ch = CHR '' '' then CHR ''_'' else ch) s"

definition UnderLineToSapce :: "string \<Rightarrow> string" where
  "UnderLineToSapce s = map (\<lambda>ch. if ch = CHR ''_'' then CHR '' '' else ch) s"

subsection \<open>Methods and status codes\<close>

type_synonym HttpMethod = nat
type_synonym HttpStatus = nat

definition s_methods :: "string list" where
  "s_methods = [
   ''DELETE'', ''GET'', ''HEAD'', ''POST'', ''PUT'', ''CONNECT'', ''OPTIONS'', ''TRACE'', ''COPY'', ''LOCK'',
    ''MKCOL'', ''MOVE'', ''PROPFIND'', ''PROPPATCH'', ''SEARCH'', ''UNLOCK'', ''BIND'', ''REBIND'', ''UNBIND'',
    ''ACL'', ''REPORT'', ''MKACTIVITY'', ''CHECKOUT'', ''MERGE'', ''M - SEARCH'', ''NOTIFY'', ''SUBSCRIBE'',
    ''UNSUBSCRIBE'', ''PATCH'', ''PURGE'', ''MKCALENDAR'', ''LINK'', ''UNLINK'', ''SOURCE'', ''PRI'', ''DESCRIBE'',
    ''ANNOUNCE'', ''SETUP'', ''PLAY'', ''PAUSE'', ''TEARDOWN'', ''GET_PARAMETER'', ''SET_PARAMETER'', ''REDIRECT'',
    ''RECORD'', ''FLUSH'', ''QUERY'']"

definition status_map :: "(HttpStatus \<times> string) list" where
  "status_map = [
   (100, ''CONTINUE''), (101, ''SWITCHING_PROTOCOLS''), (102, ''PROCESSING''), (103, ''EARLY_HINTS''),
    (110, ''RESPONSE_IS_STALE''), (111, ''REVALIDATION_FAILED''), (112, ''DISCONNECTED_OPERATION''),
    (113, ''HEURISTIC_EXPIRATION''), (199, ''MISCELLANEOUS_WARNING''), (200, ''OK''), (201, ''CREATED''),
    (202, ''ACCEPTED''), (203, ''NON_AUTHORITATIVE_INFORMATION''), (204, ''NO_CONTENT''), (205, ''RESET_CONTENT''),
    (206, ''PARTIAL_CONTENT''), (207, ''MULTI_STATUS''), (208, ''ALREADY_REPORTED''),
    (214, ''TRANSFORMATION_APPLIED''), (226, ''IM_USED''), (299, ''MISCELLANEOUS_PERSISTENT_WARNING''),
    (300, ''MULTIPLE_CHOICES''), (301, ''MOVED_PERMANENTLY''), (302, ''FOUND''), (303, ''SEE_OTHER''),
    (304, ''NOT_MODIFIED''), (305, ''USE_PROXY''), (306, ''SWITCH_PROXY''), (307, ''TEMPORARY_REDIRECT''),
    (308, ''PERMANENT_REDIRECT''), (400, ''BAD_REQUEST''), (401, ''UNAUTHORIZED''), (402, ''PAYMENT_REQUIRED''),
    (403, ''FORBIDDEN''), (404, ''NOT_FOUND''), (405, ''METHOD_NOT_ALLOWED''), (406, ''NOT_ACCEPTABLE''),
    (407, ''PROXY_AUTHENTICATION_REQUIRED''), (408, ''REQUEST_TIMEOUT''), (409, ''CONFLICT''), (410, ''GONE''),
    (411, ''LENGTH_REQUIRED''), (412, ''PRECONDITION_FAILED''), (413, ''PAYLOAD_TOO_LARGE''),
    (414, ''URI_TOO_LONG''), (415, ''UNSUPPORTED_MEDIA_TYPE''), (416, ''RANGE_NOT_SATISFIABLE''),
    (417, ''EXPECTATION_FAILED''), (418, ''IM_A_TEAPOT''), (419, ''PAGE_EXPIRED''), (420, ''ENHANCE_YOUR_CALM''),
    (421, ''MISDIRECTED_REQUEST''), (422, ''UNPROCESSABLE_ENTITY''), (423, ''LOCKED''), (424, ''FAILED_DEPENDENCY''),
    (425, ''TOO_EARLY''), (426, ''UPGRADE_REQUIRED''), (428, ''PRECONDITION_REQUIRED''),
    (429, ''TOO_MANY_REQUESTS''), (430, ''REQUEST_HEADER_FIELDS_TOO_LARGE_UNOFFICIAL''),
    (431, ''REQUEST_HEADER_FIELDS_TOO_LARGE''), (440, ''LOGIN_TIMEOUT''), (444, ''NO_RESPONSE''),
    (449, ''RETRY_WITH''), (450, ''BLOCKED_BY_PARENTAL_CONTROL''), (451, ''UNAVAILABLE_FOR_LEGAL_REASONS''),
    (460, ''CLIENT_CLOSED_LOAD_BALANCED_REQUEST''), (463, ''INVALID_X_FORWARDED_FOR''),
    (494, ''REQUEST_HEADER_TOO_LARGE''), (495, ''SSL_CERTIFICATE_ERROR''), (496, ''SSL_CERTIFICATE_REQUIRED''),
    (497, ''HTTP_REQUEST_SENT_TO_HTTPS_PORT''), (498, ''INVALID_TOKEN''), (499, ''CLIENT_CLOSED_REQUEST''),
    (500, ''INTERNAL_SERVER_ERROR''), (501, ''NOT_IMPLEMENTED''), (502, ''BAD_GATEWAY''),
    (503, ''SERVICE_UNAVAILABLE''), (504, ''GATEWAY_TIMEOUT''), (505, ''HTTP_VERSION_NOT_SUPPORTED''),
    (506, ''VARIANT_ALSO_NEGOTIATES''), (507, ''INSUFFICIENT_STORAGE''), (508, ''LOOP_DETECTED''),
    (509, ''BANDWIDTH_LIMIT_EXCEEDED''), (510, ''NOT_EXTENDED''), (511, ''NETWORK_AUTHENTICATION_REQUIRED''),
    (520, ''WEB_SERVER_UNKNOWN_ERROR''), (521, ''WEB_SERVER_IS_DOWN''), (522, ''CONNECTION_TIMEOUT''),
    (523, ''ORIGIN_IS_UNREACHABLE''), (524, ''TIMEOUT_OCCURED''), (525, ''SSL_HANDSHAKE_FAILED''),
    (526, ''INVALID_SSL_CERTIFICATE''), (527, ''RAILGUN_ERROR''), (529, ''SITE_IS_OVERLOADED''),
    (530, ''SITE_IS_FROZEN''), (561, ''IDENTITY_PROVIDER_AUTHENTICATION_ERROR''), (598, ''NETWORK_READ_TIMEOUT''),
    (599, ''NETWORK_CONNECT_TIMEOUT'')]"

definition INVAILD_METHOD :: HttpMethod where "INVAILD_METHOD = 47"
definition INVAILD_STATUS :: HttpStatus where "INVAILD_STATUS = 600"

definition StringToHttpMethod :: "string \<Rightarrow> HttpMethod" where
  "StringToHttpMethod ht =
     (let tem = SpaceToUnderLine (c_str ht) in
      case find (\<lambda>(i, s). s = tem) (enumerate 0 s_methods) of Some (i, _) \<Rightarrow> i | None \<Rightarrow> INVAILD_METHOD)"

definition CharsToHttpMethod :: "string \<Rightarrow> HttpMethod" where
  "CharsToHttpMethod ht =
     (let tem = SpaceToUnderLine ht in
      case find (\<lambda>(i, s). s = tem) (enumerate 0 s_methods) of Some (i, _) \<Rightarrow> i | None \<Rightarrow> INVAILD_METHOD)"

definition HttpMethodToChars :: "HttpMethod \<Rightarrow> string" where
  "HttpMethodToChars ht = (if ht \<ge> length s_methods then ''<unknow>'' else UnderLineToSapce (s_methods ! ht))"

definition StringToHttpStatus :: "string \<Rightarrow> HttpStatus" where
  "StringToHttpStatus ht =
     (let tem = SpaceToUnderLine (c_str ht) in
      case find (\<lambda>(i, s). strcasecmp s tem = 0) status_map of Some (i, _) \<Rightarrow> i | None \<Rightarrow> INVAILD_STATUS)"

text \<open>The test of the other conversion has no comparison with 0.\<close>

definition CharsToHttpStatus :: "string \<Rightarrow> HttpStatus" where
  "CharsToHttpStatus ht =
     (let tem = SpaceToUnderLine ht in
      case find (\<lambda>(i, s). strcasecmp s tem \<noteq> 0) status_map of Some (i, _) \<Rightarrow> i | None \<Rightarrow> INVAILD_STATUS)"

definition HttpStatusToChars :: "HttpStatus \<Rightarrow> string" where
  "HttpStatusToChars ht = (case map_of status_map ht of Some m \<Rightarrow> UnderLineToSapce m | None \<Rightarrow> ''<unknow>'')"

subsection \<open>Fields\<close>

text \<open>A \<open>std::map\<close> ordered by \<open>strcasecmp\<close>: the sorted list of its pairs.\<close>

type_synonym MapType = "(string \<times> string) list"

definition CompareInsensitiveLess :: "string \<Rightarrow> string \<Rightarrow> bool" where
  "CompareInsensitiveLess lhs rhs \<longleftrightarrow> strcasecmp lhs rhs < 0"

fun fields_find :: "MapType \<Rightarrow> string \<Rightarrow> string option" where
  "fields_find [] key = None"
| "fields_find ((k, v) # m) key =
     (if CompareInsensitiveLess k key then fields_find m key else if CompareInsensitiveLess key k then None else Some v)"

fun fields_set :: "string \<Rightarrow> string \<Rightarrow> MapType \<Rightarrow> MapType" where
  "fields_set key val [] = [(key, val)]"
| "fields_set key val ((k, v) # m) =
     (if CompareInsensitiveLess k key then (k, v) # fields_set key val m
      else if CompareInsensitiveLess key k then (key, val) # (k, v) # m else (k, val) # m)"

fun fields_erase :: "string \<Rightarrow> MapType \<Rightarrow> MapType" where
  "fields_erase key [] = []"
| "fields_erase key ((k, v) # m) =
     (if CompareInsensitiveLess k key then (k, v) # fields_erase key m
      else if CompareInsensitiveLess key k then (k, v) # m else m)"

definition fields_get :: "string \<Rightarrow> string \<Rightarrow> MapType \<Rightarrow> string" where
  "fields_get key def m = (case fields_find m key of None \<Rightarrow> def | Some v \<Rightarrow> v)"

text \<open>\<open>lexical_cast\<close> is the argument \<open>cast\<close>; \<open>None\<close> is an exception.\<close>

definition CheckGetAs :: "(string \<Rightarrow> 'a option) \<Rightarrow> MapType \<Rightarrow> string \<Rightarrow> 'a \<Rightarrow> bool \<times> 'a" where
  "CheckGetAs cast m key def =
     (case fields_find m key of None \<Rightarrow> (False, def)
      | Some s \<Rightarrow> (case cast s of Some v \<Rightarrow> (True, v) | None \<Rightarrow> (False, def)))"

definition GetAs :: "(string \<Rightarrow> 'a option) \<Rightarrow> MapType \<Rightarrow> string \<Rightarrow> 'a \<Rightarrow> 'a" where
  "GetAs cast m key def =
     (case fields_find m key of None \<Rightarrow> def | Some s \<Rightarrow> (case cast s of Some v \<Rightarrow> v | None \<Rightarrow> def))"

subsection \<open>Requests\<close>

record HttpRequest =
  q_method :: HttpMethod
  q_version :: nat
  q_keepAlive :: bool
  q_scheme :: string
  q_path :: string
  q_query :: string
  q_fragment :: string
  q_body :: string
  q_header :: MapType
  q_param :: MapType
  q_cookie :: MapType

definition request_new :: "nat \<Rightarrow> bool \<Rightarrow> HttpRequest" where
  "request_new version keepAlive =
     \<lparr>q_method = 1, q_version = version, q_keepAlive = keepAlive, q_scheme = ''http'', q_path = ''/'', q_query = [], q_fragment = [],
      q_body = [], q_header = [], q_param = [], q_cookie = []\<rparr>"

definition request_getHeader :: "string \<Rightarrow> string \<Rightarrow> HttpRequest \<Rightarrow> string" where
  "request_getHeader key def r = fields_get key def (q_header r)"

definition getParam :: "string \<Rightarrow> string \<Rightarrow> HttpRequest \<Rightarrow> string" where
  "getParam key def r = fields_get key def (q_param r)"

definition getCookie :: "string \<Rightarrow> string \<Rightarrow> HttpRequest \<Rightarrow> string" where
  "getCookie key def r = fields_get key def (q_cookie r)"

definition request_setHeader :: "string \<Rightarrow> string \<Rightarrow> HttpRequest \<Rightarrow> HttpRequest" where
  "request_setHeader key val r = r\<lparr>q_header := fields_set key val (q_header r)\<rparr>"

definition setParam :: "string \<Rightarrow> string \<Rightarrow> HttpRequest \<Rightarrow> HttpRequest" where
  "setParam key val r = r\<lparr>q_param := fields_set key val (q_param r)\<rparr>"

definition setCookie :: "string \<Rightarrow> string \<Rightarrow> HttpRequest \<Rightarrow> HttpRequest" where
  "setCookie key val r = r\<lparr>q_cookie := fields_set key val (q_cookie r)\<rparr>"

definition request_delHeader :: "string \<Rightarrow> HttpRequest \<Rightarrow> HttpRequest" where
  "request_delHeader key r = r\<lparr>q_header := fields_erase key (q_header r)\<rparr>"

definition delParam :: "string \<Rightarrow> HttpRequest \<Rightarrow> HttpRequest" where
  "delParam key r = r\<lparr>q_param := fields_erase key (q_param r)\<rparr>"

definition delCookie :: "string \<Rightarrow> HttpRequest \<Rightarrow> HttpRequest" where
  "delCookie key r = r\<lparr>q_cookie := fields_erase key (q_cookie r)\<rparr>"

text \<open>The result is stored through a pointer that is null by default; \<open>given\<close> says that it is not.\<close>

definition fields_has :: "bool \<Rightarrow> string \<Rightarrow> MapType \<Rightarrow> string option res" where
  "fields_has given key m = (case fields_find m key of None \<Rightarrow> Inr None | Some v \<Rightarrow> if given then Inr (Some v) else Inl NullDereference)"

definition hasHeader :: "bool \<Rightarrow> string \<Rightarrow> HttpRequest \<Rightarrow> string option res" where
  "hasHeader given key r = fields_has given key (q_header r)"

definition hasParam :: "bool \<Rightarrow> string \<Rightarrow> HttpRequest \<Rightarrow> string option res" where
  "hasParam given key r = fields_has given key (q_param r)"

definition hasCookie :: "bool \<Rightarrow> string \<Rightarrow> HttpRequest \<Rightarrow> string option res" where
  "hasCookie given key r = fields_has given key (q_cookie r)"

definition request_reset :: "HttpRequest \<Rightarrow> HttpRequest" where
  "request_reset r =
     \<lparr>q_method = 1, q_version = 0x11, q_keepAlive = True, q_scheme = [], q_path = [], q_query = [], q_fragment = [],
      q_body = [], q_header = [], q_param = [], q_cookie = []\<rparr>"

definition versionToStr :: "nat \<Rightarrow> string" where
  "versionToStr v = to_string_nat (v div 16) @ ''.'' @ to_string_nat (v mod 16)"

text \<open>The lines of the fields: all but \<open>Connection\<close>, which is written from the flag.\<close>

definition dump_fields :: "MapType \<Rightarrow> bool \<Rightarrow> string" where
  "dump_fields m keepAlive =
     concat (map (\<lambda>(k, v). k @ '': '' @ v @ [CR, LF]) (filter (\<lambda>(k, v). strcasecmp k ''connection'' \<noteq> 0) m)) @
     ''Connection: '' @ (if keepAlive then ''keep-alive'' else ''close'') @ [CR, LF] @ [CR, LF]"

definition request_toString :: "HttpRequest \<Rightarrow> string" where
  "request_toString r =
     HttpMethodToChars (q_method r) @ '' '' @ q_path r @ (if q_query r = [] then [] else ''?'') @ q_query r @
     (if q_fragment r = [] then [] else ''#'') @ q_fragment r @ '' HTTP/'' @ to_string_nat (q_version r div 16) @ ''.'' @
     to_string_nat (q_version r mod 16) @ [CR, LF] @ dump_fields (q_header r) (q_keepAlive r) @ q_body r"

subsection \<open>Responses\<close>

record HttpResponse =
  p_status :: HttpStatus
  p_version :: nat
  p_keepAlive :: bool
  p_body :: string
  p_reason :: string
  p_header :: MapType

definition response_new :: "nat \<Rightarrow> bool \<Rightarrow> HttpResponse" where
  "response_new version keepAlive =
     \<lparr>p_status = 200, p_version = version, p_keepAlive = keepAlive, p_body = [], p_reason = [], p_header = []\<rparr>"

definition response_getHeader :: "string \<Rightarrow> string \<Rightarrow> HttpResponse \<Rightarrow> string" where
  "response_getHeader key def r = fields_get key def (p_header r)"

definition response_setHeader :: "string \<Rightarrow> string \<Rightarrow> HttpResponse \<Rightarrow> HttpResponse" where
  "response_setHeader key val r = r\<lparr>p_header := fields_set key val (p_header r)\<rparr>"

definition response_delHeader :: "string \<Rightarrow> HttpResponse \<Rightarrow> HttpResponse" where
  "response_delHeader key r = r\<lparr>p_header := fields_erase key (p_header r)\<rparr>"

definition response_toString :: "HttpResponse \<Rightarrow> string" where
  "response_toString r =
     ''HTTP/'' @ to_string_nat (p_version r div 16) @ ''.'' @ to_string_nat (p_version r mod 16) @ '' '' @
     to_string_nat (p_status r) @ '' '' @ (if p_reason r = [] then HttpStatusToChars (p_status r) else p_reason r) @ [CR, LF] @
     dump_fields (p_header r) (p_keepAlive r) @ p_body r"

definition response_reset :: "HttpResponse \<Rightarrow> HttpResponse" where
  "response_reset r = \<lparr>p_status = 200, p_version = 0x11, p_keepAlive = True, p_body = [], p_reason = [], p_header = []\<rparr>"

subsection \<open>The order of the fields\<close>

text \<open>What the comparison sees of a name.\<close>

definition fkey :: "string \<Rightarrow> nat list" where
  "fkey s = map (\<lambda>c. of_char (to_lower c)) (c_str s)"

lemma casecmp_less: "casecmp a b < 0 \<longleftrightarrow> map (\<lambda>c. of_char (to_lower c) :: nat) a < map (\<lambda>c. of_char (to_lower c)) b"
  by (induction a b rule: casecmp.induct) (simp_all add: Let_def del: of_char_eq_iff)

lemma casecmp_0: "casecmp a b = 0 \<longleftrightarrow> map (\<lambda>c. of_char (to_lower c) :: nat) a = map (\<lambda>c. of_char (to_lower c)) b"
  by (induction a b rule: casecmp.induct) (simp_all add: Let_def del: of_char_eq_iff)

lemma less_fkey [simp]: "CompareInsensitiveLess a b \<longleftrightarrow> fkey a < fkey b"
  by (simp add: CompareInsensitiveLess_def strcasecmp_def casecmp_less fkey_def)

lemma strcasecmp_0: "strcasecmp a b = 0 \<longleftrightarrow> fkey a = fkey b"
  by (simp add: strcasecmp_def casecmp_0 fkey_def)

definition fields_ok :: "MapType \<Rightarrow> bool" where
  "fields_ok m \<longleftrightarrow> sorted_wrt (<) (map (fkey \<circ> fst) m)"

lemma fields_ok_simps [simp]:
  "fields_ok []" "fields_ok ((k, v) # m) \<longleftrightarrow> (\<forall>p\<in>set m. fkey k < fkey (fst p)) \<and> fields_ok m"
  by (auto simp: fields_ok_def)

text \<open>The map of a sorted list.\<close>

abbreviation fields_map :: "MapType \<Rightarrow> nat list \<rightharpoonup> string" where
  "fields_map m \<equiv> map_of (map (\<lambda>(k, v). (fkey k, v)) m)"

lemma fields_map_none: "\<forall>p\<in>set m. x < fkey (fst p) \<Longrightarrow> fields_map m x = None"
  by (induction m) auto

lemma fields_find_map: "fields_ok m \<Longrightarrow> fields_find m k = fields_map m (fkey k)"
proof (induction m)
  case (Cons p m)
  obtain k' v' where p: "p = (k', v')" by (cases p)
  have "fields_map m (fkey k) = None" if "fkey k < fkey k'"
    using that Cons.prems p by (intro fields_map_none) auto
  then show ?case
    using Cons p by auto
qed simp

lemma fields_set_mem: "q \<in> set (fields_set k v m) \<Longrightarrow> fkey (fst q) = fkey k \<or> (\<exists>p\<in>set m. fst p = fst q)"
  by (induction m) (auto split: if_splits)

lemma fields_set_ok: "fields_ok m \<Longrightarrow> fields_ok (fields_set k v m)"
proof (induction m)
  case (Cons p m)
  obtain k' v' where p: "p = (k', v')" by (cases p)
  have "fkey k' < fkey (fst q)" if "q \<in> set (fields_set k v m)" "fkey k' < fkey k" for q
    using fields_set_mem[OF that(1)] that(2) Cons.prems p by (metis fields_ok_simps(2))
  then show ?case
    using Cons p by auto
qed simp

lemma fields_map_set: "fields_ok m \<Longrightarrow> fields_map (fields_set k v m) = (fields_map m)(fkey k \<mapsto> v)"
  by (induction m) (auto simp: fun_eq_iff)

lemma fields_erase_mem: "q \<in> set (fields_erase k m) \<Longrightarrow> q \<in> set m"
  by (induction m) (auto split: if_splits)

lemma fields_erase_ok: "fields_ok m \<Longrightarrow> fields_ok (fields_erase k m)"
  by (induction m) (fastforce dest: fields_erase_mem)+

lemma fields_map_erase: "fields_ok m \<Longrightarrow> fields_map (fields_erase k m) = (fields_map m)(fkey k := None)"
proof (induction m)
  case (Cons p m)
  obtain k' v' where p: "p = (k', v')" by (cases p)
  have "fields_map m (fkey k) = None" if "fkey k \<le> fkey k'"
    using that Cons.prems p by (intro fields_map_none) auto
  then show ?case
    using Cons p by (auto simp: fun_eq_iff)
qed simp

subsection \<open>The fields of a message\<close>

text \<open>What the rest of the code relies on in the headers, parameters and cookies of a message.\<close>

locale message_fields =
  fixes ok :: "'m \<Rightarrow> bool"
    and get :: "string \<Rightarrow> string \<Rightarrow> 'm \<Rightarrow> string"
    and put :: "string \<Rightarrow> string \<Rightarrow> 'm \<Rightarrow> 'm"
    and del :: "string \<Rightarrow> 'm \<Rightarrow> 'm"
  assumes put_ok: "ok m \<Longrightarrow> ok (put k v m)"
    and del_ok: "ok m \<Longrightarrow> ok (del k m)"
    and get_put: "ok m \<Longrightarrow> get j d (put k v m) = (if fkey j = fkey k then v else get j d m)"
    and get_del: "ok m \<Longrightarrow> get j d (del k m) = (if fkey j = fkey k then d else get j d m)"
begin

lemma last_wins: "ok m \<Longrightarrow> fkey k = fkey k' \<Longrightarrow> get j d (put k' v' (put k v m)) = get j d (put k' v' m)"
  by (simp add: get_put put_ok)

lemma put_commute: "ok m \<Longrightarrow> fkey k \<noteq> fkey k' \<Longrightarrow> get j d (put k' v' (put k v m)) = get j d (put k v (put k' v' m))"
  by (simp add: get_put put_ok)

lemma del_put: "ok m \<Longrightarrow> fkey k = fkey k' \<Longrightarrow> get j d (del k' (put k v m)) = get j d (del k' m)"
  by (simp add: get_put get_del put_ok)

text \<open>A list of fields set one after the other.\<close>

lemma put_all:
  assumes "ok m"
  shows "ok (fold (\<lambda>(k, v). put k v) kvs m)"
    and "get j d (fold (\<lambda>(k, v). put k v) kvs m) =
      (case fields_map (rev kvs) (fkey j) of Some v \<Rightarrow> v | None \<Rightarrow> get j d m)"
  using assms
proof (induction kvs arbitrary: m)
  case (Cons p kvs)
  obtain k v where p: "p = (k, v)" by (cases p)
  { case 1 show ?case using Cons 1 p by (simp add: put_ok)
  next
    case 2 show ?case
      using Cons(2)[OF put_ok[OF 2, of k v]] 2 p by (simp add: get_put map_add_def split: option.split) }
qed simp_all

end

lemmas fields_facts = fields_get_def fields_find_map fields_set_ok fields_erase_ok fields_map_set fields_map_erase

interpretation qh: message_fields "\<lambda>r. fields_ok (q_header r)" request_getHeader request_setHeader request_delHeader
  by unfold_locales (simp_all add: request_getHeader_def request_setHeader_def request_delHeader_def fields_facts)

interpretation qp: message_fields "\<lambda>r. fields_ok (q_param r)" getParam setParam delParam
  by unfold_locales (simp_all add: getParam_def setParam_def delParam_def fields_facts)

interpretation qc: message_fields "\<lambda>r. fields_ok (q_cookie r)" getCookie setCookie delCookie
  by unfold_locales (simp_all add: getCookie_def setCookie_def delCookie_def fields_facts)

interpretation ph: message_fields "\<lambda>r. fields_ok (p_header r)" response_getHeader response_setHeader response_delHeader
  by unfold_locales (simp_all add: response_getHeader_def response_setHeader_def response_delHeader_def fields_facts)

subsection \<open>Names\<close>

lemma status_names_distinct: "distinct (map snd status_map)"
  by (simp add: status_map_def)

lemma status_codes_distinct: "distinct (map fst status_map)"
  by (simp add: status_map_def)

text \<open>The characters of the names, and what lower case makes of them.\<close>

definition name_chars :: string where
  "name_chars = ''_ABCDEFGHIJKLMNOPQRSTUVWXYZ''"

abbreviation is_name :: "string \<Rightarrow> bool" where
  "is_name s \<equiv> list_all (\<lambda>c. c \<in> set name_chars) s"

lemma status_names_upper: "list_all (\<lambda>(i, s). is_name s) status_map"
  by (simp add: status_map_def name_chars_def)

lemma method_names:
  "list_all (\<lambda>m. StringToHttpMethod (HttpMethodToChars m) = (if m = 24 then INVAILD_METHOD else m)) [0..<47]"
  by code_simp

lemma c_str_id: "CHR 0x00 \<notin> set s \<Longrightarrow> c_str s = s"
  unfolding c_str_def by (rule takeWhile_eq_all_conv[THEN iffD2]) blast

lemma name_chars_lower: "inj_on to_lower (set name_chars)"
proof -
  have "map to_lower name_chars = ''_abcdefghijklmnopqrstuvwxyz''"
    by code_simp
  then have "distinct (map to_lower name_chars)"
    by simp
  then show ?thesis
    by (simp only: distinct_map)
qed

lemma name_chars_plain: "CHR 0x00 \<notin> set name_chars" "CHR '' '' \<notin> set name_chars"
  by (simp_all add: name_chars_def)

lemma fkey_names:
  assumes "is_name s" and "is_name t" and "fkey s = fkey t"
  shows "s = t"
proof -
  have "c_str u = u" if "is_name u" for u
    using that name_chars_plain(1) by (intro c_str_id) (auto simp only: list_all_iff)
  then have "map (of_char :: char \<Rightarrow> nat) (map to_lower s) = map of_char (map to_lower t)"
    using assms by (simp only: fkey_def map_map comp_def)
  then have "map to_lower s = map to_lower t"
    by (rule map_injective) (simp add: inj_def)
  moreover have "inj_on to_lower (set s \<union> set t)"
    using assms(1,2) by (intro inj_on_subset[OF name_chars_lower]) (auto simp only: list_all_iff)
  ultimately show ?thesis
    by (simp add: inj_on_map_eq_map)
qed

lemma underline_space: "is_name s \<Longrightarrow> SpaceToUnderLine (c_str (UnderLineToSapce s)) = s"
proof -
  assume s: "is_name s"
  then have "c_str (UnderLineToSapce s) = UnderLineToSapce s"
    using name_chars_plain(1) by (intro c_str_id) (auto simp: list_all_iff UnderLineToSapce_def)
  moreover have "c \<noteq> CHR '' ''" if "c \<in> set s" for c
    using s that name_chars_plain(2) unfolding list_all_iff by blast
  ultimately show ?thesis
    by (simp add: SpaceToUnderLine_def UnderLineToSapce_def map_idI)
qed

lemma find_only: "x \<in> set xs \<Longrightarrow> P x \<Longrightarrow> (\<And>y. y \<in> set xs \<Longrightarrow> P y \<Longrightarrow> y = x) \<Longrightarrow> find P xs = Some x"
proof (induction xs)
  case (Cons y ys)
  show ?case
  proof (cases "P y")
    case True
    then show ?thesis using Cons.prems(3)[of y] by simp
  next
    case False
    then have "x \<in> set ys" using Cons.prems(1,2) by auto
    moreover have "y' = x" if "y' \<in> set ys" "P y'" for y'
      by (rule Cons.prems(3)) (use that in \<open>simp_all\<close>)
    ultimately have "find P ys = Some x" by (rule Cons.IH[OF _ Cons.prems(2)])
    then show ?thesis using False by simp
  qed
qed simp

text \<open>The names of the methods and of the status codes are read back as what they name, with one exception: the method
  \<open>M-SEARCH\<close> is spelt with spaces in the table, so neither its own name nor what the program prints for it is
  recognised. The second conversion of status names, whose test is inverted, knows none of them:
  it answers 100 for every text but \<open>CONTINUE\<close>, and 101 for that.\<close>

theorem names_roundtrip:
  "(m < 47 \<longrightarrow> StringToHttpMethod (HttpMethodToChars m) = (if m = 24 then INVAILD_METHOD else m)) \<and>
   ((i, s) \<in> set status_map \<longrightarrow> StringToHttpStatus (HttpStatusToChars i) = i) \<and>
   StringToHttpMethod ''M-SEARCH'' = INVAILD_METHOD \<and>
   CharsToHttpStatus t = (if fkey (SpaceToUnderLine t) = fkey ''CONTINUE'' then 101 else 100)"
proof (intro conjI impI)
  show "m < 47 \<Longrightarrow> StringToHttpMethod (HttpMethodToChars m) = (if m = 24 then INVAILD_METHOD else m)"
    using method_names by (simp add: list_all_iff)
  show "StringToHttpStatus (HttpStatusToChars i) = i" if i: "(i, s) \<in> set status_map"
  proof -
    have up: "is_name u" if "(j, u) \<in> set status_map" for j u
      using status_names_upper that by (auto simp: list_all_iff)
    have "HttpStatusToChars i = UnderLineToSapce s"
      using i status_codes_distinct by (simp add: HttpStatusToChars_def)
    moreover have "find (\<lambda>(j, u). strcasecmp u s = 0) status_map = Some (i, s)"
    proof (rule find_only)
      fix p
      assume p: "p \<in> set status_map" "case p of (j, u) \<Rightarrow> strcasecmp u s = 0"
      obtain j u where q: "p = (j, u)" by (cases p)
      have "u = s"
        using fkey_names[OF up up, of j u i s] p q i by (simp add: strcasecmp_0)
      then show "p = (i, s)"
        using p(1) q i status_names_distinct unfolding distinct_map inj_on_def by (metis snd_conv)
    qed (use i in \<open>simp_all add: strcasecmp_0\<close>)
    ultimately show ?thesis
      using underline_space[OF up[OF i]] by (simp add: StringToHttpStatus_def)
  qed
  show "StringToHttpMethod ''M-SEARCH'' = INVAILD_METHOD"
    by code_simp
  obtain rest where s: "status_map = (100, ''CONTINUE'') # (101, ''SWITCHING_PROTOCOLS'') # rest"
    by (simp add: status_map_def)
  have "fkey ''SWITCHING_PROTOCOLS'' \<noteq> fkey ''CONTINUE''"
    using fkey_names[of "''SWITCHING_PROTOCOLS''" "''CONTINUE''"] by (auto simp: name_chars_def)
  then show "CharsToHttpStatus t = (if fkey (SpaceToUnderLine t) = fkey ''CONTINUE'' then 101 else 100)"
    by (simp add: CharsToHttpStatus_def Let_def strcasecmp_0 s)
qed

theorem names_roundtrip_witness: "StringToHttpStatus (HttpStatusToChars 100) = 100 \<and> CharsToHttpStatus ''NOT_FOUND'' = 100"
proof -
  have "(100, ''CONTINUE'') \<in> set status_map"
    by (simp add: status_map_def)
  moreover have "fkey ''NOT_FOUND'' \<noteq> fkey ''CONTINUE''"
    using fkey_names[of "''NOT_FOUND''" "''CONTINUE''"] by (auto simp: name_chars_def)
  ultimately show ?thesis
    using names_roundtrip[of 0 100 "''CONTINUE''" "''NOT_FOUND''"] by (simp add: SpaceToUnderLine_def)
qed

end
