(* ===== verification/UrlCodec.thy ===== *)
theory UrlCodec
  imports Prelude
begin

text \<open>
  Percent coding and the URL object, \<open>src/src/util/urlutils.h\<close> and \<open>src/src/util/url.{h,cpp}\<close>. The parser that fills
  a URL is generated and the conversion of international names is a library; both are arguments where they are used.
\<close>

subsection \<open>Percent coding\<close>

abbreviation cval :: "char \<Rightarrow> nat" where
  "cval c \<equiv> of_char c"

definition isalpha :: "char \<Rightarrow> bool" where
  "isalpha c \<longleftrightarrow> (65 \<le> cval c \<and> cval c \<le> 90) \<or> (97 \<le> cval c \<and> cval c \<le> 122)"

definition isalnum :: "char \<Rightarrow> bool" where
  "isalnum c \<longleftrightarrow> isalpha c \<or> isdigit c"

definition isxdigit :: "char \<Rightarrow> bool" where
  "isxdigit c \<longleftrightarrow> isdigit c \<or> (65 \<le> cval c \<and> cval c \<le> 70) \<or> (97 \<le> cval c \<and> cval c \<le> 102)"

text \<open>What \<open>std::hex\<close> reads and, with \<open>std::uppercase\<close>, prints for one digit.\<close>

definition hex_val :: "char \<Rightarrow> nat" where
  "hex_val c = (if isdigit c then cval c - 48 else if cval c \<le> 70 then cval c - 55 else cval c - 87)"

definition hex_char :: "nat \<Rightarrow> char" where
  "hex_char n = char_of (if n < 10 then 48 + n else 55 + n)"

definition unreserved :: "char \<Rightarrow> bool" where
  "unreserved c \<longleftrightarrow> isalnum c \<or> c \<in> {CHR ''-'', CHR ''_'', CHR ''.'', CHR ''~''}"

definition percent :: "char \<Rightarrow> string" where
  "percent c = [CHR ''%'', hex_char (cval c div 16), hex_char (cval c mod 16)]"

definition UrlEncode :: "bool \<Rightarrow> string \<Rightarrow> string" where
  "UrlEncode encodeAll str = concat (map (\<lambda>c. if \<not> encodeAll \<and> unreserved c then [c] else percent c) str)"

fun UrlDecode :: "string \<Rightarrow> string" where
  "UrlDecode [] = []"
| "UrlDecode (c # s) =
     (case s of
        a # b # t \<Rightarrow>
          if c = CHR ''%'' \<and> isxdigit a \<and> isxdigit b then char_of (16 * hex_val a + hex_val b) # UrlDecode t
          else (if c = CHR ''+'' then CHR '' '' else c) # UrlDecode s
      | _ \<Rightarrow> (if c = CHR ''+'' then CHR '' '' else c) # UrlDecode s)"

definition path_char :: "char \<Rightarrow> bool" where
  "path_char c \<longleftrightarrow> unreserved c \<or> c \<in> set ''!$&()*+,;=:@/'' \<or> c = CHR 0x27"

definition EncodePath :: "string \<Rightarrow> string" where
  "EncodePath path = concat (map (\<lambda>c. if path_char c then [c] else UrlEncode True [c]) path)"

definition ContainsNonASCII :: "string \<Rightarrow> bool" where
  "ContainsNonASCII str \<longleftrightarrow> (\<exists>c\<in>set str. cval c > 127)"

text \<open>\<open>to_ascii\<close> and \<open>to_unicode\<close> are the functions of \<open>libidn2\<close>; \<open>None\<close> is an error.\<close>

definition DomainToASCII :: "(string \<Rightarrow> string option) \<Rightarrow> string \<Rightarrow> string" where
  "DomainToASCII to_ascii domain =
     (if \<not> ContainsNonASCII domain then domain else case to_ascii domain of Some a \<Rightarrow> a | None \<Rightarrow> domain)"

definition DomainToUnicode :: "(string \<Rightarrow> string option) \<Rightarrow> string \<Rightarrow> string" where
  "DomainToUnicode to_unicode ascii = (case to_unicode ascii of Some u \<Rightarrow> u | None \<Rightarrow> ascii)"

subsection \<open>The URL object\<close>

record Url =
  url_scheme :: string
  url_userinfo :: string
  url_host :: string
  url_path :: string
  url_query :: string
  url_fragment :: string
  url_port :: nat
  url_unicodeHost :: string
  url_decodedUserinfo :: string
  url_decodedPath :: string
  url_decodedQuery :: string
  url_decodedFragment :: string

definition url_new :: Url where
  "url_new = \<lparr>url_scheme = [], url_userinfo = [], url_host = [], url_path = [], url_query = [], url_fragment = [], url_port = 0,
     url_unicodeHost = [], url_decodedUserinfo = [], url_decodedPath = [], url_decodedQuery = [], url_decodedFragment = []\<rparr>"

definition url_getPath :: "Url \<Rightarrow> string" where
  "url_getPath u = (if url_path u = [] then ''/'' else url_path u)"

definition url_getPort :: "Url \<Rightarrow> nat" where
  "url_getPort u = (if url_port u \<noteq> 0 then url_port u else if url_scheme u = ''https'' then 443 else 80)"

definition getUnicodeHost :: "Url \<Rightarrow> string" where
  "getUnicodeHost u = (if url_unicodeHost u = [] then url_host u else url_unicodeHost u)"

definition getDecodedUserinfo :: "Url \<Rightarrow> string" where
  "getDecodedUserinfo u = (if url_decodedUserinfo u = [] then url_userinfo u else url_decodedUserinfo u)"

definition getDecodedPath :: "Url \<Rightarrow> string" where
  "getDecodedPath u = (if url_decodedPath u = [] then url_path u else url_decodedPath u)"

definition getDecodedQuery :: "Url \<Rightarrow> string" where
  "getDecodedQuery u = (if url_decodedQuery u = [] then url_query u else url_decodedQuery u)"

definition getDecodedFragment :: "Url \<Rightarrow> string" where
  "getDecodedFragment u = (if url_decodedFragment u = [] then url_fragment u else url_decodedFragment u)"

definition sep_before :: "string \<Rightarrow> string \<Rightarrow> string" where
  "sep_before sep s = (if s = [] then [] else sep @ s)"

definition sep_after :: "string \<Rightarrow> string \<Rightarrow> string" where
  "sep_after s sep = (if s = [] then [] else s @ sep)"

definition port_text :: "nat \<Rightarrow> string" where
  "port_text p = (if p > 0 then '':'' @ to_string_nat p else [])"

definition getUnicodeURL :: "Url \<Rightarrow> string" where
  "getUnicodeURL u =
     sep_after (url_scheme u) ''://'' @ (if url_userinfo u = [] then [] else getDecodedUserinfo u @ ''@'') @ getUnicodeHost u @
     port_text (url_port u) @ getDecodedPath u @ (if url_query u = [] then [] else ''?'' @ getDecodedQuery u) @
     (if url_fragment u = [] then [] else ''#'' @ getDecodedFragment u)"

definition getAuthority :: "Url \<Rightarrow> string" where
  "getAuthority u = sep_after (url_userinfo u) ''@'' @ url_host u @ port_text (url_port u)"

definition getAsciiURL :: "Url \<Rightarrow> string" where
  "getAsciiURL u =
     sep_after (url_scheme u) ''://'' @ sep_after (url_userinfo u) ''@'' @ url_host u @ port_text (url_port u) @ url_path u @
     sep_before ''?'' (url_query u) @ sep_before ''#'' (url_fragment u)"

definition isDefaultPort :: "Url \<Rightarrow> bool" where
  "isDefaultPort u \<longleftrightarrow>
     (if url_port u = 0 then True else if url_scheme u = ''http'' then url_port u = 80
      else if url_scheme u = ''https'' then url_port u = 443 else False)"

definition url_toString :: "Url \<Rightarrow> string" where
  "url_toString u =
     url_scheme u @ ''://'' @ sep_after (url_userinfo u) ''@'' @ url_host u @
     (if isDefaultPort u then [] else '':'' @ to_string_nat (url_port u)) @ url_getPath u @
     sep_before ''?'' (url_query u) @ sep_before ''#'' (url_fragment u)"

subsection \<open>Lemmas\<close>

lemma cval_less [simp]: "cval c < 256"
  using of_char_mod_256[of c, where 'a = nat] by (metis mod_less_divisor zero_less_numeral)

lemma hex_char_facts:
  assumes "n < 16"
  shows "isxdigit (hex_char n)" and "hex_val (hex_char n) = n"
proof -
  have "cval (hex_char n) = (if n < 10 then 48 + n else 55 + n)"
    using assms by (simp add: hex_char_def of_char_of)
  then show "isxdigit (hex_char n)" "hex_val (hex_char n) = n"
    using assms by (auto simp: isxdigit_def isdigit_def hex_val_def)
qed

lemma UrlDecode_percent [simp]: "UrlDecode (percent c @ s) = c # UrlDecode s"
proof -
  have "cval c div 16 < 16" "cval c mod 16 < 16"
    by (simp_all add: less_mult_imp_div_less)
  then show ?thesis
    by (simp add: percent_def hex_char_facts)
qed

lemma UrlDecode_plain: "c \<noteq> CHR ''%'' \<Longrightarrow> UrlDecode (c # s) = (if c = CHR ''+'' then CHR '' '' else c) # UrlDecode s"
  by (simp split: list.split)

declare UrlDecode.simps(2) [simp del]

lemma unreserved_plain: "unreserved c \<Longrightarrow> c \<noteq> CHR ''%'' \<and> c \<noteq> CHR ''+''"
  by (auto simp: unreserved_def isalnum_def isalpha_def isdigit_def)

lemma UrlEncode_simps [simp]:
  "UrlEncode b [] = []" "UrlEncode b (c # s) = (if \<not> b \<and> unreserved c then [c] else percent c) @ UrlEncode b s"
  by (simp_all add: UrlEncode_def)

lemma UrlDecode_encode_append: "UrlDecode (UrlEncode b s @ t) = s @ UrlDecode t"
proof (induction s)
  case (Cons c s)
  then show ?case
    using unreserved_plain[of c] by (cases b) (simp_all add: UrlDecode_plain)
qed simp

text \<open>The characters of an encoded text.\<close>

lemma UrlEncode_chars: "c \<in> set (UrlEncode b s) \<Longrightarrow> unreserved c \<or> c = CHR ''%''"
proof (induction s)
  case (Cons x s)
  have "unreserved (hex_char n)" if "n < 16" for n
    using that by (auto simp: unreserved_def isalnum_def isalpha_def isdigit_def hex_char_def of_char_of)
  then have "unreserved d \<or> d = CHR ''%''" if "d \<in> set (percent x)" for d
    using that by (auto simp: percent_def less_mult_imp_div_less)
  then show ?case
    using Cons by (auto split: if_splits)
qed simp

text \<open>Decoding undoes encoding, for every text and both modes, and the encoded text has only unreserved
  characters and percent signs. Encoding a path is not undone by decoding: a plus sign is kept by the one and turned into
  a space by the other; every other character comes back.\<close>

theorem url_codec_roundtrip:
  "UrlDecode (UrlEncode b s) = s \<and> (\<forall>c. c \<in> set (UrlEncode b s) \<longrightarrow> unreserved c \<or> c = CHR ''%'') \<and>
   UrlDecode (EncodePath s) = map (\<lambda>c. if c = CHR ''+'' then CHR '' '' else c) s"
proof (intro conjI allI impI)
  show "UrlDecode (UrlEncode b s) = s"
    using UrlDecode_encode_append[of b s "[]"] by simp
  show "c \<in> set (UrlEncode b s) \<Longrightarrow> unreserved c \<or> c = CHR ''%''" for c
    by (rule UrlEncode_chars)
  have "path_char c \<Longrightarrow> c \<noteq> CHR ''%''" for c
    using unreserved_plain[of c] by (auto simp: path_char_def)
  moreover have "path_char (CHR ''+'')"
    by (simp add: path_char_def)
  ultimately show "UrlDecode (EncodePath s) = map (\<lambda>c. if c = CHR ''+'' then CHR '' '' else c) s"
    by (induction s) (auto simp: EncodePath_def UrlDecode_plain)
qed

theorem url_codec_roundtrip_witness: "UrlDecode (UrlEncode False ''a b+c%'') = ''a b+c%'' \<and> UrlDecode (EncodePath ''a+b'') = ''a b''"
  using url_codec_roundtrip[of False "''a b+c%''"] url_codec_roundtrip[of False "''a+b''"] by simp

end
