(* ===== verification/HttpParser.thy ===== *)
theory HttpParser
  imports Http UrlCodec Addresses
begin

text \<open>
  The callbacks of the HTTP parsers, \<open>src/src/http/httpParser.{h,cpp}\<close>. The byte level is the library \<open>llhttp\<close>, which
  calls them: what it reports is a sequence of \<open>llhttp_event\<close>. A callback of the user is what it returns.
  \<open>CreateUrl\<close> is the generated URL parser, \<open>decompress\<close> is gzip, with \<open>None\<close> for an exception.
\<close>

unbundle bit_operations_syntax

datatype llhttp_event =
    EvMessageBegin | EvMethod string | EvMethodComplete | EvUrl string | EvUrlComplete | EvStatus string | EvStatusComplete
  | EvVersion string | EvVersionComplete nat nat | EvHeaderField string | EvHeaderValue string | EvHeadersComplete bool
  | EvBody string | EvMessageComplete

subsection \<open>Text\<close>

text \<open>The items \<open>std::getline\<close> finds: no empty one after a final separator.\<close>

function getline_items :: "char \<Rightarrow> string \<Rightarrow> string list" where
  "getline_items sep s =
     (if s = [] then [] else takeWhile (\<lambda>c. c \<noteq> sep) s # getline_items sep (drop (Suc (length (takeWhile (\<lambda>c. c \<noteq> sep) s))) s))"
  by pat_completeness auto
termination
  by (relation "measure (\<lambda>(sep, s). length s)") auto

declare getline_items.simps [simp del]

definition trim_spaces :: "string \<Rightarrow> string" where
  "trim_spaces s = rev (dropWhile (\<lambda>c. c = CHR '' '') (rev (dropWhile (\<lambda>c. c = CHR '' '') s)))"

definition contains_text :: "string \<Rightarrow> string \<Rightarrow> bool" where
  "contains_text s pat \<longleftrightarrow> find_sub pat s \<noteq> None"

definition checkEncoding :: "string \<Rightarrow> string \<Rightarrow> bool" where
  "checkEncoding encoding tem =
     list_ex (\<lambda>i. let item = trim_spaces i in item = tem \<or> contains_text item tem) (getline_items (CHR '','') encoding)"

text \<open>The text before the first \<open>=\<close> and after it.\<close>

definition key_of :: "string \<Rightarrow> string" where
  "key_of seg = takeWhile (\<lambda>c. c \<noteq> CHR ''='') seg"

definition val_of :: "string \<Rightarrow> string" where
  "val_of seg = tl (dropWhile (\<lambda>c. c \<noteq> CHR ''='') seg)"

text \<open>The same decoding loop as in \<open>URLUtils\<close>.\<close>

definition urlDecode_param :: "string \<Rightarrow> string" where
  "urlDecode_param param = UrlDecode param"

definition headerFieldFormat_step :: "nat \<Rightarrow> string \<Rightarrow> string" where
  "headerFieldFormat_step i s =
     (let ch = s ! i in
      if i = 0 then s[i := to_upper ch]
      else if ch = CHR ''-'' \<and> i < length s - 1 then s[i + 1 := to_upper (s ! (i + 1))]
      else if isalpha ch then s[i := to_lower ch] else s)"

definition headerFieldFormat :: "string \<Rightarrow> string" where
  "headerFieldFormat s = fold headerFieldFormat_step [0..<length s] s"

subsection \<open>The parser of requests\<close>

record HttpRequestParser =
  r_headerfield :: string
  r_headervalue :: string
  r_method :: string
  r_version :: string
  r_url :: string
  r_body :: string
  r_data :: HttpRequest
  r_urlcb :: "int option"
  r_methodcb :: "int option"
  r_versioncb :: "int option"
  r_headerFieldcb :: "int option"
  r_headerValuecb :: "int option"
  r_Bodycb :: "(string \<Rightarrow> int) option"
  r_headerCmpcb :: "int option"
  r_messageBegcb :: "int option"
  r_urlCmpcb :: "(string \<Rightarrow> int) option"
  r_versionCmpcb :: "(string \<Rightarrow> int) option"
  r_methodCmpcb :: "(string \<Rightarrow> int) option"
  r_messageCmpcb :: "(HttpRequest \<Rightarrow> int) option"

definition HttpRequestParser_new :: HttpRequestParser where
  "HttpRequestParser_new =
     \<lparr>r_headerfield = [], r_headervalue = [], r_method = [], r_version = [], r_url = [], r_body = [], r_data = request_new 0x11 True,
      r_urlcb = None, r_methodcb = None, r_versioncb = None, r_headerFieldcb = None, r_headerValuecb = None, r_Bodycb = None,
      r_headerCmpcb = None, r_messageBegcb = None, r_urlCmpcb = None, r_versionCmpcb = None, r_methodCmpcb = None,
      r_messageCmpcb = None\<rparr>"

definition ret :: "int option \<Rightarrow> int" where
  "ret cb = (case cb of Some v \<Rightarrow> v | None \<Rightarrow> 0)"

definition ret_with :: "('a \<Rightarrow> int) option \<Rightarrow> 'a \<Rightarrow> int" where
  "ret_with cb x = (case cb of Some f \<Rightarrow> f x | None \<Rightarrow> 0)"

definition on_UrlCb :: "int \<Rightarrow> HttpRequestParser \<Rightarrow> HttpRequestParser" where
  "on_UrlCb cb p = p\<lparr>r_urlcb := Some cb\<rparr>"

definition on_UrlComplateCb :: "(string \<Rightarrow> int) \<Rightarrow> HttpRequestParser \<Rightarrow> HttpRequestParser" where
  "on_UrlComplateCb cb p = p\<lparr>r_urlCmpcb := Some cb\<rparr>"

definition on_MethodCb :: "int \<Rightarrow> HttpRequestParser \<Rightarrow> HttpRequestParser" where
  "on_MethodCb cb p = p\<lparr>r_methodcb := Some cb\<rparr>"

definition on_MethodComplateCb :: "(string \<Rightarrow> int) \<Rightarrow> HttpRequestParser \<Rightarrow> HttpRequestParser" where
  "on_MethodComplateCb cb p = p\<lparr>r_methodCmpcb := Some cb\<rparr>"

definition on_VersionCb :: "int \<Rightarrow> HttpRequestParser \<Rightarrow> HttpRequestParser" where
  "on_VersionCb cb p = p\<lparr>r_versioncb := Some cb\<rparr>"

definition on_VersionComplateCb :: "(string \<Rightarrow> int) \<Rightarrow> HttpRequestParser \<Rightarrow> HttpRequestParser" where
  "on_VersionComplateCb cb p = p\<lparr>r_versionCmpcb := Some cb\<rparr>"

definition on_HeaderFieldCb :: "int \<Rightarrow> HttpRequestParser \<Rightarrow> HttpRequestParser" where
  "on_HeaderFieldCb cb p = p\<lparr>r_headerFieldcb := Some cb\<rparr>"

definition on_HeaderValueCb :: "int \<Rightarrow> HttpRequestParser \<Rightarrow> HttpRequestParser" where
  "on_HeaderValueCb cb p = p\<lparr>r_headerValuecb := Some cb\<rparr>"

definition on_MessageBeginCb :: "int \<Rightarrow> HttpRequestParser \<Rightarrow> HttpRequestParser" where
  "on_MessageBeginCb cb p = p\<lparr>r_messageBegcb := Some cb\<rparr>"

definition on_HeaderCompalteCb :: "int \<Rightarrow> HttpRequestParser \<Rightarrow> HttpRequestParser" where
  "on_HeaderCompalteCb cb p = p\<lparr>r_headerCmpcb := Some cb\<rparr>"

definition on_BodyCb :: "(string \<Rightarrow> int) \<Rightarrow> HttpRequestParser \<Rightarrow> HttpRequestParser" where
  "on_BodyCb cb p = p\<lparr>r_Bodycb := Some cb\<rparr>"

definition on_MessageComplate :: "(HttpRequest \<Rightarrow> int) \<Rightarrow> HttpRequestParser \<Rightarrow> HttpRequestParser" where
  "on_MessageComplate cb p = p\<lparr>r_messageCmpcb := Some cb\<rparr>"

definition request_parser_reset :: "HttpRequestParser \<Rightarrow> HttpRequestParser" where
  "request_parser_reset p =
     p\<lparr>r_body := [], r_headerfield := [], r_headervalue := [], r_method := [], r_url := [], r_version := []\<rparr>"

text \<open>The pairs of a query: what stands between the separators and has an equals sign.\<close>

function query_pairs :: "string \<Rightarrow> (string \<times> string) list" where
  "query_pairs s =
     (if s = [] then []
      else
        let seg = takeWhile (\<lambda>c. c \<noteq> CHR ''&'') s;
            rest = query_pairs (drop (Suc (length (takeWhile (\<lambda>c. c \<noteq> CHR ''&'') s))) s) in
        if CHR ''='' \<in> set seg then (key_of seg, val_of seg) # rest else rest)"
  by pat_completeness auto
termination
  by (relation "measure length") auto

declare query_pairs.simps [simp del]

definition set_params :: "string \<Rightarrow> HttpRequest \<Rightarrow> HttpRequest" where
  "set_params s q = fold (\<lambda>(k, v). setParam k v) (map (\<lambda>(k, v). (urlDecode_param k, urlDecode_param v)) (query_pairs s)) q"

definition parseQuery :: "HttpRequest \<Rightarrow> HttpRequest" where
  "parseQuery q = (if q_query q = [] then q else set_params (q_query q) q)"

definition parsePostBody :: "HttpRequest \<Rightarrow> HttpRequest" where
  "parsePostBody q =
     (if \<not> contains_text (request_getHeader ''Content-Type'' [] q) ''application/x-www-form-urlencoded'' then q
      else if q_body q = [] then q else set_params (q_body q) q)"

function cookie_pairs :: "string \<Rightarrow> (string \<times> string) list" where
  "cookie_pairs cs =
     (let s = dropWhile (\<lambda>c. c = CHR '' '') cs in
      if s = [] then []
      else
        let seg = takeWhile (\<lambda>c. c \<noteq> CHR '';'') s;
            rest = cookie_pairs (drop (Suc (length seg)) s) in
        if CHR ''='' \<in> set seg then (trim_spaces (key_of seg), val_of seg) # rest else rest)"
  by pat_completeness auto
termination
proof (relation "measure length", simp)
  fix cs s seg :: string
  assume s: "s = dropWhile (\<lambda>c. c = CHR '' '') cs" "s \<noteq> []"
  then have "length s \<le> length cs" "0 < length s"
    using length_dropWhile_le by blast+
  then have "length s - Suc (length seg) < length cs"
    by linarith
  then show "(drop (Suc (length seg)) s, cs) \<in> measure length"
    by simp
qed

declare cookie_pairs.simps [simp del]

definition parseCookie :: "HttpRequest \<Rightarrow> HttpRequest" where
  "parseCookie q =
     (case fields_find (q_header q) ''Cookie'' of None \<Rightarrow> q
      | Some cookie \<Rightarrow> fold (\<lambda>(k, v). setCookie k v) (cookie_pairs cookie) q)"

subsection \<open>Its callbacks\<close>

type_synonym called = "int \<times> HttpRequestParser"

definition on_Url :: "string \<Rightarrow> HttpRequestParser \<Rightarrow> called" where
  "on_Url at p = (if length (r_url p) + length at > 8192 then (-1, p) else (ret (r_urlcb p), p\<lparr>r_url := r_url p @ at\<rparr>))"

definition on_Url_complate :: "(string \<Rightarrow> Url option) \<Rightarrow> HttpRequestParser \<Rightarrow> called" where
  "on_Url_complate CreateUrl p =
     (let q = (case CreateUrl (r_url p) of None \<Rightarrow> r_data p
               | Some u \<Rightarrow>
                 let q = (r_data p)\<lparr>q_path := url_getPath u, q_query := url_query u, q_fragment := url_fragment u\<rparr> in
                 if url_host u \<noteq> [] then request_setHeader ''Host'' (url_host u) q else q)
      in (ret_with (r_urlCmpcb p) (r_url p), p\<lparr>r_data := parseQuery q\<rparr>))"

definition on_Method :: "string \<Rightarrow> HttpRequestParser \<Rightarrow> called" where
  "on_Method at p = (ret (r_methodcb p), p\<lparr>r_method := r_method p @ at\<rparr>)"

definition on_Method_complate :: "HttpRequestParser \<Rightarrow> called" where
  "on_Method_complate p =
     (let method = StringToHttpMethod (r_method p) in
      if method = INVAILD_METHOD then (-1, p)
      else (ret_with (r_methodCmpcb p) (r_method p), p\<lparr>r_data := (r_data p)\<lparr>q_method := method\<rparr>\<rparr>))"

definition on_Version :: "string \<Rightarrow> HttpRequestParser \<Rightarrow> called" where
  "on_Version at p = (ret (r_versioncb p), p\<lparr>r_version := r_version p @ at\<rparr>)"

definition version_byte :: "nat \<Rightarrow> nat \<Rightarrow> nat" where
  "version_byte major minor = (push_bit 4 major OR minor) mod 256"

definition on_Version_complate :: "nat \<Rightarrow> nat \<Rightarrow> HttpRequestParser \<Rightarrow> called" where
  "on_Version_complate major minor p =
     (let tem = ''HTTP/'' @ r_version p in
      if c_str tem \<noteq> ''HTTP/1.1'' \<and> c_str tem \<noteq> ''HTTP/1.0'' then (-1, p)
      else (ret_with (r_versionCmpcb p) tem, p\<lparr>r_data := (r_data p)\<lparr>q_version := version_byte major minor\<rparr>\<rparr>))"

definition on_message_begin :: "HttpRequestParser \<Rightarrow> called" where
  "on_message_begin p = (ret (r_messageBegcb p), p)"

definition on_Message_complate :: "(string \<Rightarrow> string option) \<Rightarrow> HttpRequestParser \<Rightarrow> called res" where
  "on_Message_complate decompress p =
     (let q = r_data p; body = r_body p in
      bnd (if checkEncoding (request_getHeader ''Content-Encoding'' [] q) ''gzip'' \<and> \<not> length body < 20
           then (case decompress body of None \<Rightarrow> Inl UncaughtException
                 | Some b \<Rightarrow> Inr (b, request_delHeader ''Content-Encoding''
                                       (request_setHeader ''Content-Length'' (to_string_nat (length b)) q)))
           else Inr (body, q))
      (\<lambda>(b, q1).
        let q2 = parsePostBody (q1\<lparr>q_body := b\<rparr>) in
        Inr (ret_with (r_messageCmpcb p) q2, p\<lparr>r_data := q2\<rparr>)))"

definition on_header_field :: "string \<Rightarrow> HttpRequestParser \<Rightarrow> called" where
  "on_header_field at p =
     (if length (r_headerfield p) + length at > 8192 then (-1, p)
      else
        let q = (if r_headerfield p \<noteq> [] \<and> r_headervalue p \<noteq> []
                 then request_setHeader (r_headerfield p) (r_headervalue p) (r_data p) else r_data p)
        in (ret (r_headerFieldcb p), p\<lparr>r_data := q, r_headerfield := headerFieldFormat at, r_headervalue := []\<rparr>))"

definition on_header_value :: "string \<Rightarrow> HttpRequestParser \<Rightarrow> called" where
  "on_header_value at p = (ret (r_headerValuecb p), p\<lparr>r_headervalue := r_headervalue p @ at\<rparr>)"

definition on_Header_complate :: "bool \<Rightarrow> HttpRequestParser \<Rightarrow> called" where
  "on_Header_complate keep p =
     (let q = (if r_headerfield p \<noteq> [] then request_setHeader (r_headerfield p) (r_headervalue p) (r_data p) else r_data p)
      in (ret (r_headerCmpcb p), p\<lparr>r_data := parseCookie (q\<lparr>q_keepAlive := keep\<rparr>)\<rparr>))"

definition on_body :: "string \<Rightarrow> HttpRequestParser \<Rightarrow> called" where
  "on_body at p = (ret_with (r_Bodycb p) at, p\<lparr>r_body := r_body p @ at\<rparr>)"

text \<open>
  What the settings of \<open>Init\<close> connect. Status events come with responses only. A callback that does not return 0
  stops \<open>llhttp\<close>: no further one is called, and \<open>Execute\<close> leaves an error (the values 1 and 2 of
  \<open>on_headers_complete\<close>, with their own meaning, are returned by no callback of the program).
\<close>

fun request_event :: "(string \<Rightarrow> Url option) \<Rightarrow> (string \<Rightarrow> string option) \<Rightarrow> llhttp_event \<Rightarrow> HttpRequestParser \<Rightarrow> called res" where
  "request_event mk gz EvMessageBegin p = Inr (on_message_begin p)"
| "request_event mk gz (EvMethod at) p = Inr (on_Method at p)"
| "request_event mk gz EvMethodComplete p = Inr (on_Method_complate p)"
| "request_event mk gz (EvUrl at) p = Inr (on_Url at p)"
| "request_event mk gz EvUrlComplete p = Inr (on_Url_complate mk p)"
| "request_event mk gz (EvVersion at) p = Inr (on_Version at p)"
| "request_event mk gz (EvVersionComplete a b) p = Inr (on_Version_complate a b p)"
| "request_event mk gz (EvHeaderField at) p = Inr (on_header_field at p)"
| "request_event mk gz (EvHeaderValue at) p = Inr (on_header_value at p)"
| "request_event mk gz (EvHeadersComplete k) p = Inr (on_Header_complate k p)"
| "request_event mk gz (EvBody at) p = Inr (on_body at p)"
| "request_event mk gz EvMessageComplete p = on_Message_complate gz p"
| "request_event mk gz (EvStatus at) p = Inr (0, p)"
| "request_event mk gz EvStatusComplete p = Inr (0, p)"

fun request_events ::
  "(string \<Rightarrow> Url option) \<Rightarrow> (string \<Rightarrow> string option) \<Rightarrow> llhttp_event list \<Rightarrow> HttpRequestParser \<Rightarrow> (bool \<times> HttpRequestParser) res"
where
  "request_events mk gz [] p = Inr (True, p)"
| "request_events mk gz (e # es) p =
     bnd (request_event mk gz e p) (\<lambda>(rt, p1). if rt \<noteq> 0 then Inr (False, p1) else request_events mk gz es p1)"

subsection \<open>Lemmas on text\<close>

lemma cval_to_lower: "cval (to_lower c) = (if 65 \<le> cval c \<and> cval c \<le> 90 then cval c + 32 else cval c)"
  by (simp add: to_lower_def of_char_of)

lemma cval_to_upper: "cval (to_upper c) = (if 97 \<le> cval c \<and> cval c \<le> 122 then cval c - 32 else cval c)"
  by (auto simp: to_upper_def Let_def of_char_of)

lemma char_eq_cval: "a = b \<longleftrightarrow> cval a = cval b"
  by simp

lemma to_lower_facts [simp]: "to_lower (to_upper c) = to_lower c" "to_lower (to_lower c) = to_lower c"
  unfolding char_eq_cval cval_to_lower cval_to_upper by auto

lemma to_lower_nul: "to_lower c = CHR 0x00 \<longleftrightarrow> c = CHR 0x00"
  unfolding char_eq_cval cval_to_lower by simp

lemma to_lower_other: "\<not> isalpha c \<Longrightarrow> to_lower c = c"
  unfolding char_eq_cval cval_to_lower by (simp add: isalpha_def)

lemma format_step_lower: "0 < i \<Longrightarrow> i < length s \<Longrightarrow> map to_lower (headerFieldFormat_step i s) = map to_lower s"
  by (auto simp: headerFieldFormat_step_def Let_def map_update list_update_same_conv)

lemma format_step_take:
  "0 < i \<Longrightarrow> i < length s \<Longrightarrow> take (Suc i) (headerFieldFormat_step i s) = take i s @ [to_lower (s ! i)]"
  using to_lower_other[of "CHR ''-''"] to_lower_other[of "s ! i"]
  by (auto simp: headerFieldFormat_step_def Let_def take_Suc_conv_app_nth isalpha_def)

lemma format_fold:
  "0 < i \<Longrightarrow> i \<le> length s \<Longrightarrow> fold headerFieldFormat_step [i..<length s] s = take i s @ map to_lower (drop i s)"
proof (induction "length s - i" arbitrary: i s)
  case (Suc n)
  let ?s = "headerFieldFormat_step i s"
  have i: "i < length s" and l: "length ?s = length s"
    using Suc.hyps(2) by (auto simp: headerFieldFormat_step_def Let_def)
  then have "fold headerFieldFormat_step [i..<length s] s = take (Suc i) ?s @ map to_lower (drop (Suc i) ?s)"
    using Suc.hyps(1)[of ?s "Suc i"] Suc.hyps(2) by (simp add: upt_conv_Cons)
  also have "map to_lower (drop (Suc i) ?s) = map to_lower (drop (Suc i) s)"
    using format_step_lower[OF Suc.prems(1) i] by (simp only: drop_map[symmetric])
  also have "take (Suc i) ?s @ map to_lower (drop (Suc i) s) = take i s @ map to_lower (drop i s)"
    using format_step_take[OF Suc.prems(1) i] i by (simp add: Cons_nth_drop_Suc[symmetric])
  finally show ?case .
qed simp

text \<open>The first letter in upper case and the rest in lower case: the letter after a hyphen is raised in one turn of the loop and
  lowered in the next.\<close>

lemma headerFieldFormat_eq: "headerFieldFormat s = (case s of [] \<Rightarrow> [] | c # cs \<Rightarrow> to_upper c # map to_lower cs)"
proof (cases s)
  case (Cons c cs)
  have "headerFieldFormat s = fold headerFieldFormat_step [1..<length (to_upper c # cs)] (to_upper c # cs)"
    using Cons by (simp add: headerFieldFormat_def headerFieldFormat_step_def upt_conv_Cons del: upt_Suc)
  also have "\<dots> = to_upper c # map to_lower cs"
    by (subst format_fold) auto
  finally show ?thesis
    using Cons by simp
qed (simp add: headerFieldFormat_def)

lemma fkey_lower: "fkey s = map of_char (c_str (map to_lower s))"
  by (induction s) (auto simp: fkey_def c_str_def to_lower_nul)

lemma fkey_format [simp]: "fkey (headerFieldFormat f) = fkey f"
  by (cases f) (simp_all add: fkey_lower headerFieldFormat_eq comp_def)

subsection \<open>Queries\<close>

lemma takeWhile_until: "c \<notin> set s \<Longrightarrow> takeWhile (\<lambda>x. x \<noteq> c) (s @ c # t) = s" "c \<notin> set s \<Longrightarrow> takeWhile (\<lambda>x. x \<noteq> c) s = s"
  by (induction s) auto

lemma dropWhile_until: "c \<notin> set s \<Longrightarrow> dropWhile (\<lambda>x. x \<noteq> c) (s @ c # t) = c # t"
  by (induction s) auto

definition query_segment :: "string \<times> string \<Rightarrow> string" where
  "query_segment = (\<lambda>(k, v). UrlEncode False k @ ''='' @ UrlEncode False v)"

definition query_text :: "(string \<times> string) list \<Rightarrow> string" where
  "query_text kvs = join_with ''&'' (map query_segment kvs)"

lemma encoded_plain: "CHR ''&'' \<notin> set (UrlEncode b s)" "CHR ''='' \<notin> set (UrlEncode b s)"
  using UrlEncode_chars[of "CHR ''&''" b s] UrlEncode_chars[of "CHR ''=''" b s]
  by (auto simp: unreserved_def isalnum_def isalpha_def isdigit_def)

lemma query_pairs_one:
  assumes "CHR ''&'' \<notin> set seg" and "CHR ''='' \<in> set seg"
  shows "query_pairs seg = [(key_of seg, val_of seg)]" and "query_pairs (seg @ CHR ''&'' # s) = (key_of seg, val_of seg) # query_pairs s"
proof -
  have "seg \<noteq> []" using assms(2) by auto
  then show "query_pairs seg = [(key_of seg, val_of seg)]"
    using assms by (subst query_pairs.simps) (simp add: takeWhile_until query_pairs.simps[of "[]"])
  show "query_pairs (seg @ CHR ''&'' # s) = (key_of seg, val_of seg) # query_pairs s"
    using assms by (subst query_pairs.simps) (simp add: takeWhile_until)
qed

lemma query_pairs_text: "query_pairs (query_text kvs) = map (\<lambda>(k, v). (UrlEncode False k, UrlEncode False v)) kvs"
proof -
  have seg: "CHR ''&'' \<notin> set (query_segment kv)" "CHR ''='' \<in> set (query_segment kv)"
    "(key_of (query_segment kv), val_of (query_segment kv)) = (\<lambda>(k, v). (UrlEncode False k, UrlEncode False v)) kv" for kv
    using encoded_plain by (auto simp: query_segment_def key_of_def val_of_def takeWhile_until dropWhile_until split_def)
  show ?thesis
    unfolding query_text_def
    by (induction kvs rule: induct_list012) (simp_all add: query_pairs.simps[of "[]"] query_pairs_one[OF seg(1,2)] seg(3))
qed

text \<open>C32. The parameters a client writes into the query of a request, percent-encoded, arrive: the parser reads
  them back, whatever characters the names and values have, and of several with the same name, which
  is compared without regard to upper and lower case, the last one counts.\<close>

theorem query_roundtrip:
  assumes "fields_ok (q_param q)" and "q_query q = query_text kvs"
  shows "getParam k d (parseQuery q) = (case fields_map (rev kvs) (fkey k) of Some v \<Rightarrow> v | None \<Rightarrow> getParam k d q)"
proof -
  have "map (\<lambda>(k, v). (urlDecode_param k, urlDecode_param v)) (query_pairs (query_text kvs)) = kvs"
    using UrlDecode_encode_append[of False _ "[]"]
    by (simp add: query_pairs_text urlDecode_param_def comp_def split_def)
  then have "parseQuery q = (if query_text kvs = [] then q else fold (\<lambda>(k, v). setParam k v) kvs q)"
    by (simp add: parseQuery_def set_params_def assms(2))
  moreover have "query_text kvs = [] \<Longrightarrow> kvs = []"
    by (cases kvs rule: remdups_adj.cases) (auto simp: query_text_def query_segment_def)
  ultimately show ?thesis
    using qp.put_all(2)[OF assms(1)] by auto
qed

theorem query_roundtrip_witness:
  "getParam ''a'' [] (parseQuery ((request_new 17 True)\<lparr>q_query := query_text [(''a'', ''1&2''), (''b'', ''='')]\<rparr>)) = ''1&2''"
proof -
  have "fkey ''a'' \<noteq> fkey ''b''"
    by (simp add: fkey_lower c_str_def to_lower_def)
  then show ?thesis
    using query_roundtrip[of "(request_new 17 True)\<lparr>q_query := query_text [(''a'', ''1&2''), (''b'', ''='')]\<rparr>"] by (simp add: request_new_def)
qed

subsection \<open>A whole request\<close>

text \<open>All callbacks of the user return 0.\<close>

definition quiet :: "HttpRequestParser \<Rightarrow> bool" where
  "quiet p \<longleftrightarrow> ret (r_urlcb p) = 0 \<and> ret (r_methodcb p) = 0 \<and> ret (r_versioncb p) = 0 \<and> ret (r_headerFieldcb p) = 0 \<and>
     ret (r_headerValuecb p) = 0 \<and> ret (r_headerCmpcb p) = 0 \<and> ret (r_messageBegcb p) = 0 \<and> (\<forall>x. ret_with (r_Bodycb p) x = 0) \<and>
     (\<forall>x. ret_with (r_urlCmpcb p) x = 0) \<and> (\<forall>x. ret_with (r_versionCmpcb p) x = 0) \<and> (\<forall>x. ret_with (r_methodCmpcb p) x = 0) \<and>
     (\<forall>q. ret_with (r_messageCmpcb p) q = 0)"

lemma quiet_update [simp]:
  "quiet (p\<lparr>r_headerfield := a\<rparr>) = quiet p" "quiet (p\<lparr>r_headervalue := a\<rparr>) = quiet p" "quiet (p\<lparr>r_method := a\<rparr>) = quiet p"
  "quiet (p\<lparr>r_version := a\<rparr>) = quiet p" "quiet (p\<lparr>r_url := a\<rparr>) = quiet p" "quiet (p\<lparr>r_body := a\<rparr>) = quiet p"
  "quiet (p\<lparr>r_data := b\<rparr>) = quiet p"
  by (simp_all add: quiet_def)

lemma events_append:
  "request_events mk gz (es @ fs) p =
     bnd (request_events mk gz es p) (\<lambda>(ok, p1). if ok then request_events mk gz fs p1 else Inr (False, p1))"
  by (induction es arbitrary: p) (auto simp: bnd_def split: sum.splits)

text \<open>Pieces of one span, however it is cut.\<close>

lemma method_pieces:
  "quiet p \<Longrightarrow> request_events mk gz (map EvMethod xs) p = Inr (True, p\<lparr>r_method := r_method p @ concat xs\<rparr>)"
  by (induction xs arbitrary: p) (auto simp: on_Method_def quiet_def)

lemma version_pieces:
  "quiet p \<Longrightarrow> request_events mk gz (map EvVersion xs) p = Inr (True, p\<lparr>r_version := r_version p @ concat xs\<rparr>)"
  by (induction xs arbitrary: p) (auto simp: on_Version_def quiet_def)

lemma value_pieces:
  "quiet p \<Longrightarrow> request_events mk gz (map EvHeaderValue xs) p = Inr (True, p\<lparr>r_headervalue := r_headervalue p @ concat xs\<rparr>)"
  by (induction xs arbitrary: p) (auto simp: on_header_value_def quiet_def)

lemma body_pieces:
  "quiet p \<Longrightarrow> request_events mk gz (map EvBody xs) p = Inr (True, p\<lparr>r_body := r_body p @ concat xs\<rparr>)"
  by (induction xs arbitrary: p) (auto simp: on_body_def quiet_def)

lemma url_pieces:
  "quiet p \<Longrightarrow> length (r_url p) + length (concat xs) \<le> 8192 \<Longrightarrow>
   request_events mk gz (map EvUrl xs) p = Inr (True, p\<lparr>r_url := r_url p @ concat xs\<rparr>)"
  by (induction xs arbitrary: p) (auto simp: on_Url_def quiet_def)

text \<open>The headers with the one that is still being read.\<close>

definition headers_so_far :: "HttpRequestParser \<Rightarrow> HttpRequest" where
  "headers_so_far p = (if r_headerfield p \<noteq> [] then request_setHeader (r_headerfield p) (r_headervalue p) (r_data p) else r_data p)"

definition header_events :: "(string \<times> string list) list \<Rightarrow> llhttp_event list" where
  "header_events hs = concat (map (\<lambda>(f, vs). EvHeaderField f # map EvHeaderValue vs) hs)"

abbreviation header_list :: "(string \<times> string list) list \<Rightarrow> (string \<times> string) list" where
  "header_list hs \<equiv> map (\<lambda>(f, vs). (headerFieldFormat f, concat vs)) hs"

lemma headerFieldFormat_length [simp]: "length (headerFieldFormat s) = length s"
  by (cases s) (simp_all add: headerFieldFormat_eq)

lemma header_pieces:
  assumes "quiet p" and "\<forall>(f, vs)\<in>set hs. f \<noteq> [] \<and> length f \<le> 4096 \<and> concat vs \<noteq> []"
    and "r_headerfield p = [] \<or> r_headervalue p \<noteq> []" and "length (r_headerfield p) \<le> 4096"
  shows "\<exists>d f v. request_events mk gz (header_events hs) p = Inr (True, p\<lparr>r_data := d, r_headerfield := f, r_headervalue := v\<rparr>) \<and>
    headers_so_far (p\<lparr>r_data := d, r_headerfield := f, r_headervalue := v\<rparr>) =
      fold (\<lambda>(k, v). request_setHeader k v) (header_list hs) (headers_so_far p)"
  using assms
proof (induction hs arbitrary: p)
  case Nil
  have "p = p\<lparr>r_data := r_data p, r_headerfield := r_headerfield p, r_headervalue := r_headervalue p\<rparr>"
    by simp
  then show ?case
    by (intro exI[of _ "r_data p"] exI[of _ "r_headerfield p"] exI[of _ "r_headervalue p"]) (simp add: header_events_def)
next
  case (Cons h hs)
  obtain f vs where h: "h = (f, vs)" by (cases h)
  have f: "f \<noteq> []" "length f \<le> 4096" "concat vs \<noteq> []"
    using Cons.prems(2) h by auto
  define p1 where "p1 = p\<lparr>r_data := headers_so_far p, r_headerfield := headerFieldFormat f, r_headervalue := concat vs\<rparr>"
  have q1: "quiet p1"
    using Cons.prems(1) by (simp add: p1_def)
  have "request_event mk gz (EvHeaderField f) p =
      Inr (0, p\<lparr>r_data := headers_so_far p, r_headerfield := headerFieldFormat f, r_headervalue := []\<rparr>)"
    using Cons.prems f by (auto simp: on_header_field_def headers_so_far_def quiet_def Let_def)
  then have 1: "request_events mk gz (header_events (h # hs)) p = request_events mk gz (header_events hs) p1"
    using Cons.prems(1) by (simp add: header_events_def h events_append value_pieces p1_def)
  have "headerFieldFormat f \<noteq> []"
    using f(1) headerFieldFormat_length[of f] by (metis length_0_conv)
  then have hs1: "headers_so_far p1 = request_setHeader (headerFieldFormat f) (concat vs) (headers_so_far p)"
    by (simp add: p1_def headers_so_far_def[of "p\<lparr>r_data := a, r_headerfield := b, r_headervalue := c\<rparr>" for a b c])
  obtain d g v where "request_events mk gz (header_events hs) p1 = Inr (True, p1\<lparr>r_data := d, r_headerfield := g, r_headervalue := v\<rparr>)"
    "headers_so_far (p1\<lparr>r_data := d, r_headerfield := g, r_headervalue := v\<rparr>) =
      fold (\<lambda>(k, v). request_setHeader k v) (header_list hs) (headers_so_far p1)"
    using Cons.IH[OF q1] Cons.prems(2) f by (auto simp: p1_def)
  moreover have "p1\<lparr>r_data := d, r_headerfield := g, r_headervalue := v\<rparr> = p\<lparr>r_data := d, r_headerfield := g, r_headervalue := v\<rparr>"
    by (simp add: p1_def)
  ultimately show ?case
    using 1 hs1 h by auto
qed

lemma fold_frame:
  assumes "\<And>x q. \<exists>v. f x q = upd v q" and "\<And>v w q. upd v (upd w q) = upd v q" and "\<And>q. upd (sel q) q = q"
  shows "\<exists>v. fold f xs q = upd v q"
proof (induction xs arbitrary: q)
  case Nil
  then show ?case using assms(3)[of q] by (metis fold_simps(1))
next
  case (Cons x xs)
  then show ?case using assms(1)[of x q] assms(2) by (metis fold_simps(2))
qed

lemma set_params_frame: "\<exists>ps. set_params s q = q\<lparr>q_param := ps\<rparr>"
proof -
  have "\<exists>ps. fold (\<lambda>(k, v). setParam k v) kvs q = q\<lparr>q_param := ps\<rparr>" for kvs
    by (rule fold_frame[of _ "\<lambda>v q. q\<lparr>q_param := v\<rparr>" q_param]) (auto simp: setParam_def)
  then show ?thesis by (simp add: set_params_def)
qed

lemma parseQuery_frame: "\<exists>ps. parseQuery q = q\<lparr>q_param := ps\<rparr>"
  using set_params_frame[of "q_query q" q] by (auto simp: parseQuery_def intro: exI[of _ "q_param q"])

lemma parseCookie_frame: "\<exists>cs. parseCookie q = q\<lparr>q_cookie := cs\<rparr>"
proof -
  have "\<exists>cs. fold (\<lambda>(k, v). setCookie k v) kvs q = q\<lparr>q_cookie := cs\<rparr>" for kvs
    by (rule fold_frame[of _ "\<lambda>v q. q\<lparr>q_cookie := v\<rparr>" q_cookie]) (auto simp: setCookie_def)
  then show ?thesis by (auto simp: parseCookie_def intro: exI[of _ "q_cookie q"] split: option.split)
qed

lemma setHeaders_frame: "\<exists>hs. fold (\<lambda>(k, v). request_setHeader k v) kvs q = q\<lparr>q_header := hs\<rparr>"
  by (rule fold_frame[of _ "\<lambda>v q. q\<lparr>q_header := v\<rparr>" q_header]) (auto simp: request_setHeader_def)

text \<open>What \<open>llhttp\<close> reports of a request: method, target, version, header values and body cut in any way, header
  names whole.\<close>

definition request_message ::
  "string list \<Rightarrow> string list \<Rightarrow> string list \<Rightarrow> (string \<times> string list) list \<Rightarrow> bool \<Rightarrow> string list \<Rightarrow> llhttp_event list"
where
  "request_message ms us vs hs keep bs =
     [EvMessageBegin] @ map EvMethod ms @ [EvMethodComplete] @ map EvUrl us @ [EvUrlComplete] @ map EvVersion vs @
     [EvVersionComplete 1 1] @ header_events hs @ [EvHeadersComplete keep] @ map EvBody bs @ [EvMessageComplete]"

text \<open>The state of the parser after the request line, and after the headers.\<close>

definition after_line :: "HttpMethod \<Rightarrow> Url \<Rightarrow> HttpRequest" where
  "after_line m u =
     parseQuery ((request_new 0x11 True)\<lparr>q_method := m, q_path := url_getPath u, q_query := url_query u, q_fragment := url_fragment u\<rparr>)"

definition fresh_parser :: "HttpRequestParser \<Rightarrow> bool" where
  "fresh_parser p \<longleftrightarrow> quiet p \<and> r_headerfield p = [] \<and> r_headervalue p = [] \<and> r_method p = [] \<and> r_version p = [] \<and> r_url p = [] \<and>
     r_body p = [] \<and> r_data p = request_new 0x11 True"

lemma request_line:
  assumes p: "fresh_parser p"
    and m: "StringToHttpMethod (concat ms) = m" "m \<noteq> INVAILD_METHOD"
    and u: "length (concat us) \<le> 8192" "mk (concat us) = Some u" "url_host u = []" and v: "concat vs = ''1.1''"
  shows "request_events mk gz ([EvMessageBegin] @ map EvMethod ms @ [EvMethodComplete] @ map EvUrl us @ [EvUrlComplete] @ map EvVersion vs @
      [EvVersionComplete 1 1] @ es) p =
    request_events mk gz es (p\<lparr>r_method := concat ms, r_url := concat us, r_version := ''1.1'', r_data := after_line m u\<rparr>)"
proof -
  have q: "quiet p" and z: "r_method p = []" "r_version p = []" "r_url p = []" "r_data p = request_new 0x11 True"
    using p by (simp_all add: fresh_parser_def)
  let ?p1 = "p\<lparr>r_method := concat ms, r_data := (request_new 0x11 True)\<lparr>q_method := m\<rparr>\<rparr>"
  have 1: "request_events mk gz ([EvMessageBegin] @ map EvMethod ms @ [EvMethodComplete] @ fs) p = request_events mk gz fs ?p1" for fs
    using q z m by (simp add: events_append method_pieces on_message_begin_def on_Method_complate_def Let_def quiet_def)
  obtain ps where ps: "after_line m u = (request_new 0x11 True)\<lparr>q_method := m, q_path := url_getPath u, q_query := url_query u,
      q_fragment := url_fragment u, q_param := ps\<rparr>"
    using parseQuery_frame unfolding after_line_def by blast
  let ?p2 = "p\<lparr>r_method := concat ms, r_url := concat us, r_data := after_line m u\<rparr>"
  have 2: "request_events mk gz (map EvUrl us @ [EvUrlComplete] @ fs) ?p1 = request_events mk gz fs ?p2" for fs
    using q z u by (simp add: events_append url_pieces on_Url_complate_def Let_def quiet_def after_line_def)
  have "version_byte 1 1 = 0x11"
    by (simp add: version_byte_def)
  moreover have "c_str ''HTTP/1.1'' = ''HTTP/1.1''"
    by (simp add: c_str_def)
  moreover have "(after_line m u)\<lparr>q_version := 0x11\<rparr> = after_line m u"
    by (simp add: ps request_new_def)
  ultimately have "request_events mk gz (map EvVersion vs @ [EvVersionComplete 1 1] @ es) ?p2 =
      request_events mk gz es (p\<lparr>r_method := concat ms, r_url := concat us, r_version := ''1.1'', r_data := after_line m u\<rparr>)"
    using q z v by (simp add: events_append version_pieces on_Version_complate_def Let_def quiet_def)
  then show ?thesis
    using 1[of "map EvUrl us @ [EvUrlComplete] @ map EvVersion vs @ [EvVersionComplete 1 1] @ es"]
      2[of "map EvVersion vs @ [EvVersionComplete 1 1] @ es"] by simp
qed

text \<open>The fields of a list of pairs of which the last one counts.\<close>

abbreviation last_of :: "(string \<times> string) list \<Rightarrow> string \<Rightarrow> string \<Rightarrow> string" where
  "last_of kvs k d \<equiv> (case fields_map (rev kvs) (fkey k) of Some v \<Rightarrow> v | None \<Rightarrow> d)"

lemma fields_map_format: "fields_map (rev (header_list hs)) = fields_map (rev (map (\<lambda>(f, vs). (f, concat vs)) hs))"
  by (simp add: rev_map comp_def split_def)

lemma last_of_none: "\<forall>(f, vs)\<in>set hs. fkey f \<noteq> fkey k \<Longrightarrow> fields_map (rev (map (\<lambda>(f, vs). (f, concat vs)) hs)) (fkey k) = None"
  by (induction hs) (auto simp: map_add_def)

lemma parseQuery_get:
  assumes "q_param q = []"
  shows "getParam k d (parseQuery q) = last_of (map (\<lambda>(k, v). (UrlDecode k, UrlDecode v)) (query_pairs (q_query q))) k d"
proof -
  have "parseQuery q = fold (\<lambda>(k, v). setParam k v) (map (\<lambda>(k, v). (UrlDecode k, UrlDecode v)) (query_pairs (q_query q))) q"
    by (simp add: parseQuery_def set_params_def urlDecode_param_def query_pairs.simps[of "[]"])
  moreover have "getParam k d q = d"
    using assms by (simp add: getParam_def fields_get_def)
  ultimately show ?thesis
    using qp.put_all(2)[of q k d] assms by (simp split: option.split)
qed

lemma parseCookie_get:
  assumes "q_cookie q = []"
  shows "getCookie k d (parseCookie q) = last_of (cookie_pairs (request_getHeader ''Cookie'' [] q)) k d"
proof -
  have e: "getCookie k d q = d"
    using assms by (simp add: getCookie_def fields_get_def)
  show ?thesis
  proof (cases "fields_find (q_header q) ''Cookie''")
    case None
    then show ?thesis using e by (simp add: parseCookie_def request_getHeader_def fields_get_def cookie_pairs.simps[of "[]"])
  next
    case (Some c)
    then show ?thesis
      using qc.put_all(2)[of q k d "cookie_pairs c"] assms e by (simp add: parseCookie_def request_getHeader_def fields_get_def split: option.split)
  qed
qed

lemma message_end:
  assumes "quiet p" and "\<not> checkEncoding (request_getHeader ''Content-Encoding'' [] (r_data p)) ''gzip''"
    and "\<not> contains_text (request_getHeader ''Content-Type'' [] (r_data p)) ''application/x-www-form-urlencoded''"
  shows "request_events mk gz (map EvBody bs @ [EvMessageComplete]) p =
    Inr (True, p\<lparr>r_body := r_body p @ concat bs, r_data := (r_data p)\<lparr>q_body := r_body p @ concat bs\<rparr>\<rparr>)"
  using assms by (simp add: events_append body_pieces on_Message_complate_def parsePostBody_def request_getHeader_def Let_def quiet_def)

lemma request_run:
  assumes p: "fresh_parser p"
    and m: "StringToHttpMethod (concat ms) = m" "m \<noteq> INVAILD_METHOD"
    and u: "length (concat us) \<le> 8192" "mk (concat us) = Some u" "url_host u = []" and v: "concat vs = ''1.1''"
    and hs: "\<forall>(f, xs)\<in>set hs. f \<noteq> [] \<and> length f \<le> 4096 \<and> concat xs \<noteq> [] \<and> fkey f \<noteq> fkey ''Content-Encoding'' \<and> fkey f \<noteq> fkey ''Content-Type''"
  shows "\<exists>p'. request_events mk gz (request_message ms us vs hs keep bs) p = Inr (True, p') \<and>
    q_method (r_data p') = m \<and> q_path (r_data p') = url_getPath u \<and> q_query (r_data p') = url_query u \<and> q_version (r_data p') = 0x11 \<and>
    q_keepAlive (r_data p') = keep \<and> q_body (r_data p') = concat bs \<and>
    (\<forall>k d. request_getHeader k d (r_data p') = last_of (map (\<lambda>(f, xs). (f, concat xs)) hs) k d) \<and>
    (\<forall>k d. getParam k d (r_data p') =
       last_of (map (\<lambda>(k, v). (UrlDecode k, UrlDecode v)) (query_pairs (url_query u))) k d) \<and>
    (\<forall>k d. getCookie k d (r_data p') = last_of (cookie_pairs (last_of (map (\<lambda>(f, xs). (f, concat xs)) hs) ''Cookie'' [])) k d) \<and>
    r_method p' = concat ms \<and> quiet p'"
proof -
  let ?hs = "map (\<lambda>(f, xs). (f, concat xs)) hs"
  define p1 where "p1 = p\<lparr>r_method := concat ms, r_url := concat us, r_version := ''1.1'', r_data := after_line m u\<rparr>"
  have p1: "quiet p1" "r_headerfield p1 = []" "r_headervalue p1 = []" "r_body p1 = []" "r_data p1 = after_line m u"
    using p by (simp_all add: p1_def fresh_parser_def)
  obtain ps where ps: "after_line m u = (request_new 0x11 True)\<lparr>q_method := m, q_path := url_getPath u, q_query := url_query u,
      q_fragment := url_fragment u, q_param := ps\<rparr>"
    using parseQuery_frame unfolding after_line_def by blast
  have param: "getParam k d (after_line m u) = last_of (map (\<lambda>(k, v). (UrlDecode k, UrlDecode v)) (query_pairs (url_query u))) k d" for k d
    unfolding after_line_def by (subst parseQuery_get) (simp_all add: request_new_def)
  have hs': "\<forall>(f, xs)\<in>set hs. f \<noteq> [] \<and> length f \<le> 4096 \<and> concat xs \<noteq> []"
    using hs by auto
  obtain d f w where e: "request_events mk gz (header_events hs) p1 = Inr (True, p1\<lparr>r_data := d, r_headerfield := f, r_headervalue := w\<rparr>)"
    and h: "headers_so_far (p1\<lparr>r_data := d, r_headerfield := f, r_headervalue := w\<rparr>) =
      fold (\<lambda>(k, v). request_setHeader k v) (header_list hs) (after_line m u)"
    using header_pieces[OF p1(1) hs', of mk gz] p1 by (auto simp: headers_so_far_def)
  define q where "q = fold (\<lambda>(k, v). request_setHeader k v) (header_list hs) (after_line m u)"
  obtain hd where hd: "q = (after_line m u)\<lparr>q_header := hd\<rparr>"
    using setHeaders_frame unfolding q_def by blast
  have hdr: "fields_ok (q_header q)" "request_getHeader k d q = last_of ?hs k d" for k d
  proof -
    have z: "q_header (after_line m u) = []"
      by (simp add: ps request_new_def)
    then have "request_getHeader k d (after_line m u) = d"
      by (simp add: request_getHeader_def fields_get_def)
    then show "fields_ok (q_header q)" "request_getHeader k d q = last_of ?hs k d"
      using qh.put_all[of "after_line m u"] z by (simp_all add: q_def fields_map_format split: option.split)
  qed
  let ?p2 = "p1\<lparr>r_data := d, r_headerfield := f, r_headervalue := w\<rparr>"
  obtain cs where cs: "parseCookie (q\<lparr>q_keepAlive := keep\<rparr>) = q\<lparr>q_keepAlive := keep, q_cookie := cs\<rparr>"
    using parseCookie_frame by blast
  let ?q3 = "q\<lparr>q_keepAlive := keep, q_cookie := cs\<rparr>"
  let ?p3 = "?p2\<lparr>r_data := ?q3\<rparr>"
  have e3: "request_events mk gz (EvHeadersComplete keep # es) ?p2 = request_events mk gz es ?p3" for es
    using p1(1) h cs by (simp add: on_Header_complate_def headers_so_far_def Let_def quiet_def flip: q_def)
  have hdr3: "request_getHeader k d ?q3 = last_of ?hs k d" for k d
    using hdr(2) by (simp add: request_getHeader_def)
  have "request_getHeader ''Content-Encoding'' [] ?q3 = []" "request_getHeader ''Content-Type'' [] ?q3 = []"
    unfolding hdr3 using hs by (subst last_of_none; auto)+
  moreover have "\<not> checkEncoding [] ''gzip''" "\<not> contains_text [] ''application/x-www-form-urlencoded''"
    by (simp_all add: checkEncoding_def contains_text_def getline_items.simps)
  ultimately have e4: "request_events mk gz (map EvBody bs @ [EvMessageComplete]) ?p3 =
      Inr (True, ?p3\<lparr>r_body := concat bs, r_data := ?q3\<lparr>q_body := concat bs\<rparr>\<rparr>)"
    using message_end[of ?p3 mk gz bs] p1(1,4) by simp
  have run: "request_events mk gz (request_message ms us vs hs keep bs) p =
      Inr (True, ?p3\<lparr>r_body := concat bs, r_data := ?q3\<lparr>q_body := concat bs\<rparr>\<rparr>)"
    using request_line[where mk = mk and gz = gz and ms = ms and us = us and vs = vs, OF p m u v] e e3 e4 by (simp add: request_message_def events_append flip: p1_def)
  have cookie: "getCookie k d ?q3 = last_of (cookie_pairs (last_of ?hs ''Cookie'' [])) k d" for k d
  proof -
    have "q_cookie (q\<lparr>q_keepAlive := keep\<rparr>) = []"
      by (simp add: hd ps request_new_def)
    moreover have "request_getHeader ''Cookie'' [] (q\<lparr>q_keepAlive := keep\<rparr>) = last_of ?hs ''Cookie'' []"
      using hdr(2) by (simp add: request_getHeader_def)
    ultimately show ?thesis
      using parseCookie_get[of "q\<lparr>q_keepAlive := keep\<rparr>" k d] unfolding cs by simp
  qed
  have "r_method (?p3\<lparr>r_body := concat bs, r_data := ?q3\<lparr>q_body := concat bs\<rparr>\<rparr>) = concat ms" "quiet (?p3\<lparr>r_body := concat bs, r_data := ?q3\<lparr>q_body := concat bs\<rparr>\<rparr>)"
    using p1(1) by (simp_all add: p1_def)
  then show ?thesis
    using run hdr3 cookie param
    by (auto simp: hd ps request_new_def request_getHeader_def getParam_def getCookie_def)
qed


definition demo_url :: "string \<Rightarrow> Url option" where
  "demo_url s = Some (url_new\<lparr>url_path := s\<rparr>)"

lemma fresh_new: "fresh_parser HttpRequestParser_new" "\<forall>q. cb q = 0 \<Longrightarrow> fresh_parser (on_MessageComplate cb HttpRequestParser_new)"
  by (simp_all add: fresh_parser_def quiet_def HttpRequestParser_new_def on_MessageComplate_def ret_def ret_with_def)

lemma StringToHttpMethod_GET: "StringToHttpMethod ''GET'' = 1"
  by code_simp


subsection \<open>What goes wrong\<close>

text \<open>C33. A header name that \<open>llhttp\<close> reports in two pieces, as it does when a read ends inside it, is lost: each piece starts a
  new field, so the value is stored under the second piece and the header itself keeps the value it had, if any.\<close>

theorem split_field_lost:
  assumes "fields_ok (q_header (r_data p))" and "quiet p" and "r_headerfield p = []"
    and "a \<noteq> []" and "b \<noteq> []" and "length a + length b \<le> 4096" and "CHR 0x00 \<notin> set (a @ b)"
  shows "\<exists>p'. request_events mk gz [EvHeaderField a, EvHeaderField b, EvHeaderValue v, EvHeadersComplete keep] p = Inr (True, p') \<and>
    request_getHeader (a @ b) d (r_data p') = request_getHeader (a @ b) d (r_data p) \<and> request_getHeader b d (r_data p') = v"
proof -
  have nul: "c_str a = a" "c_str b = b" "c_str (a @ b) = a @ b"
    using assms(7) by (intro c_str_id; simp)+
  have k: "fkey (a @ b) \<noteq> fkey b"
    using assms(4) nul arg_cong[of "fkey (a @ b)" "fkey b" length] by (auto simp: fkey_def)
  have ne: "headerFieldFormat b \<noteq> []"
    using assms(5) headerFieldFormat_length[of b] by (metis length_0_conv)
  let ?q = "request_setHeader (headerFieldFormat b) v (r_data p)"
  have "\<exists>p' cs. request_events mk gz [EvHeaderField a, EvHeaderField b, EvHeaderValue v, EvHeadersComplete keep] p = Inr (True, p') \<and>
      r_data p' = ?q\<lparr>q_keepAlive := keep, q_cookie := cs\<rparr>"
    using assms(2,3,6) ne parseCookie_frame[of "?q\<lparr>q_keepAlive := keep\<rparr>"]
    by (auto simp: on_header_field_def on_header_value_def on_Header_complate_def quiet_def Let_def)
  then obtain p' cs where p': "request_events mk gz [EvHeaderField a, EvHeaderField b, EvHeaderValue v, EvHeadersComplete keep] p = Inr (True, p')"
    "r_data p' = ?q\<lparr>q_keepAlive := keep, q_cookie := cs\<rparr>" by blast
  have "request_getHeader j d (r_data p') = request_getHeader j d ?q" for j
    by (simp add: p'(2) request_getHeader_def)
  then show ?thesis
    using p'(1) k qh.get_put[OF assms(1)] by auto
qed

theorem split_field_lost_witness:
  "\<exists>p'. request_events demo_url Some [EvHeaderField ''Content-Le'', EvHeaderField ''ngth'', EvHeaderValue ''5'', EvHeadersComplete True] HttpRequestParser_new =
     Inr (True, p') \<and> request_getHeader (''Content-Le'' @ ''ngth'') [] (r_data p') = [] \<and> request_getHeader ''ngth'' [] (r_data p') = ''5''"
  using split_field_lost[of HttpRequestParser_new "''Content-Le''" "''ngth''" demo_url Some "''5''" True "[]"] fresh_new(1)
  by (simp add: fresh_parser_def request_getHeader_def fields_get_def request_new_def)

end
