(* ===== verification/HttpSession.thy ===== *)
theory HttpSession
  imports HttpParser
begin

text \<open>
  A connection to the HTTP server: reading requests and sending responses (\<open>src/src/http/httpsession.cpp\<close>), the choice of the
  servlet (\<open>httpservlet.{h,cpp}\<close>) and the loop over the requests of a connection (\<open>HttpServer::handleClient\<close> in
  \<open>httpserver.cpp\<close>). \<open>lexer\<close> and \<open>finish\<close> are \<open>llhttp_execute\<close> and \<open>llhttp_finish\<close> on the
  state of the library: the events they report, and whether the input was in order. \<open>fnmatch\<close>, gzip and the sockets are
  arguments.
\<close>

subsection \<open>Reading a request\<close>

datatype read_result = Bytes string | Closed | Again | Failed

datatype llhttp_errno = HPE_OK | HPE_PAUSED_UPGRADE | HPE_ERROR

datatype RecvStatus = RecvOK | RecvERROR | RecvCLOSE

text \<open>Whether the callback for a complete message, which sets \<open>m_isFinish\<close>, is reached.\<close>

fun completes :: "(string \<Rightarrow> Url option) \<Rightarrow> (string \<Rightarrow> string option) \<Rightarrow> llhttp_event list \<Rightarrow> HttpRequestParser \<Rightarrow> bool" where
  "completes mk gz [] p = False"
| "completes mk gz (e # es) p =
     (case request_event mk gz e p of Inl _ \<Rightarrow> False
      | Inr (rt, p1) \<Rightarrow> e = EvMessageComplete \<or> (rt = 0 \<and> completes mk gz es p1))"

type_synonym ('l) llhttp = "'l \<Rightarrow> string \<Rightarrow> llhttp_event list \<times> llhttp_errno \<times> 'l"

text \<open>
  Each turn of the loop reads the size \<open>s_http_request_buffer_size\<close>, which all sessions share, and asks for as many bytes
  as are missing to it; \<open>vec\<close> is the size of the vector they go to. An element of the list is what
  another session has stored in the size since, if anything, and what the read returns. \<open>None\<close>: the session still waits.
\<close>

fun recv_loop ::
  "(string \<Rightarrow> Url option) \<Rightarrow> (string \<Rightarrow> string option) \<Rightarrow> 'l llhttp \<Rightarrow> ('l \<Rightarrow> llhttp_event list) \<Rightarrow> (nat option \<times> read_result) list \<Rightarrow>
   nat \<Rightarrow> nat \<Rightarrow> bool \<Rightarrow> 'l \<Rightarrow> HttpRequestParser \<Rightarrow> nat \<Rightarrow> (RecvStatus \<times> HttpRequest option) option res"
where
  "recv_loop mk gz lexer finish [] vec offset fin l p gsize = Inr None"
| "recv_loop mk gz lexer finish ((g, r) # rs) vec offset fin l p gsize =
     (let size = (case g of Some n \<Rightarrow> n | None \<Rightarrow> gsize) in
      case r of
        Closed \<Rightarrow>
          bnd (request_events mk gz (finish l) p) (\<lambda>(_, p1).
            if fin \<or> completes mk gz (finish l) p then Inr (Some (RecvOK, Some (r_data p1))) else Inr (Some (RecvCLOSE, None)))
      | Again \<Rightarrow> recv_loop mk gz lexer finish rs vec offset fin l p size
      | Failed \<Rightarrow> Inr (Some (RecvERROR, None))
      | Bytes d \<Rightarrow>
          if offset + length d > vec then Inl OutOfBounds
          else
            let (es, err, l1) = lexer l d in
            bnd (request_events mk gz es p) (\<lambda>(ok, p1).
              let offset1 = offset + length d; fin1 = (fin \<or> completes mk gz es p); e = (if ok then err else HPE_ERROR) in
              if e \<noteq> HPE_OK
              then if e = HPE_PAUSED_UPGRADE then Inr (Some (RecvOK, Some (r_data p1))) else Inr (Some (RecvERROR, None))
              else if fin1 then Inr (Some (RecvOK, Some (r_data p1)))
              else if offset1 \<ge> size then recv_loop mk gz lexer finish rs (size * 2) offset1 fin1 l1 p1 (size * 2)
              else recv_loop mk gz lexer finish rs vec offset1 fin1 l1 p1 size))"

definition recvRequest ::
  "(string \<Rightarrow> Url option) \<Rightarrow> (string \<Rightarrow> string option) \<Rightarrow> 'l llhttp \<Rightarrow> ('l \<Rightarrow> llhttp_event list) \<Rightarrow> 'l \<Rightarrow> nat \<Rightarrow>
   (nat option \<times> read_result) list \<Rightarrow> (RecvStatus \<times> HttpRequest option) option res"
where
  "recvRequest mk gz lexer finish l gsize rs =
     recv_loop mk gz lexer finish rs gsize 0 False l (on_MessageComplate (\<lambda>_. 0) HttpRequestParser_new) gsize"

subsection \<open>Sending a response\<close>

definition sendResponse :: "(string \<Rightarrow> string option) \<Rightarrow> HttpResponse \<Rightarrow> HttpRequest \<Rightarrow> (string \<times> HttpResponse) res" where
  "sendResponse compress response request =
     (let body = p_body response in
      if body \<noteq> [] \<and> checkEncoding (request_getHeader ''Accept-Encoding'' [] request) ''gzip'' \<and> length body > 20
      then case compress body of None \<Rightarrow> Inl UncaughtException
        | Some z \<Rightarrow>
          let r = response_setHeader ''Content-Encoding'' ''gzip''
                    (response_setHeader ''Content-Length'' (to_string_nat (length z)) (response\<lparr>p_body := z\<rparr>))
          in Inr (response_toString r, r)
      else Inr (response_toString response, response))"

subsection \<open>Servlets\<close>

text \<open>A servlet turns request and response into a result and the new response.\<close>

type_synonym Servlet = "HttpRequest \<Rightarrow> HttpResponse \<Rightarrow> int \<times> HttpResponse"

record ServletDispatch =
  m_pinpointData :: "string \<rightharpoonup> Servlet"
  m_blurData :: "(string \<times> Servlet) list"
  m_default :: "Servlet option"

text \<open>\<open>page\<close> is the text of the page.\<close>

definition NotFoundServlet_handle :: "string \<Rightarrow> Servlet" where
  "NotFoundServlet_handle page request response =
     (0, (response_setHeader ''Content-Length'' (to_string_nat (length page))
           (response_setHeader ''Content-Type'' ''text/html''
             (response_setHeader ''Server'' ''blue/1.0.0'' (response\<lparr>p_status := 404\<rparr>))))\<lparr>p_body := page\<rparr>)"

definition ServletDispatch_new :: "string \<Rightarrow> ServletDispatch" where
  "ServletDispatch_new page = \<lparr>m_pinpointData = Map.empty, m_blurData = [], m_default = Some (NotFoundServlet_handle page)\<rparr>"

definition setDefault :: "Servlet option \<Rightarrow> ServletDispatch \<Rightarrow> ServletDispatch" where
  "setDefault defval d = d\<lparr>m_default := defval\<rparr>"

definition addServlet :: "string \<Rightarrow> Servlet \<Rightarrow> ServletDispatch \<Rightarrow> ServletDispatch" where
  "addServlet url sv d = d\<lparr>m_pinpointData := (m_pinpointData d)(url \<mapsto> sv)\<rparr>"

text \<open>The first element that satisfies a test is removed.\<close>

fun erase_first :: "('a \<Rightarrow> bool) \<Rightarrow> 'a list \<Rightarrow> 'a list" where
  "erase_first P [] = []"
| "erase_first P (x # xs) = (if P x then xs else x # erase_first P xs)"

text \<open>\<open>fnm\<close> says whether a pattern matches a text.\<close>

definition addBlurServlet :: "(string \<Rightarrow> string \<Rightarrow> bool) \<Rightarrow> string \<Rightarrow> Servlet \<Rightarrow> ServletDispatch \<Rightarrow> ServletDispatch" where
  "addBlurServlet fnm url sv d = d\<lparr>m_blurData := erase_first (\<lambda>(pat, _). fnm pat url) (m_blurData d) @ [(url, sv)]\<rparr>"

definition delServlet :: "string \<Rightarrow> ServletDispatch \<Rightarrow> ServletDispatch" where
  "delServlet url d = d\<lparr>m_pinpointData := (m_pinpointData d)(url := None)\<rparr>"

definition delBlurServlet :: "(string \<Rightarrow> string \<Rightarrow> bool) \<Rightarrow> string \<Rightarrow> ServletDispatch \<Rightarrow> ServletDispatch" where
  "delBlurServlet fnm url d = d\<lparr>m_blurData := erase_first (\<lambda>(pat, _). fnm pat url) (m_blurData d)\<rparr>"

definition getServlet :: "string \<Rightarrow> ServletDispatch \<Rightarrow> Servlet option" where
  "getServlet url d = m_pinpointData d url"

definition getBlurServlet :: "(string \<Rightarrow> string \<Rightarrow> bool) \<Rightarrow> string \<Rightarrow> ServletDispatch \<Rightarrow> Servlet option" where
  "getBlurServlet fnm url d = map_option snd (find (\<lambda>(pat, _). fnm pat url) (m_blurData d))"

definition getMatchedServlet :: "(string \<Rightarrow> string \<Rightarrow> bool) \<Rightarrow> string \<Rightarrow> ServletDispatch \<Rightarrow> Servlet option" where
  "getMatchedServlet fnm url d =
     (case m_pinpointData d url of Some sv \<Rightarrow> Some sv
      | None \<Rightarrow> (case find (\<lambda>(pat, _). fnm pat url) (m_blurData d) of Some (_, sv) \<Rightarrow> Some sv | None \<Rightarrow> m_default d))"

definition ServletDispatch_handle :: "(string \<Rightarrow> string \<Rightarrow> bool) \<Rightarrow> ServletDispatch \<Rightarrow> Servlet" where
  "ServletDispatch_handle fnm d request response =
     (case getMatchedServlet fnm (q_path request) d of Some sv \<Rightarrow> sv request response | None \<Rightarrow> (0, response))"

subsection \<open>Administration pages\<close>

record Admin =
  m_admin_token :: string
  m_admin_password :: string
  a_shutdown :: bool

definition admin_new :: Admin where
  "admin_new = \<lparr>m_admin_token = [], m_admin_password = ''admin123'', a_shutdown = False\<rparr>"

definition isAdminAuthenticated :: "HttpRequest \<Rightarrow> Admin \<Rightarrow> bool" where
  "isAdminAuthenticated request a =
     (let cookie = request_getHeader ''Cookie'' [] request in
      if cookie = [] then False
      else case find_sub ''admin_token='' cookie of None \<Rightarrow> False
        | Some pos \<Rightarrow> takeWhile (\<lambda>c. c \<noteq> CHR '';'') (drop (pos + 12) cookie) = m_admin_token a)"

definition setAdminCookie :: "string \<Rightarrow> HttpResponse \<Rightarrow> Admin \<Rightarrow> HttpResponse \<times> Admin" where
  "setAdminCookie token response a =
     (response_setHeader ''Set-Cookie'' (''admin_token='' @ token @ ''; Path=/; HttpOnly'') response, a\<lparr>m_admin_token := token\<rparr>)"

definition redirect_to :: "string \<Rightarrow> HttpResponse \<Rightarrow> HttpResponse" where
  "redirect_to url r = response_setHeader ''Location'' url (r\<lparr>p_status := 302\<rparr>)"

definition html_page :: "string \<Rightarrow> HttpResponse \<Rightarrow> HttpResponse" where
  "html_page body r = (response_setHeader ''Content-Type'' ''text/html; charset=utf-8'' (r\<lparr>p_body := body\<rparr>))\<lparr>p_status := 200\<rparr>"

text \<open>
  \<open>pages\<close> are the texts of the pages, with what they show of the server and the database; \<open>token\<close> is what
  \<open>generateToken\<close> draws at a login.
\<close>

definition handleAdmin :: "(string \<Rightarrow> string) \<Rightarrow> string \<Rightarrow> HttpRequest \<Rightarrow> HttpResponse \<Rightarrow> Admin \<Rightarrow> HttpResponse \<times> Admin" where
  "handleAdmin pages token request response a =
     (let path = q_path request in
      if path = ''/admin/logout''
      then (redirect_to ''/admin/login'' (response_setHeader ''Set-Cookie'' ''admin_token=; Path=/; Max-Age=0'' response), a)
      else if path = ''/admin/login''
      then
        if q_method request = 3
        then
          if getParam ''password'' [] request = m_admin_password a
          then (let (r, a1) = setAdminCookie token response a in (redirect_to ''/admin/'' r, a1))
          else (response\<lparr>p_body := pages ''invalid'', p_status := 200\<rparr>, a)
        else (html_page (pages ''login'') response, a)
      else if \<not> isAdminAuthenticated request a
      then (redirect_to ''/admin/login'' response, a)
      else if path = ''/admin/shutdown''
      then
        if q_method request = 3 then (html_page (pages ''shutdown'') response, a\<lparr>a_shutdown := True\<rparr>)
        else (html_page (pages ''confirm'') response, a)
      else
        let sub = drop 6 path; sub_path = (if sub = [] \<or> sub = ''/'' then ''/index'' else sub) in
        if sub_path = ''/api/stats''
        then
          let body = pages sub_path in
          ((response_setHeader ''Content-Length'' (to_string_nat (length body))
              (response_setHeader ''Content-Type'' ''application/json'' (response\<lparr>p_body := body\<rparr>)))\<lparr>p_status := 200\<rparr>, a)
        else
          let body = (if sub_path \<in> {''/index'', ''/logs'', ''/pools'', ''/config''} then pages sub_path else []) in
          ((response_setHeader ''Content-Length'' (to_string_nat (length body))
              (response_setHeader ''Content-Type'' ''text/html; charset=utf-8'' (response\<lparr>p_body := body\<rparr>)))\<lparr>p_status := 200\<rparr>, a))"

subsection \<open>The requests of a connection\<close>

text \<open>
  The list holds what \<open>recvRequest\<close> returns each time and the token a login would draw; the result is what was sent,
  whether this side closed the connection, and the state of the administration. \<open>env\<close> bundles the arguments.
\<close>

record http_env =
  fnmatch :: "string \<Rightarrow> string \<Rightarrow> bool"
  gzip :: "string \<Rightarrow> string option"
  admin_pages :: "string \<Rightarrow> string"

definition serve_one :: "http_env \<Rightarrow> ServletDispatch \<Rightarrow> bool \<Rightarrow> string \<Rightarrow> HttpRequest \<Rightarrow> Admin \<Rightarrow> HttpResponse \<times> Admin" where
  "serve_one env d keep token request a =
     (let response = response_new (q_version request) (q_keepAlive request \<or> keep); path = q_path request in
      if take 7 path = ''/admin/'' \<or> path = ''/admin'' then handleAdmin (admin_pages env) token request response a
      else (snd (ServletDispatch_handle (fnmatch env) d request response), a))"

fun handleClient ::
  "http_env \<Rightarrow> ServletDispatch \<Rightarrow> bool \<Rightarrow> (RecvStatus \<times> HttpRequest option \<times> string) list \<Rightarrow> Admin \<Rightarrow> (string list \<times> bool \<times> Admin) res"
where
  "handleClient env d keep [] a = Inr ([], False, a)"
| "handleClient env d keep ((st, rq, token) # rs) a =
     (if st = RecvERROR \<or> st = RecvCLOSE then Inr ([], True, a)
      else case rq of None \<Rightarrow> Inl NullDereference
        | Some request \<Rightarrow>
          let (response, a1) = serve_one env d keep token request a in
          bnd (sendResponse (gzip env) response request) (\<lambda>(sent, _).
            if q_keepAlive request \<or> keep
            then bnd (handleClient env d (q_keepAlive request \<or> keep) rs a1) (\<lambda>(ts, c, a2). Inr (sent # ts, c, a2))
            else Inr ([sent], True, a1)))"

subsection \<open>The buffer\<close>

lemma request_events_fault: "request_events mk gz es p = Inl e \<Longrightarrow> e = UncaughtException"
proof (induction es arbitrary: p)
  case (Cons x es)
  have "request_event mk gz x p = Inl e \<Longrightarrow> e = UncaughtException" for e
    by (cases x) (auto simp: on_Message_complate_def Let_def bnd_def split: if_splits option.splits)
  then show ?case
    using Cons by (auto simp: bnd_def split: sum.splits prod.splits if_splits)
qed simp

text \<open>A read returns no more bytes than it is asked for: the size that is current less the bytes already there.\<close>

fun reads_fit :: "(nat option \<times> read_result) list \<Rightarrow> nat \<Rightarrow> nat \<Rightarrow> bool" where
  "reads_fit [] offset gsize = True"
| "reads_fit ((g, r) # rs) offset gsize =
     (let size = (case g of Some n \<Rightarrow> n | None \<Rightarrow> gsize) in
      case r of Bytes d \<Rightarrow> length d \<le> size - offset \<and>
        reads_fit rs (offset + length d) (if offset + length d \<ge> size then size * 2 else size)
      | _ \<Rightarrow> reads_fit rs offset size)"

lemma recv_loop_fits:
  assumes "\<forall>(g, r)\<in>set rs. g = None" and "reads_fit rs offset gsize" and "offset \<le> gsize"
  shows "recv_loop mk gz lexer finish rs gsize offset fin l p gsize \<noteq> Inl OutOfBounds"
  using assms
proof (induction rs arbitrary: offset gsize fin l p)
  case (Cons x rs)
  obtain r where x: "x = (None, r)"
    using Cons.prems(1) by (cases x) auto
  have rs: "\<forall>(g, r)\<in>set rs. g = None"
    using Cons.prems(1) by auto
  have ev: "request_events mk gz es p \<noteq> Inl OutOfBounds" for es p
    using request_events_fault by fastforce
  show ?case
  proof (cases r)
    case (Bytes d)
    obtain es err l1 where lx: "lexer l d = (es, err, l1)" by (cases "lexer l d")
    have "length d \<le> gsize - offset"
      using Cons.prems(2) x Bytes by simp
    then have d: "offset + length d \<le> gsize"
      using Cons.prems(3) by linarith
    have "recv_loop mk gz lexer finish rs (gsize * 2) (offset + length d) f l' p' (gsize * 2) \<noteq> Inl OutOfBounds"
      if "gsize \<le> offset + length d" for f l' p'
      using Cons.IH[OF rs, of "offset + length d" "gsize * 2"] Cons.prems x Bytes d that by simp
    moreover have "recv_loop mk gz lexer finish rs gsize (offset + length d) f l' p' gsize \<noteq> Inl OutOfBounds"
      if "\<not> gsize \<le> offset + length d" for f l' p'
      using Cons.IH[OF rs, of "offset + length d" gsize] Cons.prems x Bytes d that by simp
    ultimately show ?thesis
      using x Bytes d ev[of es p] by (auto simp: lx bnd_def Let_def split: sum.split prod.split)
  next
    case Closed
    then show ?thesis
      using x ev[of "finish l" p] by (auto simp: bnd_def split: sum.split prod.split)
  next
    case Again
    then show ?thesis
      using x Cons.IH[OF rs] Cons.prems by simp
  qed (use x in simp)
qed simp

text \<open>C30. As long as no other session changes the shared buffer size, every read of a request stays within the buffer, however the bytes
  come and whatever \<open>llhttp\<close> makes of them; but the buffer is allocated for the size read at the start and filled
  up to the size read in each turn: when another session has raised it in between, a
  read that returns more than the buffer holds writes past its end.\<close>

theorem recv_buffer_bounds:
  "((\<forall>(g, r)\<in>set rs. g = None) \<and> reads_fit rs 0 n \<longrightarrow> recvRequest mk gz lexer finish l n rs \<noteq> Inl OutOfBounds) \<and>
   (n < length d \<and> length d \<le> m \<longrightarrow>
     reads_fit [(Some m, Bytes d)] 0 n \<and> recvRequest mk gz lexer finish l n ((Some m, Bytes d) # rs) = Inl OutOfBounds)"
proof (intro conjI impI)
  assume "(\<forall>(g, r)\<in>set rs. g = None) \<and> reads_fit rs 0 n"
  then show "recvRequest mk gz lexer finish l n rs \<noteq> Inl OutOfBounds"
    unfolding recvRequest_def by (intro recv_loop_fits) simp_all
qed (simp_all add: recvRequest_def)

theorem recv_buffer_bounds_witness:
  "recvRequest demo_url Some (\<lambda>l d. ([], HPE_OK, l)) (\<lambda>_. []) () 4 [(Some 8, Bytes ''GET / '')] = Inl OutOfBounds"
  using recv_buffer_bounds[of "[]" 4 demo_url Some "\<lambda>l d. ([], HPE_OK, l)" "\<lambda>_. []" "()" "''GET / ''" 8] by simp

subsection \<open>Two requests in one read\<close>

lemma completes_append:
  "request_events mk gz es p = Inr (True, p1) \<Longrightarrow> completes mk gz (es @ fs) p \<longleftrightarrow> EvMessageComplete \<in> set es \<or> completes mk gz fs p1"
  by (induction es arbitrary: p) (auto simp: bnd_def split: sum.splits prod.splits if_splits)

lemma GET_no_prefix: "list_all (\<lambda>x. StringToHttpMethod (''GET'' @ x) = INVAILD_METHOD) s_methods"
  by code_simp

text \<open>A GET request that arrives alone is returned; when the next request of the client arrives in the same read, neither is: the parser
  goes on with the second message and appends its method to that of the first, does not know the
  result, and the connection ends with an error before the first is answered.\<close>

theorem pipelined_requests_refused:
  assumes u: "length (concat us) \<le> 8192" "mk (concat us) = Some u" "url_host u = []" and v: "concat vs = ''1.1''"
    and hs: "\<forall>(f, xs)\<in>set hs. f \<noteq> [] \<and> length f \<le> 4096 \<and> concat xs \<noteq> [] \<and> fkey f \<noteq> fkey ''Content-Encoding'' \<and> fkey f \<noteq> fkey ''Content-Type''"
    and first: "lexer l d = (request_message [''GET''] us vs hs keep bs, HPE_OK, l1)"
    and both: "lexer l d2 = (request_message [''GET''] us vs hs keep bs @ [EvMessageBegin, EvMethod x, EvMethodComplete] @ es, HPE_OK, l2)"
    and x: "x \<in> set s_methods" and fit: "length d \<le> n" "length d2 \<le> n"
  shows "(\<exists>q. recvRequest mk gz lexer finish l n ((None, Bytes d) # rs) = Inr (Some (RecvOK, Some q)) \<and> q_path q = url_getPath u) \<and>
    recvRequest mk gz lexer finish l n ((None, Bytes d2) # rs) = Inr (Some (RecvERROR, None))"
proof -
  let ?p = "on_MessageComplate (\<lambda>_. 0) HttpRequestParser_new"
  have m: "StringToHttpMethod (concat [''GET'']) = 1" "(1::nat) \<noteq> INVAILD_METHOD"
    by (simp_all add: StringToHttpMethod_GET INVAILD_METHOD_def)
  obtain p' where p': "request_events mk gz (request_message [''GET''] us vs hs keep bs) ?p = Inr (True, p')"
    "q_path (r_data p') = url_getPath u" "r_method p' = concat [''GET'']" "quiet p'"
    using request_run[where mk = mk and gz = gz and us = us and vs = vs, OF fresh_new(2)[of "\<lambda>_. 0"] m u v hs, of keep bs] by auto
  have c: "completes mk gz (request_message [''GET''] us vs hs keep bs) ?p"
    using completes_append[OF p'(1), of "[]"] by (simp add: request_message_def)
  have "StringToHttpMethod (''GET'' @ x) = INVAILD_METHOD"
    using GET_no_prefix x by (simp add: list_all_iff)
  then have "\<exists>p2. request_events mk gz (request_message [''GET''] us vs hs keep bs @ [EvMessageBegin, EvMethod x, EvMethodComplete] @ es) ?p = Inr (False, p2)"
    using p' by (simp add: events_append on_message_begin_def on_Method_def on_Method_complate_def quiet_def)
  then show ?thesis
    using p'(1,2) c first both fit by (auto simp: recvRequest_def Let_def)
qed

definition demo_lexer :: "unit llhttp" where
  "demo_lexer l d =
     (request_message [''GET''] [''/''] [''1.1''] [] True [] @
      (if d = ''1'' then [] else [EvMessageBegin, EvMethod ''PUT'', EvMethodComplete]), HPE_OK, l)"

theorem pipelined_requests_refused_witness:
  "recvRequest demo_url Some demo_lexer (\<lambda>_. []) () 100 [(None, Bytes ''2'')] = Inr (Some (RecvERROR, None))"
proof -
  have "''PUT'' \<in> set s_methods"
    by (simp add: s_methods_def)
  then show ?thesis
    using pipelined_requests_refused[of "[''/'']" demo_url "url_new\<lparr>url_path := ''/''\<rparr>" "[''1.1'']" "[]" demo_lexer "()" "''1''" True "[]" "()" "''2''"
        "''PUT''" "[]" "()" 100 Some "\<lambda>_. []" "[]"]
    by (simp add: demo_url_def demo_lexer_def url_new_def)
qed

subsection \<open>Administration\<close>



subsection \<open>Dispatch\<close>

lemma find_append_none: "find P xs = None \<Longrightarrow> find P (xs @ ys) = find P ys"
  by (induction xs) auto

lemma erase_first_none: "find P xs = None \<Longrightarrow> find P (erase_first Q xs) = None"
  by (induction xs) (auto split: if_splits)



text \<open>Once a connection is kept alive it stays so: every further request is answered, also after one that asks to close it.\<close>

lemma keep_alive_sticks:
  assumes "\<forall>(st, rq, tk)\<in>set rs. st = RecvOK \<and> rq \<noteq> None" and "\<forall>s. gzip env s \<noteq> None"
  shows "\<exists>ts a'. handleClient env d True rs a = Inr (ts, False, a') \<and> length ts = length rs"
  using assms(1)
proof (induction rs arbitrary: a)
  case (Cons x rs)
  obtain q tk where x: "x = (RecvOK, Some q, tk)"
    using Cons.prems by (cases x) auto
  obtain r a1 where s: "serve_one env d True tk q a = (r, a1)" by (cases "serve_one env d True tk q a")
  have "\<exists>t r'. sendResponse (gzip env) r q = Inr (t, r')"
    using assms(2)[rule_format, of "p_body r"] by (auto simp: sendResponse_def Let_def split: option.split)
  then show ?case
    using Cons.IH[of a1] Cons.prems x s by auto
qed simp

end
