(* ===== verification/HttpClient.thy ===== *)
theory HttpClient
  imports HttpSession
begin

text \<open>
  The client side: the parser of responses (\<open>src/src/http/httpParser.cpp\<close>), the requests a client makes, and the pool of
  connections to one host (\<open>src/src/http/httpconnection.{h,cpp}\<close>). Connecting and TLS are arguments.
\<close>

subsection \<open>The parser of responses\<close>

record HttpResponseParser =
  s_headerfield :: string
  s_headervalue :: string
  s_reason :: string
  s_body :: string
  s_version :: string
  s_data :: HttpResponse
  s_Statuscb :: "int option"
  s_versioncb :: "int option"
  s_headerFieldcb :: "int option"
  s_headerValuecb :: "int option"
  s_Bodycb :: "(string \<Rightarrow> int) option"
  s_messageBegcb :: "int option"
  s_headerCmpcb :: "int option"
  s_StatusCmpcb :: "(string \<Rightarrow> int) option"
  s_versionCmpcb :: "(string \<Rightarrow> int) option"
  s_messageCmpcb :: "(HttpResponse \<Rightarrow> int) option"

definition HttpResponseParser_new :: HttpResponseParser where
  "HttpResponseParser_new =
     \<lparr>s_headerfield = [], s_headervalue = [], s_reason = [], s_body = [], s_version = [], s_data = response_new 0x11 True,
      s_Statuscb = None, s_versioncb = None, s_headerFieldcb = None, s_headerValuecb = None, s_Bodycb = None, s_messageBegcb = None,
      s_headerCmpcb = None, s_StatusCmpcb = None, s_versionCmpcb = None, s_messageCmpcb = None\<rparr>"

definition rs_StatusCb :: "int \<Rightarrow> HttpResponseParser \<Rightarrow> HttpResponseParser" where
  "rs_StatusCb cb p = p\<lparr>s_Statuscb := Some cb\<rparr>"

definition rs_StatusComplateCb :: "(string \<Rightarrow> int) \<Rightarrow> HttpResponseParser \<Rightarrow> HttpResponseParser" where
  "rs_StatusComplateCb cb p = p\<lparr>s_StatusCmpcb := Some cb\<rparr>"

definition rs_VersionCb :: "int \<Rightarrow> HttpResponseParser \<Rightarrow> HttpResponseParser" where
  "rs_VersionCb cb p = p\<lparr>s_versioncb := Some cb\<rparr>"

definition rs_VersionComplateCb :: "(string \<Rightarrow> int) \<Rightarrow> HttpResponseParser \<Rightarrow> HttpResponseParser" where
  "rs_VersionComplateCb cb p = p\<lparr>s_versionCmpcb := Some cb\<rparr>"

definition rs_HeaderFieldCb :: "int \<Rightarrow> HttpResponseParser \<Rightarrow> HttpResponseParser" where
  "rs_HeaderFieldCb cb p = p\<lparr>s_headerFieldcb := Some cb\<rparr>"

definition rs_HeaderValueCb :: "int \<Rightarrow> HttpResponseParser \<Rightarrow> HttpResponseParser" where
  "rs_HeaderValueCb cb p = p\<lparr>s_headerValuecb := Some cb\<rparr>"

definition rs_HeaderCompalteCb :: "int \<Rightarrow> HttpResponseParser \<Rightarrow> HttpResponseParser" where
  "rs_HeaderCompalteCb cb p = p\<lparr>s_headerCmpcb := Some cb\<rparr>"

definition rs_BodyCb :: "(string \<Rightarrow> int) \<Rightarrow> HttpResponseParser \<Rightarrow> HttpResponseParser" where
  "rs_BodyCb cb p = p\<lparr>s_Bodycb := Some cb\<rparr>"

definition rs_MessageComplateCb :: "(HttpResponse \<Rightarrow> int) \<Rightarrow> HttpResponseParser \<Rightarrow> HttpResponseParser" where
  "rs_MessageComplateCb cb p = p\<lparr>s_messageCmpcb := Some cb\<rparr>"

definition rs_MessageBeginCb :: "int \<Rightarrow> HttpResponseParser \<Rightarrow> HttpResponseParser" where
  "rs_MessageBeginCb cb p = p\<lparr>s_messageBegcb := Some cb\<rparr>"

definition response_parser_reset :: "HttpResponseParser \<Rightarrow> HttpResponseParser" where
  "response_parser_reset p = p\<lparr>s_body := [], s_headerfield := [], s_headervalue := [], s_reason := [], s_version := []\<rparr>"

type_synonym answered = "int \<times> HttpResponseParser"

definition rs_Status :: "string \<Rightarrow> HttpResponseParser \<Rightarrow> answered" where
  "rs_Status at p = (ret (s_Statuscb p), p\<lparr>s_reason := s_reason p @ at\<rparr>)"

definition rs_Status_complate :: "HttpResponseParser \<Rightarrow> answered" where
  "rs_Status_complate p =
     (let status = StringToHttpStatus (s_reason p) in
      if status = INVAILD_STATUS then (-1, p)
      else (ret_with (s_StatusCmpcb p) (s_reason p), p\<lparr>s_data := (s_data p)\<lparr>p_reason := s_reason p, p_status := status\<rparr>\<rparr>))"

definition rs_Version :: "string \<Rightarrow> HttpResponseParser \<Rightarrow> answered" where
  "rs_Version at p = (ret (s_versioncb p), p\<lparr>s_version := s_version p @ at\<rparr>)"

definition rs_Version_complate :: "nat \<Rightarrow> nat \<Rightarrow> HttpResponseParser \<Rightarrow> answered" where
  "rs_Version_complate major minor p =
     (let tem = ''HTTP/'' @ s_version p in
      if c_str tem \<noteq> ''HTTP/1.1'' \<and> c_str tem \<noteq> ''HTTP/1.0'' then (-1, p)
      else (ret_with (s_versionCmpcb p) tem, p\<lparr>s_data := (s_data p)\<lparr>p_version := version_byte major minor\<rparr>\<rparr>))"

definition rs_header_field :: "string \<Rightarrow> HttpResponseParser \<Rightarrow> answered" where
  "rs_header_field at p =
     (if length (s_headerfield p) + length at > 8192 then (-1, p)
      else
        let q = (if s_headerfield p \<noteq> [] \<and> s_headervalue p \<noteq> []
                 then response_setHeader (s_headerfield p) (s_headervalue p) (s_data p) else s_data p)
        in (ret (s_headerFieldcb p), p\<lparr>s_data := q, s_headerfield := headerFieldFormat at, s_headervalue := []\<rparr>))"

definition rs_header_value :: "string \<Rightarrow> HttpResponseParser \<Rightarrow> answered" where
  "rs_header_value at p = (ret (s_headerValuecb p), p\<lparr>s_headervalue := s_headervalue p @ at\<rparr>)"

definition rs_Header_complate :: "bool \<Rightarrow> HttpResponseParser \<Rightarrow> answered" where
  "rs_Header_complate keep p =
     (let q = (if s_headerfield p \<noteq> [] then response_setHeader (s_headerfield p) (s_headervalue p) (s_data p) else s_data p)
      in (ret (s_headerCmpcb p), p\<lparr>s_data := q\<lparr>p_keepAlive := keep\<rparr>\<rparr>))"

definition rs_message_begin :: "HttpResponseParser \<Rightarrow> answered" where
  "rs_message_begin p = (ret (s_messageBegcb p), p)"

definition rs_body :: "string \<Rightarrow> HttpResponseParser \<Rightarrow> answered" where
  "rs_body at p = (ret_with (s_Bodycb p) at, p\<lparr>s_body := s_body p @ at\<rparr>)"

definition rs_Message_complate :: "(string \<Rightarrow> string option) \<Rightarrow> HttpResponseParser \<Rightarrow> answered res" where
  "rs_Message_complate decompress p =
     (let q = s_data p; body = s_body p in
      bnd (if checkEncoding (response_getHeader ''Content-Encoding'' [] q) ''gzip'' \<and> \<not> length body < 20
           then (case decompress body of None \<Rightarrow> Inl UncaughtException
                 | Some b \<Rightarrow> Inr (b, response_delHeader ''Content-Encoding''
                                       (response_setHeader ''Content-Length'' (to_string_nat (length b)) q)))
           else Inr (body, q))
      (\<lambda>(b, q1).
        let q2 = q1\<lparr>p_body := b\<rparr> in
        Inr (ret_with (s_messageCmpcb p) q2, p\<lparr>s_data := q2, s_body := []\<rparr>)))"

fun response_event :: "(string \<Rightarrow> string option) \<Rightarrow> llhttp_event \<Rightarrow> HttpResponseParser \<Rightarrow> answered res" where
  "response_event gz (EvStatus at) p = Inr (rs_Status at p)"
| "response_event gz EvStatusComplete p = Inr (rs_Status_complate p)"
| "response_event gz (EvVersion at) p = Inr (rs_Version at p)"
| "response_event gz (EvVersionComplete a b) p = Inr (rs_Version_complate a b p)"
| "response_event gz (EvHeaderField at) p = Inr (rs_header_field at p)"
| "response_event gz (EvHeaderValue at) p = Inr (rs_header_value at p)"
| "response_event gz (EvHeadersComplete k) p = Inr (rs_Header_complate k p)"
| "response_event gz EvMessageBegin p = Inr (rs_message_begin p)"
| "response_event gz (EvBody at) p = Inr (rs_body at p)"
| "response_event gz EvMessageComplete p = rs_Message_complate gz p"
| "response_event gz (EvMethod at) p = Inr (0, p)"
| "response_event gz EvMethodComplete p = Inr (0, p)"
| "response_event gz (EvUrl at) p = Inr (0, p)"
| "response_event gz EvUrlComplete p = Inr (0, p)"

text \<open>The third component says whether the callback for a complete message was reached.\<close>

fun response_events :: "(string \<Rightarrow> string option) \<Rightarrow> llhttp_event list \<Rightarrow> HttpResponseParser \<Rightarrow> (bool \<times> HttpResponseParser \<times> bool) res" where
  "response_events gz [] p = Inr (True, p, False)"
| "response_events gz (e # es) p =
     bnd (response_event gz e p) (\<lambda>(rt, p1).
       if rt \<noteq> 0 then Inr (False, p1, e = EvMessageComplete)
       else bnd (response_events gz es p1) (\<lambda>(ok, p2, f). Inr (ok, p2, f \<or> e = EvMessageComplete)))"

subsection \<open>Reading a response\<close>

fun recv_response_loop ::
  "(string \<Rightarrow> string option) \<Rightarrow> 'l llhttp \<Rightarrow> ('l \<Rightarrow> llhttp_event list) \<Rightarrow> (nat option \<times> read_result) list \<Rightarrow>
   nat \<Rightarrow> nat \<Rightarrow> bool \<Rightarrow> 'l \<Rightarrow> HttpResponseParser \<Rightarrow> nat \<Rightarrow> (RecvStatus \<times> HttpResponse option) option res"
where
  "recv_response_loop gz lexer finish [] vec offset fin l p gsize = Inr None"
| "recv_response_loop gz lexer finish ((g, r) # rs) vec offset fin l p gsize =
     (let size = (case g of Some n \<Rightarrow> n | None \<Rightarrow> gsize) in
      case r of
        Closed \<Rightarrow>
          bnd (response_events gz (finish l) p) (\<lambda>(_, p1, f).
            if fin \<or> f then Inr (Some (RecvOK, Some (s_data p1))) else Inr (Some (RecvCLOSE, None)))
      | Again \<Rightarrow> recv_response_loop gz lexer finish rs vec offset fin l p size
      | Failed \<Rightarrow> Inr (Some (RecvERROR, None))
      | Bytes d \<Rightarrow>
          if offset + length d > vec then Inl OutOfBounds
          else
            let (es, err, l1) = lexer l d in
            bnd (response_events gz es p) (\<lambda>(ok, p1, f).
              let offset1 = offset + length d; fin1 = (fin \<or> f) in
              if fin1 then Inr (Some (RecvOK, Some (s_data p1)))
              else if (if ok then err else HPE_ERROR) \<noteq> HPE_OK then Inr (Some (RecvERROR, None))
              else if offset1 \<ge> size then recv_response_loop gz lexer finish rs (size * 2) offset1 fin1 l1 p1 (size * 2)
              else recv_response_loop gz lexer finish rs vec offset1 fin1 l1 p1 size))"

subsection \<open>Making a request\<close>

fun add_headers :: "(string \<times> string) list \<Rightarrow> bool \<Rightarrow> HttpRequest \<Rightarrow> bool \<times> HttpRequest" where
  "add_headers [] hashost q = (hashost, q)"
| "add_headers ((k, v) # hs) hashost q =
     (if strcasecmp k ''connection'' = 0 then add_headers hs hashost (q\<lparr>q_keepAlive := (strcasecmp v ''keep-alive'' = 0)\<rparr>)
      else add_headers hs (if \<not> hashost \<and> strcasecmp k ''host'' = 0 then v \<noteq> [] else hashost) (request_setHeader k v q))"

text \<open>\<open>host\<close> is the host of the URL, or that of the pool.\<close>

definition make_request :: "HttpMethod \<Rightarrow> Url \<Rightarrow> string \<Rightarrow> (string \<times> string) list \<Rightarrow> string \<Rightarrow> HttpRequest" where
  "make_request method url host header body =
     (let q = (request_new 0x11 True)\<lparr>q_method := method, q_path := url_getPath url, q_query := url_query url, q_fragment := url_fragment url\<rparr>;
          (hashost, q1) = add_headers header False q;
          q2 = (if hashost then q1 else request_setHeader ''Host'' host q1)
      in q2\<lparr>q_body := body\<rparr>)"

text \<open>The host of a pool is its virtual one, if it has one.\<close>

definition pool_request :: "HttpMethod \<Rightarrow> Url \<Rightarrow> string \<Rightarrow> string \<Rightarrow> (string \<times> string) list \<Rightarrow> string \<Rightarrow> HttpRequest" where
  "pool_request method url host vhost header body = make_request method url (if vhost = [] then host else vhost) header body"

definition sendRequest :: "(string \<Rightarrow> string option) \<Rightarrow> HttpRequest \<Rightarrow> (string \<times> HttpRequest) res" where
  "sendRequest compress request =
     bnd (if q_body request \<noteq> [] \<and> length (q_body request) > 20
          then case compress (q_body request) of None \<Rightarrow> Inl UncaughtException
            | Some z \<Rightarrow> Inr (request_setHeader ''Content-Length'' (to_string_nat (length z))
                               (request_setHeader ''Content-Encoding'' ''gzip'' (request\<lparr>q_body := z\<rparr>)))
          else Inr request)
     (\<lambda>q. let q1 = request_setHeader ''Accept-Encoding'' ''gzip'' q in Inr (request_toString q1, q1))"

subsection \<open>The pool\<close>

text \<open>A connection is known by its address; \<open>isConnected\<close> is asked of its socket.\<close>

record HttpConnection =
  conn_id :: nat
  m_createTime :: nat
  m_requestSize :: nat
  m_isBusy :: bool

record HttpConnectionPool =
  m_pool :: "HttpConnection list"
  m_total :: int
  m_maxAliveTime :: nat
  m_maxSize :: nat
  m_maxRequest :: nat

definition expired :: "nat \<Rightarrow> HttpConnectionPool \<Rightarrow> HttpConnection \<Rightarrow> bool" where
  "expired now P c \<longleftrightarrow> m_createTime c + m_maxAliveTime P \<le> now"

text \<open>The loop over the idle connections: the first good one, the rest, and the bad ones before it.\<close>

fun pick :: "nat \<Rightarrow> (nat \<Rightarrow> bool) \<Rightarrow> HttpConnectionPool \<Rightarrow> HttpConnection list \<Rightarrow> HttpConnection option \<times> HttpConnection list \<times> HttpConnection list" where
  "pick now up P [] = (None, [], [])"
| "pick now up P (c # cs) =
     (if \<not> up (conn_id c) \<or> expired now P c \<or> m_isBusy c
      then (let (r, rest, bad) = pick now up P cs in (r, rest, c # bad))
      else (Some (c\<lparr>m_isBusy := True\<rparr>), cs, []))"

text \<open>\<open>fresh\<close> is the new connection, with the time of the system clock, or \<open>None\<close> when there is no address, socket, connection or TLS session.\<close>

definition getConnnection :: "nat \<Rightarrow> (nat \<Rightarrow> bool) \<Rightarrow> (nat \<times> nat) option \<Rightarrow> HttpConnectionPool \<Rightarrow> HttpConnection option \<times> HttpConnectionPool" where
  "getConnnection now up fresh P =
     (let (r, rest, bad) = pick now up P (m_pool P); P1 = P\<lparr>m_pool := rest\<rparr> in
      if int (length bad) > m_total P then (None, P1)
      else
        let P2 = P1\<lparr>m_total := m_total P - int (length bad)\<rparr> in
        case r of Some c \<Rightarrow> (Some c, P2)
        | None \<Rightarrow>
          (case fresh of None \<Rightarrow> (None, P2)
           | Some (i, sysclock) \<Rightarrow>
             (Some \<lparr>conn_id = i, m_createTime = sysclock, m_requestSize = 0, m_isBusy = False\<rparr>, P2\<lparr>m_total := m_total P2 + 1\<rparr>)))"

definition ReleasePtr :: "nat \<Rightarrow> (nat \<Rightarrow> bool) \<Rightarrow> HttpConnection \<Rightarrow> HttpConnectionPool \<Rightarrow> HttpConnectionPool" where
  "ReleasePtr now up conn P =
     (let c = conn\<lparr>m_requestSize := m_requestSize conn + 1\<rparr> in
      if \<not> up (conn_id c) \<or> expired now P c \<or> m_requestSize c \<ge> m_maxRequest P
      then P\<lparr>m_total := m_total P - 1\<rparr>
      else if length (m_pool P) < m_maxSize P then P\<lparr>m_pool := m_pool P @ [c\<lparr>m_isBusy := False\<rparr>]\<rparr>
      else P\<lparr>m_total := m_total P - 1\<rparr>)"

text \<open>Users of the pool in any order: \<open>used\<close> are the connections handed out and not yet given back.\<close>

inductive conn_pool_step :: "HttpConnection list \<times> HttpConnectionPool \<Rightarrow> HttpConnection list \<times> HttpConnectionPool \<Rightarrow> bool" where
  get: "getConnnection now up fresh P = (Some c, P1) \<Longrightarrow>
    (\<forall>i t. fresh = Some (i, t) \<longrightarrow> i \<notin> conn_id ` (set used \<union> set (m_pool P))) \<Longrightarrow> conn_pool_step (used, P) (c # used, P1)"
| get_fails: "getConnnection now up fresh P = (None, P1) \<Longrightarrow>
    (\<forall>i t. fresh = Some (i, t) \<longrightarrow> i \<notin> conn_id ` (set used \<union> set (m_pool P))) \<Longrightarrow> conn_pool_step (used, P) (used, P1)"
| release: "conn_pool_step (xs @ c # ys, P) (xs @ ys, ReleasePtr now up c P)"

definition conn_pool_new :: "nat \<Rightarrow> nat \<Rightarrow> nat \<Rightarrow> HttpConnectionPool" where
  "conn_pool_new aliveTime maxRequest maxSize =
     \<lparr>m_pool = [], m_total = 0, m_maxAliveTime = aliveTime, m_maxSize = maxSize, m_maxRequest = maxRequest\<rparr>"

subsection \<open>Its invariant\<close>

definition conn_pool_ok :: "HttpConnection list \<times> HttpConnectionPool \<Rightarrow> bool" where
  "conn_pool_ok = (\<lambda>(used, P). m_total P = int (length used + length (m_pool P)) \<and> length (m_pool P) \<le> m_maxSize P \<and>
     distinct (map conn_id (used @ m_pool P)) \<and> (\<forall>c\<in>set (m_pool P). \<not> m_isBusy c \<and> m_requestSize c < m_maxRequest P))"

lemma pick_parts:
  "pick now up P cs = (r, rest, bad) \<Longrightarrow>
     case r of None \<Rightarrow> rest = [] \<and> bad = cs
     | Some c \<Rightarrow> (\<exists>c0. cs = bad @ c0 # rest \<and> c = c0\<lparr>m_isBusy := True\<rparr> \<and> up (conn_id c0) \<and> \<not> expired now P c0 \<and> \<not> m_isBusy c0)"
proof (induction cs arbitrary: r rest bad)
  case (Cons c cs)
  obtain r' rest' bad' where p: "pick now up P cs = (r', rest', bad')" by (cases "pick now up P cs") auto
  show ?case
    using Cons.IH[OF p] Cons.prems p by (cases r') (auto split: if_splits)
qed simp

text \<open>No connection of the pool is counted wrongly when one is taken.\<close>

lemma getConnnection_ok:
  assumes ok: "conn_pool_ok (used, P)" and g: "getConnnection now up fresh P = (r, P1)"
    and new: "\<forall>i t. fresh = Some (i, t) \<longrightarrow> i \<notin> conn_id ` (set used \<union> set (m_pool P))"
  shows "case r of Some c \<Rightarrow> conn_pool_ok (c # used, P1) | None \<Rightarrow> conn_pool_ok (used, P1)"
proof -
  obtain q rest bad where p: "pick now up P (m_pool P) = (q, rest, bad)" by (cases "pick now up P (m_pool P)") auto
  note parts = pick_parts[OF p]
  have le: "length bad \<le> length (m_pool P)"
    using parts by (auto split: option.splits)
  then have t: "\<not> int (length bad) > m_total P"
    using ok by (simp add: conn_pool_ok_def)
  show ?thesis
  proof (cases q)
    case None
    then show ?thesis
      using ok g p t parts new by (auto simp: getConnnection_def conn_pool_ok_def Let_def split: option.splits)
  next
    case (Some c)
    then obtain c0 where c0: "m_pool P = bad @ c0 # rest" "c = c0\<lparr>m_isBusy := True\<rparr>" "\<not> m_isBusy c0"
      using parts by auto
    have "r = Some c" "P1 = P\<lparr>m_pool := rest, m_total := m_total P - int (length bad)\<rparr>"
      using g p t Some by (auto simp: getConnnection_def Let_def)
    then show ?thesis
      using ok c0 by (auto simp: conn_pool_ok_def)
  qed
qed

lemma ReleasePtr_ok: "conn_pool_ok (xs @ c # ys, P) \<Longrightarrow> conn_pool_ok (xs @ ys, ReleasePtr now up c P)"
  by (auto simp: conn_pool_ok_def ReleasePtr_def Let_def)

lemma conn_pool_step_ok: "conn_pool_step s s' \<Longrightarrow> conn_pool_ok s \<Longrightarrow> conn_pool_ok s'"
proof (induction rule: conn_pool_step.induct)
  case (get now up fresh P c P1 used)
  then show ?case using getConnnection_ok[OF get.prems get.hyps] by simp
next
  case (get_fails now up fresh P P1 used)
  then show ?case using getConnnection_ok[OF get_fails.prems get_fails.hyps] by simp
next
  case (release xs c ys P now up)
  then show ?case by (rule ReleasePtr_ok)
qed

lemma conn_pool_reachable: "conn_pool_step\<^sup>*\<^sup>* s s' \<Longrightarrow> conn_pool_ok s \<Longrightarrow> conn_pool_ok s'"
  by (induction rule: rtranclp_induct) (auto intro: conn_pool_step_ok)

lemma getConnnection_total:
  assumes "conn_pool_ok (used, P)" and "fresh \<noteq> None"
  shows "fst (getConnnection now up fresh P) \<noteq> None"
proof -
  obtain q rest bad where p: "pick now up P (m_pool P) = (q, rest, bad)" by (cases "pick now up P (m_pool P)") auto
  have "length bad \<le> length (m_pool P)"
    using pick_parts[OF p] by (auto split: option.splits)
  then show ?thesis
    using assms p by (auto simp: getConnnection_def conn_pool_ok_def Let_def split: option.split)
qed

text \<open>C31. However the users of a pool take connections and give them back, its counter is the number of connections in use and idle, at
  most the configured number is idle, no connection is in the hands of two users or idle and in use
  at once, an idle one is not marked busy and may serve another request; and taking one fails only if a new
  connection cannot be made. A connection notes the time of the system clock and its age is taken from the monotonic
  one: as long as that is behind, no connection ever expires.\<close>

theorem pool_counts:
  assumes "conn_pool_step\<^sup>*\<^sup>* ([], conn_pool_new alive requests idle) (used, P)"
  shows "m_total P = int (length used + length (m_pool P)) \<and> length (m_pool P) \<le> m_maxSize P \<and>
    distinct (map conn_id (used @ m_pool P)) \<and> (\<forall>c\<in>set (m_pool P). \<not> m_isBusy c \<and> m_requestSize c < m_maxRequest P) \<and>
    (fresh \<noteq> None \<longrightarrow> fst (getConnnection now up fresh P) \<noteq> None) \<and>
    (now \<le> m_createTime c \<and> 0 < m_maxAliveTime P \<longrightarrow> \<not> expired now P c)"
proof -
  have "conn_pool_ok ([], conn_pool_new alive requests idle)"
    by (simp add: conn_pool_ok_def conn_pool_new_def)
  from conn_pool_reachable[OF assms this] have "conn_pool_ok (used, P)" .
  then show ?thesis
    using getConnnection_total[of used P fresh now up] by (auto simp: conn_pool_ok_def expired_def)
qed

theorem pool_counts_witness:
  "\<exists>c P. conn_pool_step\<^sup>*\<^sup>* ([], conn_pool_new 60000 100 10) ([c], P) \<and> m_total P = 1"
proof -
  let ?c = "\<lparr>conn_id = 7, m_createTime = 5, m_requestSize = 0, m_isBusy = False\<rparr>"
  have "conn_pool_step ([], conn_pool_new 60000 100 10) ([?c], (conn_pool_new 60000 100 10)\<lparr>m_total := 1\<rparr>)"
    by (rule conn_pool_step.get[where now = 0 and up = "\<lambda>_. True" and fresh = "Some (7, 5)"]) (simp_all add: getConnnection_def conn_pool_new_def)
  then have s: "conn_pool_step\<^sup>*\<^sup>* ([], conn_pool_new 60000 100 10) ([?c], (conn_pool_new 60000 100 10)\<lparr>m_total := 1\<rparr>)" ..
  have "m_total ((conn_pool_new 60000 100 10)\<lparr>m_total := 1\<rparr>) = 1"
    using pool_counts[OF s, of None 0 "\<lambda>_. True" ?c] by (simp add: conn_pool_new_def)
  then show ?thesis
    using s by (intro exI conjI)
qed

text \<open>The status of a response is that of its reason phrase, whatever its number; an unknown phrase is refused.\<close>

lemma status_by_reason:
  "s_StatusCmpcb p = None \<Longrightarrow> rs_Status_complate p =
     (if StringToHttpStatus (s_reason p) = INVAILD_STATUS then (-1, p)
      else (0, p\<lparr>s_data := (s_data p)\<lparr>p_reason := s_reason p, p_status := StringToHttpStatus (s_reason p)\<rparr>\<rparr>))"
  by (simp add: rs_Status_complate_def ret_with_def Let_def)

text \<open>A body of at most 20 bytes is sent without its length, unless the caller gave it.\<close>

lemma short_body_without_length:
  assumes "length (q_body q) \<le> 20" and "fields_ok (q_header q)" and "request_getHeader ''Content-Length'' [] q = []"
  shows "\<exists>s q1. sendRequest gz q = Inr (s, q1) \<and> q_body q1 = q_body q \<and> request_getHeader ''Content-Length'' [] q1 = []"
proof -
  have "length (fkey ''Content-Length'') = 14" "length (fkey ''Accept-Encoding'') = 15"
    by (simp_all add: fkey_def c_str_def)
  then have "fkey ''Content-Length'' \<noteq> fkey ''Accept-Encoding''"
    by auto
  then show ?thesis
    using assms qh.get_put[OF assms(2), of "''Content-Length''" "[]" "''Accept-Encoding''" "''gzip''"]
    by (simp add: sendRequest_def Let_def) (simp add: request_setHeader_def)
qed

end
