(* ===== verification/Spec2Isabelle.thy ===== *)
theory Spec2Isabelle
  imports Prelude Resp RespStream CommandTable Double SkipList SkipListSpec ConfigParser ConfigCommands ZSetCommands Dispatch Access Invariant Session Server Lifecycle ByteArraySpec AsyncIo Addresses HttpClient
begin

text \<open>
  A verification development of BlueRedis, a Redis-compatible server in C++ (\<open>src/\<close>).

  \<^bold>\<open>The program.\<close> A connection (\<open>src/src/net/msocket.h\<close>) sends RESP frames. \<open>CommandHandler\<close>
  (\<open>src/redis_command/command_handler.cpp\<close>) feeds the received bytes to an incremental parser
  (\<open>src/src/util/resp_parser.{h,cpp}\<close>), keeps the connection's mode (normal, transaction,
  subscription) and passes ordinary commands in batches to \<open>CommandHandlerTable::executeTable\<close>
  (\<open>src/redis_command/command/command_handler_table.{h,cpp}\<close>). The dispatcher finds the handler in a table
  sorted by a hash of the name (\<open>command_table.h\<close>, \<open>command_hash.h\<close>), appends writes to the AOF and to the
  replicas, runs the handler and notes slow commands. The handlers work on 16 databases of 128
  shards (\<open>src/redis_command/server_data.{h,cpp}\<close>), each shard with one hash map per data type; sorted sets are a
  skip list (\<open>src/src/util/skiplist.h\<close>) next to a score map. Around them: AOF, slow log, publish/subscribe,
  monitors and replicas (\<open>src/redis_command/modules/\<close>), run-time configuration and its units
  (\<open>src/src/util/config_parser.cpp\<close>).

  \<^bold>\<open>The theories\<close>, from the bottom up:

  \<^item> \<open>Prelude\<close>: faults, the result type and \<open>bnd\<close>, 64-bit checks, characters, \<open>stoi\<close>, \<open>stoll\<close>, \<open>stoull\<close> and
    \<open>to_string\<close>, hash maps as association lists without duplicate keys (locale \<open>hash_container\<close>).
  \<^item> \<open>Resp\<close>, \<open>RespStream\<close>: RESP values, encoder, recursive parser; the stream parser with its offset
    and compaction. Round trip, stability of a parsed prefix, independence of how the stream is cut
    (locales \<open>framing\<close>, \<open>framing_codec\<close>).
  \<^item> \<open>CommandTable\<close>: FNV-1a, the builder's in-place quicksort on an array with unsigned indices, the
    binary search. Sortedness and permutation, agreement with a linear search.
  \<^item> \<open>Double\<close>: IEEE doubles as far as scores need them: order, NaN, rounding of integers, addition.
  \<^item> \<open>SkipList\<close>, \<open>SkipListSpec\<close>: nodes in an explicit heap with forward and span arrays; the code's loops;
    refinement of a sorted association list (locale \<open>skip_order\<close>).
  \<^item> \<open>Connection\<close>: the session fields of \<open>MSocket\<close> and the SCAN cursor codec.
  \<^item> \<open>System\<close>: what the program takes from outside: hashing, clocks, iteration order, random numbers,
    floating-point text conversion, regular expressions, sending, files (record \<open>env\<close>), the configuration
    variables and the other ends of the connections (record \<open>net\<close>).
  \<^item> \<open>Spsc\<close>, \<open>SlowLog\<close>: the lock-free ring, sequentially (locale \<open>bounded_queue\<close>) and as interleaved
    atomic steps; the slow log on it.
  \<^item> \<open>Aof\<close>, \<open>Pubsub\<close>: the append-only file with buffer, flush, rotation and loading; channels, delivery,
    monitors, replicas.
  \<^item> \<open>ServerData\<close>: shards, databases, the world a handler runs in, the flat \<open>view\<close> of a sharded map
    (locale \<open>shard_field\<close>).
  \<^item> \<open>StringCommands\<close>, \<open>HashCommands\<close>, \<open>ListCommands\<close>, \<open>SetCommands\<close>, \<open>ZSetCommands\<close>, \<open>KeyCommands\<close>, \<open>Scan\<close>,
    \<open>ServerCommands\<close>, \<open>ConfigParser\<close>, \<open>ConfigCommands\<close>: one definition \<open>handleX\<close> per handler of the same name, with
    its loops as functions beside it, and what it does to the flat view.
  \<^item> \<open>Rdb\<close>: the snapshot file of \<open>server_data.cpp\<close>, SAVE and BGSAVE; a snapshot restores the data.
    \<open>Replication\<close>: the master's stream of a full synchronisation, SYNC, REPLICAOF, and INFO.
  \<^item> \<open>Dispatch\<close>: validators, the table as registered, \<open>executeTable\<close>; that the built table is what
    it lists. \<open>Access\<close>: which commands are refused without authentication, and what has happened by then.
  \<^item> \<open>Invariant\<close>: the invariant of the server and that every command keeps it.
  \<^item> \<open>Session\<close>: transactions, subscription mode, batches, a received chunk. \<open>Server\<close>: accepting, closing,
    background work, the step relation and its reachable states.
  \<^item> \<open>Replica\<close>, \<open>ReplicaLoop\<close>: the replica: receiving and loading the stream, the online phase as a step
    relation, the replication loop with its retries. A synchronisation rebuilds the master's data, the
    online phase keeps the order of commands, the loop gives up; a log shared by clients on several
    databases is replayed wrongly.
  \<^item> \<open>ByteCodec\<close>, \<open>ByteArray\<close>, \<open>ByteArraySpec\<close>: the serialisation buffer of \<open>src/src/util/bytearray.cpp\<close>, on words
    of their width: byte order, zigzag, variable-length integers, the linked pages; that the pages
    implement a flat sequence, and the round trip of typed values.
  \<^item> \<open>Sched\<close>: the coroutine scheduler of \<open>src/src/core/scheduler.{h,cpp}\<close>, its queues and the worker threads as interleaved
    steps between locks; jobs are conserved, and where one can be missed.
  \<^item> \<open>Timers\<close>: the timer manager of \<open>src/src/core/timer.cpp\<close>, timer objects at addresses in an ordered set; one-shot
    timers fire in time and in order, a recurring one breaks the order.
  \<^item> \<open>IoManager\<close>, \<open>AsyncIo\<close>: \<open>src/src/core/io_manager.cpp\<close> and \<open>asyncio.h\<close>, who waits for which event of which descriptor, on
    the scheduler and the timers, with \<open>epoll_ctl\<close> as a parameter; events fire what was registered, a
    coroutine is resumed once for each wait, two waiters for one event disturb each other.
  \<^item> \<open>Addresses\<close>: \<open>src/src/net/address.cpp\<close>, prefixes and masks, comparison, text, host names; IPv4 prefixes are right, IPv6
    ones are rounded down to whole bytes.
  \<^item> \<open>UrlCodec\<close>, \<open>Http\<close>, \<open>HttpParser\<close>, \<open>HttpSession\<close>, \<open>HttpClient\<close>: the HTTP side, \<open>src/src/util/url*\<close> and \<open>src/src/http/\<close>: percent
    coding, messages with their case-insensitive fields (locale \<open>message_fields\<close>), the callbacks of the parsers on the events of
    \<open>llhttp\<close>, reading and answering requests, servlets, administration, the client and its pool.
  \<^item> \<open>Lifecycle\<close>: what the process loads when it starts and writes when it ends, and what a restart does.

  \<^bold>\<open>State and errors.\<close> A handler is a function from the environment, the arguments and the \<open>world\<close>
  (connections, the current one, server data, configuration, network, files) to a fault or a reply and
  the new world. Faults are what the C++ leaves undefined or does not catch: reading out of bounds or
  after free, signed overflow, division by zero, uncaught exceptions. Error replies are values. Locks
  are not modelled: a handler holds its shard's lock from its first access to its last, so it is one
  step; the ring without locks has its own interleaving model. Machine integers are \<open>int\<close> and \<open>nat\<close> with the
  checks and the wrap-around written out; hashes are \<open>32 word\<close>.

  \<^bold>\<open>Fuel.\<close> Loops end by structural recursion or a measure; only the loops that empty the ring have fuel,
  its capacity, and are proved to end within it.

  \<^bold>\<open>Outside.\<close> Every function of a library or the system is a field of \<open>env\<close>; a theorem that relies
  on its documented behaviour says so (\<open>iter_ok\<close>: a traversal visits every element once; \<open>sends_all\<close>:
  sockets take whole messages; \<open>stod_ok\<close>: decimal integers are read exactly).

  \<^bold>\<open>Not modelled.\<close> epoll itself and the socket wrappers; TLS; \<open>llhttp\<close> and the generated URL parser; the forwarding proxy; logging; the YAML configuration
  loader; the MySQL and Redis client pools.
\<close>

text \<open>C38. Every command of the table, logged or not, keeps the state well formed: if it returns, each
  connection still has a database and a mode that fit, each shard's containers are maps without
  duplicate keys, the subscription registry agrees with the connections, and the ring of the slow
  log is a ring.\<close>

theorem commands_keep_types:
  assumes "sys_ok w" and "executeTable rec e args w = Inr (r, w1)"
  shows "sys_ok w1"
  by (rule keepsD [OF executeTable_keeps assms(2,1)])

theorem commands_keep_types_witness:
  "\<exists>r w1. executeTable False demo_env (map bulk_string [''SET'', ''k'', ''v'']) demo_world = Inr (r, w1) \<and> sys_ok w1"
proof -
  have "m_dbs (self demo_world) = (\<lambda>_ _. shard_empty)" "slowlog_ok (m_slowLog (self demo_world))"
    by (simp_all add: demo_world_def mod_sock_def new_world_def new_server_def slowlog_ok_new)
  then have "ready demo_env demo_world" using contents_fresh(2) [of demo_world demo_env] by (simp add: ready_def)
  from exec_item [OF this, of demo_env "IStr ''k'' \<lparr>val = ''v'', expire = None\<rparr> 0"] obtain r w1 where
    "executeTable False demo_env (map bulk_string [''SET'', ''k'', ''v'']) demo_world = Inr (r, w1)" by auto
  then show ?thesis using commands_keep_types [OF new_world_ok(2)] by blast
qed

end
